(* ===== verification/Hiro_Prelude.thy ===== *)
theory Hiro_Prelude
  imports Main "HOL-Library.AList" "HOL-Library.Char_ord" "HOL-Library.List_Lexorder"
    "HOL-Library.Sublist"
begin

text \<open>
  Shared vocabulary of the development.

  Go strings are byte strings, so they are \<^typ>\<open>string\<close> (a list of 8-bit characters), and
  comparison of strings is the bytewise lexicographic order.  A Go map is an association list
  with distinct keys: the order of the list stands for an iteration order, which Go leaves open,
  so every statement about a map holds for all its representations.  Points in time are integers
  (nanoseconds), and an operation that reads the clock takes the value it reads as an argument.

  The theory defines the parts of the Go library the modelled code calls
  (\<open>strings.TrimSpace\<close>, \<open>strings.Fields\<close>, \<open>strings.Cut\<close>, \<open>strings.IndexByte\<close>,
  \<open>strings.LastIndex\<close>, \<open>strings.Join\<close>, map update and deletion) and the lemmas about
  them that the component theories share.
\<close>

named_theorems gomap_simps \<open>rewrite rules for Go maps\<close>
named_theorems gostring_simps \<open>rewrite rules for Go strings\<close>

section \<open>Go maps\<close>

type_synonym ('k, 'v) gomap = "('k \<times> 'v) list"
type_synonym gotime = int

definition gomap_ok :: "('k, 'v) gomap \<Rightarrow> bool" where
  "gomap_ok m \<longleftrightarrow> distinct (map fst m)"

definition gomap_get :: "('k, 'v) gomap \<Rightarrow> 'k \<Rightarrow> 'v option" where
  "gomap_get m k = map_of m k"

definition gomap_put :: "'k \<Rightarrow> 'v \<Rightarrow> ('k, 'v) gomap \<Rightarrow> ('k, 'v) gomap" where
  "gomap_put k v m = AList.update k v m"

definition gomap_del :: "'k \<Rightarrow> ('k, 'v) gomap \<Rightarrow> ('k, 'v) gomap" where
  "gomap_del k m = AList.delete k m"

text \<open>Reading a key of a map of strings gives the zero value when the key is absent.\<close>

definition gomap_get_str :: "('k, string) gomap \<Rightarrow> 'k \<Rightarrow> string" where
  "gomap_get_str m k = (case gomap_get m k of None \<Rightarrow> [] | Some v \<Rightarrow> v)"

lemma gomap_get_Nil [simp, gomap_simps]: "gomap_get [] k = None"
  by (simp add: gomap_get_def)

lemma gomap_get_put [simp, gomap_simps]:
  "gomap_get (gomap_put k v m) k' = (if k' = k then Some v else gomap_get m k')"
  by (simp add: gomap_get_def gomap_put_def update_conv')

lemma gomap_get_del [simp, gomap_simps]:
  "gomap_get (gomap_del k m) k' = (if k' = k then None else gomap_get m k')"
  by (simp add: gomap_get_def gomap_del_def delete_conv')

lemma gomap_ok_Nil [simp, gomap_simps]: "gomap_ok []"
  by (simp add: gomap_ok_def)

lemma gomap_ok_put [simp, gomap_simps]: "gomap_ok m \<Longrightarrow> gomap_ok (gomap_put k v m)"
  by (simp add: gomap_ok_def gomap_put_def distinct_update)

lemma gomap_ok_del [simp, gomap_simps]: "gomap_ok m \<Longrightarrow> gomap_ok (gomap_del k m)"
  by (simp add: gomap_ok_def gomap_del_def distinct_delete)

lemma gomap_ok_filter [simp, gomap_simps]: "gomap_ok m \<Longrightarrow> gomap_ok (filter P m)"
  by (simp add: gomap_ok_def distinct_map_filter)

lemma gomap_get_filter:
  "gomap_ok m \<Longrightarrow> gomap_get (filter P m) k =
     (case gomap_get m k of None \<Rightarrow> None | Some v \<Rightarrow> if P (k, v) then Some v else None)"
  by (induction m) (auto simp: gomap_ok_def gomap_get_def split: option.splits dest!: map_of_SomeD
    intro: rev_image_eqI)

lemma gomap_get_mem: "gomap_ok m \<Longrightarrow> (k, v) \<in> set m \<longleftrightarrow> gomap_get m k = Some v"
  by (auto simp: gomap_ok_def gomap_get_def)

lemma gomap_get_None: "gomap_get m k = None \<longleftrightarrow> k \<notin> fst ` set m"
  by (simp add: gomap_get_def map_of_eq_None_iff)

lemma gomap_keys_put: "fst ` set (gomap_put k v m) = insert k (fst ` set m)"
  by (simp add: gomap_put_def dom_update)

lemma length_gomap_put:
  "length (gomap_put k v m) = (if gomap_get m k = None then Suc (length m) else length m)"
  by (induction m) (auto simp: gomap_put_def gomap_get_def)

lemma length_gomap_del_le: "length (gomap_del k m) \<le> length m"
  by (simp add: gomap_del_def length_delete_le)

lemma gomap_put_new: "gomap_get m k = None \<Longrightarrow> gomap_put k v m = m @ [(k, v)]"
  by (induction m) (auto simp: gomap_put_def gomap_get_def split: if_splits)

section \<open>Go strings\<close>

text \<open>
  \<open>unicode.IsSpace\<close> holds for the code points below; the list gives their UTF-8 encodings.
  None of them starts with a continuation byte, so matching encodings byte by byte finds the same
  boundaries as decoding runes does.
\<close>

definition space_encodings :: "string list" where
  "space_encodings =
     [[CHR 0x09], [CHR 0x0A], [CHR 0x0B], [CHR 0x0C], [CHR 0x0D], [CHR 0x20],
      [CHR 0xC2, CHR 0x85], [CHR 0xC2, CHR 0xA0], [CHR 0xE1, CHR 0x9A, CHR 0x80],
      [CHR 0xE2, CHR 0x80, CHR 0x80], [CHR 0xE2, CHR 0x80, CHR 0x81],
      [CHR 0xE2, CHR 0x80, CHR 0x82], [CHR 0xE2, CHR 0x80, CHR 0x83],
      [CHR 0xE2, CHR 0x80, CHR 0x84], [CHR 0xE2, CHR 0x80, CHR 0x85],
      [CHR 0xE2, CHR 0x80, CHR 0x86], [CHR 0xE2, CHR 0x80, CHR 0x87],
      [CHR 0xE2, CHR 0x80, CHR 0x88], [CHR 0xE2, CHR 0x80, CHR 0x89],
      [CHR 0xE2, CHR 0x80, CHR 0x8A], [CHR 0xE2, CHR 0x80, CHR 0xA8],
      [CHR 0xE2, CHR 0x80, CHR 0xA9], [CHR 0xE2, CHR 0x80, CHR 0xAF],
      [CHR 0xE2, CHR 0x81, CHR 0x9F], [CHR 0xE3, CHR 0x80, CHR 0x80]]"

definition space_prefix_len :: "string \<Rightarrow> nat" where
  "space_prefix_len s =
     (case find (\<lambda>e. prefix e s) space_encodings of None \<Rightarrow> 0 | Some e \<Rightarrow> length e)"

definition space_suffix_len :: "string \<Rightarrow> nat" where
  "space_suffix_len s =
     (case find (\<lambda>e. suffix e s) space_encodings of None \<Rightarrow> 0 | Some e \<Rightarrow> length e)"

lemma space_encodings_nonempty: "e \<in> set space_encodings \<Longrightarrow> e \<noteq> []"
  by (auto simp: space_encodings_def)

lemma space_prefix_len_le: "space_prefix_len s \<le> length s"
  by (auto simp: space_prefix_len_def find_Some_iff prefix_length_le split: option.splits)

lemma space_suffix_len_le: "space_suffix_len s \<le> length s"
  by (auto simp: space_suffix_len_def find_Some_iff suffix_length_le split: option.splits)

lemma space_prefix_len_0:
  "space_prefix_len s = 0 \<longleftrightarrow> (\<forall>e \<in> set space_encodings. \<not> prefix e s)"
proof (cases "find (\<lambda>e. prefix e s) space_encodings")
  case None
  then have "\<forall>e \<in> set space_encodings. \<not> prefix e s"
    by (simp add: find_None_iff)
  with None show ?thesis by (simp add: space_prefix_len_def)
next
  case (Some e)
  then have "e \<in> set space_encodings" "prefix e s"
    by (auto simp: find_Some_iff)
  with Some show ?thesis
    by (auto simp: space_prefix_len_def dest: space_encodings_nonempty)
qed

lemma space_suffix_len_0:
  "space_suffix_len s = 0 \<longleftrightarrow> (\<forall>e \<in> set space_encodings. \<not> suffix e s)"
proof (cases "find (\<lambda>e. suffix e s) space_encodings")
  case None
  then have "\<forall>e \<in> set space_encodings. \<not> suffix e s"
    by (simp add: find_None_iff)
  with None show ?thesis by (simp add: space_suffix_len_def)
next
  case (Some e)
  then have "e \<in> set space_encodings" "suffix e s"
    by (auto simp: find_Some_iff)
  with Some show ?thesis
    by (auto simp: space_suffix_len_def dest: space_encodings_nonempty)
qed

function trim_left :: "string \<Rightarrow> string" where
  "trim_left s = (if space_prefix_len s = 0 then s else trim_left (drop (space_prefix_len s) s))"
  by pat_completeness auto
termination
proof (relation "measure length")
  fix s :: string assume "space_prefix_len s \<noteq> 0"
  with space_prefix_len_le [of s] show "(drop (space_prefix_len s) s, s) \<in> measure length"
    by simp
qed simp

function trim_right :: "string \<Rightarrow> string" where
  "trim_right s =
     (if space_suffix_len s = 0 then s else trim_right (take (length s - space_suffix_len s) s))"
  by pat_completeness auto
termination
proof (relation "measure length")
  fix s :: string assume "space_suffix_len s \<noteq> 0"
  with space_suffix_len_le [of s] show "(take (length s - space_suffix_len s) s, s) \<in> measure length"
    by simp
qed simp

declare trim_left.simps [simp del] trim_right.simps [simp del]

definition TrimSpace :: "string \<Rightarrow> string" where
  "TrimSpace s = trim_right (trim_left s)"

definition trimmed :: "string \<Rightarrow> bool" where
  "trimmed s \<longleftrightarrow> space_prefix_len s = 0 \<and> space_suffix_len s = 0"

lemma trim_left_no_space [simp]: "space_prefix_len (trim_left s) = 0"
proof (induction s rule: trim_left.induct)
  case (1 s)
  then show ?case by (cases "space_prefix_len s = 0") (simp_all add: trim_left.simps [of s])
qed

lemma trim_right_no_space [simp]: "space_suffix_len (trim_right s) = 0"
proof (induction s rule: trim_right.induct)
  case (1 s)
  then show ?case by (cases "space_suffix_len s = 0") (simp_all add: trim_right.simps [of s])
qed

lemma trim_right_prefix: "prefix (trim_right s) s"
proof (induction s rule: trim_right.induct)
  case (1 s)
  then show ?case
    by (cases "space_suffix_len s = 0")
      (auto simp: trim_right.simps [of s] intro: prefix_order.trans [OF _ take_is_prefix])
qed

lemma space_prefix_len_prefix:
  "prefix t s \<Longrightarrow> space_prefix_len s = 0 \<Longrightarrow> space_prefix_len t = 0"
  by (auto simp: space_prefix_len_0 intro: prefix_order.trans)

lemma trimmed_TrimSpace [simp, gostring_simps]: "trimmed (TrimSpace s)"
  using space_prefix_len_prefix [OF trim_right_prefix trim_left_no_space]
  by (simp add: trimmed_def TrimSpace_def)

lemma TrimSpace_trimmed [simp, gostring_simps]: "trimmed s \<Longrightarrow> TrimSpace s = s"
  by (simp add: trimmed_def TrimSpace_def trim_left.simps [of s] trim_right.simps [of s])

lemma length_trim_left_le: "length (trim_left s) \<le> length s"
proof (induction s rule: trim_left.induct)
  case (1 s)
  then show ?case by (cases "space_prefix_len s = 0") (auto simp: trim_left.simps [of s])
qed

lemma length_TrimSpace_le: "length (TrimSpace s) \<le> length s"
  using prefix_length_le [OF trim_right_prefix, of "trim_left s"] length_trim_left_le [of s]
  by (simp add: TrimSpace_def)

lemma trimmed_Nil [simp]: "trimmed []"
  by (auto simp: trimmed_def space_prefix_len_0 space_suffix_len_0 dest: space_encodings_nonempty)

text \<open>A string that starts with a trimmed word stays free of leading space when the word is
  followed by a byte that occurs in no encoding; dually for the last byte.\<close>

lemma space_prefix_len_append:
  assumes "space_prefix_len t = 0" and "\<forall>e \<in> set space_encodings. c \<notin> set e" and "t \<noteq> []"
  shows "space_prefix_len (t @ c # r) = 0"
proof -
  have "prefix e t" if "prefix e (t @ c # r)" "c \<notin> set e" for e
    using that by (auto simp: prefix_append prefix_Cons)
  with assms(1,2) show ?thesis by (auto simp: space_prefix_len_0)
qed

lemma space_suffix_len_last:
  assumes "\<forall>e \<in> set space_encodings. c \<notin> set e"
  shows "space_suffix_len (t @ [c]) = 0"
proof -
  have "e = []" if "suffix e (t @ [c])" "c \<notin> set e" for e
    using that by (auto simp: suffix_snoc)
  with assms show ?thesis by (auto simp: space_suffix_len_0 dest: space_encodings_nonempty)
qed

text \<open>\<open>strings.Fields\<close>: the words between runs of white space.\<close>

function fields_from :: "string \<Rightarrow> string \<Rightarrow> string list" where
  "fields_from cur [] = (if cur = [] then [] else [cur])"
| "fields_from cur (c # cs) =
     (let n = space_prefix_len (c # cs) in
      if n = 0 then fields_from (cur @ [c]) cs
      else if cur = [] then fields_from [] (drop n (c # cs))
      else cur # fields_from [] (drop n (c # cs)))"
  by pat_completeness auto
termination
  by (relation "measure (\<lambda>(cur, s). length s)") auto

definition Fields :: "string \<Rightarrow> string list" where
  "Fields s = fields_from [] s"

lemma fields_from_nonempty: "w \<in> set (fields_from cur s) \<Longrightarrow> w \<noteq> []"
  by (induction cur s rule: fields_from.induct) (auto simp: Let_def split: if_splits)

lemma Fields_nonempty: "w \<in> set (Fields s) \<Longrightarrow> w \<noteq> []"
  by (simp add: Fields_def fields_from_nonempty)

text \<open>\<open>strings.IndexByte\<close>, \<open>strings.Cut\<close> on one byte, \<open>strings.LastIndex\<close>,
  \<open>strings.Split\<close> on one byte and \<open>strings.Join\<close>.\<close>

fun IndexByte :: "string \<Rightarrow> char \<Rightarrow> nat option" where
  "IndexByte [] c = None"
| "IndexByte (x # xs) c = (if x = c then Some 0 else map_option Suc (IndexByte xs c))"

definition Cut :: "string \<Rightarrow> char \<Rightarrow> (string \<times> string) option" where
  "Cut s c = map_option (\<lambda>i. (take i s, drop (Suc i) s)) (IndexByte s c)"

definition LastIndex :: "string \<Rightarrow> string \<Rightarrow> nat option" where
  "LastIndex s sub = find (\<lambda>i. prefix sub (drop i s)) (rev [0..<Suc (length s)])"

fun SplitByte :: "string \<Rightarrow> char \<Rightarrow> string list" where
  "SplitByte [] c = [[]]"
| "SplitByte (x # xs) c =
     (if x = c then [] # SplitByte xs c
      else case SplitByte xs c of [] \<Rightarrow> [[x]] | w # ws \<Rightarrow> (x # w) # ws)"

fun Join :: "string list \<Rightarrow> string \<Rightarrow> string" where
  "Join [] sep = []"
| "Join [w] sep = w"
| "Join (w # w' # ws) sep = w @ sep @ Join (w' # ws) sep"

lemma IndexByte_None: "IndexByte s c = None \<longleftrightarrow> c \<notin> set s"
  by (induction s) auto

lemma IndexByte_Some:
  "IndexByte s c = Some i \<Longrightarrow> i < length s \<and> s ! i = c \<and> c \<notin> set (take i s)"
  by (induction s arbitrary: i) (auto split: if_splits)

lemma IndexByte_append:
  "c \<notin> set s \<Longrightarrow> IndexByte (s @ c # r) c = Some (length s)"
  by (induction s) auto

lemma Cut_None: "Cut s c = None \<longleftrightarrow> c \<notin> set s"
  by (simp add: Cut_def IndexByte_None)

lemma Cut_Some: "Cut s c = Some (a, b) \<longleftrightarrow> s = a @ c # b \<and> c \<notin> set a"
proof
  assume "Cut s c = Some (a, b)"
  then obtain i where i: "IndexByte s c = Some i" "a = take i s" "b = drop (Suc i) s"
    by (auto simp: Cut_def)
  with IndexByte_Some [OF i(1)] show "s = a @ c # b \<and> c \<notin> set a"
    using id_take_nth_drop [of i s] by simp
next
  assume "s = a @ c # b \<and> c \<notin> set a"
  then show "Cut s c = Some (a, b)" by (simp add: Cut_def IndexByte_append)
qed

section \<open>Lists\<close>

lemma find_snoc_cases:
  "find P (xs @ ys) = (case find P xs of None \<Rightarrow> find P ys | Some x \<Rightarrow> Some x)"
  by (induction xs) auto

section \<open>Numbers\<close>

text \<open>Go's integer division by a positive constant truncates towards zero.\<close>

definition godiv :: "int \<Rightarrow> int \<Rightarrow> int" where
  "godiv a b = (if a \<ge> 0 then a div b else - (- a div b))"

lemma godiv_nonneg [simp]: "0 \<le> a \<Longrightarrow> godiv a b = a div b"
  by (simp add: godiv_def)

text \<open>The verb \<open>%d\<close>: decimal digits with a sign.\<close>

definition digit_char :: "nat \<Rightarrow> char" where
  "digit_char d = char_of (48 + d)"

fun nat_digits :: "nat \<Rightarrow> string" where
  "nat_digits n = (if n < 10 then [digit_char n] else nat_digits (n div 10) @ [digit_char (n mod 10)])"

declare nat_digits.simps [simp del]

definition itoa :: "int \<Rightarrow> string" where
  "itoa i = (if i < 0 then ''-'' @ nat_digits (nat (- i)) else nat_digits (nat i))"

text \<open>\<open>strings.TrimRight\<close> with a set of one-byte characters.\<close>

definition TrimRight :: "string \<Rightarrow> string \<Rightarrow> string" where
  "TrimRight s cutset = rev (dropWhile (\<lambda>c. c \<in> set cutset) (rev s))"

lemma TrimRight_prefix: "prefix (TrimRight s cutset) s"
proof -
  have "suffix (dropWhile (\<lambda>c. c \<in> set cutset) (rev s)) (rev s)" by (simp add: suffix_dropWhile)
  then show ?thesis by (simp add: TrimRight_def suffix_to_prefix)
qed

lemma length_TrimRight: "length (TrimRight s cutset) \<le> length s"
  using TrimRight_prefix prefix_length_le by blast

end
