(* ===== verification/Tool_Rules.thy ===== *)
theory Tool_Rules
  imports Hiro_Prelude
begin

text \<open>
  Tool permission rules, \<open>internal/toolrules/rule.go\<close>: the parsed rule, the parser of the
  \<open>Tool(pattern)\<close> syntax with its four error cases, the list parser that stops at the first
  malformed rule, and the canonical printer.  The lemmas give the exact domain on which parsing
  inverts printing and show that every parsed rule lies in it.
\<close>

record Rule =
  rule_Tool :: string
  rule_Pattern :: string

datatype rule_error =
    EmptyRule
  | UnclosedParen string
  | EmptyToolName string
  | EmptyPattern string

definition ParseRule :: "string \<Rightarrow> rule_error + Rule" where
  "ParseRule s0 =
     (let s = TrimSpace s0 in
      if s = [] then Inl EmptyRule
      else case IndexByte s (CHR ''('') of
        None \<Rightarrow> Inr \<lparr>rule_Tool = s, rule_Pattern = []\<rparr>
      | Some idx \<Rightarrow>
          if last s \<noteq> CHR '')'' then Inl (UnclosedParen s)
          else let tool = TrimSpace (take idx s) in
            if tool = [] then Inl (EmptyToolName s)
            else let pattern = drop (Suc idx) (take (length s - 1) s) in
              if pattern = [] then Inl (EmptyPattern s)
              else Inr \<lparr>rule_Tool = tool, rule_Pattern = pattern\<rparr>)"

fun ParseRules :: "string list \<Rightarrow> rule_error + Rule list" where
  "ParseRules [] = Inr []"
| "ParseRules (s # ss) =
     (case ParseRule s of
        Inl e \<Rightarrow> Inl e
      | Inr r \<Rightarrow> (case ParseRules ss of Inl e \<Rightarrow> Inl e | Inr rs \<Rightarrow> Inr (r # rs)))"

definition Rule_String :: "Rule \<Rightarrow> string" where
  "Rule_String r =
     (if rule_Pattern r = [] then rule_Tool r
      else rule_Tool r @ ''('' @ rule_Pattern r @ '')'')"

definition IsWholeTool :: "Rule \<Rightarrow> bool" where
  "IsWholeTool r \<longleftrightarrow> rule_Pattern r = []"

text \<open>The rules the parser can produce: a trimmed, non-empty tool name without a parenthesis.\<close>

definition canonical_rule :: "Rule \<Rightarrow> bool" where
  "canonical_rule r \<longleftrightarrow>
     rule_Tool r \<noteq> [] \<and> trimmed (rule_Tool r) \<and> CHR ''('' \<notin> set (rule_Tool r)"

lemma space_encodings_no_paren:
  "\<forall>e \<in> set space_encodings. CHR ''('' \<notin> set e" "\<forall>e \<in> set space_encodings. CHR '')'' \<notin> set e"
  by (auto simp: space_encodings_def)

lemma set_trim_left: "set (trim_left s) \<subseteq> set s"
proof (induction s rule: trim_left.induct)
  case (1 s)
  then show ?case
    by (cases "space_prefix_len s = 0")
      (auto simp: trim_left.simps [of s] dest: in_set_dropD)
qed

lemma set_TrimSpace: "set (TrimSpace s) \<subseteq> set s"
  using set_trim_left [of s] set_mono_prefix [OF trim_right_prefix [of "trim_left s"]]
  by (auto simp: TrimSpace_def)

lemma trimmed_printed_rule:
  assumes "canonical_rule r" "rule_Pattern r \<noteq> []"
  shows "trimmed (rule_Tool r @ ''('' @ rule_Pattern r @ '')'')"
  using assms space_prefix_len_append [OF _ space_encodings_no_paren(1), of "rule_Tool r"]
    space_suffix_len_last [OF space_encodings_no_paren(2), of "rule_Tool r @ ''('' @ rule_Pattern r"]
  by (simp add: trimmed_def canonical_rule_def)

lemma ParseRule_String: "canonical_rule r \<Longrightarrow> ParseRule (Rule_String r) = Inr r"
proof (cases "rule_Pattern r = []")
  case True
  moreover assume "canonical_rule r"
  ultimately show ?thesis
    by (simp add: ParseRule_def Rule_String_def canonical_rule_def IndexByte_None [THEN iffD2])
next
  case False
  assume can: "canonical_rule r"
  let ?s = "rule_Tool r @ ''('' @ rule_Pattern r @ '')''"
  have "IndexByte ?s (CHR ''('') = Some (length (rule_Tool r))"
    using can by (simp add: canonical_rule_def IndexByte_append)
  moreover have "TrimSpace ?s = ?s"
    using trimmed_printed_rule [OF can False] by simp
  ultimately show ?thesis
    using can False by (simp add: ParseRule_def Rule_String_def canonical_rule_def)
qed

lemma ParseRule_canonical: "ParseRule s = Inr r \<Longrightarrow> canonical_rule r"
  using set_TrimSpace IndexByte_Some [of "TrimSpace s" "CHR ''(''"]
  by (fastforce simp: ParseRule_def canonical_rule_def Let_def IndexByte_None
      split: if_splits option.splits)

text \<open>The slice \<open>s[idx+1 : len(s)-1]\<close> never panics: the parenthesis found is not the last byte.\<close>

lemma ParseRule_slice_in_range:
  assumes "IndexByte s (CHR ''('') = Some idx" "s \<noteq> []" "last s = CHR '')''"
  shows "Suc idx \<le> length s - 1"
proof -
  have "idx < length s" "s ! idx = CHR ''(''"
    using IndexByte_Some [OF assms(1)] by auto
  moreover have "s ! (length s - 1) = CHR '')''"
    using assms(2,3) by (simp add: last_conv_nth)
  ultimately have "idx \<noteq> length s - 1" by auto
  with \<open>idx < length s\<close> show ?thesis by simp
qed

section \<open>Properties\<close>

text \<open>
  Printing a rule and parsing it again gives the rule back exactly for the canonical rules,
  and every rule the parser accepts is canonical; so parsing normalises a rule string once and
  for all, and white space, a stray parenthesis in the tool name or an empty tool name are the
  only obstacles.
\<close>

theorem ParseRule_String_iff:
  "(ParseRule (Rule_String r) = Inr r \<longleftrightarrow> canonical_rule r) \<and>
   (case ParseRule s of Inl e \<Rightarrow> True | Inr r' \<Rightarrow> ParseRule (Rule_String r') = Inr r')"
  using ParseRule_String ParseRule_canonical by (auto split: sum.splits)

end
