(* ===== verification/Wildcard.thy ===== *)
theory Wildcard
  imports Hiro_Prelude
begin

text \<open>
  Wildcard matching of rule patterns, \<open>internal/toolrules/wildcard.go\<close>.  \<open>matchCore\<close> is the
  two-pointer loop with one backtrack point, kept as the code has it: the loop state is the pair
  of indices and the last star with the text position it was tried at (\<open>None\<close> stands for the
  initial \<open>-1, -1\<close>).  The reference semantics reads a pattern as a list of tokens, a star or a
  literal byte, and matches tokens against text by recursion.  The main lemma is that the loop
  terminates on every input and computes the reference semantics.
\<close>

definition trailingSpaceStarLen :: nat where
  "trailingSpaceStarLen = 2"

definition escapeSeqLen :: nat where
  "escapeSeqLen = 2"

abbreviation STAR :: char where "STAR \<equiv> CHR ''*''"
abbreviation BSLASH :: char where "BSLASH \<equiv> CHR 0x5C"

definition patternChar :: "string \<Rightarrow> nat \<Rightarrow> char \<times> nat" where
  "patternChar pattern px =
     (if pattern ! px = BSLASH \<and> px + 1 < length pattern
      then (pattern ! (px + 1), escapeSeqLen)
      else (pattern ! px, 1))"

text \<open>
  The loop below ends: a new star lies further right than the last one; with the star fixed, each
  backtrack moves its text position right; between two backtracks the text index grows.  The
  first component covers the states no run reaches, in which the pattern index has not passed
  the star.
\<close>

definition match_rank ::
  "string \<times> string \<times> nat \<times> nat \<times> (nat \<times> nat) option \<Rightarrow> nat \<times> nat \<times> nat \<times> nat" where
  "match_rank = (\<lambda>(pattern, str, px, tx, star).
     (case star of
        None \<Rightarrow> (0, Suc (length pattern), 0, length str - tx + (length pattern - px))
      | Some (sp, st) \<Rightarrow>
          (if px \<le> sp then 1 else 0, length pattern - sp, length str - st, length str - tx)))"

function match_loop ::
  "string \<Rightarrow> string \<Rightarrow> nat \<Rightarrow> nat \<Rightarrow> (nat \<times> nat) option \<Rightarrow> nat option" where
  "match_loop pattern str px tx star =
     (if tx < length str then
        if px < length pattern \<and> pattern ! px = STAR then
          match_loop pattern str (px + 1) tx (Some (px, tx))
        else if px < length pattern \<and> fst (patternChar pattern px) = str ! tx then
          match_loop pattern str (px + snd (patternChar pattern px)) (tx + 1) star
        else (case star of
          None \<Rightarrow> None
        | Some (starPx, starTx) \<Rightarrow>
            match_loop pattern str (starPx + 1) (starTx + 1) (Some (starPx, starTx + 1)))
      else Some px)"
  by pat_completeness auto

termination
proof (relation "inv_image (less_than <*lex*> less_than <*lex*> less_than <*lex*> less_than) match_rank",
    goal_cases)
  case 1 show ?case by (auto intro!: wf_inv_image wf_lex_prod)
next
  case (2 pattern str px tx star)
  then show ?case by (auto simp: match_rank_def split: option.splits)
next
  case (3 pattern str px tx star)
  moreover have "0 < snd (patternChar pattern px)"
    by (simp add: patternChar_def escapeSeqLen_def)
  ultimately show ?case by (auto simp: match_rank_def split: option.splits)
next
  case (4 pattern str px tx star a sp st)
  then show ?case by (auto simp: match_rank_def)
qed

declare match_loop.simps [simp del]

definition matchCore :: "string \<Rightarrow> string \<Rightarrow> bool" where
  "matchCore pattern str =
     (case match_loop pattern str 0 0 None of
        None \<Rightarrow> False
      | Some px \<Rightarrow> list_all (\<lambda>c. c = STAR) (drop px pattern))"

fun containsUnescapedStar :: "string \<Rightarrow> bool" where
  "containsUnescapedStar [] = False"
| "containsUnescapedStar (c # cs) =
     (if c = BSLASH then containsUnescapedStar (tl cs)
      else if c = STAR then True
      else containsUnescapedStar cs)"

definition trailingSpaceStarOptional :: "string \<Rightarrow> bool" where
  "trailingSpaceStarOptional pattern =
     (if \<not> suffix '' *'' pattern then False
      else let q = take (length pattern - trailingSpaceStarLen) pattern;
               n = length (takeWhile (\<lambda>c. c = BSLASH) (rev q)) in
        if n mod 2 \<noteq> 0 then False
        else \<not> containsUnescapedStar q)"

definition MatchWildcard :: "string \<Rightarrow> string \<Rightarrow> bool" where
  "MatchWildcard pattern str =
     (if matchCore pattern str then True
      else if trailingSpaceStarOptional pattern
      then matchCore (take (length pattern - 2) pattern) str
      else False)"

section \<open>Reference semantics\<close>

datatype tok = Star | Byte char

fun tokens :: "string \<Rightarrow> tok list" where
  "tokens [] = []"
| "tokens [c] = [if c = STAR then Star else Byte c]"
| "tokens (c # d # cs) =
     (if c = STAR then Star # tokens (d # cs)
      else if c = BSLASH then Byte d # tokens cs
      else Byte c # tokens (d # cs))"

fun toks_match :: "tok list \<Rightarrow> string \<Rightarrow> bool" where
  "toks_match [] t \<longleftrightarrow> t = []"
| "toks_match (Byte c # ps) t \<longleftrightarrow> (case t of [] \<Rightarrow> False | x # xs \<Rightarrow> x = c \<and> toks_match ps xs)"
| "toks_match (Star # ps) t \<longleftrightarrow>
     toks_match ps t \<or> (case t of [] \<Rightarrow> False | x # xs \<Rightarrow> toks_match (Star # ps) xs)"

lemma toks_match_Star: "toks_match (Star # ps) t \<longleftrightarrow> (\<exists>k \<le> length t. toks_match ps (drop k t))"
proof (induction t)
  case (Cons x t)
  have "(\<exists>k \<le> Suc (length t). toks_match ps (drop k (x # t))) \<longleftrightarrow>
      toks_match ps (x # t) \<or> (\<exists>k \<le> length t. toks_match ps (drop k t))"
    by (metis Suc_le_mono drop0 drop_Suc_Cons not0_implies_Suc zero_le)
  with Cons show ?case by simp
qed simp

lemma toks_match_Bytes:
  "toks_match (map Byte l @ ps) t \<longleftrightarrow> (\<exists>r. t = l @ r \<and> toks_match ps r)"
  by (induction l arbitrary: t) (auto split: list.splits)

lemma toks_match_Nil: "toks_match ps [] \<longleftrightarrow> (\<forall>x \<in> set ps. x = Star)"
proof (induction ps)
  case (Cons a ps)
  then show ?case by (cases a) auto
qed simp

text \<open>A star absorbs the text before a block of literals that a later star follows.\<close>

lemma toks_match_absorb:
  assumes "t = l @ r"
  shows "toks_match (Star # map Byte l @ Star # ps) t \<longleftrightarrow> toks_match (Star # ps) r"
proof
  assume "toks_match (Star # map Byte l @ Star # ps) t"
  then obtain k r' where k: "k \<le> length t" "drop k t = l @ r'" "toks_match (Star # ps) r'"
    by (auto simp only: toks_match_Star toks_match_Bytes)
  then obtain j where j: "j \<le> length r'" "toks_match ps (drop j r')"
    by (auto simp only: toks_match_Star)
  have "length r' + length l + k = length l + length r"
    using k(1) arg_cong [OF k(2), of length] unfolding assms by (simp del: drop_append)
  then have len: "length r' + k = length r" by simp
  have "r' = drop (length l) (drop k t)" using k(2) by simp
  also have "\<dots> = drop (length l + k) (l @ r)" using assms by (simp del: drop_append)
  also have "\<dots> = drop k r" by simp
  finally have "drop (j + k) r = drop j r'" by simp
  moreover have "j + k \<le> length r" using j(1) len by simp
  ultimately show "toks_match (Star # ps) r"
    using j(2) unfolding toks_match_Star by metis
next
  assume "toks_match (Star # ps) r"
  then have "toks_match (map Byte l @ Star # ps) t"
    using assms unfolding toks_match_Bytes by blast
  then show "toks_match (Star # map Byte l @ Star # ps) t" by simp
qed

lemma tokens_Star: "px < length p \<Longrightarrow> p ! px = STAR \<Longrightarrow>
    tokens (drop px p) = Star # tokens (drop (px + 1) p)"
  by (cases "drop (Suc px) p") (auto simp: Cons_nth_drop_Suc [symmetric])

lemma tokens_Byte: "px < length p \<Longrightarrow> p ! px \<noteq> STAR \<Longrightarrow>
    tokens (drop px p) =
      Byte (fst (patternChar p px)) # tokens (drop (px + snd (patternChar p px)) p)"
proof (cases "px + 1 < length p")
  case True
  assume "px < length p" "p ! px \<noteq> STAR"
  with True show ?thesis
    by (auto simp: Cons_nth_drop_Suc [symmetric, of px] Cons_nth_drop_Suc [symmetric, of "Suc px"]
        patternChar_def escapeSeqLen_def numeral_2_eq_2)
next
  case False
  assume "px < length p" "p ! px \<noteq> STAR"
  with False have "drop px p = [p ! px]"
    by (metis Cons_nth_drop_Suc Suc_eq_plus1 drop_all not_less)
  with False \<open>p ! px \<noteq> STAR\<close> show ?thesis by (simp add: patternChar_def)
qed

section \<open>The loop computes the reference semantics\<close>

text \<open>
  The loop invariant: since the last star the loop has consumed a block of literals \<open>l\<close>, which
  stands both before the current pattern position and before the current str position.
\<close>

definition match_inv :: "string \<Rightarrow> string \<Rightarrow> nat \<Rightarrow> nat \<Rightarrow> (nat \<times> nat) option \<Rightarrow> bool" where
  "match_inv pattern str px tx star \<longleftrightarrow>
     tx \<le> length str \<and>
     (case star of
        None \<Rightarrow> True
      | Some (sp, st) \<Rightarrow> st \<le> tx \<and>
          (\<exists>l. tokens (drop (sp + 1) pattern) = map Byte l @ tokens (drop px pattern) \<and>
               drop st str = l @ drop tx str))"

definition match_goal :: "string \<Rightarrow> string \<Rightarrow> nat \<Rightarrow> nat \<Rightarrow> (nat \<times> nat) option \<Rightarrow> bool" where
  "match_goal pattern str px tx star \<longleftrightarrow>
     (case star of
        None \<Rightarrow> toks_match (tokens (drop px pattern)) (drop tx str)
      | Some (sp, st) \<Rightarrow> toks_match (Star # tokens (drop (sp + 1) pattern)) (drop st str))"

definition match_answer :: "string \<Rightarrow> nat option \<Rightarrow> bool" where
  "match_answer pattern res \<longleftrightarrow>
     (case res of None \<Rightarrow> False | Some px \<Rightarrow> list_all (\<lambda>c. c = STAR) (drop px pattern))"

lemma tokens_all_Star: "(\<forall>x \<in> set (tokens p). x = Star) \<longleftrightarrow> list_all (\<lambda>c. c = STAR) p"
  by (induction p rule: tokens.induct) auto

lemma match_goal_star:
  assumes "match_inv pattern str px tx star" "tx < length str" "px < length pattern"
    "pattern ! px = STAR"
  shows "match_goal pattern str px tx star =
           match_goal pattern str (px + 1) tx (Some (px, tx))"
    and "match_inv pattern str (px + 1) tx (Some (px, tx))"
  using assms tokens_Star [of px pattern] toks_match_absorb
  by (auto simp: match_goal_def match_inv_def simp del: toks_match.simps split: option.splits)

lemma match_goal_byte:
  assumes "match_inv pattern str px tx star" "tx < length str" "px < length pattern"
    "pattern ! px \<noteq> STAR" "fst (patternChar pattern px) = str ! tx"
  shows "match_goal pattern str px tx star =
           match_goal pattern str (px + snd (patternChar pattern px)) (tx + 1) star"
    and "match_inv pattern str (px + snd (patternChar pattern px)) (tx + 1) star"
proof -
  have d: "drop tx str = str ! tx # drop (tx + 1) str"
    using assms(2) by (simp add: Cons_nth_drop_Suc)
  have k: "tokens (drop px pattern) =
      Byte (str ! tx) # tokens (drop (px + snd (patternChar pattern px)) pattern)"
    using tokens_Byte [OF assms(3,4)] assms(5) by simp
  show "match_goal pattern str px tx star =
      match_goal pattern str (px + snd (patternChar pattern px)) (tx + 1) star"
    by (simp add: match_goal_def d k split: option.splits)
  show "match_inv pattern str (px + snd (patternChar pattern px)) (tx + 1) star"
  proof (cases star)
    case None
    with assms(2) show ?thesis by (simp add: match_inv_def)
  next
    case (Some s)
    obtain sp st where s: "s = (sp, st)" by force
    from assms(1) Some s obtain l where l: "st \<le> tx"
      "tokens (drop (sp + 1) pattern) = map Byte l @ tokens (drop px pattern)"
      "drop st str = l @ drop tx str"
      by (auto simp: match_inv_def)
    then have "tokens (drop (sp + 1) pattern) = map Byte (l @ [str ! tx]) @
          tokens (drop (px + snd (patternChar pattern px)) pattern)"
      "drop st str = (l @ [str ! tx]) @ drop (tx + 1) str"
      by (simp_all add: k d)
    with l(1) assms(2) Some s show ?thesis
      unfolding match_inv_def by (auto intro!: exI [of _ "l @ [str ! tx]"])
  qed
qed

lemma toks_match_mismatch:
  assumes "tx < length str"
    "\<not> (px < length pattern \<and> pattern ! px = STAR)"
    "\<not> (px < length pattern \<and> fst (patternChar pattern px) = str ! tx)"
  shows "\<not> toks_match (tokens (drop px pattern)) (drop tx str)"
proof (cases "px < length pattern")
  case True
  with assms tokens_Byte [of px pattern] show ?thesis
    by (auto simp: Cons_nth_drop_Suc [symmetric])
next
  case False
  with assms(1) show ?thesis by simp
qed

lemma match_goal_backtrack:
  assumes "match_inv pattern str px tx (Some (sp, st))" "tx < length str"
    "\<not> toks_match (tokens (drop px pattern)) (drop tx str)"
  shows "match_goal pattern str px tx (Some (sp, st)) =
           match_goal pattern str (sp + 1) (st + 1) (Some (sp, st + 1))"
    and "match_inv pattern str (sp + 1) (st + 1) (Some (sp, st + 1))"
proof -
  from assms(1) obtain l where l: "st \<le> tx"
    "tokens (drop (sp + 1) pattern) = map Byte l @ tokens (drop px pattern)"
    "drop st str = l @ drop tx str"
    by (auto simp: match_inv_def)
  have "\<not> toks_match (tokens (drop (sp + 1) pattern)) (drop st str)"
    using assms(3) l(2,3) by (simp add: toks_match_Bytes)
  moreover have "drop st str = str ! st # drop (st + 1) str"
    using l(1) assms(2) by (simp add: Cons_nth_drop_Suc)
  ultimately show "match_goal pattern str px tx (Some (sp, st)) =
      match_goal pattern str (sp + 1) (st + 1) (Some (sp, st + 1))"
    by (simp add: match_goal_def)
  show "match_inv pattern str (sp + 1) (st + 1) (Some (sp, st + 1))"
    using l(1) assms(2) by (auto simp: match_inv_def)
qed

lemma match_goal_end:
  assumes "match_inv pattern str px tx star" "\<not> tx < length str"
  shows "match_goal pattern str px tx star = list_all (\<lambda>c. c = STAR) (drop px pattern)"
proof (cases star)
  case None
  with assms show ?thesis
    by (simp add: match_goal_def toks_match_Nil tokens_all_Star)
next
  case (Some s)
  obtain sp st where s: "s = (sp, st)" by force
  from assms Some s obtain l where l:
    "tokens (drop (sp + 1) pattern) = map Byte l @ tokens (drop px pattern)" "drop st str = l"
    by (auto simp: match_inv_def)
  have "match_goal pattern str px tx star \<longleftrightarrow>
      (\<exists>k r. k \<le> length l \<and> drop k l = l @ r \<and> toks_match (tokens (drop px pattern)) r)"
    using Some s l by (auto simp: match_goal_def toks_match_Star toks_match_Bytes
        simp del: toks_match.simps)
  also have "\<dots> \<longleftrightarrow> toks_match (tokens (drop px pattern)) []"
    by (metis append_Nil2 append_eq_conv_conj append_take_drop_id drop0 length_append
        length_drop add_is_0 diff_add_inverse2 diff_le_self le_add_diff_inverse2 le_antisym
        length_0_conv zero_le)
  finally show ?thesis by (simp add: toks_match_Nil tokens_all_Star)
qed

lemma match_loop_correct:
  "match_inv pattern str px tx star \<Longrightarrow>
     match_answer pattern (match_loop pattern str px tx star) = match_goal pattern str px tx star"
proof (induction pattern str px tx star rule: match_loop.induct)
  case (1 pattern str px tx star)
  note unfold = match_loop.simps [of pattern str px tx star]
  consider (finish) "\<not> tx < length str"
    | (star) "tx < length str" "px < length pattern" "pattern ! px = STAR"
    | (byte) "tx < length str" "px < length pattern" "pattern ! px \<noteq> STAR"
        "fst (patternChar pattern px) = str ! tx"
    | (miss) "tx < length str" "\<not> (px < length pattern \<and> pattern ! px = STAR)"
        "\<not> (px < length pattern \<and> fst (patternChar pattern px) = str ! tx)"
    by blast
  then show ?case
  proof cases
    case finish
    with match_goal_end [OF "1.prems"] show ?thesis by (simp add: unfold match_answer_def)
  next
    case star
    with match_goal_star [OF "1.prems"] "1.IH"(1) show ?thesis by (simp add: unfold)
  next
    case byte
    with match_goal_byte [OF "1.prems"] "1.IH"(2) show ?thesis by (auto simp: unfold)
  next
    case miss
    note no_match = toks_match_mismatch [OF miss]
    show ?thesis
    proof (cases star)
      case None
      with miss have "match_loop pattern str px tx star = None" by (subst unfold) auto
      with no_match None show ?thesis by (simp add: match_answer_def match_goal_def)
    next
      case (Some s)
      obtain sp st where s: "s = (sp, st)" by force
      have "match_loop pattern str px tx star =
          match_loop pattern str (sp + 1) (st + 1) (Some (sp, st + 1))"
        using miss Some s by (subst unfold) auto
      with match_goal_backtrack [OF "1.prems" [unfolded Some s] miss(1) no_match]
        "1.IH"(3) [OF miss Some s [symmetric]] Some s
      show ?thesis by simp
    qed
  qed
qed

lemma matchCore_tokens: "matchCore pattern str = toks_match (tokens pattern) str"
  using match_loop_correct [of pattern str 0 0 None]
  by (simp add: matchCore_def match_answer_def match_inv_def match_goal_def)

lemma containsUnescapedStar_tokens: "containsUnescapedStar p \<longleftrightarrow> Star \<in> set (tokens p)"
  by (induction p rule: tokens.induct) auto

lemma tokens_plain: "STAR \<notin> set p \<Longrightarrow> BSLASH \<notin> set p \<Longrightarrow> tokens p = map Byte p"
  by (induction p rule: tokens.induct) auto

text \<open>Bytes that the escaped form of a literal needs a backslash for.\<close>

definition escape_literal :: "string \<Rightarrow> string" where
  "escape_literal t = concat (map (\<lambda>c. if c = STAR \<or> c = BSLASH then [BSLASH, c] else [c]) t)"

lemma tokens_Cons_plain: "c \<noteq> STAR \<Longrightarrow> c \<noteq> BSLASH \<Longrightarrow> tokens (c # p) = Byte c # tokens p"
  by (cases p) auto

lemma tokens_Cons_escaped: "tokens (BSLASH # c # p) = Byte c # tokens p"
  by simp

lemma escape_literal_Cons:
  "escape_literal (c # t) =
     (if c = STAR \<or> c = BSLASH then BSLASH # c # escape_literal t else c # escape_literal t)"
  by (simp add: escape_literal_def)

lemma tokens_escape_literal: "tokens (escape_literal t) = map Byte t"
proof (induction t)
  case Nil
  show ?case by (simp add: escape_literal_def)
next
  case (Cons c t)
  show ?case
  proof (cases "c = STAR \<or> c = BSLASH")
    case True
    with Cons show ?thesis by (simp only: escape_literal_Cons tokens_Cons_escaped if_True list.map)
  next
    case False
    with Cons show ?thesis by (simp add: escape_literal_Cons tokens_Cons_plain)
  qed
qed

lemma escape_literal_no_space_star: "\<not> suffix '' *'' (escape_literal t)"
proof (cases t rule: rev_cases)
  case (snoc l c)
  then have "escape_literal t =
      escape_literal l @ (if c = STAR \<or> c = BSLASH then [BSLASH, c] else [c])"
    by (simp add: escape_literal_def)
  then show ?thesis by (auto simp: suffix_def append_eq_append_conv2 Cons_eq_append_conv)
qed (simp add: escape_literal_def)

lemma toks_match_literal: "toks_match (map Byte l) t \<longleftrightarrow> t = l"
  using toks_match_Bytes [of l "[]" t] by simp

section \<open>Properties\<close>

text \<open>
  C7. The two-pointer loop of \<open>matchCore\<close> terminates on every pattern and text and decides
  exactly the reference semantics of the pattern language: a star stands for any bytes, a
  backslash makes the next byte literal, every other byte stands for itself.
\<close>

theorem matchCore_correct: "matchCore pattern str \<longleftrightarrow> toks_match (tokens pattern) str"
  by (rule matchCore_tokens)

text \<open>
  \<open>MatchWildcard\<close> accepts what the pattern denotes and, beyond that, only the pattern's own
  text without a trailing \<open>" *"\<close>, when that star is the only wildcard and the space is not
  escaped.
\<close>

theorem MatchWildcard_correct:
  "MatchWildcard pattern str \<longleftrightarrow>
     toks_match (tokens pattern) str \<or>
     (\<exists>q. pattern = q @ '' *'' \<and> even (length (takeWhile (\<lambda>c. c = BSLASH) (rev q))) \<and>
          Star \<notin> set (tokens q) \<and> toks_match (tokens q) str)"
proof -
  have opt: "trailingSpaceStarOptional pattern \<longleftrightarrow>
      (\<exists>q. pattern = q @ '' *'' \<and> even (length (takeWhile (\<lambda>c. c = BSLASH) (rev q))) \<and>
           Star \<notin> set (tokens q))"
    by (auto simp: trailingSpaceStarOptional_def Let_def trailingSpaceStarLen_def suffix_def
        containsUnescapedStar_tokens even_iff_mod_2_eq_zero)
  show ?thesis
    by (auto simp: MatchWildcard_def matchCore_tokens opt)
qed

text \<open>
  A pattern that escapes every star and backslash of a literal matches that literal and
  nothing else: a rule author can always write an exact-match rule.
\<close>

theorem MatchWildcard_escape_literal: "MatchWildcard (escape_literal lit) str \<longleftrightarrow> str = lit"
proof -
  have "\<not> trailingSpaceStarOptional (escape_literal lit)"
    by (simp add: trailingSpaceStarOptional_def escape_literal_no_space_star)
  then show ?thesis
    by (simp add: MatchWildcard_def matchCore_tokens tokens_escape_literal toks_match_literal)
qed

end
