(* ===== verification/Bash_Match.thy ===== *)
theory Bash_Match
  imports Wildcard
begin

text \<open>
  Matching of Bash rules, \<open>internal/toolrules/bash.go\<close>.  The shell parser
  (\<open>mvdan.cc/sh/v3/syntax\<close>) is not part of the repository: it is the parameter \<open>parse\<close>, which
  gives \<open>None\<close> on a parse error and otherwise the nodes in the order in which
  \<open>syntax.Walk\<close> visits them (the callback of \<open>extractCommands\<close> always continues, so every node
  is visited).  The datatypes below are what the type switches of the source distinguish; all
  other node and word-part types fall into the \<open>Other\<close> constructors, as the \<open>default\<close> branches
  do.
\<close>

datatype MatchResult = NoMatch | Match | Uncertain

datatype dq_part =
    DqLit string
  | DqParamExp "string option"
  | DqOther

datatype word_part =
    PLit string
  | PSglQuoted bool string
  | PDblQuoted "dq_part list"
  | PParamExp "string option"
  | POther

type_synonym sh_word = "word_part list"

datatype sh_node =
    CallExpr "sh_word list"
  | CmdSubst
  | ProcSubst
  | OtherNode

type_synonym sh_parser = "string \<Rightarrow> sh_node list option"

definition dangerousBuiltins :: "string list" where
  "dangerousBuiltins =
     [''eval'', ''exec'', ''source'', ''.'',
      ''bash'', ''sh'', ''zsh'', ''dash'',
      ''env'', ''xargs'', ''nohup'', ''nice'', ''sudo'', ''su'', ''doas'', ''command'', ''builtin'',
      ''python'', ''python3'', ''python2'', ''perl'', ''ruby'', ''node'', ''php'', ''lua'',
      ''trap'']"

fun dqPartToString :: "dq_part \<Rightarrow> string \<times> bool" where
  "dqPartToString (DqLit v) = (v, False)"
| "dqPartToString (DqParamExp p) = (''$'' @ (case p of None \<Rightarrow> [] | Some v \<Rightarrow> v), False)"
| "dqPartToString DqOther = (''$(...)'', True)"

fun partToString :: "word_part \<Rightarrow> string \<times> bool" where
  "partToString (PLit v) = (v, False)"
| "partToString (PSglQuoted dollar v) =
     (if dollar then (''$'' @ [CHR 0x27] @ ''...'' @ [CHR 0x27], True) else (v, False))"
| "partToString (PDblQuoted ps) =
     (concat (map (fst \<circ> dqPartToString) ps), list_ex (snd \<circ> dqPartToString) ps)"
| "partToString (PParamExp p) = (''$'' @ (case p of None \<Rightarrow> [] | Some v \<Rightarrow> v), False)"
| "partToString POther = (''$(...)'', True)"

definition wordToString :: "sh_word \<Rightarrow> string \<times> bool" where
  "wordToString w = (concat (map (fst \<circ> partToString) w), list_ex (snd \<circ> partToString) w)"

definition wordHasParamExp :: "sh_word \<Rightarrow> bool" where
  "wordHasParamExp w = list_ex (\<lambda>p. case p of PParamExp _ \<Rightarrow> True | _ \<Rightarrow> False) w"

definition firstWord :: "sh_word list \<Rightarrow> string" where
  "firstWord args = (case args of [] \<Rightarrow> [] | w # _ \<Rightarrow> fst (wordToString w))"

definition callExprToString :: "sh_word list \<Rightarrow> string \<times> bool" where
  "callExprToString args =
     (if args = [] then ([], False)
      else let hasOpaque = list_ex (\<lambda>w. snd (wordToString w)) args;
               parts = filter (\<lambda>s. s \<noteq> []) (map (\<lambda>w. fst (wordToString w)) args);
               result = Join parts '' '' in
        if TrimSpace result = [] then ([], hasOpaque) else (result, hasOpaque))"

text \<open>The callback passed to \<open>syntax.Walk\<close>, as a step on the two result variables.\<close>

fun visitNode :: "sh_node \<Rightarrow> string list \<times> bool \<Rightarrow> string list \<times> bool" where
  "visitNode (CallExpr args) (cmds, uncertain) =
     (let (cmd, hasOpaque) = callExprToString args in
      if cmd = [] then (cmds, uncertain)
      else let u1 = (uncertain \<or> hasOpaque);
               u2 = (u1 \<or> firstWord args \<in> set dangerousBuiltins);
               u3 = (u2 \<or> (case args of [] \<Rightarrow> False | w # _ \<Rightarrow> wordHasParamExp w)) in
        (cmds @ [cmd], u3))"
| "visitNode CmdSubst (cmds, uncertain) = (cmds, True)"
| "visitNode ProcSubst (cmds, uncertain) = (cmds, True)"
| "visitNode OtherNode (cmds, uncertain) = (cmds, uncertain)"

definition extractCommands :: "sh_parser \<Rightarrow> string \<Rightarrow> string list \<times> bool" where
  "extractCommands parse command =
     (case parse command of
        None \<Rightarrow> ([], True)
      | Some nodes \<Rightarrow> fold visitNode nodes ([], False))"

definition bashMatch :: "sh_parser \<Rightarrow> string \<Rightarrow> string \<Rightarrow> MatchResult" where
  "bashMatch parse pattern command =
     (let (cmds, uncertain) = extractCommands parse command in
      if list_ex (MatchWildcard pattern) cmds then Match
      else if uncertain then Uncertain
      else NoMatch)"

section \<open>What the walk collects\<close>

text \<open>A node that prevents static analysis, and the command text a node contributes.\<close>

definition node_cmd :: "sh_node \<Rightarrow> string list" where
  "node_cmd n =
     (case n of
        CallExpr args \<Rightarrow> if fst (callExprToString args) = [] then [] else [fst (callExprToString args)]
      | _ \<Rightarrow> [])"

definition node_uncertain :: "sh_node \<Rightarrow> bool" where
  "node_uncertain n \<longleftrightarrow>
     (case n of
        CallExpr args \<Rightarrow>
          fst (callExprToString args) \<noteq> [] \<and>
          (snd (callExprToString args) \<or> firstWord args \<in> set dangerousBuiltins \<or>
           (args \<noteq> [] \<and> wordHasParamExp (hd args)))
      | CmdSubst \<Rightarrow> True
      | ProcSubst \<Rightarrow> True
      | OtherNode \<Rightarrow> False)"

lemma visitNode_eq:
  "visitNode n (cmds, u) = (cmds @ node_cmd n, u \<or> node_uncertain n)"
  by (cases n)
    (auto simp: node_cmd_def node_uncertain_def Let_def split: prod.splits list.splits)

lemma fold_visitNode:
  "fold visitNode nodes (cmds, u) =
     (cmds @ concat (map node_cmd nodes), u \<or> list_ex node_uncertain nodes)"
  by (induction nodes arbitrary: cmds u) (simp_all add: visitNode_eq)

lemma extractCommands_Some:
  "parse command = Some nodes \<Longrightarrow>
     extractCommands parse command = (concat (map node_cmd nodes), list_ex node_uncertain nodes)"
  by (simp add: extractCommands_def fold_visitNode)

lemma extractCommands_None: "parse command = None \<Longrightarrow> extractCommands parse command = ([], True)"
  by (simp add: extractCommands_def)

end
