(* ===== verification/Go_Path.thy ===== *)
theory Go_Path
  imports Hiro_Prelude
begin

text \<open>
  \<open>filepath.Clean\<close> and \<open>filepath.Join\<close> of the Go library on Unix, which the tool rules and the
  configuration paths rely on: the components of a path are processed left to right on a stack;
  empty and \<open>.\<close> components are dropped, \<open>..\<close> removes the component before it, at the root it is
  dropped, and at the start of a relative path it stays.
\<close>

abbreviation SLASH :: char where "SLASH \<equiv> CHR ''/''"

definition clean_step :: "bool \<Rightarrow> string \<Rightarrow> string list \<Rightarrow> string list" where
  "clean_step rooted c stack =
     (if c = [] \<or> c = ''.'' then stack
      else if c = ''..'' then
        (case stack of
           [] \<Rightarrow> if rooted then [] else [c]
         | prev # rest \<Rightarrow> if prev = ''..'' then c # stack else rest)
      else c # stack)"

definition clean_components :: "bool \<Rightarrow> string list \<Rightarrow> string list" where
  "clean_components rooted cs = rev (fold (clean_step rooted) cs [])"

definition filepath_Clean :: "string \<Rightarrow> string" where
  "filepath_Clean p =
     (let rooted = prefix ''/'' p;
          body = Join (clean_components rooted (SplitByte p SLASH)) ''/'' in
      if rooted then SLASH # body else if body = [] then ''.'' else body)"

definition filepath_Join :: "string list \<Rightarrow> string" where
  "filepath_Join elems =
     (case dropWhile (\<lambda>e. e = []) elems of
        [] \<Rightarrow> []
      | es \<Rightarrow> filepath_Clean (Join es ''/''))"

lemma SplitByte_nonempty: "SplitByte s c \<noteq> []"
  by (induction s) (auto split: list.splits)

lemma SplitByte_no_sep: "w \<in> set (SplitByte s c) \<Longrightarrow> c \<notin> set w"
proof (induction s arbitrary: w)
  case (Cons x s)
  then show ?case
    using SplitByte_nonempty [of s c] by (auto split: if_splits list.splits)
qed simp

lemma SplitByte_word: "c \<notin> set w \<Longrightarrow> SplitByte w c = [w]"
  by (induction w) auto

lemma SplitByte_append: "c \<notin> set w \<Longrightarrow> SplitByte (w @ c # s) c = w # SplitByte s c"
  by (induction w) auto

lemma SplitByte_Join:
  "ws \<noteq> [] \<Longrightarrow> \<forall>w \<in> set ws. c \<notin> set w \<Longrightarrow> SplitByte (Join ws [c]) c = ws"
  by (induction ws "[c]" rule: Join.induct) (auto simp: SplitByte_word SplitByte_append)

text \<open>The stack of a rooted path never holds a special component.\<close>

definition plain_component :: "string \<Rightarrow> bool" where
  "plain_component c \<longleftrightarrow> c \<noteq> [] \<and> c \<noteq> ''.'' \<and> c \<noteq> ''..'' \<and> SLASH \<notin> set c"

lemma clean_step_rooted:
  "\<forall>c \<in> set stack. plain_component c \<Longrightarrow> SLASH \<notin> set c \<Longrightarrow>
     \<forall>c \<in> set (clean_step True c stack). plain_component c"
  by (cases stack) (simp_all add: clean_step_def plain_component_def)

lemma fold_clean_step_rooted:
  "\<forall>c \<in> set stack. plain_component c \<Longrightarrow> \<forall>c \<in> set cs. SLASH \<notin> set c \<Longrightarrow>
     \<forall>c \<in> set (fold (clean_step True) cs stack). plain_component c"
proof (induction cs arbitrary: stack)
  case (Cons a cs)
  from Cons.prems have "\<forall>c \<in> set (clean_step True a stack). plain_component c"
    by (intro clean_step_rooted) simp_all
  then have "\<forall>c \<in> set (fold (clean_step True) cs (clean_step True a stack)). plain_component c"
    using Cons.prems(2) by (intro Cons.IH) simp_all
  then show ?case by simp
qed simp

lemma clean_components_rooted:
  "c \<in> set (clean_components True (SplitByte p SLASH)) \<Longrightarrow> plain_component c"
  using fold_clean_step_rooted [of "[]" "SplitByte p SLASH"] SplitByte_no_sep [of _ p SLASH]
  by (auto simp: clean_components_def)

lemma filepath_Clean_rooted:
  assumes "prefix ''/'' p"
  shows "\<exists>cs. filepath_Clean p = SLASH # Join cs ''/'' \<and> (\<forall>c \<in> set cs. plain_component c)"
  using assms clean_components_rooted by (auto simp: filepath_Clean_def Let_def)

text \<open>Cleaning is the identity on a path already made of plain components.\<close>

lemma fold_clean_step_plain:
  "\<forall>c \<in> set cs. plain_component c \<Longrightarrow> fold (clean_step rooted) cs stack = rev cs @ stack"
  by (induction cs arbitrary: stack) (auto simp: clean_step_def plain_component_def)

lemma filepath_Clean_plain:
  assumes "\<forall>c \<in> set cs. plain_component c"
  shows "filepath_Clean (SLASH # Join cs ''/'') = SLASH # Join cs ''/''"
proof (cases "cs = []")
  case True
  then show ?thesis
    by (simp add: filepath_Clean_def clean_components_def clean_step_def)
next
  case False
  have "SplitByte (Join cs ''/'') SLASH = cs"
    using SplitByte_Join [OF False] assms by (simp add: plain_component_def)
  then show ?thesis
    using fold_clean_step_plain [OF assms]
    by (simp add: filepath_Clean_def clean_components_def clean_step_def)
qed

lemma filepath_Clean_idem:
  assumes "prefix ''/'' p"
  shows "filepath_Clean (filepath_Clean p) = filepath_Clean p"
  using filepath_Clean_rooted [OF assms] filepath_Clean_plain by auto

end
