(* ===== verification/Tool_Checker.thy ===== *)
theory Tool_Checker
  imports Tool_Rules Bash_Match Go_Path
begin

text \<open>
  Evaluation of a tool call against allow and deny rules, \<open>internal/toolrules/checker.go\<close>:
  the extractors that read the parameter a rule matches against, the matchers per tool, and
  \<open>Checker.Check\<close> with its deny pass and its allow pass.  Tool parameters are a map from names
  to dynamically typed values, of which the code only distinguishes strings.  The matchers share
  a contract, the locale \<open>matcher_contract\<close>: a definite answer agrees with what the pattern
  denotes.  The client lemmas of the locale are what makes the checker fail closed.
\<close>

datatype Decision = Allowed | Denied | Unmatched | NeedsReview

fun Decision_String :: "Decision \<Rightarrow> string" where
  "Decision_String Allowed = ''allowed''"
| "Decision_String Denied = ''denied''"
| "Decision_String NeedsReview = ''needs_review''"
| "Decision_String Unmatched = ''unmatched''"

datatype any_value = VString string | VOther

type_synonym tool_params = "(string, any_value) gomap"
type_synonym ParamExtractor = "tool_params \<Rightarrow> string"
type_synonym MatchFunc = "string \<Rightarrow> string \<Rightarrow> MatchResult"

definition strExtractor :: "string \<Rightarrow> ParamExtractor" where
  "strExtractor key p = (case gomap_get p key of Some (VString s) \<Rightarrow> s | _ \<Rightarrow> [])"

definition pathExtractor :: "string \<Rightarrow> ParamExtractor" where
  "pathExtractor key p =
     (let s = (case gomap_get p key of Some (VString s) \<Rightarrow> s | _ \<Rightarrow> []) in
      if s = [] then [] else filepath_Clean s)"

definition defaultExtractors :: "string \<Rightarrow> ParamExtractor option" where
  "defaultExtractors tool = map_of
     [(''Bash'', strExtractor ''command''),
      (''Read'', pathExtractor ''file_path''),
      (''Write'', pathExtractor ''file_path''),
      (''Edit'', pathExtractor ''file_path''),
      (''Glob'', pathExtractor ''pattern''),
      (''Grep'', pathExtractor ''pattern''),
      (''WebFetch'', strExtractor ''url''),
      (''SpawnInstance'', strExtractor ''agent''),
      (''TaskOutput'', strExtractor ''task_id''),
      (''TaskStop'', strExtractor ''task_id'')] tool"

definition wildcardMatchFunc :: MatchFunc where
  "wildcardMatchFunc pattern v = (if MatchWildcard pattern v then Match else NoMatch)"

definition matchCommaList :: MatchFunc where
  "matchCommaList pattern v =
     (if list_ex (\<lambda>item. TrimSpace item \<noteq> [] \<and> MatchWildcard (TrimSpace item) v)
           (SplitByte pattern (CHR '',''))
      then Match else NoMatch)"

definition defaultMatchers :: "sh_parser \<Rightarrow> string \<Rightarrow> MatchFunc option" where
  "defaultMatchers parse tool = map_of
     [(''Bash'', bashMatch parse), (''SpawnInstance'', matchCommaList)] tool"

text \<open>A field that is \<open>None\<close> at a tool stands for a nil map, a missing key or a nil function.\<close>

record Checker =
  chk_Extractors :: "string \<Rightarrow> ParamExtractor option"
  chk_Matchers :: "string \<Rightarrow> MatchFunc option"

definition zero_Checker :: Checker where
  "zero_Checker = \<lparr>chk_Extractors = (\<lambda>_. None), chk_Matchers = (\<lambda>_. None)\<rparr>"

definition matcher :: "sh_parser \<Rightarrow> Checker \<Rightarrow> string \<Rightarrow> MatchFunc" where
  "matcher parse c tool =
     (case chk_Matchers c tool of
        Some fn \<Rightarrow> fn
      | None \<Rightarrow> (case defaultMatchers parse tool of Some fn \<Rightarrow> fn | None \<Rightarrow> wildcardMatchFunc))"

definition extractor :: "Checker \<Rightarrow> string \<Rightarrow> ParamExtractor option" where
  "extractor c tool =
     (case chk_Extractors c tool of Some fn \<Rightarrow> Some fn | None \<Rightarrow> defaultExtractors tool)"

definition matchResult :: "sh_parser \<Rightarrow> Checker \<Rightarrow> Rule \<Rightarrow> string \<Rightarrow> tool_params \<Rightarrow> MatchResult" where
  "matchResult parse c r tool params =
     (if rule_Tool r \<noteq> tool then NoMatch
      else if IsWholeTool r then Match
      else case extractor c tool of
        None \<Rightarrow> NoMatch
      | Some fn \<Rightarrow> matcher parse c tool (rule_Pattern r) (fn params))"

text \<open>Phase 1: \<open>Inl\<close> is the early return, \<open>Inr\<close> carries \<open>denyUncertain\<close>.\<close>

fun deny_pass ::
  "(Rule \<Rightarrow> MatchResult) \<Rightarrow> string \<Rightarrow> Rule list \<Rightarrow> bool \<Rightarrow> Decision + bool" where
  "deny_pass mr tool [] denyUncertain = Inr denyUncertain"
| "deny_pass mr tool (r # rs) denyUncertain =
     (if rule_Tool r \<noteq> tool then deny_pass mr tool rs denyUncertain
      else (case mr r of
              Match \<Rightarrow> Inl Denied
            | Uncertain \<Rightarrow> deny_pass mr tool rs True
            | NoMatch \<Rightarrow> deny_pass mr tool rs denyUncertain))"

text \<open>Phase 2: the flags \<open>hasAllow\<close>, \<open>allowMatched\<close> and \<open>allowUncertain\<close>.\<close>

fun allow_pass ::
  "(Rule \<Rightarrow> MatchResult) \<Rightarrow> string \<Rightarrow> Rule list \<Rightarrow> bool \<times> bool \<times> bool \<Rightarrow> bool \<times> bool \<times> bool" where
  "allow_pass mr tool [] flags = flags"
| "allow_pass mr tool (r # rs) (hasAllow, allowMatched, allowUncertain) =
     (if rule_Tool r \<noteq> tool then allow_pass mr tool rs (hasAllow, allowMatched, allowUncertain)
      else (case mr r of
              Match \<Rightarrow> allow_pass mr tool rs (True, True, allowUncertain)
            | Uncertain \<Rightarrow> allow_pass mr tool rs (True, allowMatched, True)
            | NoMatch \<Rightarrow> allow_pass mr tool rs (True, allowMatched, allowUncertain)))"

definition Check ::
  "sh_parser \<Rightarrow> Checker \<Rightarrow> string \<Rightarrow> tool_params \<Rightarrow> Rule list \<Rightarrow> Rule list \<Rightarrow> Decision" where
  "Check parse c tool params allow deny =
     (let mr = (\<lambda>r. matchResult parse c r tool params) in
      case deny_pass mr tool deny False of
        Inl d \<Rightarrow> d
      | Inr True \<Rightarrow> NeedsReview
      | Inr False \<Rightarrow>
          (let (hasAllow, allowMatched, allowUncertain) =
                 allow_pass mr tool allow (False, False, False) in
           if allowUncertain then NeedsReview
           else if allowMatched then Allowed
           else if hasAllow then Denied
           else Unmatched))"

section \<open>The two passes\<close>

lemma deny_pass_eq:
  "deny_pass mr tool deny u =
     (if \<exists>r \<in> set deny. rule_Tool r = tool \<and> mr r = Match then Inl Denied
      else Inr (u \<or> (\<exists>r \<in> set deny. rule_Tool r = tool \<and> mr r = Uncertain)))"
  by (induction deny arbitrary: u) (auto split: MatchResult.splits)

lemma allow_pass_eq:
  "allow_pass mr tool allow (h, m, u) =
     (h \<or> (\<exists>r \<in> set allow. rule_Tool r = tool),
      m \<or> (\<exists>r \<in> set allow. rule_Tool r = tool \<and> mr r = Match),
      u \<or> (\<exists>r \<in> set allow. rule_Tool r = tool \<and> mr r = Uncertain))"
  by (induction allow arbitrary: h m u) (auto split: MatchResult.splits)

lemma matchResult_other_tool: "rule_Tool r \<noteq> tool \<Longrightarrow> matchResult parse c r tool params = NoMatch"
  by (simp add: matchResult_def)

abbreviation some_result :: "sh_parser \<Rightarrow> Checker \<Rightarrow> string \<Rightarrow> tool_params \<Rightarrow> MatchResult \<Rightarrow> Rule list \<Rightarrow> bool"
  where "some_result parse c tool params res rs \<equiv>
     \<exists>r \<in> set rs. matchResult parse c r tool params = res"

lemma Check_eq:
  "Check parse c tool params allow deny =
     (if some_result parse c tool params Match deny then Denied
      else if some_result parse c tool params Uncertain deny then NeedsReview
      else if some_result parse c tool params Uncertain allow then NeedsReview
      else if some_result parse c tool params Match allow then Allowed
      else if \<exists>r \<in> set allow. rule_Tool r = tool then Denied
      else Unmatched)"
proof -
  have tool: "(\<exists>r \<in> set rs. rule_Tool r = tool \<and> matchResult parse c r tool params = res) \<longleftrightarrow>
      some_result parse c tool params res rs" if "res \<noteq> NoMatch" for res rs
    using that matchResult_other_tool by metis
  show ?thesis
    unfolding Check_def Let_def deny_pass_eq allow_pass_eq
    by (simp add: tool split: bool.splits)
qed

section \<open>The contract of a matcher\<close>

text \<open>
  \<open>denotes\<close> says which values a pattern stands for.  A matcher answers \<open>Match\<close> only for values the
  pattern denotes, and never \<open>NoMatch\<close> for such a value; \<open>Uncertain\<close> is always permitted.
\<close>

locale matcher_contract =
  fixes m :: "string \<Rightarrow> string \<Rightarrow> MatchResult"
    and denotes :: "string \<Rightarrow> string \<Rightarrow> bool"
  assumes match_sound: "m p v = Match \<Longrightarrow> denotes p v"
    and match_complete: "denotes p v \<Longrightarrow> m p v \<noteq> NoMatch"
begin

lemma deny_blocks:
  assumes "matcher parse c tool = m" "extractor c tool = Some fn"
    and "r \<in> set deny" "rule_Tool r = tool" "denotes (rule_Pattern r) (fn params)"
  shows "Check parse c tool params allow deny \<in> {Denied, NeedsReview}"
proof (cases "IsWholeTool r")
  case True
  with assms have "some_result parse c tool params Match deny"
    by (auto simp: matchResult_def)
  then show ?thesis by (simp add: Check_eq)
next
  case False
  with assms have "matchResult parse c r tool params \<noteq> NoMatch"
    using match_complete by (simp add: matchResult_def)
  with assms(3) have "some_result parse c tool params Match deny \<or>
      some_result parse c tool params Uncertain deny"
    by (metis MatchResult.exhaust)
  then show ?thesis by (auto simp: Check_eq)
qed

lemma allowed_only_if_denoted:
  assumes "matcher parse c tool = m" "extractor c tool = Some fn"
    and "Check parse c tool params allow deny = Allowed"
  shows "\<exists>r \<in> set allow. rule_Tool r = tool \<and>
           (IsWholeTool r \<or> denotes (rule_Pattern r) (fn params))"
proof -
  from assms(3) obtain r where "r \<in> set allow" "matchResult parse c r tool params = Match"
    by (auto simp: Check_eq split: if_splits)
  with assms(1,2) show ?thesis
    using match_sound by (auto simp: matchResult_def split: if_splits)
qed

end

text \<open>The three matchers of the package fulfil the contract.\<close>

definition comma_denotes :: "string \<Rightarrow> string \<Rightarrow> bool" where
  "comma_denotes p v \<longleftrightarrow>
     (\<exists>item \<in> set (SplitByte p (CHR '','')). TrimSpace item \<noteq> [] \<and> MatchWildcard (TrimSpace item) v)"

definition bash_denotes :: "sh_parser \<Rightarrow> string \<Rightarrow> string \<Rightarrow> bool" where
  "bash_denotes parse p command \<longleftrightarrow>
     (\<exists>nodes. parse command = Some nodes \<and>
        (\<exists>n \<in> set nodes. \<exists>cmd \<in> set (node_cmd n). MatchWildcard p cmd))"

interpretation wildcard_mc: matcher_contract wildcardMatchFunc MatchWildcard
  by unfold_locales (simp_all add: wildcardMatchFunc_def split: if_splits)

interpretation comma_mc: matcher_contract matchCommaList comma_denotes
  by unfold_locales (simp_all add: matchCommaList_def comma_denotes_def list_ex_iff split: if_splits)

lemma bashMatch_Match: "bashMatch parse p command = Match \<longleftrightarrow> bash_denotes parse p command"
  by (cases "parse command")
    (auto simp: bashMatch_def bash_denotes_def extractCommands_Some extractCommands_None list_ex_iff)

interpretation bash_mc: matcher_contract "bashMatch parse" "bash_denotes parse" for parse
  by unfold_locales (simp_all add: bashMatch_Match [symmetric])

section \<open>Properties\<close>

text \<open>
  C6. The decision of \<open>Check\<close> on every input: a deny rule that matches denies; an uncertain deny
  rule, then an uncertain allow rule, ask for review; then a matching allow rule allows; allow
  rules for the tool without a match deny; otherwise no rule speaks about the tool.
\<close>

theorem Check_decision:
  "Check parse c tool params allow deny =
     (if \<exists>r \<in> set deny. matchResult parse c r tool params = Match then Denied
      else if \<exists>r \<in> set deny. matchResult parse c r tool params = Uncertain then NeedsReview
      else if \<exists>r \<in> set allow. matchResult parse c r tool params = Uncertain then NeedsReview
      else if \<exists>r \<in> set allow. matchResult parse c r tool params = Match then Allowed
      else if \<exists>r \<in> set allow. rule_Tool r = tool then Denied
      else Unmatched)"
  by (rule Check_eq)

text \<open>
  C29. Deny rules see through nesting: when the shell parser yields, at any level of the command, a
  simple command that the pattern of a Bash deny rule matches, the call is denied or sent to
  review, whatever the allow rules say.
\<close>

theorem Bash_deny_rule_blocks:
  assumes "parse command = Some nodes"
    and "CallExpr args \<in> set nodes" "fst (callExprToString args) \<noteq> []"
    and "MatchWildcard p (fst (callExprToString args))"
    and "\<lparr>rule_Tool = ''Bash'', rule_Pattern = p\<rparr> \<in> set deny"
  shows "Check parse zero_Checker ''Bash'' [(''command'', VString command)] allow deny
           \<in> {Denied, NeedsReview}"
proof -
  have "bash_denotes parse p command"
    using assms(1-4) by (auto simp: bash_denotes_def node_cmd_def intro!: bexI [OF _ assms(2)])
  then show ?thesis
    using assms(5) bash_mc.deny_blocks [of parse zero_Checker "''Bash''" parse
        "strExtractor ''command''" "\<lparr>rule_Tool = ''Bash'', rule_Pattern = p\<rparr>" deny
        "[(''command'', VString command)]" allow]
    by (simp add: matcher_def extractor_def zero_Checker_def defaultMatchers_def
        defaultExtractors_def strExtractor_def gomap_get_def)
qed

theorem Bash_deny_rule_blocks_witness:
  "Check (\<lambda>_. Some [CallExpr [[PLit ''echo''], [POther]], CmdSubst,
                    CallExpr [[PLit ''rm''], [PLit ''-rf''], [PLit ''/'']]])
     zero_Checker ''Bash'' [(''command'', VString ''echo $(rm -rf /)'')]
     [\<lparr>rule_Tool = ''Bash'', rule_Pattern = []\<rparr>]
     [\<lparr>rule_Tool = ''Bash'', rule_Pattern = ''rm *''\<rparr>] \<in> {Denied, NeedsReview}"
proof (rule Bash_deny_rule_blocks [where p = "''rm *''"
      and args = "[[PLit ''rm''], [PLit ''-rf''], [PLit ''/'']]"])
  show "fst (callExprToString [[PLit ''rm''], [PLit ''-rf''], [PLit ''/'']]) \<noteq> []" by code_simp
  show "MatchWildcard ''rm *'' (fst (callExprToString [[PLit ''rm''], [PLit ''-rf''], [PLit ''/'']]))"
    by code_simp
qed (rule refl, simp_all)

text \<open>
  Adding deny rules never grants anything: if a call is allowed with more deny rules, it is
  allowed with fewer.
\<close>

theorem Check_deny_antimono:
  assumes "set deny \<subseteq> set deny'"
    and "Check parse c tool params allow deny' = Allowed"
  shows "Check parse c tool params allow deny = Allowed"
  using assms by (auto simp: Check_eq split: if_splits)

theorem Check_deny_antimono_witness:
  "Check (\<lambda>_. None) zero_Checker ''Read'' [(''file_path'', VString ''/src/a/../main.go'')]
     [\<lparr>rule_Tool = ''Read'', rule_Pattern = ''/src/*''\<rparr>] [] = Allowed"
proof (rule Check_deny_antimono [where deny' = "[\<lparr>rule_Tool = ''Read'', rule_Pattern = ''/etc/*''\<rparr>]"])
  show "Check (\<lambda>_. None) zero_Checker ''Read'' [(''file_path'', VString ''/src/a/../main.go'')]
     [\<lparr>rule_Tool = ''Read'', rule_Pattern = ''/src/*''\<rparr>]
     [\<lparr>rule_Tool = ''Read'', rule_Pattern = ''/etc/*''\<rparr>] = Allowed"
    by code_simp
qed simp

text \<open>
  The parameter a file rule matches against is free of path traversal: for an absolute path
  argument the extracted value is a rooted path without empty, \<open>.\<close> or \<open>..\<close> components, so a rule
  such as \<open>Read(/src/*)\<close> cannot be escaped with \<open>..\<close>.
\<close>

theorem pathExtractor_no_traversal:
  assumes "gomap_get params key = Some (VString s)" and "prefix ''/'' s"
  shows "\<exists>cs. pathExtractor key params = SLASH # Join cs ''/'' \<and>
           (\<forall>c \<in> set cs. c \<noteq> [] \<and> c \<noteq> ''.'' \<and> c \<noteq> ''..'' \<and> SLASH \<notin> set c)"
proof -
  have "pathExtractor key params = filepath_Clean s"
    using assms by (auto simp: pathExtractor_def)
  with filepath_Clean_rooted [OF assms(2)] show ?thesis
    unfolding plain_component_def by auto
qed

theorem pathExtractor_no_traversal_witness:
  "\<exists>cs. pathExtractor ''file_path'' [(''file_path'', VString ''/src/../etc/passwd'')]
            = SLASH # Join cs ''/'' \<and>
          (\<forall>c \<in> set cs. c \<noteq> [] \<and> c \<noteq> ''.'' \<and> c \<noteq> ''..'' \<and> SLASH \<notin> set c)"
  by (rule pathExtractor_no_traversal [where s = "''/src/../etc/passwd''"])
    (simp_all add: gomap_get_def)

text \<open>
  For an allow rule the Bash matcher also asks for one matching simple command only: with a
  single parameterised allow rule and no deny rules, a call is allowed as soon as some simple
  command anywhere in it matches, whatever other commands or substitutions it contains.
\<close>

theorem Bash_allow_rule_any_command:
  assumes "parse command = Some nodes"
    and "CallExpr args \<in> set nodes" "fst (callExprToString args) \<noteq> []"
    and "p \<noteq> []" "MatchWildcard p (fst (callExprToString args))"
  shows "Check parse zero_Checker ''Bash'' [(''command'', VString command)]
           [\<lparr>rule_Tool = ''Bash'', rule_Pattern = p\<rparr>] [] = Allowed"
proof -
  have "bashMatch parse p command = Match"
    using assms(1-3,5) unfolding bashMatch_Match bash_denotes_def
    by (auto simp: node_cmd_def intro!: bexI [OF _ assms(2)])
  with assms(4) show ?thesis
    by (simp add: Check_eq matchResult_def IsWholeTool_def matcher_def extractor_def
        zero_Checker_def defaultMatchers_def defaultExtractors_def strExtractor_def gomap_get_def)
qed

theorem Bash_allow_rule_any_command_witness:
  "Check (\<lambda>_. Some [CallExpr [[PLit ''echo''], [POther]], CmdSubst,
                    CallExpr [[PLit ''curl''], [PLit ''evil.com'']]])
     zero_Checker ''Bash'' [(''command'', VString ''echo $(curl evil.com)'')]
     [\<lparr>rule_Tool = ''Bash'', rule_Pattern = ''echo *''\<rparr>] [] = Allowed"
proof (rule Bash_allow_rule_any_command [where args = "[[PLit ''echo''], [POther]]"])
  show "fst (callExprToString [[PLit ''echo''], [POther]]) \<noteq> []" by code_simp
  show "MatchWildcard ''echo *'' (fst (callExprToString [[PLit ''echo''], [POther]]))" by code_simp
qed (rule refl, simp_all)

end
