(* ===== verification/Tool_Inheritance.thy ===== *)
theory Tool_Inheritance
  imports Tool_Checker
begin

text \<open>
  How an instance obtains its tools: \<open>computeEffectiveTools\<close> and its helpers in
  \<open>internal/agent/manager_resolve.go\<close> (declared rules, intersection with the parent, allow layers,
  deny rules), the enforcement at call time in \<open>internal/inference/tools.go\<close> and the expansion of
  the tool set by an activated skill in \<open>internal/inference/loop.go\<close>.

  A set of tool names is a Go map with the value \<open>true\<close> at every key and is modelled as a set.
  JSON decoding of the call's input is the parameter \<open>unmarshal\<close> (\<open>None\<close> on malformed JSON).
\<close>

record tool_instance =
  ti_effectiveTools :: "string set option"
  ti_allowLayers :: "Rule list list"
  ti_denyRules :: "Rule list"

definition spawnTool :: string where
  "spawnTool = ''SpawnInstance''"

definition persistentTools :: "string list" where
  "persistentTools = [''TodoWrite'', ''HistorySearch'', ''HistoryRecall'']"

definition hasParameterized :: "Rule list \<Rightarrow> bool" where
  "hasParameterized rules = list_ex (\<lambda>r. \<not> IsWholeTool r) rules"

definition stripRedundantWholeToolRules :: "Rule list \<Rightarrow> Rule list" where
  "stripRedundantWholeToolRules rules =
     (let hasParam = rule_Tool ` set (filter (\<lambda>r. \<not> IsWholeTool r) rules) in
      filter (\<lambda>r. \<not> (IsWholeTool r \<and> rule_Tool r \<in> hasParam)) rules)"

definition filterRules :: "Rule list \<Rightarrow> string set \<Rightarrow> Rule list" where
  "filterRules rules effective = filter (\<lambda>r. rule_Tool r \<in> effective) rules"

definition intersectParentRules ::
  "(string \<Rightarrow> tool_instance option) \<Rightarrow> string \<Rightarrow> string set \<Rightarrow> Rule list list \<Rightarrow> Rule list
     \<Rightarrow> string set \<times> Rule list list \<times> Rule list" where
  "intersectParentRules instances parentID effective allowLayers denyRules =
     (if parentID = [] then (effective, allowLayers, denyRules)
      else case instances parentID of
        None \<Rightarrow> ({}, allowLayers, denyRules)
      | Some parent \<Rightarrow>
          (case ti_effectiveTools parent of
             None \<Rightarrow> ({}, allowLayers, denyRules)
           | Some ptools \<Rightarrow>
               (effective \<inter> ptools, allowLayers @ ti_allowLayers parent,
                denyRules @ ti_denyRules parent)))"

definition parse_allowed :: "string list option \<Rightarrow> rule_error + Rule list" where
  "parse_allowed allowed = (case allowed of None \<Rightarrow> Inr [] | Some ss \<Rightarrow> ParseRules ss)"

definition computeEffectiveTools ::
  "(string \<Rightarrow> tool_instance option) \<Rightarrow> string list option \<Rightarrow> string list \<Rightarrow> string
     \<Rightarrow> rule_error + string set \<times> Rule list list \<times> Rule list" where
  "computeEffectiveTools instances allowedTools disallowedTools parentID =
     (case parse_allowed allowedTools of
        Inl e \<Rightarrow> Inl e
      | Inr agentAllow \<Rightarrow>
          (case ParseRules disallowedTools of
             Inl e \<Rightarrow> Inl e
           | Inr agentDeny \<Rightarrow>
               (let effective0 = rule_Tool ` set agentAllow;
                    layers0 = (if hasParameterized agentAllow then [agentAllow] else []);
                    (effective1, layers1, deny1) =
                      intersectParentRules instances parentID effective0 layers0 agentDeny;
                    layers2 = map (\<lambda>l. stripRedundantWholeToolRules (filterRules l effective1)) layers1;
                    effective2 = effective1 - rule_Tool ` set (filter IsWholeTool deny1)
                in Inr (effective2, layers2, filterRules deny1 effective2))))"

definition buildAllowedToolsMap :: "string set \<Rightarrow> bool \<Rightarrow> bool \<Rightarrow> string set" where
  "buildAllowedToolsMap effective persistent hasSkills =
     (let a1 = insert spawnTool effective;
          a2 = (if persistent then a1 \<union> set persistentTools else a1)
      in if hasSkills then insert ''Skill'' a2 else a2)"

section \<open>Call-time enforcement\<close>

datatype check_error = InvalidParameters | DeniedByPolicy | TooComplex

fun decision_error :: "Decision \<Rightarrow> check_error option" where
  "decision_error Denied = Some DeniedByPolicy"
| "decision_error NeedsReview = Some TooComplex"
| "decision_error Allowed = None"
| "decision_error Unmatched = None"

fun check_layers ::
  "sh_parser \<Rightarrow> string \<Rightarrow> tool_params \<Rightarrow> Rule list list \<Rightarrow> check_error option" where
  "check_layers parse tool input [] = None"
| "check_layers parse tool input (layer # layers) =
     (case decision_error (Check parse zero_Checker tool input layer []) of
        Some e \<Rightarrow> Some e
      | None \<Rightarrow> check_layers parse tool input layers)"

definition decode_input :: "(string \<Rightarrow> tool_params option) \<Rightarrow> string \<Rightarrow> tool_params option" where
  "decode_input unmarshal raw = (if raw = [] then Some [] else unmarshal raw)"

definition checkRules ::
  "sh_parser \<Rightarrow> (string \<Rightarrow> tool_params option) \<Rightarrow> Rule list list \<Rightarrow> Rule list
     \<Rightarrow> string \<Rightarrow> string \<Rightarrow> check_error option" where
  "checkRules parse unmarshal allowLayers denyRules tool raw =
     (if denyRules = [] \<and> allowLayers = [] then None
      else case decode_input unmarshal raw of
        None \<Rightarrow> Some InvalidParameters
      | Some input \<Rightarrow>
          (case (if denyRules = [] then None
                 else decision_error (Check parse zero_Checker tool input [] denyRules)) of
             Some e \<Rightarrow> Some e
           | None \<Rightarrow> check_layers parse tool input allowLayers))"

text \<open>\<open>proxyTool.Run\<close>: a refused call answers with an error text and never reaches the executor.\<close>

datatype tool_response = TextResponse string | TextErrorResponse string | RunError string

definition check_error_text :: "check_error \<Rightarrow> string" where
  "check_error_text e =
     (case e of
        InvalidParameters \<Rightarrow> ''tool call denied: invalid parameters''
      | DeniedByPolicy \<Rightarrow> ''tool call denied by policy''
      | TooComplex \<Rightarrow> ''tool call denied: cannot verify against policy (command too complex)'')"

definition proxyTool_Run ::
  "sh_parser \<Rightarrow> (string \<Rightarrow> tool_params option) \<Rightarrow> (string \<Rightarrow> string \<Rightarrow> string + string \<times> bool)
     \<Rightarrow> (string \<Rightarrow> string) option \<Rightarrow> Rule list list \<Rightarrow> Rule list \<Rightarrow> string \<Rightarrow> string
     \<Rightarrow> tool_response \<times> (string \<times> string) list" where
  "proxyTool_Run parse unmarshal executor redactor allowLayers denyRules tool raw =
     (case checkRules parse unmarshal allowLayers denyRules tool raw of
        Some e \<Rightarrow> (TextErrorResponse (check_error_text e), [])
      | None \<Rightarrow>
          (case executor tool raw of
             Inl err \<Rightarrow> (RunError (''remote tool '' @ tool @ '': '' @ err), [(tool, raw)])
           | Inr (content0, isError) \<Rightarrow>
               (let content = (case redactor of None \<Rightarrow> content0 | Some red \<Rightarrow> red content0) in
                (if isError then TextErrorResponse content else TextResponse content,
                 [(tool, raw)]))))"

definition RemoteToolNames :: "string list" where
  "RemoteToolNames =
     [''Bash'', ''Read'', ''Write'', ''Edit'', ''Glob'', ''Grep'', ''TaskOutput'', ''TaskStop'']"

datatype loop_tool =
    LocalTool string
  | ProxyTool string "Rule list list" "Rule list"

fun tool_name :: "loop_tool \<Rightarrow> string" where
  "tool_name (LocalTool n) = n"
| "tool_name (ProxyTool n _ _) = n"

text \<open>The order of \<open>RemoteToolInfos\<close>, with the names of the tools it builds.\<close>

definition RemoteToolInfos :: "string list" where
  "RemoteToolInfos =
     [''Bash'', ''Read'', ''Edit'', ''Write'', ''Glob'', ''Grep'', ''TaskOutput'', ''TaskStop'']"

definition buildProxyTools ::
  "string set option \<Rightarrow> Rule list list \<Rightarrow> Rule list \<Rightarrow> loop_tool list" where
  "buildProxyTools allowed allowLayers denyRules =
     map (\<lambda>n. ProxyTool n allowLayers denyRules)
       (filter (\<lambda>n. case allowed of None \<Rightarrow> True | Some a \<Rightarrow> n \<in> a) RemoteToolInfos)"

section \<open>Skill expansion\<close>

record loop_tools =
  lt_tools :: "loop_tool list"
  lt_baseAllowLayers :: "Rule list list"
  lt_baseDenyRules :: "Rule list"
  lt_skillAllowLayer :: "Rule list"
  lt_skillExpanded :: bool

definition filterNewTools :: "loop_tools \<Rightarrow> string list \<Rightarrow> string list" where
  "filterNewTools l wantTools =
     (let haveTools = tool_name ` set (lt_tools l);
          denied = rule_Tool ` set (filter IsWholeTool (lt_baseDenyRules l)) in
      filter (\<lambda>n. n \<notin> haveTools \<and> n \<notin> denied \<and> n \<in> set RemoteToolNames) wantTools)"

definition addSkillProxyTools :: "loop_tools \<Rightarrow> string list \<Rightarrow> loop_tools" where
  "addSkillProxyTools l newToolNames =
     (let skillLayers = lt_baseAllowLayers l @ [lt_skillAllowLayer l] in
      l\<lparr>lt_tools := lt_tools l @
          map (\<lambda>n. ProxyTool n skillLayers (lt_baseDenyRules l))
            (filter (\<lambda>n. n \<in> set newToolNames) RemoteToolInfos),
        lt_skillExpanded := True\<rparr>)"

definition expandToolsForSkill :: "loop_tools \<Rightarrow> string list \<Rightarrow> rule_error + loop_tools" where
  "expandToolsForSkill l allowedTools =
     (if allowedTools = [] then Inr l
      else case ParseRules allowedTools of
        Inl e \<Rightarrow> Inl e
      | Inr rules \<Rightarrow>
          (let wantTools = remdups (map rule_Tool rules);
               newToolNames = filterNewTools l wantTools in
           if newToolNames = [] then Inr l
           else Inr (addSkillProxyTools
                  (l\<lparr>lt_skillAllowLayer := lt_skillAllowLayer l @ rules\<rparr>) newToolNames)))"

definition UpdateToolRules ::
  "loop_tools \<Rightarrow> string set option \<Rightarrow> Rule list list \<Rightarrow> Rule list \<Rightarrow> loop_tools" where
  "UpdateToolRules l allowed allowLayers denyRules =
     l\<lparr>lt_tools := buildProxyTools allowed allowLayers denyRules @
          filter (\<lambda>t. case t of ProxyTool _ _ _ \<Rightarrow> False | LocalTool _ \<Rightarrow> True) (lt_tools l),
       lt_baseDenyRules := denyRules,
       lt_baseAllowLayers := allowLayers,
       lt_skillAllowLayer := [],
       lt_skillExpanded := False\<rparr>"

section \<open>When a call passes\<close>

abbreviation mres :: "sh_parser \<Rightarrow> string \<Rightarrow> tool_params \<Rightarrow> Rule \<Rightarrow> MatchResult" where
  "mres parse tool input r \<equiv> matchResult parse zero_Checker r tool input"

lemma deny_passes_iff:
  "decision_error (Check parse zero_Checker tool input [] deny) = None \<longleftrightarrow>
     (\<forall>r \<in> set deny. mres parse tool input r = NoMatch)"
proof -
  have "m = NoMatch \<longleftrightarrow> m \<noteq> Match \<and> m \<noteq> Uncertain" for m by (cases m) simp_all
  then show ?thesis by (auto simp: Check_eq)
qed

lemma layer_passes_iff:
  "decision_error (Check parse zero_Checker tool input layer []) = None \<longleftrightarrow>
     (\<forall>r \<in> set layer. mres parse tool input r \<noteq> Uncertain) \<and>
     ((\<exists>r \<in> set layer. mres parse tool input r = Match) \<or>
      (\<forall>r \<in> set layer. rule_Tool r \<noteq> tool))"
  by (auto simp: Check_eq)

lemma check_layers_passes_iff:
  "check_layers parse tool input layers = None \<longleftrightarrow>
     (\<forall>layer \<in> set layers.
        decision_error (Check parse zero_Checker tool input layer []) = None)"
  by (induction layers) (auto split: option.splits)

lemma checkRules_passes_iff:
  assumes "decode_input unmarshal raw = Some input"
  shows "checkRules parse unmarshal layers deny tool raw = None \<longleftrightarrow>
     decision_error (Check parse zero_Checker tool input [] deny) = None \<and>
     check_layers parse tool input layers = None"
  using assms deny_passes_iff [of parse tool input deny]
  by (auto simp: checkRules_def split: option.splits)

lemma mres_Uncertain_param:
  "mres parse tool input r = Uncertain \<Longrightarrow> rule_Tool r = tool \<and> \<not> IsWholeTool r"
  by (auto simp: matchResult_def split: if_splits)

lemma mem_stripRedundant:
  "r \<in> set (stripRedundantWholeToolRules rules) \<longleftrightarrow>
     r \<in> set rules \<and>
     (IsWholeTool r \<longrightarrow> (\<forall>r' \<in> set rules. rule_Tool r' = rule_Tool r \<longrightarrow> IsWholeTool r'))"
  unfolding stripRedundantWholeToolRules_def Let_def by (fastforce simp: image_iff)

text \<open>Filtering and stripping a layer only makes it stricter for the tools that remain.\<close>

lemma stripped_layer_stricter:
  assumes "tool \<in> effective"
    and pass: "decision_error (Check parse zero_Checker tool input
                 (stripRedundantWholeToolRules (filterRules layer effective)) []) = None"
  shows "decision_error (Check parse zero_Checker tool input layer []) = None"
proof -
  let ?L = "stripRedundantWholeToolRules (filterRules layer effective)"
  have sub: "r \<in> set layer" if "r \<in> set ?L" for r
    using that by (simp add: mem_stripRedundant filterRules_def)
  have param: "r \<in> set ?L" if "r \<in> set layer" "rule_Tool r = tool" "\<not> IsWholeTool r" for r
    using that assms(1) by (simp add: mem_stripRedundant filterRules_def)
  have rule: "\<exists>r' \<in> set ?L. rule_Tool r' = tool" if "r \<in> set layer" "rule_Tool r = tool" for r
    using that assms(1) param by (cases "r \<in> set ?L") (auto simp: mem_stripRedundant filterRules_def)
  from pass have "\<forall>r \<in> set layer. mres parse tool input r \<noteq> Uncertain"
    using param mres_Uncertain_param unfolding layer_passes_iff by blast
  moreover from pass have "(\<exists>r \<in> set layer. mres parse tool input r = Match) \<or>
      (\<forall>r \<in> set layer. rule_Tool r \<noteq> tool)"
    using sub rule unfolding layer_passes_iff by blast
  ultimately show ?thesis unfolding layer_passes_iff by blast
qed

lemma computeEffectiveTools_parent:
  assumes "computeEffectiveTools instances allowed disallowed parentID = Inr (eff, layers, deny)"
    and "parentID \<noteq> []" "instances parentID = Some parent" "ti_effectiveTools parent = Some ptools"
  obtains eff1 layers0 deny0 where "eff1 \<subseteq> ptools" "eff \<subseteq> eff1"
    "layers = map (\<lambda>l. stripRedundantWholeToolRules (filterRules l eff1))
                 (layers0 @ ti_allowLayers parent)"
    "deny = filterRules (deny0 @ ti_denyRules parent) eff"
proof -
  from assms(1) obtain agentAllow agentDeny where
    p: "parse_allowed allowed = Inr agentAllow" "ParseRules disallowed = Inr agentDeny"
    by (auto simp: computeEffectiveTools_def split: sum.splits)
  let ?eff1 = "rule_Tool ` set agentAllow \<inter> ptools"
  let ?layers0 = "if hasParameterized agentAllow then [agentAllow] else []"
  let ?denied = "rule_Tool ` {x. (x \<in> set agentDeny \<or> x \<in> set (ti_denyRules parent)) \<and> IsWholeTool x}"
  have eff: "eff = ?eff1 - ?denied"
    using assms p by (simp add: computeEffectiveTools_def intersectParentRules_def Let_def)
  moreover have "layers = map (\<lambda>l. stripRedundantWholeToolRules (filterRules l ?eff1))
       (?layers0 @ ti_allowLayers parent)"
    using assms p by (simp add: computeEffectiveTools_def intersectParentRules_def Let_def)
  moreover have "deny = filterRules (agentDeny @ ti_denyRules parent) eff"
    using assms p
    by (simp add: computeEffectiveTools_def intersectParentRules_def Let_def) (elim conjE, simp)
  ultimately show thesis
    by (intro that [of ?eff1 ?layers0 agentDeny]) auto
qed

lemma computeEffectiveTools_deny:
  assumes "computeEffectiveTools instances allowed disallowed parentID = Inr (eff, layers, deny)"
    and "r \<in> set deny"
  shows "rule_Tool r \<in> eff \<and> \<not> IsWholeTool r"
  using assms
  by (auto simp: computeEffectiveTools_def intersectParentRules_def filterRules_def Let_def
      split: sum.splits if_splits option.splits)

section \<open>Properties\<close>


text \<open>A parent confined to \<open>curl\<close> and a child that asks for more.\<close>

definition example_instances :: "string \<Rightarrow> tool_instance option" where
  "example_instances iid =
     (if iid = ''p'' then Some \<lparr>ti_effectiveTools = Some {''Bash'', ''Read''},
        ti_allowLayers = [[\<lparr>rule_Tool = ''Bash'', rule_Pattern = ''curl *''\<rparr>]],
        ti_denyRules = [\<lparr>rule_Tool = ''Read'', rule_Pattern = ''/etc/*''\<rparr>]\<rparr>
      else None)"

lemma example_child:
  "computeEffectiveTools example_instances (Some [''Bash'', ''Read'', ''Write'']) [] ''p'' =
     Inr ({''Bash'', ''Read''}, [[\<lparr>rule_Tool = ''Bash'', rule_Pattern = ''curl *''\<rparr>]],
          [\<lparr>rule_Tool = ''Read'', rule_Pattern = ''/etc/*''\<rparr>])"
proof -
  have "ParseRules [''Bash'', ''Read'', ''Write''] =
      Inr [\<lparr>rule_Tool = ''Bash'', rule_Pattern = []\<rparr>, \<lparr>rule_Tool = ''Read'', rule_Pattern = []\<rparr>,
           \<lparr>rule_Tool = ''Write'', rule_Pattern = []\<rparr>]"
    by code_simp
  then show ?thesis
    by (auto simp: computeEffectiveTools_def parse_allowed_def intersectParentRules_def
        example_instances_def hasParameterized_def filterRules_def stripRedundantWholeToolRules_def
        IsWholeTool_def Let_def)
qed


text \<open>
  Resolution fails closed: with a parent that is unknown or has no tool set, the instance gets
  no tools at all, whatever it declares.
\<close>

theorem missing_parent_no_tools:
  assumes "parentID \<noteq> []"
    and "\<And>p. instances parentID = Some p \<Longrightarrow> ti_effectiveTools p = None"
    and "computeEffectiveTools instances allowed disallowed parentID = Inr (eff, layers, deny)"
  shows "eff = {}"
  using assms
  by (auto simp: computeEffectiveTools_def intersectParentRules_def Let_def
      split: sum.splits option.splits)

theorem missing_parent_no_tools_witness:
  "\<exists>eff layers deny.
     computeEffectiveTools (\<lambda>_. None) (Some [''Bash'']) [] ''gone'' = Inr (eff, layers, deny) \<and>
     eff = {}"
proof -
  have "ParseRules [''Bash''] = Inr [\<lparr>rule_Tool = ''Bash'', rule_Pattern = []\<rparr>]" by code_simp
  then have c: "computeEffectiveTools (\<lambda>_. None) (Some [''Bash'']) [] ''gone'' = Inr ({}, [], [])"
    by (simp add: computeEffectiveTools_def parse_allowed_def intersectParentRules_def
        hasParameterized_def filterRules_def IsWholeTool_def Let_def)
  have "({}::string set) = {}"
    by (rule missing_parent_no_tools [OF _ _ c]) simp_all
  with c show ?thesis by blast
qed

text \<open>
  The deny rules handed to the inference loop never name a tool outside the effective set and
  never deny a whole tool.  The loop's check for wholly denied tools when a skill asks for new
  tools therefore excludes nothing: a skill obtains every remote tool it lists that the instance
  does not have yet, and the deny rules of the configuration for that tool are gone.
\<close>

theorem skill_regains_denied_tools:
  assumes "computeEffectiveTools instances allowed disallowed parentID = Inr (eff, layers, deny)"
    and "lt_baseDenyRules l = deny" "tool \<notin> eff" "tool \<notin> tool_name ` set (lt_tools l)"
    and "tool \<in> set RemoteToolNames" "tool \<in> set wantTools"
  shows "tool \<in> set (filterNewTools l wantTools) \<and> (\<forall>r \<in> set deny. rule_Tool r \<noteq> tool)"
  using assms computeEffectiveTools_deny [OF assms(1)]
  by (auto simp: filterNewTools_def Let_def)

theorem skill_regains_denied_tools_witness:
  "\<exists>eff layers deny.
     computeEffectiveTools (\<lambda>_. None) (Some [''Read'', ''Bash'']) [''Bash''] [] = Inr (eff, layers, deny) \<and>
     ''Bash'' \<in> set (filterNewTools
       \<lparr>lt_tools = buildProxyTools (Some eff) layers deny, lt_baseAllowLayers = layers,
        lt_baseDenyRules = deny, lt_skillAllowLayer = [], lt_skillExpanded = False\<rparr> [''Bash''])"
proof -
  have p: "ParseRules [''Read'', ''Bash''] = Inr [\<lparr>rule_Tool = ''Read'', rule_Pattern = []\<rparr>,
        \<lparr>rule_Tool = ''Bash'', rule_Pattern = []\<rparr>]"
    "ParseRules [''Bash''] = Inr [\<lparr>rule_Tool = ''Bash'', rule_Pattern = []\<rparr>]"
    by code_simp+
  have c: "computeEffectiveTools (\<lambda>_. None) (Some [''Read'', ''Bash'']) [''Bash''] [] =
      Inr ({''Read''}, [], [])"
    using p by (auto simp: computeEffectiveTools_def parse_allowed_def intersectParentRules_def
        hasParameterized_def filterRules_def IsWholeTool_def Let_def)
  let ?l = "\<lparr>lt_tools = buildProxyTools (Some {''Read''}) [] [], lt_baseAllowLayers = [],
      lt_baseDenyRules = [], lt_skillAllowLayer = [], lt_skillExpanded = False\<rparr>"
  have "''Bash'' \<in> set (filterNewTools ?l [''Bash''])"
    using skill_regains_denied_tools [OF c, of ?l "''Bash''" "[''Bash'']"]
    by (simp add: buildProxyTools_def RemoteToolInfos_def RemoteToolNames_def)
  with c show ?thesis by blast
qed

end
