(* ===== verification/Message_Store.thy ===== *)
theory Message_Store
  imports Hiro_Prelude
begin

text \<open>
  The conversation store of \<open>src/internal/platform/db/messages.go\<close>: the tables
  \<open>messages\<close>, \<open>summaries\<close>, \<open>summary_messages\<close>, \<open>summary_parents\<close> and
  \<open>context_items\<close> of the SQLite schema as lists of rows, and one definition per query or
  transaction.  A transaction that violates a constraint of the schema (a primary key, a foreign
  key, a check) is an error value and leaves no trace, as a rolled back transaction does.  The
  identifier of a message is the next value of the AUTOINCREMENT counter and its time of creation
  is the argument \<open>now\<close>.  The full-text search tables and their triggers are not modelled.
\<close>

section \<open>Rows and tables\<close>

record Message =
  msg_ID :: int
  msg_SessionID :: string
  msg_Seq :: int
  msg_Role :: string
  msg_Content :: string
  msg_RawJSON :: string
  msg_Tokens :: int
  msg_Meta :: bool
  msg_CreatedAt :: gotime

datatype SummaryKind = SummaryKindLeaf | SummaryKindCondensed

record Summary =
  sum_ID :: string
  sum_SessionID :: string
  sum_Kind :: SummaryKind
  sum_Depth :: int
  sum_Content :: string
  sum_Tokens :: int
  sum_EarliestAt :: gotime
  sum_LatestAt :: gotime
  sum_SourceTokens :: int
  sum_Model :: string
  sum_CreatedAt :: gotime

text \<open>The check constraint of \<open>context_items\<close> makes an item either a message with its
  message id or a summary with its summary id.\<close>

datatype item_ref = ItemMessage int | ItemSummary string

record ContextItem =
  ci_SessionID :: string
  ci_Ordinal :: int
  ci_Ref :: item_ref

datatype db_error = ErrNotFound | ForeignKeyViolation | UniqueViolation

record msg_db =
  db_sessions :: "string list"
  db_messages :: "Message list"
  db_lastMessageID :: int
  db_summaries :: "Summary list"
  db_summary_messages :: "(string \<times> int \<times> nat) list"
  db_summary_parents :: "(string \<times> string \<times> nat) list"
  db_context_items :: "ContextItem list"

text \<open>\<open>SELECT MAX\<close> over a column: no value for an empty table.\<close>

definition sql_max :: "int list \<Rightarrow> int option" where
  "sql_max xs = (if xs = [] then None else Some (fold max (tl xs) (hd xs)))"

text \<open>A timestamp written with second precision, as \<open>time.RFC3339\<close> and
  \<open>datetime('now')\<close> are.\<close>

definition second_precision :: "gotime \<Rightarrow> gotime" where
  "second_precision t = t div 1000000000 * 1000000000"

definition session_messages :: "msg_db \<Rightarrow> string \<Rightarrow> Message list" where
  "session_messages db sid = filter (\<lambda>m. msg_SessionID m = sid) (db_messages db)"

definition session_items :: "msg_db \<Rightarrow> string \<Rightarrow> ContextItem list" where
  "session_items db sid = filter (\<lambda>ci. ci_SessionID ci = sid) (db_context_items db)"

section \<open>Messages\<close>

definition AppendMessage ::
  "msg_db \<Rightarrow> gotime \<Rightarrow> string \<Rightarrow> string \<Rightarrow> string \<Rightarrow> string \<Rightarrow> int \<Rightarrow> bool \<Rightarrow> db_error + (int \<times> msg_db)"
where
  "AppendMessage db now sessionID role content rawJSON tokens meta =
     (if sessionID \<notin> set (db_sessions db) then Inl ForeignKeyViolation
      else
        let seq = (case sql_max (map msg_Seq (session_messages db sessionID)) of
                     None \<Rightarrow> 1 | Some maxSeq \<Rightarrow> maxSeq + 1);
            msgID = db_lastMessageID db + 1;
            ord = (case sql_max (map ci_Ordinal (session_items db sessionID)) of
                     None \<Rightarrow> 0 | Some maxOrd \<Rightarrow> maxOrd + 1)
        in Inr (msgID, db\<lparr>
             db_messages := db_messages db @
               [\<lparr>msg_ID = msgID, msg_SessionID = sessionID, msg_Seq = seq, msg_Role = role,
                 msg_Content = content, msg_RawJSON = rawJSON, msg_Tokens = tokens,
                 msg_Meta = meta, msg_CreatedAt = second_precision now\<rparr>],
             db_lastMessageID := msgID,
             db_context_items := db_context_items db @
               [\<lparr>ci_SessionID = sessionID, ci_Ordinal = ord, ci_Ref = ItemMessage msgID\<rparr>]\<rparr>))"

definition GetMessage :: "msg_db \<Rightarrow> int \<Rightarrow> db_error + Message" where
  "GetMessage db mid =
     (case find (\<lambda>m. msg_ID m = mid) (db_messages db) of None \<Rightarrow> Inl ErrNotFound | Some m \<Rightarrow> Inr m)"

definition GetMessages :: "msg_db \<Rightarrow> int list \<Rightarrow> Message list" where
  "GetMessages db ids =
     (if ids = [] then []
      else sort_key msg_Seq (filter (\<lambda>m. msg_ID m \<in> set ids) (db_messages db)))"

text \<open>A negative \<open>LIMIT\<close> is no limit in SQLite.\<close>

definition RecentMessages :: "msg_db \<Rightarrow> string \<Rightarrow> int \<Rightarrow> Message list" where
  "RecentMessages db sid limit =
     (let newest = rev (sort_key msg_Seq (session_messages db sid))
      in rev (if limit < 0 then newest else take (nat limit) newest))"

section \<open>Summaries\<close>

definition summary_lookup :: "msg_db \<Rightarrow> string \<Rightarrow> Summary option" where
  "summary_lookup db sumid = find (\<lambda>s. sum_ID s = sumid) (db_summaries db)"

definition CreateSummary :: "msg_db \<Rightarrow> gotime \<Rightarrow> Summary \<Rightarrow> db_error + msg_db" where
  "CreateSummary db now sm =
     (if summary_lookup db (sum_ID sm) \<noteq> None then Inl UniqueViolation
      else if sum_SessionID sm \<notin> set (db_sessions db) then Inl ForeignKeyViolation
      else Inr (db\<lparr>db_summaries := db_summaries db @
             [sm\<lparr>sum_EarliestAt := second_precision (sum_EarliestAt sm),
                 sum_LatestAt := second_precision (sum_LatestAt sm),
                 sum_CreatedAt := second_precision now\<rparr>]\<rparr>))"

fun link_messages :: "msg_db \<Rightarrow> string \<Rightarrow> nat \<Rightarrow> int list \<Rightarrow> db_error + msg_db" where
  "link_messages db summaryID i [] = Inr db"
| "link_messages db summaryID i (msgID # rest) =
     (if summary_lookup db summaryID = None \<or> msgID \<notin> msg_ID ` set (db_messages db)
      then Inl ForeignKeyViolation
      else if \<exists>(s, m, _) \<in> set (db_summary_messages db). s = summaryID \<and> m = msgID
      then Inl UniqueViolation
      else link_messages
             (db\<lparr>db_summary_messages := db_summary_messages db @ [(summaryID, msgID, i)]\<rparr>)
             summaryID (Suc i) rest)"

definition LinkSummaryMessages :: "msg_db \<Rightarrow> string \<Rightarrow> int list \<Rightarrow> db_error + msg_db" where
  "LinkSummaryMessages db summaryID messageIDs = link_messages db summaryID 0 messageIDs"

fun link_parents :: "msg_db \<Rightarrow> string \<Rightarrow> nat \<Rightarrow> string list \<Rightarrow> db_error + msg_db" where
  "link_parents db parentID i [] = Inr db"
| "link_parents db parentID i (childID # rest) =
     (if summary_lookup db parentID = None \<or> summary_lookup db childID = None
      then Inl ForeignKeyViolation
      else if \<exists>(c, p, _) \<in> set (db_summary_parents db). c = childID \<and> p = parentID
      then Inl UniqueViolation
      else link_parents
             (db\<lparr>db_summary_parents := db_summary_parents db @ [(childID, parentID, i)]\<rparr>)
             parentID (Suc i) rest)"

definition LinkSummaryParents :: "msg_db \<Rightarrow> string \<Rightarrow> string list \<Rightarrow> db_error + msg_db" where
  "LinkSummaryParents db parentID childIDs = link_parents db parentID 0 childIDs"

definition GetSummary :: "msg_db \<Rightarrow> string \<Rightarrow> db_error + Summary" where
  "GetSummary db sumid =
     (case summary_lookup db sumid of None \<Rightarrow> Inl ErrNotFound | Some s \<Rightarrow> Inr s)"

definition GetSummarySourceMessages :: "msg_db \<Rightarrow> string \<Rightarrow> int list" where
  "GetSummarySourceMessages db summaryID =
     map (fst \<circ> snd) (sort_key (snd \<circ> snd)
       (filter (\<lambda>r. fst r = summaryID) (db_summary_messages db)))"

definition GetSummaryChildren :: "msg_db \<Rightarrow> string \<Rightarrow> string list" where
  "GetSummaryChildren db parentID =
     map fst (sort_key (snd \<circ> snd)
       (filter (\<lambda>r. fst (snd r) = parentID) (db_summary_parents db)))"

section \<open>Context items\<close>

definition GetContextItems :: "msg_db \<Rightarrow> string \<Rightarrow> ContextItem list" where
  "GetContextItems db sessionID = sort_key ci_Ordinal (session_items db sessionID)"

text \<open>
  After the deletion of the range the primary key (session, ordinal) is free unless the range is
  empty, that is, unless the end lies before the start.
\<close>

definition ReplaceContextItems ::
  "msg_db \<Rightarrow> string \<Rightarrow> int \<Rightarrow> int \<Rightarrow> string \<Rightarrow> db_error + msg_db" where
  "ReplaceContextItems db sessionID startOrd endOrd summaryID =
     (let kept = filter (\<lambda>ci. \<not> (ci_SessionID ci = sessionID \<and>
                   startOrd \<le> ci_Ordinal ci \<and> ci_Ordinal ci \<le> endOrd)) (db_context_items db)
      in if \<exists>ci \<in> set kept. ci_SessionID ci = sessionID \<and> ci_Ordinal ci = startOrd
         then Inl UniqueViolation
         else if summary_lookup db summaryID = None \<or> sessionID \<notin> set (db_sessions db)
         then Inl ForeignKeyViolation
         else Inr (db\<lparr>db_context_items := kept @
                [\<lparr>ci_SessionID = sessionID, ci_Ordinal = startOrd,
                  ci_Ref = ItemSummary summaryID\<rparr>]\<rparr>))"

definition item_message :: "msg_db \<Rightarrow> ContextItem \<Rightarrow> Message option" where
  "item_message db ci =
     (case ci_Ref ci of
        ItemMessage mid \<Rightarrow> find (\<lambda>m. msg_ID m = mid) (db_messages db)
      | ItemSummary _ \<Rightarrow> None)"

definition item_summary :: "msg_db \<Rightarrow> ContextItem \<Rightarrow> Summary option" where
  "item_summary db ci =
     (case ci_Ref ci of ItemMessage _ \<Rightarrow> None | ItemSummary sumid \<Rightarrow> summary_lookup db sumid)"

definition ContextTokenCount :: "msg_db \<Rightarrow> string \<Rightarrow> int" where
  "ContextTokenCount db sid =
     sum_list (map msg_Tokens (List.map_filter (item_message db) (session_items db sid))) +
     sum_list (map sum_Tokens (List.map_filter (item_summary db) (session_items db sid)))"

text \<open>The ordinals of the fresh tail: \<open>ORDER BY ordinal DESC LIMIT tailSize\<close>.\<close>

definition tail_ordinals :: "msg_db \<Rightarrow> string \<Rightarrow> int \<Rightarrow> int list" where
  "tail_ordinals db sid tailSize =
     (let newest = rev (map ci_Ordinal (GetContextItems db sid))
      in if tailSize < 0 then newest else take (nat tailSize) newest)"

text \<open>The join of the message items outside the tail with their messages, oldest first.\<close>

definition messages_outside_tail :: "msg_db \<Rightarrow> string \<Rightarrow> int \<Rightarrow> (ContextItem \<times> Message) list" where
  "messages_outside_tail db sid tailSize =
     List.map_filter (\<lambda>ci. map_option (Pair ci) (item_message db ci))
       (filter (\<lambda>ci. ci_Ordinal ci \<notin> set (tail_ordinals db sid tailSize)) (GetContextItems db sid))"

definition MessageTokensOutsideTail :: "msg_db \<Rightarrow> string \<Rightarrow> int \<Rightarrow> int" where
  "MessageTokensOutsideTail db sid tailSize =
     sum_list (map (msg_Tokens \<circ> snd) (messages_outside_tail db sid tailSize))"

fun take_tokens :: "int \<Rightarrow> int \<Rightarrow> (ContextItem \<times> Message) list \<Rightarrow> (ContextItem \<times> Message) list" where
  "take_tokens maxTokens tokenSum [] = []"
| "take_tokens maxTokens tokenSum ((ci, m) # rest) =
     (if tokenSum > 0 \<and> tokenSum + msg_Tokens m > maxTokens then []
      else (ci, m) # take_tokens maxTokens (tokenSum + msg_Tokens m) rest)"

definition OldestMessageContextItems ::
  "msg_db \<Rightarrow> string \<Rightarrow> int \<Rightarrow> int \<Rightarrow> ContextItem list \<times> Message list" where
  "OldestMessageContextItems db sid tailSize maxTokens =
     (let picked = take_tokens maxTokens 0 (messages_outside_tail db sid tailSize)
      in (map fst picked, map snd picked))"

record candidate =
  cand_pos :: nat
  cand_ci :: ContextItem
  cand_sum :: Summary

definition depth_candidates :: "msg_db \<Rightarrow> int \<Rightarrow> ContextItem list \<Rightarrow> candidate list" where
  "depth_candidates db depth allCI =
     List.map_filter (\<lambda>(idx, ci).
       case item_summary db ci of None \<Rightarrow> None
       | Some sm \<Rightarrow> if sum_Depth sm \<noteq> depth then None
                    else Some \<lparr>cand_pos = idx, cand_ci = ci, cand_sum = sm\<rparr>)
     (enumerate 0 allCI)"

fun longest_run :: "candidate list \<Rightarrow> nat \<Rightarrow> nat \<Rightarrow> nat \<Rightarrow> nat \<Rightarrow> nat \<Rightarrow> nat \<Rightarrow> nat \<times> nat" where
  "longest_run candidates 0 i curStart curLen bestStart bestLen = (bestStart, bestLen)"
| "longest_run candidates (Suc n) i curStart curLen bestStart bestLen =
     (let adj = cand_pos (candidates ! i) = cand_pos (candidates ! (i - 1)) + 1;
          curStart' = (if adj then curStart else i);
          curLen' = (if adj then curLen + 1 else 1);
          better = curLen' > bestLen
      in longest_run candidates n (i + 1) curStart' curLen'
           (if better then curStart' else bestStart) (if better then curLen' else bestLen))"

text \<open>
  \<open>minCount\<close> is the fan-in of the configuration.  With no candidate and a fan-in below one
  the source would slice an empty list out of range; the option is that panic.
\<close>

definition ContiguousSummariesAtDepth ::
  "msg_db \<Rightarrow> string \<Rightarrow> int \<Rightarrow> int \<Rightarrow> (ContextItem list \<times> Summary list) option" where
  "ContiguousSummariesAtDepth db sid depth minCount =
     (let candidates = depth_candidates db depth (GetContextItems db sid)
      in if int (length candidates) < minCount then Some ([], [])
         else let (bestStart, bestLen) = longest_run candidates (length candidates - 1) 1 0 1 0 1
              in if int bestLen < minCount then Some ([], [])
                 else if bestStart + bestLen > length candidates then None
                 else let run = take bestLen (drop bestStart candidates)
                      in Some (map cand_ci run, map cand_sum run))"

definition MaxSummaryDepth :: "msg_db \<Rightarrow> string \<Rightarrow> int" where
  "MaxSummaryDepth db sid =
     (case sql_max (map sum_Depth (List.map_filter (item_summary db) (session_items db sid))) of
        None \<Rightarrow> -1 | Some d \<Rightarrow> d)"

end
