(* ===== verification/Context_View.thy ===== *)
theory Context_View
  imports Message_Store
begin

text \<open>
  The contract between the conversation store and its clients.  A context item stands for a
  list of messages: a message item for its message, a leaf summary for the messages it links, a
  condensed summary for what its children stand for.  The store is well formed when the context
  items of every session, read in ordinal order, stand for exactly the messages of the session in
  the order in which they were appended, with all summaries before all messages.
\<close>

section \<open>Queries with an ORDER BY on a key\<close>

lemma sort_key_unique:
  fixes f :: "'a \<Rightarrow> 'b :: linorder"
  assumes "distinct (map f xs)" "sorted (map f ys)" "distinct (map f ys)" "set ys = set xs"
  shows "sort_key f xs = ys"
proof (rule map_sorted_distinct_set_unique [of f])
  show "inj_on f (set (sort_key f xs) \<union> set ys)"
    using assms(1,4) by (simp add: distinct_map)
  show "distinct (map f (sort_key f xs))"
    using assms(1) by (simp add: distinct_map)
qed (use assms in simp_all)

lemma sort_key_snoc_max:
  assumes "\<forall>x \<in> set xs. f x < f y"
  shows "sort_key f (xs @ [y]) = sort_key f xs @ [y]"
  using assms
proof (induction xs)
  case (Cons x xs)
  then have "insort_key f x (zs @ [y]) = insort_key f x zs @ [y]" for zs
    by (induction zs) auto
  with Cons show ?case by simp
qed simp

lemma sql_max_upper: "sql_max xs = Some m \<Longrightarrow> x \<in> set xs \<Longrightarrow> x \<le> m"
proof -
  have "z \<le> fold max ys (z :: int) \<and> (\<forall>y \<in> set ys. y \<le> fold max ys z)" for ys z
    by (induction ys arbitrary: z) (force simp: le_max_iff_disj)+
  then show "sql_max xs = Some m \<Longrightarrow> x \<in> set xs \<Longrightarrow> x \<le> m"
    by (cases xs) (auto simp: sql_max_def)
qed

lemma sql_max_None: "sql_max xs = None \<longleftrightarrow> xs = []"
  by (simp add: sql_max_def)

lemma next_above:
  assumes "x \<in> set xs"
  shows "x < (case sql_max xs of None \<Rightarrow> d | Some m \<Rightarrow> m + 1)"
proof (cases "sql_max xs")
  case None
  with assms show ?thesis by (simp add: sql_max_None)
next
  case (Some m)
  with sql_max_upper [OF Some assms] show ?thesis by simp
qed

section \<open>What an item stands for\<close>

definition is_summary_item :: "ContextItem \<Rightarrow> bool" where
  "is_summary_item ci \<longleftrightarrow> (case ci_Ref ci of ItemMessage _ \<Rightarrow> False | ItemSummary _ \<Rightarrow> True)"

fun sum_expand :: "msg_db \<Rightarrow> nat \<Rightarrow> string \<Rightarrow> int list" where
  "sum_expand db 0 sumid = GetSummarySourceMessages db sumid"
| "sum_expand db (Suc d) sumid = concat (map (sum_expand db d) (GetSummaryChildren db sumid))"

definition item_expand :: "msg_db \<Rightarrow> ContextItem \<Rightarrow> int list" where
  "item_expand db ci =
     (case ci_Ref ci of
        ItemMessage mid \<Rightarrow> [mid]
      | ItemSummary sumid \<Rightarrow>
          (case summary_lookup db sumid of
             None \<Rightarrow> []
           | Some sm \<Rightarrow> sum_expand db (nat (sum_Depth sm)) sumid))"

definition context_expand :: "msg_db \<Rightarrow> string \<Rightarrow> int list" where
  "context_expand db sid = concat (map (item_expand db) (GetContextItems db sid))"

text \<open>The history of a session: its messages in the order of their sequence numbers.\<close>

definition history :: "msg_db \<Rightarrow> string \<Rightarrow> int list" where
  "history db sid = map msg_ID (sort_key msg_Seq (session_messages db sid))"

definition refers_to :: "ContextItem \<Rightarrow> string \<Rightarrow> bool" where
  "refers_to ci sumid \<longleftrightarrow> ci_Ref ci = ItemSummary sumid"

section \<open>Well-formed stores\<close>

definition tables_ok :: "msg_db \<Rightarrow> bool" where
  "tables_ok db \<longleftrightarrow>
     distinct (map msg_ID (db_messages db)) \<and>
     (\<forall>m \<in> set (db_messages db). msg_ID m \<le> db_lastMessageID db) \<and>
     distinct (map (\<lambda>ci. (ci_SessionID ci, ci_Ordinal ci)) (db_context_items db)) \<and>
     (\<forall>(n, _, _) \<in> set (db_summary_messages db). summary_lookup db n \<noteq> None) \<and>
     (\<forall>(c, p, _) \<in> set (db_summary_parents db).
        summary_lookup db c \<noteq> None \<and> summary_lookup db p \<noteq> None)"

definition session_ok :: "msg_db \<Rightarrow> string \<Rightarrow> bool" where
  "session_ok db sid \<longleftrightarrow>
     sorted_wrt (\<lambda>a b. is_summary_item b \<longrightarrow> is_summary_item a) (GetContextItems db sid) \<and>
     (\<forall>ci \<in> set (GetContextItems db sid). \<forall>n. refers_to ci n \<longrightarrow> summary_lookup db n \<noteq> None) \<and>
     context_expand db sid = history db sid"

definition store_ok :: "msg_db \<Rightarrow> bool" where
  "store_ok db \<longleftrightarrow> tables_ok db \<and> (\<forall>sid. session_ok db sid)"

definition empty_db :: "string list \<Rightarrow> msg_db" where
  "empty_db sessions = \<lparr>db_sessions = sessions, db_messages = [], db_lastMessageID = 0,
     db_summaries = [], db_summary_messages = [], db_summary_parents = [], db_context_items = []\<rparr>"

lemma empty_db_ok: "store_ok (empty_db sessions)"
  by (simp add: store_ok_def tables_ok_def session_ok_def empty_db_def GetContextItems_def
      session_items_def context_expand_def history_def session_messages_def)

lemma set_GetContextItems [simp]: "set (GetContextItems db sid) = set (session_items db sid)"
  by (simp add: GetContextItems_def)

lemma distinct_ordinals:
  assumes "tables_ok db"
  shows "distinct (map ci_Ordinal (session_items db sid))"
proof -
  have "distinct (map (\<lambda>ci. (ci_SessionID ci, ci_Ordinal ci)) (session_items db sid))"
    using assms by (simp add: tables_ok_def session_items_def distinct_map_filter)
  moreover have "map (\<lambda>ci. (ci_SessionID ci, ci_Ordinal ci)) (session_items db sid) =
      map (Pair sid) (map ci_Ordinal (session_items db sid))"
    by (simp add: session_items_def)
  ultimately have "distinct (map (Pair sid) (map ci_Ordinal (session_items db sid)))" by simp
  then show ?thesis by (metis distinct_map)
qed

lemma ordinals_sorted:
  assumes "tables_ok db"
  shows "sorted_wrt (<) (map ci_Ordinal (GetContextItems db sid))"
proof -
  have "distinct (map ci_Ordinal (GetContextItems db sid))"
    using distinct_ordinals [OF assms] by (simp add: GetContextItems_def distinct_map)
  then show ?thesis by (simp add: strict_sorted_iff GetContextItems_def)
qed

lemma GetContextItems_eq:
  assumes "tables_ok db" "sorted_wrt (<) (map ci_Ordinal ys)" "set ys = set (session_items db sid)"
  shows "GetContextItems db sid = ys"
  unfolding GetContextItems_def
  using assms distinct_ordinals [OF assms(1)]
  by (intro sort_key_unique) (auto simp: strict_sorted_iff)

section \<open>Appending a message\<close>

lemma append_frame:
  assumes "AppendMessage db now s role content raw tokens meta = Inr (i, db')"
  shows "summary_lookup db' = summary_lookup db"
    "db_summary_messages db' = db_summary_messages db"
    "db_summary_parents db' = db_summary_parents db"
  using assms by (auto simp: AppendMessage_def Let_def summary_lookup_def fun_eq_iff split: if_splits)

lemma tables_ok_append:
  assumes "tables_ok db" "AppendMessage db now s role content raw tokens meta = Inr (i, db')"
  shows "tables_ok db'"
proof -
  have "x < (case sql_max (map ci_Ordinal (session_items db s)) of None \<Rightarrow> 0 | Some m \<Rightarrow> m + 1)"
    if "x \<in> set (map ci_Ordinal (session_items db s))" for x
    using that by (rule next_above)
  then have "(s, case sql_max (map ci_Ordinal (session_items db s)) of None \<Rightarrow> 0 | Some m \<Rightarrow> m + 1)
      \<notin> (\<lambda>ci. (ci_SessionID ci, ci_Ordinal ci)) ` set (db_context_items db)"
    by (fastforce simp: session_items_def)
  then have "distinct (map (\<lambda>ci. (ci_SessionID ci, ci_Ordinal ci)) (db_context_items db'))"
    using assms by (auto simp: tables_ok_def AppendMessage_def Let_def split: if_splits)
  moreover have "distinct (map msg_ID (db_messages db'))"
    "\<forall>m \<in> set (db_messages db'). msg_ID m \<le> db_lastMessageID db'"
    using assms by (fastforce simp: tables_ok_def AppendMessage_def Let_def split: if_splits)+
  ultimately show ?thesis
    using assms(1) by (simp add: tables_ok_def append_frame [OF assms(2)])
qed

lemma append_session_items:
  assumes "AppendMessage db now s role content raw tokens meta = Inr (i, db')"
  shows "GetContextItems db' sid = GetContextItems db sid @
           (if sid = s then [\<lparr>ci_SessionID = s, ci_Ordinal =
              (case sql_max (map ci_Ordinal (session_items db s)) of None \<Rightarrow> 0 | Some m \<Rightarrow> m + 1),
              ci_Ref = ItemMessage i\<rparr>] else [])"
proof -
  have "\<forall>x \<in> set (session_items db s). ci_Ordinal x <
      (case sql_max (map ci_Ordinal (session_items db s)) of None \<Rightarrow> 0 | Some m \<Rightarrow> m + 1)"
    using next_above by force
  with assms show ?thesis
    unfolding GetContextItems_def
    by (auto simp: AppendMessage_def Let_def session_items_def sort_key_snoc_max split: if_splits)
qed

lemma append_history:
  assumes "AppendMessage db now s role content raw tokens meta = Inr (i, db')"
  shows "history db' sid = history db sid @ (if sid = s then [i] else [])"
proof -
  have "\<forall>x \<in> set (session_messages db s). msg_Seq x <
      (case sql_max (map msg_Seq (session_messages db s)) of None \<Rightarrow> 1 | Some m \<Rightarrow> m + 1)"
    using next_above by force
  with assms show ?thesis
    by (auto simp: history_def AppendMessage_def Let_def session_messages_def sort_key_snoc_max
        split: if_splits)
qed

lemma sum_expand_links:
  assumes "db_summary_messages db' = db_summary_messages db"
    "db_summary_parents db' = db_summary_parents db"
  shows "sum_expand db' = sum_expand db"
proof -
  have links: "GetSummarySourceMessages db' = GetSummarySourceMessages db"
    "GetSummaryChildren db' = GetSummaryChildren db"
    using assms by (simp_all add: GetSummarySourceMessages_def GetSummaryChildren_def fun_eq_iff)
  have "sum_expand db' d = sum_expand db d" for d
    by (induction d) (simp_all add: links fun_eq_iff cong: map_cong)
  then show ?thesis by blast
qed

lemma session_ok_append:
  assumes "session_ok db sid" "AppendMessage db now s role content raw tokens meta = Inr (i, db')"
  shows "session_ok db' sid"
proof -
  note fr = append_frame [OF assms(2)]
  have ex: "item_expand db' = item_expand db"
    by (rule ext)
      (simp add: item_expand_def fr(1) sum_expand_links [OF fr(2,3)] split: item_ref.split option.split)
  have items: "GetContextItems db' sid = GetContextItems db sid @
      (if sid = s then [\<lparr>ci_SessionID = s, ci_Ordinal =
        (case sql_max (map ci_Ordinal (session_items db s)) of None \<Rightarrow> 0 | Some m \<Rightarrow> m + 1),
        ci_Ref = ItemMessage i\<rparr>] else [])"
    by (rule append_session_items [OF assms(2)])
  have "set (session_items db' sid) = set (GetContextItems db' sid)" by simp
  with items assms(1) show ?thesis
    by (auto simp: session_ok_def context_expand_def append_history [OF assms(2)] fr ex items
        sorted_wrt_append is_summary_item_def refers_to_def item_expand_def)
qed

lemma store_ok_append:
  "store_ok db \<Longrightarrow> AppendMessage db now s role content raw tokens meta = Inr (i, db') \<Longrightarrow> store_ok db'"
  using tables_ok_append session_ok_append by (fastforce simp: store_ok_def)

section \<open>Creating and linking a summary\<close>

text \<open>A summary without rows in the link tables, to which nothing refers.\<close>

definition unlinked :: "msg_db \<Rightarrow> string \<Rightarrow> bool" where
  "unlinked db n \<longleftrightarrow>
     (\<forall>(x, _, _) \<in> set (db_summary_messages db). x \<noteq> n) \<and>
     (\<forall>(c, p, _) \<in> set (db_summary_parents db). c \<noteq> n \<and> p \<noteq> n)"

definition no_parent :: "msg_db \<Rightarrow> string \<Rightarrow> bool" where
  "no_parent db n \<longleftrightarrow> (\<forall>(c, _, _) \<in> set (db_summary_parents db). c \<noteq> n)"

definition not_in_context :: "msg_db \<Rightarrow> string \<Rightarrow> bool" where
  "not_in_context db n \<longleftrightarrow> (\<forall>ci \<in> set (db_context_items db). \<not> refers_to ci n)"

lemma create_frame:
  assumes "CreateSummary db now sm = Inr db'"
  shows "db_summary_messages db' = db_summary_messages db"
    "db_summary_parents db' = db_summary_parents db"
    "db_messages db' = db_messages db" "db_context_items db' = db_context_items db"
    "db_lastMessageID db' = db_lastMessageID db" "db_sessions db' = db_sessions db"
    "summary_lookup db (sum_ID sm) = None"
  using assms by (auto simp: CreateSummary_def split: if_splits)

lemma create_lookup:
  assumes "CreateSummary db now sm = Inr db'"
  shows "n \<noteq> sum_ID sm \<Longrightarrow> summary_lookup db' n = summary_lookup db n"
    "\<exists>sm'. summary_lookup db' (sum_ID sm) = Some sm' \<and> sum_Depth sm' = sum_Depth sm \<and>
       sum_SessionID sm' = sum_SessionID sm"
  using assms
  by (auto simp: CreateSummary_def summary_lookup_def find_snoc_cases split: if_splits option.splits)

lemma link_messages_Inr:
  assumes "link_messages db n i mids = Inr db'"
  shows "db' = db\<lparr>db_summary_messages := db_summary_messages db @
           map (\<lambda>(k, m). (n, m, k)) (enumerate i mids)\<rparr> \<and>
         (mids \<noteq> [] \<longrightarrow> summary_lookup db n \<noteq> None)"
  using assms
proof (induction mids arbitrary: db i)
  case (Cons m mids)
  from Cons.prems have
    "link_messages (db\<lparr>db_summary_messages := db_summary_messages db @ [(n, m, i)]\<rparr>) n (Suc i) mids
       = Inr db'" "summary_lookup db n \<noteq> None"
    by (auto split: if_splits)
  with Cons.IH [OF this(1)] show ?case by simp
qed simp

lemma link_parents_Inr:
  assumes "link_parents db n i cids = Inr db'"
  shows "db' = db\<lparr>db_summary_parents := db_summary_parents db @
           map (\<lambda>(k, c). (c, n, k)) (enumerate i cids)\<rparr> \<and>
         (cids \<noteq> [] \<longrightarrow> summary_lookup db n \<noteq> None) \<and>
         (\<forall>c \<in> set cids. summary_lookup db c \<noteq> None)"
  using assms
proof (induction cids arbitrary: db i)
  case (Cons c cids)
  let ?db = "db\<lparr>db_summary_parents := db_summary_parents db @ [(c, n, i)]\<rparr>"
  from Cons.prems have l: "link_parents ?db n (Suc i) cids = Inr db'"
    "summary_lookup db n \<noteq> None" "summary_lookup db c \<noteq> None"
    by (auto split: if_splits)
  have "summary_lookup ?db = summary_lookup db" by (simp add: summary_lookup_def fun_eq_iff)
  with Cons.IH [OF l(1)] l show ?case by simp
qed simp

lemma sort_key_enumerate:
  "sort_key (snd \<circ> snd) (map (\<lambda>(k, x). (f x, g x, k)) (enumerate i xs)) =
     map (\<lambda>(k, x). (f x, g x, k)) (enumerate i xs)"
proof (rule sort_key_id_if_sorted)
  have "map (snd \<circ> snd) (map (\<lambda>(k, x). (f x, g x, k)) (enumerate i xs)) = [i..<i + length xs]"
    by (simp add: comp_def case_prod_beta map_fst_enumerate [unfolded comp_def])
  then show "sorted (map (snd \<circ> snd) (map (\<lambda>(k, x). (f x, g x, k)) (enumerate i xs)))"
    by simp
qed

lemma link_messages_frame:
  assumes "LinkSummaryMessages db n mids = Inr db'" "unlinked db n"
  shows "db_summary_parents db' = db_summary_parents db" "db_messages db' = db_messages db"
    "db_context_items db' = db_context_items db" "db_lastMessageID db' = db_lastMessageID db"
    "summary_lookup db' = summary_lookup db"
    "GetSummarySourceMessages db' x = (if x = n then mids else GetSummarySourceMessages db x)"
    "\<forall>(x, _, _) \<in> set (db_summary_messages db'). summary_lookup db x = None \<longrightarrow>
       (\<exists>(y, _, _) \<in> set (db_summary_messages db). x = y)"
proof -
  from link_messages_Inr [OF assms(1) [unfolded LinkSummaryMessages_def]]
  have db': "db' = db\<lparr>db_summary_messages := db_summary_messages db @
      map (\<lambda>(k, m). (n, m, k)) (enumerate 0 mids)\<rparr>"
    and n: "mids \<noteq> [] \<longrightarrow> summary_lookup db n \<noteq> None" by auto
  show "db_summary_parents db' = db_summary_parents db" "db_messages db' = db_messages db"
    "db_context_items db' = db_context_items db" "db_lastMessageID db' = db_lastMessageID db"
    "summary_lookup db' = summary_lookup db"
    by (simp_all add: db' summary_lookup_def fun_eq_iff)
  have none: "filter (\<lambda>r. fst r = n) (db_summary_messages db) = []"
    using assms(2) by (auto simp: unlinked_def filter_empty_conv)
  have "filter (\<lambda>r. fst r = x) (map (\<lambda>(k, m). (n, m, k)) (enumerate 0 mids)) =
      (if x = n then map (\<lambda>(k, m). (n, m, k)) (enumerate 0 mids) else [])"
    by (auto simp: filter_map comp_def case_prod_beta)
  moreover have "map (fst \<circ> snd) (map (\<lambda>(k, m). (n, m, k)) (enumerate 0 mids)) = mids"
    by (simp add: comp_def case_prod_beta map_snd_enumerate [unfolded comp_def])
  ultimately show "GetSummarySourceMessages db' x = (if x = n then mids else GetSummarySourceMessages db x)"
    using none sort_key_enumerate [of "\<lambda>_. n" "\<lambda>m. m" 0 mids]
    by (auto simp: GetSummarySourceMessages_def db')
  show "\<forall>(x, _, _) \<in> set (db_summary_messages db'). summary_lookup db x = None \<longrightarrow>
       (\<exists>(y, _, _) \<in> set (db_summary_messages db). x = y)"
    using n by (cases mids) (force simp: db')+
qed

lemma link_parents_frame:
  assumes "LinkSummaryParents db n cids = Inr db'" "unlinked db n"
  shows "db_summary_messages db' = db_summary_messages db" "db_messages db' = db_messages db"
    "db_context_items db' = db_context_items db" "db_lastMessageID db' = db_lastMessageID db"
    "summary_lookup db' = summary_lookup db"
    "GetSummaryChildren db' x = (if x = n then cids else GetSummaryChildren db x)"
    "set (db_summary_parents db') = set (db_summary_parents db) \<union>
       {(c, n, k) | c k. (k, c) \<in> set (enumerate 0 cids)}"
    "cids \<noteq> [] \<longrightarrow> summary_lookup db n \<noteq> None" "\<forall>c \<in> set cids. summary_lookup db c \<noteq> None"
proof -
  from link_parents_Inr [OF assms(1) [unfolded LinkSummaryParents_def]]
  have db': "db' = db\<lparr>db_summary_parents := db_summary_parents db @
      map (\<lambda>(k, c). (c, n, k)) (enumerate 0 cids)\<rparr>"
    and n: "cids \<noteq> [] \<longrightarrow> summary_lookup db n \<noteq> None" "\<forall>c \<in> set cids. summary_lookup db c \<noteq> None"
    by auto
  show "db_summary_messages db' = db_summary_messages db" "db_messages db' = db_messages db"
    "db_context_items db' = db_context_items db" "db_lastMessageID db' = db_lastMessageID db"
    "summary_lookup db' = summary_lookup db"
    by (simp_all add: db' summary_lookup_def fun_eq_iff)
  have none: "filter (\<lambda>r. fst (snd r) = n) (db_summary_parents db) = []"
    using assms(2) by (auto simp: unlinked_def filter_empty_conv)
  have "filter (\<lambda>r. fst (snd r) = x) (map (\<lambda>(k, c). (c, n, k)) (enumerate 0 cids)) =
      (if x = n then map (\<lambda>(k, c). (c, n, k)) (enumerate 0 cids) else [])"
    by (auto simp: filter_map comp_def case_prod_beta)
  moreover have "map fst (map (\<lambda>(k, c). (c, n, k)) (enumerate 0 cids)) = cids"
    by (simp add: comp_def case_prod_beta map_snd_enumerate [unfolded comp_def])
  ultimately show "GetSummaryChildren db' x = (if x = n then cids else GetSummaryChildren db x)"
    using none sort_key_enumerate [of "\<lambda>c. c" "\<lambda>_. n" 0 cids]
    by (auto simp: GetSummaryChildren_def db')
  show "set (db_summary_parents db') = set (db_summary_parents db) \<union>
       {(c, n, k) | c k. (k, c) \<in> set (enumerate 0 cids)}"
    by (auto simp: db' image_iff)
qed (use link_parents_Inr [OF assms(1) [unfolded LinkSummaryParents_def]] in auto)

text \<open>Links of a summary without parents change nothing else in the expansion.\<close>

lemma sum_expand_link_frame:
  assumes "no_parent db n"
    and "\<And>x. x \<noteq> n \<Longrightarrow> GetSummarySourceMessages db' x = GetSummarySourceMessages db x"
    and "\<And>x. x \<noteq> n \<Longrightarrow> GetSummaryChildren db' x = GetSummaryChildren db x"
  shows "x \<noteq> n \<Longrightarrow> sum_expand db' d x = sum_expand db d x"
proof (induction d arbitrary: x)
  case (Suc d)
  have "c \<noteq> n" if "c \<in> set (GetSummaryChildren db x)" for c
    using that assms(1) by (auto simp: GetSummaryChildren_def no_parent_def)
  with Suc assms(3) show ?case by (simp cong: map_cong)
qed (simp add: assms(2))

section \<open>Replacing a run of items\<close>

lemma ordinals_split:
  assumes "tables_ok db" "GetContextItems db sid = xs @ mid @ ys" "mid \<noteq> []"
  shows "x \<in> set xs \<Longrightarrow> ci_Ordinal x < ci_Ordinal (hd mid)"
    "y \<in> set ys \<Longrightarrow> ci_Ordinal (last mid) < ci_Ordinal y"
    "z \<in> set mid \<Longrightarrow> ci_Ordinal (hd mid) \<le> ci_Ordinal z \<and> ci_Ordinal z \<le> ci_Ordinal (last mid)"
proof -
  have so: "sorted_wrt (\<lambda>a b. ci_Ordinal a < ci_Ordinal b) (xs @ mid @ ys)"
    using ordinals_sorted [OF assms(1), of sid] unfolding sorted_wrt_map assms(2) .
  from so assms(3) show "x \<in> set xs \<Longrightarrow> ci_Ordinal x < ci_Ordinal (hd mid)"
    "y \<in> set ys \<Longrightarrow> ci_Ordinal (last mid) < ci_Ordinal y"
    by (auto simp: sorted_wrt_append)
  assume z: "z \<in> set mid"
  have "sorted_wrt (\<lambda>a b. ci_Ordinal a < ci_Ordinal b) mid"
    using so by (simp add: sorted_wrt_append)
  moreover from assms(3) have "mid = hd mid # tl mid" "mid = butlast mid @ [last mid]" by simp_all
  ultimately have "\<forall>a \<in> set (tl mid). ci_Ordinal (hd mid) < ci_Ordinal a"
    "\<forall>a \<in> set (butlast mid). ci_Ordinal a < ci_Ordinal (last mid)"
    by (metis sorted_wrt.simps(2), metis sorted_wrt_append list.set_intros(1))
  moreover have "z = hd mid \<or> z \<in> set (tl mid)" "z = last mid \<or> z \<in> set (butlast mid)"
    using z \<open>mid = hd mid # tl mid\<close> \<open>mid = butlast mid @ [last mid]\<close>
    by (metis set_ConsD, metis in_set_conv_decomp Un_iff set_append set_ConsD empty_iff empty_set)
  ultimately show "ci_Ordinal (hd mid) \<le> ci_Ordinal z \<and> ci_Ordinal z \<le> ci_Ordinal (last mid)"
    by (metis order.refl order.strict_implies_order)
qed

definition summary_item :: "string \<Rightarrow> int \<Rightarrow> string \<Rightarrow> ContextItem" where
  "summary_item sid ord n = \<lparr>ci_SessionID = sid, ci_Ordinal = ord, ci_Ref = ItemSummary n\<rparr>"

lemma replace_Inr:
  assumes "ReplaceContextItems db sid a b n = Inr db'"
  shows "db' = db\<lparr>db_context_items := filter (\<lambda>ci. \<not> (ci_SessionID ci = sid \<and>
             a \<le> ci_Ordinal ci \<and> ci_Ordinal ci \<le> b)) (db_context_items db) @ [summary_item sid a n]\<rparr>"
    "\<forall>ci \<in> set (db_context_items db). ci_SessionID ci = sid \<longrightarrow> ci_Ordinal ci = a \<longrightarrow> a \<le> b"
    "summary_lookup db n \<noteq> None"
  using assms by (auto simp: ReplaceContextItems_def Let_def summary_item_def split: if_splits)

lemma replace_frame:
  assumes "ReplaceContextItems db sid a b n = Inr db'"
  shows "db_summary_messages db' = db_summary_messages db"
    "db_summary_parents db' = db_summary_parents db" "db_messages db' = db_messages db"
    "summary_lookup db' = summary_lookup db" "db_lastMessageID db' = db_lastMessageID db"
  by (simp_all add: replace_Inr(1) [OF assms] summary_lookup_def fun_eq_iff)

lemma replace_tables_ok:
  assumes "tables_ok db" "ReplaceContextItems db sid a b n = Inr db'"
  shows "tables_ok db'"
proof -
  have "(sid, a) \<notin> (\<lambda>ci. (ci_SessionID ci, ci_Ordinal ci)) ` set (filter (\<lambda>ci. \<not> (ci_SessionID ci = sid \<and>
      a \<le> ci_Ordinal ci \<and> ci_Ordinal ci \<le> b)) (db_context_items db))"
    using replace_Inr(2) [OF assms(2)] by auto
  then have "distinct (map (\<lambda>ci. (ci_SessionID ci, ci_Ordinal ci)) (db_context_items db'))"
    using assms(1)
    by (simp add: replace_Inr(1) [OF assms(2)] tables_ok_def distinct_map_filter summary_item_def)
  with assms(1) show ?thesis by (simp add: tables_ok_def replace_frame [OF assms(2)])
qed

lemma replace_other:
  assumes "ReplaceContextItems db sid a b n = Inr db'" "other \<noteq> sid"
  shows "GetContextItems db' other = GetContextItems db other"
  using assms(2)
  by (auto simp: GetContextItems_def session_items_def replace_Inr(1) [OF assms(1)] summary_item_def
      intro!: arg_cong [where f = "sort_key ci_Ordinal"] filter_cong)

lemma replace_items:
  assumes "tables_ok db" "GetContextItems db sid = xs @ mid @ ys" "mid \<noteq> []"
    "ReplaceContextItems db sid (ci_Ordinal (hd mid)) (ci_Ordinal (last mid)) n = Inr db'"
  shows "GetContextItems db' sid = xs @ [summary_item sid (ci_Ordinal (hd mid)) n] @ ys"
proof (rule GetContextItems_eq [OF replace_tables_ok [OF assms(1,4)]])
  note split = ordinals_split [OF assms(1-3)]
  have so: "sorted_wrt (\<lambda>a b. ci_Ordinal a < ci_Ordinal b) (xs @ mid @ ys)"
    using ordinals_sorted [OF assms(1), of sid] unfolding sorted_wrt_map assms(2) .
  have "ci_Ordinal (hd mid) < ci_Ordinal y" if "y \<in> set ys" for y
    using so assms(3) that by (auto simp: sorted_wrt_append)
  with so split(1)
  show "sorted_wrt (<) (map ci_Ordinal (xs @ [summary_item sid (ci_Ordinal (hd mid)) n] @ ys))"
    by (auto simp: sorted_wrt_append sorted_wrt_map summary_item_def)
  have "set (session_items db' sid) = {ci \<in> set (session_items db sid).
      \<not> (ci_Ordinal (hd mid) \<le> ci_Ordinal ci \<and> ci_Ordinal ci \<le> ci_Ordinal (last mid))} \<union>
      {summary_item sid (ci_Ordinal (hd mid)) n}"
    by (auto simp: session_items_def replace_Inr(1) [OF assms(4)] summary_item_def)
  moreover have "set (session_items db sid) = set xs \<union> set mid \<union> set ys"
    using assms(2) set_GetContextItems [of db sid] by auto
  ultimately show "set (xs @ [summary_item sid (ci_Ordinal (hd mid)) n] @ ys) =
      set (session_items db' sid)"
    using split by fastforce
qed

end
