(* ===== verification/Compaction.thy ===== *)
theory Compaction
  imports Complex_Main Context_View
begin

text \<open>
  Incremental compaction of a conversation, \<open>src/internal/inference/compaction.go\<close>, and the
  token estimates of \<open>helpers.go\<close> it uses.

  The model that writes the summaries, the UUID generator and the clock are the environment of a
  pass: a summariser is an arbitrary function from a prompt and an input to a text or a failure,
  and every pass has its own.  A prompt is kept in its parts (which of the eight base texts, the
  preceding summary, the token budget); its wording is not modelled.  The layout of a timestamp in
  a prompt is the argument \<open>fmt\<close>.  A pass returns an error or none and the database it
  leaves, since the transactions it committed before an error remain.

  The two threshold fractions are the rationals 0.60 and 0.85.  The source multiplies with the
  nearest doubles; for windows below \<open>2^50\<close> the product rounds to the same integer part.
\<close>

section \<open>Token estimates\<close>

abbreviation charsPerToken :: int where "charsPerToken \<equiv> 4"

definition EstimateTokens :: "string \<Rightarrow> int" where
  "EstimateTokens s =
     (let n = int (length s) div charsPerToken in if n = 0 \<and> s \<noteq> [] then 1 else n)"

definition clamp :: "int \<Rightarrow> int \<Rightarrow> int \<Rightarrow> int" where
  "clamp lo v hi = (if v < lo then lo else if v > hi then hi else v)"

text \<open>The last complete bullet, or else the last word, of a text cut in the middle.\<close>

definition bullet_cut :: "string \<Rightarrow> string" where
  "bullet_cut truncated =
     (case LastIndex truncated (CHR 0x0A # ''- '') of
        Some (Suc b) \<Rightarrow> take (Suc b) truncated
      | _ \<Rightarrow> (case LastIndex truncated '' '' of
                Some (Suc b) \<Rightarrow> take (Suc b) truncated
              | _ \<Rightarrow> truncated))"

text \<open>The result is missing where the source slices with a negative bound and panics.\<close>

definition truncateAtBullet :: "string \<Rightarrow> int \<Rightarrow> string option" where
  "truncateAtBullet content maxTokens =
     (let maxChars = maxTokens * charsPerToken in
      if int (length content) \<le> maxChars then Some content
      else if maxChars < 0 then None
      else Some (TrimRight (bullet_cut (take (nat maxChars) content)) (CHR 0x0A # '' '')))"

section \<open>Configuration\<close>

record CompactionConfig =
  cfg_ContextWindow :: int
  cfg_SoftThreshold :: rat
  cfg_HardThreshold :: rat
  cfg_TokenBudget :: int
  cfg_FreshTailCount :: int
  cfg_LeafChunkTokens :: int
  cfg_LeafTargetTokens :: int
  cfg_CondenseTargetTokens :: int
  cfg_LeafMinFanout :: int
  cfg_CondenseMinFanout :: int
  cfg_MaxSummaryDepth :: int

definition SoftThresholdTokens :: "CompactionConfig \<Rightarrow> int" where
  "SoftThresholdTokens c = min \<lfloor>rat_of_int (cfg_ContextWindow c) * cfg_SoftThreshold c\<rfloor> 200000"

definition HardThresholdTokens :: "CompactionConfig \<Rightarrow> int" where
  "HardThresholdTokens c = min \<lfloor>rat_of_int (cfg_ContextWindow c) * cfg_HardThreshold c\<rfloor> 300000"

abbreviation DefaultContextWindow :: int where "DefaultContextWindow \<equiv> 200000"

definition compactionConfigForWindow :: "int \<Rightarrow> CompactionConfig" where
  "compactionConfigForWindow contextWindow0 =
     (let contextWindow = (if contextWindow0 \<le> 0 then DefaultContextWindow else contextWindow0)
      in \<lparr>cfg_ContextWindow = contextWindow,
          cfg_SoftThreshold = 60 / 100,
          cfg_HardThreshold = 85 / 100,
          cfg_TokenBudget = min (max 1000 (contextWindow * 9 div 10)) 350000,
          cfg_FreshTailCount = max 20 (contextWindow div 10000),
          cfg_LeafChunkTokens = clamp 500 (contextWindow div 10) 20000,
          cfg_LeafTargetTokens = clamp 200 (contextWindow div 50) 4000,
          cfg_CondenseTargetTokens = clamp 400 (contextWindow div 25) 8000,
          cfg_LeafMinFanout = 4,
          cfg_CondenseMinFanout = clamp 3 (contextWindow div 100000) 6,
          cfg_MaxSummaryDepth = clamp 4 (contextWindow div 50000) 8\<rparr>)"

section \<open>Prompts\<close>

datatype base_prompt = LeafPrompt | LeafAggressivePrompt | CondenseD1Prompt
  | CondenseD1AggressivePrompt | CondenseD2Prompt | CondenseD2AggressivePrompt
  | CondenseD3PlusPrompt | CondenseD3PlusAggressivePrompt

record prompt =
  pr_base :: base_prompt
  pr_previous :: "string option"
  pr_tokens :: int
  pr_chars :: int

definition summarizationPrompt :: "int \<Rightarrow> bool \<Rightarrow> int \<Rightarrow> string \<Rightarrow> prompt" where
  "summarizationPrompt depth aggressive targetTokens prevContext =
     \<lparr>pr_base = (if depth = 0 \<and> \<not> aggressive then LeafPrompt
                 else if depth = 0 \<and> aggressive then LeafAggressivePrompt
                 else if depth = 1 \<and> \<not> aggressive then CondenseD1Prompt
                 else if depth = 1 \<and> aggressive then CondenseD1AggressivePrompt
                 else if depth = 2 \<and> \<not> aggressive then CondenseD2Prompt
                 else if depth = 2 \<and> aggressive then CondenseD2AggressivePrompt
                 else if \<not> aggressive then CondenseD3PlusPrompt
                 else CondenseD3PlusAggressivePrompt),
      pr_previous = (if prevContext \<noteq> [] then Some prevContext else None),
      pr_tokens = targetTokens, pr_chars = targetTokens * charsPerToken\<rparr>"

type_synonym time_format = "string \<Rightarrow> gotime \<Rightarrow> string"

abbreviation NL :: string where "NL \<equiv> [CHR 0x0A]"

definition buildLeafInput :: "time_format \<Rightarrow> Message list \<Rightarrow> string" where
  "buildLeafInput fmt msgs =
     TrimSpace (concat (map (\<lambda>m. ''['' @ fmt ''2006-01-02 15:04:05'' (msg_CreatedAt m) @ ''] '' @
       msg_Role m @ '': '' @ msg_Content m @ NL @ NL) (filter (\<lambda>m. \<not> msg_Meta m) msgs)))"

definition buildCondensationInput :: "time_format \<Rightarrow> Summary list \<Rightarrow> string" where
  "buildCondensationInput fmt sms =
     TrimSpace (concat (map (\<lambda>(i, s).
       ''--- Summary '' @ itoa (int i + 1) @ '' (depth '' @ itoa (sum_Depth s) @ '', '' @
       fmt ''2006-01-02 15:04'' (sum_EarliestAt s) @ '' to '' @
       fmt ''2006-01-02 15:04'' (sum_LatestAt s) @ '') ---'' @ NL @ sum_Content s @ NL @ NL)
       (enumerate 0 sms)))"

section \<open>The compactor\<close>

record pass_env =
  env_summarize :: "prompt \<Rightarrow> string \<Rightarrow> string option"
  env_uuid :: string
  env_now :: gotime

record Compactor =
  cp_sessionID :: string
  cp_config :: CompactionConfig
  cp_fmt :: time_format

datatype compact_error = DBFailure db_error | SummarizationFailed | SlicePanic

definition summarizeWithEscalation ::
  "Compactor \<Rightarrow> pass_env \<Rightarrow> int \<Rightarrow> string \<Rightarrow> string \<Rightarrow> compact_error + string" where
  "summarizeWithEscalation c env depth input prevContext =
     (let targetTokens = (if depth > 0 then cfg_CondenseTargetTokens (cp_config c)
                          else cfg_LeafTargetTokens (cp_config c))
      in case env_summarize env (summarizationPrompt depth False targetTokens prevContext) input of
           None \<Rightarrow> Inl SummarizationFailed
         | Some summary \<Rightarrow>
             if EstimateTokens summary \<le> targetTokens then Inr summary
             else case env_summarize env (summarizationPrompt depth True targetTokens prevContext) input of
               None \<Rightarrow> Inl SummarizationFailed
             | Some summary2 \<Rightarrow>
                 if EstimateTokens summary2 \<le> godiv (targetTokens * 3) 2 then Inr summary2
                 else case truncateAtBullet summary2 targetTokens of
                   None \<Rightarrow> Inl SlicePanic
                 | Some t \<Rightarrow> Inr t)"

text \<open>The text of a UUID has 32 hexadecimal digits between its dashes.\<close>

definition generateSummaryID :: "string \<Rightarrow> string" where
  "generateSummaryID uuid = ''sum_'' @ take 16 (filter (\<lambda>ch. ch \<noteq> CHR ''-'') uuid)"

fun last_summary_before :: "int \<Rightarrow> string option \<Rightarrow> ContextItem list \<Rightarrow> string option" where
  "last_summary_before startOrdinal found [] = None"
| "last_summary_before startOrdinal found (ci # rest) =
     (if ci_Ordinal ci \<ge> startOrdinal then found
      else last_summary_before startOrdinal
             (case ci_Ref ci of ItemSummary n \<Rightarrow> Some n | ItemMessage _ \<Rightarrow> found) rest)"

definition precedingSummaryContent ::
  "Compactor \<Rightarrow> msg_db \<Rightarrow> int \<Rightarrow> ContextItem list \<Rightarrow> string" where
  "precedingSummaryContent c db startOrdinal allItems0 =
     (let allItems = (if allItems0 = [] then GetContextItems db (cp_sessionID c) else allItems0)
      in case last_summary_before startOrdinal None allItems of
           None \<Rightarrow> []
         | Some n \<Rightarrow> (case GetSummary db n of Inl _ \<Rightarrow> [] | Inr sm \<Rightarrow> sum_Content sm))"

text \<open>The three transactions at the end of a pass: create the summary, link its sources, put it in
  the place of the items.\<close>

definition link_sources :: "msg_db \<Rightarrow> string \<Rightarrow> int list + string list \<Rightarrow> db_error + msg_db" where
  "link_sources db n src =
     (case src of Inl msgIDs \<Rightarrow> LinkSummaryMessages db n msgIDs
                | Inr childIDs \<Rightarrow> LinkSummaryParents db n childIDs)"

definition store_summary ::
  "msg_db \<Rightarrow> gotime \<Rightarrow> Summary \<Rightarrow> int list + string list \<Rightarrow> ContextItem list \<Rightarrow> compact_error option \<times> msg_db"
where
  "store_summary db now sm src items =
     (case CreateSummary db now sm of
        Inl e \<Rightarrow> (Some (DBFailure e), db)
      | Inr db1 \<Rightarrow>
          (case link_sources db1 (sum_ID sm) src of
             Inl e \<Rightarrow> (Some (DBFailure e), db1)
           | Inr db2 \<Rightarrow>
               (case ReplaceContextItems db2 (sum_SessionID sm) (ci_Ordinal (hd items))
                       (ci_Ordinal (last items)) (sum_ID sm) of
                  Inl e \<Rightarrow> (Some (DBFailure e), db2)
                | Inr db3 \<Rightarrow> (None, db3))))"

definition leaf_summary :: "Compactor \<Rightarrow> pass_env \<Rightarrow> Message list \<Rightarrow> string \<Rightarrow> Summary" where
  "leaf_summary c env msgs summary =
     \<lparr>sum_ID = generateSummaryID (env_uuid env), sum_SessionID = cp_sessionID c,
      sum_Kind = SummaryKindLeaf, sum_Depth = 0, sum_Content = summary,
      sum_Tokens = EstimateTokens summary,
      sum_EarliestAt = msg_CreatedAt (hd msgs), sum_LatestAt = msg_CreatedAt (last msgs),
      sum_SourceTokens = sum_list (map msg_Tokens msgs), sum_Model = [], sum_CreatedAt = 0\<rparr>"

definition leafPass :: "Compactor \<Rightarrow> pass_env \<Rightarrow> msg_db \<Rightarrow> compact_error option \<times> msg_db" where
  "leafPass c env db =
     (let (items, msgs) = OldestMessageContextItems db (cp_sessionID c)
            (cfg_FreshTailCount (cp_config c)) (cfg_LeafChunkTokens (cp_config c))
      in if int (length msgs) < cfg_LeafMinFanout (cp_config c) then (None, db)
         else if items = [] then (Some SlicePanic, db)
         else
           let prevContext = precedingSummaryContent c db (ci_Ordinal (hd items)) [];
               input = buildLeafInput (cp_fmt c) msgs
           in case summarizeWithEscalation c env 0 input prevContext of
                Inl e \<Rightarrow> (Some e, db)
              | Inr summary \<Rightarrow>
                  store_summary db (env_now env) (leaf_summary c env msgs summary)
                    (Inl (map msg_ID msgs)) items)"

definition condensed_summary ::
  "Compactor \<Rightarrow> pass_env \<Rightarrow> int \<Rightarrow> Summary list \<Rightarrow> string \<Rightarrow> Summary" where
  "condensed_summary c env depth sms summary =
     \<lparr>sum_ID = generateSummaryID (env_uuid env), sum_SessionID = cp_sessionID c,
      sum_Kind = SummaryKindCondensed, sum_Depth = depth + 1, sum_Content = summary,
      sum_Tokens = EstimateTokens summary,
      sum_EarliestAt = sum_EarliestAt (hd sms), sum_LatestAt = sum_LatestAt (last sms),
      sum_SourceTokens = sum_list (map sum_Tokens sms), sum_Model = [], sum_CreatedAt = 0\<rparr>"

definition condenseAtDepth ::
  "Compactor \<Rightarrow> pass_env \<Rightarrow> int \<Rightarrow> ContextItem list \<Rightarrow> msg_db \<Rightarrow> (compact_error + bool) \<times> msg_db" where
  "condenseAtDepth c env depth allContextItems db =
     (case ContiguousSummariesAtDepth db (cp_sessionID c) depth
             (cfg_CondenseMinFanout (cp_config c)) of
        None \<Rightarrow> (Inl SlicePanic, db)
      | Some (items, sms) \<Rightarrow>
          if sms = [] then (Inr False, db)
          else
            let prevContext = precedingSummaryContent c db (ci_Ordinal (hd items)) allContextItems;
                input = buildCondensationInput (cp_fmt c) sms
            in case summarizeWithEscalation c env (depth + 1) input prevContext of
                 Inl e \<Rightarrow> (Inl e, db)
               | Inr summary \<Rightarrow>
                   (case store_summary db (env_now env) (condensed_summary c env depth sms summary)
                           (Inr (map sum_ID sms)) items of
                      (Some e, db') \<Rightarrow> (Inl e, db')
                    | (None, db') \<Rightarrow> (Inr True, db')))"

fun condense_depths ::
  "Compactor \<Rightarrow> pass_env \<Rightarrow> ContextItem list \<Rightarrow> nat \<Rightarrow> int \<Rightarrow> msg_db \<Rightarrow> (compact_error + bool) \<times> msg_db"
where
  "condense_depths c env allItems 0 depth db = (Inr False, db)"
| "condense_depths c env allItems (Suc n) depth db =
     (case condenseAtDepth c env depth allItems db of
        (Inl e, db') \<Rightarrow> (Inl e, db')
      | (Inr True, db') \<Rightarrow> (Inr True, db')
      | (Inr False, db') \<Rightarrow> condense_depths c env allItems n (depth + 1) db')"

definition condensationPass ::
  "Compactor \<Rightarrow> pass_env \<Rightarrow> msg_db \<Rightarrow> (compact_error + bool) \<times> msg_db" where
  "condensationPass c env db =
     (let maxDepth = MaxSummaryDepth db (cp_sessionID c);
          limit = cfg_MaxSummaryDepth (cp_config c);
          maxAllowedDepth = (if limit > 0 \<and> limit - 1 < maxDepth then limit - 1 else maxDepth)
      in if maxDepth < 0 then (Inr False, db)
         else condense_depths c env (GetContextItems db (cp_sessionID c))
                (nat (maxAllowedDepth + 1)) 0 db)"

text \<open>The loop runs at most ten times; iteration \<open>i\<close> uses the environment \<open>envs i\<close>.\<close>

fun sweep_loop ::
  "Compactor \<Rightarrow> (nat \<Rightarrow> pass_env) \<Rightarrow> nat \<Rightarrow> nat \<Rightarrow> msg_db \<Rightarrow> compact_error option \<times> msg_db" where
  "sweep_loop c envs 0 i db = (None, db)"
| "sweep_loop c envs (Suc n) i db =
     (if MessageTokensOutsideTail db (cp_sessionID c) (cfg_FreshTailCount (cp_config c))
           \<ge> cfg_LeafChunkTokens (cp_config c)
      then (case leafPass c (envs i) db of
              (Some e, db') \<Rightarrow> (Some e, db')
            | (None, db') \<Rightarrow> sweep_loop c envs n (Suc i) db')
      else (case condensationPass c (envs i) db of
              (Inl e, db') \<Rightarrow> (Some e, db')
            | (Inr True, db') \<Rightarrow> sweep_loop c envs n (Suc i) db'
            | (Inr False, db') \<Rightarrow> (None, db')))"

definition fullSweep :: "Compactor \<Rightarrow> (nat \<Rightarrow> pass_env) \<Rightarrow> msg_db \<Rightarrow> compact_error option \<times> msg_db" where
  "fullSweep c envs db = sweep_loop c envs 10 0 db"

text \<open>The result is an error or the flag \<open>HardThresholdExceeded\<close>.\<close>

definition CompactIfNeeded ::
  "Compactor \<Rightarrow> (nat \<Rightarrow> pass_env) \<Rightarrow> int \<Rightarrow> msg_db \<Rightarrow> (compact_error + bool) \<times> msg_db" where
  "CompactIfNeeded c envs lastInputTokens db =
     (let contextTokens = (if lastInputTokens = 0 then ContextTokenCount db (cp_sessionID c)
                           else lastInputTokens);
          softLimit = SoftThresholdTokens (cp_config c);
          hardLimit = HardThresholdTokens (cp_config c)
      in if contextTokens < softLimit then (Inr False, db)
         else case fullSweep c envs db of
                (Some e, db') \<Rightarrow> (Inl e, db')
              | (None, db') \<Rightarrow> (Inr (ContextTokenCount db' (cp_sessionID c) \<ge> hardLimit), db'))"

section \<open>Bounds\<close>

lemma EstimateTokens_nonneg: "0 \<le> EstimateTokens s"
  by (auto simp: EstimateTokens_def Let_def pos_imp_zdiv_nonneg_iff)

lemma EstimateTokens_le:
  assumes "int (length s) \<le> n * charsPerToken"
  shows "EstimateTokens s \<le> n"
proof (cases "s = []")
  case True
  with assms show ?thesis by (simp add: EstimateTokens_def)
next
  case False
  then have "0 < int (length s)" by simp
  with assms have "1 \<le> n" by linarith
  moreover have "int (length s) div charsPerToken \<le> n"
    using zdiv_mono1 [OF assms, of charsPerToken] by simp
  ultimately show ?thesis by (simp add: EstimateTokens_def Let_def)
qed

lemma bullet_cut_prefix: "prefix (bullet_cut t) t"
  by (simp add: bullet_cut_def take_is_prefix split: option.split nat.split)

lemma truncateAtBullet_prefix:
  assumes "truncateAtBullet content maxTokens = Some r"
  shows "prefix r content" "int (length r) \<le> maxTokens * charsPerToken"
proof -
  have "prefix r content \<and> int (length r) \<le> maxTokens * charsPerToken"
  proof (cases "int (length content) \<le> maxTokens * charsPerToken")
    case False
    let ?t = "take (nat (maxTokens * charsPerToken)) content"
    from False assms have nn: "0 \<le> maxTokens * charsPerToken"
      and r: "r = TrimRight (bullet_cut ?t) (CHR 0x0A # '' '')"
      by (auto simp: truncateAtBullet_def Let_def split: if_splits)
    have "prefix r ?t"
      unfolding r using TrimRight_prefix bullet_cut_prefix prefix_order.trans by blast
    moreover have "int (length ?t) \<le> maxTokens * charsPerToken" using nn by simp
    ultimately show ?thesis
      using prefix_length_le [of r ?t] take_is_prefix [of "nat (maxTokens * charsPerToken)" content]
        prefix_order.trans [of r ?t content] by linarith
  qed (use assms in \<open>simp add: truncateAtBullet_def\<close>)
  then show "prefix r content" "int (length r) \<le> maxTokens * charsPerToken" by auto
qed

text \<open>
  A summary is never longer than one and a half times its target, whatever the model writes:
  a longer text is asked for again under the aggressive prompt, and what is still too long is cut
  to a prefix of that text within the target.
\<close>

theorem summary_within_budget:
  assumes "summarizeWithEscalation c env depth input prevContext = Inr summary"
  shows "EstimateTokens summary \<le>
    godiv ((if depth > 0 then cfg_CondenseTargetTokens (cp_config c)
            else cfg_LeafTargetTokens (cp_config c)) * 3) 2"
proof -
  define t where "t = (if depth > 0 then cfg_CondenseTargetTokens (cp_config c)
    else cfg_LeafTargetTokens (cp_config c))"
  have cut: "EstimateTokens r \<le> t" if "truncateAtBullet x t = Some r" for x r
    using truncateAtBullet_prefix(2) [OF that] by (rule EstimateTokens_le)
  have "EstimateTokens summary \<le> t \<or> EstimateTokens summary \<le> godiv (t * 3) 2"
    using assms cut
    by (auto simp: summarizeWithEscalation_def Let_def simp flip: t_def split: option.splits if_splits)
  moreover have "t \<le> godiv (t * 3) 2" if "0 \<le> t" using that by simp
  ultimately show ?thesis
    using EstimateTokens_nonneg [of summary] unfolding t_def by linarith
qed

theorem summary_within_budget_witness:
  "EstimateTokens ''- a'' \<le> godiv (1 * 3) 2 \<and>
   summarizeWithEscalation
     \<lparr>cp_sessionID = ''s'', cp_config = (compactionConfigForWindow 1)\<lparr>cfg_LeafTargetTokens := 1\<rparr>,
      cp_fmt = (\<lambda>_ _. [])\<rparr>
     \<lparr>env_summarize = (\<lambda>p _. Some ''- a b c d e f''), env_uuid = [], env_now = 0\<rparr>
     0 ''hello'' [] = Inr ''- a''"
proof -
  have e: "summarizeWithEscalation
     \<lparr>cp_sessionID = ''s'', cp_config = (compactionConfigForWindow 1)\<lparr>cfg_LeafTargetTokens := 1\<rparr>,
      cp_fmt = (\<lambda>_ _. [])\<rparr>
     \<lparr>env_summarize = (\<lambda>p _. Some ''- a b c d e f''), env_uuid = [], env_now = 0\<rparr>
     0 ''hello'' [] = Inr ''- a''"
    by code_simp
  from summary_within_budget [OF e] e show ?thesis by simp
qed

lemma clamp_scaled:
  "5 * p \<le> r \<Longrightarrow> clamp 200 p 4000 < clamp 500 r 20000"
  "2 * p \<le> r \<Longrightarrow> clamp 200 p 4000 < clamp 400 r 8000"
  by (simp_all add: clamp_def)

lemma clamp_bounds: "lo \<le> hi \<Longrightarrow> lo \<le> clamp lo x hi" "lo \<le> hi \<Longrightarrow> clamp lo x hi \<le> hi"
  by (simp_all add: clamp_def)

text \<open>
  The limits derived from a context window fit together for every window: the soft threshold
  lies between zero and the hard threshold, the hard threshold is at most the assembly budget,
  summaries are smaller than the chunks they replace, and tail, fan-in and depth stay in their
  stated ranges.
\<close>

theorem compactionConfig_consistent:
  fixes w :: int
  defines "c \<equiv> compactionConfigForWindow w"
  shows "0 \<le> SoftThresholdTokens c \<and> SoftThresholdTokens c \<le> HardThresholdTokens c \<and>
    HardThresholdTokens c \<le> cfg_TokenBudget c \<and> cfg_TokenBudget c \<le> 350000 \<and>
    SoftThresholdTokens c \<le> 200000 \<and> HardThresholdTokens c \<le> 300000 \<and>
    200 \<le> cfg_LeafTargetTokens c \<and> cfg_LeafTargetTokens c < cfg_LeafChunkTokens c \<and>
    cfg_LeafTargetTokens c < cfg_CondenseTargetTokens c \<and> 20 \<le> cfg_FreshTailCount c \<and>
    3 \<le> cfg_CondenseMinFanout c \<and> cfg_CondenseMinFanout c \<le> 6 \<and>
    4 \<le> cfg_MaxSummaryDepth c \<and> cfg_MaxSummaryDepth c \<le> 8"
proof -
  define v where "v = (if w \<le> 0 then DefaultContextWindow else w)"
  have v: "0 < v" by (simp add: v_def)
  have fl: "\<lfloor>rat_of_int v * (60 / 100)\<rfloor> = v * 3 div 5" "\<lfloor>rat_of_int v * (85 / 100)\<rfloor> = v * 17 div 20"
  proof -
    have "rat_of_int v * (60 / 100) = rat_of_int (v * 3) / rat_of_int 5"
      "rat_of_int v * (85 / 100) = rat_of_int (v * 17) / rat_of_int 20" by simp_all
    then show "\<lfloor>rat_of_int v * (60 / 100)\<rfloor> = v * 3 div 5" "\<lfloor>rat_of_int v * (85 / 100)\<rfloor> = v * 17 div 20"
      by (simp_all only: floor_divide_of_int_eq)
  qed
  have soft: "SoftThresholdTokens c = min (v * 3 div 5) 200000"
    and hard: "HardThresholdTokens c = min (v * 17 div 20) 300000"
    unfolding SoftThresholdTokens_def HardThresholdTokens_def c_def compactionConfigForWindow_def Let_def
    using fl by (simp_all flip: v_def)
  have q: "k * (x div k) \<le> x" "x < k * (x div k) + k" if "0 < k" for x k :: int
    using that mult_div_mod_eq [of k x] pos_mod_bound [of k x] pos_mod_sign [of k x] by linarith+
  have ord: "0 \<le> v * 3 div 5" "v * 3 div 5 \<le> v * 17 div 20" "v * 17 div 20 \<le> v * 9 div 10"
    using v q [of 5 "v * 3"] q [of 20 "v * 17"] q [of 10 "v * 9"] by linarith+
  have scale: "0 \<le> v div 50" "5 * (v div 50) \<le> v div 10" "2 * (v div 50) \<le> v div 25"
    using v q [of 50 v] q [of 10 v] q [of 25 v] by linarith+
  have th: "min (v * 3 div 5) 200000 \<le> min (v * 17 div 20) 300000"
    "min (v * 17 div 20) 300000 \<le> min (max 1000 (v * 9 div 10)) 350000"
    "0 \<le> min (v * 3 div 5) 200000"
    using ord by (simp_all add: min_le_iff_disj le_max_iff_disj)
  have fields: "cfg_TokenBudget c = min (max 1000 (v * 9 div 10)) 350000"
    "cfg_FreshTailCount c = max 20 (v div 10000)"
    "cfg_LeafChunkTokens c = clamp 500 (v div 10) 20000" "cfg_LeafTargetTokens c = clamp 200 (v div 50) 4000"
    "cfg_CondenseTargetTokens c = clamp 400 (v div 25) 8000"
    "cfg_CondenseMinFanout c = clamp 3 (v div 100000) 6" "cfg_MaxSummaryDepth c = clamp 4 (v div 50000) 8"
    by (simp_all add: c_def compactionConfigForWindow_def Let_def v_def)
  show ?thesis
    unfolding soft hard fields
    by (intro conjI th clamp_scaled(1) [OF scale(2)] clamp_scaled(2) [OF scale(3)]
        clamp_bounds min.cobounded2 max.cobounded1) simp_all
qed

end
