(* ===== verification/Context_Selection.thy ===== *)
theory Context_Selection
  imports Context_View
begin

text \<open>
  What the two selection queries of the store return: the oldest messages outside the fresh tail
  are a run of the context that directly follows the summaries, and the summaries chosen for
  condensation are a longest run of adjacent summaries of one depth.
\<close>

section \<open>The oldest messages outside the tail\<close>

definition tail_count :: "msg_db \<Rightarrow> string \<Rightarrow> int \<Rightarrow> nat" where
  "tail_count db sid tailSize =
     (if tailSize < 0 then length (GetContextItems db sid)
      else min (nat tailSize) (length (GetContextItems db sid)))"

definition context_front :: "msg_db \<Rightarrow> string \<Rightarrow> int \<Rightarrow> ContextItem list" where
  "context_front db sid tailSize =
     take (length (GetContextItems db sid) - tail_count db sid tailSize) (GetContextItems db sid)"

definition context_tail :: "msg_db \<Rightarrow> string \<Rightarrow> int \<Rightarrow> ContextItem list" where
  "context_tail db sid tailSize =
     drop (length (GetContextItems db sid) - tail_count db sid tailSize) (GetContextItems db sid)"

lemma front_tail: "GetContextItems db sid = context_front db sid t @ context_tail db sid t"
  by (simp add: context_front_def context_tail_def)

lemma length_context_tail: "length (context_tail db sid t) = tail_count db sid t"
  by (simp add: context_tail_def tail_count_def)

lemma set_tail_ordinals: "set (tail_ordinals db sid t) = ci_Ordinal ` set (context_tail db sid t)"
proof -
  let ?L = "map ci_Ordinal (GetContextItems db sid)"
  have "take n (rev ?L) = rev (drop (length ?L - min n (length ?L)) ?L)" for n
    by (cases "n \<le> length ?L") (simp_all add: take_rev)
  then have "tail_ordinals db sid t = rev (map ci_Ordinal (context_tail db sid t))"
    by (simp add: tail_ordinals_def context_tail_def tail_count_def Let_def drop_map)
  then show ?thesis by simp
qed

lemma outside_tail_eq_front:
  assumes "tables_ok db"
  shows "filter (\<lambda>ci. ci_Ordinal ci \<notin> set (tail_ordinals db sid t)) (GetContextItems db sid) =
    context_front db sid t"
proof -
  let ?F = "context_front db sid t" and ?T = "context_tail db sid t"
  have "sorted_wrt (\<lambda>a b. ci_Ordinal a < ci_Ordinal b) (?F @ ?T)"
    using ordinals_sorted [OF assms, of sid] unfolding sorted_wrt_map front_tail [of db sid t] .
  then have "\<forall>a \<in> set ?F. \<forall>b \<in> set ?T. ci_Ordinal a < ci_Ordinal b"
    by (simp add: sorted_wrt_append)
  then have "filter (\<lambda>ci. ci_Ordinal ci \<notin> ci_Ordinal ` set ?T) (?F @ ?T) = ?F"
    by (simp add: filter_empty_conv) (rule filter_True, fastforce)
  then show ?thesis unfolding set_tail_ordinals front_tail [of db sid t] .
qed

lemma item_message_exists:
  assumes "session_ok db sid" "ci \<in> set (session_items db sid)" "ci_Ref ci = ItemMessage mid"
  shows "\<exists>m. item_message db ci = Some m \<and> msg_ID m = mid"
proof -
  from assms(2,3) have "mid \<in> set (context_expand db sid)"
    by (auto simp: context_expand_def item_expand_def intro!: bexI [of _ ci])
  then have "\<exists>m \<in> set (db_messages db). msg_ID m = mid"
    using assms(1) by (auto simp: session_ok_def history_def session_messages_def)
  then obtain m where "find (\<lambda>m. msg_ID m = mid) (db_messages db) = Some m"
    by (cases "find (\<lambda>m. msg_ID m = mid) (db_messages db)") (auto simp: find_None_iff)
  with assms(3) show ?thesis by (auto simp: item_message_def find_Some_iff)
qed

lemma take_tokens_take:
  "take_tokens maxTokens tokenSum xs = take (length (take_tokens maxTokens tokenSum xs)) xs"
  by (induction maxTokens tokenSum xs rule: take_tokens.induct) auto

lemma map_filter_append: "List.map_filter f (xs @ ys) = List.map_filter f xs @ List.map_filter f ys"
  by (simp add: List.map_filter_def)

lemma map_filter_all:
  "(\<And>x. x \<in> set xs \<Longrightarrow> f x = Some (g x)) \<Longrightarrow> List.map_filter f xs = map g xs"
  by (induction xs) (simp_all add: List.map_filter_def)

lemma after_first_message:
  assumes "sorted_wrt (\<lambda>a b. P b \<longrightarrow> P a) xs" "xs \<noteq> [] \<Longrightarrow> \<not> P (hd xs)"
  shows "\<forall>x \<in> set xs. \<not> P x"
  using assms by (cases xs) auto

lemma oldest_run:
  assumes "store_ok db" "OldestMessageContextItems db sid t maxTokens = (items, msgs)"
  obtains xs rest where "context_front db sid t = xs @ items @ rest" "\<forall>x \<in> set xs. is_summary_item x"
    "map ci_Ref items = map ItemMessage (map msg_ID msgs)" "map (item_message db) items = map Some msgs"
proof -
  let ?F = "context_front db sid t"
  let ?f = "\<lambda>ci. map_option (Pair ci) (item_message db ci)"
  let ?S = "takeWhile is_summary_item ?F" and ?M = "dropWhile is_summary_item ?F"
  have ok: "tables_ok db" "session_ok db sid" using assms(1) by (auto simp: store_ok_def)
  have "sorted_wrt (\<lambda>a b. is_summary_item b \<longrightarrow> is_summary_item a) (?F @ context_tail db sid t)"
    using ok(2) unfolding session_ok_def front_tail [of db sid t] by blast
  then have "sorted_wrt (\<lambda>a b. is_summary_item b \<longrightarrow> is_summary_item a) (?S @ ?M)"
    by (simp add: sorted_wrt_append)
  then have "sorted_wrt (\<lambda>a b. is_summary_item b \<longrightarrow> is_summary_item a) ?M"
    by (simp add: sorted_wrt_append)
  moreover have "?M \<noteq> [] \<Longrightarrow> \<not> is_summary_item (hd ?M)" by (rule hd_dropWhile)
  ultimately have M: "\<forall>ci \<in> set ?M. \<not> is_summary_item ci" by (rule after_first_message)
  have found: "\<exists>m. item_message db ci = Some m \<and> ci_Ref ci = ItemMessage (msg_ID m)" if "ci \<in> set ?M" for ci
  proof -
    have "ci \<in> set (session_items db sid)"
      using that set_dropWhileD [OF that] set_GetContextItems [of db sid] front_tail [of db sid t]
      by (metis Un_iff set_append)
    moreover have "\<not> is_summary_item ci" using M that by blast
    then obtain mid where "ci_Ref ci = ItemMessage mid"
      by (cases "ci_Ref ci") (simp_all add: is_summary_item_def)
    ultimately show ?thesis using item_message_exists [OF ok(2)] by fastforce
  qed
  have "List.map_filter ?f ?S = []"
    by (auto simp: List.map_filter_def filter_empty_conv item_message_def is_summary_item_def
        dest!: set_takeWhileD split: item_ref.splits)
  moreover have "List.map_filter ?f ?M = map (\<lambda>ci. (ci, the (item_message db ci))) ?M"
    by (rule map_filter_all) (auto dest!: found)
  ultimately have "List.map_filter ?f (?S @ ?M) = map (\<lambda>ci. (ci, the (item_message db ci))) ?M"
    unfolding map_filter_append by simp
  then have pairs: "messages_outside_tail db sid t = map (\<lambda>ci. (ci, the (item_message db ci))) ?M"
    unfolding messages_outside_tail_def outside_tail_eq_front [OF ok(1)] takeWhile_dropWhile_id .
  let ?P = "take_tokens maxTokens 0 (map (\<lambda>ci. (ci, the (item_message db ci))) ?M)"
  define q where "q = length ?P"
  have "?P = take q (map (\<lambda>ci. (ci, the (item_message db ci))) ?M)"
    unfolding q_def by (rule take_tokens_take)
  then have "take_tokens maxTokens 0 (messages_outside_tail db sid t) =
      map (\<lambda>ci. (ci, the (item_message db ci))) (take q ?M)"
    unfolding pairs by (simp add: take_map)
  then have q: "items = take q ?M" "msgs = map (\<lambda>ci. the (item_message db ci)) (take q ?M)"
    using assms(2) by (auto simp: OldestMessageContextItems_def Let_def comp_def)
  show thesis
  proof (rule that [of ?S "drop q ?M"])
    show "?F = ?S @ items @ drop q ?M" by (simp add: q)
    show "\<forall>x \<in> set ?S. is_summary_item x" by (auto dest: set_takeWhileD)
    show "map ci_Ref items = map ItemMessage (map msg_ID msgs)"
      using found by (force simp: q dest: in_set_takeD)
    show "map (item_message db) items = map Some msgs"
      using found by (force simp: q dest: in_set_takeD)
  qed
qed

section \<open>Longest runs\<close>

text \<open>\<open>len\<close> candidates from index \<open>a\<close> on have consecutive positions.\<close>

definition is_run :: "candidate list \<Rightarrow> nat \<Rightarrow> nat \<Rightarrow> bool" where
  "is_run cs a len \<longleftrightarrow> 1 \<le> len \<and> a + len \<le> length cs \<and>
     (\<forall>k < len. cand_pos (cs ! (a + k)) = cand_pos (cs ! a) + k)"

lemma is_run_extend:
  assumes "is_run cs a len" "a + len < length cs"
    and "cand_pos (cs ! (a + len)) = cand_pos (cs ! (a + len - 1)) + 1"
  shows "is_run cs a (len + 1)"
proof -
  obtain l where l: "len = Suc l" using assms(1) by (cases len) (auto simp: is_run_def)
  then have "cand_pos (cs ! (a + l)) = cand_pos (cs ! a) + l"
    using assms(1) by (simp add: is_run_def)
  with assms l show ?thesis by (auto simp: is_run_def less_Suc_eq)
qed

lemma is_run_shorten:
  assumes "is_run cs a (Suc len)" "1 \<le> len"
  shows "is_run cs a len" "cand_pos (cs ! (a + len)) = cand_pos (cs ! (a + len - 1)) + 1"
proof -
  show "is_run cs a len" using assms by (auto simp: is_run_def)
  obtain l where l: "len = Suc l" using assms(2) by (cases len) auto
  have "cand_pos (cs ! (a + Suc l)) = cand_pos (cs ! a) + Suc l"
    "cand_pos (cs ! (a + l)) = cand_pos (cs ! a) + l"
    using assms(1) unfolding is_run_def l by (blast intro: lessI less_SucI)+
  with l show "cand_pos (cs ! (a + len)) = cand_pos (cs ! (a + len - 1)) + 1" by simp
qed

text \<open>The loop invariant: the current run is the longest that ends before \<open>i\<close> at \<open>i\<close>, the
  best run is the longest so far.\<close>

definition run_inv :: "candidate list \<Rightarrow> nat \<Rightarrow> nat \<Rightarrow> nat \<Rightarrow> nat \<Rightarrow> nat \<Rightarrow> bool" where
  "run_inv cs i curStart curLen bestStart bestLen \<longleftrightarrow>
     is_run cs curStart curLen \<and> curStart + curLen = i \<and>
     (\<forall>a len. is_run cs a len \<longrightarrow> a + len = i \<longrightarrow> len \<le> curLen) \<and>
     is_run cs bestStart bestLen \<and>
     (\<forall>a len. is_run cs a len \<longrightarrow> a + len \<le> i \<longrightarrow> len \<le> bestLen)"

lemma run_inv_step:
  assumes inv: "run_inv cs i curStart curLen bestStart bestLen" and i: "i < length cs" "1 \<le> i"
    and cur: "curStart' = (if cand_pos (cs ! i) = cand_pos (cs ! (i - 1)) + 1 then curStart else i)"
      "curLen' = (if cand_pos (cs ! i) = cand_pos (cs ! (i - 1)) + 1 then curLen + 1 else 1)"
  shows "run_inv cs (i + 1) curStart' curLen'
    (if curLen' > bestLen then curStart' else bestStart) (if curLen' > bestLen then curLen' else bestLen)"
proof -
  have run: "is_run cs curStart' curLen'" "curStart' + curLen' = i + 1"
    using inv i is_run_extend [of cs curStart curLen] unfolding cur run_inv_def
    by (auto simp: is_run_def)
  have longest: "len \<le> curLen'" if "is_run cs a len" "a + len = i + 1" for a len
  proof (cases "len = 1")
    case True
    then show ?thesis by (simp add: cur)
  next
    case False
    with that(1) obtain l where l: "len = Suc l" "1 \<le> l" by (cases len) (auto simp: is_run_def)
    with is_run_shorten [of cs a l] that have "is_run cs a l" "a + l = i"
      "cand_pos (cs ! i) = cand_pos (cs ! (i - 1)) + 1" by auto
    with inv l show ?thesis by (auto simp: cur run_inv_def)
  qed
  have "len \<le> (if curLen' > bestLen then curLen' else bestLen)" if "is_run cs a len" "a + len \<le> i + 1" for a len
  proof (cases "a + len = i + 1")
    case True
    with longest [OF that(1)] show ?thesis by auto
  next
    case False
    then have "a + len \<le> i" using that(2) by simp
    with inv that(1) have "len \<le> bestLen" by (auto simp: run_inv_def)
    then show ?thesis by auto
  qed
  with run longest inv show ?thesis by (auto simp: run_inv_def)
qed

lemma longest_run_inv:
  assumes "run_inv cs i curStart curLen bestStart bestLen" "i + n = length cs" "1 \<le> i"
  shows "\<exists>curStart' curLen'. case longest_run cs n i curStart curLen bestStart bestLen of
           (bs, bl) \<Rightarrow> run_inv cs (length cs) curStart' curLen' bs bl"
  using assms
proof (induction n arbitrary: i curStart curLen bestStart bestLen)
  case (Suc n)
  from run_inv_step [OF Suc.prems(1) _ Suc.prems(3) refl refl] Suc.prems(2)
  show ?case by (simp only: longest_run.simps Let_def) (rule Suc.IH, simp_all)
qed auto

lemma longest_run_correct:
  assumes "cs \<noteq> []" "longest_run cs (length cs - 1) 1 0 1 0 1 = (bs, bl)"
  shows "is_run cs bs bl" "is_run cs a len \<Longrightarrow> len \<le> bl"
proof -
  have "run_inv cs 1 0 1 0 1"
    using assms(1) by (cases cs) (auto simp: run_inv_def is_run_def)
  then obtain x y where "run_inv cs (length cs) x y bs bl"
    using longest_run_inv [of cs 1 0 1 0 1 "length cs - 1"] assms by (cases cs) auto
  then show "is_run cs bs bl" "is_run cs a len \<Longrightarrow> len \<le> bl"
    by (auto simp: run_inv_def is_run_def)
qed

section \<open>The summaries chosen for condensation\<close>

definition at_depth :: "msg_db \<Rightarrow> int \<Rightarrow> ContextItem \<Rightarrow> bool" where
  "at_depth db depth ci \<longleftrightarrow> (\<exists>sm. item_summary db ci = Some sm \<and> sum_Depth sm = depth)"

definition candidates_from :: "msg_db \<Rightarrow> int \<Rightarrow> nat \<Rightarrow> ContextItem list \<Rightarrow> candidate list" where
  "candidates_from db depth k items =
     List.map_filter (\<lambda>(idx, ci).
       case item_summary db ci of None \<Rightarrow> None
       | Some sm \<Rightarrow> if sum_Depth sm \<noteq> depth then None
                    else Some \<lparr>cand_pos = idx, cand_ci = ci, cand_sum = sm\<rparr>)
     (enumerate k items)"

lemma candidates_from_append:
  "candidates_from db depth k (xs @ ys) =
     candidates_from db depth k xs @ candidates_from db depth (k + length xs) ys"
  by (simp add: candidates_from_def enumerate_append_eq map_filter_append)

lemma candidates_from_mem:
  assumes "c \<in> set (candidates_from db depth k items)"
  shows "k \<le> cand_pos c" "cand_pos c < k + length items" "items ! (cand_pos c - k) = cand_ci c"
    "item_summary db (cand_ci c) = Some (cand_sum c)" "sum_Depth (cand_sum c) = depth"
proof -
  from assms obtain idx ci where "(idx, ci) \<in> set (enumerate k items)"
    "cand_pos c = idx" "cand_ci c = ci"
    "item_summary db ci = Some (cand_sum c)" "sum_Depth (cand_sum c) = depth"
    by (auto simp: candidates_from_def List.map_filter_def split: option.splits if_splits)
  then show "k \<le> cand_pos c" "cand_pos c < k + length items" "items ! (cand_pos c - k) = cand_ci c"
    "item_summary db (cand_ci c) = Some (cand_sum c)" "sum_Depth (cand_sum c) = depth"
    by (auto simp: in_set_enumerate_eq)
qed

lemma candidates_from_all:
  assumes "\<forall>ci \<in> set items. at_depth db depth ci"
  shows "map cand_pos (candidates_from db depth k items) = [k..<k + length items]"
  using assms
proof (induction items arbitrary: k)
  case (Cons ci items)
  then obtain sm where "item_summary db ci = Some sm" "sum_Depth sm = depth"
    by (auto simp: at_depth_def)
  with Cons.IH [of "Suc k"] Cons.prems show ?case
    by (simp add: candidates_from_def List.map_filter_def upt_conv_Cons del: upt_Suc)
qed (simp add: candidates_from_def List.map_filter_def)

lemma item_summary_ref:
  "item_summary db ci = Some sm \<Longrightarrow> ci_Ref ci = ItemSummary (sum_ID sm) \<and>
     summary_lookup db (sum_ID sm) = Some sm"
  by (auto simp: item_summary_def summary_lookup_def find_Some_iff split: item_ref.splits)

lemma contiguous_Some:
  assumes "ContiguousSummariesAtDepth db sid depth minCount = Some (items, sms)" "items \<noteq> []"
  obtains bs bl where "is_run (candidates_from db depth 0 (GetContextItems db sid)) bs bl"
    "\<And>a len. is_run (candidates_from db depth 0 (GetContextItems db sid)) a len \<Longrightarrow> len \<le> bl"
    "items = map cand_ci (take bl (drop bs (candidates_from db depth 0 (GetContextItems db sid))))"
    "sms = map cand_sum (take bl (drop bs (candidates_from db depth 0 (GetContextItems db sid))))"
    "minCount \<le> int bl"
proof -
  let ?cs = "candidates_from db depth 0 (GetContextItems db sid)"
  obtain bs bl where b: "longest_run ?cs (length ?cs - 1) 1 0 1 0 1 = (bs, bl)" by fastforce
  have dc: "depth_candidates db depth (GetContextItems db sid) = ?cs"
    by (simp add: depth_candidates_def candidates_from_def)
  have r: "items = map cand_ci (take bl (drop bs ?cs))" "sms = map cand_sum (take bl (drop bs ?cs))"
    "minCount \<le> int bl" "?cs \<noteq> []"
    using assms b by (auto simp: ContiguousSummariesAtDepth_def Let_def dc split: if_splits)
  with longest_run_correct [OF r(4) b] show thesis by (intro that [of bs bl]) auto
qed

lemma run_items:
  assumes "is_run (candidates_from db depth 0 items) a len"
  defines "cs \<equiv> candidates_from db depth 0 items"
  shows "map cand_ci (take len (drop a cs)) = take len (drop (cand_pos (cs ! a)) items)"
    "cand_pos (cs ! a) + len \<le> length items"
proof -
  have run: "1 \<le> len" "a + len \<le> length cs" "\<And>k. k < len \<Longrightarrow> cand_pos (cs ! (a + k)) = cand_pos (cs ! a) + k"
    using assms(1) by (auto simp: is_run_def cs_def)
  have item: "items ! (cand_pos (cs ! a) + k) = cand_ci (cs ! (a + k))"
    "cand_pos (cs ! a) + k < length items" if "k < len" for k
    using candidates_from_mem [of "cs ! (a + k)" db depth 0 items] run that by (auto simp: cs_def)
  from item(2) [of "len - 1"] run(1) show le: "cand_pos (cs ! a) + len \<le> length items" by simp
  show "map cand_ci (take len (drop a cs)) = take len (drop (cand_pos (cs ! a)) items)"
  proof (rule nth_equalityI)
    fix i assume "i < length (map cand_ci (take len (drop a cs)))"
    then have "i < len" by simp
    with run(2) le item(1) show "map cand_ci (take len (drop a cs)) ! i =
        take len (drop (cand_pos (cs ! a)) items) ! i" by simp
  qed (use run(2) le in simp)
qed

lemma contiguous_run:
  assumes "ContiguousSummariesAtDepth db sid depth minCount = Some (items, sms)" "items \<noteq> []"
  obtains xs ys where "GetContextItems db sid = xs @ items @ ys"
    "map ci_Ref items = map ItemSummary (map sum_ID sms)"
    "\<forall>sm \<in> set sms. summary_lookup db (sum_ID sm) = Some sm \<and> sum_Depth sm = depth"
    "minCount \<le> int (length items)"
    "\<And>xs' zs ys'. GetContextItems db sid = xs' @ zs @ ys' \<Longrightarrow>
       \<forall>ci \<in> set zs. at_depth db depth ci \<Longrightarrow> length zs \<le> length items"
proof -
  let ?L = "GetContextItems db sid"
  let ?cs = "candidates_from db depth 0 ?L"
  from contiguous_Some [OF assms] obtain bs bl where
    run: "is_run ?cs bs bl" and max: "\<And>a len. is_run ?cs a len \<Longrightarrow> len \<le> bl"
    and items: "items = map cand_ci (take bl (drop bs ?cs))"
    and sms: "sms = map cand_sum (take bl (drop bs ?cs))" and mc: "minCount \<le> int bl"
    by blast
  let ?p = "cand_pos (?cs ! bs)"
  have eq: "items = take bl (drop ?p ?L)" and le: "?p + bl \<le> length ?L"
    using run_items [OF run] items by auto
  have mem: "c \<in> set ?cs" if "c \<in> set (take bl (drop bs ?cs))" for c
    using that by (meson in_set_takeD in_set_dropD)
  show thesis
  proof (rule that [of "take ?p ?L" "drop (?p + bl) ?L"])
    show "?L = take ?p ?L @ items @ drop (?p + bl) ?L"
      by (metis eq append_take_drop_id drop_drop add.commute)
    show "map ci_Ref items = map ItemSummary (map sum_ID sms)"
      using mem candidates_from_mem(4) item_summary_ref unfolding items sms by fastforce
    show "\<forall>sm \<in> set sms. summary_lookup db (sum_ID sm) = Some sm \<and> sum_Depth sm = depth"
      using mem candidates_from_mem(4,5) item_summary_ref unfolding sms by fastforce
    show "minCount \<le> int (length items)" using mc eq le by simp
    fix xs' zs ys' assume L: "?L = xs' @ zs @ ys'" and z: "\<forall>ci \<in> set zs. at_depth db depth ci"
    show "length zs \<le> length items"
    proof (cases zs)
      case (Cons z zr)
      let ?a = "candidates_from db depth 0 xs'" and ?b = "candidates_from db depth (length xs') zs"
      have b: "map cand_pos ?b = [length xs'..<length xs' + length zs]" by (rule candidates_from_all [OF z])
      then have len: "length ?b = length zs" by (metis length_map length_upt add_diff_cancel_left')
      have pos: "cand_pos (?b ! k) = length xs' + k" if "k < length zs" for k
        using arg_cong [OF b, of "\<lambda>l. l ! k"] that len by simp
      have "is_run ?cs (length ?a) (length zs)"
        unfolding L candidates_from_append is_run_def
        using len pos Cons by (auto simp: nth_append)
      with max have "length zs \<le> bl" by blast
      with eq le show ?thesis by simp
    qed simp
  qed
qed

end
