(* ===== verification/Compaction_Lossless.thy ===== *)
theory Compaction_Lossless
  imports Compaction Context_Selection
begin

text \<open>
  Compaction loses nothing.  The transactions of compaction passes of several sessions and of
  appended messages interleave freely; only the passes of one session exclude each other (the
  mutex \<open>compactMu\<close> of the loop).  The step relation below has one step per transaction.
  Its invariant says that at every moment the context of every session stands for the whole
  history of the session.  The passes of \<^term>\<open>Compaction.leafPass\<close> and
  \<^term>\<open>Compaction.condenseAtDepth\<close> are sequences of these steps.
\<close>

section \<open>Compaction as a state machine\<close>

record job =
  job_items :: "ContextItem list"
  job_summary :: Summary
  job_src :: "int list + string list"

datatype phase = Idle | Planned job | Created job | Linked job

type_synonym machine = "msg_db \<times> (string \<Rightarrow> phase)"

inductive compact_step :: "machine \<Rightarrow> machine \<Rightarrow> bool" where
  append: "AppendMessage db now s role content raw tokens meta = Inr (i, db')
    \<Longrightarrow> compact_step (db, ph) (db', ph)"
| plan_leaf: "ph s = Idle \<Longrightarrow> OldestMessageContextItems db s tailSize maxTokens = (items, msgs) \<Longrightarrow>
    items \<noteq> [] \<Longrightarrow> sum_SessionID sm = s \<Longrightarrow> sum_Depth sm = 0
    \<Longrightarrow> compact_step (db, ph)
          (db, ph(s := Planned \<lparr>job_items = items, job_summary = sm, job_src = Inl (map msg_ID msgs)\<rparr>))"
| plan_condense: "ph s = Idle \<Longrightarrow>
    ContiguousSummariesAtDepth db s depth minCount = Some (items, sms) \<Longrightarrow>
    items \<noteq> [] \<Longrightarrow> 0 \<le> depth \<Longrightarrow> sum_SessionID sm = s \<Longrightarrow> sum_Depth sm = depth + 1
    \<Longrightarrow> compact_step (db, ph)
          (db, ph(s := Planned \<lparr>job_items = items, job_summary = sm, job_src = Inr (map sum_ID sms)\<rparr>))"
| create: "ph s = Planned j \<Longrightarrow> CreateSummary db now (job_summary j) = Inr db'
    \<Longrightarrow> compact_step (db, ph) (db', ph(s := Created j))"
| link: "ph s = Created j \<Longrightarrow> link_sources db (sum_ID (job_summary j)) (job_src j) = Inr db'
    \<Longrightarrow> compact_step (db, ph) (db', ph(s := Linked j))"
| replace: "ph s = Linked j \<Longrightarrow>
    ReplaceContextItems db s (ci_Ordinal (hd (job_items j))) (ci_Ordinal (last (job_items j)))
      (sum_ID (job_summary j)) = Inr db'
    \<Longrightarrow> compact_step (db, ph) (db', ph(s := Idle))"
| abort: "compact_step (db, ph) (db, ph(s := Idle))"

section \<open>Its invariant\<close>

definition job_ok :: "msg_db \<Rightarrow> string \<Rightarrow> job \<Rightarrow> bool" where
  "job_ok db s j \<longleftrightarrow>
     sum_SessionID (job_summary j) = s \<and> job_items j \<noteq> [] \<and>
     (\<exists>xs ys. GetContextItems db s = xs @ job_items j @ ys \<and> (\<forall>x \<in> set xs. is_summary_item x)) \<and>
     (case job_src j of
        Inl mids \<Rightarrow> sum_Depth (job_summary j) = 0 \<and> map ci_Ref (job_items j) = map ItemMessage mids
      | Inr cids \<Rightarrow> sum_Depth (job_summary j) > 0 \<and>
          map ci_Ref (job_items j) = map ItemSummary cids \<and>
          (\<forall>c \<in> set cids. \<exists>sm. summary_lookup db c = Some sm \<and>
             sum_Depth sm = sum_Depth (job_summary j) - 1))"

definition inserted :: "msg_db \<Rightarrow> string \<Rightarrow> job \<Rightarrow> bool" where
  "inserted db s j \<longleftrightarrow>
     (\<exists>sm. summary_lookup db (sum_ID (job_summary j)) = Some sm \<and> sum_SessionID sm = s \<and>
        sum_Depth sm = sum_Depth (job_summary j)) \<and>
     not_in_context db (sum_ID (job_summary j))"

definition job_expand :: "msg_db \<Rightarrow> job \<Rightarrow> int list" where
  "job_expand db j = concat (map (item_expand db) (job_items j))"

fun phase_ok :: "msg_db \<Rightarrow> string \<Rightarrow> phase \<Rightarrow> bool" where
  "phase_ok db s Idle = True"
| "phase_ok db s (Planned j) = job_ok db s j"
| "phase_ok db s (Created j) = (job_ok db s j \<and> inserted db s j \<and> unlinked db (sum_ID (job_summary j)))"
| "phase_ok db s (Linked j) = (job_ok db s j \<and> inserted db s j \<and> no_parent db (sum_ID (job_summary j)) \<and>
     sum_expand db (nat (sum_Depth (job_summary j))) (sum_ID (job_summary j)) =
       job_expand db j)"

definition machine_ok :: "machine \<Rightarrow> bool" where
  "machine_ok st \<longleftrightarrow> store_ok (fst st) \<and> (\<forall>s. phase_ok (fst st) s (snd st s))"

section \<open>Frame lemmas\<close>

lemma item_expand_frame:
  assumes "\<And>n. refers_to ci n \<Longrightarrow> summary_lookup db' n = summary_lookup db n"
    and "\<And>n d. refers_to ci n \<Longrightarrow> sum_expand db' d n = sum_expand db d n"
  shows "item_expand db' ci = item_expand db ci"
  using assms
  by (cases "ci_Ref ci") (simp_all add: item_expand_def refers_to_def split: option.split)

lemma session_ok_frame:
  assumes "session_ok db s" "GetContextItems db' s = GetContextItems db s" "history db' s = history db s"
    and "\<And>ci. ci \<in> set (session_items db s) \<Longrightarrow> item_expand db' ci = item_expand db ci"
    and "\<And>n. summary_lookup db n \<noteq> None \<Longrightarrow> summary_lookup db' n \<noteq> None"
  shows "session_ok db' s"
proof -
  have "set (session_items db' s) = set (session_items db s)"
    using arg_cong [OF assms(2), of set] by simp
  moreover have eq: "map (item_expand db') (GetContextItems db s) = map (item_expand db) (GetContextItems db s)"
    using assms(4) by simp
  ultimately show ?thesis
    using assms(1,5) by (simp add: session_ok_def context_expand_def assms(2,3) eq)
qed

lemma job_ok_frame:
  assumes "job_ok db s j" "GetContextItems db' s = GetContextItems db s @ zs"
    and "\<And>n sm. summary_lookup db n = Some sm \<Longrightarrow> summary_lookup db' n = Some sm"
  shows "job_ok db' s j"
proof -
  have "\<exists>xs ys. GetContextItems db' s = xs @ job_items j @ ys \<and> (\<forall>x \<in> set xs. is_summary_item x)"
    using assms(1,2) unfolding job_ok_def by (metis append.assoc)
  with assms(1,3) show ?thesis
    by (cases "job_src j") (simp_all add: job_ok_def, meson+)
qed

lemma context_item_session:
  "ci \<in> set (db_context_items db) \<Longrightarrow> ci \<in> set (session_items db (ci_SessionID ci))"
  by (simp add: session_items_def)

lemma referenced_exists:
  assumes "store_ok db" "ci \<in> set (db_context_items db)" "refers_to ci n"
  shows "summary_lookup db n \<noteq> None"
  using assms context_item_session [OF assms(2)] by (auto simp: store_ok_def session_ok_def)

lemma job_items_in_context:
  assumes "job_ok db s j" "ci \<in> set (job_items j)"
  shows "ci \<in> set (session_items db s)" "ci \<in> set (db_context_items db)"
proof -
  have "ci \<in> set (GetContextItems db s)" using assms by (auto simp: job_ok_def simp del: set_GetContextItems)
  then show "ci \<in> set (session_items db s)" "ci \<in> set (db_context_items db)"
    by (simp_all add: session_items_def)
qed

lemma job_child_in_context:
  assumes "job_ok db s j" "job_src j = Inr cids" "c \<in> set cids"
  obtains ci where "ci \<in> set (db_context_items db)" "refers_to ci c"
proof -
  from assms obtain ci where "ci \<in> set (job_items j)" "ci_Ref ci = ItemSummary c"
    by (auto simp: job_ok_def) (metis imageE image_eqI list.set_map)
  with job_items_in_context [OF assms(1)] show thesis
    by (intro that [of ci]) (simp_all add: refers_to_def)
qed

lemma job_expand_frame:
  assumes "store_ok db" "job_ok db s j"
    and "\<And>ci n. ci \<in> set (db_context_items db) \<Longrightarrow> refers_to ci n \<Longrightarrow>
           summary_lookup db' n = summary_lookup db n"
    and "\<And>ci n d. ci \<in> set (db_context_items db) \<Longrightarrow> refers_to ci n \<Longrightarrow>
           sum_expand db' d n = sum_expand db d n"
  shows "job_expand db' j = job_expand db j"
proof -
  have "map (item_expand db') (job_items j) = map (item_expand db) (job_items j)"
    using assms(3,4) job_items_in_context(2) [OF assms(2)]
    by (intro map_cong [OF refl] item_expand_frame) blast+
  then show ?thesis by (simp only: job_expand_def)
qed

section \<open>Every transaction keeps the invariant\<close>

lemma phase_ok_append:
  assumes "phase_ok db s ph" "AppendMessage db now s' role content raw tokens meta = Inr (i, db')"
  shows "phase_ok db' s ph"
proof -
  note fr = append_frame [OF assms(2)]
  note ex = sum_expand_links [OF fr(2,3)]
  have job: "job_ok db' s j" if "job_ok db s j" for j
    by (rule job_ok_frame [OF that append_session_items [OF assms(2), of s]]) (simp add: fr(1))
  have ins: "inserted db' s j" if "inserted db s j" for j
    using that assms(2) fr(1)
    by (auto simp: inserted_def not_in_context_def AppendMessage_def Let_def refers_to_def split: if_splits)
  have "item_expand db' = item_expand db"
    using fr(1) ex by (intro ext item_expand_frame) simp_all
  then have "job_expand db' = job_expand db" by (intro ext) (simp only: job_expand_def)
  with assms(1) job ins fr ex show ?thesis
    by (cases ph) (auto simp: unlinked_def no_parent_def)
qed

lemma store_ok_create:
  assumes "store_ok db" "CreateSummary db now sm = Inr db'"
  shows "store_ok db'"
proof -
  note fr = create_frame [OF assms(2)] and lk = create_lookup [OF assms(2)]
  have ex: "sum_expand db' = sum_expand db" by (rule sum_expand_links [OF fr(1,2)])
  have keep: "summary_lookup db n \<noteq> None \<Longrightarrow> summary_lookup db' n = summary_lookup db n" for n
    using fr(7) lk(1) by (cases "n = sum_ID sm") auto
  have "tables_ok db'"
    using assms(1) fr keep by (fastforce simp: store_ok_def tables_ok_def)
  moreover have "session_ok db' s" for s
  proof (rule session_ok_frame)
    show "session_ok db s" using assms(1) by (simp add: store_ok_def)
    show "item_expand db' ci = item_expand db ci" if "ci \<in> set (session_items db s)" for ci
      using that referenced_exists [OF assms(1)] keep ex
      by (intro item_expand_frame) (auto simp: session_items_def)
  qed (use fr keep in \<open>simp_all add: GetContextItems_def session_items_def history_def session_messages_def\<close>)
  ultimately show ?thesis by (simp add: store_ok_def)
qed

lemma phase_ok_create:
  assumes "phase_ok db s ph" "store_ok db" "CreateSummary db now sm = Inr db'"
  shows "phase_ok db' s ph"
proof -
  note fr = create_frame [OF assms(3)] and lk = create_lookup [OF assms(3)]
  have ex: "sum_expand db' = sum_expand db" by (rule sum_expand_links [OF fr(1,2)])
  have keep: "summary_lookup db n = Some m \<Longrightarrow> summary_lookup db' n = Some m" for n m
    using fr(7) lk(1) [of n] by (cases "n = sum_ID sm") auto
  then have same: "summary_lookup db n \<noteq> None \<Longrightarrow> summary_lookup db' n = summary_lookup db n" for n
    by auto
  have job: "job_ok db' s j" if "job_ok db s j" for j
    by (rule job_ok_frame [where zs = "[]", OF that])
      (simp_all add: keep fr(4) GetContextItems_def session_items_def)
  have ins: "inserted db' s j" if "inserted db s j" for j
    using that keep fr(4) by (auto simp: inserted_def not_in_context_def)
  have exp: "job_expand db' j = job_expand db j" if "job_ok db s j" for j
    using assms(2) that
    by (rule job_expand_frame) (use same ex referenced_exists [OF assms(2)] in simp_all)
  show ?thesis
    using assms(1) job ins exp fr ex by (cases ph) (auto simp: unlinked_def no_parent_def)
qed

text \<open>What a link transaction for a fresh summary changes.\<close>

definition linked_from :: "msg_db \<Rightarrow> job \<Rightarrow> msg_db \<Rightarrow> bool" where
  "linked_from db j db' \<longleftrightarrow>
     summary_lookup db' = summary_lookup db \<and> db_context_items db' = db_context_items db \<and>
     db_messages db' = db_messages db \<and> db_lastMessageID db' = db_lastMessageID db \<and>
     (\<forall>d x. x \<noteq> sum_ID (job_summary j) \<longrightarrow> sum_expand db' d x = sum_expand db d x) \<and>
     (\<forall>(x, _, _) \<in> set (db_summary_messages db'). x = sum_ID (job_summary j) \<or>
        x \<in> fst ` set (db_summary_messages db)) \<and>
     (\<forall>(c, p, _) \<in> set (db_summary_parents db'). (c, p) \<in> (\<lambda>(c, p, _). (c, p)) ` set (db_summary_parents db) \<or>
        p = sum_ID (job_summary j) \<and> (\<exists>ci \<in> set (db_context_items db). refers_to ci c)) \<and>
     sum_expand db' (nat (sum_Depth (job_summary j))) (sum_ID (job_summary j)) = job_expand db j"

lemma unlinked_no_parent: "unlinked db n \<Longrightarrow> no_parent db n"
  by (auto simp: unlinked_def no_parent_def)

definition ref_expand :: "msg_db \<Rightarrow> item_ref \<Rightarrow> int list" where
  "ref_expand db r =
     (case r of ItemMessage mid \<Rightarrow> [mid]
      | ItemSummary n \<Rightarrow> (case summary_lookup db n of None \<Rightarrow> []
                         | Some sm \<Rightarrow> sum_expand db (nat (sum_Depth sm)) n))"

lemma item_expand_refs: "map (item_expand db) items = map (ref_expand db) (map ci_Ref items)"
  by (simp add: item_expand_def ref_expand_def)

lemma concat_singletons: "concat (map (\<lambda>x. [x]) xs) = xs"
  by (induction xs) simp_all

lemma linked_from_messages:
  assumes "job_ok db s j" "unlinked db (sum_ID (job_summary j))" "job_src j = Inl mids"
    and "LinkSummaryMessages db (sum_ID (job_summary j)) mids = Inr db'"
  shows "linked_from db j db'"
proof -
  let ?n = "sum_ID (job_summary j)"
  note fr = link_messages_frame [OF assms(4,2)]
  have ex: "x \<noteq> ?n \<Longrightarrow> sum_expand db' d x = sum_expand db d x" for d x
    by (rule sum_expand_link_frame [OF unlinked_no_parent [OF assms(2)]])
      (simp_all add: fr(1,6) GetSummaryChildren_def)
  have refs: "map ci_Ref (job_items j) = map ItemMessage mids" "sum_Depth (job_summary j) = 0"
    using assms(1,3) by (simp_all add: job_ok_def)
  have "job_expand db j = mids"
    unfolding job_expand_def item_expand_refs refs(1) by (simp add: comp_def concat_singletons ref_expand_def)
  then have "sum_expand db' (nat (sum_Depth (job_summary j))) ?n = job_expand db j"
    by (simp add: refs(2) fr(6))
  moreover have "\<forall>(x, _, _) \<in> set (db_summary_messages db'). x = ?n \<or> x \<in> fst ` set (db_summary_messages db)"
    using link_messages_Inr [OF assms(4) [unfolded LinkSummaryMessages_def]] by force
  moreover have "\<forall>(c, p, _) \<in> set (db_summary_parents db').
      (c, p) \<in> (\<lambda>(c, p, _). (c, p)) ` set (db_summary_parents db)"
    unfolding fr(1) by force
  ultimately show ?thesis
    unfolding linked_from_def using fr(2-5) ex by (intro conjI) blast+
qed

lemma linked_from_parents:
  assumes "job_ok db s j" "inserted db s j" "unlinked db (sum_ID (job_summary j))" "job_src j = Inr cids"
    and "LinkSummaryParents db (sum_ID (job_summary j)) cids = Inr db'"
  shows "linked_from db j db'"
proof -
  let ?n = "sum_ID (job_summary j)"
  note fr = link_parents_frame [OF assms(5,3)]
  have ex: "x \<noteq> ?n \<Longrightarrow> sum_expand db' d x = sum_expand db d x" for d x
    by (rule sum_expand_link_frame [OF unlinked_no_parent [OF assms(3)]])
      (simp_all add: fr(1,6) GetSummarySourceMessages_def)
  have refs: "map ci_Ref (job_items j) = map ItemSummary cids" "sum_Depth (job_summary j) > 0"
    and depth: "\<forall>c \<in> set cids. \<exists>sm. summary_lookup db c = Some sm \<and>
        sum_Depth sm = sum_Depth (job_summary j) - 1"
    using assms(1,4) by (simp_all add: job_ok_def)
  have child: "\<exists>ci \<in> set (db_context_items db). refers_to ci c" if "c \<in> set cids" for c
    using job_child_in_context [OF assms(1,4) that] by blast
  then have neq: "c \<noteq> ?n" if "c \<in> set cids" for c
    using that assms(2) by (auto simp: inserted_def not_in_context_def)
  obtain d where d: "nat (sum_Depth (job_summary j)) = Suc d"
    using refs(2) by (metis Suc_pred zero_less_nat_eq)
  have "map (ref_expand db) (map ItemSummary cids) = map (sum_expand db d) cids"
  proof -
    have "ref_expand db (ItemSummary c) = sum_expand db d c" if "c \<in> set cids" for c
      using depth that d by (force simp: ref_expand_def nat_diff_distrib')
    then show ?thesis by simp
  qed
  then have "job_expand db j = concat (map (sum_expand db d) cids)"
    unfolding job_expand_def item_expand_refs refs(1) by (simp only:)
  also have "map (sum_expand db d) cids = map (sum_expand db' d) cids"
    using ex neq by simp
  finally have "sum_expand db' (nat (sum_Depth (job_summary j))) ?n = job_expand db j"
    by (simp add: d fr(6))
  moreover have "(k, c) \<in> set (enumerate 0 cids) \<Longrightarrow> c \<in> set cids" for k c
    by (metis in_set_zip in_set_conv_nth snd_conv enumerate_eq_zip)
  then have "\<forall>(c, p, _) \<in> set (db_summary_parents db').
      (c, p) \<in> (\<lambda>(c, p, _). (c, p)) ` set (db_summary_parents db) \<or>
      p = ?n \<and> (\<exists>ci \<in> set (db_context_items db). refers_to ci c)"
    unfolding fr(7) using child by (force simp: image_iff)
  moreover have "\<forall>(x, _, _) \<in> set (db_summary_messages db'). x = ?n \<or> x \<in> fst ` set (db_summary_messages db)"
    unfolding fr(1) by force
  ultimately show ?thesis
    unfolding linked_from_def using fr(2-5) ex by (intro conjI) blast+
qed

lemma link_sources_linked_from:
  assumes "job_ok db s j" "inserted db s j" "unlinked db (sum_ID (job_summary j))"
    and "link_sources db (sum_ID (job_summary j)) (job_src j) = Inr db'"
  shows "linked_from db j db'"
  using assms linked_from_messages linked_from_parents
  by (cases "job_src j") (auto simp: link_sources_def)

lemma linked_from_context:
  assumes "linked_from db j db'" "inserted db s j" "ci \<in> set (db_context_items db)" "refers_to ci n"
  shows "sum_expand db' d n = sum_expand db d n"
proof -
  have "n \<noteq> sum_ID (job_summary j)"
    using assms(2-4) by (auto simp: inserted_def not_in_context_def)
  with assms(1) show ?thesis by (simp add: linked_from_def)
qed

lemma store_ok_link:
  assumes "store_ok db" "job_ok db s j" "inserted db s j" "linked_from db j db'"
  shows "store_ok db'"
proof -
  have fr: "summary_lookup db' = summary_lookup db" "db_context_items db' = db_context_items db"
    "db_messages db' = db_messages db" "db_lastMessageID db' = db_lastMessageID db"
    and ex: "\<And>d x. x \<noteq> sum_ID (job_summary j) \<Longrightarrow> sum_expand db' d x = sum_expand db d x"
    using assms(4) by (auto simp: linked_from_def)
  have n: "summary_lookup db (sum_ID (job_summary j)) \<noteq> None" "not_in_context db (sum_ID (job_summary j))"
    using assms(3) by (auto simp: inserted_def)
  have t: "tables_ok db" using assms(1) by (simp add: store_ok_def)
  have "summary_lookup db x \<noteq> None" if "(x, m, k) \<in> set (db_summary_messages db')" for x m k
  proof -
    have "x = sum_ID (job_summary j) \<or> x \<in> fst ` set (db_summary_messages db)"
      using assms(4) that unfolding linked_from_def by fast
    then show ?thesis using n(1) t unfolding tables_ok_def by fastforce
  qed
  moreover have "summary_lookup db c \<noteq> None \<and> summary_lookup db p \<noteq> None"
    if "(c, p, k) \<in> set (db_summary_parents db')" for c p k
  proof -
    have "(c, p) \<in> (\<lambda>(c, p, _). (c, p)) ` set (db_summary_parents db) \<or>
        p = sum_ID (job_summary j) \<and> (\<exists>ci \<in> set (db_context_items db). refers_to ci c)"
      using assms(4) that unfolding linked_from_def by fast
    then show ?thesis
      using n(1) t referenced_exists [OF assms(1)] unfolding tables_ok_def by fastforce
  qed
  ultimately have "tables_ok db'"
    using t unfolding tables_ok_def fr by fast
  moreover have "session_ok db' s'" for s'
  proof (rule session_ok_frame)
    show "session_ok db s'" using assms(1) by (simp add: store_ok_def)
    show "item_expand db' ci = item_expand db ci" if "ci \<in> set (session_items db s')" for ci
      using that fr(1) linked_from_context [OF assms(4,3)]
      by (intro item_expand_frame) (auto simp: session_items_def)
  qed (simp_all add: fr GetContextItems_def session_items_def history_def session_messages_def)
  ultimately show ?thesis by (simp add: store_ok_def)
qed

lemma phase_ok_link_other:
  assumes "store_ok db" "phase_ok db s' ph" "s' \<noteq> s" "job_ok db s j" "inserted db s j"
    "linked_from db j db'"
  shows "phase_ok db' s' ph"
proof -
  let ?n = "sum_ID (job_summary j)"
  have fr: "summary_lookup db' = summary_lookup db" "db_context_items db' = db_context_items db"
    and ex: "\<And>d x. x \<noteq> ?n \<Longrightarrow> sum_expand db' d x = sum_expand db d x"
    using assms(6) by (auto simp: linked_from_def)
  have job: "job_ok db' s' j'" if "job_ok db s' j'" for j'
    by (rule job_ok_frame [where zs = "[]", OF that])
      (simp_all add: fr GetContextItems_def session_items_def)
  have ins: "inserted db' s' j'" if "inserted db s' j'" for j'
    using that by (simp add: inserted_def not_in_context_def fr)
  have neq: "sum_ID (job_summary j') \<noteq> ?n" if "inserted db s' j'" for j'
    using that assms(3,5) by (auto simp: inserted_def)
  have par: "no_parent db' n'" if "no_parent db n'" "not_in_context db n'" for n'
    using assms(6) that unfolding linked_from_def no_parent_def not_in_context_def by fastforce
  have unl: "unlinked db' n'" if "unlinked db n'" "not_in_context db n'" "n' \<noteq> ?n" for n'
    using assms(6) that unfolding linked_from_def unlinked_def not_in_context_def by fastforce
  have exp: "job_expand db' j' = job_expand db j'" if "job_ok db s' j'" for j'
    using assms(1) that
    by (rule job_expand_frame) (use fr linked_from_context [OF assms(6,5)] in auto)
  show ?thesis
  proof (cases ph)
    case (Created j')
    with assms(2) job ins neq unl show ?thesis by (auto simp: inserted_def)
  next
    case (Linked j')
    with assms(2) job ins neq par exp ex show ?thesis by (auto simp: inserted_def)
  qed (use assms(2) job in auto)
qed

lemma phase_ok_link:
  assumes "store_ok db" "phase_ok db s (Created j)" "linked_from db j db'"
  shows "phase_ok db' s (Linked j)"
proof -
  let ?n = "sum_ID (job_summary j)"
  have fr: "summary_lookup db' = summary_lookup db" "db_context_items db' = db_context_items db"
    and ex: "\<And>d x. x \<noteq> ?n \<Longrightarrow> sum_expand db' d x = sum_expand db d x"
    using assms(3) by (auto simp: linked_from_def)
  have ok: "job_ok db s j" "inserted db s j" "unlinked db ?n" using assms(2) by simp_all
  have "job_ok db' s j"
    by (rule job_ok_frame [where zs = "[]", OF ok(1)])
      (simp_all add: fr GetContextItems_def session_items_def)
  moreover have "inserted db' s j"
    using ok(2) by (simp add: inserted_def not_in_context_def fr)
  moreover have "no_parent db' ?n"
    using assms(3) ok(2,3) unfolding linked_from_def unlinked_def no_parent_def inserted_def not_in_context_def
    by fastforce
  moreover have "job_expand db' j = job_expand db j"
    using assms(1) ok(1)
    by (rule job_expand_frame) (use fr linked_from_context [OF assms(3) ok(2)] in auto)
  ultimately show ?thesis using assms(3) by (simp add: linked_from_def)
qed

lemma store_ok_replace:
  assumes "store_ok db" "phase_ok db s (Linked j)"
    and "ReplaceContextItems db s (ci_Ordinal (hd (job_items j))) (ci_Ordinal (last (job_items j)))
           (sum_ID (job_summary j)) = Inr db'"
  shows "store_ok db'"
proof -
  let ?n = "sum_ID (job_summary j)"
  let ?it = "summary_item s (ci_Ordinal (hd (job_items j))) ?n"
  note fr = replace_frame [OF assms(3)]
  have t: "tables_ok db" and sok: "session_ok db s'" for s' using assms(1) by (auto simp: store_ok_def)
  have ex: "item_expand db' = item_expand db"
    using fr(4) sum_expand_links [OF fr(1,2)] by (intro ext item_expand_frame) simp_all
  have hist: "history db' s' = history db s'" for s' by (simp add: history_def session_messages_def fr(3))
  have ok: "job_ok db s j" "inserted db s j" using assms(2) by simp_all
  then obtain xs ys where L: "GetContextItems db s = xs @ job_items j @ ys" "job_items j \<noteq> []"
    and xs: "\<forall>x \<in> set xs. is_summary_item x" by (auto simp: job_ok_def)
  have L': "GetContextItems db' s = xs @ [?it] @ ys" by (rule replace_items [OF t L assms(3)])
  have "item_expand db ?it = job_expand db j"
    using ok(2) assms(2) by (auto simp: inserted_def item_expand_def summary_item_def)
  then have "context_expand db' s = context_expand db s"
    by (simp add: context_expand_def L L' ex job_expand_def)
  moreover have "sorted_wrt (\<lambda>a b. is_summary_item b \<longrightarrow> is_summary_item a) (xs @ [?it] @ ys)"
    using sok [of s] xs by (auto simp: session_ok_def L sorted_wrt_append summary_item_def is_summary_item_def)
  moreover have "set (session_items db s) = set xs \<union> set (job_items j) \<union> set ys"
    using set_GetContextItems [of db s] unfolding L by auto
  then have "summary_lookup db m \<noteq> None" if "ci \<in> set (xs @ [?it] @ ys)" "refers_to ci m" for ci m
    using that sok [of s] ok(2)
    by (auto simp: session_ok_def inserted_def refers_to_def summary_item_def)
  ultimately have "session_ok db' s"
    using sok [of s] by (simp add: session_ok_def L' hist fr(4))
  moreover have "session_ok db' s'" if "s' \<noteq> s" for s'
    by (rule session_ok_frame [OF sok]) (simp_all add: replace_other [OF assms(3) that] hist ex fr(4))
  ultimately show ?thesis
    using replace_tables_ok [OF t assms(3)] unfolding store_ok_def by metis
qed

lemma phase_ok_replace_other:
  assumes "phase_ok db s' ph" "s' \<noteq> s" "phase_ok db s (Linked j)"
    and "ReplaceContextItems db s a b (sum_ID (job_summary j)) = Inr db'"
  shows "phase_ok db' s' ph"
proof -
  note fr = replace_frame [OF assms(4)]
  note ex = sum_expand_links [OF fr(1,2)]
  have "item_expand db' = item_expand db"
    using fr(4) ex by (intro ext item_expand_frame) simp_all
  then have "job_expand db' = job_expand db" by (intro ext) (simp only: job_expand_def)
  moreover have "job_ok db' s' j'" if "job_ok db s' j'" for j'
    by (rule job_ok_frame [where zs = "[]", OF that])
      (simp_all add: fr(4) replace_other [OF assms(4,2)])
  moreover have "inserted db' s' j'" if "inserted db s' j'" for j'
  proof -
    have "sum_ID (job_summary j') \<noteq> sum_ID (job_summary j)"
      using that assms(2,3) by (auto simp: inserted_def)
    with that show ?thesis
      by (auto simp: inserted_def not_in_context_def fr(4) replace_Inr(1) [OF assms(4)]
          summary_item_def refers_to_def summary_lookup_def)
  qed
  ultimately show ?thesis
    using assms(1) fr(1,2) ex by (cases ph) (auto simp: unlinked_def no_parent_def)
qed

lemma phase_ok_created:
  assumes "store_ok db" "job_ok db s j" "CreateSummary db now (job_summary j) = Inr db'"
  shows "phase_ok db' s (Created j)"
proof -
  let ?n = "sum_ID (job_summary j)"
  note fr = create_frame [OF assms(3)] and lk = create_lookup [OF assms(3)]
  have "sum_SessionID (job_summary j) = s" using assms(2) by (simp add: job_ok_def)
  moreover have "not_in_context db' ?n"
    using referenced_exists [OF assms(1)] fr(7) unfolding not_in_context_def fr(4) by blast
  moreover have "unlinked db' ?n"
    using assms(1) fr(1,2,7) unfolding store_ok_def tables_ok_def unlinked_def by fastforce
  moreover have "job_ok db' s j"
    using phase_ok_create [OF _ assms(1,3), of s "Planned j"] assms(2) by simp
  ultimately show ?thesis using lk(2) by (auto simp: inserted_def)
qed

lemma leaf_job_ok:
  assumes "store_ok db" "OldestMessageContextItems db s t maxTokens = (items, msgs)" "items \<noteq> []"
    "sum_SessionID sm = s" "sum_Depth sm = 0"
  shows "job_ok db s \<lparr>job_items = items, job_summary = sm, job_src = Inl (map msg_ID msgs)\<rparr>"
proof -
  from oldest_run [OF assms(1,2)] obtain xs rest where
    "context_front db s t = xs @ items @ rest" "\<forall>x \<in> set xs. is_summary_item x"
    "map ci_Ref items = map ItemMessage (map msg_ID msgs)" by metis
  with front_tail [of db s t] assms(3-5) show ?thesis by (auto simp: job_ok_def)
qed

lemma condense_job_ok:
  assumes "store_ok db" "ContiguousSummariesAtDepth db s depth minCount = Some (items, sms)"
    "items \<noteq> []" "0 \<le> depth" "sum_SessionID sm = s" "sum_Depth sm = depth + 1"
  shows "job_ok db s \<lparr>job_items = items, job_summary = sm, job_src = Inr (map sum_ID sms)\<rparr>"
proof -
  from contiguous_run [OF assms(2,3)] obtain xs ys where
    L: "GetContextItems db s = xs @ items @ ys"
    and refs: "map ci_Ref items = map ItemSummary (map sum_ID sms)"
    and sms: "\<forall>sm \<in> set sms. summary_lookup db (sum_ID sm) = Some sm \<and> sum_Depth sm = depth"
    by metis
  have "is_summary_item ci" if "ci \<in> set items" for ci
  proof -
    from that have "ci_Ref ci \<in> set (map ItemSummary (map sum_ID sms))" unfolding refs [symmetric] by simp
    then show ?thesis by (auto simp: is_summary_item_def)
  qed
  then have "\<forall>x \<in> set xs. is_summary_item x"
    using assms(1,3) unfolding store_ok_def session_ok_def L
    by (metis (no_types, lifting) L UnCI hd_in_set session_ok_def set_append sorted_wrt_append)
  with L refs sms assms(3-6) show ?thesis by (auto simp: job_ok_def)
qed

lemma compact_step_ok:
  assumes "compact_step st st'" "machine_ok st"
  shows "machine_ok st'"
  using assms
proof (cases rule: compact_step.cases)
  case (append db now s role content raw tokens meta i db' ph)
  with assms(2) store_ok_append phase_ok_append show ?thesis by (fastforce simp: machine_ok_def)
next
  case (plan_leaf ph s db t mt items msgs sm)
  with assms(2) leaf_job_ok show ?thesis by (auto simp: machine_ok_def)
next
  case (plan_condense ph s db depth mc items sms sm)
  with assms(2) condense_job_ok show ?thesis by (auto simp: machine_ok_def)
next
  case (create ph s j db now db')
  with assms(2) have ok: "store_ok db" "phase_ok db s (Planned j)" "\<And>s'. phase_ok db s' (ph s')"
    unfolding machine_ok_def by (simp, metis snd_conv fst_conv, simp)
  have "phase_ok db' s (Created j)" using phase_ok_created ok create(4) by simp
  moreover have "phase_ok db' s' (ph s')" for s' by (rule phase_ok_create [OF ok(3,1) create(4)])
  ultimately show ?thesis
    using create(2) store_ok_create [OF ok(1) create(4)] by (simp add: machine_ok_def)
next
  case (link ph s j db db')
  with assms(2) have ok: "store_ok db" "phase_ok db s (Created j)" "\<And>s'. phase_ok db s' (ph s')"
    unfolding machine_ok_def by (simp, metis snd_conv fst_conv, simp)
  then have l: "linked_from db j db'" "job_ok db s j" "inserted db s j"
    using link link_sources_linked_from by auto
  have "phase_ok db' s (Linked j)" by (rule phase_ok_link [OF ok(1,2) l(1)])
  moreover have "phase_ok db' s' (ph s')" if "s' \<noteq> s" for s'
    by (rule phase_ok_link_other [OF ok(1,3) that l(2,3,1)])
  ultimately show ?thesis
    using link(2) store_ok_link [OF ok(1) l(2,3,1)] by (simp add: machine_ok_def)
next
  case (replace ph s j db db')
  with assms(2) have ok: "store_ok db" "phase_ok db s (Linked j)" "\<And>s'. phase_ok db s' (ph s')"
    unfolding machine_ok_def by (simp, metis snd_conv fst_conv, simp)
  with replace store_ok_replace [OF ok(1,2)] phase_ok_replace_other [OF ok(3) _ ok(2)] show ?thesis
    by (simp add: machine_ok_def)
next
  case (abort db ph s)
  with assms(2) show ?thesis by (auto simp: machine_ok_def)
qed

section \<open>The passes in sequence\<close>

text \<open>The messages of the fresh tail: the newest \<open>k\<close> message items of a session.\<close>

definition fresh_messages :: "msg_db \<Rightarrow> string \<Rightarrow> nat \<Rightarrow> ContextItem list" where
  "fresh_messages db sid k =
     (let M = filter (\<lambda>ci. \<not> is_summary_item ci) (GetContextItems db sid) in drop (length M - k) M)"

definition safe_change :: "Compactor \<Rightarrow> msg_db \<Rightarrow> msg_db \<Rightarrow> bool" where
  "safe_change c db db' \<longleftrightarrow> (store_ok db \<longrightarrow> store_ok db' \<and> (\<forall>s. history db' s = history db s) \<and>
     fresh_messages db' (cp_sessionID c) (nat (cfg_FreshTailCount (cp_config c))) =
       fresh_messages db (cp_sessionID c) (nat (cfg_FreshTailCount (cp_config c))))"

lemma safe_refl [simp, intro]: "safe_change c db db"
  by (simp add: safe_change_def)

lemma safe_trans [trans]: "safe_change c db db1 \<Longrightarrow> safe_change c db1 db2 \<Longrightarrow> safe_change c db db2"
  by (simp add: safe_change_def)

lemma history_frame: "db_messages db' = db_messages db \<Longrightarrow> history db' s = history db s"
  by (simp add: history_def session_messages_def)

lemma items_frame:
  "db_context_items db' = db_context_items db \<Longrightarrow> GetContextItems db' s = GetContextItems db s"
  by (simp add: GetContextItems_def session_items_def)

lemma store_summary_safe:
  assumes "store_ok db" "job_ok db s \<lparr>job_items = items, job_summary = sm, job_src = src\<rparr>"
    and "store_summary db now sm src items = (e, db')" and "GetContextItems db s = xs @ items @ ys"
  shows "store_ok db' \<and> (\<forall>s'. history db' s' = history db s') \<and>
    (GetContextItems db' s = GetContextItems db s \<or>
     GetContextItems db' s = xs @ [summary_item s (ci_Ordinal (hd items)) (sum_ID sm)] @ ys)"
proof (cases "CreateSummary db now sm")
  case (Inl x)
  with assms show ?thesis by (simp add: store_summary_def)
next
  case (Inr db1)
  let ?j = "\<lparr>job_items = items, job_summary = sm, job_src = src\<rparr>"
  have ok1: "store_ok db1" "phase_ok db1 s (Created ?j)"
    using store_ok_create phase_ok_created [OF assms(1,2)] assms(1) Inr by auto
  note fr1 = create_frame [OF Inr]
  have s: "sum_SessionID sm = s" using assms(2) by (simp add: job_ok_def)
  show ?thesis
  proof (cases "link_sources db1 (sum_ID sm) src")
    case (Inl x)
    have "history db1 s' = history db s'" "GetContextItems db1 s = GetContextItems db s" for s'
      using history_frame [OF fr1(3)] items_frame [OF fr1(4)] by auto
    with Inl Inr assms(3) ok1 show ?thesis by (auto simp: store_summary_def)
  next
    case l: (Inr db2)
    have lf: "linked_from db1 ?j db2"
      using link_sources_linked_from [of db1 s ?j] ok1(2) l by simp
    have ok2: "store_ok db2" "phase_ok db2 s (Linked ?j)"
      using store_ok_link [OF ok1(1) _ _ lf, of s] phase_ok_link [OF ok1 lf] ok1(2) by auto
    have "db_context_items db2 = db_context_items db" "db_messages db2 = db_messages db"
      using lf fr1(3,4) by (simp_all add: linked_from_def)
    note fr2 = this(2) items_frame [OF this(1), of s]
    show ?thesis
    proof (cases "ReplaceContextItems db2 s (ci_Ordinal (hd items)) (ci_Ordinal (last items)) (sum_ID sm)")
      case (Inl x)
      with Inr l s assms(3) ok2(1) fr2(2) history_frame [OF fr2(1)] show ?thesis
        by (auto simp: store_summary_def)
    next
      case r: (Inr db3)
      have L: "GetContextItems db2 s = xs @ items @ ys" "items \<noteq> []"
        using ok2(2) fr2(2) assms(4) by (auto simp: job_ok_def)
      have "GetContextItems db3 s = xs @ [summary_item s (ci_Ordinal (hd items)) (sum_ID sm)] @ ys"
        using ok2(1) by (intro replace_items [OF _ L r]) (simp add: store_ok_def)
      moreover have "store_ok db3" using store_ok_replace [OF ok2] r by simp
      moreover have "db_messages db3 = db_messages db" using replace_frame(3) [OF r] fr2(1) by simp
      then have "\<forall>s'. history db3 s' = history db s'" using history_frame by blast
      moreover have "db' = db3" using Inr l r s assms(3) by (simp add: store_summary_def)
      ultimately show ?thesis by blast
    qed
  qed
qed

lemma summary_item_is_summary [simp]: "is_summary_item (summary_item s ord n)"
  by (simp add: is_summary_item_def summary_item_def)

lemma fresh_messages_suffix:
  assumes "filter (\<lambda>ci. \<not> is_summary_item ci) (GetContextItems db sid) = A @ T" "length T = k"
  shows "fresh_messages db sid k = T"
  using assms by (simp add: fresh_messages_def)

lemma filter_messages_run:
  assumes "sorted_wrt (\<lambda>a b. is_summary_item b \<longrightarrow> is_summary_item a) (xs @ items @ ys)"
    "items \<noteq> []" "\<forall>ci \<in> set items. \<not> is_summary_item ci" "\<forall>x \<in> set xs. is_summary_item x"
  shows "filter (\<lambda>ci. \<not> is_summary_item ci) xs = []"
    "filter (\<lambda>ci. \<not> is_summary_item ci) (items @ ys) = items @ ys"
proof -
  show "filter (\<lambda>ci. \<not> is_summary_item ci) xs = []" using assms(4) by simp
  have "\<forall>y \<in> set ys. \<not> is_summary_item y"
    using assms(1-3) by (auto simp: sorted_wrt_append)
  with assms(3) show "filter (\<lambda>ci. \<not> is_summary_item ci) (items @ ys) = items @ ys" by simp
qed

lemma leafPass_cases:
  assumes "OldestMessageContextItems db (cp_sessionID c) (cfg_FreshTailCount (cp_config c))
    (cfg_LeafChunkTokens (cp_config c)) = (items, msgs)"
  obtains "snd (leafPass c env db) = db"
  | summary where "items \<noteq> []" "leafPass c env db = store_summary db (env_now env)
      (leaf_summary c env msgs summary) (Inl (map msg_ID msgs)) items"
proof (cases "int (length msgs) < cfg_LeafMinFanout (cp_config c) \<or> items = []")
  case True
  with assms have "snd (leafPass c env db) = db" by (auto simp: leafPass_def)
  then show thesis by (rule that(1))
next
  case False
  with assms that show thesis
    by (cases "summarizeWithEscalation c env 0 (buildLeafInput (cp_fmt c) msgs)
          (precedingSummaryContent c db (ci_Ordinal (hd items)) [])")
      (auto simp: leafPass_def Let_def)
qed

lemma leafPass_safe: "safe_change c db (snd (leafPass c env db))"
proof (cases "store_ok db")
  case True
  let ?t = "cfg_FreshTailCount (cp_config c)" and ?s = "cp_sessionID c"
  obtain items msgs where o: "OldestMessageContextItems db ?s ?t (cfg_LeafChunkTokens (cp_config c)) = (items, msgs)"
    by fastforce
  show ?thesis
  proof (cases rule: leafPass_cases [OF o, of env])
    case (2 summary)
    let ?sm = "leaf_summary c env msgs summary" and ?T = "context_tail db ?s ?t"
    obtain e db' where st: "store_summary db (env_now env) ?sm (Inl (map msg_ID msgs)) items = (e, db')"
      by fastforce
    have j: "job_ok db ?s \<lparr>job_items = items, job_summary = ?sm, job_src = Inl (map msg_ID msgs)\<rparr>"
      by (rule leaf_job_ok [OF True o 2(1)]) (simp_all add: leaf_summary_def)
    from oldest_run [OF True o] obtain xs rest where
      F: "context_front db ?s ?t = xs @ items @ rest" and xs: "\<forall>x \<in> set xs. is_summary_item x"
      and refs: "map ci_Ref items = map ItemMessage (map msg_ID msgs)" by metis
    have L: "GetContextItems db ?s = xs @ items @ (rest @ ?T)" using front_tail [of db ?s ?t] F by simp
    note ss = store_summary_safe [OF True j st L]
    have "\<not> is_summary_item ci" if "ci \<in> set items" for ci
    proof -
      from that have "ci_Ref ci \<in> set (map ItemMessage (map msg_ID msgs))" unfolding refs [symmetric] by simp
      then show ?thesis by (auto simp: is_summary_item_def)
    qed
    moreover have "sorted_wrt (\<lambda>a b. is_summary_item b \<longrightarrow> is_summary_item a) (xs @ items @ (rest @ ?T))"
      using True unfolding store_ok_def session_ok_def L [symmetric] by blast
    ultimately have f: "filter (\<lambda>ci. \<not> is_summary_item ci) xs = []"
      "filter (\<lambda>ci. \<not> is_summary_item ci) (items @ rest @ ?T) = items @ rest @ ?T"
      using filter_messages_run 2(1) xs by blast+
    then have g: "filter (\<lambda>ci. \<not> is_summary_item ci) (rest @ ?T) = rest @ ?T"
      by (metis append_eq_append_conv filter_append length_filter_le filter_True filter_id_conv Un_iff set_append)
    have "length ?T < length (GetContextItems db ?s)" using 2(1) L by simp
    then have T: "length ?T = nat ?t" unfolding length_context_tail by (auto simp: tail_count_def split: if_splits)
    have "fresh_messages db ?s (nat ?t) = ?T"
      by (rule fresh_messages_suffix [OF _ T, of _ _ "items @ rest"]) (simp add: L f [simplified])
    moreover have "fresh_messages db' ?s (nat ?t) = ?T"
      if "GetContextItems db' ?s = xs @ [summary_item ?s (ci_Ordinal (hd items)) (sum_ID ?sm)] @ rest @ ?T"
      by (rule fresh_messages_suffix [OF _ T, of _ _ rest]) (use that f(1) g in simp)
    ultimately have "fresh_messages db' ?s (nat ?t) = fresh_messages db ?s (nat ?t)"
      using ss by (auto simp: fresh_messages_def)
    with ss 2(2) st show ?thesis by (simp add: safe_change_def)
  qed simp
qed (simp add: safe_change_def)

lemma condenseAtDepth_cases:
  assumes "ContiguousSummariesAtDepth db (cp_sessionID c) depth (cfg_CondenseMinFanout (cp_config c)) = Some (items, sms)"
  obtains "snd (condenseAtDepth c env depth allItems db) = db"
  | summary where "sms \<noteq> []" "snd (condenseAtDepth c env depth allItems db) =
      snd (store_summary db (env_now env) (condensed_summary c env depth sms summary) (Inr (map sum_ID sms)) items)"
proof (cases "sms = []")
  case True
  with assms have "snd (condenseAtDepth c env depth allItems db) = db" by (auto simp: condenseAtDepth_def)
  then show thesis by (rule that(1))
next
  case False
  have "snd (case x of (None, db') \<Rightarrow> (Inr True, db') | (Some e, db') \<Rightarrow> (Inl e, db')) = snd x"
    for x :: "compact_error option \<times> msg_db"
    by (cases x) (simp split: option.split)
  with False assms that show thesis
    by (cases "summarizeWithEscalation c env (depth + 1) (buildCondensationInput (cp_fmt c) sms)
          (precedingSummaryContent c db (ci_Ordinal (hd items)) allItems)")
      (auto simp: condenseAtDepth_def Let_def)
qed

lemma contiguous_same_length:
  "ContiguousSummariesAtDepth db sid depth k = Some (items, sms) \<Longrightarrow> length items = length sms"
  by (auto simp: ContiguousSummariesAtDepth_def Let_def split: if_splits prod.splits)

lemma condenseAtDepth_safe:
  assumes "0 \<le> depth"
  shows "safe_change c db (snd (condenseAtDepth c env depth allItems db))"
proof (cases "ContiguousSummariesAtDepth db (cp_sessionID c) depth (cfg_CondenseMinFanout (cp_config c))")
  case None
  then show ?thesis by (simp add: condenseAtDepth_def)
next
  case (Some p)
  let ?s = "cp_sessionID c"
  obtain items sms where p: "p = (items, sms)" by fastforce
  note o = Some [unfolded p]
  show ?thesis
  proof (cases rule: condenseAtDepth_cases [OF o, of env allItems])
    case (2 summary)
    let ?sm = "condensed_summary c env depth sms summary"
    have items: "items \<noteq> []" using 2(1) contiguous_same_length [OF o] by auto
    obtain e db' where st: "store_summary db (env_now env) ?sm (Inr (map sum_ID sms)) items = (e, db')"
      by fastforce
    have ?thesis if ok: "store_ok db"
    proof -
      have j: "job_ok db ?s \<lparr>job_items = items, job_summary = ?sm, job_src = Inr (map sum_ID sms)\<rparr>"
        by (rule condense_job_ok [OF ok o items assms]) (simp_all add: condensed_summary_def)
      from contiguous_run [OF o items] obtain xs ys where L: "GetContextItems db ?s = xs @ items @ ys"
        and refs: "map ci_Ref items = map ItemSummary (map sum_ID sms)" by metis
      have "is_summary_item ci" if "ci \<in> set items" for ci
      proof -
        from that have "ci_Ref ci \<in> set (map ItemSummary (map sum_ID sms))" unfolding refs [symmetric] by simp
        then show ?thesis by (auto simp: is_summary_item_def)
      qed
      then have "filter (\<lambda>ci. \<not> is_summary_item ci) items = []" by simp
      then have "fresh_messages db' ?s k = fresh_messages db ?s k" for k
        using store_summary_safe [OF ok j st L] L by (auto simp: fresh_messages_def)
      with store_summary_safe [OF ok j st L] 2(2) st show ?thesis by (simp add: safe_change_def)
    qed
    then show ?thesis by (auto simp: safe_change_def)
  qed simp
qed

lemma condense_depths_safe:
  "0 \<le> depth \<Longrightarrow> safe_change c db (snd (condense_depths c env allItems n depth db))"
proof (induction n arbitrary: depth db)
  case (Suc n)
  obtain r db1 where r: "condenseAtDepth c env depth allItems db = (r, db1)" by fastforce
  have s: "safe_change c db db1" using condenseAtDepth_safe [OF Suc.prems] r by (metis snd_conv)
  then have "safe_change c db (snd (condense_depths c env allItems n (depth + 1) db1))"
    using Suc.IH [of "depth + 1" db1] Suc.prems safe_trans by simp
  with s r show ?case by (cases r) (auto split: bool.split)
qed simp

lemma condensationPass_safe: "safe_change c db (snd (condensationPass c env db))"
  using condense_depths_safe [of 0] by (simp add: condensationPass_def Let_def)

lemma sweep_loop_safe: "safe_change c db (snd (sweep_loop c envs n i db))"
proof (induction n arbitrary: i db)
  case (Suc n)
  obtain e db1 where l: "leafPass c (envs i) db = (e, db1)" by fastforce
  obtain r db2 where d: "condensationPass c (envs i) db = (r, db2)" by fastforce
  have "safe_change c db db1" "safe_change c db db2"
    using leafPass_safe [of c db "envs i"] condensationPass_safe [of c db "envs i"] l d by simp_all
  with Suc.IH [of db1 "Suc i"] Suc.IH [of db2 "Suc i"] l d show ?case
    by (auto split: option.split sum.split bool.split intro: safe_trans)
qed simp

lemma CompactIfNeeded_safe: "safe_change c db (snd (CompactIfNeeded c envs n db))"
proof -
  obtain e db1 where "fullSweep c envs db = (e, db1)" by fastforce
  with sweep_loop_safe [of c db envs 10 0] show ?thesis
    by (auto simp: CompactIfNeeded_def Let_def fullSweep_def split: option.split)
qed

section \<open>Properties\<close>

text \<open>
  Compaction loses no message.  Whatever the summariser answers, whichever pass fails and
  however many passes run, afterwards the context items of every session still stand for the
  complete history of the session, in order, through the links of the summary graph.
\<close>

theorem compaction_lossless:
  assumes "store_ok db"
  shows "context_expand (snd (CompactIfNeeded c envs lastInputTokens db)) sid = history db sid"
  using CompactIfNeeded_safe [of c db envs lastInputTokens] assms
  by (simp add: safe_change_def store_ok_def session_ok_def)

text \<open>A session with three messages and a compactor that compacts everything it can.\<close>

definition example_item :: "int \<Rightarrow> item_ref \<Rightarrow> ContextItem" where
  "example_item ord r = \<lparr>ci_SessionID = ''s'', ci_Ordinal = ord, ci_Ref = r\<rparr>"

definition example_append :: "msg_db \<Rightarrow> msg_db" where
  "example_append db = (case AppendMessage db 0 ''s'' ''user'' ''hello'' ''{}'' 5 False of
     Inl _ \<Rightarrow> db | Inr (_, db') \<Rightarrow> db')"

definition example_db :: msg_db where
  "example_db = example_append (example_append (example_append (empty_db [''s''])))"

definition example_compactor :: Compactor where
  "example_compactor = \<lparr>cp_sessionID = ''s'', cp_config = (compactionConfigForWindow 1)\<lparr>
     cfg_FreshTailCount := 1, cfg_LeafChunkTokens := 5, cfg_LeafMinFanout := 1,
     cfg_CondenseMinFanout := 2\<rparr>, cp_fmt = (\<lambda>_ _. [])\<rparr>"

definition example_env :: "nat \<Rightarrow> pass_env" where
  "example_env i = \<lparr>env_summarize = (\<lambda>_ _. Some ''- said hello''), env_uuid = replicate i CHR ''a'',
     env_now = 0\<rparr>"

lemma example_append_ok: "store_ok db \<Longrightarrow> store_ok (example_append db)"
  by (auto simp: example_append_def intro: store_ok_append split: sum.split)

lemma example_db_ok: "store_ok example_db"
  by (simp add: example_db_def example_append_ok empty_db_ok)

lemma example_compacted:
  "GetContextItems (snd (CompactIfNeeded example_compactor example_env 7 example_db)) ''s'' =
     [example_item 0 (ItemSummary ''sum_aa''), example_item 2 (ItemMessage 3)]"
  by code_simp

theorem compaction_lossless_witness:
  "context_expand (snd (CompactIfNeeded example_compactor example_env 7 example_db)) ''s'' = [1, 2, 3] \<and>
   GetContextItems (snd (CompactIfNeeded example_compactor example_env 7 example_db)) ''s'' =
     [example_item 0 (ItemSummary ''sum_aa''), example_item 2 (ItemMessage 3)]"
proof -
  have "history example_db ''s'' = [1, 2, 3]" by code_simp
  then show ?thesis
    using compaction_lossless [OF example_db_ok] example_compacted by simp
qed

text \<open>
  The fresh tail is never compacted: the newest message items of the session, as many as the
  configuration protects, are the same items in the same order before and after compaction.
\<close>

theorem compaction_keeps_fresh_tail:
  assumes "store_ok db"
  shows "fresh_messages (snd (CompactIfNeeded c envs lastInputTokens db)) (cp_sessionID c)
           (nat (cfg_FreshTailCount (cp_config c))) =
         fresh_messages db (cp_sessionID c) (nat (cfg_FreshTailCount (cp_config c)))"
  using CompactIfNeeded_safe [of c db envs lastInputTokens] assms by (simp add: safe_change_def)

theorem compaction_keeps_fresh_tail_witness:
  "fresh_messages (snd (CompactIfNeeded example_compactor example_env 7 example_db)) ''s'' 1 =
     [example_item 2 (ItemMessage 3)]"
proof -
  have "fresh_messages example_db ''s'' 1 = [example_item 2 (ItemMessage 3)]" by code_simp
  with compaction_keeps_fresh_tail [OF example_db_ok, of example_compactor example_env 7]
  show ?thesis by (simp add: example_compactor_def)
qed

text \<open>
  C4. The same holds at every moment of every interleaving.  However the transactions of the
  compaction passes of all sessions, aborted passes and appended messages follow each other, in
  every state reached from an empty store the context of each session stands for its whole
  history, and all its summaries precede all its messages.
\<close>

theorem interleaved_compaction_lossless:
  assumes "compact_step\<^sup>*\<^sup>* (empty_db sessions, \<lambda>_. Idle) (db, ph)"
  shows "context_expand db sid = history db sid \<and>
    sorted_wrt (\<lambda>a b. is_summary_item b \<longrightarrow> is_summary_item a) (GetContextItems db sid)"
proof -
  have "machine_ok st" if "compact_step\<^sup>*\<^sup>* (empty_db sessions, \<lambda>_. Idle) st" for st
    using that
  proof induction
    case base
    show ?case by (simp add: machine_ok_def empty_db_ok)
  qed (rule compact_step_ok)
  from this [OF assms] show ?thesis by (simp add: machine_ok_def store_ok_def session_ok_def)
qed

definition example_job :: job where
  "example_job = \<lparr>job_items = [example_item 0 (ItemMessage 1)],
     job_summary = leaf_summary example_compactor (example_env 1) (db_messages (example_append (empty_db [''s'']))) [],
     job_src = Inl [1]\<rparr>"

theorem interleaved_compaction_lossless_witness:
  "\<exists>db ph. compact_step\<^sup>*\<^sup>* (empty_db [''s''], \<lambda>_. Idle) (db, ph) \<and>
     ph ''s'' = Planned example_job \<and> context_expand db ''s'' = [1, 2]"
proof -
  let ?e = "empty_db [''s'']"
  let ?db1 = "example_append ?e" and ?ph = "(\<lambda>_. Idle)(''s'' := Planned example_job)"
  let ?db2 = "example_append ?db1"
  have a: "AppendMessage ?e 0 ''s'' ''user'' ''hello'' ''{}'' 5 False = Inr (1, ?db1)"
    "AppendMessage ?db1 0 ''s'' ''user'' ''hello'' ''{}'' 5 False = Inr (2, ?db2)"
    "OldestMessageContextItems ?db1 ''s'' 0 9 = ([example_item 0 (ItemMessage 1)], db_messages ?db1)"
    "map msg_ID (db_messages ?db1) = [1]" "history ?db2 ''s'' = [1, 2]"
    by code_simp+
  have "compact_step (?e, \<lambda>_. Idle) (?db1, \<lambda>_. Idle)" by (rule compact_step.append [OF a(1)])
  moreover have "compact_step (?db1, \<lambda>_. Idle) (?db1, ?ph)"
    using compact_step.plan_leaf [OF _ a(3), of "\<lambda>_. Idle" "job_summary example_job"] a(4)
    by (simp add: example_job_def leaf_summary_def example_compactor_def)
  moreover have "compact_step (?db1, ?ph) (?db2, ?ph)" by (rule compact_step.append [OF a(2)])
  ultimately have r: "compact_step\<^sup>*\<^sup>* (?e, \<lambda>_. Idle) (?db2, ?ph)"
    by (meson converse_rtranclp_into_rtranclp rtranclp.rtrancl_refl)
  from interleaved_compaction_lossless [OF r] a(5) r show ?thesis by fastforce
qed

text \<open>
  The summaries chosen for condensation are a run of neighbouring context items, all of the
  wanted depth and at least as many as the fan-in asks for, and no longer run of neighbouring
  summaries of that depth exists.
\<close>

theorem ContiguousSummariesAtDepth_longest:
  assumes "ContiguousSummariesAtDepth db sid depth minCount = Some (items, sms)" "items \<noteq> []"
  shows "(\<exists>xs ys. GetContextItems db sid = xs @ items @ ys) \<and>
    map ci_Ref items = map (ItemSummary \<circ> sum_ID) sms \<and>
    (\<forall>sm \<in> set sms. sum_Depth sm = depth) \<and> minCount \<le> int (length items) \<and>
    (\<forall>xs zs ys. GetContextItems db sid = xs @ zs @ ys \<longrightarrow> (\<forall>ci \<in> set zs. at_depth db depth ci) \<longrightarrow>
       length zs \<le> length items)"
proof (rule contiguous_run [OF assms])
  fix xs ys
  assume "GetContextItems db sid = xs @ items @ ys" "map ci_Ref items = map ItemSummary (map sum_ID sms)"
    "\<forall>sm \<in> set sms. summary_lookup db (sum_ID sm) = Some sm \<and> sum_Depth sm = depth"
    "minCount \<le> int (length items)"
    "\<And>xs' zs ys'. GetContextItems db sid = xs' @ zs @ ys' \<Longrightarrow>
       \<forall>ci \<in> set zs. at_depth db depth ci \<Longrightarrow> length zs \<le> length items"
  then show ?thesis by (intro conjI) (blast, simp, blast, blast, blast)
qed

definition example_leaf :: "string \<Rightarrow> Summary" where
  "example_leaf n = (leaf_summary example_compactor (example_env 1) (db_messages example_db) [])\<lparr>sum_ID := n\<rparr>"

definition example_summaries :: msg_db where
  "example_summaries = example_db\<lparr>db_summaries := [example_leaf ''a'', example_leaf ''b''],
     db_context_items := [example_item 5 (ItemSummary ''a''), example_item 21 (ItemSummary ''b''),
       example_item 30 (ItemMessage 3)]\<rparr>"

theorem ContiguousSummariesAtDepth_longest_witness:
  "ContiguousSummariesAtDepth example_summaries ''s'' 0 2 =
     Some ([example_item 5 (ItemSummary ''a''), example_item 21 (ItemSummary ''b'')],
           [example_leaf ''a'', example_leaf ''b'']) \<and>
   sum_Depth (example_leaf ''a'') = 0 \<and> sum_Depth (example_leaf ''b'') = 0"
proof -
  have e: "ContiguousSummariesAtDepth example_summaries ''s'' 0 2 =
     Some ([example_item 5 (ItemSummary ''a''), example_item 21 (ItemSummary ''b'')],
           [example_leaf ''a'', example_leaf ''b''])"
    by code_simp
  from ContiguousSummariesAtDepth_longest [OF e] e show ?thesis by simp
qed

end
