(* ===== verification/Assembly.thy ===== *)
theory Assembly
  imports Compaction_Lossless
begin

text \<open>
  Assembly of the context for a model call, \<open>src/internal/inference/assembly.go\<close>: the context
  items of the session are resolved to messages, the fresh tail is limited to 80 percent of the
  token budget, and the rest of the budget is filled with older items, newest first.

  A message of the model library is a value of type \<open>'m\<close>; how the library decodes stored
  JSON, builds a plain text message and builds a user message, and how Go quotes a string, are the
  fields of \<open>msg_lib\<close>.
\<close>

record 'm msg_lib =
  lib_unmarshal :: "string \<Rightarrow> 'm option"
  lib_text :: "string \<Rightarrow> string \<Rightarrow> 'm"
  lib_user :: "string \<Rightarrow> 'm"
  lib_quote :: "string \<Rightarrow> string"

abbreviation maxTailBudgetPercent :: int where "maxTailBudgetPercent \<equiv> 80"
abbreviation percentDivisor :: int where "percentDivisor \<equiv> 100"

record 'm AssembleResult =
  ar_Messages :: "'m list"
  ar_EstimatedTokens :: int

record 'm resolvedItem =
  ri_msg :: 'm
  ri_tokens :: int

text \<open>\<^term>\<open>lib_unmarshal\<close> gives a message only when the JSON decodes and has content.\<close>

definition resolveItem ::
  "'m msg_lib \<Rightarrow> time_format \<Rightarrow> msg_db \<Rightarrow> ContextItem \<Rightarrow> db_error + 'm \<times> int" where
  "resolveItem lib fmt db item =
     (case ci_Ref item of
        ItemMessage mid \<Rightarrow>
          (case GetMessage db mid of
             Inl e \<Rightarrow> Inl e
           | Inr m \<Rightarrow>
               (case lib_unmarshal lib (msg_RawJSON m) of
                  Some fMsg \<Rightarrow> Inr (fMsg, msg_Tokens m)
                | None \<Rightarrow> Inr (lib_text lib (msg_Role m) (msg_Content m), msg_Tokens m)))
      | ItemSummary sumid \<Rightarrow>
          (case GetSummary db sumid of
             Inl e \<Rightarrow> Inl e
           | Inr sm \<Rightarrow>
               Inr (lib_user lib (''<conversation_summary id='' @ lib_quote lib (sum_ID sm) @
                      '' depth='' @ [CHR 0x22] @ itoa (sum_Depth sm) @ [CHR 0x22] @
                      '' time_range='' @ [CHR 0x22] @ fmt ''2006-01-02 15:04'' (sum_EarliestAt sm) @
                      '' to '' @ fmt ''2006-01-02 15:04'' (sum_LatestAt sm) @ [CHR 0x22] @ ''>'' @ NL @
                      sum_Content sm @ NL @ ''</conversation_summary>''), sum_Tokens sm)))"

fun resolveAllItems ::
  "'m msg_lib \<Rightarrow> time_format \<Rightarrow> msg_db \<Rightarrow> ContextItem list \<Rightarrow> db_error + 'm resolvedItem list" where
  "resolveAllItems lib fmt db [] = Inr []"
| "resolveAllItems lib fmt db (item # items) =
     (case resolveItem lib fmt db item of
        Inl e \<Rightarrow> Inl e
      | Inr (m, tokens) \<Rightarrow>
          (case resolveAllItems lib fmt db items of
             Inl e \<Rightarrow> Inl e
           | Inr rest \<Rightarrow> Inr (\<lparr>ri_msg = m, ri_tokens = tokens\<rparr> # rest)))"

abbreviation total_tokens :: "'m resolvedItem list \<Rightarrow> int" where
  "total_tokens rs \<equiv> sum_list (map ri_tokens rs)"

fun drop_over :: "int \<Rightarrow> int \<Rightarrow> 'm resolvedItem list \<Rightarrow> 'm resolvedItem list \<times> int" where
  "drop_over maxTail tailTokens (r # r' # rest) =
     (if tailTokens > maxTail then drop_over maxTail (tailTokens - ri_tokens r) (r' # rest)
      else (r # r' # rest, tailTokens))"
| "drop_over maxTail tailTokens rs = (rs, tailTokens)"

definition capFreshTail ::
  "'m resolvedItem list \<Rightarrow> 'm resolvedItem list \<Rightarrow> 'm resolvedItem list \<Rightarrow> CompactionConfig \<Rightarrow>
   'm resolvedItem list \<times> 'm resolvedItem list \<times> int" where
  "capFreshTail freshTail evictable all cfg =
     (let tailTokens = total_tokens freshTail;
          maxTailTokens = godiv (cfg_TokenBudget cfg * maxTailBudgetPercent) percentDivisor
      in if tailTokens > maxTailTokens
         then let (tail', tokens') = drop_over maxTailTokens tailTokens freshTail
              in (tail', take (length all - length tail') all, tokens')
         else (freshTail, evictable, tailTokens))"

fun fill_newest :: "'m resolvedItem list \<Rightarrow> int \<Rightarrow> 'm resolvedItem list" where
  "fill_newest [] remaining = []"
| "fill_newest (r # rest) remaining =
     (if remaining \<le> 0 \<or> ri_tokens r > remaining then []
      else r # fill_newest rest (remaining - ri_tokens r))"

definition fillBudget :: "'m resolvedItem list \<Rightarrow> int \<Rightarrow> 'm resolvedItem list" where
  "fillBudget evictable remaining = rev (fill_newest (rev evictable) remaining)"

definition assembleMessages ::
  "'m resolvedItem list \<Rightarrow> 'm resolvedItem list \<Rightarrow> 'm AssembleResult" where
  "assembleMessages kept freshTail =
     \<lparr>ar_Messages = map ri_msg (kept @ freshTail), ar_EstimatedTokens = total_tokens (kept @ freshTail)\<rparr>"

text \<open>A negative tail count would slice out of range; the configurations have at least 20.\<close>

definition assemble_items :: "'m resolvedItem list \<Rightarrow> CompactionConfig \<Rightarrow> 'm AssembleResult" where
  "assemble_items all cfg =
     (let tailStart = nat (max 0 (int (length all) - cfg_FreshTailCount cfg));
          (freshTail, evictable, tailTokens) =
             capFreshTail (drop tailStart all) (take tailStart all) all cfg
      in assembleMessages (fillBudget evictable (cfg_TokenBudget cfg - tailTokens)) freshTail)"

definition Assemble ::
  "'m msg_lib \<Rightarrow> time_format \<Rightarrow> msg_db \<Rightarrow> string \<Rightarrow> CompactionConfig \<Rightarrow> db_error + 'm AssembleResult" where
  "Assemble lib fmt db sessionID cfg =
     (let items = GetContextItems db sessionID
      in if items = [] then Inr \<lparr>ar_Messages = [], ar_EstimatedTokens = 0\<rparr>
         else case resolveAllItems lib fmt db items of
                Inl e \<Rightarrow> Inl e
              | Inr all \<Rightarrow> Inr (assemble_items all cfg))"

section \<open>The budget\<close>

lemma drop_over_spec:
  assumes "\<forall>r \<in> set rs. 0 \<le> ri_tokens r" "t = total_tokens rs" "drop_over m t rs = (rs', t')"
  shows "suffix rs' rs" "t' = total_tokens rs'" "t' \<le> m \<or> length rs' \<le> 1" "rs \<noteq> [] \<longrightarrow> rs' \<noteq> []"
  using assms
proof (induction m t rs rule: drop_over.induct)
  case (1 m t r r' rest)
  { case 1 with "1.IH" show ?case by (auto split: if_splits intro: suffix_ConsI) }
  { case 2 with "1.IH" show ?case by (auto split: if_splits) }
  { case 3 with "1.IH" show ?case by (auto split: if_splits) }
  { case 4 with "1.IH" show ?case by (auto split: if_splits) }
qed auto

lemma fill_newest_prefix: "prefix (fill_newest rs remaining) rs"
  by (induction rs remaining rule: fill_newest.induct) auto

lemma fill_newest_tokens:
  "\<forall>r \<in> set rs. 0 \<le> ri_tokens r \<Longrightarrow> 0 \<le> remaining \<Longrightarrow> total_tokens (fill_newest rs remaining) \<le> remaining"
  by (induction rs remaining rule: fill_newest.induct) auto

lemma fill_newest_none: "remaining \<le> 0 \<Longrightarrow> fill_newest rs remaining = []"
  by (cases rs) auto

lemma fillBudget_suffix: "suffix (fillBudget rs remaining) rs"
  using fill_newest_prefix [of "rev rs" remaining] by (simp add: fillBudget_def suffix_to_prefix)

lemma fillBudget_tokens:
  assumes "\<forall>r \<in> set rs. 0 \<le> ri_tokens r" "0 \<le> remaining"
  shows "total_tokens (fillBudget rs remaining) \<le> remaining"
  using fill_newest_tokens [of "rev rs" remaining] assms
  by (simp add: fillBudget_def flip: rev_map)

lemma capFreshTail_split:
  assumes "\<forall>r \<in> set all. 0 \<le> ri_tokens r" "k \<le> length all"
    "capFreshTail (drop k all) (take k all) all cfg = (tail, evict, tokens)"
  shows "all = evict @ tail" "tokens = total_tokens tail"
    "tokens \<le> godiv (cfg_TokenBudget cfg * maxTailBudgetPercent) percentDivisor \<or> length tail \<le> 1"
    "k < length all \<Longrightarrow> tail \<noteq> []"
proof -
  let ?m = "godiv (cfg_TokenBudget cfg * maxTailBudgetPercent) percentDivisor"
  have "all = evict @ tail \<and> tokens = total_tokens tail \<and> (tokens \<le> ?m \<or> length tail \<le> 1) \<and>
      (k < length all \<longrightarrow> tail \<noteq> [])"
  proof (cases "total_tokens (drop k all) > ?m")
    case True
    obtain tail' tokens' where d: "drop_over ?m (total_tokens (drop k all)) (drop k all) = (tail', tokens')"
      by fastforce
    have nn: "\<forall>r \<in> set (drop k all). 0 \<le> ri_tokens r" using assms(1) by (meson in_set_dropD)
    note sp = drop_over_spec [OF nn refl d]
    have "suffix tail' all" using sp(1) suffix_drop suffix_order.trans by blast
    then obtain zs where "all = zs @ tail'" by (auto simp: suffix_def)
    moreover have "tail = tail'" "evict = take (length all - length tail') all" "tokens = tokens'"
      using assms(3) True d by (auto simp: capFreshTail_def Let_def)
    ultimately show ?thesis using sp(2-4) by auto
  next
    case False
    with assms(3) have "tail = drop k all" "evict = take k all" "tokens = total_tokens (drop k all)"
      by (auto simp: capFreshTail_def Let_def)
    with False show ?thesis by auto
  qed
  then show "all = evict @ tail" "tokens = total_tokens tail"
    "tokens \<le> ?m \<or> length tail \<le> 1" "k < length all \<Longrightarrow> tail \<noteq> []" by auto
qed

lemma assemble_items_spec:
  assumes "\<forall>r \<in> set all. 0 \<le> ri_tokens r" "0 \<le> cfg_TokenBudget cfg" "1 \<le> cfg_FreshTailCount cfg"
  shows "\<exists>n. ar_Messages (assemble_items all cfg) = map ri_msg (drop n all) \<and>
     ar_EstimatedTokens (assemble_items all cfg) = total_tokens (drop n all) \<and>
     (total_tokens (drop n all) \<le> cfg_TokenBudget cfg \<or> length (drop n all) \<le> 1) \<and>
     (all \<noteq> [] \<longrightarrow> n < length all)"
proof -
  let ?k = "nat (max 0 (int (length all) - cfg_FreshTailCount cfg))"
  obtain tail evict tokens where cap: "capFreshTail (drop ?k all) (take ?k all) all cfg = (tail, evict, tokens)"
    by (metis prod_cases3)
  have k: "?k \<le> length all" using assms(3) by auto
  have k2: "?k < length all" if "all \<noteq> []"
  proof -
    have "0 < int (length all)" using that by simp
    with assms(3) show ?thesis by linarith
  qed
  note sp = capFreshTail_split [OF assms(1) k cap]
  let ?kept = "fillBudget evict (cfg_TokenBudget cfg - tokens)"
  obtain zs where ev: "evict = zs @ ?kept" using fillBudget_suffix by (auto simp: suffix_def)
  then have sel: "drop (length zs) all = ?kept @ tail" using sp(1) by (metis append.assoc append_eq_conv_conj)
  have res: "ar_Messages (assemble_items all cfg) = map ri_msg (?kept @ tail)"
    "ar_EstimatedTokens (assemble_items all cfg) = total_tokens (?kept @ tail)"
    by (simp_all add: assemble_items_def Let_def cap assembleMessages_def)
  have "total_tokens (?kept @ tail) \<le> cfg_TokenBudget cfg \<or> length (?kept @ tail) \<le> 1"
  proof (cases "tokens \<le> cfg_TokenBudget cfg")
    case True
    have "\<forall>r \<in> set evict. 0 \<le> ri_tokens r" using assms(1) sp(1) by auto
    then have "total_tokens ?kept \<le> cfg_TokenBudget cfg - tokens"
      using True by (intro fillBudget_tokens) auto
    then show ?thesis by (simp add: sp(2))
  next
    case False
    have "cfg_TokenBudget cfg * maxTailBudgetPercent div percentDivisor \<le> cfg_TokenBudget cfg"
      using assms(2) by linarith
    with False sp(3) assms(2) have "length tail \<le> 1" by simp
    moreover have "?kept = []" using False by (simp add: fillBudget_def fill_newest_none)
    ultimately show ?thesis by simp
  qed
  moreover have "all \<noteq> [] \<longrightarrow> length zs < length all"
    using sp(1,4) k2 ev by (metis append.right_neutral append_eq_conv_conj length_append less_add_eq_less
        linorder_not_le take_all sel drop_all append_is_Nil_conv)
  ultimately show ?thesis using sel res by metis
qed

lemma resolve_ok:
  assumes "session_ok db sid" "ci \<in> set (session_items db sid)"
  shows "\<exists>m t. resolveItem lib fmt db ci = Inr (m, t)"
proof (cases "ci_Ref ci")
  case (ItemMessage mid)
  from item_message_exists [OF assms ItemMessage] obtain m where "GetMessage db mid = Inr m"
    by (auto simp: item_message_def GetMessage_def ItemMessage)
  with ItemMessage show ?thesis by (simp add: resolveItem_def split: option.split)
next
  case (ItemSummary n)
  with assms have "summary_lookup db n \<noteq> None" by (auto simp: session_ok_def refers_to_def)
  with ItemSummary show ?thesis by (auto simp: resolveItem_def GetSummary_def)
qed

lemma resolve_tokens_nonneg:
  assumes "\<forall>m \<in> set (db_messages db). 0 \<le> msg_Tokens m" "\<forall>s \<in> set (db_summaries db). 0 \<le> sum_Tokens s"
    "resolveItem lib fmt db ci = Inr (m, t)"
  shows "0 \<le> t"
  using assms
  by (auto simp: resolveItem_def GetMessage_def GetSummary_def summary_lookup_def find_Some_iff
      split: item_ref.splits option.splits)

definition resolved :: "'m msg_lib \<Rightarrow> time_format \<Rightarrow> msg_db \<Rightarrow> ContextItem \<Rightarrow> 'm \<times> int" where
  "resolved lib fmt db ci = projr (resolveItem lib fmt db ci)"

lemma resolveAllItems_ok:
  assumes "\<forall>ci \<in> set items. \<exists>m t. resolveItem lib fmt db ci = Inr (m, t)"
  shows "resolveAllItems lib fmt db items =
    Inr (map (\<lambda>ci. \<lparr>ri_msg = fst (resolved lib fmt db ci), ri_tokens = snd (resolved lib fmt db ci)\<rparr>) items)"
  using assms by (induction items) (auto simp: resolved_def)


definition example_lib :: "string msg_lib" where
  "example_lib = \<lparr>lib_unmarshal = (\<lambda>_. None), lib_text = (\<lambda>role content. content),
     lib_user = (\<lambda>s. s), lib_quote = (\<lambda>s. s)\<rparr>"


end
