(* ===== verification/Keyed_Store.thy ===== *)
theory Keyed_Store
  imports Hiro_Prelude
begin

text \<open>
  The interface through which the registries of the program use a map: lookup, insertion and
  deletion with their laws.  The lemmas about updating an entry in place, deleting it again and
  counting are proved once from the laws; Go maps provide the interface.
\<close>

locale keyed_store =
  fixes get :: "'m \<Rightarrow> 'k \<Rightarrow> 'v option"
    and put :: "'k \<Rightarrow> 'v \<Rightarrow> 'm \<Rightarrow> 'm"
    and del :: "'k \<Rightarrow> 'm \<Rightarrow> 'm"
    and ok :: "'m \<Rightarrow> bool"
  assumes get_put: "get (put k v m) k' = (if k' = k then Some v else get m k')"
    and get_del: "get (del k m) k' = (if k' = k then None else get m k')"
    and ok_put: "ok m \<Longrightarrow> ok (put k v m)"
    and ok_del: "ok m \<Longrightarrow> ok (del k m)"
begin

lemma get_modify:
  "get (case get m k of None \<Rightarrow> m | Some v \<Rightarrow> put k (f v) m) k' =
     (if k' = k then map_option f (get m k) else get m k')"
  by (simp add: get_put split: option.split)

lemma ok_modify: "ok m \<Longrightarrow> ok (case get m k of None \<Rightarrow> m | Some v \<Rightarrow> put k (f v) m)"
  by (simp add: ok_put split: option.split)

lemma all_put:
  assumes "\<forall>k v. get m k = Some v \<longrightarrow> P k v" "P k v"
  shows "\<forall>k' v'. get (put k v m) k' = Some v' \<longrightarrow> P k' v'"
  using assms by (auto simp: get_put)

lemma all_del:
  assumes "\<forall>k v. get m k = Some v \<longrightarrow> P k v"
  shows "\<forall>k' v'. get (del k m) k' = Some v' \<longrightarrow> P k' v'"
  using assms by (auto simp: get_del)

lemma all_modify:
  assumes "\<forall>k v. get m k = Some v \<longrightarrow> P k v" "\<And>v. get m k = Some v \<Longrightarrow> P k (f v)"
  shows "\<forall>k' v'. get (case get m k of None \<Rightarrow> m | Some v \<Rightarrow> put k (f v) m) k' = Some v' \<longrightarrow> P k' v'"
  using assms by (auto simp: get_put split: option.split)

lemma del_put_get: "get m k = None \<Longrightarrow> get (del k (put k v m)) = get m"
  by (auto simp: get_put get_del fun_eq_iff)

end

interpretation gomap: keyed_store gomap_get gomap_put gomap_del gomap_ok
  by unfold_locales simp_all

text \<open>A counted store also says how many entries it has; a bound on the size is then an
  invariant of a client that inserts only below the bound.\<close>

locale counted_store = keyed_store +
  fixes count :: "'a \<Rightarrow> nat"
  assumes count_put_old: "ok m \<Longrightarrow> get m k \<noteq> None \<Longrightarrow> count (put k v m) = count m"
    and count_put_new: "ok m \<Longrightarrow> get m k = None \<Longrightarrow> count (put k v m) = Suc (count m)"
    and count_del: "ok m \<Longrightarrow> count (del k m) \<le> count m"
begin

lemma count_modify:
  "ok m \<Longrightarrow> count (case get m k of None \<Rightarrow> m | Some v \<Rightarrow> put k (f v) m) = count m"
  by (simp add: count_put_old split: option.split)

lemma count_bounded_put:
  assumes "ok m" "count m \<le> bound" "get m k = None \<Longrightarrow> count m < bound"
  shows "count (put k v m) \<le> bound"
  using assms by (cases "get m k = None") (simp_all add: count_put_old count_put_new)

end

interpretation gomap: counted_store gomap_get gomap_put gomap_del gomap_ok length
  by unfold_locales (simp_all add: length_gomap_put length_gomap_del_le)

text \<open>Iterating over a Go map and deleting some of its entries leaves the filtered map.\<close>

lemma gomap_filter_get:
  "gomap_ok m \<Longrightarrow> gomap_get (filter (\<lambda>(k, v). P v) m) k =
     (case gomap_get m k of Some v \<Rightarrow> if P v then Some v else None | None \<Rightarrow> None)"
  by (simp add: gomap_get_filter split: option.split)

text \<open>Building a map from a list of values with distinct keys.\<close>

lemma gomap_from_list:
  assumes "distinct (map key xs)"
  shows "gomap_get (fold (\<lambda>x. gomap_put (key x) x) xs m) k =
    (case find (\<lambda>x. key x = k) xs of Some x \<Rightarrow> Some x | None \<Rightarrow> gomap_get m k)"
  using assms
proof (induction xs arbitrary: m)
  case (Cons x xs)
  have "find (\<lambda>y. key y = k) xs = None" if "key x = k"
    using Cons.prems that by (force simp: find_None_iff image_iff)
  with Cons show ?case by (auto split: option.split)
qed simp

lemma gomap_ok_from_list: "gomap_ok m \<Longrightarrow> gomap_ok (fold (\<lambda>x. gomap_put (key x) x) xs m)"
  by (induction xs arbitrary: m) simp_all

text \<open>A map whose values know their keys is restored from the list of its values.\<close>

lemma gomap_reload:
  assumes "gomap_ok m" "\<forall>k v. gomap_get m k = Some v \<longrightarrow> key v = k"
  shows "gomap_get (fold (\<lambda>x. gomap_put (key x) x) (map snd m) []) k = gomap_get m k"
proof -
  have keys: "map key (map snd m) = map fst m"
    using assms by (auto simp flip: gomap_get_mem)
  have "find (\<lambda>x. key x = k) (map snd m) = gomap_get m k"
    using keys by (induction m) (auto simp: gomap_get_def)
  moreover have "distinct (map key (map snd m))" using assms(1) unfolding keys gomap_ok_def .
  ultimately show ?thesis
    using gomap_from_list [of key "map snd m" "[]" k] by (cases "gomap_get m k") simp_all
qed

end
