(* ===== verification/Cluster_Registry.thy ===== *)
theory Cluster_Registry
  imports Keyed_Store "HOL-Library.Multiset"
begin

text \<open>
  The node registry and the registry of nodes that wait for approval,
  \<open>src/internal/cluster/registry.go\<close> and \<open>src/internal/cluster/pending.go\<close>.  Each method runs
  under the mutex of its registry, so a method is one atomic function on the state.  The pending
  registry persists to a file: its content is part of the state, encoding and decoding of YAML are
  arguments, the document they work on is a value of type \<open>'d\<close>, and a failing write is
  the argument \<open>writable\<close>.
\<close>

section \<open>Node registry\<close>

datatype NodeStatus = NodeOnline | NodeOffline

definition HomeNodeID :: string where "HomeNodeID = ''home''"

record NodeInfo =
  ni_ID :: string
  ni_Name :: string
  ni_Status :: NodeStatus
  ni_IsHome :: bool
  ni_Addr :: string
  ni_Via :: string
  ni_ConnectedAt :: gotime
  ni_LastSeen :: gotime
  ni_Capacity :: int
  ni_ActiveCount :: int

type_synonym NodeRegistry = "(string, NodeInfo) gomap"

definition NewNodeRegistry :: NodeRegistry where
  "NewNodeRegistry = []"

definition RegisterHome :: "gotime \<Rightarrow> string \<Rightarrow> NodeRegistry \<Rightarrow> NodeRegistry" where
  "RegisterHome now name nodes =
     gomap_put HomeNodeID
       \<lparr>ni_ID = HomeNodeID, ni_Name = name, ni_Status = NodeOnline, ni_IsHome = True, ni_Addr = [],
        ni_Via = [], ni_ConnectedAt = now, ni_LastSeen = now, ni_Capacity = 0, ni_ActiveCount = 0\<rparr> nodes"

text \<open>The error is the missing value: the reserved identifier of the home node.\<close>

definition Register ::
  "gotime \<Rightarrow> string \<Rightarrow> string \<Rightarrow> int \<Rightarrow> string \<Rightarrow> string \<Rightarrow> NodeRegistry \<Rightarrow> NodeRegistry option" where
  "Register now nid name capacity addr via nodes =
     (if nid = HomeNodeID then None
      else Some (gomap_put nid
        \<lparr>ni_ID = nid, ni_Name = name, ni_Status = NodeOnline, ni_IsHome = False, ni_Addr = addr,
         ni_Via = via, ni_ConnectedAt = now, ni_LastSeen = now, ni_Capacity = capacity,
         ni_ActiveCount = 0\<rparr> nodes))"

definition Unregister :: "string \<Rightarrow> NodeRegistry \<Rightarrow> NodeRegistry" where
  "Unregister nid nodes = gomap_del nid nodes"

definition ClearRemote :: "NodeRegistry \<Rightarrow> NodeRegistry" where
  "ClearRemote nodes = filter (\<lambda>(nid, n). ni_IsHome n) nodes"

definition SetOffline :: "string \<Rightarrow> NodeRegistry \<Rightarrow> NodeRegistry" where
  "SetOffline nid nodes =
     (case gomap_get nodes nid of None \<Rightarrow> nodes
      | Some n \<Rightarrow> gomap_put nid (n\<lparr>ni_Status := NodeOffline\<rparr>) nodes)"

definition Touch :: "gotime \<Rightarrow> string \<Rightarrow> NodeRegistry \<Rightarrow> NodeRegistry" where
  "Touch now nid nodes =
     (case gomap_get nodes nid of None \<Rightarrow> nodes
      | Some n \<Rightarrow> gomap_put nid (n\<lparr>ni_LastSeen := now\<rparr>) nodes)"

definition Registry_Get :: "string \<Rightarrow> NodeRegistry \<Rightarrow> NodeInfo option" where
  "Registry_Get nid nodes = gomap_get nodes nid"

definition Registry_List :: "NodeRegistry \<Rightarrow> NodeInfo list" where
  "Registry_List nodes =
     (case gomap_get nodes HomeNodeID of None \<Rightarrow> [] | Some home \<Rightarrow> [home]) @
     map snd (filter (\<lambda>(nid, n). nid \<noteq> HomeNodeID) nodes)"

definition OnlineNodes :: "NodeRegistry \<Rightarrow> NodeInfo list" where
  "OnlineNodes nodes = map snd (filter (\<lambda>(nid, n). ni_Status n = NodeOnline) nodes)"

definition IncrementActive :: "string \<Rightarrow> NodeRegistry \<Rightarrow> NodeRegistry" where
  "IncrementActive nid nodes =
     (case gomap_get nodes nid of None \<Rightarrow> nodes
      | Some n \<Rightarrow> gomap_put nid (n\<lparr>ni_ActiveCount := ni_ActiveCount n + 1\<rparr>) nodes)"

definition DecrementActive :: "string \<Rightarrow> NodeRegistry \<Rightarrow> NodeRegistry" where
  "DecrementActive nid nodes =
     (case gomap_get nodes nid of None \<Rightarrow> nodes
      | Some n \<Rightarrow> gomap_put nid
          (if ni_ActiveCount n > 0 then n\<lparr>ni_ActiveCount := ni_ActiveCount n - 1\<rparr> else n) nodes)"

definition Registry_Len :: "NodeRegistry \<Rightarrow> nat" where
  "Registry_Len nodes = length nodes"

section \<open>Nodes that wait for approval\<close>

record PendingNode =
  pn_NodeID :: string
  pn_Name :: string
  pn_Addr :: string
  pn_FirstSeen :: gotime
  pn_LastSeen :: gotime

record 'd PendingRegistry =
  pr_nodes :: "(string, PendingNode) gomap"
  pr_file :: "'d option"

type_synonym 'd node_encoder = "PendingNode list \<Rightarrow> 'd option"
type_synonym 'd node_decoder = "'d \<Rightarrow> PendingNode list option"

definition NewPendingRegistry :: "'d option \<Rightarrow> 'd PendingRegistry" where
  "NewPendingRegistry disk = \<lparr>pr_nodes = [], pr_file = disk\<rparr>"

text \<open>A file that does not exist is no error; one that does not decode is.\<close>

definition Pending_Load :: "'d node_decoder \<Rightarrow> 'd PendingRegistry \<Rightarrow> 'd PendingRegistry option" where
  "Pending_Load unmarshal r =
     (case pr_file r of
        None \<Rightarrow> Some r
      | Some data \<Rightarrow>
          (case unmarshal data of
             None \<Rightarrow> None
           | Some nodes \<Rightarrow>
               Some (r\<lparr>pr_nodes := fold (\<lambda>n. gomap_put (pn_NodeID n) n) nodes []\<rparr>)))"

definition maxPendingNodes :: nat where "maxPendingNodes = 256"

definition saveLocked :: "'d node_encoder \<Rightarrow> bool \<Rightarrow> 'd PendingRegistry \<Rightarrow> 'd PendingRegistry" where
  "saveLocked marshal writable r =
     (case marshal (map snd (pr_nodes r)) of
        None \<Rightarrow> r
      | Some data \<Rightarrow> if writable then r\<lparr>pr_file := Some data\<rparr> else r)"

definition AddOrUpdate ::
  "'d node_encoder \<Rightarrow> bool \<Rightarrow> gotime \<Rightarrow> PendingNode \<Rightarrow> 'd PendingRegistry \<Rightarrow> (bool \<times> bool) \<times> 'd PendingRegistry" where
  "AddOrUpdate marshal writable now node r =
     (case gomap_get (pr_nodes r) (pn_NodeID node) of
        Some existing \<Rightarrow>
          ((True, False), saveLocked marshal writable (r\<lparr>pr_nodes := gomap_put (pn_NodeID node)
             (existing\<lparr>pn_LastSeen := now, pn_Name := pn_Name node, pn_Addr := pn_Addr node\<rparr>)
             (pr_nodes r)\<rparr>))
      | None \<Rightarrow>
          if length (pr_nodes r) \<ge> maxPendingNodes then ((False, False), r)
          else ((True, True), saveLocked marshal writable (r\<lparr>pr_nodes := gomap_put (pn_NodeID node)
                 (node\<lparr>pn_FirstSeen := now, pn_LastSeen := now\<rparr>) (pr_nodes r)\<rparr>)))"

definition Pending_Remove :: "'d node_encoder \<Rightarrow> bool \<Rightarrow> string \<Rightarrow> 'd PendingRegistry \<Rightarrow> 'd PendingRegistry" where
  "Pending_Remove marshal writable nodeID r =
     (if gomap_get (pr_nodes r) nodeID \<noteq> None
      then saveLocked marshal writable (r\<lparr>pr_nodes := gomap_del nodeID (pr_nodes r)\<rparr>)
      else r)"

definition Pending_List :: "'d PendingRegistry \<Rightarrow> PendingNode list" where
  "Pending_List r = sort_key pn_FirstSeen (map snd (pr_nodes r))"

definition Pending_Get :: "string \<Rightarrow> 'd PendingRegistry \<Rightarrow> PendingNode option" where
  "Pending_Get nodeID r = gomap_get (pr_nodes r) nodeID"

definition Pending_Count :: "'d PendingRegistry \<Rightarrow> nat" where
  "Pending_Count r = length (pr_nodes r)"

definition Pending_Clear :: "'d PendingRegistry \<Rightarrow> 'd PendingRegistry" where
  "Pending_Clear r = r\<lparr>pr_nodes := [], pr_file := None\<rparr>"

section \<open>Operations as data\<close>

text \<open>A call of a method that changes the node registry.\<close>

datatype registry_op =
    OpRegisterHome gotime string
  | OpRegister gotime string string int string string
  | OpUnregister string
  | OpClearRemote
  | OpSetOffline string
  | OpTouch gotime string
  | OpIncrement string
  | OpDecrement string

fun registry_step :: "registry_op \<Rightarrow> NodeRegistry \<Rightarrow> NodeRegistry" where
  "registry_step (OpRegisterHome now name) r = RegisterHome now name r"
| "registry_step (OpRegister now nid name cap addr via) r =
     (case Register now nid name cap addr via r of None \<Rightarrow> r | Some r' \<Rightarrow> r')"
| "registry_step (OpUnregister nid) r = Unregister nid r"
| "registry_step OpClearRemote r = ClearRemote r"
| "registry_step (OpSetOffline nid) r = SetOffline nid r"
| "registry_step (OpTouch now nid) r = Touch now nid r"
| "registry_step (OpIncrement nid) r = IncrementActive nid r"
| "registry_step (OpDecrement nid) r = DecrementActive nid r"

definition node_ok :: "string \<Rightarrow> NodeInfo \<Rightarrow> bool" where
  "node_ok nid n \<longleftrightarrow> ni_ID n = nid \<and> (ni_IsHome n \<longleftrightarrow> nid = HomeNodeID) \<and> 0 \<le> ni_ActiveCount n"

definition registry_ok :: "NodeRegistry \<Rightarrow> bool" where
  "registry_ok r \<longleftrightarrow> gomap_ok r \<and> (\<forall>nid n. gomap_get r nid = Some n \<longrightarrow> node_ok nid n)"

lemma registry_ok_new: "registry_ok NewNodeRegistry"
  by (simp add: registry_ok_def NewNodeRegistry_def)

lemma registry_ok_put: "registry_ok r \<Longrightarrow> node_ok nid n \<Longrightarrow> registry_ok (gomap_put nid n r)"
  unfolding registry_ok_def using gomap.all_put [of r node_ok] by simp

lemma registry_ok_del: "registry_ok r \<Longrightarrow> registry_ok (gomap_del nid r)"
  unfolding registry_ok_def using gomap.all_del [of r node_ok] by simp

lemma registry_ok_modify:
  assumes "registry_ok r" "\<And>n. node_ok nid n \<Longrightarrow> node_ok nid (f n)"
  shows "registry_ok (case gomap_get r nid of None \<Rightarrow> r | Some n \<Rightarrow> gomap_put nid (f n) r)"
  using assms gomap.all_modify [of r node_ok nid f] gomap.ok_modify [of r nid f]
  unfolding registry_ok_def by blast

lemma registry_step_ok: "registry_ok r \<Longrightarrow> registry_ok (registry_step op r)"
proof (cases op)
  case (OpRegister now nid name cap addr via)
  assume "registry_ok r"
  then show ?thesis
    by (simp add: OpRegister Register_def registry_ok_put node_ok_def)
next
  case OpClearRemote
  assume "registry_ok r"
  then show ?thesis
    by (auto simp: OpClearRemote ClearRemote_def registry_ok_def gomap_get_filter
        split: option.splits if_splits)
qed (auto simp: RegisterHome_def Unregister_def SetOffline_def Touch_def IncrementActive_def
    DecrementActive_def node_ok_def intro!: registry_ok_put registry_ok_del registry_ok_modify)

lemma registry_reachable_ok: "registry_ok (fold registry_step ops NewNodeRegistry)"
proof -
  have "registry_ok r \<Longrightarrow> registry_ok (fold registry_step ops r)" for r
    by (induction ops arbitrary: r) (simp_all add: registry_step_ok)
  then show ?thesis by (simp add: registry_ok_new)
qed

lemma mset_filter_key:
  assumes "gomap_ok m"
  shows "mset (map snd m) = (case gomap_get m k of None \<Rightarrow> {#} | Some v \<Rightarrow> {#v#}) +
    mset (map snd (filter (\<lambda>(k', v). k' \<noteq> k) m))"
  using assms
proof (induction m)
  case (Cons e m)
  obtain k' v where e: "e = (k', v)" by fastforce
  have "filter (\<lambda>(k'', v). k'' \<noteq> k) m = m" if "k' = k"
    using Cons.prems that e by (force simp: gomap_ok_def filter_id_conv)
  moreover have "gomap_get m k = None" if "k' = k"
    using Cons.prems that e by (simp add: gomap_ok_def gomap_get_None)
  ultimately show ?case
    using Cons e by (auto simp: gomap_ok_def gomap_get_def split: option.splits)
qed simp

text \<open>
  Whatever the order in which nodes register, disconnect, are cleared and change their
  counters: every node is stored under its own identifier, exactly the entry of the home node is
  marked as home and its identifier cannot be taken by a remote node, no active count is negative,
  the list shows every node once with the home node first, and clearing the remote nodes leaves
  exactly the home node.
\<close>

theorem registry_reachable:
  fixes ops :: "registry_op list"
  defines "r \<equiv> fold registry_step ops NewNodeRegistry"
  shows "registry_ok r \<and> mset (Registry_List r) = mset (map snd r) \<and>
    Registry_List (ClearRemote r) = (case Registry_Get HomeNodeID r of None \<Rightarrow> [] | Some home \<Rightarrow> [home]) \<and>
    Register now HomeNodeID name cap addr via r = None"
proof -
  have ok: "registry_ok r" unfolding r_def by (rule registry_reachable_ok)
  then have "gomap_ok r" by (simp add: registry_ok_def)
  then have "mset (Registry_List r) = mset (map snd r)"
    using mset_filter_key [of r HomeNodeID] by (simp add: Registry_List_def split: option.split)
  moreover have "Registry_List (ClearRemote r) =
      (case Registry_Get HomeNodeID r of None \<Rightarrow> [] | Some home \<Rightarrow> [home])"
  proof -
    have flag: "ni_IsHome n \<longleftrightarrow> nid = HomeNodeID" if "(nid, n) \<in> set r" for nid n
      using ok that gomap_get_mem [of r nid n] by (simp add: registry_ok_def node_ok_def)
    then have "filter (\<lambda>(nid, n). nid \<noteq> HomeNodeID) (ClearRemote r) = []"
      by (auto simp: ClearRemote_def filter_empty_conv)
    moreover have "gomap_get (ClearRemote r) HomeNodeID = gomap_get r HomeNodeID"
      using ok by (auto simp: ClearRemote_def gomap_get_filter registry_ok_def node_ok_def split: option.split)
    ultimately show ?thesis by (simp add: Registry_List_def Registry_Get_def)
  qed
  ultimately show ?thesis using ok by (simp add: Register_def)
qed

section \<open>Pending registry: bound and persistence\<close>

datatype pending_op = OpAdd gotime PendingNode | OpRemove string | OpClear

fun pending_step :: "'d node_encoder \<Rightarrow> bool \<Rightarrow> pending_op \<Rightarrow> 'd PendingRegistry \<Rightarrow> 'd PendingRegistry" where
  "pending_step enc writable (OpAdd now node) r = snd (AddOrUpdate enc writable now node r)"
| "pending_step enc writable (OpRemove nid) r = Pending_Remove enc writable nid r"
| "pending_step enc writable OpClear r = Pending_Clear r"

definition pending_ok :: "'d PendingRegistry \<Rightarrow> bool" where
  "pending_ok r \<longleftrightarrow> gomap_ok (pr_nodes r) \<and> length (pr_nodes r) \<le> maxPendingNodes \<and>
     (\<forall>nid n. gomap_get (pr_nodes r) nid = Some n \<longrightarrow> pn_NodeID n = nid)"

lemma saveLocked_nodes [simp]: "pr_nodes (saveLocked enc w r) = pr_nodes r"
  by (simp add: saveLocked_def split: option.split)

lemma pending_ok_nodes: "pr_nodes r' = pr_nodes r \<Longrightarrow> pending_ok r' = pending_ok r"
  by (simp add: pending_ok_def)

lemma pending_step_ok:
  assumes "pending_ok r"
  shows "pending_ok (pending_step enc writable op r)"
proof (cases op)
  case (OpAdd now node)
  show ?thesis
  proof (cases "gomap_get (pr_nodes r) (pn_NodeID node)")
    case None
    then show ?thesis
      using assms gomap.count_bounded_put [of "pr_nodes r" maxPendingNodes "pn_NodeID node"]
      by (auto simp: OpAdd AddOrUpdate_def pending_ok_def)
  next
    case (Some e)
    then show ?thesis
      using assms gomap.count_put_old [of "pr_nodes r" "pn_NodeID node"]
      by (auto simp: OpAdd AddOrUpdate_def pending_ok_def)
  qed
next
  case (OpRemove nid)
  then show ?thesis
    using assms gomap.count_del [of "pr_nodes r" nid]
    by (auto simp: Pending_Remove_def pending_ok_def)
next
  case OpClear
  then show ?thesis by (simp add: Pending_Clear_def pending_ok_def)
qed

lemma pending_reachable_ok: "pending_ok r \<Longrightarrow> pending_ok (fold (pending_step enc w) ops r)"
  by (induction ops arbitrary: r) (simp_all add: pending_step_ok)

text \<open>
  The registry of unapproved nodes never holds more than 256 entries, whatever connection
  attempts arrive: a new node beyond the bound is refused and changes nothing, while a known node
  is always accepted again.
\<close>

theorem pending_bounded:
  fixes ops :: "pending_op list" and enc :: "'d node_encoder" and writable :: bool and disk :: "'d option"
  defines "r \<equiv> fold (pending_step enc writable) ops (NewPendingRegistry disk)"
  shows "Pending_Count r \<le> 256 \<and>
    fst (AddOrUpdate enc writable now node r) =
      (if Pending_Get (pn_NodeID node) r \<noteq> None then (True, False)
       else if Pending_Count r = 256 then (False, False) else (True, True)) \<and>
    (fst (AddOrUpdate enc writable now node r) = (False, False) \<longleftrightarrow>
     Pending_Get (pn_NodeID node) (snd (AddOrUpdate enc writable now node r)) = None)"
proof -
  have "pending_ok (NewPendingRegistry disk)" by (simp add: pending_ok_def NewPendingRegistry_def)
  then have "pending_ok r" unfolding r_def by (rule pending_reachable_ok)
  then show ?thesis
    by (auto simp: pending_ok_def Pending_Count_def Pending_Get_def AddOrUpdate_def maxPendingNodes_def
        split: option.splits)
qed

definition persisted :: "'d node_encoder \<Rightarrow> 'd PendingRegistry \<Rightarrow> bool" where
  "persisted enc r \<longleftrightarrow> pr_file r = enc (map snd (pr_nodes r)) \<or> pr_file r = None \<and> pr_nodes r = []"

lemma saveLocked_persisted:
  "enc (map snd (pr_nodes r)) \<noteq> None \<Longrightarrow> persisted enc (saveLocked enc True r)"
  by (auto simp: persisted_def saveLocked_def)

lemma pending_step_persisted:
  assumes "\<And>ns. enc ns \<noteq> None" "persisted enc r"
  shows "persisted enc (pending_step enc True op r)"
proof (cases op)
  case OpClear
  then show ?thesis by (simp add: Pending_Clear_def persisted_def)
qed (use assms in \<open>simp_all add: AddOrUpdate_def Pending_Remove_def saveLocked_persisted split: option.split\<close>)

text \<open>
  Pending requests survive a restart: after any sequence of successful operations, a fresh
  registry that loads the file knows exactly the same nodes with the same data.
\<close>

theorem pending_survives_restart:
  fixes ops :: "pending_op list" and enc :: "'d node_encoder" and dec :: "'d node_decoder"
  assumes codec: "\<And>ns. \<exists>data. enc ns = Some data \<and> dec data = Some ns"
  defines "r \<equiv> fold (pending_step enc True) ops (NewPendingRegistry None)"
  shows "\<exists>r'. Pending_Load dec (NewPendingRegistry (pr_file r)) = Some r' \<and>
    (\<forall>nid. Pending_Get nid r' = Pending_Get nid r)"
proof -
  have enc: "enc ns \<noteq> None" for ns using codec [of ns] by auto
  have "persisted enc (fold (pending_step enc True) ops q)" if "persisted enc q" for q
    using that by (induction ops arbitrary: q) (simp_all add: pending_step_persisted [OF enc])
  then have p: "persisted enc r" by (simp add: r_def persisted_def NewPendingRegistry_def)
  have ok: "pending_ok r"
    unfolding r_def by (rule pending_reachable_ok) (simp add: pending_ok_def NewPendingRegistry_def)
  show ?thesis
  proof (cases "pr_file r = None \<and> pr_nodes r = []")
    case True
    then show ?thesis by (simp add: Pending_Load_def NewPendingRegistry_def Pending_Get_def)
  next
    case False
    with p have "pr_file r = enc (map snd (pr_nodes r))" by (auto simp: persisted_def)
    moreover obtain data where "enc (map snd (pr_nodes r)) = Some data" "dec data = Some (map snd (pr_nodes r))"
      using codec by blast
    moreover have "gomap_get (fold (\<lambda>n. gomap_put (pn_NodeID n) n) (map snd (pr_nodes r)) []) nid =
        gomap_get (pr_nodes r) nid" for nid
      using ok by (intro gomap_reload) (auto simp: pending_ok_def)
    ultimately show ?thesis by (simp add: Pending_Load_def NewPendingRegistry_def Pending_Get_def)
  qed
qed

theorem pending_survives_restart_witness:
  "\<exists>r'. Pending_Load Some (NewPendingRegistry (pr_file
      (pending_step Some True (OpAdd 7 \<lparr>pn_NodeID = ''n1'', pn_Name = ''a'', pn_Addr = ''b'',
         pn_FirstSeen = 0, pn_LastSeen = 0\<rparr>) (NewPendingRegistry None)))) = Some r' \<and>
     Pending_Get ''n1'' r' = Some \<lparr>pn_NodeID = ''n1'', pn_Name = ''a'', pn_Addr = ''b'',
         pn_FirstSeen = 7, pn_LastSeen = 7\<rparr>"
proof -
  let ?op = "OpAdd 7 \<lparr>pn_NodeID = ''n1'', pn_Name = ''a'', pn_Addr = ''b'', pn_FirstSeen = 0, pn_LastSeen = 0\<rparr>"
  have "Pending_Get ''n1'' (pending_step Some True ?op (NewPendingRegistry None)) =
      Some \<lparr>pn_NodeID = ''n1'', pn_Name = ''a'', pn_Addr = ''b'', pn_FirstSeen = 7, pn_LastSeen = 7\<rparr>"
    by (simp add: Pending_Get_def AddOrUpdate_def NewPendingRegistry_def maxPendingNodes_def)
  with pending_survives_restart [of Some Some "[?op]"] show ?thesis by auto
qed

end
