(* ===== verification/Hub.thy ===== *)
theory Hub
  imports Keyed_Store
begin

text \<open>
  The swarm of connected workers and delegated tasks, \<open>src/internal/hub/hub.go\<close>.  Lookups return
  copies, so the state is only what the methods below change.
\<close>

record Worker =
  wk_ID :: string
  wk_AgentName :: string
  wk_Description :: string
  wk_Skills :: "string list"
  wk_ConnectedAt :: gotime
  wk_LastSeen :: gotime

definition HasSkill :: "Worker \<Rightarrow> string \<Rightarrow> bool" where
  "HasSkill w skill \<longleftrightarrow> skill \<in> set (wk_Skills w)"

datatype TaskStatus = TaskPending | TaskAssigned | TaskInProgress | TaskCompleted | TaskFailed

record Task =
  tk_ID :: string
  tk_Skill :: string
  tk_Prompt :: string
  tk_WorkerID :: string
  tk_Status :: TaskStatus
  tk_Result :: string
  tk_Error :: string
  tk_CreatedAt :: gotime
  tk_DoneAt :: gotime

record Swarm =
  sw_code :: string
  sw_workers :: "(string, Worker) gomap"
  sw_tasks :: "(string, Task) gomap"

definition NewSwarm :: "string \<Rightarrow> Swarm" where
  "NewSwarm code = \<lparr>sw_code = code, sw_workers = [], sw_tasks = []\<rparr>"

definition AddWorker :: "Worker \<Rightarrow> Swarm \<Rightarrow> Swarm" where
  "AddWorker w s = s\<lparr>sw_workers := gomap_put (wk_ID w) w (sw_workers s)\<rparr>"

definition RemoveWorker :: "string \<Rightarrow> Swarm \<Rightarrow> Swarm" where
  "RemoveWorker wid s = s\<lparr>sw_workers := gomap_del wid (sw_workers s)\<rparr>"

definition GetWorker :: "string \<Rightarrow> Swarm \<Rightarrow> Worker option" where
  "GetWorker wid s = gomap_get (sw_workers s) wid"

definition Workers :: "Swarm \<Rightarrow> Worker list" where
  "Workers s = map snd (sw_workers s)"

definition FindWorkers :: "string \<Rightarrow> Swarm \<Rightarrow> Worker list" where
  "FindWorkers skill s = filter (\<lambda>w. HasSkill w skill) (map snd (sw_workers s))"

definition AddTask :: "Task \<Rightarrow> Swarm \<Rightarrow> Swarm" where
  "AddTask t s = s\<lparr>sw_tasks := gomap_put (tk_ID t) t (sw_tasks s)\<rparr>"

definition GetTask :: "string \<Rightarrow> Swarm \<Rightarrow> Task option" where
  "GetTask tid s = gomap_get (sw_tasks s) tid"

text \<open>The finished task is returned beside the swarm: the caller of \<open>AddTask\<close> holds the pointer.\<close>

definition CompleteTask :: "gotime \<Rightarrow> string \<Rightarrow> string \<Rightarrow> Swarm \<Rightarrow> (Task \<times> Swarm) option" where
  "CompleteTask now tid result s =
     (case gomap_get (sw_tasks s) tid of
        None \<Rightarrow> None
      | Some t \<Rightarrow> Some (t\<lparr>tk_Status := TaskCompleted, tk_Result := result, tk_DoneAt := now\<rparr>,
                        s\<lparr>sw_tasks := gomap_del tid (sw_tasks s)\<rparr>))"

definition FailTask :: "gotime \<Rightarrow> string \<Rightarrow> string \<Rightarrow> Swarm \<Rightarrow> (Task \<times> Swarm) option" where
  "FailTask now tid errMsg s =
     (case gomap_get (sw_tasks s) tid of
        None \<Rightarrow> None
      | Some t \<Rightarrow> Some (t\<lparr>tk_Status := TaskFailed, tk_Error := errMsg, tk_DoneAt := now\<rparr>,
                        s\<lparr>sw_tasks := gomap_del tid (sw_tasks s)\<rparr>))"

definition ActiveTasks :: "Swarm \<Rightarrow> Task list" where
  "ActiveTasks s =
     filter (\<lambda>t. tk_Status t \<noteq> TaskCompleted \<and> tk_Status t \<noteq> TaskFailed) (map snd (sw_tasks s))"

section \<open>Task lifecycle\<close>

datatype swarm_op =
    OpAddWorker Worker | OpRemoveWorker string | OpAddTask Task
  | OpComplete gotime string string | OpFail gotime string string

fun swarm_step :: "swarm_op \<Rightarrow> Swarm \<Rightarrow> Swarm" where
  "swarm_step (OpAddWorker w) s = AddWorker w s"
| "swarm_step (OpRemoveWorker wid) s = RemoveWorker wid s"
| "swarm_step (OpAddTask t) s = AddTask t s"
| "swarm_step (OpComplete now tid r) s = (case CompleteTask now tid r s of None \<Rightarrow> s | Some (_, s') \<Rightarrow> s')"
| "swarm_step (OpFail now tid e) s = (case FailTask now tid e s of None \<Rightarrow> s | Some (_, s') \<Rightarrow> s')"

fun adds_task :: "string \<Rightarrow> swarm_op \<Rightarrow> bool" where
  "adds_task tid (OpAddTask t) = (tk_ID t = tid)"
| "adds_task tid _ = False"

lemma GetTask_step:
  "\<not> adds_task tid op \<Longrightarrow> GetTask tid s = None \<Longrightarrow> GetTask tid (swarm_step op s) = None"
  by (cases op)
    (auto simp: GetTask_def AddWorker_def RemoveWorker_def AddTask_def CompleteTask_def FailTask_def
      split: option.splits)

lemma GetTask_steps:
  "\<forall>op \<in> set ops. \<not> adds_task tid op \<Longrightarrow> GetTask tid s = None \<Longrightarrow>
     GetTask tid (fold swarm_step ops s) = None"
  by (induction ops arbitrary: s) (simp_all add: GetTask_step)

text \<open>
  A task finishes once.  When a task has been completed or failed, every later attempt to
  complete or fail it is refused, whatever happens in between, until a task is added under its
  identifier again.
\<close>

theorem task_finishes_once:
  assumes "CompleteTask now tid result s = Some (t, s') \<or> FailTask now tid result s = Some (t, s')"
    and "\<forall>op \<in> set ops. \<not> adds_task tid op"
  shows "CompleteTask now' tid result' (fold swarm_step ops s') = None \<and>
    FailTask now' tid result' (fold swarm_step ops s') = None \<and>
    tk_Status t \<in> {TaskCompleted, TaskFailed}"
proof -
  have "GetTask tid s' = None"
    using assms(1) by (auto simp: GetTask_def CompleteTask_def FailTask_def split: option.splits)
  then have "gomap_get (sw_tasks (fold swarm_step ops s')) tid = None"
    using GetTask_steps [OF assms(2)] by (simp add: GetTask_def)
  with assms(1) show ?thesis by (auto simp: CompleteTask_def FailTask_def split: option.splits)
qed

definition example_task :: Task where
  "example_task = \<lparr>tk_ID = ''t'', tk_Skill = ''go'', tk_Prompt = [], tk_WorkerID = ''w'',
     tk_Status = TaskPending, tk_Result = [], tk_Error = [], tk_CreatedAt = 0, tk_DoneAt = 0\<rparr>"

theorem task_finishes_once_witness:
  "CompleteTask 2 ''t'' ''late'' (fold swarm_step [OpRemoveWorker ''w'']
     (snd (the (FailTask 1 ''t'' ''crash'' (AddTask example_task (NewSwarm ''c'')))))) = None"
proof -
  let ?s = "AddTask example_task (NewSwarm ''c'')"
  have f: "FailTask 1 ''t'' ''crash'' ?s = Some (example_task\<lparr>tk_Status := TaskFailed, tk_Error := ''crash'',
      tk_DoneAt := 1\<rparr>, ?s\<lparr>sw_tasks := []\<rparr>)"
    by code_simp
  from task_finishes_once [OF disjI2 [OF f], of "[OpRemoveWorker ''w'']" 2 "''late''"] f
  show ?thesis by simp
qed

end
