(* ===== verification/Instance_Config.thy ===== *)
theory Instance_Config
  imports Hiro_Prelude
begin

text \<open>
  Instance configuration files, \<open>src/internal/config/instance_config.go\<close>, and access control for
  channel senders, \<open>src/internal/channel/access.go\<close>.

  The configuration files are a function from instance identifiers to file contents, the YAML codec
  is an argument, and \<open>blank\<close> is the empty file.  Every operation of the access checker runs
  under the mutex of its instance, so operations on one instance are steps one after the other.
  Writing is atomic: a failed write leaves the old file.
\<close>

section \<open>Instance configuration\<close>

text \<open>The status of a sender is a string in the file; any string may be found there.\<close>

type_synonym ChannelAccessStatus = string

definition ChannelAccessApproved :: ChannelAccessStatus where "ChannelAccessApproved = ''approved''"
definition ChannelAccessPending :: ChannelAccessStatus where "ChannelAccessPending = ''pending''"
definition ChannelAccessBlocked :: ChannelAccessStatus where "ChannelAccessBlocked = ''blocked''"

lemmas access_statuses = ChannelAccessApproved_def ChannelAccessPending_def ChannelAccessBlocked_def

record ChannelSender =
  sd_Key :: string
  sd_DisplayName :: string
  sd_Status :: ChannelAccessStatus
  sd_FirstSeen :: gotime
  sd_LastSeen :: gotime
  sd_SampleText :: string

record InstanceSlackConfig =
  sl_BotToken :: string
  sl_SigningSecret :: string

record InstanceChannelsConfig =
  ch_Telegram :: "string option"
  ch_Slack :: "InstanceSlackConfig option"
  ch_Senders :: "ChannelSender list"

record InstanceConfig =
  ic_Model :: string
  ic_ReasoningEffort :: string
  ic_AllowedTools :: "string list"
  ic_DisallowedTools :: "string list"
  ic_Channels :: "InstanceChannelsConfig option"

definition zero_InstanceConfig :: InstanceConfig where
  "zero_InstanceConfig = \<lparr>ic_Model = [], ic_ReasoningEffort = [], ic_AllowedTools = [],
     ic_DisallowedTools = [], ic_Channels = None\<rparr>"

definition zero_Channels :: InstanceChannelsConfig where
  "zero_Channels = \<lparr>ch_Telegram = None, ch_Slack = None, ch_Senders = []\<rparr>"

fun sender_status :: "string \<Rightarrow> ChannelSender list \<Rightarrow> ChannelAccessStatus option" where
  "sender_status key [] = None"
| "sender_status key (s # ss) = (if sd_Key s = key then Some (sd_Status s) else sender_status key ss)"

definition SenderStatus :: "InstanceChannelsConfig \<Rightarrow> string \<Rightarrow> ChannelAccessStatus option" where
  "SenderStatus c key = sender_status key (ch_Senders c)"

definition SendersByStatus :: "InstanceChannelsConfig \<Rightarrow> ChannelAccessStatus \<Rightarrow> ChannelSender list" where
  "SendersByStatus c status = filter (\<lambda>s. sd_Status s = status) (ch_Senders c)"

fun set_sender :: "gotime \<Rightarrow> string \<Rightarrow> ChannelAccessStatus \<Rightarrow> string \<Rightarrow> string \<Rightarrow> ChannelSender list \<Rightarrow>
   ChannelSender list" where
  "set_sender now key status name sample [] =
     [\<lparr>sd_Key = key, sd_DisplayName = name, sd_Status = status, sd_FirstSeen = now, sd_LastSeen = now,
       sd_SampleText = sample\<rparr>]"
| "set_sender now key status name sample (s # ss) =
     (if sd_Key s \<noteq> key then s # set_sender now key status name sample ss
      else s\<lparr>sd_Status := status, sd_LastSeen := now,
             sd_DisplayName := (if name \<noteq> [] then name else sd_DisplayName s),
             sd_SampleText := (if sample \<noteq> [] then sample else sd_SampleText s)\<rparr> # ss)"

definition SetSender ::
  "gotime \<Rightarrow> string \<Rightarrow> ChannelAccessStatus \<Rightarrow> string \<Rightarrow> string \<Rightarrow> InstanceChannelsConfig \<Rightarrow>
   InstanceChannelsConfig" where
  "SetSender now key status name sample c =
     c\<lparr>ch_Senders := set_sender now key status name sample (ch_Senders c)\<rparr>"

fun touch_sender :: "gotime \<Rightarrow> string \<Rightarrow> ChannelSender list \<Rightarrow> ChannelSender list" where
  "touch_sender now key [] = []"
| "touch_sender now key (s # ss) =
     (if sd_Key s = key then s\<lparr>sd_LastSeen := now\<rparr> # ss else s # touch_sender now key ss)"

definition TouchSender :: "gotime \<Rightarrow> string \<Rightarrow> InstanceChannelsConfig \<Rightarrow> InstanceChannelsConfig" where
  "TouchSender now key c = c\<lparr>ch_Senders := touch_sender now key (ch_Senders c)\<rparr>"

fun touch_if_stale :: "gotime \<Rightarrow> string \<Rightarrow> int \<Rightarrow> ChannelSender list \<Rightarrow> bool \<times> ChannelSender list" where
  "touch_if_stale now key maxAge [] = (False, [])"
| "touch_if_stale now key maxAge (s # ss) =
     (if sd_Key s = key
      then (if now - sd_LastSeen s > maxAge then (True, s\<lparr>sd_LastSeen := now\<rparr> # ss) else (False, s # ss))
      else case touch_if_stale now key maxAge ss of (b, ss') \<Rightarrow> (b, s # ss'))"

definition TouchSenderIfStale ::
  "gotime \<Rightarrow> string \<Rightarrow> int \<Rightarrow> InstanceChannelsConfig \<Rightarrow> bool \<times> InstanceChannelsConfig" where
  "TouchSenderIfStale now key maxAge c =
     (case touch_if_stale now key maxAge (ch_Senders c) of (b, ss) \<Rightarrow> (b, c\<lparr>ch_Senders := ss\<rparr>))"

fun remove_sender :: "string \<Rightarrow> ChannelSender list \<Rightarrow> ChannelSender list option" where
  "remove_sender key [] = None"
| "remove_sender key (s # ss) =
     (if sd_Key s = key then Some ss else map_option ((#) s) (remove_sender key ss))"

definition Channels_RemoveSender :: "string \<Rightarrow> InstanceChannelsConfig \<Rightarrow> bool \<times> InstanceChannelsConfig" where
  "Channels_RemoveSender key c =
     (case remove_sender key (ch_Senders c) of
        None \<Rightarrow> (False, c) | Some ss \<Rightarrow> (True, c\<lparr>ch_Senders := ss\<rparr>))"

section \<open>Files\<close>

datatype 'd ic_file = FileMissing | FileUnreadable | FileData 'd

datatype ic_error = ConfigReadFailed | ConfigParseFailed | ConfigMarshalFailed | ConfigWriteFailed
  | ErrSenderNotFound | ModifyFailed

record 'd ic_codec =
  icc_enc :: "InstanceConfig \<Rightarrow> 'd option"
  icc_dec :: "'d \<Rightarrow> InstanceConfig option"
  icc_blank :: 'd

type_synonym 'd ic_files = "string \<Rightarrow> 'd ic_file"

definition LoadInstanceConfig :: "'d ic_codec \<Rightarrow> 'd ic_file \<Rightarrow> ic_error + InstanceConfig" where
  "LoadInstanceConfig codec file =
     (case file of
        FileMissing \<Rightarrow> Inr zero_InstanceConfig
      | FileUnreadable \<Rightarrow> Inl ConfigReadFailed
      | FileData data \<Rightarrow>
          if data = icc_blank codec then Inr zero_InstanceConfig
          else case icc_dec codec data of None \<Rightarrow> Inl ConfigParseFailed | Some cfg \<Rightarrow> Inr cfg)"

text \<open>\<open>writable\<close> covers creating the directory and the atomic write.\<close>

definition SaveInstanceConfig ::
  "'d ic_codec \<Rightarrow> bool \<Rightarrow> string \<Rightarrow> InstanceConfig \<Rightarrow> 'd ic_files \<Rightarrow> ic_error option \<times> 'd ic_files" where
  "SaveInstanceConfig codec writable iid cfg fs =
     (case icc_enc codec cfg of
        None \<Rightarrow> (Some ConfigMarshalFailed, fs)
      | Some data \<Rightarrow> if writable then (None, fs(iid := FileData data)) else (Some ConfigWriteFailed, fs))"

section \<open>The access checker\<close>

datatype AccessResult = AccessAllow | AccessDeny | AccessPending

definition touchDebounce :: int where "touchDebounce = 300000000000"

abbreviation maxPendingSenders :: nat where "maxPendingSenders \<equiv> 10"

definition known_result :: "ChannelAccessStatus \<Rightarrow> AccessResult option" where
  "known_result status =
     (if status = ChannelAccessApproved then Some AccessAllow
      else if status = ChannelAccessBlocked then Some AccessDeny
      else if status = ChannelAccessPending then Some AccessPending
      else None)"

text \<open>The end of \<open>CheckAccess\<close>: an unknown sender, or one with an unknown status.\<close>

definition register_pending ::
  "'d ic_codec \<Rightarrow> bool \<Rightarrow> gotime \<Rightarrow> string \<Rightarrow> string \<Rightarrow> string \<Rightarrow> string \<Rightarrow> InstanceConfig \<Rightarrow>
   InstanceChannelsConfig \<Rightarrow> 'd ic_files \<Rightarrow> AccessResult \<times> 'd ic_files" where
  "register_pending codec w now iid key name sample cfg channels fs =
     (if length (SendersByStatus channels ChannelAccessPending) \<ge> maxPendingSenders then (AccessDeny, fs)
      else (AccessPending, snd (SaveInstanceConfig codec w iid
              (cfg\<lparr>ic_Channels := Some (SetSender now key ChannelAccessPending name sample channels)\<rparr>) fs)))"

definition CheckAccess ::
  "'d ic_codec \<Rightarrow> bool \<Rightarrow> bool \<Rightarrow> gotime \<Rightarrow> string \<Rightarrow> string \<Rightarrow> string \<Rightarrow> string \<Rightarrow> 'd ic_files \<Rightarrow>
   AccessResult \<times> 'd ic_files" where
  "CheckAccess codec w1 w2 now iid key name sample fs =
     (case LoadInstanceConfig codec (fs iid) of
        Inl _ \<Rightarrow> (AccessDeny, fs)
      | Inr cfg \<Rightarrow>
          let channels = (case ic_Channels cfg of None \<Rightarrow> zero_Channels | Some c \<Rightarrow> c)
          in case SenderStatus channels key of
               Some status \<Rightarrow>
                 let (touched, channels1) = TouchSenderIfStale now key touchDebounce channels;
                     fs1 = (if touched
                            then snd (SaveInstanceConfig codec w1 iid (cfg\<lparr>ic_Channels := Some channels1\<rparr>) fs)
                            else fs)
                 in (case known_result status of
                       Some r \<Rightarrow> (r, fs1)
                     | None \<Rightarrow> register_pending codec w2 now iid key name sample cfg channels1 fs1)
             | None \<Rightarrow> register_pending codec w2 now iid key name sample cfg channels fs)"

definition UpdateSenderStatus ::
  "'d ic_codec \<Rightarrow> bool \<Rightarrow> gotime \<Rightarrow> string \<Rightarrow> string \<Rightarrow> ChannelAccessStatus \<Rightarrow> 'd ic_files \<Rightarrow>
   ic_error option \<times> 'd ic_files" where
  "UpdateSenderStatus codec w now iid key status fs =
     (case LoadInstanceConfig codec (fs iid) of
        Inl e \<Rightarrow> (Some e, fs)
      | Inr cfg \<Rightarrow>
          (case ic_Channels cfg of
             None \<Rightarrow> (Some ErrSenderNotFound, fs)
           | Some channels \<Rightarrow>
               if SenderStatus channels key = None then (Some ErrSenderNotFound, fs)
               else SaveInstanceConfig codec w iid
                      (cfg\<lparr>ic_Channels := Some (SetSender now key status [] [] channels)\<rparr>) fs))"

definition RemoveSender ::
  "'d ic_codec \<Rightarrow> bool \<Rightarrow> string \<Rightarrow> string \<Rightarrow> 'd ic_files \<Rightarrow> ic_error option \<times> 'd ic_files" where
  "RemoveSender codec w iid key fs =
     (case LoadInstanceConfig codec (fs iid) of
        Inl e \<Rightarrow> (Some e, fs)
      | Inr cfg \<Rightarrow>
          (case ic_Channels cfg of
             None \<Rightarrow> (Some ErrSenderNotFound, fs)
           | Some channels \<Rightarrow>
               (case Channels_RemoveSender key channels of
                  (False, _) \<Rightarrow> (Some ErrSenderNotFound, fs)
                | (True, channels1) \<Rightarrow>
                    SaveInstanceConfig codec w iid (cfg\<lparr>ic_Channels := Some channels1\<rparr>) fs)))"

definition ModifyConfig ::
  "'d ic_codec \<Rightarrow> bool \<Rightarrow> string \<Rightarrow> (InstanceConfig \<Rightarrow> InstanceConfig option) \<Rightarrow> 'd ic_files \<Rightarrow>
   ic_error option \<times> 'd ic_files" where
  "ModifyConfig codec w iid modify fs =
     (case LoadInstanceConfig codec (fs iid) of
        Inl e \<Rightarrow> (Some e, fs)
      | Inr cfg \<Rightarrow>
          (case modify cfg of
             None \<Rightarrow> (Some ModifyFailed, fs)
           | Some cfg' \<Rightarrow> SaveInstanceConfig codec w iid cfg' fs))"

section \<open>Senders of an instance\<close>

definition senders_of :: "InstanceConfig \<Rightarrow> ChannelSender list" where
  "senders_of cfg = (case ic_Channels cfg of None \<Rightarrow> [] | Some c \<Rightarrow> ch_Senders c)"

definition senders :: "'d ic_codec \<Rightarrow> 'd ic_files \<Rightarrow> string \<Rightarrow> ChannelSender list" where
  "senders codec fs iid = (case LoadInstanceConfig codec (fs iid) of Inl _ \<Rightarrow> [] | Inr cfg \<Rightarrow> senders_of cfg)"

definition codec_ok :: "'d ic_codec \<Rightarrow> bool" where
  "codec_ok codec \<longleftrightarrow> (\<forall>cfg. \<exists>data. icc_enc codec cfg = Some data \<and> data \<noteq> icc_blank codec \<and>
     icc_dec codec data = Some cfg)"

text \<open>Counting pending senders.\<close>

abbreviation pending_count :: "ChannelSender list \<Rightarrow> nat" where
  "pending_count ss \<equiv> length (filter (\<lambda>s. sd_Status s = ChannelAccessPending) ss)"

lemma sender_status_set_sender:
  "sender_status k (set_sender now key status name sample ss) =
     (if k = key then Some status else sender_status k ss)"
  by (induction ss) auto

lemma pending_set_sender: "pending_count (set_sender now key st name sample ss) \<le> Suc (pending_count ss)"
  by (induction ss) auto

lemma touch_if_stale_status [simp]:
  "sender_status k (snd (touch_if_stale now key maxAge ss)) = sender_status k ss"
  "pending_count (snd (touch_if_stale now key maxAge ss)) = pending_count ss"
  by (induction ss) (auto split: prod.splits)

lemma remove_sender_status:
  "remove_sender key ss = Some ss' \<Longrightarrow> k \<noteq> key \<Longrightarrow> sender_status k ss' = sender_status k ss"
  by (induction ss arbitrary: ss') (auto split: if_splits)

lemma Save_other_instance: "iid' \<noteq> iid \<Longrightarrow> snd (SaveInstanceConfig codec w iid cfg fs) iid' = fs iid'"
  by (simp add: SaveInstanceConfig_def split: option.split)

lemma Load_after_save:
  assumes "codec_ok codec"
  shows "LoadInstanceConfig codec (snd (SaveInstanceConfig codec w iid cfg fs) iid) =
      (if w then Inr cfg else LoadInstanceConfig codec (fs iid))"
proof -
  from assms obtain data where "icc_enc codec cfg = Some data" "data \<noteq> icc_blank codec"
    "icc_dec codec data = Some cfg" by (auto simp: codec_ok_def)
  then show ?thesis by (simp add: SaveInstanceConfig_def LoadInstanceConfig_def)
qed

lemma senders_after_save:
  assumes "codec_ok codec"
  shows "senders codec (snd (SaveInstanceConfig codec w iid cfg fs)) iid' =
    (if w \<and> iid' = iid then senders_of cfg else senders codec fs iid')"
  using Load_after_save [OF assms, of w iid cfg fs]
  by (cases "iid' = iid") (auto simp: senders_def Save_other_instance)

text \<open>The access check on the list of senders alone, without files.\<close>

definition check_senders ::
  "bool \<Rightarrow> bool \<Rightarrow> gotime \<Rightarrow> string \<Rightarrow> string \<Rightarrow> string \<Rightarrow> ChannelSender list \<Rightarrow>
   AccessResult \<times> ChannelSender list" where
  "check_senders w1 w2 now key name sample ss =
     (let ss1 = snd (touch_if_stale now key touchDebounce ss);
          kept = (if w1 then ss1 else ss)
      in case Option.bind (sender_status key ss) known_result of
           Some r \<Rightarrow> (r, kept)
         | None \<Rightarrow>
             if pending_count ss \<ge> maxPendingSenders then (AccessDeny, kept)
             else (AccessPending,
                   if w2 then set_sender now key ChannelAccessPending name sample ss1 else kept))"

lemma touch_unknown: "sender_status key ss = None \<Longrightarrow> touch_if_stale now key maxAge ss = (False, ss)"
  by (induction ss) (auto split: if_splits)

lemma touch_fresh: "\<not> fst (touch_if_stale now key maxAge ss) \<Longrightarrow> snd (touch_if_stale now key maxAge ss) = ss"
  by (induction ss) (auto split: prod.splits)

lemma senders_of_set: "senders_of (cfg\<lparr>ic_Channels := Some c\<rparr>) = ch_Senders c"
  by (simp add: senders_of_def)

lemma channels_senders:
  "ch_Senders (case ic_Channels cfg of None \<Rightarrow> zero_Channels | Some c \<Rightarrow> c) = senders_of cfg"
  by (simp add: senders_of_def zero_Channels_def split: option.split)

lemma CheckAccess_refines_senders:
  assumes "codec_ok codec" "LoadInstanceConfig codec (fs iid) = Inr cfg"
  shows "fst (CheckAccess codec w1 w2 now iid key name sample fs) =
      fst (check_senders w1 w2 now key name sample (senders codec fs iid))"
    and "senders codec (snd (CheckAccess codec w1 w2 now iid key name sample fs)) iid =
      snd (check_senders w1 w2 now key name sample (senders codec fs iid))"
proof -
  let ?ch = "case ic_Channels cfg of None \<Rightarrow> zero_Channels | Some c \<Rightarrow> c"
  have ss: "senders codec fs iid = ch_Senders ?ch" using assms(2) by (simp add: senders_def channels_senders)
  obtain b ss1 where t: "touch_if_stale now key touchDebounce (ch_Senders ?ch) = (b, ss1)" by fastforce
  have eq: "\<not> b \<Longrightarrow> ss1 = ch_Senders ?ch"
    using touch_fresh [of now key touchDebounce "ch_Senders ?ch"] t by simp
  have pc: "pending_count ss1 = pending_count (ch_Senders ?ch)"
    using touch_if_stale_status(2) [of now key touchDebounce "ch_Senders ?ch"] t by simp
  note defs = CheckAccess_def assms(2) Let_def check_senders_def ss SenderStatus_def TouchSenderIfStale_def t
    register_pending_def SendersByStatus_def SetSender_def
  show "fst (CheckAccess codec w1 w2 now iid key name sample fs) =
      fst (check_senders w1 w2 now key name sample (senders codec fs iid))"
    by (cases "sender_status key (ch_Senders ?ch)") (simp_all add: defs pc split: option.split)
  have "senders_of cfg = ch_Senders ?ch" by (simp add: channels_senders)
  then show "senders codec (snd (CheckAccess codec w1 w2 now iid key name sample fs)) iid =
      snd (check_senders w1 w2 now key name sample (senders codec fs iid))"
    using senders_after_save [OF assms(1)] eq touch_unknown [of key "ch_Senders ?ch" now touchDebounce]
    by (cases "sender_status key (ch_Senders ?ch)")
      (simp_all add: defs pc senders_of_set split: option.split)
qed

lemma CheckAccess_other_instance:
  "iid' \<noteq> iid \<Longrightarrow> snd (CheckAccess codec w1 w2 now iid key name sample fs) iid' = fs iid'"
  by (auto simp: CheckAccess_def Let_def register_pending_def Save_other_instance split: sum.split option.split prod.split)

lemma senders_other: "fs' iid = fs iid \<Longrightarrow> senders codec fs' iid = senders codec fs iid"
  by (simp add: senders_def)

section \<open>Approval\<close>

lemma known_result_allow: "known_result st = Some AccessAllow \<longleftrightarrow> st = ChannelAccessApproved"
  by (auto simp: known_result_def access_statuses)

lemma known_result_approved [simp]: "known_result ChannelAccessApproved = Some AccessAllow"
  by (simp add: known_result_def)

lemma check_senders_allow:
  "fst (check_senders w1 w2 now key name sample ss) = AccessAllow \<longleftrightarrow> sender_status key ss = Some ChannelAccessApproved"
  by (cases "sender_status key ss")
    (auto simp: check_senders_def Let_def known_result_allow split: option.split)

lemma check_senders_status:
  "sender_status k (snd (check_senders w1 w2 now key name sample ss)) = sender_status k ss \<or>
   k = key \<and> sender_status k (snd (check_senders w1 w2 now key name sample ss)) = Some ChannelAccessPending \<and>
     sender_status k ss \<notin> {Some ChannelAccessApproved, Some ChannelAccessBlocked}"
proof -
  have "sender_status key ss \<notin> {Some ChannelAccessApproved, Some ChannelAccessBlocked}"
    if "Option.bind (sender_status key ss) known_result = None"
    using that by (auto simp: known_result_def access_statuses)
  then show ?thesis by (auto simp: check_senders_def Let_def sender_status_set_sender split: option.split)
qed

lemma check_senders_pending:
  "pending_count (snd (check_senders w1 w2 now key name sample ss)) \<le> max maxPendingSenders (pending_count ss)"
  using pending_set_sender [of now key ChannelAccessPending name sample "snd (touch_if_stale now key touchDebounce ss)"]
  by (auto simp: check_senders_def Let_def split: option.split)

text \<open>
  The access check decides by the recorded status and keeps to its place: a message is allowed
  exactly when its sender is approved, the check changes no sender's status except that an unknown
  sender becomes pending, it never takes the number of pending senders above ten, it touches no
  other instance, and when the configuration cannot be read it denies and changes nothing.
\<close>

theorem CheckAccess_correct:
  assumes "codec_ok codec"
  shows "case CheckAccess codec w1 w2 now iid key name sample fs of (r, fs') \<Rightarrow>
     (if isl (LoadInstanceConfig codec (fs iid)) then r = AccessDeny \<and> fs' = fs
      else (r = AccessAllow \<longleftrightarrow> sender_status key (senders codec fs iid) = Some ChannelAccessApproved) \<and>
        (\<forall>k. sender_status k (senders codec fs' iid) = sender_status k (senders codec fs iid) \<or>
           k = key \<and> sender_status k (senders codec fs' iid) = Some ChannelAccessPending \<and>
           sender_status k (senders codec fs iid) \<notin> {Some ChannelAccessApproved, Some ChannelAccessBlocked}) \<and>
        pending_count (senders codec fs' iid) \<le> max maxPendingSenders (pending_count (senders codec fs iid)) \<and>
        (\<forall>iid'. iid' \<noteq> iid \<longrightarrow> fs' iid' = fs iid'))"
proof (cases "LoadInstanceConfig codec (fs iid)")
  case (Inl e)
  then show ?thesis by (simp add: CheckAccess_def)
next
  case (Inr cfg)
  note ref = CheckAccess_refines_senders [of codec fs iid cfg, OF assms Inr]
  have "\<forall>k. sender_status k (senders codec (snd (CheckAccess codec w1 w2 now iid key name sample fs)) iid) =
        sender_status k (senders codec fs iid) \<or>
      k = key \<and> sender_status k (senders codec (snd (CheckAccess codec w1 w2 now iid key name sample fs)) iid) =
        Some ChannelAccessPending \<and>
      sender_status k (senders codec fs iid) \<notin> {Some ChannelAccessApproved, Some ChannelAccessBlocked}"
    unfolding ref(2) by (intro allI check_senders_status)
  then show ?thesis
    unfolding split_beta using Inr
    by (simp add: ref(1) check_senders_allow CheckAccess_other_instance)
      (simp add: ref(2) check_senders_pending)
qed

definition example_codec :: "InstanceConfig option ic_codec" where
  "example_codec = \<lparr>icc_enc = \<lambda>c. Some (Some c), icc_dec = id, icc_blank = None\<rparr>"

lemma example_codec_ok: "codec_ok example_codec"
  by (simp add: codec_ok_def example_codec_def)

theorem CheckAccess_correct_witness:
  "fst (CheckAccess example_codec True True 0 ''i'' ''tg:1'' ''Ann'' ''hi'' (\<lambda>_. FileMissing)) \<noteq> AccessAllow"
  using CheckAccess_correct [OF example_codec_ok, where fs = "\<lambda>_. FileMissing" and iid = "''i''" and key = "''tg:1''"
      and name = "''Ann''" and sample = "''hi''" and ?w1.0 = True and ?w2.0 = True and now = 0]
  by (auto simp: split_beta LoadInstanceConfig_def senders_def senders_of_def zero_InstanceConfig_def)

section \<open>Sequences of operations\<close>

datatype access_op =
    OpCheck bool bool gotime string string string string
  | OpUpdate bool gotime string string ChannelAccessStatus
  | OpRemove bool string string
  | OpModify bool string "InstanceConfig \<Rightarrow> InstanceConfig option"

fun access_step :: "'d ic_codec \<Rightarrow> access_op \<Rightarrow> 'd ic_files \<Rightarrow> 'd ic_files" where
  "access_step codec (OpCheck w1 w2 now iid key name sample) fs =
     snd (CheckAccess codec w1 w2 now iid key name sample fs)"
| "access_step codec (OpUpdate w now iid key status) fs = snd (UpdateSenderStatus codec w now iid key status fs)"
| "access_step codec (OpRemove w iid key) fs = snd (RemoveSender codec w iid key fs)"
| "access_step codec (OpModify w iid f) fs = snd (ModifyConfig codec w iid f fs)"

definition access_run :: "'d ic_codec \<Rightarrow> access_op list \<Rightarrow> 'd ic_files \<Rightarrow> 'd ic_files" where
  "access_run codec ops fs = fold (access_step codec) ops fs"

text \<open>No entry of the sender is approved.  A file may hold several entries of one key, and removing
  the first makes the next one count, so every entry matters.\<close>

definition unapproved :: "string \<Rightarrow> ChannelSender list \<Rightarrow> bool" where
  "unapproved key ss \<longleftrightarrow> (\<forall>s\<in>set ss. sd_Key s = key \<longrightarrow> sd_Status s \<noteq> ChannelAccessApproved)"

text \<open>The operations by which an operator may approve a sender of an instance: the status update,
  and a modification of the configuration that changes the senders.\<close>

fun may_approve :: "string \<Rightarrow> string \<Rightarrow> access_op \<Rightarrow> bool" where
  "may_approve iid key (OpUpdate w now i k status) \<longleftrightarrow> i = iid \<and> k = key \<and> status = ChannelAccessApproved"
| "may_approve iid key (OpModify w i f) \<longleftrightarrow> i = iid \<and> (\<exists>c c'. f c = Some c' \<and> senders_of c' \<noteq> senders_of c)"
| "may_approve iid key _ \<longleftrightarrow> False"

lemma unapproved_set_sender:
  "unapproved key ss \<Longrightarrow> k \<noteq> key \<or> status \<noteq> ChannelAccessApproved \<Longrightarrow>
   unapproved key (set_sender now k status name sample ss)"
  by (induction ss) (auto simp: unapproved_def)

lemma unapproved_touch: "unapproved key ss \<Longrightarrow> unapproved key (snd (touch_if_stale now k maxAge ss))"
  by (induction ss) (auto simp: unapproved_def split: prod.splits)

lemma unapproved_remove: "unapproved key ss \<Longrightarrow> remove_sender k ss = Some ss' \<Longrightarrow> unapproved key ss'"
  by (induction ss arbitrary: ss') (auto simp: unapproved_def split: if_splits)

lemma unapproved_status: "unapproved key ss \<Longrightarrow> sender_status key ss \<noteq> Some ChannelAccessApproved"
  by (induction ss) (auto simp: unapproved_def split: if_splits)

lemma unapproved_check:
  "unapproved key ss \<Longrightarrow> unapproved key (snd (check_senders w1 w2 now k name sample ss))"
  by (auto simp: check_senders_def Let_def access_statuses unapproved_touch
      intro!: unapproved_set_sender split: option.split)

lemma access_step_unapproved:
  assumes ok: "codec_ok codec" and un: "unapproved key (senders codec fs iid)" and op: "\<not> may_approve iid key op"
  shows "unapproved key (senders codec (access_step codec op fs) iid)"
proof (cases op)
  case (OpCheck w1 w2 now i k name sample)
  show ?thesis
  proof (cases "i = iid \<and> \<not> isl (LoadInstanceConfig codec (fs iid))")
    case True
    then obtain cfg where "LoadInstanceConfig codec (fs iid) = Inr cfg"
      by (cases "LoadInstanceConfig codec (fs iid)") auto
    with CheckAccess_refines_senders(2) [of codec fs iid cfg, OF ok this] True OpCheck un show ?thesis
      by (simp add: unapproved_check)
  next
    case False
    then have "access_step codec op fs iid = fs iid"
    proof (cases "i = iid")
      case True
      with False obtain e where "LoadInstanceConfig codec (fs iid) = Inl e" by (auto simp: isl_def)
      with True OpCheck show ?thesis by (simp add: CheckAccess_def)
    qed (simp add: OpCheck CheckAccess_other_instance)
    with un senders_other show ?thesis by metis
  qed
next
  case (OpUpdate w now i k status)
  show ?thesis
  proof (cases "LoadInstanceConfig codec (fs i)")
    case (Inr cfg)
    then have "senders codec fs i = senders_of cfg" by (simp add: senders_def)
    with Inr OpUpdate un op ok show ?thesis
      by (auto simp: UpdateSenderStatus_def senders_after_save senders_of_def SetSender_def
          intro!: unapproved_set_sender split: option.split)
  qed (use OpUpdate un in \<open>simp add: UpdateSenderStatus_def\<close>)
next
  case (OpRemove w i k)
  show ?thesis
  proof (cases "LoadInstanceConfig codec (fs i)")
    case (Inr cfg)
    then have "senders codec fs i = senders_of cfg" by (simp add: senders_def)
    with Inr OpRemove un ok show ?thesis
      by (auto simp: RemoveSender_def Channels_RemoveSender_def senders_after_save senders_of_def
          intro: unapproved_remove split: option.split)
  qed (use OpRemove un in \<open>simp add: RemoveSender_def\<close>)
next
  case (OpModify w i f)
  show ?thesis
  proof (cases "LoadInstanceConfig codec (fs i)")
    case (Inr cfg)
    then have "senders codec fs i = senders_of cfg" by (simp add: senders_def)
    with Inr OpModify un ok op show ?thesis
      by (auto simp: ModifyConfig_def senders_after_save split: option.split)
  qed (use OpModify un in \<open>simp add: ModifyConfig_def\<close>)
qed

text \<open>
  C16. Nobody gets in without the operator: a sender that is not approved is not allowed after any
  sequence of access checks, status updates, removals and configuration changes, unless one of them
  is the operator's approval of this very sender (or replaces the senders of the instance).
\<close>

theorem no_access_without_approval:
  assumes "codec_ok codec" "unapproved key (senders codec fs iid)"
    and "\<forall>op\<in>set ops. \<not> may_approve iid key op"
  shows "fst (CheckAccess codec w1 w2 now iid key name sample (access_run codec ops fs)) \<noteq> AccessAllow"
proof -
  have "unapproved key (senders codec (access_run codec ops fs) iid)"
    unfolding access_run_def using assms(2,3)
    by (induction ops arbitrary: fs) (simp_all add: access_step_unapproved [OF assms(1)])
  from unapproved_status [OF this] show ?thesis
  proof (cases "LoadInstanceConfig codec (access_run codec ops fs iid)")
    case (Inr cfg)
    with CheckAccess_refines_senders(1) [of codec "access_run codec ops fs" iid cfg, OF assms(1) Inr] unapproved_status
      \<open>unapproved key (senders codec (access_run codec ops fs) iid)\<close>
    show ?thesis by (simp add: check_senders_allow)
  qed (simp add: CheckAccess_def)
qed

theorem no_access_without_approval_witness:
  "fst (CheckAccess example_codec True True 9 ''i'' ''tg:1'' ''Ann'' ''hi'' (access_run example_codec
      [OpCheck True True 0 ''i'' ''tg:1'' ''Ann'' ''hi'', OpUpdate True 1 ''i'' ''tg:2'' ChannelAccessApproved]
      (\<lambda>_. FileMissing))) \<noteq> AccessAllow"
  by (rule no_access_without_approval [OF example_codec_ok])
    (simp_all add: senders_def LoadInstanceConfig_def senders_of_def zero_InstanceConfig_def unapproved_def)

text \<open>
  Approving a sender takes effect at the next message: when the update succeeds, the following
  check of this sender is answered with access, and with any other status it is not.
\<close>

theorem UpdateSenderStatus_effective:
  assumes "codec_ok codec" "UpdateSenderStatus codec w now iid key status fs = (None, fs')"
  shows "fst (CheckAccess codec w1 w2 later iid key name sample fs') = AccessAllow \<longleftrightarrow>
    status = ChannelAccessApproved"
proof -
  obtain cfg channels where c: "LoadInstanceConfig codec (fs iid) = Inr cfg" "ic_Channels cfg = Some channels"
    using assms(2) by (auto simp: UpdateSenderStatus_def split: sum.splits option.splits)
  let ?cfg = "cfg\<lparr>ic_Channels := Some (SetSender now key status [] [] channels)\<rparr>"
  have save: "SaveInstanceConfig codec w iid ?cfg fs = (None, fs')"
    using assms(2) c by (auto simp: UpdateSenderStatus_def split: if_splits)
  then have "w" by (auto simp: SaveInstanceConfig_def split: option.splits if_splits)
  then have load: "LoadInstanceConfig codec (fs' iid) = Inr ?cfg"
    using Load_after_save [OF assms(1), of w iid ?cfg fs] save by simp
  have "sender_status key (senders codec fs' iid) = Some status"
    using load by (simp add: senders_def senders_of_def SetSender_def sender_status_set_sender)
  with CheckAccess_refines_senders(1) [of codec fs' iid ?cfg, OF assms(1) load] show ?thesis by (simp add: check_senders_allow)
qed

theorem UpdateSenderStatus_effective_witness:
  "fst (CheckAccess example_codec True True 9 ''i'' ''tg:1'' ''Ann'' ''hi''
     (snd (UpdateSenderStatus example_codec True 5 ''i'' ''tg:1'' ChannelAccessApproved
       (access_run example_codec [OpCheck True True 0 ''i'' ''tg:1'' ''Ann'' ''hi''] (\<lambda>_. FileMissing))))) = AccessAllow"
proof -
  let ?fs = "access_run example_codec [OpCheck True True 0 ''i'' ''tg:1'' ''Ann'' ''hi''] (\<lambda>_. FileMissing)"
  have "UpdateSenderStatus example_codec True 5 ''i'' ''tg:1'' ChannelAccessApproved ?fs =
      (None, snd (UpdateSenderStatus example_codec True 5 ''i'' ''tg:1'' ChannelAccessApproved ?fs))"
    by (simp add: access_run_def CheckAccess_def LoadInstanceConfig_def zero_InstanceConfig_def zero_Channels_def
        SenderStatus_def register_pending_def SendersByStatus_def SaveInstanceConfig_def example_codec_def
        UpdateSenderStatus_def SetSender_def)
  from UpdateSenderStatus_effective [OF example_codec_ok this] show ?thesis by simp
qed

end
