(* ===== verification/Go_Heap.thy ===== *)
theory Go_Heap
  imports Hiro_Prelude "HOL-Library.Multiset"
begin

text \<open>
  The binary heap of Go's \<open>container/heap\<close> on a slice: sifting up and down, initialisation,
  push, pop and removal at an index, for elements compared by a key.  A locale states what a queue
  ordered by time promises; the heap provides it.
\<close>

section \<open>The operations\<close>

definition swap :: "nat \<Rightarrow> nat \<Rightarrow> 'a list \<Rightarrow> 'a list" where
  "swap i j xs = xs[i := xs ! j, j := xs ! i]"

abbreviation heap_parent :: "nat \<Rightarrow> nat" where
  "heap_parent j \<equiv> (j - 1) div 2"

function heap_up :: "('a \<Rightarrow> 'k::linorder) \<Rightarrow> nat \<Rightarrow> 'a list \<Rightarrow> 'a list" where
  "heap_up key j xs =
     (let i = heap_parent j
      in if i = j \<or> \<not> key (xs ! j) < key (xs ! i) then xs
         else heap_up key i (swap i j xs))"
  by pat_completeness auto
termination
  by (relation "measure (\<lambda>(key, j, xs). j)") auto

declare heap_up.simps [simp del]

text \<open>The child with which the loop of \<open>down\<close> continues, if any.\<close>

definition down_child :: "('a \<Rightarrow> 'k::linorder) \<Rightarrow> nat \<Rightarrow> nat \<Rightarrow> 'a list \<Rightarrow> nat option" where
  "down_child key i n xs =
     (let j1 = 2 * i + 1 in
      if j1 \<ge> n then None
      else let j = (if j1 + 1 < n \<and> key (xs ! (j1 + 1)) < key (xs ! j1) then j1 + 1 else j1)
           in if \<not> key (xs ! j) < key (xs ! i) then None else Some j)"

lemma down_child_bounds: "down_child key i n xs = Some j \<Longrightarrow> i < j \<and> j < n \<and> heap_parent j = i"
  by (auto simp: down_child_def Let_def split: if_splits)

function heap_down_to :: "('a \<Rightarrow> 'k::linorder) \<Rightarrow> nat \<Rightarrow> nat \<Rightarrow> 'a list \<Rightarrow> nat \<times> 'a list" where
  "heap_down_to key i n xs =
     (case down_child key i n xs of
        None \<Rightarrow> (i, xs)
      | Some j \<Rightarrow> heap_down_to key j n (swap i j xs))"
  by pat_completeness auto
termination
  by (relation "measure (\<lambda>(key, i, n, xs). n - i)") (auto dest: down_child_bounds)

declare heap_down_to.simps [simp del]

definition heap_down :: "('a \<Rightarrow> 'k::linorder) \<Rightarrow> nat \<Rightarrow> nat \<Rightarrow> 'a list \<Rightarrow> bool \<times> 'a list" where
  "heap_down key i0 n xs = (case heap_down_to key i0 n xs of (i, ys) \<Rightarrow> (i > i0, ys))"

definition heap_Init :: "('a \<Rightarrow> 'k::linorder) \<Rightarrow> 'a list \<Rightarrow> 'a list" where
  "heap_Init key xs = fold (\<lambda>i ys. snd (heap_down key i (length xs) ys)) (rev [0..<length xs div 2]) xs"

definition heap_Push :: "('a \<Rightarrow> 'k::linorder) \<Rightarrow> 'a \<Rightarrow> 'a list \<Rightarrow> 'a list" where
  "heap_Push key x xs = heap_up key (length xs) (xs @ [x])"

definition heap_Pop :: "('a \<Rightarrow> 'k::linorder) \<Rightarrow> 'a list \<Rightarrow> ('a \<times> 'a list) option" where
  "heap_Pop key xs =
     (if xs = [] then None
      else let n = length xs - 1; ys = snd (heap_down key 0 n (swap 0 n xs))
           in Some (ys ! n, take n ys))"

definition heap_Remove :: "('a \<Rightarrow> 'k::linorder) \<Rightarrow> nat \<Rightarrow> 'a list \<Rightarrow> ('a \<times> 'a list) option" where
  "heap_Remove key i xs =
     (if i \<ge> length xs then None
      else let n = length xs - 1;
               ys = (if n \<noteq> i
                     then (case heap_down key i n (swap i n xs) of
                             (True, zs) \<Rightarrow> zs
                           | (False, zs) \<Rightarrow> heap_up key i zs)
                     else xs)
           in Some (ys ! n, take n ys))"

section \<open>Elements are only moved\<close>

lemma length_swap [simp]: "length (swap i j xs) = length xs"
  by (simp add: swap_def)

lemma nth_swap:
  "i < length xs \<Longrightarrow> j < length xs \<Longrightarrow>
   swap i j xs ! k = (if k = j then xs ! i else if k = i then xs ! j else xs ! k)"
  by (cases "k < length xs") (auto simp: swap_def nth_list_update)

lemma mset_swap' [simp]: "i < length xs \<Longrightarrow> j < length xs \<Longrightarrow> mset (swap i j xs) = mset xs"
  by (simp add: swap_def mset_swap)

text \<open>A permutation of the first \<open>n\<close> elements that keeps the rest.\<close>

definition permutes_front :: "nat \<Rightarrow> 'a list \<Rightarrow> 'a list \<Rightarrow> bool" where
  "permutes_front n xs ys \<longleftrightarrow> mset ys = mset xs \<and> drop n ys = drop n xs"

lemma permutes_front_length: "permutes_front n xs ys \<Longrightarrow> length ys = length xs"
  unfolding permutes_front_def by (metis mset_eq_length)

lemma permutes_front_refl [simp]: "permutes_front n xs xs"
  by (simp add: permutes_front_def)

lemma permutes_front_trans: "permutes_front n xs ys \<Longrightarrow> permutes_front n ys zs \<Longrightarrow> permutes_front n xs zs"
  by (simp add: permutes_front_def)

lemma permutes_front_swap:
  "i < n \<Longrightarrow> j < n \<Longrightarrow> n \<le> length xs \<Longrightarrow> permutes_front n xs (swap i j xs)"
  by (simp add: permutes_front_def swap_def mset_swap)

lemma permutes_front_take: "permutes_front n xs ys \<Longrightarrow> mset (take n ys) = mset (take n xs)"
  unfolding permutes_front_def by (metis append_take_drop_id mset_append add_right_imp_eq)

lemma heap_down_to_front:
  "n \<le> length xs \<Longrightarrow> permutes_front n xs (snd (heap_down_to key i n xs))"
proof (induction key i n xs rule: heap_down_to.induct)
  case (1 key i n xs)
  show ?case
  proof (cases "down_child key i n xs")
    case (Some j)
    then have b: "i < n" "j < n" using down_child_bounds [OF Some] by auto
    have "permutes_front n xs (swap i j xs)" using b 1(2) by (rule permutes_front_swap)
    moreover have "permutes_front n (swap i j xs) (snd (heap_down_to key j n (swap i j xs)))"
      using 1 Some by simp
    ultimately show ?thesis
      unfolding heap_down_to.simps [of key i] Some option.case by (rule permutes_front_trans)
  qed (simp add: heap_down_to.simps)
qed

lemma heap_up_front: "j < n \<Longrightarrow> n \<le> length xs \<Longrightarrow> permutes_front n xs (heap_up key j xs)"
proof (induction key j xs rule: heap_up.induct)
  case (1 key j xs)
  have "(j - Suc 0) div 2 < n" using 1(2) by linarith
  with 1 show ?case
    by (auto simp: heap_up.simps [of key j] Let_def intro: permutes_front_trans permutes_front_swap)
qed

section \<open>The heap order\<close>

definition ordered_at :: "('a \<Rightarrow> 'k::linorder) \<Rightarrow> 'a list \<Rightarrow> nat \<Rightarrow> bool" where
  "ordered_at key xs c \<longleftrightarrow> key (xs ! heap_parent c) \<le> key (xs ! c)"

definition heap_from :: "('a \<Rightarrow> 'k::linorder) \<Rightarrow> nat \<Rightarrow> nat \<Rightarrow> 'a list \<Rightarrow> bool" where
  "heap_from key k n xs \<longleftrightarrow> (\<forall>c<n. 0 < c \<longrightarrow> k \<le> heap_parent c \<longrightarrow> ordered_at key xs c)"

definition is_heap :: "('a \<Rightarrow> 'k::linorder) \<Rightarrow> 'a list \<Rightarrow> bool" where
  "is_heap key xs \<longleftrightarrow> heap_from key 0 (length xs) xs"

text \<open>The order holds except around position \<open>i\<close>, whose children are not smaller than its
  parent.\<close>

definition hole_at :: "('a \<Rightarrow> 'k::linorder) \<Rightarrow> nat \<Rightarrow> nat \<Rightarrow> nat \<Rightarrow> 'a list \<Rightarrow> bool" where
  "hole_at key k i n xs \<longleftrightarrow>
     (\<forall>c<n. 0 < c \<longrightarrow> k \<le> heap_parent c \<longrightarrow> c \<noteq> i \<longrightarrow> heap_parent c \<noteq> i \<longrightarrow> ordered_at key xs c) \<and>
     (0 < i \<longrightarrow> k \<le> heap_parent i \<longrightarrow>
        (\<forall>c<n. 0 < c \<longrightarrow> heap_parent c = i \<longrightarrow> key (xs ! heap_parent i) \<le> key (xs ! c)))"

lemma parent_less: "0 < c \<Longrightarrow> heap_parent c < c"
  by linarith

lemma parent_cases: "0 < c \<Longrightarrow> heap_parent c = i \<longleftrightarrow> c = 2 * i + 1 \<or> c = 2 * i + 2"
  by linarith

lemma down_child_None:
  assumes "down_child key i n xs = None" "c < n" "0 < c" "heap_parent c = i"
  shows "ordered_at key xs c"
proof -
  have "c = 2 * i + 1 \<or> c = 2 * i + 2" using assms(3,4) parent_cases by blast
  with assms show ?thesis
    by (auto simp: down_child_def Let_def ordered_at_def split: if_splits)
qed

lemma down_child_Some:
  assumes "down_child key i n xs = Some j"
  shows "key (xs ! j) < key (xs ! i)"
    and "c < n \<Longrightarrow> 0 < c \<Longrightarrow> heap_parent c = i \<Longrightarrow> key (xs ! j) \<le> key (xs ! c)"
proof -
  show "key (xs ! j) < key (xs ! i)"
    using assms by (auto simp: down_child_def Let_def split: if_splits)
  assume "c < n" "0 < c" "heap_parent c = i"
  then have "c = 2 * i + 1 \<or> c = 2 * i + 2" using parent_cases by blast
  with assms \<open>c < n\<close> show "key (xs ! j) \<le> key (xs ! c)"
    by (auto simp: down_child_def Let_def split: if_splits)
qed

lemma hole_moves_down:
  assumes hole: "hole_at key k i n xs" and child: "down_child key i n xs = Some j" and "n \<le> length xs" "k \<le> i"
  shows "hole_at key k j n (swap i j xs)" "ordered_at key (swap i j xs) j"
proof -
  note b = down_child_bounds [OF child] and small = down_child_Some [OF child]
  have nth: "swap i j xs ! c = (if c = j then xs ! i else if c = i then xs ! j else xs ! c)" for c
    using b assms(3) by (simp add: nth_swap)
  show "ordered_at key (swap i j xs) j"
    using b small(1) by (simp add: ordered_at_def nth)
  have "ordered_at key (swap i j xs) c"
    if c: "c < n" "0 < c" "k \<le> heap_parent c" "c \<noteq> j" "heap_parent c \<noteq> j" for c
  proof (cases "c = i \<or> heap_parent c = i")
    case True
    then show ?thesis
    proof
      assume "c = i"
      then have "heap_parent c \<noteq> i" using parent_less [OF c(2)] by simp
      moreover have "key (xs ! heap_parent i) \<le> key (xs ! j)"
        using hole b c \<open>c = i\<close> unfolding hole_at_def by auto
      ultimately show ?thesis using c \<open>c = i\<close> by (simp add: ordered_at_def nth)
    next
      assume p: "heap_parent c = i"
      then have "c \<noteq> i" using parent_less [OF c(2)] by simp
      with small(2) [OF c(1,2) p] p c show ?thesis by (simp add: ordered_at_def nth)
    qed
  next
    case False
    with hole c have "ordered_at key xs c" unfolding hole_at_def by blast
    with False c show ?thesis by (simp add: ordered_at_def nth)
  qed
  moreover have "key (swap i j xs ! heap_parent j) \<le> key (swap i j xs ! c)"
    if c: "c < n" "0 < c" "heap_parent c = j" for c
  proof -
    have "c \<noteq> i" "c \<noteq> j" using b parent_less [OF c(2)] c(3) by auto
    moreover have "ordered_at key xs c"
      using hole c b assms(4) \<open>c \<noteq> i\<close> unfolding hole_at_def by auto
    ultimately show ?thesis using b c by (simp add: ordered_at_def nth)
  qed
  ultimately show "hole_at key k j n (swap i j xs)" unfolding hole_at_def by blast
qed

lemma hole_filled:
  assumes "hole_at key k i n xs" "down_child key i n xs = None"
    and "0 < i \<Longrightarrow> k \<le> heap_parent i \<Longrightarrow> ordered_at key xs i"
  shows "heap_from key k n xs"
  unfolding heap_from_def
proof (intro allI impI)
  fix c assume c: "c < n" "0 < c" "k \<le> heap_parent c"
  show "ordered_at key xs c"
  proof (cases "c = i \<or> heap_parent c = i")
    case True
    with assms(2,3) c down_child_None show ?thesis by blast
  next
    case False
    with assms(1) c show ?thesis unfolding hole_at_def by blast
  qed
qed

lemma heap_down_to_heap:
  assumes "hole_at key k i n xs" "n \<le> length xs" "k \<le> i"
    and "0 < i \<Longrightarrow> k \<le> heap_parent i \<Longrightarrow> ordered_at key xs i"
  shows "heap_from key k n (snd (heap_down_to key i n xs))"
  using assms
proof (induction key i n xs rule: heap_down_to.induct)
  case (1 key i n xs)
  show ?case
  proof (cases "down_child key i n xs")
    case None
    with hole_filled [OF 1(2) None 1(5)] show ?thesis by (simp add: heap_down_to.simps)
  next
    case (Some j)
    note step = hole_moves_down [OF 1(2) Some 1(3,4)]
    have "heap_from key k n (snd (heap_down_to key j n (swap i j xs)))"
      using 1(1) [OF Some step(1)] step(2) down_child_bounds [OF Some] 1(3,4) by simp
    with Some show ?thesis by (simp add: heap_down_to.simps [of key i])
  qed
qed

lemma heap_down_to_ge: "i \<le> fst (heap_down_to key i n xs)"
proof (induction key i n xs rule: heap_down_to.induct)
  case (1 key i n xs)
  show ?case
  proof (cases "down_child key i n xs")
    case (Some j)
    with 1 [OF Some] down_child_bounds [OF Some] show ?thesis by (simp add: heap_down_to.simps [of key i])
  qed (simp add: heap_down_to.simps)
qed

text \<open>Going up, the order holds except at position \<open>j\<close> itself.\<close>

definition rising_at :: "('a \<Rightarrow> 'k::linorder) \<Rightarrow> nat \<Rightarrow> nat \<Rightarrow> 'a list \<Rightarrow> bool" where
  "rising_at key j n xs \<longleftrightarrow>
     (\<forall>c<n. 0 < c \<longrightarrow> c \<noteq> j \<longrightarrow> ordered_at key xs c) \<and>
     (0 < j \<longrightarrow> (\<forall>c<n. 0 < c \<longrightarrow> heap_parent c = j \<longrightarrow> key (xs ! heap_parent j) \<le> key (xs ! c)))"

lemma rising_moves_up:
  assumes rise: "rising_at key j n xs" and j: "0 < j" "j < n" "n \<le> length xs"
    and less: "key (xs ! j) < key (xs ! heap_parent j)"
  shows "rising_at key (heap_parent j) n (swap (heap_parent j) j xs)"
proof -
  define i where "i = heap_parent j"
  have ij: "i < j" "i < n" using j parent_less [OF j(1)] by (auto simp: i_def)
  have par: "heap_parent j = i" and less': "key (xs ! j) < key (xs ! i)" using less by (simp_all add: i_def)
  have nth: "swap i j xs ! c = (if c = j then xs ! i else if c = i then xs ! j else xs ! c)" for c
    using ij j by (simp add: nth_swap)
  have ord: "ordered_at key xs c" if "c < n" "0 < c" "c \<noteq> j" for c
    using rise that unfolding rising_at_def by blast
  have below: "key (xs ! i) \<le> key (xs ! c)" if "c < n" "0 < c" "heap_parent c = j" for c
    using rise j that unfolding rising_at_def i_def by blast
  have below_i: "key (xs ! i) \<le> key (xs ! c)" if "c < n" "0 < c" "heap_parent c = i" "c \<noteq> j" for c
    using ord [OF that(1,2,4)] that(3) by (simp add: ordered_at_def)
  have "ordered_at key (swap i j xs) c" if c: "c < n" "0 < c" "c \<noteq> i" for c
  proof -
    consider "c = j" | "c \<noteq> j" "heap_parent c = j" | "c \<noteq> j" "heap_parent c = i"
      | "c \<noteq> j" "heap_parent c \<noteq> i" "heap_parent c \<noteq> j" by blast
    then show ?thesis
    proof cases
      case 1
      with less' ij par show ?thesis by (simp add: ordered_at_def nth)
    next
      case 2
      with below c show ?thesis by (simp add: ordered_at_def nth)
    next
      case 3
      with below_i [OF c(1,2) 3(2,1)] less' c ij show ?thesis by (simp add: ordered_at_def nth)
    next
      case 4
      with ord [OF c(1,2)] c show ?thesis by (simp add: ordered_at_def nth)
    qed
  qed
  moreover have "key (swap i j xs ! heap_parent i) \<le> key (swap i j xs ! c)"
    if "0 < i" and c: "c < n" "0 < c" "heap_parent c = i" for c
  proof -
    have p: "heap_parent i < i" using parent_less [OF that(1)] .
    have up: "key (xs ! heap_parent i) \<le> key (xs ! i)" using ord [OF ij(2) that(1)] ij by (simp add: ordered_at_def)
    have "c \<noteq> i" using parent_less [OF c(2)] c(3) by simp
    then show ?thesis
      using up below_i [OF c] p ij by (cases "c = j") (auto simp: nth)
  qed
  ultimately show ?thesis unfolding rising_at_def i_def by blast
qed

lemma heap_up_heap:
  "rising_at key j n xs \<Longrightarrow> j < n \<Longrightarrow> n \<le> length xs \<Longrightarrow> heap_from key 0 n (heap_up key j xs)"
proof (induction key j xs rule: heap_up.induct)
  case (1 key j xs)
  show ?case
  proof (cases "heap_parent j = j \<or> \<not> key (xs ! j) < key (xs ! heap_parent j)")
    case True
    have "heap_from key 0 n xs"
      unfolding heap_from_def
    proof (intro allI impI)
      fix c assume c: "c < n" "0 < c"
      show "ordered_at key xs c"
      proof (cases "c = j")
        case j: True
        with True parent_less [OF c(2)] show ?thesis by (auto simp: ordered_at_def)
      qed (use 1(2) c in \<open>auto simp: rising_at_def\<close>)
    qed
    with True show ?thesis by (simp add: heap_up.simps Let_def)
  next
    case False
    then have j: "0 < j" by (cases j) auto
    from rising_moves_up [OF 1(2) j 1(3,4)] False
    have "rising_at key (heap_parent j) n (swap (heap_parent j) j xs)" by blast
    moreover have "heap_parent j < n" using parent_less [OF j] 1(3) by linarith
    ultimately have "heap_from key 0 n (heap_up key (heap_parent j) (swap (heap_parent j) j xs))"
      using 1(1) [OF refl False] 1(4) by simp
    with False show ?thesis by (simp add: heap_up.simps [of key j] Let_def)
  qed
qed

section \<open>Correctness of the operations\<close>

lemma snd_heap_down: "snd (heap_down key i n xs) = snd (heap_down_to key i n xs)"
  by (simp add: heap_down_def split: prod.split)

lemma heap_Init_loop:
  assumes "k \<le> n div 2" "heap_from key k n xs" "length xs = n"
  shows "is_heap key (fold (\<lambda>i ys. snd (heap_down key i n ys)) (rev [0..<k]) xs) \<and>
    mset (fold (\<lambda>i ys. snd (heap_down key i n ys)) (rev [0..<k]) xs) = mset xs"
  using assms
proof (induction k arbitrary: xs)
  case 0
  then show ?case by (simp add: is_heap_def)
next
  case (Suc k)
  let ?ys = "snd (heap_down key k n xs)"
  have hole: "hole_at key k k n xs"
    using Suc.prems(2) unfolding hole_at_def heap_from_def by (auto simp: le_Suc_eq Suc_le_eq)
  have no_parent: "\<not> (0 < k \<and> k \<le> heap_parent k)" using parent_less [of k] by linarith
  have "heap_from key k n ?ys"
    unfolding snd_heap_down using no_parent Suc.prems(3)
    by (intro heap_down_to_heap [OF hole]) auto
  moreover have "permutes_front n xs ?ys"
    unfolding snd_heap_down using Suc.prems(3) by (intro heap_down_to_front) simp
  note perm = this
  have "length ?ys = n" using permutes_front_length [OF perm] Suc.prems(3) by (rule trans)
  moreover have "mset ?ys = mset xs" using perm unfolding permutes_front_def by (rule conjunct1)
  ultimately show ?case using Suc.IH [of ?ys] Suc.prems(1) by simp
qed

lemma is_heap_Init: "is_heap key (heap_Init key xs)" and mset_heap_Init: "mset (heap_Init key xs) = mset xs"
proof -
  have "heap_from key (length xs div 2) (length xs) xs"
    unfolding heap_from_def by (auto simp: div_le_mono)
  from heap_Init_loop [OF le_refl this refl]
  show "is_heap key (heap_Init key xs)" "mset (heap_Init key xs) = mset xs"
    by (simp_all add: heap_Init_def)
qed

lemma is_heap_Push: "is_heap key xs \<Longrightarrow> is_heap key (heap_Push key x xs)"
  and mset_heap_Push: "mset (heap_Push key x xs) = add_mset x (mset xs)"
proof -
  have perm: "permutes_front (Suc (length xs)) (xs @ [x]) (heap_Push key x xs)"
    unfolding heap_Push_def by (rule heap_up_front) simp_all
  then show "mset (heap_Push key x xs) = add_mset x (mset xs)" by (simp add: permutes_front_def)
  assume heap: "is_heap key xs"
  have "ordered_at key (xs @ [x]) c" if "c < length xs" "0 < c" for c
    using heap that parent_less [OF that(2)] unfolding is_heap_def heap_from_def ordered_at_def
    by (simp add: nth_append)
  then have "rising_at key (length xs) (Suc (length xs)) (xs @ [x])"
    unfolding rising_at_def using parent_less by (fastforce simp: less_Suc_eq)
  from heap_up_heap [OF this] show "is_heap key (heap_Push key x xs)"
    using permutes_front_length [OF perm] by (simp add: is_heap_def heap_Push_def)
qed

lemma heap_from_take: "heap_from key 0 n xs \<Longrightarrow> n \<le> length xs \<Longrightarrow> is_heap key (take n xs)"
  unfolding is_heap_def heap_from_def ordered_at_def by auto

lemma hole_after_swap:
  assumes "is_heap key xs" "i < n" "length xs = Suc n"
  shows "hole_at key 0 i n (swap i n xs)"
proof -
  have ord: "ordered_at key xs c" if "c < Suc n" "0 < c" for c
    using assms that unfolding is_heap_def heap_from_def by simp
  have nth: "swap i n xs ! c = (if c = i then xs ! n else xs ! c)" if "c < n" for c
    using assms that by (simp add: nth_swap)
  have "ordered_at key (swap i n xs) c" if "c < n" "0 < c" "c \<noteq> i" "heap_parent c \<noteq> i" for c
  proof -
    have "heap_parent c < n" using parent_less [OF that(2)] that(1) by linarith
    with ord [of c] that show ?thesis by (simp add: ordered_at_def nth)
  qed
  moreover have "key (swap i n xs ! heap_parent i) \<le> key (swap i n xs ! c)"
    if "0 < i" "c < n" "0 < c" "heap_parent c = i" for c
  proof -
    have "heap_parent i < i" "c \<noteq> i" using parent_less that by auto
    then have "key (xs ! heap_parent i) \<le> key (xs ! c)"
      using ord [of i] ord [of c] that assms(2) by (simp add: ordered_at_def)
    with \<open>c \<noteq> i\<close> \<open>heap_parent i < i\<close> that assms(2) show ?thesis by (simp add: nth)
  qed
  ultimately show ?thesis unfolding hole_at_def by blast
qed

lemma is_heap_min:
  assumes "is_heap key xs" "c < length xs"
  shows "key (xs ! 0) \<le> key (xs ! c)"
  using assms(2)
proof (induction c rule: less_induct)
  case (less c)
  show ?case
  proof (cases "c = 0")
    case False
    then have p: "heap_parent c < c" using parent_less by simp
    then have "key (xs ! 0) \<le> key (xs ! heap_parent c)" using less by simp
    also have "\<dots> \<le> key (xs ! c)"
      using assms(1) less(2) False unfolding is_heap_def heap_from_def ordered_at_def by simp
    finally show ?thesis .
  qed simp
qed

lemma drop_last: "length xs = Suc n \<Longrightarrow> drop n xs = [xs ! n]"
  by (metis Cons_nth_drop_Suc drop_all lessI order_refl)

lemma cut_last:
  assumes "permutes_front n zs ys" "length zs = Suc n"
  shows "ys ! n = zs ! n" "mset zs = add_mset (zs ! n) (mset (take n ys))"
proof -
  have len: "length ys = Suc n" using permutes_front_length [OF assms(1)] assms(2) by simp
  show last: "ys ! n = zs ! n"
    using assms drop_last [OF len] drop_last [OF assms(2)] by (simp add: permutes_front_def)
  have "mset zs = mset ys" using assms(1) by (simp add: permutes_front_def)
  also have "\<dots> = mset (take n ys @ [ys ! n])"
    using drop_last [OF len] append_take_drop_id [of n ys] by simp
  finally show "mset zs = add_mset (zs ! n) (mset (take n ys))" using last by simp
qed

lemma heap_Pop_correct:
  assumes "is_heap key xs" "heap_Pop key xs = Some (x, ys)"
  shows "is_heap key ys" "mset xs = add_mset x (mset ys)" "x = xs ! 0" "\<forall>y\<in>set xs. key x \<le> key y"
proof -
  have ne: "xs \<noteq> []" using assms(2) by (auto simp: heap_Pop_def)
  define n where "n = length xs - 1"
  have len: "length xs = Suc n" using ne by (simp add: n_def)
  let ?zs = "swap 0 n xs" and ?ds = "snd (heap_down_to key 0 n (swap 0 n xs))"
  have res: "x = ?ds ! n" "ys = take n ?ds"
    using assms(2) ne by (simp_all add: heap_Pop_def Let_def snd_heap_down n_def)
  have perm: "permutes_front n ?zs ?ds" using len by (intro heap_down_to_front) simp
  have last: "?zs ! n = xs ! 0" using len by (simp add: nth_swap)
  show x: "x = xs ! 0" using cut_last(1) [OF perm] last res len by simp
  show "mset xs = add_mset x (mset ys)" using cut_last(2) [OF perm] last res len x by simp
  have "heap_from key 0 n ?ds"
  proof (cases "n = 0")
    case False
    then show ?thesis
      using len hole_after_swap [OF assms(1) _ len, of 0] by (intro heap_down_to_heap) simp_all
  qed (simp add: heap_from_def)
  then show "is_heap key ys"
    unfolding res(2) using permutes_front_length [OF perm] len by (intro heap_from_take) simp_all
  show "\<forall>y\<in>set xs. key x \<le> key y"
    using is_heap_min [OF assms(1)] x by (auto simp: in_set_conv_nth)
qed

lemma heap_down_not_moved:
  assumes "heap_down key i n xs = (False, ys)"
  shows "ys = xs" "down_child key i n xs = None"
proof -
  have "down_child key i n xs = None"
  proof (cases "down_child key i n xs")
    case (Some j)
    have "i < fst (heap_down_to key i n xs)"
      using down_child_bounds [OF Some] heap_down_to_ge [of j key n "swap i j xs"] Some
      by (simp add: heap_down_to.simps [of key i])
    with assms show ?thesis by (auto simp: heap_down_def split: prod.splits)
  qed simp
  then show "down_child key i n xs = None" "ys = xs"
    using assms by (auto simp: heap_down_def heap_down_to.simps)
qed

lemma heap_down_moved:
  assumes "heap_down key i n xs = (True, ys)" "hole_at key 0 i n xs" "n \<le> length xs"
  shows "heap_from key 0 n ys"
proof (cases "down_child key i n xs")
  case None
  with assms(1) show ?thesis by (simp add: heap_down_def heap_down_to.simps)
next
  case (Some j)
  have "heap_from key 0 n (snd (heap_down_to key j n (swap i j xs)))"
    using hole_moves_down [OF assms(2) Some assms(3)] assms(3) by (intro heap_down_to_heap) simp_all
  moreover have "ys = snd (heap_down_to key j n (swap i j xs))"
    using assms(1) Some snd_heap_down [of key i n xs] by (simp add: heap_down_to.simps [of key i])
  ultimately show ?thesis by simp
qed

lemma hole_is_rising:
  assumes "hole_at key 0 i n xs" "down_child key i n xs = None"
  shows "rising_at key i n xs"
  using assms down_child_None [OF assms(2)] unfolding hole_at_def rising_at_def by blast

lemma heap_Remove_correct:
  assumes "is_heap key xs" "i < length xs"
  obtains ys where "heap_Remove key i xs = Some (xs ! i, ys)" "is_heap key ys"
    "mset xs = add_mset (xs ! i) (mset ys)"
proof -
  define n where "n = length xs - 1"
  have len: "length xs = Suc n" using assms(2) by (simp add: n_def)
  define ds where "ds = (if n \<noteq> i
     then (case heap_down key i n (swap i n xs) of (True, zs) \<Rightarrow> zs | (False, zs) \<Rightarrow> heap_up key i zs)
     else xs)"
  have res: "heap_Remove key i xs = Some (ds ! n, take n ds)"
    using assms(2) by (simp add: heap_Remove_def ds_def Let_def n_def)
  have perm: "permutes_front n (swap i n xs) ds \<and> heap_from key 0 n ds"
  proof (cases "n = i")
    case True
    have "heap_from key 0 n xs" using assms(1) len by (simp add: is_heap_def heap_from_def)
    moreover have "swap i n xs = xs" using True by (simp add: swap_def)
    ultimately show ?thesis using True by (simp add: ds_def)
  next
    case False
    with assms(2) len have i: "i < n" by simp
    note hole = hole_after_swap [OF assms(1) i len]
    obtain b zs where d: "heap_down key i n (swap i n xs) = (b, zs)" by fastforce
    have front: "permutes_front n (swap i n xs) zs"
      using heap_down_to_front [of n "swap i n xs" key i] snd_heap_down [of key i n "swap i n xs"] d len by simp
    show ?thesis
    proof (cases b)
      case True
      with d heap_down_moved [of key i n "swap i n xs" zs] hole len front False show ?thesis
        by (simp add: ds_def)
    next
      case b: False
      with d have d': "heap_down key i n (swap i n xs) = (False, zs)" by simp
      note stay = heap_down_not_moved [OF d']
      have "heap_from key 0 n (heap_up key i zs)"
        using hole_is_rising [OF hole stay(2)] stay(1) i len by (intro heap_up_heap) simp_all
      moreover have "permutes_front n (swap i n xs) (heap_up key i zs)"
        unfolding stay(1) using i len by (intro heap_up_front) simp_all
      ultimately show ?thesis using d' False by (simp add: ds_def)
    qed
  qed
  have last: "swap i n xs ! n = xs ! i" using assms(2) len by (simp add: nth_swap)
  note cut = cut_last [OF conjunct1 [OF perm]]
  show thesis
  proof (rule that)
    show "heap_Remove key i xs = Some (xs ! i, take n ds)" using res cut(1) last len by simp
    show "is_heap key (take n ds)"
      using perm permutes_front_length [OF conjunct1 [OF perm]] len by (intro heap_from_take) simp_all
    show "mset xs = add_mset (xs ! i) (mset (take n ds))" using cut(2) last len assms(2) by simp
  qed
qed

section \<open>The interface\<close>

text \<open>What a queue ordered by time promises: adding an element, taking an element of the smallest
  time, and the elements it holds.\<close>

locale timed_queue =
  fixes key :: "'a \<Rightarrow> 'k::linorder"
    and push :: "'a \<Rightarrow> 'q \<Rightarrow> 'q"
    and pop :: "'q \<Rightarrow> ('a \<times> 'q) option"
    and ok :: "'q \<Rightarrow> bool"
    and items :: "'q \<Rightarrow> 'a multiset"
  assumes ok_push: "ok q \<Longrightarrow> ok (push x q)"
    and items_push: "ok q \<Longrightarrow> items (push x q) = add_mset x (items q)"
    and pop_None: "ok q \<Longrightarrow> pop q = None \<longleftrightarrow> items q = {#}"
    and pop_Some: "ok q \<Longrightarrow> pop q = Some (x, q') \<Longrightarrow>
      ok q' \<and> items q = add_mset x (items q') \<and> (\<forall>y\<in>#items q. key x \<le> key y)"
begin

lemma pop_later:
  assumes "ok q" "pop q = Some (x, q')" "t < key x"
  shows "\<forall>y\<in>#items q. t < key y"
  using pop_Some [OF assms(1,2)] assms(3) by (meson less_le_trans)

text \<open>Taking an element and putting it back changes nothing but the arrangement.\<close>

lemma pop_push_items:
  assumes "ok q" "pop q = Some (x, q')"
  shows "items (push x q') = items q"
  using pop_Some [OF assms] by (simp add: items_push)

end

interpretation heapq: timed_queue key "heap_Push key" "heap_Pop key" "is_heap key" mset for key
proof
  fix q x q'
  assume ok: "is_heap key q"
  then show "is_heap key (heap_Push key x q)" by (rule is_heap_Push)
  show "mset (heap_Push key x q) = add_mset x (mset q)" by (rule mset_heap_Push)
  show "(heap_Pop key q = None) = (mset q = {#})" by (simp add: heap_Pop_def Let_def)
  assume "heap_Pop key q = Some (x, q')"
  note pop = heap_Pop_correct [OF ok this]
  from pop(4) have "\<forall>y\<in>#mset q. key x \<le> key y" by simp
  with pop(1,2) show "is_heap key q' \<and> mset q = add_mset x (mset q') \<and> (\<forall>y\<in>#mset q. key x \<le> key y)"
    by blast
qed

end
