(* ===== verification/Platform_DB.thy ===== *)
theory Platform_DB
  imports Message_Store
begin

text \<open>
  Instances, sessions and subscriptions in the platform database:
  \<open>src/internal/platform/db/instances.go\<close>, \<open>sessions.go\<close> and \<open>subscriptions.go\<close>, with the
  tables and foreign keys of the migrations.

  The tables are lists of rows in the order of insertion.  A nullable reference is the empty string
  when it is NULL, as the Go structs have it.  Every statement is atomic; a statement that violates
  a constraint is an error and changes nothing; the checks of the row come before uniqueness, and the
  foreign keys, which a row may satisfy by itself, come last.  Where a query orders by the creation time, which
  has the precision of a second, and takes one row, SQLite may take any of the newest rows: that
  choice is the argument \<open>pick\<close>.
\<close>

section \<open>Rows\<close>

record Instance =
  in_ID :: string
  in_AgentName :: string
  in_Mode :: string
  in_ParentID :: string
  in_NodeID :: string
  in_Status :: string
  in_CreatedAt :: gotime
  in_StoppedAt :: "gotime option"

record Session =
  se_ID :: string
  se_InstanceID :: string
  se_AgentName :: string
  se_Mode :: string
  se_ParentID :: string
  se_SubscriptionID :: string
  se_ChannelType :: string
  se_ChannelID :: string
  se_Status :: string
  se_CreatedAt :: gotime
  se_StoppedAt :: "gotime option"

record TriggerDef =
  tr_Type :: string
  tr_Expr :: string
  tr_At :: string

record Subscription =
  su_ID :: string
  su_InstanceID :: string
  su_Name :: string
  su_Trigger :: TriggerDef
  su_Message :: string
  su_Status :: string
  su_NextFire :: "gotime option"
  su_LastFired :: "gotime option"
  su_FireCount :: int
  su_ErrorCount :: int
  su_LastError :: string
  su_CreatedAt :: gotime

record platform_db =
  pdb_instances :: "Instance list"
  pdb_sessions :: "Session list"
  pdb_subs :: "Subscription list"

datatype pdb_error = PErrNotFound | PErrDuplicate | RowNotFound | ConstraintFailed
  | CycleDetected string | DepthExceeded

abbreviation statusRunning :: string where "statusRunning \<equiv> ''running''"
abbreviation statusStopped :: string where "statusStopped \<equiv> ''stopped''"

definition valid_mode :: "string \<Rightarrow> bool" where
  "valid_mode m \<longleftrightarrow> m \<in> {''ephemeral'', ''persistent'', ''operator''}"

definition valid_status :: "string \<Rightarrow> bool" where
  "valid_status s \<longleftrightarrow> s \<in> {statusRunning, statusStopped}"

text \<open>\<open>UPDATE ... WHERE id = ?\<close> with the check of the affected rows: none is an error.\<close>

definition update_row ::
  "('r \<Rightarrow> string) \<Rightarrow> string \<Rightarrow> ('r \<Rightarrow> 'r) \<Rightarrow> 'r list \<Rightarrow> 'r list option" where
  "update_row rid k f rows =
     (if k \<in> rid ` set rows then Some (map (\<lambda>r. if rid r = k then f r else r) rows) else None)"

section \<open>Instances\<close>

definition CreateInstance :: "gotime \<Rightarrow> Instance \<Rightarrow> platform_db \<Rightarrow> pdb_error + platform_db" where
  "CreateInstance now inst db =
     (if \<not> valid_mode (in_Mode inst) then Inl ConstraintFailed
      else if in_ID inst \<in> in_ID ` set (pdb_instances db) then Inl PErrDuplicate
      else if in_ParentID inst \<noteq> [] \<and> in_ParentID inst \<notin> insert (in_ID inst) (in_ID ` set (pdb_instances db))
      then Inl ConstraintFailed
      else Inr (db\<lparr>pdb_instances := pdb_instances db @
             [inst\<lparr>in_NodeID := (if in_NodeID inst = [] then ''home'' else in_NodeID inst),
                   in_Status := statusRunning, in_CreatedAt := second_precision now,
                   in_StoppedAt := None\<rparr>]\<rparr>))"

definition GetInstance :: "string \<Rightarrow> platform_db \<Rightarrow> pdb_error + Instance" where
  "GetInstance k db =
     (case find (\<lambda>i. in_ID i = k) (pdb_instances db) of None \<Rightarrow> Inl PErrNotFound | Some i \<Rightarrow> Inr i)"

definition ListInstances :: "string \<Rightarrow> string \<Rightarrow> platform_db \<Rightarrow> Instance list" where
  "ListInstances parentID status db =
     sort_key in_CreatedAt (filter (\<lambda>i. (parentID \<noteq> [] \<longrightarrow> in_ParentID i = parentID) \<and>
       (status \<noteq> [] \<longrightarrow> in_Status i = status)) (pdb_instances db))"

definition ListChildInstances :: "string \<Rightarrow> platform_db \<Rightarrow> Instance list" where
  "ListChildInstances parentID db = ListInstances parentID [] db"

definition UpdateInstanceStatus ::
  "gotime \<Rightarrow> string \<Rightarrow> string \<Rightarrow> platform_db \<Rightarrow> pdb_error + platform_db" where
  "UpdateInstanceStatus now k status db =
     (case update_row in_ID k (\<lambda>i. i\<lparr>in_Status := status, in_StoppedAt :=
             (if status = statusStopped then Some (second_precision now) else None)\<rparr>) (pdb_instances db) of
        None \<Rightarrow> Inl RowNotFound
      | Some rows \<Rightarrow> if valid_status status then Inr (db\<lparr>pdb_instances := rows\<rparr>) else Inl ConstraintFailed)"

text \<open>\<open>ON DELETE CASCADE\<close> along a parent column: the rows below a set of rows.  One round adds the
  children; as many rounds as there are rows reach everything.\<close>

definition add_children :: "('r \<Rightarrow> string) \<Rightarrow> ('r \<Rightarrow> string) \<Rightarrow> 'r list \<Rightarrow> string list \<Rightarrow> string list" where
  "add_children rid par rows ks =
     ks @ map rid (filter (\<lambda>r. par r \<in> set ks \<and> par r \<noteq> [] \<and> rid r \<notin> set ks) rows)"

definition cascade :: "('r \<Rightarrow> string) \<Rightarrow> ('r \<Rightarrow> string) \<Rightarrow> 'r list \<Rightarrow> string list \<Rightarrow> string list" where
  "cascade rid par rows ks = (add_children rid par rows ^^ length rows) ks"

text \<open>Removing sessions takes the sessions below them along.\<close>

definition remove_sessions :: "string list \<Rightarrow> Session list \<Rightarrow> Session list" where
  "remove_sessions ks rows =
     (let gone = cascade se_ID se_ParentID rows ks in filter (\<lambda>s. se_ID s \<notin> set gone) rows)"

text \<open>Removing subscriptions clears the reference in their sessions.\<close>

definition unlink_subs :: "string list \<Rightarrow> Session list \<Rightarrow> Session list" where
  "unlink_subs ks rows =
     map (\<lambda>s. if se_SubscriptionID s \<in> set ks then s\<lparr>se_SubscriptionID := []\<rparr> else s) rows"

definition DeleteInstance :: "string \<Rightarrow> platform_db \<Rightarrow> pdb_error + platform_db" where
  "DeleteInstance k db =
     (if k \<notin> in_ID ` set (pdb_instances db) then Inl RowNotFound
      else
        let gone = cascade in_ID in_ParentID (pdb_instances db) [k];
            subs = map su_ID (filter (\<lambda>s. su_InstanceID s \<in> set gone) (pdb_subs db));
            sess = map se_ID (filter (\<lambda>s. se_InstanceID s \<noteq> [] \<and> se_InstanceID s \<in> set gone) (pdb_sessions db))
        in Inr (db\<lparr>pdb_instances := filter (\<lambda>i. in_ID i \<notin> set gone) (pdb_instances db),
                   pdb_subs := filter (\<lambda>s. su_InstanceID s \<notin> set gone) (pdb_subs db),
                   pdb_sessions := unlink_subs subs (remove_sessions sess (pdb_sessions db))\<rparr>))"

text \<open>The walk towards the root with the guard against cycles and the bound of 100 rounds.\<close>

fun descendant_walk :: "Instance list \<Rightarrow> string \<Rightarrow> nat \<Rightarrow> string list \<Rightarrow> string \<Rightarrow> pdb_error + bool" where
  "descendant_walk rows ancestorID 0 visited current = Inl DepthExceeded"
| "descendant_walk rows ancestorID (Suc n) visited current =
     (if current \<in> set visited then Inl (CycleDetected current)
      else if current = ancestorID then Inr True
      else case find (\<lambda>i. in_ID i = current) rows of
             None \<Rightarrow> Inr False
           | Some i \<Rightarrow> if in_ParentID i = [] then Inr False
                       else descendant_walk rows ancestorID n (current # visited) (in_ParentID i))"

definition IsInstanceDescendant :: "string \<Rightarrow> string \<Rightarrow> platform_db \<Rightarrow> pdb_error + bool" where
  "IsInstanceDescendant targetID ancestorID db = descendant_walk (pdb_instances db) ancestorID 100 [] targetID"

section \<open>Sessions\<close>

definition CreateSession :: "gotime \<Rightarrow> Session \<Rightarrow> platform_db \<Rightarrow> pdb_error + platform_db" where
  "CreateSession now s db =
     (if \<not> valid_mode (se_Mode s) then Inl ConstraintFailed
      else if se_ID s \<in> se_ID ` set (pdb_sessions db) then Inl PErrDuplicate
      else if (se_ParentID s \<noteq> [] \<and> se_ParentID s \<notin> insert (se_ID s) (se_ID ` set (pdb_sessions db))) \<or>
              (se_InstanceID s \<noteq> [] \<and> se_InstanceID s \<notin> in_ID ` set (pdb_instances db)) \<or>
              (se_SubscriptionID s \<noteq> [] \<and> se_SubscriptionID s \<notin> su_ID ` set (pdb_subs db))
      then Inl ConstraintFailed
      else Inr (db\<lparr>pdb_sessions := pdb_sessions db @
             [s\<lparr>se_Status := statusRunning, se_CreatedAt := second_precision now, se_StoppedAt := None\<rparr>]\<rparr>))"

definition GetSession :: "string \<Rightarrow> platform_db \<Rightarrow> pdb_error + Session" where
  "GetSession k db =
     (case find (\<lambda>s. se_ID s = k) (pdb_sessions db) of None \<Rightarrow> Inl PErrNotFound | Some s \<Rightarrow> Inr s)"

definition ListSessions :: "string \<Rightarrow> string \<Rightarrow> platform_db \<Rightarrow> Session list" where
  "ListSessions parentID status db =
     sort_key se_CreatedAt (filter (\<lambda>s. (parentID \<noteq> [] \<longrightarrow> se_ParentID s = parentID) \<and>
       (status \<noteq> [] \<longrightarrow> se_Status s = status)) (pdb_sessions db))"

definition ListChildSessions :: "string \<Rightarrow> platform_db \<Rightarrow> Session list" where
  "ListChildSessions parentID db = ListSessions parentID [] db"

definition ListSessionsByInstance :: "string \<Rightarrow> platform_db \<Rightarrow> Session list" where
  "ListSessionsByInstance instanceID db =
     sort_key se_CreatedAt (filter (\<lambda>s. se_InstanceID s = instanceID \<and> instanceID \<noteq> []) (pdb_sessions db))"

definition newest :: "(Session list \<Rightarrow> Session) \<Rightarrow> Session list \<Rightarrow> Session option" where
  "newest pick rows =
     (let top = filter (\<lambda>s. \<forall>s' \<in> set rows. se_CreatedAt s' \<le> se_CreatedAt s) rows
      in if top = [] then None else Some (pick top))"

definition LatestSessionByInstance ::
  "(Session list \<Rightarrow> Session) \<Rightarrow> string \<Rightarrow> platform_db \<Rightarrow> Session option" where
  "LatestSessionByInstance pick instanceID db =
     newest pick (filter (\<lambda>s. se_InstanceID s = instanceID \<and> instanceID \<noteq> []) (pdb_sessions db))"

definition LatestSessionByChannel ::
  "(Session list \<Rightarrow> Session) \<Rightarrow> string \<Rightarrow> string \<Rightarrow> string \<Rightarrow> platform_db \<Rightarrow> Session option" where
  "LatestSessionByChannel pick instanceID channelType channelID db =
     newest pick (filter (\<lambda>s. se_InstanceID s = instanceID \<and> instanceID \<noteq> [] \<and>
       se_ChannelType s = channelType \<and> se_ChannelID s = channelID) (pdb_sessions db))"

definition ListSessionsByChannelType :: "string \<Rightarrow> string \<Rightarrow> platform_db \<Rightarrow> Session list" where
  "ListSessionsByChannelType instanceID channelType db =
     sort_key se_CreatedAt (filter (\<lambda>s. se_InstanceID s = instanceID \<and> instanceID \<noteq> [] \<and>
       se_ChannelType s = channelType) (pdb_sessions db))"

definition UpdateSessionStatus ::
  "gotime \<Rightarrow> string \<Rightarrow> string \<Rightarrow> platform_db \<Rightarrow> pdb_error + platform_db" where
  "UpdateSessionStatus now k status db =
     (case update_row se_ID k (\<lambda>s. s\<lparr>se_Status := status, se_StoppedAt :=
             (if status = statusStopped then Some (second_precision now) else None)\<rparr>) (pdb_sessions db) of
        None \<Rightarrow> Inl RowNotFound
      | Some rows \<Rightarrow> if valid_status status then Inr (db\<lparr>pdb_sessions := rows\<rparr>) else Inl ConstraintFailed)"

definition LinkSessionToSubscription :: "string \<Rightarrow> string \<Rightarrow> platform_db \<Rightarrow> pdb_error + platform_db" where
  "LinkSessionToSubscription sessionID subscriptionID db =
     (case update_row se_ID sessionID (\<lambda>s. s\<lparr>se_SubscriptionID := subscriptionID\<rparr>) (pdb_sessions db) of
        None \<Rightarrow> Inr db
      | Some rows \<Rightarrow> if subscriptionID \<in> su_ID ` set (pdb_subs db) then Inr (db\<lparr>pdb_sessions := rows\<rparr>)
                     else Inl ConstraintFailed)"

definition DeleteSession :: "string \<Rightarrow> platform_db \<Rightarrow> pdb_error + platform_db" where
  "DeleteSession k db =
     (if k \<notin> se_ID ` set (pdb_sessions db) then Inl RowNotFound
      else Inr (db\<lparr>pdb_sessions := remove_sessions [k] (pdb_sessions db)\<rparr>))"

definition SessionBySubscription ::
  "(Session list \<Rightarrow> Session) \<Rightarrow> string \<Rightarrow> platform_db \<Rightarrow> Session option" where
  "SessionBySubscription pick subscriptionID db =
     (let rows = filter (\<lambda>s. se_SubscriptionID s = subscriptionID \<and> subscriptionID \<noteq> []) (pdb_sessions db)
      in if rows = [] then None else Some (pick rows))"

text \<open>Counts of the messages that are not meta messages, by session; sessions without any are left
  out.\<close>

definition SessionMessageCounts :: "string list \<Rightarrow> Message list \<Rightarrow> (string, nat) gomap" where
  "SessionMessageCounts sessionIDs msgs =
     map (\<lambda>sid. (sid, length (filter (\<lambda>m. msg_SessionID m = sid \<and> \<not> msg_Meta m) msgs)))
       (filter (\<lambda>sid. \<exists>m \<in> set msgs. msg_SessionID m = sid \<and> \<not> msg_Meta m) (remdups sessionIDs))"

section \<open>Cascades\<close>

definition child_rel :: "('r \<Rightarrow> string) \<Rightarrow> ('r \<Rightarrow> string) \<Rightarrow> 'r list \<Rightarrow> (string \<times> string) set" where
  "child_rel rid par rows = {(par r, rid r) | r. r \<in> set rows \<and> par r \<noteq> []}"

lemma set_add_children:
  "set (add_children rid par rows ks) = set ks \<union> child_rel rid par rows `` set ks"
  by (auto simp: add_children_def child_rel_def)

lemma set_cascade_rounds:
  "set ((add_children rid par rows ^^ n) ks) \<subseteq> (child_rel rid par rows)\<^sup>* `` set ks"
proof (induction n)
  case (Suc n)
  have "x \<in> (child_rel rid par rows)\<^sup>* `` set ks"
    if "x \<in> child_rel rid par rows `` set ((add_children rid par rows ^^ n) ks)" for x
    using that Suc by (blast intro: rtrancl_into_rtrancl)
  with Suc show ?case by (auto simp: set_add_children)
qed auto

text \<open>A round that adds nothing is the last; otherwise at least one row is new.\<close>

lemma cascade_progress:
  fixes rid par :: "'r \<Rightarrow> string" and rows :: "'r list"
  defines "step \<equiv> add_children rid par rows"
  shows "set ((step ^^ Suc n) ks) = set ((step ^^ n) ks) \<or> Suc n \<le> card (set ((step ^^ Suc n) ks) \<inter> rid ` set rows)"
proof (induction n)
  case 0
  show ?case
  proof (cases "set (step ks) = set ks")
    case False
    then obtain x where "x \<in> set (step ks)" "x \<in> rid ` set rows"
      by (auto simp: step_def set_add_children child_rel_def)
    then have "set (step ks) \<inter> rid ` set rows \<noteq> {}" by blast
    then show ?thesis by (simp add: Suc_le_eq card_gt_0_iff)
  qed simp
next
  case (Suc n)
  let ?S = "\<lambda>n. set ((step ^^ n) ks)"
  show ?case
  proof (cases "?S (Suc (Suc n)) = ?S (Suc n)")
    case False
    have sub: "?S (Suc n) \<subset> ?S (Suc (Suc n))" using False by (auto simp: step_def set_add_children)
    then obtain x where x: "x \<in> ?S (Suc (Suc n))" "x \<notin> ?S (Suc n)" by blast
    then have "x \<in> rid ` set rows" by (auto simp: step_def set_add_children child_rel_def)
    with x have "?S (Suc n) \<inter> rid ` set rows \<subset> ?S (Suc (Suc n)) \<inter> rid ` set rows" using sub by blast
    then have "card (?S (Suc n) \<inter> rid ` set rows) < card (?S (Suc (Suc n)) \<inter> rid ` set rows)"
      by (intro psubset_card_mono) simp_all
    moreover have "?S (Suc n) \<noteq> ?S n"
      using False by (auto simp: step_def set_add_children)
    ultimately show ?thesis using Suc by simp
  qed simp
qed

lemma cascade_closed:
  "child_rel rid par rows `` set (cascade rid par rows ks) \<subseteq> set (cascade rid par rows ks)"
proof -
  define step where "step = add_children rid par rows"
  let ?n = "length rows"
  have le: "card (A \<inter> rid ` set rows) \<le> ?n" for A
    by (meson card_mono card_length card_image_le finite_set finite_imageI inf_le2 le_trans)
  have "set ((step ^^ Suc ?n) ks) = set ((step ^^ ?n) ks)"
    using cascade_progress [where rid = rid and par = par and rows = rows and n = ?n and ks = ks] le [of "set ((step ^^ Suc ?n) ks)"]
    unfolding step_def [symmetric] by linarith
  then show ?thesis by (auto simp: cascade_def step_def set_add_children)
qed

lemma cascade_start: "set ks \<subseteq> set (cascade rid par rows ks)"
proof -
  have "set ks \<subseteq> set ((add_children rid par rows ^^ n) ks)" for n
    by (induction n) (auto simp: set_add_children)
  then show ?thesis by (simp add: cascade_def)
qed

lemma set_cascade: "set (cascade rid par rows ks) = (child_rel rid par rows)\<^sup>* `` set ks"
proof
  show "set (cascade rid par rows ks) \<subseteq> (child_rel rid par rows)\<^sup>* `` set ks"
    by (simp add: cascade_def set_cascade_rounds)
  have "y \<in> set (cascade rid par rows ks)"
    if "(x, y) \<in> (child_rel rid par rows)\<^sup>*" "x \<in> set ks" for x y
    using that
  proof (induction rule: rtrancl_induct)
    case base
    then show ?case using cascade_start by blast
  next
    case (step y z)
    then show ?case using cascade_closed by blast
  qed
  then show "(child_rel rid par rows)\<^sup>* `` set ks \<subseteq> set (cascade rid par rows ks)" by blast
qed

section \<open>The walk to the root\<close>

definition parent_of :: "Instance list \<Rightarrow> string \<Rightarrow> string option" where
  "parent_of rows k =
     (case find (\<lambda>i. in_ID i = k) rows of
        None \<Rightarrow> None | Some i \<Rightarrow> if in_ParentID i = [] then None else Some (in_ParentID i))"

definition parent_rel :: "Instance list \<Rightarrow> (string \<times> string) set" where
  "parent_rel rows = {(p, c). parent_of rows c = Some p}"

lemma descendant_walk_step:
  "descendant_walk rows a (Suc n) visited c =
     (if c \<in> set visited then Inl (CycleDetected c)
      else if c = a then Inr True
      else case parent_of rows c of None \<Rightarrow> Inr False | Some p \<Rightarrow> descendant_walk rows a n (c # visited) p)"
  by (auto simp: parent_of_def split: option.split)

declare descendant_walk.simps(2) [simp del]

lemma above_first:
  assumes "parent_of rows c = Some p" "a \<noteq> c"
  shows "(a, c) \<in> (parent_rel rows)\<^sup>* \<longleftrightarrow> (a, p) \<in> (parent_rel rows)\<^sup>*"
proof
  assume "(a, c) \<in> (parent_rel rows)\<^sup>*"
  then show "(a, p) \<in> (parent_rel rows)\<^sup>*"
  proof (cases rule: rtranclE)
    case (step y)
    with assms(1) show ?thesis by (simp add: parent_rel_def)
  qed (use assms(2) in simp)
next
  assume "(a, p) \<in> (parent_rel rows)\<^sup>*"
  moreover have "(p, c) \<in> parent_rel rows" using assms(1) by (simp add: parent_rel_def)
  ultimately show "(a, c) \<in> (parent_rel rows)\<^sup>*" by (rule rtrancl_into_rtrancl)
qed

lemma above_none:
  assumes "parent_of rows c = None"
  shows "(a, c) \<in> (parent_rel rows)\<^sup>* \<longleftrightarrow> a = c"
proof
  assume "(a, c) \<in> (parent_rel rows)\<^sup>*"
  then show "a = c" by (cases rule: rtranclE) (use assms in \<open>auto simp: parent_rel_def\<close>)
qed simp

lemma descendant_walk_answer:
  "descendant_walk rows a n visited c = Inr b \<Longrightarrow> b \<longleftrightarrow> (a, c) \<in> (parent_rel rows)\<^sup>*"
proof (induction n arbitrary: visited c)
  case (Suc n)
  show ?case
  proof (cases "parent_of rows c")
    case None
    with Suc.prems show ?thesis
      by (auto simp: descendant_walk_step above_none split: if_splits)
  next
    case (Some p)
    with Suc.prems Suc.IH [of "c # visited" p] show ?thesis
      by (auto simp: descendant_walk_step above_first split: if_splits)
  qed
qed simp

text \<open>While walking, the visited instances are distinct and each is a proper descendant of the
  current one.\<close>

lemma descendant_walk_error:
  assumes "descendant_walk rows a n visited c = Inl e"
    and "distinct visited" "\<forall>v\<in>set visited. (c, v) \<in> (parent_rel rows)\<^sup>+" "length visited + n = 100"
    and "\<forall>v\<in>set visited. (v, t) \<in> (parent_rel rows)\<^sup>*" "(c, t) \<in> (parent_rel rows)\<^sup>*"
  shows "(\<exists>x. e = CycleDetected x \<and> (x, x) \<in> (parent_rel rows)\<^sup>+) \<or>
    e = DepthExceeded \<and> (\<exists>xs. distinct xs \<and> length xs = 100 \<and> (\<forall>x\<in>set xs. (x, t) \<in> (parent_rel rows)\<^sup>*))"
  using assms
proof (induction n arbitrary: visited c)
  case 0
  then show ?case by auto
next
  case (Suc n)
  show ?case
  proof (cases "c \<in> set visited")
    case True
    with Suc.prems show ?thesis by (auto simp: descendant_walk_step)
  next
    case False
    with Suc.prems(1) obtain p where p: "parent_of rows c = Some p"
      "descendant_walk rows a n (c # visited) p = Inl e"
      by (auto simp: descendant_walk_step split: if_splits option.splits)
    then have pc: "(p, c) \<in> parent_rel rows" by (simp add: parent_rel_def)
    show ?thesis
    proof (rule Suc.IH [OF p(2)])
      show "\<forall>v\<in>set (c # visited). (p, v) \<in> (parent_rel rows)\<^sup>+"
        using Suc.prems(3) pc by (auto intro: trancl_trans r_into_trancl)
      show "(p, t) \<in> (parent_rel rows)\<^sup>*"
        using Suc.prems(6) pc by (rule converse_rtrancl_into_rtrancl [rotated])
    qed (use Suc.prems False in auto)
  qed
qed

text \<open>
  The check whether one instance is below another is right whenever it answers: it says yes
  exactly when the ancestor is reached by parent links.  It fails only for a reason that exists: it
  reports a cycle only where the parent links have one, and the depth bound only when an instance
  really has a hundred distinct ancestors.
\<close>

theorem IsInstanceDescendant_correct:
  "case IsInstanceDescendant t a db of
     Inr b \<Rightarrow> b \<longleftrightarrow> (a, t) \<in> (parent_rel (pdb_instances db))\<^sup>*
   | Inl e \<Rightarrow> (\<exists>x. e = CycleDetected x \<and> (x, x) \<in> (parent_rel (pdb_instances db))\<^sup>+) \<or>
       e = DepthExceeded \<and> (\<exists>xs. distinct xs \<and> length xs = 100 \<and>
         list_all (\<lambda>x. (x, t) \<in> (parent_rel (pdb_instances db))\<^sup>*) xs)"
proof (cases "IsInstanceDescendant t a db")
  case (Inl e)
  then have "descendant_walk (pdb_instances db) a 100 [] t = Inl e" by (simp add: IsInstanceDescendant_def)
  from descendant_walk_error [OF this, of t] Inl show ?thesis by (simp add: list_all_iff)
next
  case (Inr b)
  then show ?thesis using descendant_walk_answer [of "pdb_instances db" a 100 "[]" t b]
    by (simp add: IsInstanceDescendant_def)
qed

end
