(* ===== verification/Subscription_Store.thy ===== *)
theory Subscription_Store
  imports Platform_DB
begin

text \<open>
  Subscriptions in the platform database, \<open>src/internal/platform/db/subscriptions.go\<close>, and the
  integrity of the instances, sessions and subscriptions as a whole: every operation on the tables
  keeps keys unique and references satisfied.

  Times are stored with the precision of a second.
\<close>

section \<open>Subscriptions\<close>

abbreviation sub_active :: string where "sub_active \<equiv> ''active''"
abbreviation sub_paused :: string where "sub_paused \<equiv> ''paused''"

definition zeroTime :: gotime where "zeroTime = - 62135596800000000000"

definition CreateSubscription :: "gotime \<Rightarrow> Subscription \<Rightarrow> platform_db \<Rightarrow> pdb_error + platform_db" where
  "CreateSubscription now sub db =
     (if su_Status sub \<notin> {sub_active, sub_paused} then Inl ConstraintFailed
      else if su_ID sub \<in> su_ID ` set (pdb_subs db) \<or>
              (su_InstanceID sub, su_Name sub) \<in> (\<lambda>s. (su_InstanceID s, su_Name s)) ` set (pdb_subs db)
      then Inl PErrDuplicate
      else if su_InstanceID sub \<notin> in_ID ` set (pdb_instances db) then Inl ConstraintFailed
      else Inr (db\<lparr>pdb_subs := pdb_subs db @
             [sub\<lparr>su_NextFire := map_option second_precision (su_NextFire sub), su_LastFired := None,
                  su_FireCount := 0, su_ErrorCount := 0, su_LastError := [],
                  su_CreatedAt := second_precision now\<rparr>]\<rparr>))"

definition GetSubscription :: "string \<Rightarrow> platform_db \<Rightarrow> pdb_error + Subscription" where
  "GetSubscription k db =
     (case find (\<lambda>s. su_ID s = k) (pdb_subs db) of None \<Rightarrow> Inl PErrNotFound | Some s \<Rightarrow> Inr s)"

definition GetSubscriptionByName :: "string \<Rightarrow> string \<Rightarrow> platform_db \<Rightarrow> pdb_error + Subscription" where
  "GetSubscriptionByName instanceID name db =
     (case find (\<lambda>s. su_InstanceID s = instanceID \<and> su_Name s = name) (pdb_subs db) of
        None \<Rightarrow> Inl PErrNotFound
      | Some s \<Rightarrow> GetSubscription (su_ID s) db)"

definition ListSubscriptionsByInstance :: "string \<Rightarrow> platform_db \<Rightarrow> Subscription list" where
  "ListSubscriptionsByInstance instanceID db =
     sort_key su_CreatedAt (filter (\<lambda>s. su_InstanceID s = instanceID) (pdb_subs db))"

definition ListActiveSubscriptions :: "platform_db \<Rightarrow> Subscription list" where
  "ListActiveSubscriptions db =
     sort_key (\<lambda>s. the (su_NextFire s))
       (filter (\<lambda>s. su_Status s = sub_active \<and> su_NextFire s \<noteq> None) (pdb_subs db))"

definition UpdateSubscriptionFired ::
  "string \<Rightarrow> gotime \<Rightarrow> gotime option \<Rightarrow> platform_db \<Rightarrow> pdb_error + platform_db" where
  "UpdateSubscriptionFired k firedAt nextFire db =
     (case update_row su_ID k (\<lambda>s. s\<lparr>su_LastFired := Some (second_precision firedAt),
             su_FireCount := su_FireCount s + 1, su_NextFire := map_option second_precision nextFire,
             su_ErrorCount := 0, su_LastError := []\<rparr>) (pdb_subs db) of
        None \<Rightarrow> Inl PErrNotFound | Some rows \<Rightarrow> Inr (db\<lparr>pdb_subs := rows\<rparr>))"

definition UpdateSubscriptionError ::
  "string \<Rightarrow> gotime option \<Rightarrow> string \<Rightarrow> platform_db \<Rightarrow> pdb_error + platform_db" where
  "UpdateSubscriptionError k nextFire errMsg db =
     (case update_row su_ID k (\<lambda>s. s\<lparr>su_ErrorCount := su_ErrorCount s + 1, su_LastError := errMsg,
             su_NextFire := map_option second_precision nextFire\<rparr>) (pdb_subs db) of
        None \<Rightarrow> Inl PErrNotFound | Some rows \<Rightarrow> Inr (db\<lparr>pdb_subs := rows\<rparr>))"

text \<open>A missing \<open>nextFire\<close> leaves the column, the zero time clears it.\<close>

definition UpdateSubscriptionStatus ::
  "string \<Rightarrow> string \<Rightarrow> gotime option \<Rightarrow> platform_db \<Rightarrow> pdb_error + platform_db" where
  "UpdateSubscriptionStatus k status nextFire db =
     (case update_row su_ID k (\<lambda>s. s\<lparr>su_Status := status, su_NextFire :=
             (case nextFire of
                None \<Rightarrow> su_NextFire s
              | Some t \<Rightarrow> if t = zeroTime then None else Some (second_precision t))\<rparr>) (pdb_subs db) of
        None \<Rightarrow> Inl PErrNotFound
      | Some rows \<Rightarrow> if status \<in> {sub_active, sub_paused} then Inr (db\<lparr>pdb_subs := rows\<rparr>)
                     else Inl ConstraintFailed)"

definition set_instance_status :: "string \<Rightarrow> string \<Rightarrow> string \<Rightarrow> Subscription list \<Rightarrow> Subscription list" where
  "set_instance_status instanceID old new rows =
     map (\<lambda>s. if su_InstanceID s = instanceID \<and> su_Status s = old then s\<lparr>su_Status := new\<rparr> else s) rows"

definition PauseInstanceSubscriptions :: "string \<Rightarrow> platform_db \<Rightarrow> platform_db" where
  "PauseInstanceSubscriptions instanceID db =
     db\<lparr>pdb_subs := set_instance_status instanceID sub_active sub_paused (pdb_subs db)\<rparr>"

definition ResumeInstanceSubscriptions :: "string \<Rightarrow> platform_db \<Rightarrow> Subscription list \<times> platform_db" where
  "ResumeInstanceSubscriptions instanceID db =
     (let db' = db\<lparr>pdb_subs := set_instance_status instanceID sub_paused sub_active (pdb_subs db)\<rparr>
      in (sort_key su_CreatedAt
            (filter (\<lambda>s. su_InstanceID s = instanceID \<and> su_Status s = sub_active) (pdb_subs db')), db'))"

definition ListAllSubscriptions :: "platform_db \<Rightarrow> Subscription list" where
  "ListAllSubscriptions db =
     sort_key su_InstanceID (sort_key su_CreatedAt (pdb_subs db))"

definition remove_sub :: "(Subscription \<Rightarrow> bool) \<Rightarrow> platform_db \<Rightarrow> platform_db" where
  "remove_sub P db = db\<lparr>pdb_subs := filter (\<lambda>s. \<not> P s) (pdb_subs db),
     pdb_sessions := unlink_subs (map su_ID (filter P (pdb_subs db))) (pdb_sessions db)\<rparr>"

definition DeleteSubscription :: "string \<Rightarrow> platform_db \<Rightarrow> pdb_error + platform_db" where
  "DeleteSubscription k db =
     (if k \<notin> su_ID ` set (pdb_subs db) then Inl PErrNotFound else Inr (remove_sub (\<lambda>s. su_ID s = k) db))"

definition DeleteSubscriptionByName :: "string \<Rightarrow> string \<Rightarrow> platform_db \<Rightarrow> pdb_error + platform_db" where
  "DeleteSubscriptionByName instanceID name db =
     (let P = (\<lambda>s. su_InstanceID s = instanceID \<and> su_Name s = name)
      in if \<exists>s \<in> set (pdb_subs db). P s then Inr (remove_sub P db) else Inl PErrNotFound)"

section \<open>Integrity\<close>

definition instances_ok :: "Instance list \<Rightarrow> bool" where
  "instances_ok rows \<longleftrightarrow> distinct (map in_ID rows) \<and>
     (\<forall>i\<in>set rows. in_ParentID i = [] \<or> in_ParentID i \<in> in_ID ` set rows)"

definition sessions_ok :: "string set \<Rightarrow> string set \<Rightarrow> Session list \<Rightarrow> bool" where
  "sessions_ok insts subs rows \<longleftrightarrow> distinct (map se_ID rows) \<and>
     (\<forall>s\<in>set rows. (se_ParentID s = [] \<or> se_ParentID s \<in> se_ID ` set rows) \<and>
        (se_InstanceID s = [] \<or> se_InstanceID s \<in> insts) \<and> (se_SubscriptionID s = [] \<or> se_SubscriptionID s \<in> subs))"

definition subs_ok :: "string set \<Rightarrow> Subscription list \<Rightarrow> bool" where
  "subs_ok insts rows \<longleftrightarrow> distinct (map su_ID rows) \<and> distinct (map (\<lambda>s. (su_InstanceID s, su_Name s)) rows) \<and>
     (\<forall>s\<in>set rows. su_InstanceID s \<in> insts \<and> su_Status s \<in> {sub_active, sub_paused})"

definition pdb_ok :: "platform_db \<Rightarrow> bool" where
  "pdb_ok db \<longleftrightarrow> instances_ok (pdb_instances db) \<and> subs_ok (in_ID ` set (pdb_instances db)) (pdb_subs db) \<and>
     sessions_ok (in_ID ` set (pdb_instances db)) (su_ID ` set (pdb_subs db)) (pdb_sessions db)"

lemma update_row_set:
  "update_row rid k f rows = Some rows' \<Longrightarrow> r' \<in> set rows' \<Longrightarrow> \<exists>r\<in>set rows. r' = (if rid r = k then f r else r)"
  by (auto simp: update_row_def split: if_splits)

lemma update_row_keys:
  "update_row rid k f rows = Some rows' \<Longrightarrow> (\<And>r. key (f r) = key r) \<Longrightarrow> map key rows' = map key rows"
  by (auto simp: update_row_def split: if_splits)

lemma instances_ok_update:
  assumes "instances_ok rows" "update_row in_ID k f rows = Some rows'"
    and "\<And>i. in_ID (f i) = in_ID i" "\<And>i. in_ParentID (f i) = in_ParentID i"
  shows "instances_ok rows' \<and> in_ID ` set rows' = in_ID ` set rows"
proof -
  have ids: "map in_ID rows' = map in_ID rows" using update_row_keys [OF assms(2)] assms(3) by blast
  then have img: "in_ID ` set rows' = in_ID ` set rows" by (metis set_map)
  have "in_ParentID i = [] \<or> in_ParentID i \<in> in_ID ` set rows" if i: "i \<in> set rows'" for i
  proof -
    obtain r where "r \<in> set rows" "i = (if in_ID r = k then f r else r)"
      using update_row_set [OF assms(2) i] by blast
    with assms(1) assms(4) show ?thesis by (auto simp: instances_ok_def)
  qed
  with ids img assms(1) show ?thesis by (simp add: instances_ok_def)
qed

lemma sessions_ok_update:
  assumes "sessions_ok insts subs rows" "update_row se_ID k f rows = Some rows'"
    and "\<And>s. se_ID (f s) = se_ID s" "\<And>s. se_ParentID (f s) = se_ParentID s"
    "\<And>s. se_InstanceID (f s) = se_InstanceID s"
    and sub: "\<And>s. se_SubscriptionID (f s) = se_SubscriptionID s \<or> se_SubscriptionID (f s) \<in> subs"
  shows "sessions_ok insts subs rows'"
proof -
  have ids: "map se_ID rows' = map se_ID rows" using update_row_keys [OF assms(2)] assms(3) by blast
  then have img: "se_ID ` set rows' = se_ID ` set rows" by (metis set_map)
  have "(se_ParentID s = [] \<or> se_ParentID s \<in> se_ID ` set rows) \<and>
      (se_InstanceID s = [] \<or> se_InstanceID s \<in> insts) \<and> (se_SubscriptionID s = [] \<or> se_SubscriptionID s \<in> subs)"
    if s: "s \<in> set rows'" for s
  proof -
    obtain r where "r \<in> set rows" "s = (if se_ID r = k then f r else r)"
      using update_row_set [OF assms(2) s] by blast
    with assms(1) assms(4,5) sub [of r] show ?thesis by (auto simp: sessions_ok_def)
  qed
  with ids img assms(1) show ?thesis by (simp add: sessions_ok_def)
qed

lemma subs_ok_update:
  assumes "subs_ok insts rows" "update_row su_ID k f rows = Some rows'"
    and "\<And>s. su_ID (f s) = su_ID s" "\<And>s. su_InstanceID (f s) = su_InstanceID s" "\<And>s. su_Name (f s) = su_Name s"
    and st: "\<And>s. su_Status s \<in> {sub_active, sub_paused} \<Longrightarrow> su_Status (f s) \<in> {sub_active, sub_paused}"
  shows "subs_ok insts rows' \<and> su_ID ` set rows' = su_ID ` set rows"
proof -
  have ids: "map su_ID rows' = map su_ID rows" using update_row_keys [OF assms(2)] assms(3) by blast
  then have img: "su_ID ` set rows' = su_ID ` set rows" by (metis set_map)
  have names: "map (\<lambda>s. (su_InstanceID s, su_Name s)) rows' = map (\<lambda>s. (su_InstanceID s, su_Name s)) rows"
    using update_row_keys [OF assms(2), of "\<lambda>s. (su_InstanceID s, su_Name s)"] assms(4,5) by simp
  have "su_InstanceID s \<in> insts \<and> su_Status s \<in> {sub_active, sub_paused}" if s: "s \<in> set rows'" for s
  proof -
    obtain r where "r \<in> set rows" "s = (if su_ID r = k then f r else r)"
      using update_row_set [OF assms(2) s] by blast
    with assms(1) assms(4) st [of r] show ?thesis by (auto simp: subs_ok_def)
  qed
  with ids img names assms(1) show ?thesis by (simp add: subs_ok_def)
qed

lemma sessions_ok_mono:
  "sessions_ok insts subs rows \<Longrightarrow> insts \<subseteq> insts' \<Longrightarrow> subs \<subseteq> subs' \<Longrightarrow> sessions_ok insts' subs' rows"
  unfolding sessions_ok_def by blast

lemma subs_ok_mono: "subs_ok insts rows \<Longrightarrow> insts \<subseteq> insts' \<Longrightarrow> subs_ok insts' rows"
  unfolding subs_ok_def by blast

lemma sessions_ok_remove:
  assumes "sessions_ok insts subs rows"
  shows "sessions_ok insts subs (remove_sessions ks rows)"
proof -
  let ?gone = "set (cascade se_ID se_ParentID rows ks)"
  let ?rest = "remove_sessions ks rows"
  have rest: "set ?rest = {s \<in> set rows. se_ID s \<notin> ?gone}" by (auto simp: remove_sessions_def Let_def)
  have "se_ParentID s \<in> se_ID ` set ?rest" if s: "s \<in> set ?rest" and ne: "se_ParentID s \<noteq> []" for s
  proof -
    have sr: "s \<in> set rows" "se_ID s \<notin> ?gone" using s rest by auto
    then obtain p where p: "p \<in> set rows" "se_ID p = se_ParentID s"
      using assms ne by (auto simp: sessions_ok_def)
    have "(se_ParentID s, se_ID s) \<in> child_rel se_ID se_ParentID rows"
      using sr ne by (auto simp: child_rel_def)
    then have "se_ParentID s \<notin> ?gone" using sr cascade_closed by blast
    with p rest show ?thesis by (metis (mono_tags, lifting) imageI mem_Collect_eq)
  qed
  moreover have "distinct (map se_ID ?rest)"
    using assms by (simp add: sessions_ok_def remove_sessions_def Let_def distinct_map_filter)
  ultimately show ?thesis
    using assms rest unfolding sessions_ok_def by auto
qed

lemma sessions_ok_unlink:
  assumes "sessions_ok insts subs rows"
  shows "sessions_ok insts (subs - set ks) (unlink_subs ks rows)"
proof -
  have "map se_ID (unlink_subs ks rows) = map se_ID rows" by (simp add: unlink_subs_def)
  then have "se_ID ` set (unlink_subs ks rows) = se_ID ` set rows" by (metis set_map)
  moreover have "distinct (map se_ID (unlink_subs ks rows))"
    using assms \<open>map se_ID (unlink_subs ks rows) = map se_ID rows\<close> by (simp add: sessions_ok_def)
  ultimately show ?thesis
    using assms by (auto simp: sessions_ok_def unlink_subs_def split: if_splits)
qed

lemma subs_ok_filter: "subs_ok insts rows \<Longrightarrow> subs_ok insts (filter P rows)"
  by (auto simp: subs_ok_def distinct_map_filter)

lemma subs_ok_restrict:
  assumes "subs_ok insts rows" "\<forall>s\<in>set rows. P s \<longrightarrow> su_InstanceID s \<in> insts'"
  shows "subs_ok insts' (filter P rows)"
  using assms by (auto simp: subs_ok_def distinct_map_filter)

lemma instances_ok_remove:
  assumes "instances_ok rows" and gone: "gone = set (cascade in_ID in_ParentID rows ks)"
  shows "instances_ok (filter (\<lambda>i. in_ID i \<notin> gone) rows)"
proof -
  have "in_ParentID i \<in> in_ID ` set (filter (\<lambda>i. in_ID i \<notin> gone) rows)"
    if i: "i \<in> set rows" "in_ID i \<notin> gone" and ne: "in_ParentID i \<noteq> []" for i
  proof -
    obtain p where p: "p \<in> set rows" "in_ID p = in_ParentID i"
      using assms i ne by (auto simp: instances_ok_def)
    have "(in_ParentID i, in_ID i) \<in> child_rel in_ID in_ParentID rows" using i ne by (auto simp: child_rel_def)
    then have "in_ParentID i \<notin> gone" using i cascade_closed unfolding gone by blast
    with p have "p \<in> set (filter (\<lambda>i. in_ID i \<notin> gone) rows)" by simp
    with p(2) show ?thesis by (metis imageI)
  qed
  with assms show ?thesis by (auto simp: instances_ok_def distinct_map_filter)
qed

lemma cascaded_sessions:
  assumes "s \<in> set (remove_sessions (map se_ID (filter P rows)) rows)"
  shows "s \<in> set rows \<and> \<not> P s"
proof -
  have "s \<in> set rows" "se_ID s \<notin> set (cascade se_ID se_ParentID rows (map se_ID (filter P rows)))"
    using assms by (auto simp: remove_sessions_def Let_def)
  with cascade_start [of "map se_ID (filter P rows)" se_ID se_ParentID rows] show ?thesis by auto
qed

lemma pdb_ok_DeleteInstance:
  assumes "pdb_ok db" "DeleteInstance k db = Inr db'"
  shows "pdb_ok db'"
proof -
  define gone where "gone = set (cascade in_ID in_ParentID (pdb_instances db) [k])"
  define subs where "subs = map su_ID (filter (\<lambda>s. su_InstanceID s \<in> gone) (pdb_subs db))"
  define P where "P s \<longleftrightarrow> se_InstanceID s \<noteq> [] \<and> se_InstanceID s \<in> gone" for s :: Session
  let ?I = "filter (\<lambda>i. in_ID i \<notin> gone) (pdb_instances db)"
  let ?S = "remove_sessions (map se_ID (filter P (pdb_sessions db))) (pdb_sessions db)"
  let ?U = "filter (\<lambda>s. su_InstanceID s \<notin> gone) (pdb_subs db)"
  have db': "db' = db\<lparr>pdb_instances := ?I, pdb_subs := ?U, pdb_sessions := unlink_subs subs ?S\<rparr>"
    using assms(2)
    by (simp add: DeleteInstance_def Let_def gone_def subs_def P_def [abs_def] split: if_splits)
  have ok: "instances_ok (pdb_instances db)" "subs_ok (in_ID ` set (pdb_instances db)) (pdb_subs db)"
    "sessions_ok (in_ID ` set (pdb_instances db)) (su_ID ` set (pdb_subs db)) (pdb_sessions db)"
    using assms(1) by (simp_all add: pdb_ok_def)
  have inst: "in_ID ` set ?I = in_ID ` set (pdb_instances db) - gone" by auto
  have "instances_ok ?I" using instances_ok_remove [OF ok(1) gone_def] .
  moreover have "subs_ok (in_ID ` set ?I) ?U"
    by (rule subs_ok_restrict [OF ok(2)]) (use ok(2) inst in \<open>auto simp: subs_ok_def\<close>)
  moreover have "sessions_ok (in_ID ` set ?I) (su_ID ` set (pdb_subs db)) ?S"
    using sessions_ok_remove [OF ok(3), of "map se_ID (filter P (pdb_sessions db))"]
      cascaded_sessions [of _ P "pdb_sessions db"] inst
    unfolding sessions_ok_def P_def by blast
  then have "sessions_ok (in_ID ` set ?I) (su_ID ` set (pdb_subs db) - set subs) (unlink_subs subs ?S)"
    by (rule sessions_ok_unlink)
  moreover have "su_ID ` set (pdb_subs db) - set subs \<subseteq> su_ID ` set ?U" by (auto simp: subs_def)
  ultimately show ?thesis
    unfolding pdb_ok_def db' by (auto intro: sessions_ok_mono)
qed

lemma pdb_ok_remove_sub:
  assumes "pdb_ok db"
  shows "pdb_ok (remove_sub P db)"
proof -
  have "sessions_ok (in_ID ` set (pdb_instances db))
      (su_ID ` set (pdb_subs db) - set (map su_ID (filter P (pdb_subs db))))
      (unlink_subs (map su_ID (filter P (pdb_subs db))) (pdb_sessions db))"
    using assms by (intro sessions_ok_unlink) (simp add: pdb_ok_def)
  then have "sessions_ok (in_ID ` set (pdb_instances db)) (su_ID ` set (filter (\<lambda>s. \<not> P s) (pdb_subs db)))
      (unlink_subs (map su_ID (filter P (pdb_subs db))) (pdb_sessions db))"
    by (rule sessions_ok_mono) auto
  with assms show ?thesis by (simp add: pdb_ok_def remove_sub_def subs_ok_filter)
qed

section \<open>Operations as data\<close>

datatype pdb_op =
    OpCreateInstance gotime Instance
  | OpInstanceStatus gotime string string
  | OpDeleteInstance string
  | OpCreateSession gotime Session
  | OpSessionStatus gotime string string
  | OpLinkSession string string
  | OpDeleteSession string
  | OpCreateSub gotime Subscription
  | OpSubFired string gotime "gotime option"
  | OpSubError string "gotime option" string
  | OpSubStatus string string "gotime option"
  | OpPauseSubs string
  | OpResumeSubs string
  | OpDeleteSub string
  | OpDeleteSubByName string string

fun pdb_exec :: "pdb_op \<Rightarrow> platform_db \<Rightarrow> pdb_error + platform_db" where
  "pdb_exec (OpCreateInstance now i) db = CreateInstance now i db"
| "pdb_exec (OpInstanceStatus now k st) db = UpdateInstanceStatus now k st db"
| "pdb_exec (OpDeleteInstance k) db = DeleteInstance k db"
| "pdb_exec (OpCreateSession now s) db = CreateSession now s db"
| "pdb_exec (OpSessionStatus now k st) db = UpdateSessionStatus now k st db"
| "pdb_exec (OpLinkSession k sub) db = LinkSessionToSubscription k sub db"
| "pdb_exec (OpDeleteSession k) db = DeleteSession k db"
| "pdb_exec (OpCreateSub now s) db = CreateSubscription now s db"
| "pdb_exec (OpSubFired k t n) db = UpdateSubscriptionFired k t n db"
| "pdb_exec (OpSubError k n msg) db = UpdateSubscriptionError k n msg db"
| "pdb_exec (OpSubStatus k st n) db = UpdateSubscriptionStatus k st n db"
| "pdb_exec (OpPauseSubs i) db = Inr (PauseInstanceSubscriptions i db)"
| "pdb_exec (OpResumeSubs i) db = Inr (snd (ResumeInstanceSubscriptions i db))"
| "pdb_exec (OpDeleteSub k) db = DeleteSubscription k db"
| "pdb_exec (OpDeleteSubByName i n) db = DeleteSubscriptionByName i n db"

definition pdb_step :: "pdb_op \<Rightarrow> platform_db \<Rightarrow> platform_db" where
  "pdb_step op db = (case pdb_exec op db of Inl _ \<Rightarrow> db | Inr db' \<Rightarrow> db')"

definition empty_pdb :: platform_db where
  "empty_pdb = \<lparr>pdb_instances = [], pdb_sessions = [], pdb_subs = []\<rparr>"

lemma subs_ok_set_status:
  assumes "subs_ok insts rows" "new \<in> {sub_active, sub_paused}"
  shows "subs_ok insts (set_instance_status i old new rows) \<and>
    su_ID ` set (set_instance_status i old new rows) = su_ID ` set rows"
proof -
  let ?r = "set_instance_status i old new rows"
  have ids: "map su_ID ?r = map su_ID rows" and
    names: "map (\<lambda>s. (su_InstanceID s, su_Name s)) ?r = map (\<lambda>s. (su_InstanceID s, su_Name s)) rows"
    by (simp_all add: set_instance_status_def)
  from ids have "su_ID ` set ?r = su_ID ` set rows" by (metis set_map)
  moreover have "\<forall>s\<in>set ?r. su_InstanceID s \<in> insts \<and> su_Status s \<in> {sub_active, sub_paused}"
    using assms unfolding subs_ok_def set_instance_status_def by auto
  ultimately show ?thesis using assms(1) unfolding subs_ok_def ids names by blast
qed

lemma pdb_ok_subs_update:
  assumes "pdb_ok db" "update_row su_ID k f (pdb_subs db) = Some rows"
    and "\<And>s. su_ID (f s) = su_ID s" "\<And>s. su_InstanceID (f s) = su_InstanceID s" "\<And>s. su_Name (f s) = su_Name s"
    and "\<And>s. su_Status s \<in> {sub_active, sub_paused} \<Longrightarrow> su_Status (f s) \<in> {sub_active, sub_paused}"
  shows "pdb_ok (db\<lparr>pdb_subs := rows\<rparr>)"
proof -
  have "subs_ok (in_ID ` set (pdb_instances db)) rows \<and> su_ID ` set rows = su_ID ` set (pdb_subs db)"
    by (rule subs_ok_update [OF _ assms(2-)]) (use assms(1) in \<open>simp_all add: pdb_ok_def\<close>)
  with assms(1) show ?thesis by (simp add: pdb_ok_def)
qed

lemma pdb_ok_sessions_update:
  assumes "pdb_ok db" "update_row se_ID k f (pdb_sessions db) = Some rows"
    and "\<And>s. se_ID (f s) = se_ID s" "\<And>s. se_ParentID (f s) = se_ParentID s"
    "\<And>s. se_InstanceID (f s) = se_InstanceID s"
    and "\<And>s. se_SubscriptionID (f s) = se_SubscriptionID s \<or> se_SubscriptionID (f s) \<in> su_ID ` set (pdb_subs db)"
  shows "pdb_ok (db\<lparr>pdb_sessions := rows\<rparr>)"
  using assms(1) sessions_ok_update [OF _ assms(2-)] by (simp add: pdb_ok_def)

lemma pdb_ok_CreateInstance:
  assumes "pdb_ok db" "CreateInstance now i db = Inr db'"
  shows "pdb_ok db'"
proof -
  define j where "j = i\<lparr>in_NodeID := (if in_NodeID i = [] then ''home'' else in_NodeID i),
    in_Status := statusRunning, in_CreatedAt := second_precision now, in_StoppedAt := None\<rparr>"
  have j: "in_ID j = in_ID i" "in_ParentID j = in_ParentID i"
    "db' = db\<lparr>pdb_instances := pdb_instances db @ [j]\<rparr>"
    using assms(2) by (simp_all add: CreateInstance_def j_def split: if_splits)
  have "in_ID i \<notin> in_ID ` set (pdb_instances db)"
    "in_ParentID i = [] \<or> in_ParentID i \<in> insert (in_ID i) (in_ID ` set (pdb_instances db))"
    using assms(2) by (auto simp: CreateInstance_def split: if_splits)
  with assms(1) j(1,2) have "instances_ok (pdb_instances db @ [j])"
    unfolding pdb_ok_def instances_ok_def by auto
  moreover have "in_ID ` set (pdb_instances db) \<subseteq> in_ID ` set (pdb_instances db @ [j])" by auto
  ultimately show ?thesis
    using assms(1) unfolding j(3) pdb_ok_def
    by (auto intro: subs_ok_mono sessions_ok_mono)
qed

lemma pdb_ok_CreateSession:
  assumes "pdb_ok db" "CreateSession now s db = Inr db'"
  shows "pdb_ok db'"
proof -
  define t where "t = s\<lparr>se_Status := statusRunning, se_CreatedAt := second_precision now, se_StoppedAt := None\<rparr>"
  have t: "se_ID t = se_ID s" "se_ParentID t = se_ParentID s" "se_InstanceID t = se_InstanceID s"
    "se_SubscriptionID t = se_SubscriptionID s" "db' = db\<lparr>pdb_sessions := pdb_sessions db @ [t]\<rparr>"
    using assms(2) by (simp_all add: CreateSession_def t_def split: if_splits)
  have "se_ID s \<notin> se_ID ` set (pdb_sessions db)"
    "se_ParentID s = [] \<or> se_ParentID s \<in> insert (se_ID s) (se_ID ` set (pdb_sessions db))"
    "se_InstanceID s = [] \<or> se_InstanceID s \<in> in_ID ` set (pdb_instances db)"
    "se_SubscriptionID s = [] \<or> se_SubscriptionID s \<in> su_ID ` set (pdb_subs db)"
    using assms(2) by (auto simp: CreateSession_def split: if_splits)
  with assms(1) t(1-4) show ?thesis
    unfolding t(5) pdb_ok_def sessions_ok_def by auto
qed

lemma pdb_ok_CreateSubscription:
  assumes "pdb_ok db" "CreateSubscription now s db = Inr db'"
  shows "pdb_ok db'"
proof -
  define t where "t = s\<lparr>su_NextFire := map_option second_precision (su_NextFire s), su_LastFired := None,
    su_FireCount := 0, su_ErrorCount := 0, su_LastError := [], su_CreatedAt := second_precision now\<rparr>"
  have t: "su_ID t = su_ID s" "su_InstanceID t = su_InstanceID s" "su_Name t = su_Name s"
    "su_Status t = su_Status s" "db' = db\<lparr>pdb_subs := pdb_subs db @ [t]\<rparr>"
    using assms(2) by (simp_all add: CreateSubscription_def t_def split: if_splits)
  have "su_Status s \<in> {sub_active, sub_paused}" "su_ID s \<notin> su_ID ` set (pdb_subs db)"
    "(su_InstanceID s, su_Name s) \<notin> (\<lambda>s. (su_InstanceID s, su_Name s)) ` set (pdb_subs db)"
    "su_InstanceID s \<in> in_ID ` set (pdb_instances db)"
    using assms(2) by (auto simp: CreateSubscription_def split: if_splits)
  with assms(1) t(1-4) have "subs_ok (in_ID ` set (pdb_instances db)) (pdb_subs db @ [t])"
    unfolding pdb_ok_def subs_ok_def by (auto simp: image_iff)
  moreover have "su_ID ` set (pdb_subs db) \<subseteq> su_ID ` set (pdb_subs db @ [t])" by auto
  ultimately show ?thesis
    using assms(1) unfolding t(5) pdb_ok_def by (auto intro: sessions_ok_mono)
qed

lemma pdb_exec_ok:
  assumes "pdb_ok db" "pdb_exec op db = Inr db'"
  shows "pdb_ok db'"
  using assms(2)
proof (cases op)
  case (OpInstanceStatus now k st)
  then obtain rows where r: "db' = db\<lparr>pdb_instances := rows\<rparr>"
    "update_row in_ID k (\<lambda>i. i\<lparr>in_Status := st, in_StoppedAt :=
      (if st = statusStopped then Some (second_precision now) else None)\<rparr>) (pdb_instances db) = Some rows"
    using assms(2) by (auto simp: UpdateInstanceStatus_def split: option.splits if_splits)
  have "instances_ok rows \<and> in_ID ` set rows = in_ID ` set (pdb_instances db)"
    by (rule instances_ok_update [OF _ r(2)]) (use assms(1) in \<open>simp_all add: pdb_ok_def\<close>)
  with assms(1) show ?thesis unfolding r(1) pdb_ok_def by simp
next
  case (OpPauseSubs i)
  have "subs_ok (in_ID ` set (pdb_instances db)) (pdb_subs db)" using assms(1) by (simp add: pdb_ok_def)
  from subs_ok_set_status [OF this, of sub_paused i sub_active] OpPauseSubs assms show ?thesis
    by (auto simp: PauseInstanceSubscriptions_def pdb_ok_def)
next
  case (OpResumeSubs i)
  have "subs_ok (in_ID ` set (pdb_instances db)) (pdb_subs db)" using assms(1) by (simp add: pdb_ok_def)
  from subs_ok_set_status [OF this, of sub_active i sub_paused] OpResumeSubs assms show ?thesis
    by (auto simp: ResumeInstanceSubscriptions_def Let_def pdb_ok_def)
next
  case (OpSessionStatus now k st)
  then show ?thesis
    using assms by (auto simp: UpdateSessionStatus_def intro!: pdb_ok_sessions_update split: option.splits if_splits)
next
  case (OpLinkSession k sub)
  then show ?thesis
    using assms by (auto simp: LinkSessionToSubscription_def intro!: pdb_ok_sessions_update split: option.splits if_splits)
next
  case (OpSubFired k t n)
  then show ?thesis
    using assms by (auto simp: UpdateSubscriptionFired_def intro!: pdb_ok_subs_update split: option.splits)
next
  case (OpSubError k n msg)
  then show ?thesis
    using assms by (auto simp: UpdateSubscriptionError_def intro!: pdb_ok_subs_update split: option.splits)
next
  case (OpSubStatus k st n)
  then show ?thesis
    using assms by (auto simp: UpdateSubscriptionStatus_def intro!: pdb_ok_subs_update split: option.splits if_splits)
next
  case (OpDeleteSession k)
  then show ?thesis
    using assms by (auto simp: DeleteSession_def pdb_ok_def sessions_ok_remove split: if_splits)
next
  case (OpDeleteSub k)
  then show ?thesis using assms by (auto simp: DeleteSubscription_def pdb_ok_remove_sub split: if_splits)
next
  case (OpDeleteSubByName i n)
  then show ?thesis using assms by (auto simp: DeleteSubscriptionByName_def Let_def pdb_ok_remove_sub split: if_splits)
next
  case (OpCreateInstance now i)
  then show ?thesis using assms(2) pdb_ok_CreateInstance [OF assms(1)] by simp
next
  case (OpDeleteInstance k)
  then show ?thesis using assms(2) pdb_ok_DeleteInstance [OF assms(1)] by simp
next
  case (OpCreateSession now s)
  then show ?thesis using assms(2) pdb_ok_CreateSession [OF assms(1)] by simp
next
  case (OpCreateSub now s)
  then show ?thesis using assms(2) pdb_ok_CreateSubscription [OF assms(1)] by simp
qed

text \<open>
  C18. The platform database stays whole: whatever operations run on it, in whatever order and with
  whatever arguments, identifiers stay unique, no two subscriptions of an instance share a name, and
  every instance, session and subscription refers only to rows that exist.
\<close>

theorem platform_db_integrity: "pdb_ok (fold pdb_step ops empty_pdb)"
proof -
  have "pdb_ok (fold pdb_step ops db)" if "pdb_ok db" for db
    using that
  proof (induction ops arbitrary: db)
    case (Cons op ops)
    have "pdb_ok (pdb_step op db)"
      using Cons.prems pdb_exec_ok by (auto simp: pdb_step_def split: sum.split)
    with Cons.IH show ?case by simp
  qed simp
  moreover have "pdb_ok empty_pdb"
    by (simp add: pdb_ok_def empty_pdb_def instances_ok_def subs_ok_def sessions_ok_def)
  ultimately show ?thesis by blast
qed

text \<open>
  Deleting an instance deletes exactly its subtree: the instances that remain are those from
  which the deleted one is not reached by parent links, no session or subscription of a deleted
  instance remains, and every subscription of another instance stays.
\<close>

theorem DeleteInstance_exact:
  assumes "DeleteInstance k db = Inr db'"
  defines "below \<equiv> (child_rel in_ID in_ParentID (pdb_instances db))\<^sup>* `` {k}"
  shows "pdb_instances db' = filter (\<lambda>i. in_ID i \<notin> below) (pdb_instances db) \<and>
    pdb_subs db' = filter (\<lambda>s. su_InstanceID s \<notin> below) (pdb_subs db) \<and>
    (\<forall>s\<in>set (pdb_sessions db'). se_InstanceID s = [] \<or> se_InstanceID s \<notin> below)"
proof -
  have gone: "set (cascade in_ID in_ParentID (pdb_instances db) [k]) = below"
    by (simp add: set_cascade below_def)
  let ?P = "\<lambda>s. se_InstanceID s \<noteq> [] \<and> se_InstanceID s \<in> below"
  let ?S = "remove_sessions (map se_ID (filter ?P (pdb_sessions db))) (pdb_sessions db)"
  have d: "pdb_instances db' = filter (\<lambda>i. in_ID i \<notin> below) (pdb_instances db)"
    "pdb_subs db' = filter (\<lambda>s. su_InstanceID s \<notin> below) (pdb_subs db)"
    "pdb_sessions db' = unlink_subs (map su_ID (filter (\<lambda>s. su_InstanceID s \<in> below) (pdb_subs db))) ?S"
    using assms(1) by (auto simp: DeleteInstance_def Let_def gone split: if_splits)
  have "se_InstanceID s = [] \<or> se_InstanceID s \<notin> below" if s: "s \<in> set (pdb_sessions db')" for s
  proof -
    obtain t where t: "t \<in> set ?S" "se_InstanceID s = se_InstanceID t"
      using s unfolding d(3) by (auto simp: unlink_subs_def split: if_splits)
    from cascaded_sessions [OF t(1)] t(2) show ?thesis by auto
  qed
  with d(1,2) show ?thesis by blast
qed

definition example_instance :: "string \<Rightarrow> string \<Rightarrow> Instance" where
  "example_instance k parent = \<lparr>in_ID = k, in_AgentName = ''a'', in_Mode = ''persistent'', in_ParentID = parent,
     in_NodeID = [], in_Status = [], in_CreatedAt = 0, in_StoppedAt = None\<rparr>"

theorem DeleteInstance_exact_witness:
  "\<exists>db'. DeleteInstance ''r'' (fold pdb_step [OpCreateInstance 0 (example_instance ''r'' []),
     OpCreateInstance 0 (example_instance ''c'' ''r'')] empty_pdb) = Inr db' \<and>
     ''r'' \<notin> in_ID ` set (pdb_instances db')"
proof -
  let ?db = "fold pdb_step [OpCreateInstance 0 (example_instance ''r'' []),
     OpCreateInstance 0 (example_instance ''c'' ''r'')] empty_pdb"
  have "\<not> isl (DeleteInstance ''r'' ?db)" by code_simp
  then obtain db' where d: "DeleteInstance ''r'' ?db = Inr db'" by (cases "DeleteInstance ''r'' ?db") auto
  from DeleteInstance_exact [OF d] d show ?thesis by auto
qed

end
