(* ===== verification/Scheduler.thy ===== *)
theory Scheduler
  imports Go_Heap Subscription_Store
begin

text \<open>
  The subscription scheduler, \<open>src/internal/agent/scheduler.go\<close>: a heap of entries ordered by
  their next fire time, the guard against overlapping fires, pausing and resuming the subscriptions
  of an instance, and the loop that sleeps until the next entry is due.

  Cron expressions and RFC 3339 times are parsed by library code, which is the argument \<open>env\<close>; the
  turn that a fire runs is represented by its error.  Each critical section under the mutex is one
  step, also in the loop of \<open>fireReady\<close>; the signal to the loop is a step of its own after it.  The field \<open>index\<close> of an entry
  is only ever written and is left out.
\<close>

section \<open>Entries\<close>

record 'sch subEntry =
  en_sub :: Subscription
  en_schedule :: "'sch option"
  en_nextFire :: gotime

record 'sch trigger_env =
  cron_Parse :: "string \<Rightarrow> 'sch option"
  cron_Next :: "'sch \<Rightarrow> gotime \<Rightarrow> gotime"
  parse_RFC3339 :: "string \<Rightarrow> gotime option"

record 'sch Scheduler =
  sc_heap :: "'sch subEntry list"
  sc_running :: "(string, string) gomap"
  sc_cancelled :: "(string, bool) gomap"
  sc_wake :: bool
  sc_db :: platform_db

abbreviation entry_id :: "'sch subEntry \<Rightarrow> string" where
  "entry_id e \<equiv> su_ID (en_sub e)"

abbreviation entry_inst :: "'sch subEntry \<Rightarrow> string" where
  "entry_inst e \<equiv> su_InstanceID (en_sub e)"

definition NewScheduler :: "platform_db \<Rightarrow> 'sch Scheduler" where
  "NewScheduler db = \<lparr>sc_heap = [], sc_running = [], sc_cancelled = [], sc_wake = False, sc_db = db\<rparr>"

text \<open>A database call whose error is only logged.\<close>

definition try_db :: "(platform_db \<Rightarrow> pdb_error + platform_db) \<Rightarrow> platform_db \<Rightarrow> platform_db" where
  "try_db f db = (case f db of Inl _ \<Rightarrow> db | Inr db' \<Rightarrow> db')"

definition buildEntry ::
  "'sch trigger_env \<Rightarrow> gotime \<Rightarrow> Subscription \<Rightarrow> platform_db \<Rightarrow> 'sch subEntry option \<times> platform_db" where
  "buildEntry env now sub db =
     (if tr_Type (su_Trigger sub) = ''cron'' then
        (case cron_Parse env (tr_Expr (su_Trigger sub)) of
           None \<Rightarrow> (None, db)
         | Some sched \<Rightarrow> (Some \<lparr>en_sub = sub, en_schedule = Some sched, en_nextFire = cron_Next env sched now\<rparr>, db))
      else if tr_Type (su_Trigger sub) = ''once'' then
        (case parse_RFC3339 env (tr_At (su_Trigger sub)) of
           None \<Rightarrow> (None, db)
         | Some t \<Rightarrow>
             if \<not> now < t then (None, try_db (DeleteSubscription (su_ID sub)) db)
             else (Some \<lparr>en_sub = sub, en_schedule = None, en_nextFire = t\<rparr>, db))
      else (None, db))"

section \<open>Operations\<close>

fun start_entries ::
  "'sch trigger_env \<Rightarrow> gotime \<Rightarrow> Subscription list \<Rightarrow> platform_db \<Rightarrow> 'sch subEntry list \<times> platform_db" where
  "start_entries env now [] db = ([], db)"
| "start_entries env now (sub # subs) db =
     (case buildEntry env now sub db of
        (None, db1) \<Rightarrow> start_entries env now subs db1
      | (Some e, db1) \<Rightarrow> (case start_entries env now subs db1 of (es, db2) \<Rightarrow> (e # es, db2)))"

definition sched_Start :: "'sch trigger_env \<Rightarrow> gotime \<Rightarrow> 'sch Scheduler \<Rightarrow> 'sch Scheduler" where
  "sched_Start env now s =
     (case start_entries env now (ListActiveSubscriptions (sc_db s)) (sc_db s) of
        (es, db) \<Rightarrow> s\<lparr>sc_heap := heap_Init en_nextFire (sc_heap s @ es), sc_db := db\<rparr>)"

definition sched_Add :: "'sch trigger_env \<Rightarrow> gotime \<Rightarrow> Subscription \<Rightarrow> 'sch Scheduler \<Rightarrow> 'sch Scheduler" where
  "sched_Add env now sub s =
     (case buildEntry env now sub (sc_db s) of
        (None, db) \<Rightarrow> s\<lparr>sc_db := db\<rparr>
      | (Some e, db) \<Rightarrow> s\<lparr>sc_heap := heap_Push en_nextFire e (sc_heap s), sc_db := db\<rparr>)"

fun index_of :: "('a \<Rightarrow> bool) \<Rightarrow> 'a list \<Rightarrow> nat option" where
  "index_of P [] = None"
| "index_of P (x # xs) = (if P x then Some 0 else map_option Suc (index_of P xs))"

definition is_running :: "string \<Rightarrow> 'sch Scheduler \<Rightarrow> bool" where
  "is_running k s \<longleftrightarrow> gomap_get_str (sc_running s) k \<noteq> []"

definition is_cancelled :: "string \<Rightarrow> 'sch Scheduler \<Rightarrow> bool" where
  "is_cancelled k s \<longleftrightarrow> gomap_get (sc_cancelled s) k = Some True"

definition sched_Remove :: "string \<Rightarrow> 'sch Scheduler \<Rightarrow> 'sch Scheduler" where
  "sched_Remove k s =
     (case index_of (\<lambda>e. entry_id e = k) (sc_heap s) of
        Some i \<Rightarrow> s\<lparr>sc_heap := (case heap_Remove en_nextFire i (sc_heap s) of
                                None \<Rightarrow> sc_heap s | Some (_, h) \<Rightarrow> h)\<rparr>
      | None \<Rightarrow> if is_running k s then s\<lparr>sc_cancelled := gomap_put k True (sc_cancelled s)\<rparr> else s)"

text \<open>\<open>dbok\<close> says whether the database statement succeeded.\<close>

definition sched_PauseInstance :: "bool \<Rightarrow> string \<Rightarrow> 'sch Scheduler \<Rightarrow> 'sch Scheduler" where
  "sched_PauseInstance dbok instanceID s =
     (if \<not> dbok then s
      else s\<lparr>sc_db := PauseInstanceSubscriptions instanceID (sc_db s),
             sc_heap := heap_Init en_nextFire (filter (\<lambda>e. entry_inst e \<noteq> instanceID) (sc_heap s)),
             sc_cancelled := fold (\<lambda>(k, inst). if inst = instanceID then gomap_put k True else id)
               (sc_running s) (sc_cancelled s)\<rparr>)"

fun resume_entries ::
  "'sch trigger_env \<Rightarrow> gotime \<Rightarrow> Subscription list \<Rightarrow> platform_db \<Rightarrow> 'sch subEntry list \<times> platform_db" where
  "resume_entries env now [] db = ([], db)"
| "resume_entries env now (sub # subs) db =
     (case buildEntry env now sub db of
        (None, db1) \<Rightarrow> resume_entries env now subs db1
      | (Some e, db1) \<Rightarrow>
          (case resume_entries env now subs
                  (try_db (UpdateSubscriptionStatus (su_ID sub) sub_active (Some (en_nextFire e))) db1) of
             (es, db2) \<Rightarrow> (e # es, db2)))"

definition sched_ResumeInstance ::
  "'sch trigger_env \<Rightarrow> bool \<Rightarrow> gotime \<Rightarrow> string \<Rightarrow> 'sch Scheduler \<Rightarrow> 'sch Scheduler" where
  "sched_ResumeInstance env dbok now instanceID s =
     (if \<not> dbok then s
      else case ResumeInstanceSubscriptions instanceID (sc_db s) of
             (subs, db1) \<Rightarrow>
               (case resume_entries env now subs db1 of
                  (es, db2) \<Rightarrow> s\<lparr>sc_heap := fold (heap_Push en_nextFire) es (sc_heap s), sc_db := db2\<rparr>))"

lemma length_heap_Pop:
  assumes "heap_Pop key xs = Some (x, ys)"
  shows "length ys < length xs"
proof -
  have "xs \<noteq> []" "\<exists>zs. ys = take (length xs - 1) zs"
    using assms by (auto simp: heap_Pop_def Let_def split: if_splits)
  then obtain zs where "length xs > 0" "ys = take (length xs - 1) zs" by auto
  moreover from this have "length ys \<le> length xs - 1" by simp
  ultimately show ?thesis by linarith
qed

text \<open>One critical section of the loop of \<open>fireReady\<close>: the entry whose fire it starts, or the end of the
  loop.  \<open>fire_loop\<close> is the loop when nothing comes between its critical sections; it lists the
  entries started, in order.\<close>

definition fire_one :: "gotime \<Rightarrow> 'sch Scheduler \<Rightarrow> 'sch subEntry option \<times> 'sch Scheduler" where
  "fire_one now s =
     (if sc_heap s = [] \<or> now < en_nextFire (sc_heap s ! 0) then (None, s)
      else case heap_Pop en_nextFire (sc_heap s) of
             None \<Rightarrow> (None, s)
           | Some (e, h) \<Rightarrow>
               if is_running (entry_id e) s
               then (None, s\<lparr>sc_heap := heap_Push en_nextFire e h\<rparr>)
               else (Some e, s\<lparr>sc_heap := h,
                       sc_running := gomap_put (entry_id e) (entry_inst e) (sc_running s)\<rparr>))"

lemma fire_one_shrinks:
  assumes "fire_one now s = (Some e, s')"
  shows "length (sc_heap s') < length (sc_heap s)"
proof -
  obtain h where "heap_Pop en_nextFire (sc_heap s) = Some (e, h)" "sc_heap s' = h"
    using assms by (auto simp: fire_one_def split: if_splits option.splits)
  then show ?thesis using length_heap_Pop by metis
qed

function fire_loop :: "gotime \<Rightarrow> 'sch Scheduler \<Rightarrow> 'sch subEntry list \<times> 'sch Scheduler" where
  "fire_loop now s =
     (case fire_one now s of
        (None, s') \<Rightarrow> ([], s')
      | (Some e, s') \<Rightarrow> (case fire_loop now s' of (es, s'') \<Rightarrow> (e # es, s'')))"
  by pat_completeness auto
termination
  by (relation "measure (\<lambda>(now, s). length (sc_heap s))") (auto dest: fire_one_shrinks [OF sym])

declare fire_loop.simps [simp del]

definition fireReady :: "gotime \<Rightarrow> 'sch Scheduler \<Rightarrow> 'sch subEntry list \<times> 'sch Scheduler" where
  "fireReady now s = fire_loop now s"

text \<open>\<open>fireSingle\<close> after the turn: the next time, the record of the outcome in the database, and
  the critical section at the end.\<close>

definition fire_next :: "'sch trigger_env \<Rightarrow> gotime \<Rightarrow> string option \<Rightarrow> 'sch subEntry \<Rightarrow> gotime option" where
  "fire_next env now err e =
     (if tr_Type (su_Trigger (en_sub e)) = ''once'' \<and> err = None then None
      else map_option (\<lambda>sch. cron_Next env sch now) (en_schedule e))"

definition fire_record ::
  "'sch trigger_env \<Rightarrow> gotime \<Rightarrow> gotime \<Rightarrow> string option \<Rightarrow> 'sch subEntry \<Rightarrow> 'sch Scheduler \<Rightarrow> 'sch Scheduler" where
  "fire_record env firedAt now err e s =
     (let next = map_option (\<lambda>sch. cron_Next env sch now) (en_schedule e);
          db1 = (case err of
                   Some msg \<Rightarrow> try_db (UpdateSubscriptionError (entry_id e) next msg) (sc_db s)
                 | None \<Rightarrow> try_db (UpdateSubscriptionFired (entry_id e) firedAt next) (sc_db s));
          db2 = (if tr_Type (su_Trigger (en_sub e)) = ''once'' \<and> err = None
                 then try_db (DeleteSubscription (entry_id e)) db1 else db1)
      in s\<lparr>sc_db := db2\<rparr>)"

definition fire_finish :: "gotime option \<Rightarrow> 'sch subEntry \<Rightarrow> 'sch Scheduler \<Rightarrow> 'sch Scheduler" where
  "fire_finish next e s =
     (let k = entry_id e;
          s1 = s\<lparr>sc_running := gomap_del k (sc_running s), sc_cancelled := gomap_del k (sc_cancelled s)\<rparr>
      in case next of
           Some t \<Rightarrow> if \<not> is_cancelled k s
                     then s1\<lparr>sc_heap := heap_Push en_nextFire (e\<lparr>en_nextFire := t\<rparr>) (sc_heap s)\<rparr> else s1
         | None \<Rightarrow> s1)"

definition signal :: "'sch Scheduler \<Rightarrow> 'sch Scheduler" where
  "signal s = s\<lparr>sc_wake := True\<rparr>"

definition computeNextFire :: "'sch trigger_env \<Rightarrow> TriggerDef \<Rightarrow> gotime \<Rightarrow> gotime option" where
  "computeNextFire env trig after =
     map_option en_nextFire (fst (buildEntry env after
       \<lparr>su_ID = [], su_InstanceID = [], su_Name = [], su_Trigger = trig, su_Message = [], su_Status = [],
        su_NextFire = None, su_LastFired = None, su_FireCount = 0, su_ErrorCount = 0, su_LastError = [],
        su_CreatedAt = zeroTime\<rparr> empty_pdb))"

section \<open>The system\<close>

text \<open>The loop is at its top, or waiting, with a deadline or without, or in the loop of \<open>fireReady\<close>
  with the time it read; \<open>sys_signals\<close> counts the operations that have left their critical section
  and are about to signal.\<close>

datatype loop_pc = LoopTop | LoopWait "gotime option" | LoopFire gotime

record 'sch sched_sys =
  sys_s :: "'sch Scheduler"
  sys_flight :: "'sch subEntry list"
  sys_loop :: loop_pc
  sys_signals :: nat
  sys_now :: gotime

definition sys_start :: "'sch trigger_env \<Rightarrow> gotime \<Rightarrow> platform_db \<Rightarrow> 'sch sched_sys" where
  "sys_start env now db = \<lparr>sys_s = sched_Start env now (NewScheduler db), sys_flight = [], sys_loop = LoopTop,
     sys_signals = 0, sys_now = now\<rparr>"

abbreviation change :: "('sch Scheduler \<Rightarrow> 'sch Scheduler) \<Rightarrow> 'sch sched_sys \<Rightarrow> 'sch sched_sys" where
  "change f y \<equiv> y\<lparr>sys_s := f (sys_s y), sys_signals := Suc (sys_signals y)\<rparr>"

definition live :: "'sch sched_sys \<Rightarrow> 'sch subEntry list" where
  "live y = sc_heap (sys_s y) @ filter (\<lambda>e. \<not> is_cancelled (entry_id e) (sys_s y)) (sys_flight y)"

text \<open>One step of the system.  A subscription is added under a new identifier, and an instance is
  resumed when none of its subscriptions is scheduled, as after a pause.  The rest of the program may
  change the database at any time.\<close>

inductive sched_step :: "'sch trigger_env \<Rightarrow> 'sch sched_sys \<Rightarrow> 'sch sched_sys \<Rightarrow> bool"
  for env :: "'sch trigger_env" where
  step_add: "su_InstanceID sub \<noteq> [] \<Longrightarrow> \<forall>e\<in>set (sc_heap (sys_s y) @ sys_flight y). entry_id e \<noteq> su_ID sub \<Longrightarrow>
     sched_step env y (change (sched_Add env (sys_now y) sub) y)"
| step_remove: "sched_step env y (change (sched_Remove k) y)"
| step_pause: "sched_step env y (change (sched_PauseInstance dbok inst) y)"
| step_resume: "inst \<noteq> [] \<Longrightarrow> distinct (map su_ID (pdb_subs (sc_db (sys_s y)))) \<Longrightarrow>
     \<forall>e\<in>set (live y). su_InstanceID (en_sub e) \<noteq> inst \<and>
       entry_id e \<notin> su_ID ` {r \<in> set (pdb_subs (sc_db (sys_s y))). su_InstanceID r = inst} \<Longrightarrow>
     sched_step env y (change (sched_ResumeInstance env dbok (sys_now y) inst) y)"
| step_record: "e \<in> set (sys_flight y) \<Longrightarrow>
     sched_step env y (y\<lparr>sys_s := fire_record env firedAt (sys_now y) err e (sys_s y)\<rparr>)"
| step_finish: "e \<in> set (sys_flight y) \<Longrightarrow>
     sched_step env y ((change (fire_finish (fire_next env now err e) e) y)\<lparr>sys_flight := remove1 e (sys_flight y)\<rparr>)"
| step_signal: "sys_signals y = Suc n \<Longrightarrow>
     sched_step env y (y\<lparr>sys_s := signal (sys_s y), sys_signals := n\<rparr>)"
| step_decide: "sys_loop y = LoopTop \<Longrightarrow>
     sched_step env y (y\<lparr>sys_loop := LoopWait (if sc_heap (sys_s y) = [] then None
       else Some (en_nextFire (sc_heap (sys_s y) ! 0)))\<rparr>)"
| step_wake: "sys_loop y = LoopWait d \<Longrightarrow> sc_wake (sys_s y) \<Longrightarrow>
     sched_step env y (y\<lparr>sys_s := (sys_s y)\<lparr>sc_wake := False\<rparr>, sys_loop := LoopTop\<rparr>)"
| step_timer: "sys_loop y = LoopWait (Some t) \<Longrightarrow> t \<le> sys_now y \<Longrightarrow>
     sched_step env y (y\<lparr>sys_loop := LoopFire (sys_now y)\<rparr>)"
| step_fire: "sys_loop y = LoopFire n \<Longrightarrow> fire_one n (sys_s y) = (Some e, s') \<Longrightarrow>
     sched_step env y (y\<lparr>sys_s := s', sys_flight := e # sys_flight y\<rparr>)"
| step_fired: "sys_loop y = LoopFire n \<Longrightarrow> fire_one n (sys_s y) = (None, s') \<Longrightarrow>
     sched_step env y (y\<lparr>sys_s := s', sys_loop := LoopTop\<rparr>)"
| step_db: "sched_step env y (y\<lparr>sys_s := (sys_s y)\<lparr>sc_db := db\<rparr>\<rparr>)"
| step_time: "sys_now y \<le> t \<Longrightarrow> sched_step env y (y\<lparr>sys_now := t\<rparr>)"

section \<open>What one round of firing does\<close>

abbreviation nonempty_inst :: "'sch subEntry list \<Rightarrow> bool" where
  "nonempty_inst es \<equiv> \<forall>e\<in>set es. entry_inst e \<noteq> []"

definition mark_running :: "'sch subEntry list \<Rightarrow> (string, string) gomap \<Rightarrow> (string, string) gomap" where
  "mark_running es m = fold (\<lambda>e. gomap_put (entry_id e) (entry_inst e)) es m"

lemma mark_running_simps [simp]:
  "mark_running [] m = m"
  "mark_running (e # es) m = mark_running es (gomap_put (entry_id e) (entry_inst e) m)"
  by (simp_all add: mark_running_def)

text \<open>A run of the loop that starts some entries, and one that has reached its end.\<close>

definition started :: "gotime \<Rightarrow> 'sch Scheduler \<Rightarrow> 'sch subEntry list \<Rightarrow> 'sch Scheduler \<Rightarrow> bool" where
  "started now s es s' \<longleftrightarrow>
     is_heap en_nextFire (sc_heap s') \<and> mset (sc_heap s) = mset es + mset (sc_heap s') \<and>
     sc_running s' = mark_running es (sc_running s) \<and> sc_cancelled s' = sc_cancelled s \<and>
     sc_wake s' = sc_wake s \<and> sc_db s' = sc_db s \<and>
     (\<forall>e\<in>set es. en_nextFire e \<le> now \<and> \<not> is_running (entry_id e) s) \<and> distinct (map entry_id es) \<and>
     sorted (map en_nextFire es)"

definition fired :: "gotime \<Rightarrow> 'sch Scheduler \<Rightarrow> 'sch subEntry list \<Rightarrow> 'sch Scheduler \<Rightarrow> bool" where
  "fired now s es s' \<longleftrightarrow> started now s es s' \<and>
     ((\<forall>e\<in>set (sc_heap s'). now < en_nextFire e) \<or>
      (\<exists>e\<in>set (sc_heap s'). en_nextFire e \<le> now \<and> is_running (entry_id e) s'))"

lemma is_running_put:
  assumes "gomap_get (sc_running s') = gomap_get (gomap_put k i (sc_running s))" "i \<noteq> []"
  shows "is_running j s' \<longleftrightarrow> j = k \<or> is_running j s"
  using assms by (simp add: is_running_def gomap_get_str_def)

lemma started_Cons:
  assumes f: "started now s1 fs s'"
    and s1: "s1 = s\<lparr>sc_heap := h, sc_running := gomap_put (entry_id e) (entry_inst e) (sc_running s)\<rparr>"
    and h: "mset (sc_heap s) = add_mset e (mset h)" "\<forall>y\<in>set (sc_heap s). en_nextFire e \<le> en_nextFire y"
    and e: "en_nextFire e \<le> now" "\<not> is_running (entry_id e) s" "entry_inst e \<noteq> []"
  shows "started now s (e # fs) s'"
proof -
  have ms: "mset h = mset fs + mset (sc_heap s')" using f by (simp add: started_def s1)
  have run: "is_running j s1 \<longleftrightarrow> j = entry_id e \<or> is_running j s" for j
    by (rule is_running_put [OF _ e(3)]) (simp add: s1)
  have fs: "\<forall>g\<in>set fs. en_nextFire g \<le> now \<and> \<not> is_running (entry_id g) s1"
    "distinct (map entry_id fs)" "sorted (map en_nextFire fs)"
    using f by (simp_all add: started_def)
  have "set_mset (mset (sc_heap s)) = insert e (set fs \<union> set (sc_heap s'))"
    unfolding h(1) ms by simp
  then have "set fs \<subseteq> set (sc_heap s)" by auto
  show ?thesis
    unfolding started_def
  proof (intro conjI)
    show "mset (sc_heap s) = mset (e # fs) + mset (sc_heap s')" using h(1) ms by simp
    show "\<forall>g\<in>set (e # fs). en_nextFire g \<le> now \<and> \<not> is_running (entry_id g) s" using fs(1) run e by simp
    show "distinct (map entry_id (e # fs))" using fs(1,2) run by auto
    show "sorted (map en_nextFire (e # fs))" using fs(3) h(2) \<open>set fs \<subseteq> set (sc_heap s)\<close> by auto
  qed (use f in \<open>simp_all add: started_def s1\<close>)
qed

lemma fire_one_pop:
  assumes "is_heap en_nextFire (sc_heap s)" "fire_one now s = (Some e, s')"
  obtains h where "heap_Pop en_nextFire (sc_heap s) = Some (e, h)" "\<not> is_running (entry_id e) s"
    "s' = s\<lparr>sc_heap := h, sc_running := gomap_put (entry_id e) (entry_inst e) (sc_running s)\<rparr>"
    "en_nextFire e \<le> now"
proof -
  obtain h where h: "heap_Pop en_nextFire (sc_heap s) = Some (e, h)" "\<not> is_running (entry_id e) s"
    "s' = s\<lparr>sc_heap := h, sc_running := gomap_put (entry_id e) (entry_inst e) (sc_running s)\<rparr>"
    "\<not> now < en_nextFire (sc_heap s ! 0)"
    using assms(2) by (auto simp: fire_one_def split: if_splits option.splits)
  moreover have "en_nextFire e \<le> now" using heap_Pop_correct(3) [OF assms(1) h(1)] h(4) by simp
  ultimately show ?thesis using that by blast
qed

lemma fire_one_started:
  assumes "is_heap en_nextFire (sc_heap s)" "nonempty_inst (sc_heap s)" "fire_one now s = (Some e, s')"
    and "started now s' fs s''"
  shows "started now s (e # fs) s''"
proof -
  obtain h where h: "heap_Pop en_nextFire (sc_heap s) = Some (e, h)" "\<not> is_running (entry_id e) s"
    "s' = s\<lparr>sc_heap := h, sc_running := gomap_put (entry_id e) (entry_inst e) (sc_running s)\<rparr>"
    "en_nextFire e \<le> now" by (rule fire_one_pop [OF assms(1,3)])
  note p = heap_Pop_correct [OF assms(1) h(1)]
  from p(2) have "e \<in> set (sc_heap s)" by (metis set_mset_mset union_single_eq_member)
  with assms(2) have "entry_inst e \<noteq> []" by blast
  with started_Cons [OF assms(4) h(3) p(2,4) h(4,2)] show ?thesis .
qed

lemma started_refl:
  "is_heap en_nextFire (sc_heap s) \<Longrightarrow> started now s [] s"
  by (simp add: started_def)

lemma fire_one_Some:
  assumes "is_heap en_nextFire (sc_heap s)" "nonempty_inst (sc_heap s)" "fire_one now s = (Some e, s')"
  shows "started now s [e] s'" "is_heap en_nextFire (sc_heap s')" "nonempty_inst (sc_heap s')"
proof -
  obtain h where h: "heap_Pop en_nextFire (sc_heap s) = Some (e, h)"
    "s' = s\<lparr>sc_heap := h, sc_running := gomap_put (entry_id e) (entry_inst e) (sc_running s)\<rparr>"
    by (rule fire_one_pop [OF assms(1,3)])
  note p = heap_Pop_correct [OF assms(1) h(1)]
  show hp: "is_heap en_nextFire (sc_heap s')" using p(1) h(2) by simp
  from fire_one_started [OF assms started_refl [OF hp]] show "started now s [e] s'" .
  from p(2) have "set (sc_heap s) = insert e (set h)" by (metis set_mset_add_mset_insert set_mset_mset)
  with assms(2) h(2) show "nonempty_inst (sc_heap s')" by simp
qed

lemma fire_one_None:
  assumes heap: "is_heap en_nextFire (sc_heap s)" and r: "fire_one now s = (None, s')"
  shows "fired now s [] s'"
proof (cases "sc_heap s = [] \<or> now < en_nextFire (sc_heap s ! 0)")
  case True
  then have "\<forall>e\<in>set (sc_heap s). now < en_nextFire e"
    using is_heap_min [OF heap] by (fastforce simp: in_set_conv_nth)
  moreover have "s' = s" using True r by (simp add: fire_one_def)
  ultimately show ?thesis using heap by (simp add: fired_def started_def)
next
  case False
  then obtain e h where pop: "heap_Pop en_nextFire (sc_heap s) = Some (e, h)"
    using heapq.pop_None [OF heap] by (cases "heap_Pop en_nextFire (sc_heap s)") auto
  note p = heap_Pop_correct [OF heap pop]
  have due: "en_nextFire e \<le> now" using False p(3) by simp
  have run: "is_running (entry_id e) s" and s': "s' = s\<lparr>sc_heap := heap_Push en_nextFire e h\<rparr>"
    using r False pop by (auto simp: fire_one_def split: if_splits)
  have ms: "mset (sc_heap s') = mset (sc_heap s)" using p(2) by (simp add: s' mset_heap_Push)
  have "e \<in> set (sc_heap s')" using p(2) by (metis ms set_mset_mset union_single_eq_member)
  moreover have "is_running (entry_id e) s'" using run by (simp add: s' is_running_def)
  ultimately show ?thesis
    using ms due is_heap_Push [OF p(1)] unfolding fired_def started_def by (auto simp: s')
qed

lemma fire_loop_fired:
  assumes "is_heap en_nextFire (sc_heap s)" "nonempty_inst (sc_heap s)" "fire_loop now s = (es, s')"
  shows "fired now s es s'"
  using assms
proof (induction now s arbitrary: es s' rule: fire_loop.induct)
  case (1 now s)
  obtain r s1 where one: "fire_one now s = (r, s1)" by fastforce
  show ?case
  proof (cases r)
    case None
    with one 1(4) have "es = []" "s' = s1" by (simp_all add: fire_loop.simps)
    with fire_one_None [OF 1(2)] one None show ?thesis by simp
  next
    case (Some e)
    obtain fs where rec: "fire_loop now s1 = (fs, s')" "es = e # fs"
      using 1(4) one Some by (auto simp: fire_loop.simps [of now s] split: prod.splits)
    note f = fire_one_Some [OF 1(2,3) one [unfolded Some]]
    from 1(1) [OF one [symmetric] Some f(2,3) rec(1)] have "fired now s1 fs s'" .
    with fire_one_started [OF 1(2,3) one [unfolded Some]] rec(2) show ?thesis by (simp add: fired_def)
  qed
qed

section \<open>Invariant\<close>

definition running_ok :: "'sch sched_sys \<Rightarrow> bool" where
  "running_ok y \<longleftrightarrow> distinct (map entry_id (sys_flight y)) \<and> nonempty_inst (sys_flight y) \<and>
     (\<forall>k. gomap_get (sc_running (sys_s y)) k = map_of (map (\<lambda>e. (entry_id e, entry_inst e)) (sys_flight y)) k)"

definition cancelled_ok :: "'sch sched_sys \<Rightarrow> bool" where
  "cancelled_ok y \<longleftrightarrow> (\<forall>k. is_cancelled k (sys_s y) \<longrightarrow> k \<in> entry_id ` set (sys_flight y))"

definition heap_ok :: "'sch sched_sys \<Rightarrow> bool" where
  "heap_ok y \<longleftrightarrow> is_heap en_nextFire (sc_heap (sys_s y)) \<and> nonempty_inst (sc_heap (sys_s y))"

text \<open>A waiting loop is about to be woken, or its deadline is not after the first entry.\<close>

definition wait_ok :: "'sch sched_sys \<Rightarrow> bool" where
  "wait_ok y \<longleftrightarrow> (case sys_loop y of
     LoopTop \<Rightarrow> True
   | LoopFire n \<Rightarrow> True
   | LoopWait d \<Rightarrow> sc_wake (sys_s y) \<or> 0 < sys_signals y \<or> sc_heap (sys_s y) = [] \<or>
       (\<exists>t. d = Some t \<and> t \<le> en_nextFire (sc_heap (sys_s y) ! 0)))"

definition sys_ok :: "'sch sched_sys \<Rightarrow> bool" where
  "sys_ok y \<longleftrightarrow> heap_ok y \<and> running_ok y \<and> cancelled_ok y \<and> distinct (map entry_id (live y)) \<and> wait_ok y"

lemma running_iff:
  assumes "running_ok y"
  shows "is_running k (sys_s y) \<longleftrightarrow> k \<in> entry_id ` set (sys_flight y)"
proof -
  have fst: "fst ` set (map (\<lambda>e. (entry_id e, entry_inst e)) (sys_flight y)) = entry_id ` set (sys_flight y)"
    by (force simp: image_iff)
  show ?thesis
  proof (cases "map_of (map (\<lambda>e. (entry_id e, entry_inst e)) (sys_flight y)) k")
    case None
    with assms fst show ?thesis
      unfolding map_of_eq_None_iff by (simp add: is_running_def running_ok_def gomap_get_str_def None)
  next
    case (Some i)
    then obtain e where "e \<in> set (sys_flight y)" "entry_id e = k" "entry_inst e = i"
      by (auto dest!: map_of_SomeD)
    with assms Some show ?thesis by (auto simp: is_running_def running_ok_def gomap_get_str_def)
  qed
qed

text \<open>Identifiers that occur once, in terms of multisets.\<close>

lemma distinct_ids_mset:
  "mset (map entry_id xs) \<subseteq># mset (map entry_id ys) \<Longrightarrow> distinct (map entry_id ys) \<Longrightarrow> distinct (map entry_id xs)"
  by (metis distinct_append mset_append mset_eq_imp_distinct_iff mset_subset_eq_exists_conv ex_mset)

lemma mset_filter_mono:
  assumes "\<And>x. P x \<Longrightarrow> Q x"
  shows "mset (filter P xs) \<subseteq># mset (filter Q xs)"
proof -
  have "filter P xs = filter P (filter Q xs)" using assms by (auto intro: filter_cong)
  then have "mset (filter P xs) = filter_mset P (mset (filter Q xs))" by (metis mset_filter)
  then show ?thesis by (metis multiset_filter_subset)
qed

lemma buildEntry_sub: "fst (buildEntry env now sub db) = Some e \<Longrightarrow> en_sub e = sub"
  by (auto simp: buildEntry_def split: if_splits option.splits)

lemma start_entries_subs:
  "set (map en_sub (fst (start_entries env now subs db))) \<subseteq> set subs \<and>
   (distinct (map su_ID subs) \<longrightarrow> distinct (map entry_id (fst (start_entries env now subs db)))) \<and>
   set (map entry_id (fst (start_entries env now subs db))) \<subseteq> su_ID ` set subs"
proof (induction subs arbitrary: db)
  case (Cons sub subs)
  obtain o1 db1 where b: "buildEntry env now sub db = (o1, db1)" by fastforce
  obtain es db2 where r: "start_entries env now subs db1 = (es, db2)" by fastforce
  show ?case
  proof (cases o1)
    case None
    with b Cons.IH [of db1] show ?thesis by auto
  next
    case (Some e)
    with b buildEntry_sub [of env now sub db e] have "en_sub e = sub" by simp
    with Cons.IH [of db1] b r Some show ?thesis by auto
  qed
qed simp

lemma resume_entries_subs:
  "set (map en_sub (fst (resume_entries env now subs db))) \<subseteq> set subs \<and>
   (distinct (map su_ID subs) \<longrightarrow> distinct (map entry_id (fst (resume_entries env now subs db)))) \<and>
   set (map entry_id (fst (resume_entries env now subs db))) \<subseteq> su_ID ` set subs"
proof (induction subs arbitrary: db)
  case (Cons sub subs)
  obtain o1 db1 where b: "buildEntry env now sub db = (o1, db1)" by fastforce
  show ?case
  proof (cases o1)
    case None
    with b Cons.IH [of db1] show ?thesis by auto
  next
    case (Some e)
    let ?db = "try_db (UpdateSubscriptionStatus (su_ID sub) sub_active (Some (en_nextFire e))) db1"
    obtain es db2 where r: "resume_entries env now subs ?db = (es, db2)" by fastforce
    from Some b buildEntry_sub [of env now sub db e] have "en_sub e = sub" by simp
    with Cons.IH [of ?db] b r Some show ?thesis by auto
  qed
qed simp

lemma fold_Push:
  "is_heap key h \<Longrightarrow> is_heap key (fold (heap_Push key) es h) \<and> mset (fold (heap_Push key) es h) = mset es + mset h"
  by (induction es arbitrary: h) (simp_all add: is_heap_Push mset_heap_Push)

lemma index_of_Some: "index_of P xs = Some i \<Longrightarrow> i < length xs \<and> P (xs ! i)"
  by (induction xs arbitrary: i) (auto split: if_splits)

lemma index_of_None: "index_of P xs = None \<longleftrightarrow> (\<forall>x\<in>set xs. \<not> P x)"
  by (induction xs) auto

lemma cancel_all:
  "gomap_get (fold (\<lambda>(k, inst). if inst = i then gomap_put k True else id) m c) k =
     (if (k, i) \<in> set m then Some True else gomap_get c k)"
  by (induction m arbitrary: c) (auto split: if_splits)

lemma sys_okI_change:
  assumes ok: "sys_ok y"
    and heap: "is_heap en_nextFire (sc_heap (f (sys_s y)))" "nonempty_inst (sc_heap (f (sys_s y)))"
    and run: "sc_running (f (sys_s y)) = sc_running (sys_s y)"
    and canc: "\<And>k. is_cancelled k (f (sys_s y)) \<Longrightarrow> k \<in> entry_id ` set (sys_flight y)"
    and live: "distinct (map entry_id (live (change f y)))"
  shows "sys_ok (change f y)"
  using assms unfolding sys_ok_def heap_ok_def running_ok_def cancelled_ok_def
  by (simp add: wait_ok_def split: loop_pc.split)

lemma live_shrinks:
  assumes ok: "sys_ok y" and heap: "mset (sc_heap s') \<subseteq># mset (sc_heap (sys_s y))"
    and canc: "\<And>k. is_cancelled k (sys_s y) \<Longrightarrow> is_cancelled k s'"
  shows "distinct (map entry_id (sc_heap s' @ filter (\<lambda>e. \<not> is_cancelled (entry_id e) s') (sys_flight y)))"
proof (rule distinct_ids_mset)
  show "distinct (map entry_id (live y))" using ok by (simp add: sys_ok_def)
  have "mset (filter (\<lambda>e. \<not> is_cancelled (entry_id e) s') (sys_flight y)) \<subseteq>#
      mset (filter (\<lambda>e. \<not> is_cancelled (entry_id e) (sys_s y)) (sys_flight y))"
    by (rule mset_filter_mono) (use canc in blast)
  then have "mset (sc_heap s' @ filter (\<lambda>e. \<not> is_cancelled (entry_id e) s') (sys_flight y)) \<subseteq># mset (live y)"
    unfolding live_def mset_append using heap by (rule subset_mset.add_mono [rotated])
  then show "mset (map entry_id (sc_heap s' @ filter (\<lambda>e. \<not> is_cancelled (entry_id e) s') (sys_flight y)))
      \<subseteq># mset (map entry_id (live y))"
    unfolding mset_map by (rule image_mset_subseteq_mono)
qed

lemma nonempty_subset: "mset h \<subseteq># mset h' \<Longrightarrow> nonempty_inst h' \<Longrightarrow> nonempty_inst h"
  by (meson mset_subset_eqD set_mset_mset in_multiset_in_set)

lemma sys_ok_remove:
  assumes ok: "sys_ok y"
  shows "sys_ok (change (sched_Remove k) y)"
proof -
  let ?s = "sys_s y" let ?s' = "sched_Remove k ?s"
  have heap: "is_heap en_nextFire (sc_heap ?s)" "nonempty_inst (sc_heap ?s)"
    using ok by (simp_all add: sys_ok_def heap_ok_def)
  show ?thesis
  proof (cases "index_of (\<lambda>e. entry_id e = k) (sc_heap ?s)")
    case (Some i)
    then have "i < length (sc_heap ?s)" by (simp add: index_of_Some)
    then obtain h where h: "heap_Remove en_nextFire i (sc_heap ?s) = Some (sc_heap ?s ! i, h)"
      "is_heap en_nextFire h" "mset (sc_heap ?s) = add_mset (sc_heap ?s ! i) (mset h)"
      by (rule heap_Remove_correct [OF heap(1)])
    have s': "?s' = ?s\<lparr>sc_heap := h\<rparr>" using Some h(1) by (simp add: sched_Remove_def)
    have sub: "mset h \<subseteq># mset (sc_heap ?s)" using h(3) by simp
    show ?thesis
    proof (rule sys_okI_change [OF ok])
      show "distinct (map entry_id (live (change (sched_Remove k) y)))"
        using live_shrinks [OF ok, of ?s'] sub by (simp add: live_def s' is_cancelled_def)
      show "nonempty_inst (sc_heap ?s')" using nonempty_subset [OF sub heap(2)] by (simp add: s')
    qed (use ok h in \<open>auto simp: s' is_cancelled_def sys_ok_def cancelled_ok_def\<close>)
  next
    case None
    then have s': "?s' = (if is_running k ?s then ?s\<lparr>sc_cancelled := gomap_put k True (sc_cancelled ?s)\<rparr> else ?s)"
      by (simp add: sched_Remove_def)
    have run: "is_running k ?s \<Longrightarrow> k \<in> entry_id ` set (sys_flight y)"
      using ok running_iff by (auto simp: sys_ok_def)
    show ?thesis
    proof (rule sys_okI_change [OF ok])
      show "distinct (map entry_id (live (change (sched_Remove k) y)))"
        using live_shrinks [OF ok, of ?s'] by (simp add: live_def s' is_cancelled_def split: if_splits)
      show "j \<in> entry_id ` set (sys_flight y)" if "is_cancelled j ?s'" for j
        using that run ok by (auto simp: s' is_cancelled_def sys_ok_def cancelled_ok_def split: if_splits)
    qed (use heap in \<open>simp_all add: s'\<close>)
  qed
qed

lemma sys_ok_pause:
  assumes ok: "sys_ok y"
  shows "sys_ok (change (sched_PauseInstance dbok inst) y)"
proof (cases dbok)
  case False
  then have "sched_PauseInstance dbok inst s = s" for s :: "'a Scheduler" by (simp add: sched_PauseInstance_def)
  with ok show ?thesis
    by (auto simp: sys_ok_def heap_ok_def running_ok_def cancelled_ok_def live_def wait_ok_def split: loop_pc.split)
next
  case True
  let ?s = "sys_s y" let ?s' = "sched_PauseInstance dbok inst ?s"
  have h: "sc_heap ?s' = heap_Init en_nextFire (filter (\<lambda>e. entry_inst e \<noteq> inst) (sc_heap ?s))"
    and r: "sc_running ?s' = sc_running ?s"
    and c: "is_cancelled k ?s' \<longleftrightarrow> (k, inst) \<in> set (sc_running ?s) \<or> is_cancelled k ?s" for k
    using True by (simp_all add: sched_PauseInstance_def is_cancelled_def cancel_all)
  have sub: "mset (sc_heap ?s') \<subseteq># mset (sc_heap ?s)" by (simp add: h mset_heap_Init)
  have run: "(k, inst) \<in> set (sc_running ?s) \<Longrightarrow> k \<in> entry_id ` set (sys_flight y)" for k
  proof -
    assume "(k, inst) \<in> set (sc_running ?s)"
    then have "gomap_get (sc_running ?s) k \<noteq> None" unfolding gomap_get_None by force
    then show ?thesis using ok by (auto simp: sys_ok_def running_ok_def dest!: map_of_SomeD)
  qed
  show ?thesis
  proof (rule sys_okI_change [OF ok])
    show "nonempty_inst (sc_heap ?s')"
      using nonempty_subset [OF sub] ok by (simp add: sys_ok_def heap_ok_def)
    show "distinct (map entry_id (live (change (sched_PauseInstance dbok inst) y)))"
      using live_shrinks [OF ok sub] c by (simp add: live_def)
    show "k \<in> entry_id ` set (sys_flight y)" if "is_cancelled k ?s'" for k
      using that run ok by (auto simp: c sys_ok_def cancelled_ok_def)
  qed (simp_all add: h r is_heap_Init)
qed

text \<open>Entering new entries whose identifiers are not live.\<close>

lemma sys_ok_enter:
  assumes ok: "sys_ok y"
    and f: "is_heap en_nextFire (sc_heap (f (sys_s y)))" "mset (sc_heap (f (sys_s y))) = mset es + mset (sc_heap (sys_s y))"
      "sc_running (f (sys_s y)) = sc_running (sys_s y)" "sc_cancelled (f (sys_s y)) = sc_cancelled (sys_s y)"
    and es: "nonempty_inst es" "distinct (map entry_id es)" "entry_id ` set es \<inter> entry_id ` set (live y) = {}"
  shows "sys_ok (change f y)"
proof (rule sys_okI_change [of y f, OF ok f(1)])
  have "set (sc_heap (f (sys_s y))) = set es \<union> set (sc_heap (sys_s y))"
    using f(2) by (metis set_mset_mset set_mset_union)
  then show "nonempty_inst (sc_heap (f (sys_s y)))" using es(1) ok by (auto simp: sys_ok_def heap_ok_def)
  have "mset (live (change f y)) = mset (es @ live y)"
    using f(2,4) by (simp add: live_def is_cancelled_def)
  then have "mset (map entry_id (live (change f y))) = mset (map entry_id (es @ live y))" by (simp only: mset_map)
  moreover have "distinct (map entry_id (es @ live y))" using es ok by (simp add: sys_ok_def)
  ultimately show "distinct (map entry_id (live (change f y)))" by (metis mset_eq_imp_distinct_iff)
qed (use ok f in \<open>auto simp: is_cancelled_def sys_ok_def cancelled_ok_def\<close>)

lemma sys_ok_add:
  assumes ok: "sys_ok y" and sub: "su_InstanceID sub \<noteq> []"
    and fresh: "\<forall>e\<in>set (sc_heap (sys_s y) @ sys_flight y). entry_id e \<noteq> su_ID sub"
  shows "sys_ok (change (sched_Add env now sub) y)"
proof -
  obtain o1 db where b: "buildEntry env now sub (sc_db (sys_s y)) = (o1, db)" by fastforce
  have heap: "is_heap en_nextFire (sc_heap (sys_s y))" using ok by (simp add: sys_ok_def heap_ok_def)
  show ?thesis
  proof (cases o1)
    case None
    then have "sched_Add env now sub (sys_s y) = (sys_s y)\<lparr>sc_db := db\<rparr>" using b by (simp add: sched_Add_def)
    then show ?thesis using heap by (intro sys_ok_enter [OF ok, where es = "[]"]) simp_all
  next
    case (Some e)
    then have s': "sched_Add env now sub (sys_s y) =
        (sys_s y)\<lparr>sc_heap := heap_Push en_nextFire e (sc_heap (sys_s y)), sc_db := db\<rparr>" using b by (simp add: sched_Add_def)
    have e: "entry_id e = su_ID sub" "entry_inst e \<noteq> []"
      using buildEntry_sub [of env now sub "sc_db (sys_s y)" e] Some b sub by simp_all
    have "entry_id e \<notin> entry_id ` set (live y)"
    proof
      assume "entry_id e \<in> entry_id ` set (live y)"
      then obtain x where "x \<in> set (live y)" "entry_id x = su_ID sub" using e(1) by (metis imageE)
      moreover from this have "x \<in> set (sc_heap (sys_s y) @ sys_flight y)" by (auto simp: live_def)
      ultimately show False using fresh by blast
    qed
    then show ?thesis using heap e(2)
      by (intro sys_ok_enter [OF ok, where es = "[e]"]) (simp_all add: s' is_heap_Push mset_heap_Push)
  qed
qed

lemma resumed_subs:
  assumes "ResumeInstanceSubscriptions inst db = (subs, db1)" "distinct (map su_ID (pdb_subs db))"
  shows "distinct (map su_ID subs)" "\<forall>r\<in>set subs. su_InstanceID r = inst"
    "su_ID ` set subs \<subseteq> su_ID ` {r \<in> set (pdb_subs db). su_InstanceID r = inst}"
proof -
  let ?rows = "set_instance_status inst sub_paused sub_active (pdb_subs db)"
  have subs: "subs = sort_key su_CreatedAt (filter (\<lambda>s. su_InstanceID s = inst \<and> su_Status s = sub_active) ?rows)"
    using assms(1) by (simp add: ResumeInstanceSubscriptions_def Let_def split: prod.splits)
  have "map su_ID ?rows = map su_ID (pdb_subs db)" by (simp add: set_instance_status_def)
  with assms(2) have "distinct (map su_ID ?rows)" by simp
  then have "distinct (map su_ID (filter (\<lambda>s. su_InstanceID s = inst \<and> su_Status s = sub_active) ?rows))"
    by (rule distinct_map_filter)
  moreover have "mset (map su_ID subs) =
      mset (map su_ID (filter (\<lambda>s. su_InstanceID s = inst \<and> su_Status s = sub_active) ?rows))"
    by (simp add: subs)
  from mset_eq_imp_distinct_iff [OF this] calculation show "distinct (map su_ID subs)" by (rule iffD2)
  show "\<forall>r\<in>set subs. su_InstanceID r = inst" by (simp add: subs)
  show "su_ID ` set subs \<subseteq> su_ID ` {r \<in> set (pdb_subs db). su_InstanceID r = inst}"
  proof
    fix k assume "k \<in> su_ID ` set subs"
    then obtain r where r: "r \<in> set ?rows" "su_InstanceID r = inst" "k = su_ID r" by (auto simp: subs)
    from r(1) obtain q where q: "q \<in> set (pdb_subs db)"
      "r = (if su_InstanceID q = inst \<and> su_Status q = sub_paused then q\<lparr>su_Status := sub_active\<rparr> else q)"
      unfolding set_instance_status_def set_map by (rule imageE)
    then have "su_ID r = su_ID q" "su_InstanceID r = su_InstanceID q" by simp_all
    with r q(1) show "k \<in> su_ID ` {r \<in> set (pdb_subs db). su_InstanceID r = inst}" by simp
  qed
qed

lemma sys_ok_resume:
  assumes ok: "sys_ok y" and inst: "inst \<noteq> []" and ids: "distinct (map su_ID (pdb_subs (sc_db (sys_s y))))"
    and none: "\<forall>e\<in>set (live y). su_InstanceID (en_sub e) \<noteq> inst \<and>
       entry_id e \<notin> su_ID ` {r \<in> set (pdb_subs (sc_db (sys_s y))). su_InstanceID r = inst}"
  shows "sys_ok (change (sched_ResumeInstance env dbok now inst) y)"
proof -
  obtain subs db1 where r: "ResumeInstanceSubscriptions inst (sc_db (sys_s y)) = (subs, db1)" by fastforce
  obtain es db2 where e: "resume_entries env now subs db1 = (es, db2)" by fastforce
  let ?es = "if dbok then es else []"
  note subs = resumed_subs [OF r ids]
  have es: "set (map en_sub es) \<subseteq> set subs" "distinct (map entry_id es)" "entry_id ` set es \<subseteq> su_ID ` set subs"
    using resume_entries_subs [of env now subs db1] e subs(1) by auto
  have heap: "is_heap en_nextFire (sc_heap (sys_s y))" using ok by (simp add: sys_ok_def heap_ok_def)
  show ?thesis
  proof (rule sys_ok_enter [OF ok, where es = ?es])
    show "nonempty_inst ?es" using es(1) subs(2) inst by auto
    show "distinct (map entry_id ?es)" using es(2) by simp
    have "entry_id ` set es \<subseteq> su_ID ` {r \<in> set (pdb_subs (sc_db (sys_s y))). su_InstanceID r = inst}"
      using es(3) subs(3) by (rule subset_trans)
    moreover have "entry_id ` set (live y) \<inter>
        su_ID ` {r \<in> set (pdb_subs (sc_db (sys_s y))). su_InstanceID r = inst} = {}"
      using none by blast
    ultimately show "entry_id ` set ?es \<inter> entry_id ` set (live y) = {}" by (cases dbok) auto
  qed (use heap fold_Push [OF heap, of es] r e in \<open>simp_all add: sched_ResumeInstance_def\<close>)
qed

lemma map_of_remove1:
  "distinct (map entry_id xs) \<Longrightarrow> e \<in> set xs \<Longrightarrow>
   map_of (map (\<lambda>e. (entry_id e, entry_inst e)) (remove1 e xs)) j =
     (if j = entry_id e then None else map_of (map (\<lambda>e. (entry_id e, entry_inst e)) xs) j)"
proof (induction xs)
  case (Cons x xs)
  show ?case
  proof (cases "x = e")
    case True
    then have "entry_id e \<notin> fst ` set (map (\<lambda>e. (entry_id e, entry_inst e)) xs)"
      using Cons.prems by (auto simp: image_iff)
    then have "map_of (map (\<lambda>e. (entry_id e, entry_inst e)) xs) (entry_id e) = None"
      by (simp only: map_of_eq_None_iff not_False_eq_True)
    with True show ?thesis by simp
  next
    case False
    with Cons.prems have "e \<in> set xs" "entry_id x \<noteq> entry_id e" by (auto simp: image_iff)
    with False Cons show ?thesis by auto
  qed
qed simp

lemma distinct_ids_remove1:
  assumes "distinct (map entry_id xs)" "e \<in> set xs"
  shows "distinct (map entry_id (remove1 e xs))" "set (remove1 e xs) = set xs - {e}"
    "entry_id ` set (remove1 e xs) = entry_id ` set xs - {entry_id e}"
proof -
  have d: "distinct xs" using assms(1) by (simp add: distinct_map)
  then show set: "set (remove1 e xs) = set xs - {e}" by (simp add: set_remove1_eq)
  show "distinct (map entry_id (remove1 e xs))"
    using assms(1) d by (auto simp: distinct_map set inj_on_diff)
  show "entry_id ` set (remove1 e xs) = entry_id ` set xs - {entry_id e}"
    using assms unfolding set by (auto simp: distinct_map dest: inj_onD)
qed

lemma mset_middle_mono: "A + C \<subseteq># D \<Longrightarrow> A + B + C \<subseteq># B + D"
  by (metis add.assoc add.commute subset_mset.add_left_mono)

lemma sys_ok_finish:
  fixes nxt :: "gotime option"
  assumes ok: "sys_ok y" and e: "e \<in> set (sys_flight y)"
  defines "y' \<equiv> (change (fire_finish nxt e) y)\<lparr>sys_flight := remove1 e (sys_flight y)\<rparr>"
  shows "sys_ok y'"
proof -
  let ?s = "sys_s y" and ?s' = "fire_finish nxt e (sys_s y)" and ?k = "entry_id e"
  have d: "distinct (map entry_id (sys_flight y))" using ok by (simp add: sys_ok_def running_ok_def)
  note rem = distinct_ids_remove1 [OF d e]
  have heap: "is_heap en_nextFire (sc_heap ?s)" "nonempty_inst (sc_heap ?s)"
    using ok by (simp_all add: sys_ok_def heap_ok_def)
  have inst: "entry_inst e \<noteq> []" using ok e by (simp add: sys_ok_def running_ok_def)
  define new where "new = (case nxt of
    Some t \<Rightarrow> if is_cancelled ?k ?s then [] else [e\<lparr>en_nextFire := t\<rparr>] | None \<Rightarrow> [])"
  have s': "sc_running ?s' = gomap_del ?k (sc_running ?s)" "sc_cancelled ?s' = gomap_del ?k (sc_cancelled ?s)"
    "sc_heap ?s' = fold (heap_Push en_nextFire) new (sc_heap ?s)"
    by (auto simp: fire_finish_def Let_def new_def split: option.split)
  have push: "is_heap en_nextFire (sc_heap ?s')" "mset (sc_heap ?s') = mset new + mset (sc_heap ?s)"
    using fold_Push [OF heap(1), of new] by (simp_all add: s')
  have canc: "is_cancelled j ?s' \<longleftrightarrow> j \<noteq> ?k \<and> is_cancelled j ?s" for j
    by (simp add: is_cancelled_def s')
  have newin: "nonempty_inst new" "set (map entry_id new) \<subseteq> {?k}" using inst by (auto simp: new_def split: option.splits)
  have "set (sc_heap ?s') = set new \<union> set (sc_heap ?s)" using push(2) by (metis set_mset_mset set_mset_union)
  then have "heap_ok y'" using push(1) newin heap(2) by (auto simp: heap_ok_def y'_def)
  moreover have "running_ok y'"
    using ok rem map_of_remove1 [OF d e] by (auto simp: running_ok_def y'_def s' sys_ok_def)
  moreover have "cancelled_ok y'"
    using ok rem(3) by (auto simp: cancelled_ok_def y'_def canc sys_ok_def)
  moreover have "wait_ok y'" by (simp add: wait_ok_def y'_def split: loop_pc.split)
  moreover have "distinct (map entry_id (live y'))"
  proof (rule distinct_ids_mset)
    show "distinct (map entry_id (live y))" using ok by (simp add: sys_ok_def)
    let ?rest = "filter (\<lambda>e. \<not> is_cancelled (entry_id e) ?s) (remove1 e (sys_flight y))"
    have "filter (\<lambda>e. \<not> is_cancelled (entry_id e) ?s') (remove1 e (sys_flight y)) = ?rest"
      using rem(3) by (intro filter_cong) (auto simp: canc)
    then have live': "mset (map entry_id (live y')) =
        mset (map entry_id new) + mset (map entry_id (sc_heap ?s)) + mset (map entry_id ?rest)"
      using push(2) by (simp add: live_def y'_def)
    have "mset (map entry_id new) + mset (map entry_id ?rest) \<subseteq>#
        mset (map entry_id (filter (\<lambda>e. \<not> is_cancelled (entry_id e) ?s) (sys_flight y)))"
    proof (cases "is_cancelled ?k ?s")
      case True
      then have "new = []" by (simp add: new_def split: option.split)
      with True show ?thesis by (simp add: filter_remove1 remove1_filter_not)
    next
      case False
      then have split: "mset (filter (\<lambda>e. \<not> is_cancelled (entry_id e) ?s) (sys_flight y)) = add_mset e (mset ?rest)"
        using e by (simp add: filter_remove1)
      have "mset (map entry_id new) \<subseteq># {#?k#}" by (auto simp: new_def split: option.split)
      then show ?thesis unfolding mset_map split by (simp add: subset_mset.add_right_mono)
    qed
    moreover have "mset (map entry_id (live y)) = mset (map entry_id (sc_heap ?s)) +
        mset (map entry_id (filter (\<lambda>e. \<not> is_cancelled (entry_id e) ?s) (sys_flight y)))"
      by (simp add: live_def)
    ultimately show "mset (map entry_id (live y')) \<subseteq># mset (map entry_id (live y))"
      unfolding live' by (simp only: mset_middle_mono)
  qed
  ultimately show ?thesis by (simp add: sys_ok_def)
qed

lemma mark_running_get:
  "distinct (map entry_id es) \<Longrightarrow> gomap_get (mark_running es m) k =
     (case map_of (map (\<lambda>e. (entry_id e, entry_inst e)) es) k of Some i \<Rightarrow> Some i | None \<Rightarrow> gomap_get m k)"
proof (induction es arbitrary: m)
  case (Cons e es)
  show ?case
  proof (cases "k = entry_id e")
    case True
    then have "k \<notin> fst ` set (map (\<lambda>e. (entry_id e, entry_inst e)) es)" using Cons.prems by (auto simp: image_iff)
    then have "map_of (map (\<lambda>e. (entry_id e, entry_inst e)) es) k = None"
      by (simp only: map_of_eq_None_iff not_False_eq_True)
    with Cons True show ?thesis by simp
  next
    case False
    with Cons show ?thesis by (simp split: option.split)
  qed
qed simp

lemma sys_ok_started:
  assumes ok: "sys_ok y" and f: "started now (sys_s y) es s'" and pc: "\<forall>d. pc \<noteq> LoopWait d"
  shows "sys_ok (y\<lparr>sys_s := s', sys_flight := es @ sys_flight y, sys_loop := pc\<rparr>)"
proof -
  let ?s = "sys_s y"
  have heap: "is_heap en_nextFire (sc_heap ?s)" "nonempty_inst (sc_heap ?s)"
    using ok by (simp_all add: sys_ok_def heap_ok_def)
  have ms: "mset (sc_heap ?s) = mset es + mset (sc_heap s')" using f by (simp add: started_def)
  then have set: "set (sc_heap ?s) = set es \<union> set (sc_heap s')" by (metis set_mset_mset set_mset_union)
  have run: "running_ok y" using ok by (simp add: sys_ok_def)
  have new: "\<forall>e\<in>set es. entry_id e \<notin> entry_id ` set (sys_flight y)" "distinct (map entry_id es)"
    using f running_iff [OF run] by (auto simp: started_def)
  have c: "is_cancelled k s' = is_cancelled k ?s" for k using f by (simp add: started_def is_cancelled_def)
  have notc: "\<forall>e\<in>set es. \<not> is_cancelled (entry_id e) s'"
    using new(1) ok c by (auto simp: sys_ok_def cancelled_ok_def)
  have "gomap_get (sc_running s') k = map_of (map (\<lambda>e. (entry_id e, entry_inst e)) (es @ sys_flight y)) k" for k
    using f run mark_running_get [OF new(2)] by (simp add: started_def running_ok_def map_add_def split: option.split)
  then have "running_ok (y\<lparr>sys_s := s', sys_flight := es @ sys_flight y, sys_loop := pc\<rparr>)"
    using run new set heap(2) by (auto simp: running_ok_def)
  moreover have "mset (live (y\<lparr>sys_s := s', sys_flight := es @ sys_flight y, sys_loop := pc\<rparr>)) = mset (live y)"
    using notc by (simp add: live_def c ms)
  then have "mset (map entry_id (live (y\<lparr>sys_s := s', sys_flight := es @ sys_flight y, sys_loop := pc\<rparr>))) =
      mset (map entry_id (live y))" by (simp only: mset_map)
  from mset_eq_imp_distinct_iff [OF this] ok
  have "distinct (map entry_id (live (y\<lparr>sys_s := s', sys_flight := es @ sys_flight y, sys_loop := pc\<rparr>)))"
    by (simp add: sys_ok_def)
  moreover have "is_heap en_nextFire (sc_heap s')" using f by (simp add: started_def)
  ultimately show ?thesis
    using ok set heap(2) c pc by (auto simp: sys_ok_def heap_ok_def cancelled_ok_def wait_ok_def split: loop_pc.split)
qed

lemma fire_record_frame:
  "sc_heap (fire_record env t now err e s) = sc_heap s" "sc_running (fire_record env t now err e s) = sc_running s"
  "sc_cancelled (fire_record env t now err e s) = sc_cancelled s" "sc_wake (fire_record env t now err e s) = sc_wake s"
  by (simp_all add: fire_record_def Let_def)

lemma sys_ok_step:
  assumes "sched_step env y y'" "sys_ok y"
  shows "sys_ok y'"
  using assms
proof cases
  case (step_record e firedAt err)
  with assms(2) show ?thesis
    by (auto simp: sys_ok_def heap_ok_def running_ok_def cancelled_ok_def live_def wait_ok_def is_cancelled_def
        fire_record_frame split: loop_pc.splits)
next
  case (step_signal n)
  with assms(2) show ?thesis
    by (auto simp: sys_ok_def heap_ok_def running_ok_def cancelled_ok_def live_def wait_ok_def is_cancelled_def
        signal_def split: loop_pc.splits)
next
  case step_decide
  with assms(2) show ?thesis
    by (auto simp: sys_ok_def heap_ok_def running_ok_def cancelled_ok_def live_def wait_ok_def is_cancelled_def)
next
  case (step_wake d)
  with assms(2) show ?thesis
    by (auto simp: sys_ok_def heap_ok_def running_ok_def cancelled_ok_def live_def wait_ok_def is_cancelled_def)
next
  case (step_time t)
  with assms(2) show ?thesis
    by (auto simp: sys_ok_def heap_ok_def running_ok_def cancelled_ok_def live_def wait_ok_def is_cancelled_def
        split: loop_pc.splits)
next
  case (step_add sub)
  with sys_ok_add [OF assms(2)] show ?thesis by blast
next
  case (step_resume inst dbok)
  with sys_ok_resume [OF assms(2)] show ?thesis by blast
next
  case (step_db db)
  with assms(2) show ?thesis
    by (auto simp: sys_ok_def heap_ok_def running_ok_def cancelled_ok_def live_def wait_ok_def is_cancelled_def
        split: loop_pc.splits)
next
  case (step_timer t)
  with assms(2) show ?thesis
    by (auto simp: sys_ok_def heap_ok_def running_ok_def cancelled_ok_def live_def wait_ok_def is_cancelled_def)
next
  case (step_fire n e s')
  then have "started n (sys_s y) [e] s'"
    using fire_one_Some(1) assms(2) by (auto simp: sys_ok_def heap_ok_def)
  moreover have "y' = y\<lparr>sys_s := s', sys_flight := [e] @ sys_flight y, sys_loop := LoopFire n\<rparr>"
    using step_fire by (cases y) simp
  ultimately show ?thesis using sys_ok_started [OF assms(2), of n "[e]" s' "LoopFire n"] by simp
next
  case (step_fired n s')
  then have "started n (sys_s y) [] s'"
    using fire_one_None assms(2) by (auto simp: sys_ok_def heap_ok_def fired_def)
  from sys_ok_started [OF assms(2) this, of LoopTop] step_fired show ?thesis by simp
qed (use assms(2) in \<open>simp_all only: sys_ok_remove sys_ok_pause sys_ok_finish\<close>)

lemma sys_ok_start:
  assumes "distinct (map su_ID (pdb_subs db))" "\<forall>r\<in>set (pdb_subs db). su_InstanceID r \<noteq> []"
  shows "sys_ok (sys_start env now db)"
proof -
  obtain es db' where e: "start_entries env now (ListActiveSubscriptions db) db = (es, db')" by fastforce
  let ?rows = "filter (\<lambda>s. su_Status s = sub_active \<and> su_NextFire s \<noteq> None) (pdb_subs db)"
  have rows: "set (ListActiveSubscriptions db) = set ?rows" by (simp add: ListActiveSubscriptions_def)
  have "mset (map su_ID (ListActiveSubscriptions db)) = mset (map su_ID ?rows)"
    by (simp add: ListActiveSubscriptions_def)
  from mset_eq_imp_distinct_iff [OF this] assms(1)
  have "distinct (map su_ID (ListActiveSubscriptions db))" by (simp add: distinct_map_filter)
  then have es: "distinct (map entry_id es)" "set (map en_sub es) \<subseteq> set ?rows"
    using start_entries_subs [of env now "ListActiveSubscriptions db" db] e rows by auto
  have heap: "sc_heap (sys_s (sys_start env now db)) = heap_Init en_nextFire es"
    by (simp add: sys_start_def sched_Start_def NewScheduler_def e)
  have "mset (map entry_id (heap_Init en_nextFire es)) = mset (map entry_id es)"
    by (simp add: mset_heap_Init)
  from mset_eq_imp_distinct_iff [OF this] es(1)
  have "distinct (map entry_id (heap_Init en_nextFire es))" by simp
  moreover have "set (heap_Init en_nextFire es) = set es" by (metis mset_eq_setD mset_heap_Init)
  then have "nonempty_inst (heap_Init en_nextFire es)" using es(2) assms(2) by auto
  ultimately show ?thesis
    unfolding sys_ok_def heap_ok_def heap live_def
    by (simp add: running_ok_def cancelled_ok_def wait_ok_def is_heap_Init sys_start_def sched_Start_def
        NewScheduler_def e is_cancelled_def)
qed

lemma sys_ok_reachable:
  assumes "distinct (map su_ID (pdb_subs db))" "\<forall>r\<in>set (pdb_subs db). su_InstanceID r \<noteq> []"
    and "(sched_step env)\<^sup>*\<^sup>* (sys_start env now db) y"
  shows "sys_ok y"
  using assms(3)
proof induction
  case base
  show ?case using assms(1,2) by (rule sys_ok_start)
qed (rule sys_ok_step)

end
