(* ===== verification/Scheduler_Safety.thy ===== *)
theory Scheduler_Safety
  imports Scheduler
begin

text \<open>
  What the scheduler of \<open>internal/agent/scheduler.go\<close> promises over a whole run: no two fires of one
  subscription overlap, the loop never sleeps past the earliest entry, a fire starts exactly the due
  entries in order, and a removed subscription never fires again.
\<close>

section \<open>Removed subscriptions\<close>

abbreviation db_subs :: "platform_db \<Rightarrow> string set" where
  "db_subs db \<equiv> su_ID ` set (pdb_subs db)"

lemma update_row_ids:
  assumes "update_row su_ID k f rows = Some rows'" "\<And>r. su_ID (f r) = su_ID r"
  shows "su_ID ` set rows' = su_ID ` set rows"
  using update_row_keys [OF assms(1), of su_ID] assms(2) by (metis set_map)

lemma db_subs_update:
  assumes "\<And>r. su_ID (f r) = su_ID r"
  shows "su_ID ` set (case update_row su_ID k f (pdb_subs db) of None \<Rightarrow> pdb_subs db | Some rows \<Rightarrow> rows) = db_subs db"
  using update_row_ids [OF _ assms] by (simp split: option.split)

lemma db_subs_delete: "db_subs (try_db (DeleteSubscription k) db) \<subseteq> db_subs db"
  by (auto simp: try_db_def DeleteSubscription_def remove_sub_def)

lemma db_subs_set_status: "db_subs (try_db (UpdateSubscriptionStatus k st n) db) = db_subs db"
proof -
  let ?f = "\<lambda>s. s\<lparr>su_Status := st, su_NextFire :=
             (case n of
                None \<Rightarrow> su_NextFire s
              | Some t \<Rightarrow> if t = zeroTime then None else Some (second_precision t))\<rparr>"
  show ?thesis
    by (cases "update_row su_ID k ?f (pdb_subs db)")
      (simp_all add: try_db_def UpdateSubscriptionStatus_def update_row_ids)
qed

lemma db_subs_set_error: "db_subs (try_db (UpdateSubscriptionError k n msg) db) = db_subs db"
proof -
  let ?f = "\<lambda>s. s\<lparr>su_ErrorCount := su_ErrorCount s + 1, su_LastError := msg,
             su_NextFire := map_option second_precision n\<rparr>"
  show ?thesis
    by (cases "update_row su_ID k ?f (pdb_subs db)")
      (simp_all add: try_db_def UpdateSubscriptionError_def update_row_ids)
qed

lemma db_subs_set_fired: "db_subs (try_db (UpdateSubscriptionFired k t n) db) = db_subs db"
proof -
  let ?f = "\<lambda>s. s\<lparr>su_LastFired := Some (second_precision t),
             su_FireCount := su_FireCount s + 1, su_NextFire := map_option second_precision n,
             su_ErrorCount := 0, su_LastError := []\<rparr>"
  show ?thesis
    by (cases "update_row su_ID k ?f (pdb_subs db)")
      (simp_all add: try_db_def UpdateSubscriptionFired_def update_row_ids)
qed

lemma db_subs_buildEntry: "db_subs (snd (buildEntry env now sub db)) \<subseteq> db_subs db"
  using db_subs_delete by (simp add: buildEntry_def split: option.split)

lemma db_subs_resume_entries: "db_subs (snd (resume_entries env now subs db)) \<subseteq> db_subs db"
proof (induction subs arbitrary: db)
  case (Cons sub subs)
  obtain o1 db1 where b: "buildEntry env now sub db = (o1, db1)" by fastforce
  then have sub: "db_subs db1 \<subseteq> db_subs db" using db_subs_buildEntry [of env now sub db] by simp
  show ?case
  proof (cases o1)
    case None
    with b sub Cons.IH [of db1] show ?thesis by (simp add: subset_trans)
  next
    case (Some e)
    let ?db = "try_db (UpdateSubscriptionStatus (su_ID sub) sub_active (Some (en_nextFire e))) db1"
    have "snd (resume_entries env now (sub # subs) db) = snd (resume_entries env now subs ?db)"
      using b Some by (simp split: prod.split)
    with Cons.IH [of ?db] db_subs_set_status [of "su_ID sub" sub_active "Some (en_nextFire e)" db1] sub
    show ?thesis by (simp add: subset_trans)
  qed
qed simp

lemma db_subs_status: "su_ID ` set (set_instance_status i old new rows) = su_ID ` set rows"
proof -
  have "map su_ID (set_instance_status i old new rows) = map su_ID rows" by (simp add: set_instance_status_def)
  then show ?thesis by (metis set_map)
qed

lemma db_subs_fire_record: "db_subs (sc_db (fire_record env t now err e s)) \<subseteq> db_subs (sc_db s)"
proof (cases err)
  case None
  let ?db = "try_db (UpdateSubscriptionFired (entry_id e) t
    (map_option (\<lambda>sch. cron_Next env sch now) (en_schedule e))) (sc_db s)"
  have "db_subs (try_db (DeleteSubscription (entry_id e)) ?db) \<subseteq> db_subs (sc_db s)"
    using db_subs_delete [of "entry_id e" ?db] by (simp only: db_subs_set_fired)
  with None show ?thesis by (simp add: fire_record_def Let_def db_subs_set_fired)
qed (simp add: fire_record_def Let_def db_subs_set_error)

lemma db_subs_ops:
  "db_subs (sc_db (sched_Add env now sub s)) \<subseteq> db_subs (sc_db s)"
  "db_subs (sc_db (sched_Remove k s)) = db_subs (sc_db s)"
  "db_subs (sc_db (sched_PauseInstance dbok inst s)) = db_subs (sc_db s)"
  "db_subs (sc_db (sched_ResumeInstance env dbok now inst s)) \<subseteq> db_subs (sc_db s)"
  "sc_db (fire_finish n e s) = sc_db s"
proof -
  show "db_subs (sc_db (sched_Add env now sub s)) \<subseteq> db_subs (sc_db s)"
    using db_subs_buildEntry [of env now sub "sc_db s"]
    by (cases "buildEntry env now sub (sc_db s)") (simp add: sched_Add_def split: option.split)
  show "db_subs (sc_db (sched_Remove k s)) = db_subs (sc_db s)"
    by (simp add: sched_Remove_def split: option.split)
  show "db_subs (sc_db (sched_PauseInstance dbok inst s)) = db_subs (sc_db s)"
    by (simp add: sched_PauseInstance_def PauseInstanceSubscriptions_def db_subs_status)
  obtain subs db1 where r: "ResumeInstanceSubscriptions inst (sc_db s) = (subs, db1)" by fastforce
  then have "pdb_subs db1 = set_instance_status inst sub_paused sub_active (pdb_subs (sc_db s))"
    by (auto simp: ResumeInstanceSubscriptions_def Let_def)
  then have "db_subs db1 = db_subs (sc_db s)" by (simp add: db_subs_status)
  with r db_subs_resume_entries [of env now subs db1]
  show "db_subs (sc_db (sched_ResumeInstance env dbok now inst s)) \<subseteq> db_subs (sc_db s)"
    by (cases "resume_entries env now subs db1") (simp add: sched_ResumeInstance_def)
  show "sc_db (fire_finish n e s) = sc_db s" by (simp add: fire_finish_def Let_def split: option.split)
qed

text \<open>A subscription that is gone: not in the database, not in the heap, and a fire of it that is
  still running is cancelled.\<close>

definition gone :: "string \<Rightarrow> 'sch sched_sys \<Rightarrow> bool" where
  "gone k y \<longleftrightarrow> k \<notin> db_subs (sc_db (sys_s y)) \<and> (\<forall>e\<in>set (sc_heap (sys_s y)). entry_id e \<noteq> k) \<and>
     (k \<in> entry_id ` set (sys_flight y) \<longrightarrow> is_cancelled k (sys_s y))"

lemma gone_remove:
  assumes ok: "sys_ok y" and db: "k \<notin> db_subs (sc_db (sys_s y))"
  shows "gone k (change (sched_Remove k) y)"
proof -
  let ?s = "sys_s y"
  have heap: "is_heap en_nextFire (sc_heap ?s)" using ok by (simp add: sys_ok_def heap_ok_def)
  have d: "distinct (map entry_id (live y))" using ok by (simp add: sys_ok_def)
  show ?thesis
  proof (cases "index_of (\<lambda>e. entry_id e = k) (sc_heap ?s)")
    case None
    then have s': "sched_Remove k ?s =
        (if is_running k ?s then ?s\<lparr>sc_cancelled := gomap_put k True (sc_cancelled ?s)\<rparr> else ?s)"
      by (simp add: sched_Remove_def)
    have "is_running k ?s \<longleftrightarrow> k \<in> entry_id ` set (sys_flight y)"
      using ok running_iff by (auto simp: sys_ok_def)
    moreover have "\<forall>e\<in>set (sc_heap ?s). entry_id e \<noteq> k" using None by (simp add: index_of_None)
    ultimately show ?thesis
      using db by (simp add: gone_def s' is_cancelled_def)
  next
    case (Some i)
    then have i: "i < length (sc_heap ?s)" "entry_id (sc_heap ?s ! i) = k" using index_of_Some by blast+
    then obtain h where h: "heap_Remove en_nextFire i (sc_heap ?s) = Some (sc_heap ?s ! i, h)"
      "mset (sc_heap ?s) = add_mset (sc_heap ?s ! i) (mset h)"
      using heap_Remove_correct [OF heap i(1)] by metis
    have "mset (map entry_id (live y)) = mset (k # map entry_id h @
        map entry_id (filter (\<lambda>e. \<not> is_cancelled (entry_id e) ?s) (sys_flight y)))"
      using h(2) i(2) by (simp add: live_def)
    from mset_eq_imp_distinct_iff [OF this] d
    have "k \<notin> entry_id ` set h" "\<forall>e\<in>set (sys_flight y). entry_id e = k \<longrightarrow> is_cancelled k ?s"
      by auto
    with db Some h(1) show ?thesis by (auto simp: gone_def sched_Remove_def is_cancelled_def)
  qed
qed

text \<open>Every step except one that schedules a new subscription of this identifier, or stores one, keeps
  it gone.\<close>

definition introduces :: "'sch trigger_env \<Rightarrow> string \<Rightarrow> 'sch sched_sys \<Rightarrow> 'sch sched_sys \<Rightarrow> bool" where
  "introduces env k y y' \<longleftrightarrow> k \<in> db_subs (sc_db (sys_s y')) \<and> k \<notin> db_subs (sc_db (sys_s y)) \<or> (\<exists>sub. su_ID sub = k \<and> y' = change (sched_Add env (sys_now y) sub) y \<and>
     fst (buildEntry env (sys_now y) sub (sc_db (sys_s y))) \<noteq> None)"

lemma gone_enter:
  assumes "gone k y" "mset (sc_heap s') = mset es + mset (sc_heap (sys_s y))" "k \<notin> entry_id ` set es"
    and "db_subs (sc_db s') \<subseteq> db_subs (sc_db (sys_s y))" "sc_cancelled s' = sc_cancelled (sys_s y)"
  shows "gone k (y\<lparr>sys_s := s', sys_signals := n\<rparr>)"
proof -
  have "set (sc_heap s') = set es \<union> set (sc_heap (sys_s y))" using assms(2) by (metis set_mset_mset set_mset_union)
  with assms show ?thesis by (auto simp: gone_def is_cancelled_def)
qed

lemma gone_resume:
  assumes ok: "sys_ok y" and g: "gone k y" and ids: "distinct (map su_ID (pdb_subs (sc_db (sys_s y))))"
  shows "gone k (change (sched_ResumeInstance env dbok now inst) y)"
proof -
  let ?s' = "sched_ResumeInstance env dbok now inst (sys_s y)"
  obtain subs db1 where r: "ResumeInstanceSubscriptions inst (sc_db (sys_s y)) = (subs, db1)" by fastforce
  obtain es db2 where e: "resume_entries env now subs db1 = (es, db2)" by fastforce
  have heap: "is_heap en_nextFire (sc_heap (sys_s y))" using ok by (simp add: sys_ok_def heap_ok_def)
  have "entry_id ` set es \<subseteq> su_ID ` set subs" using resume_entries_subs [of env now subs db1] e by auto
  also have "\<dots> \<subseteq> db_subs (sc_db (sys_s y))" using resumed_subs(3) [OF r ids] by blast
  finally have "k \<notin> entry_id ` set es" using g by (auto simp: gone_def)
  note new = this fold_Push [OF heap, of es]
  show ?thesis
  proof (cases dbok)
    case True
    then have s': "?s' = (sys_s y)\<lparr>sc_heap := fold (heap_Push en_nextFire) es (sc_heap (sys_s y)), sc_db := db2\<rparr>"
      using r e by (simp add: sched_ResumeInstance_def)
    show ?thesis
      using new db_subs_ops(4) [of env dbok now inst "sys_s y"] by (intro gone_enter [OF g, of _ es]) (simp_all add: s')
  next
    case False
    then show ?thesis using g by (simp add: sched_ResumeInstance_def gone_def)
  qed
qed

lemma gone_add:
  assumes ok: "sys_ok y" and g: "gone k y"
    and ne: "su_ID sub = k \<Longrightarrow> fst (buildEntry env now sub (sc_db (sys_s y))) = None"
  shows "gone k (change (sched_Add env now sub) y)"
proof -
  obtain o1 db where b: "buildEntry env now sub (sc_db (sys_s y)) = (o1, db)" by fastforce
  have "entry_id e = su_ID sub" if "o1 = Some e" for e
    using buildEntry_sub [of env now sub "sc_db (sys_s y)" e] that b by simp
  with ne b have "k \<notin> entry_id ` set (case o1 of None \<Rightarrow> [] | Some e \<Rightarrow> [e])" by (auto split: option.splits)
  then show ?thesis
    using b db_subs_ops(1) [of env now sub "sys_s y"]
    by (intro gone_enter [OF g, where es = "case o1 of None \<Rightarrow> [] | Some e \<Rightarrow> [e]"])
      (auto simp: sched_Add_def mset_heap_Push split: option.split)
qed

lemma gone_finish:
  assumes ok: "sys_ok y" and g: "gone k y" and e: "e \<in> set (sys_flight y)"
  shows "gone k ((change (fire_finish n e) y)\<lparr>sys_flight := remove1 e (sys_flight y)\<rparr>)"
proof -
  let ?s = "sys_s y" and ?s' = "fire_finish n e (sys_s y)"
  have d: "distinct (map entry_id (sys_flight y))" using ok by (simp add: sys_ok_def running_ok_def)
  note rem = distinct_ids_remove1 [OF d e]
  have c: "is_cancelled j ?s' \<longleftrightarrow> j \<noteq> entry_id e \<and> is_cancelled j ?s" for j
    by (simp add: is_cancelled_def fire_finish_def Let_def split: option.split)
  have "set (sc_heap ?s') \<subseteq> set (sc_heap ?s) \<or> (\<exists>e'. entry_id e' = entry_id e \<and> \<not> is_cancelled (entry_id e) ?s \<and>
      set (sc_heap ?s') = insert e' (set (sc_heap ?s)))"
  proof (cases "n = None \<or> is_cancelled (entry_id e) ?s")
    case True
    then show ?thesis by (auto simp: fire_finish_def Let_def split: option.split)
  next
    case False
    then obtain t where t: "n = Some t" by auto
    let ?e' = "e\<lparr>en_nextFire := t\<rparr>"
    have "set (heap_Push en_nextFire ?e' (sc_heap ?s)) = insert ?e' (set (sc_heap ?s))"
      using mset_heap_Push [of en_nextFire ?e' "sc_heap ?s"] by (metis set_mset_add_mset_insert set_mset_mset)
    with False t show ?thesis by (intro disjI2 exI [of _ ?e']) (simp add: fire_finish_def Let_def)
  qed
  then have "\<forall>x\<in>set (sc_heap ?s'). entry_id x \<noteq> k"
    using g e by (auto simp: gone_def)
  then show ?thesis using g rem(3) c by (auto simp: gone_def db_subs_ops(5))
qed

lemma started_gone:
  assumes f: "started n (sys_s y) es s'" and g: "gone k y"
  shows "gone k (y\<lparr>sys_s := s', sys_flight := es @ sys_flight y\<rparr>)"
proof -
  have "set (sc_heap (sys_s y)) = set es \<union> set (sc_heap s')"
    using f by (metis started_def set_mset_mset set_mset_union)
  with f g show ?thesis by (auto simp: gone_def started_def is_cancelled_def)
qed

lemma gone_step:
  assumes step: "sched_step env y y'" and ok: "sys_ok y" and g: "gone k y"
    and new: "\<not> introduces env k y y'"
  shows "gone k y'"
  using step
proof cases
  case (step_add sub)
  with new have "fst (buildEntry env (sys_now y) sub (sc_db (sys_s y))) = None" if "su_ID sub = k"
    using that unfolding introduces_def by blast
  with gone_add [OF ok g] step_add show ?thesis by blast
next
  case (step_remove j)
  have "mset (sc_heap (sched_Remove j (sys_s y))) \<subseteq># mset (sc_heap (sys_s y))"
  proof (cases "index_of (\<lambda>e. entry_id e = j) (sc_heap (sys_s y))")
    case (Some i)
    then have "i < length (sc_heap (sys_s y))" using index_of_Some by blast
    moreover have "is_heap en_nextFire (sc_heap (sys_s y))" using ok by (simp add: sys_ok_def heap_ok_def)
    ultimately obtain h where "heap_Remove en_nextFire i (sc_heap (sys_s y)) = Some (sc_heap (sys_s y) ! i, h)"
      "mset (sc_heap (sys_s y)) = add_mset (sc_heap (sys_s y) ! i) (mset h)" by (metis heap_Remove_correct)
    with Some show ?thesis by (simp add: sched_Remove_def)
  qed (simp add: sched_Remove_def)
  then have "set (sc_heap (sched_Remove j (sys_s y))) \<subseteq> set (sc_heap (sys_s y))"
    by (metis set_mset_mono set_mset_mset)
  moreover have "is_cancelled k (sys_s y) \<Longrightarrow> is_cancelled k (sched_Remove j (sys_s y))"
    by (simp add: sched_Remove_def is_cancelled_def split: option.split)
  ultimately show ?thesis
    using g step_remove db_subs_ops(2) [of j "sys_s y"] by (auto simp: gone_def)
next
  case (step_pause dbok inst)
  have "set (heap_Init en_nextFire h) = set h" for h :: "'a subEntry list" by (metis mset_eq_setD mset_heap_Init)
  then have "set (sc_heap (sched_PauseInstance dbok inst (sys_s y))) \<subseteq> set (sc_heap (sys_s y))"
    by (auto simp: sched_PauseInstance_def)
  moreover have "is_cancelled k (sys_s y) \<Longrightarrow> is_cancelled k (sched_PauseInstance dbok inst (sys_s y))"
    by (simp add: sched_PauseInstance_def is_cancelled_def cancel_all)
  ultimately show ?thesis
    using g step_pause db_subs_ops(3) [of dbok inst "sys_s y"] by (auto simp: gone_def)
next
  case (step_resume inst dbok)
  with gone_resume [OF ok g] show ?thesis by blast
next
  case (step_record e firedAt err)
  with g db_subs_fire_record [of env firedAt "sys_now y" err e "sys_s y"] show ?thesis
    by (auto simp: gone_def fire_record_frame is_cancelled_def)
next
  case (step_finish e now err)
  with gone_finish [OF ok g] show ?thesis by blast
next
  case (step_db db)
  with g new show ?thesis by (auto simp: gone_def introduces_def is_cancelled_def)
next
  case (step_fire n e s')
  have "started n (sys_s y) [e] s'"
    using step_fire ok fire_one_Some(1) by (auto simp: sys_ok_def heap_ok_def)
  from started_gone [OF this g] step_fire show ?thesis by (simp add: gone_def)
next
  case (step_fired n s')
  have "started n (sys_s y) [] s'"
    using step_fired ok fire_one_None by (auto simp: sys_ok_def heap_ok_def fired_def)
  from started_gone [OF this g] step_fired show ?thesis by (simp add: gone_def)
qed (use g in \<open>auto simp: gone_def signal_def is_cancelled_def\<close>)

lemma gone_steps:
  assumes "(\<lambda>a b. sched_step env a b \<and> \<not> introduces env k a b)\<^sup>*\<^sup>* y z" "sys_ok y" "gone k y"
  shows "sys_ok z \<and> gone k z"
  using assms(1)
proof induction
  case (step a b)
  then show ?case using sys_ok_step gone_step by blast
qed (use assms in simp)

lemma heap_entry_min:
  assumes "is_heap key xs" "x \<in> set xs"
  shows "key (xs ! 0) \<le> key x"
  using assms is_heap_min by (metis in_set_conv_nth)

lemma is_running_mark:
  "nonempty_inst es \<Longrightarrow> gomap_get_str (mark_running es m) k \<noteq> [] \<longleftrightarrow>
     k \<in> entry_id ` set es \<or> gomap_get_str m k \<noteq> []"
  by (induction es arbitrary: m) (auto simp: gomap_get_str_def)

lemma gone_not_fired:
  assumes "sys_ok z" "gone k z"
  shows "k \<notin> entry_id ` set (fst (fireReady t (sys_s z)))"
proof -
  from assms have heap: "is_heap en_nextFire (sc_heap (sys_s z))" "nonempty_inst (sc_heap (sys_s z))"
    and notin: "k \<notin> entry_id ` set (sc_heap (sys_s z))"
    by (auto simp: sys_ok_def heap_ok_def gone_def)
  obtain es s' where r: "fireReady t (sys_s z) = (es, s')" by fastforce
  with fire_loop_fired [OF heap] have "mset (sc_heap (sys_s z)) = mset es + mset (sc_heap s')"
    by (simp add: fireReady_def fired_def started_def)
  then have "set es \<subseteq> set (sc_heap (sys_s z))" by (metis set_mset_mset set_mset_union sup_ge1)
  with notin r show ?thesis by auto
qed

section \<open>Properties of the scheduler\<close>

text \<open>A concrete environment for the witnesses: every cron expression means every ten seconds, and a
  time is written as a string of as many characters as seconds.\<close>

definition every10 :: "unit trigger_env" where
  "every10 = \<lparr>cron_Parse = (\<lambda>x. if x = [] then None else Some ()), cron_Next = (\<lambda>_ t. t + 10),
     parse_RFC3339 = (\<lambda>x. if x = [] then None else Some (int (length x)))\<rparr>"

definition demo_sub :: Subscription where
  "demo_sub = \<lparr>su_ID = ''s1'', su_InstanceID = ''i1'', su_Name = ''poll'',
     su_Trigger = \<lparr>tr_Type = ''cron'', tr_Expr = ''*'', tr_At = []\<rparr>, su_Message = ''go'', su_Status = sub_active,
     su_NextFire = Some 15, su_LastFired = None, su_FireCount = 0, su_ErrorCount = 0, su_LastError = [],
     su_CreatedAt = 0\<rparr>"

definition demo_db :: platform_db where
  "demo_db = empty_pdb\<lparr>pdb_subs := [demo_sub]\<rparr>"

lemma demo_db_ok [simp]:
  "distinct (map su_ID (pdb_subs demo_db))" "\<forall>r\<in>set (pdb_subs demo_db). su_InstanceID r \<noteq> []"
  "su_ID ` set (pdb_subs demo_db) = {''s1''}"
  by (simp_all add: demo_db_def demo_sub_def)

lemma demo_start:
  "sched_Start every10 5 (NewScheduler demo_db) = \<lparr>sc_heap =
     [\<lparr>en_sub = demo_sub, en_schedule = Some (), en_nextFire = 15\<rparr>], sc_running = [], sc_cancelled = [],
     sc_wake = False, sc_db = demo_db\<rparr>"
  by (simp add: sched_Start_def NewScheduler_def demo_db_def demo_sub_def ListActiveSubscriptions_def
      buildEntry_def every10_def heap_Init_def)



text \<open>C33. The loop never sleeps past an entry: in every reachable state where the loop waits and no
  operation is about to wake it, its timer is set, and to no later than the time of any scheduled
  entry, whatever was added, resumed or rescheduled while it slept.\<close>

theorem scheduler_never_oversleeps:
  assumes "distinct (map su_ID (pdb_subs db))" "\<forall>r\<in>set (pdb_subs db). su_InstanceID r \<noteq> []"
    and "(sched_step env)\<^sup>*\<^sup>* (sys_start env now db) y"
    and "sys_loop y = LoopWait d" "\<not> sc_wake (sys_s y)" "sys_signals y = 0" "e \<in> set (sc_heap (sys_s y))"
  shows "\<exists>t. d = Some t \<and> t \<le> en_nextFire e"
proof -
  have ok: "sys_ok y" using assms(1-3) by (rule sys_ok_reachable)
  then have "wait_ok y" "is_heap en_nextFire (sc_heap (sys_s y))" by (simp_all add: sys_ok_def heap_ok_def)
  then show ?thesis
    using assms(4-7) heap_entry_min [of en_nextFire "sc_heap (sys_s y)" e] by (fastforce simp: wait_ok_def)
qed

text \<open>A round of \<open>fireReady\<close> that nothing interleaves with starts exactly the entries that are due,
  earliest first, marks each running, and leaves the later ones scheduled, provided none of the
  scheduled subscriptions is still in flight.\<close>

theorem fireReady_starts_due:
  assumes heap: "is_heap en_nextFire (sc_heap s)" "\<forall>e\<in>set (sc_heap s). entry_inst e \<noteq> []"
    and idle: "\<forall>e\<in>set (sc_heap s). \<not> is_running (entry_id e) s" and d: "distinct (map entry_id (sc_heap s))"
    and r: "fireReady now s = (es, s')"
  shows "mset es = mset (filter (\<lambda>e. en_nextFire e \<le> now) (sc_heap s)) \<and> sorted (map en_nextFire es) \<and>
    mset (sc_heap s') = mset (filter (\<lambda>e. now < en_nextFire e) (sc_heap s)) \<and>
    (\<forall>e\<in>set es. is_running (entry_id e) s')"
proof -
  have f: "fired now s es s'" using fire_loop_fired [OF heap] r by (simp add: fireReady_def)
  then have ms: "mset (sc_heap s) = mset es + mset (sc_heap s')"
    and due: "\<forall>e\<in>set es. en_nextFire e \<le> now" and srt: "sorted (map en_nextFire es)"
    and de: "distinct (map entry_id es)" and run: "sc_running s' = mark_running es (sc_running s)"
    by (simp_all add: fired_def started_def)
  have set: "set (sc_heap s) = set es \<union> set (sc_heap s')" using ms by (metis set_mset_mset set_mset_union)
  have running: "is_running k s' \<longleftrightarrow> k \<in> entry_id ` set es \<or> is_running k s" for k
    using is_running_mark [of es] heap(2) set by (simp add: is_running_def run)
  have "mset (map entry_id (sc_heap s)) = mset (map entry_id es @ map entry_id (sc_heap s'))" using ms by simp
  from mset_eq_imp_distinct_iff [OF this] d
  have disj: "entry_id ` set es \<inter> entry_id ` set (sc_heap s') = {}" by simp
  have later: "\<forall>e\<in>set (sc_heap s'). now < en_nextFire e"
  proof (rule ccontr)
    assume "\<not> ?thesis"
    with f obtain e where e: "e \<in> set (sc_heap s')" "is_running (entry_id e) s'" by (auto simp: fired_def)
    with disj have "is_running (entry_id e) s" using running by blast
    with e(1) set idle show False by blast
  qed
  have "filter (\<lambda>e. en_nextFire e \<le> now) es = es" "filter (\<lambda>e. now < en_nextFire e) es = []"
    "filter (\<lambda>e. en_nextFire e \<le> now) (sc_heap s') = []" "filter (\<lambda>e. now < en_nextFire e) (sc_heap s') = sc_heap s'"
    using due later by (auto simp: filter_empty_conv filter_id_conv not_le not_less)
  from this [THEN arg_cong [where f = mset]]
  have "mset es = filter_mset (\<lambda>e. en_nextFire e \<le> now) (mset (sc_heap s))"
    "mset (sc_heap s') = filter_mset (\<lambda>e. now < en_nextFire e) (mset (sc_heap s))"
    by (simp_all add: ms mset_filter [symmetric] del: mset_filter)
  with srt running show ?thesis by simp
qed

theorem fireReady_starts_due_witness:
  "mset (fst (fireReady 20 (sched_Start every10 5 (NewScheduler demo_db)))) =
     mset (sc_heap (sched_Start every10 5 (NewScheduler demo_db)))"
proof -
  let ?s = "sched_Start every10 5 (NewScheduler demo_db)"
  have "is_heap en_nextFire (sc_heap ?s)" using is_heap_Init [of en_nextFire "[sc_heap ?s ! 0]"]
    by (simp add: demo_start heap_Init_def)
  then have "mset (fst (fireReady 20 ?s)) = mset (filter (\<lambda>e. en_nextFire e \<le> 20) (sc_heap ?s))"
    using fireReady_starts_due [of ?s 20 "fst (fireReady 20 ?s)" "snd (fireReady 20 ?s)"]
    by (simp add: demo_start is_running_def gomap_get_str_def) (simp add: demo_sub_def)
  then show ?thesis by (simp add: demo_start)
qed



theorem scheduler_never_oversleeps_witness:
  "\<exists>y. (sched_step every10)\<^sup>*\<^sup>* (sys_start every10 5 demo_db) y \<and> sc_heap (sys_s y) \<noteq> [] \<and>
     (\<exists>t. sys_loop y = LoopWait (Some t) \<and> t \<le> en_nextFire (sc_heap (sys_s y) ! 0))"
proof -
  let ?x = "sys_start every10 5 demo_db"
  let ?e = "\<lparr>en_sub = demo_sub, en_schedule = Some (), en_nextFire = 15\<rparr>"
  let ?y = "?x\<lparr>sys_loop := LoopWait (Some 15)\<rparr>"
  have run: "(sched_step every10)\<^sup>*\<^sup>* ?x ?y"
    using step_decide [of ?x every10] by (simp add: r_into_rtranclp sys_start_def demo_start)
  have "\<exists>t. Some 15 = Some t \<and> t \<le> en_nextFire ?e"
    by (rule scheduler_never_oversleeps [OF demo_db_ok(1,2) run, where d = "Some 15"])
      (simp_all add: sys_start_def demo_start)
  with run show ?thesis by (intro exI [of _ ?y]) (simp add: sys_start_def demo_start)
qed

section \<open>Two consequences of the loop\<close>

text \<open>An overlapping entry at the top of the heap: \<open>fireReady\<close> returns with the state it was called in
  although the entry is due, so the loop, whose delay is not positive, calls it again at once, until
  the fire in flight ends.\<close>

theorem overlap_makes_loop_spin:
  assumes "sc_heap s = [e]" "en_nextFire e \<le> now" "is_running (entry_id e) s"
  shows "fireReady now s = ([], s)"
proof -
  have "heap_down_to en_nextFire 0 0 [e] = (0, [e])"
    by (subst heap_down_to.simps) (simp add: down_child_def)
  then have "heap_Pop en_nextFire (sc_heap s) = Some (e, [])"
    by (simp add: heap_Pop_def assms(1) heap_down_def swap_def)
  moreover have "heap_Push en_nextFire e [] = [e]"
    unfolding heap_Push_def by (subst heap_up.simps) simp
  ultimately have "fire_one now s = (None, s)"
    using assms by (cases s) (simp add: fire_one_def)
  then show ?thesis by (subst fireReady_def, subst fire_loop.simps) simp
qed

text \<open>A cron expression that no date satisfies has the zero time as its next time; its subscription is
  due as soon as it is added and again after every fire.\<close>

theorem unsatisfiable_cron_refires:
  assumes "tr_Type (su_Trigger sub) = ''cron''" "cron_Parse env (tr_Expr (su_Trigger sub)) = Some sch"
    and "\<And>t. cron_Next env sch t = zeroTime" "zeroTime \<le> now"
  shows "\<exists>e. fst (buildEntry env now sub db) = Some e \<and> en_nextFire e \<le> now \<and>
    (\<forall>err. fire_next env now err e = Some zeroTime)"
  using assms by (simp add: buildEntry_def fire_next_def)

end
