(* ===== verification/Schedule_Tools.thy ===== *)
theory Schedule_Tools
  imports Scheduler_Safety
begin

text \<open>
  The scheduling tools of an agent, \<open>src/internal/inference/tools_schedule.go\<close>, over the subscription
  store and the scheduler they notify.

  The readings of the clock are arguments, in the order the code takes them, as is the identifier
  that \<open>uuid.NewV7\<close> returns.  Durations and local times are parsed by the time library, which is the
  argument \<open>lib\<close>; times are instants, so conversion to a time zone is the identity.
\<close>

section \<open>The handlers\<close>

datatype schedule_error =
    NameRequired | ScheduleRequired | AtRequired | MessageRequired
  | InvalidCron string | InvalidTime string | TimeInPast string | NoCaller
  | ScheduleExists string | CreateFailed pdb_error
  | NoSchedule string | LookupFailed pdb_error | CancelFailed pdb_error

record time_lib =
  ParseDuration :: "string \<Rightarrow> int option"
  ParseLocal :: "string \<Rightarrow> gotime option"
  FormatRFC3339 :: "gotime \<Rightarrow> string"

definition ascii_lower :: "char \<Rightarrow> char" where
  "ascii_lower c = (if of_char c \<in> {65..90::nat} then char_of (of_char c + 32 :: nat) else c)"

definition immediateFireDelay :: int where "immediateFireDelay = 1000000000"

text \<open>\<open>strings.EqualFold\<close> with \<open>now\<close>, whose letters fold only to their two cases.\<close>

definition is_now :: "string \<Rightarrow> bool" where
  "is_now s \<longleftrightarrow> map ascii_lower s = ''now''"

definition parseScheduleTime :: "'sch trigger_env \<Rightarrow> time_lib \<Rightarrow> gotime \<Rightarrow> string \<Rightarrow> gotime option" where
  "parseScheduleTime env lib now s =
     (if is_now s then Some (now + immediateFireDelay)
      else case ParseDuration lib s of
             Some d \<Rightarrow> if d \<le> 0 then Some (now + immediateFireDelay) else Some (now + d)
           | None \<Rightarrow>
               (case parse_RFC3339 env s of
                  Some t \<Rightarrow> Some t
                | None \<Rightarrow> ParseLocal lib s))"

definition new_subscription ::
  "string \<Rightarrow> string \<Rightarrow> string \<Rightarrow> TriggerDef \<Rightarrow> string \<Rightarrow> gotime \<Rightarrow> Subscription" where
  "new_subscription k callerID name trig message nextFire =
     \<lparr>su_ID = k, su_InstanceID = callerID, su_Name = name, su_Trigger = trig, su_Message = message,
      su_Status = sub_active, su_NextFire = Some nextFire, su_LastFired = None, su_FireCount = 0,
      su_ErrorCount = 0, su_LastError = [], su_CreatedAt = zeroTime\<rparr>"

text \<open>The end of both handlers: store the subscription, then notify the scheduler, if there is one.\<close>

definition store_and_add ::
  "'sch trigger_env \<Rightarrow> bool \<Rightarrow> gotime \<Rightarrow> gotime \<Rightarrow> Subscription \<Rightarrow> 'sch Scheduler \<Rightarrow> (schedule_error + gotime) \<times> 'sch Scheduler" where
  "store_and_add env cb createdAt addedAt sub s =
     (case CreateSubscription createdAt sub (sc_db s) of
        Inl PErrDuplicate \<Rightarrow> (Inl (ScheduleExists (su_Name sub)), s)
      | Inl err \<Rightarrow> (Inl (CreateFailed err), s)
      | Inr db \<Rightarrow>
          let s1 = s\<lparr>sc_db := db\<rparr>
          in (Inr (the (su_NextFire sub)), if cb then sched_Add env addedAt sub s1 else s1))"

definition handleScheduleRecurring ::
  "'sch trigger_env \<Rightarrow> bool \<Rightarrow> string \<Rightarrow> string \<Rightarrow> gotime \<Rightarrow> gotime \<Rightarrow> gotime \<Rightarrow> string \<Rightarrow> string \<Rightarrow> string \<Rightarrow>
   'sch Scheduler \<Rightarrow> (schedule_error + gotime) \<times> 'sch Scheduler" where
  "handleScheduleRecurring env cb uuid callerID now createdAt addedAt name0 schedule0 message0 s =
     (let name = TrimSpace name0; schedule = TrimSpace schedule0; message = TrimSpace message0 in
      if name = [] then (Inl NameRequired, s)
      else if schedule = [] then (Inl ScheduleRequired, s)
      else if message = [] then (Inl MessageRequired, s)
      else case cron_Parse env schedule of
             None \<Rightarrow> (Inl (InvalidCron schedule), s)
           | Some sched \<Rightarrow>
               if callerID = [] then (Inl NoCaller, s)
               else store_and_add env cb createdAt addedAt
                      (new_subscription uuid callerID name
                         \<lparr>tr_Type = ''cron'', tr_Expr = schedule, tr_At = []\<rparr> message (cron_Next env sched now)) s)"

definition handleScheduleOnce ::
  "'sch trigger_env \<Rightarrow> time_lib \<Rightarrow> bool \<Rightarrow> string \<Rightarrow> string \<Rightarrow> gotime \<Rightarrow> gotime \<Rightarrow> gotime \<Rightarrow> gotime \<Rightarrow>
   string \<Rightarrow> string \<Rightarrow> string \<Rightarrow> 'sch Scheduler \<Rightarrow> (schedule_error + gotime) \<times> 'sch Scheduler" where
  "handleScheduleOnce env lib cb uuid callerID parsedAt checkedAt createdAt addedAt name0 at0 message0 s =
     (let name = TrimSpace name0; at = TrimSpace at0; message = TrimSpace message0 in
      if name = [] then (Inl NameRequired, s)
      else if at = [] then (Inl AtRequired, s)
      else if message = [] then (Inl MessageRequired, s)
      else if callerID = [] then (Inl NoCaller, s)
      else case parseScheduleTime env lib parsedAt at of
             None \<Rightarrow> (Inl (InvalidTime at), s)
           | Some fireAt \<Rightarrow>
               if \<not> checkedAt < fireAt then (Inl (TimeInPast at), s)
               else store_and_add env cb createdAt addedAt
                      (new_subscription uuid callerID name
                         \<lparr>tr_Type = ''once'', tr_Expr = [], tr_At = FormatRFC3339 lib fireAt\<rparr> message fireAt) s)"

definition handleCancelSchedule ::
  "bool \<Rightarrow> string \<Rightarrow> string \<Rightarrow> 'sch Scheduler \<Rightarrow> (schedule_error + string) \<times> 'sch Scheduler" where
  "handleCancelSchedule cb callerID name0 s =
     (let name = TrimSpace name0 in
      if name = [] then (Inl NameRequired, s)
      else if callerID = [] then (Inl NoCaller, s)
      else case GetSubscriptionByName callerID name (sc_db s) of
             Inl PErrNotFound \<Rightarrow> (Inl (NoSchedule name), s)
           | Inl err \<Rightarrow> (Inl (LookupFailed err), s)
           | Inr sub \<Rightarrow>
               (case DeleteSubscription (su_ID sub) (sc_db s) of
                  Inl err \<Rightarrow> (Inl (CancelFailed err), s)
                | Inr db \<Rightarrow>
                    let s1 = s\<lparr>sc_db := db\<rparr>
                    in (Inr (su_ID sub), if cb then sched_Remove (su_ID sub) s1 else s1)))"

text \<open>The rows of the table that \<open>handleListSchedules\<close> prints: name, type, schedule, status, next
  fire, and the counts of fires and errors.\<close>

definition handleListSchedules ::
  "string \<Rightarrow> platform_db \<Rightarrow> schedule_error + (string \<times> string \<times> string \<times> string \<times> gotime option \<times> int \<times> int) list" where
  "handleListSchedules callerID db =
     (if callerID = [] then Inl NoCaller
      else Inr (map (\<lambda>s. (su_Name s, tr_Type (su_Trigger s),
                          if tr_Type (su_Trigger s) = ''once'' then tr_At (su_Trigger s) else tr_Expr (su_Trigger s),
                          su_Status s, su_NextFire s, su_FireCount s, su_ErrorCount s))
                 (ListSubscriptionsByInstance callerID db)))"

section \<open>Properties\<close>

lemma store_and_add_error:
  "fst (store_and_add env cb t1 t2 sub s) = Inl err \<Longrightarrow> snd (store_and_add env cb t1 t2 sub s) = s"
  by (auto simp: store_and_add_def Let_def split: sum.splits pdb_error.splits)

text \<open>A scheduling request that is refused changes nothing: whenever one of the three tools
  answers with an error, the database, the heap and the flags of the scheduler are as before.\<close>

theorem schedule_errors_change_nothing:
  "(\<forall>err. fst (handleScheduleRecurring env cb uuid caller t0 t1 t2 name spec msg s) = Inl err \<longrightarrow>
      snd (handleScheduleRecurring env cb uuid caller t0 t1 t2 name spec msg s) = s) \<and>
   (\<forall>err. fst (handleScheduleOnce env lib cb uuid caller t0 t1 t2 t3 name spec msg s) = Inl err \<longrightarrow>
      snd (handleScheduleOnce env lib cb uuid caller t0 t1 t2 t3 name spec msg s) = s) \<and>
   (\<forall>err. fst (handleCancelSchedule cb caller name s) = Inl err \<longrightarrow> snd (handleCancelSchedule cb caller name s) = s)"
  by (auto simp: handleScheduleRecurring_def handleScheduleOnce_def handleCancelSchedule_def Let_def
      store_and_add_error split: option.splits sum.splits pdb_error.splits)

theorem schedule_errors_change_nothing_witness:
  "snd (handleCancelSchedule True ''i1'' ''none'' (NewScheduler demo_db :: unit Scheduler)) = NewScheduler demo_db"
proof -
  have "TrimSpace ''none'' = ''none''" by code_simp
  then have "fst (handleCancelSchedule True ''i1'' ''none'' (NewScheduler demo_db :: unit Scheduler)) = Inl (NoSchedule ''none'')"
    by (simp add: handleCancelSchedule_def NewScheduler_def GetSubscriptionByName_def demo_db_def demo_sub_def)
  then show ?thesis
    using schedule_errors_change_nothing [where s = "NewScheduler demo_db :: unit Scheduler" and cb = True and
        caller = "''i1''" and name = "''none''"] by blast
qed

lemma handleCancelSchedule_Inr:
  assumes "handleCancelSchedule True caller name s = (Inr k, s')"
  obtains sub db where "GetSubscriptionByName caller (TrimSpace name) (sc_db s) = Inr sub" "su_ID sub = k"
    "DeleteSubscription k (sc_db s) = Inr db" "s' = sched_Remove k (s\<lparr>sc_db := db\<rparr>)"
  using assms
  by (auto simp: handleCancelSchedule_def Let_def split: if_splits sum.splits pdb_error.splits)

lemma deleted_not_in_db:
  "DeleteSubscription k db = Inr db' \<Longrightarrow> k \<notin> db_subs db'"
  by (auto simp: DeleteSubscription_def remove_sub_def split: if_splits)

lemma schedule_error_state:
  "fst (handleCancelSchedule cb caller name s) = Inl err \<Longrightarrow> snd (handleCancelSchedule cb caller name s) = s"
  by (auto simp: handleCancelSchedule_def Let_def split: if_splits sum.splits pdb_error.splits)

lemma own_sub:
  assumes "GetSubscriptionByName caller name db = Inr sub"
  obtains x where "x \<in> set (pdb_subs db)" "su_InstanceID x = caller" "su_ID x = su_ID sub"
proof -
  obtain x where f: "find (\<lambda>s. su_InstanceID s = caller \<and> su_Name s = name) (pdb_subs db) = Some x"
    and g: "GetSubscription (su_ID x) db = Inr sub"
    using assms by (auto simp: GetSubscriptionByName_def split: option.splits)
  have "su_ID sub = su_ID x"
    using g by (auto simp: GetSubscription_def find_Some_iff split: option.splits)
  moreover have "x \<in> set (pdb_subs db)" "su_InstanceID x = caller"
    using f by (auto simp: find_Some_iff)
  ultimately show ?thesis using that by metis
qed

lemma sched_Remove_keeps:
  assumes heap: "is_heap en_nextFire (sc_heap s)" and e: "e \<in> set (sc_heap s)" "entry_id e \<noteq> k"
  shows "e \<in> set (sc_heap (sched_Remove k s))"
proof (cases "index_of (\<lambda>e. entry_id e = k) (sc_heap s)")
  case None
  then show ?thesis using e by (simp add: sched_Remove_def)
next
  case (Some i)
  then have i: "i < length (sc_heap s)" "entry_id (sc_heap s ! i) = k" using index_of_Some by blast+
  then obtain h where h: "heap_Remove en_nextFire i (sc_heap s) = Some (sc_heap s ! i, h)"
    "mset (sc_heap s) = add_mset (sc_heap s ! i) (mset h)"
    using heap_Remove_correct [OF heap i(1)] by metis
  from h(2) have "set (sc_heap s) = insert (sc_heap s ! i) (set h)"
    by (metis set_mset_add_mset_insert set_mset_mset)
  with e i h(1) Some show ?thesis by (auto simp: sched_Remove_def)
qed


lemma demo_cancel:
  assumes "sc_db s = demo_db"
  shows "handleCancelSchedule True ''i1'' ''poll'' s = (Inr ''s1'', sched_Remove ''s1'' (s\<lparr>sc_db := empty_pdb\<rparr>))"
proof -
  have "TrimSpace ''poll'' = ''poll''" by code_simp
  moreover have "GetSubscriptionByName ''i1'' ''poll'' demo_db = Inr demo_sub"
    by (simp add: GetSubscriptionByName_def GetSubscription_def demo_db_def demo_sub_def)
  moreover have "DeleteSubscription ''s1'' demo_db = Inr empty_pdb"
    by (simp add: DeleteSubscription_def remove_sub_def demo_db_def demo_sub_def empty_pdb_def unlink_subs_def)
  moreover have "su_ID demo_sub = ''s1''" by (simp add: demo_sub_def)
  ultimately show ?thesis by (simp add: handleCancelSchedule_def assms)
qed


text \<open>What a successful \<open>ScheduleOnce\<close> leaves behind.  The fire time is stored as RFC 3339 text, so
  to the second: if that second is still ahead when the scheduler is notified, an entry for it is in
  the heap and its row in the database; otherwise neither is, although the tool reported success.\<close>

theorem handleScheduleOnce_outcome:
  assumes rfc: "parse_RFC3339 env (FormatRFC3339 lib fireAt) = Some (second_precision fireAt)"
    and ok: "handleScheduleOnce env lib True uuid caller t0 t1 t2 t3 name at msg s = (Inr fireAt, s')"
  shows "if t3 < second_precision fireAt
    then (\<exists>e\<in>set (sc_heap s'). entry_id e = uuid \<and> entry_inst e = caller \<and> en_nextFire e = second_precision fireAt) \<and>
      uuid \<in> su_ID ` set (pdb_subs (sc_db s'))
    else sc_heap s' = sc_heap s \<and> uuid \<notin> su_ID ` set (pdb_subs (sc_db s'))"
proof -
  let ?sub = "new_subscription uuid caller (TrimSpace name)
    \<lparr>tr_Type = ''once'', tr_Expr = [], tr_At = FormatRFC3339 lib fireAt\<rparr> (TrimSpace msg) fireAt"
  have "store_and_add env True t2 t3 ?sub s = (Inr fireAt, s')"
    using ok by (auto simp: handleScheduleOnce_def Let_def store_and_add_def new_subscription_def
        split: if_splits option.splits sum.splits pdb_error.splits)
  then obtain db where c: "CreateSubscription t2 ?sub (sc_db s) = Inr db"
    and s': "s' = sched_Add env t3 ?sub (s\<lparr>sc_db := db\<rparr>)"
    by (auto simp: store_and_add_def Let_def split: sum.splits pdb_error.splits)
  have row: "uuid \<in> db_subs db"
    using c by (auto simp: CreateSubscription_def new_subscription_def split: if_splits)
  show ?thesis
  proof (cases "t3 < second_precision fireAt")
    case True
    let ?e = "\<lparr>en_sub = ?sub, en_schedule = None, en_nextFire = second_precision fireAt\<rparr>"
    have "buildEntry env t3 ?sub db = (Some ?e, db)"
      using True rfc by (simp add: buildEntry_def new_subscription_def)
    then have "sc_heap s' = heap_Push en_nextFire ?e (sc_heap s)" "sc_db s' = db" by (simp_all add: s' sched_Add_def)
    moreover have "?e \<in> set (heap_Push en_nextFire ?e (sc_heap s))"
      using mset_heap_Push [of en_nextFire ?e "sc_heap s"] by (metis set_mset_mset union_single_eq_member)
    ultimately show ?thesis using True row by (auto intro!: bexI [of _ ?e] simp: new_subscription_def)
  next
    case False
    have "buildEntry env t3 ?sub db = (None, try_db (DeleteSubscription uuid) db)"
      using False rfc by (simp add: buildEntry_def new_subscription_def)
    then have "sc_heap s' = sc_heap s" "sc_db s' = try_db (DeleteSubscription uuid) db"
      by (simp_all add: s' sched_Add_def)
    moreover have "uuid \<notin> db_subs (try_db (DeleteSubscription uuid) db)"
      using row by (auto simp: try_db_def DeleteSubscription_def remove_sub_def)
    ultimately show ?thesis using False by simp
  qed
qed

text \<open>An agent cancels only its own schedules: every subscription of another instance is still in
  the database after \<open>CancelSchedule\<close>, whatever name was given, and still in the heap if it was.\<close>

theorem cancel_only_own:
  assumes ids: "distinct (map su_ID (pdb_subs (sc_db s)))" and heap: "is_heap en_nextFire (sc_heap s)"
    and rows: "\<forall>e\<in>set (sc_heap s). \<exists>r\<in>set (pdb_subs (sc_db s)). su_ID r = entry_id e \<and> su_InstanceID r = entry_inst e"
    and res: "handleCancelSchedule True caller name s = (r, s')"
  shows "(\<forall>x\<in>set (pdb_subs (sc_db s)). su_InstanceID x \<noteq> caller \<longrightarrow> x \<in> set (pdb_subs (sc_db s'))) \<and>
    (\<forall>e\<in>set (sc_heap s). entry_inst e \<noteq> caller \<longrightarrow> e \<in> set (sc_heap s'))"
proof (cases r)
  case (Inl err)
  then have "s' = s" using schedule_error_state [of True caller name s] res by simp
  then show ?thesis by simp
next
  case (Inr k)
  obtain sub db where g: "GetSubscriptionByName caller (TrimSpace name) (sc_db s) = Inr sub" "su_ID sub = k"
    and d: "DeleteSubscription k (sc_db s) = Inr db" and s': "s' = sched_Remove k (s\<lparr>sc_db := db\<rparr>)"
    using res Inr handleCancelSchedule_Inr by metis
  obtain x where x: "x \<in> set (pdb_subs (sc_db s))" "su_InstanceID x = caller" "su_ID x = k"
    using own_sub [OF g(1)] g(2) by metis
  have own: "su_InstanceID z = caller" if "z \<in> set (pdb_subs (sc_db s))" "su_ID z = k" for z
    using x that ids by (metis distinct_map inj_onD)
  have "pdb_subs db = filter (\<lambda>z. su_ID z \<noteq> k) (pdb_subs (sc_db s))"
    using d by (auto simp: DeleteSubscription_def remove_sub_def split: if_splits)
  moreover have "sc_db s' = db" by (simp add: s' sched_Remove_def split: option.split)
  moreover have "e \<in> set (sc_heap s')" if "e \<in> set (sc_heap s)" "entry_inst e \<noteq> caller" for e
    using sched_Remove_keeps [of "s\<lparr>sc_db := db\<rparr>" e k] that heap rows own s' by fastforce
  ultimately show ?thesis using own by auto
qed

theorem cancel_only_own_witness:
  "handleCancelSchedule True ''i2'' ''poll'' (sched_Start every10 5 (NewScheduler demo_db)) =
     (Inl (NoSchedule ''poll''), sched_Start every10 5 (NewScheduler demo_db)) \<and>
   demo_sub \<in> set (pdb_subs (sc_db (sched_Start every10 5 (NewScheduler demo_db))))"
proof -
  let ?s = "sched_Start every10 5 (NewScheduler demo_db)"
  have "TrimSpace ''poll'' = ''poll''" by code_simp
  moreover have "GetSubscriptionByName ''i2'' ''poll'' demo_db = Inl PErrNotFound"
    by (simp add: GetSubscriptionByName_def demo_db_def demo_sub_def)
  ultimately have r: "handleCancelSchedule True ''i2'' ''poll'' ?s = (Inl (NoSchedule ''poll''), ?s)"
    by (simp add: handleCancelSchedule_def demo_start)
  have subs: "pdb_subs demo_db = [demo_sub]" by (simp add: demo_db_def)
  have "is_heap en_nextFire (sc_heap ?s)"
    using is_heap_Init [of en_nextFire "sc_heap ?s"] by (simp add: demo_start heap_Init_def)
  then have "su_InstanceID demo_sub \<noteq> ''i2'' \<longrightarrow> demo_sub \<in> set (pdb_subs (sc_db ?s))"
    using cancel_only_own [OF _ _ _ r] subs by (simp add: demo_start)
  with r show ?thesis by (simp add: demo_sub_def)
qed

text \<open>The time library of the witness: every local time and duration is the number of its characters, in
  seconds, and a time is written in full seconds.\<close>

definition demo_lib :: time_lib where
  "demo_lib = \<lparr>ParseDuration = (\<lambda>x. Some (int (length x) * 1000000000)), ParseLocal = (\<lambda>_. None),
     FormatRFC3339 = (\<lambda>t. if t div 1000000000 = 1 then ''1'' else ''12'')\<rparr>"

definition demo_secs :: "unit trigger_env" where
  "demo_secs = every10\<lparr>parse_RFC3339 := (\<lambda>x. Some (int (length x) * 1000000000))\<rparr>"

definition demo_late :: "(schedule_error + gotime) \<times> unit Scheduler" where
  "demo_late = handleScheduleOnce demo_secs demo_lib True ''u'' ''i1'' 900000000 900000000 900000000 1000000000
     ''x'' ''now'' ''m'' (NewScheduler (empty_pdb\<lparr>pdb_instances := [\<lparr>in_ID = ''i1'', in_AgentName = [], in_Mode = [],
       in_ParentID = [], in_NodeID = [], in_Status = [], in_CreatedAt = 0, in_StoppedAt = None\<rparr>]\<rparr>))"

theorem handleScheduleOnce_outcome_witness:
  "fst demo_late = Inr 1900000000 \<and> ''u'' \<notin> su_ID ` set (pdb_subs (sc_db (snd demo_late)))"
proof -
  have f: "fst demo_late = Inr 1900000000" by code_simp
  have a: "parse_RFC3339 demo_secs (FormatRFC3339 demo_lib 1900000000) = Some (second_precision 1900000000)" by code_simp
  have late: "((1000000000 :: int) < second_precision 1900000000) = False" by code_simp
  have p: "demo_late = (Inr 1900000000, snd demo_late)" using f by (metis prod.collapse)
  from handleScheduleOnce_outcome [OF a p [unfolded demo_late_def], folded demo_late_def, unfolded late if_False] f
  show ?thesis by blast
qed

end
