(* ===== verification/Channel_Format.thy ===== *)
theory Channel_Format
  imports Hiro_Prelude
begin

text \<open>
  Formatting for channels that do not stream, \<open>src/internal/channel/format.go\<close>: splitting a long
  text into messages and collecting the text of a turn from its events.
\<close>

section \<open>Events\<close>

record ChatEvent =
  ev_Type :: string
  ev_Content :: string

definition clearConfirmation :: string where "clearConfirmation = ''Session cleared.''"

definition blank_line :: "string \<Rightarrow> string" where
  "blank_line buf = (if buf \<noteq> [] then buf @ [CHR 0x0A, CHR 0x0A] else buf)"

definition appendEvent :: "ChatEvent \<Rightarrow> string \<Rightarrow> string" where
  "appendEvent evt buf =
     (if ev_Type evt = ''delta'' then buf @ ev_Content evt
      else if ev_Type evt = ''system'' then blank_line buf @ ev_Content evt
      else if ev_Type evt = ''clear'' then blank_line buf @ clearConfirmation
      else if ev_Type evt = ''error'' then blank_line buf @ ''Error: '' @ ev_Content evt
      else buf)"

definition FormatEvents :: "ChatEvent list \<Rightarrow> string" where
  "FormatEvents events = fold appendEvent events []"

text \<open>The callback of \<open>MakeBufferingOnEvent\<close> on its buffer.\<close>

definition MakeBufferingOnEvent :: "string \<Rightarrow> ChatEvent \<Rightarrow> string" where
  "MakeBufferingOnEvent buf evt = appendEvent evt buf"

section \<open>Splitting\<close>

definition split_cut :: "nat \<Rightarrow> string \<Rightarrow> nat" where
  "split_cut maxLen s =
     (case LastIndex (take maxLen s) [CHR 0x0A] of
        Some idx \<Rightarrow> if idx > 0 then idx + 1 else maxLen
      | None \<Rightarrow> maxLen)"

text \<open>The loop does not end for a limit of zero.\<close>

partial_function (option) split_loop :: "nat \<Rightarrow> string \<Rightarrow> string list option" where
  "split_loop maxLen s =
     (if s = [] then Some []
      else if length s \<le> maxLen then Some [s]
      else Option.bind (split_loop maxLen (drop (split_cut maxLen s) s))
             (\<lambda>chunks. Some (take (split_cut maxLen s) s # chunks)))"

definition SplitMessage :: "string \<Rightarrow> nat \<Rightarrow> string list option" where
  "SplitMessage s maxLen = (if length s \<le> maxLen then Some [s] else split_loop maxLen s)"

section \<open>Properties\<close>

lemma LastIndex_newline:
  assumes "LastIndex s [c] = Some i"
  shows "i < length s"
proof -
  have "prefix [c] (drop i s)" using assms by (auto simp: LastIndex_def find_Some_iff)
  then show ?thesis by (cases "i < length s") auto
qed

lemma split_cut_bounds:
  assumes "0 < maxLen" "maxLen < length s"
  shows "0 < split_cut maxLen s" "split_cut maxLen s \<le> maxLen"
  using assms LastIndex_newline [of "take maxLen s" "CHR 0x0A"]
  by (auto simp: split_cut_def split: option.split)

lemma split_loop_total:
  assumes "0 < maxLen"
  shows "\<exists>chunks. split_loop maxLen s = Some chunks \<and> concat chunks = s \<and>
    (\<forall>c\<in>set chunks. c \<noteq> [] \<and> length c \<le> maxLen)"
proof (induction "length s" arbitrary: s rule: less_induct)
  case less
  show ?case
  proof (cases "length s \<le> maxLen")
    case True
    then show ?thesis by (subst split_loop.simps) auto
  next
    case False
    note cut = split_cut_bounds [OF assms, of s]
    from False cut assms have "length (drop (split_cut maxLen s) s) < length s" by auto
    from less [OF this] obtain chunks where
      c: "split_loop maxLen (drop (split_cut maxLen s) s) = Some chunks"
      "concat chunks = drop (split_cut maxLen s) s" "\<forall>c\<in>set chunks. c \<noteq> [] \<and> length c \<le> maxLen" by blast
    from False have "s \<noteq> []" by auto
    then have "split_loop maxLen s = Some (take (split_cut maxLen s) s # chunks)"
      using False c(1) by (subst split_loop.simps) simp
    then show ?thesis using c(2,3) cut False \<open>s \<noteq> []\<close> by auto
  qed
qed

text \<open>C34. \<open>SplitMessage\<close> returns for every positive limit, its chunks are the text cut in order with
  nothing lost, none is longer than the limit, and none is empty unless the text is.\<close>

theorem SplitMessage_correct:
  assumes "0 < maxLen"
  shows "\<exists>chunks. SplitMessage s maxLen = Some chunks \<and> concat chunks = s \<and>
    (\<forall>c\<in>set chunks. length c \<le> maxLen \<and> (s \<noteq> [] \<longrightarrow> c \<noteq> []))"
  using split_loop_total [OF assms, of s] by (auto simp: SplitMessage_def)

theorem SplitMessage_correct_witness:
  "\<exists>chunks. SplitMessage ''ab'' 1 = Some chunks \<and> concat chunks = ''ab''"
  using SplitMessage_correct [of 1 "''ab''"] by auto

text \<open>The limit counts bytes, and without a newline a chunk ends after exactly that many: a character of
  two bytes is cut in half.\<close>

lemma SplitMessage_cuts_characters:
  "SplitMessage [CHR 0xC3, CHR 0xA9] 1 = Some [[CHR 0xC3], [CHR 0xA9]]"
proof -
  have "split_cut 1 [CHR 0xC3, CHR 0xA9] = 1" by code_simp
  then have "split_loop 1 [CHR 0xC3, CHR 0xA9] = Some [[CHR 0xC3], [CHR 0xA9]]"
    by (subst split_loop.simps, subst split_loop.simps) simp
  then show ?thesis by (simp add: SplitMessage_def)
qed

text \<open>Only the four recognised kinds of event produce text.\<close>

lemma FormatEvents_relevant:
  "FormatEvents events =
     FormatEvents (filter (\<lambda>e. ev_Type e \<in> {''delta'', ''system'', ''clear'', ''error''}) events)"
proof -
  have "fold appendEvent events buf =
      fold appendEvent (filter (\<lambda>e. ev_Type e \<in> {''delta'', ''system'', ''clear'', ''error''}) events) buf" for buf
    by (induction events arbitrary: buf) (simp_all add: appendEvent_def)
  then show ?thesis by (simp add: FormatEvents_def)
qed

end
