(* ===== verification/Notifications.thy ===== *)
theory Notifications
  imports Hiro_Prelude
begin

text \<open>
  The notification queue of an inference loop, \<open>src/internal/inference/notifications.go\<close>.
  The channel \<open>ch\<close> with its one-place buffer is a flag.  \<open>Push\<close> works in two atomic steps,
  the insertion under the mutex and the non-blocking send after it; the step relation below
  interleaves them with a consumer that waits for the signal and then drains.
\<close>

section \<open>Bounded queues that drop their oldest element\<close>

locale bounded_queue =
  fixes contents :: "'q \<Rightarrow> 'a list" and enq :: "'a \<Rightarrow> 'q \<Rightarrow> 'q" and cap :: nat
  assumes cap_pos: "0 < cap"
    and contents_enq: "contents (enq x q) =
      (if length (contents q) \<ge> cap then tl (contents q) else contents q) @ [x]"
begin

lemma enq_bounded: "length (contents q) \<le> cap \<Longrightarrow> length (contents (enq x q)) \<le> cap"
  using cap_pos by (auto simp: contents_enq)

lemma tl_drop: "n < length xs \<Longrightarrow> tl (drop n xs) = drop (Suc n) xs"
  by (simp add: drop_Suc tl_drop)

lemma contents_fold:
  "contents q = [] \<Longrightarrow> contents (fold enq xs q) = drop (length xs - cap) xs"
proof (induction xs rule: rev_induct)
  case (snoc x xs)
  then have IH: "contents (fold enq xs q) = drop (length xs - cap) xs" by simp
  show ?case
  proof (cases "cap \<le> length xs")
    case True
    with cap_pos have "length xs - cap < length xs" by simp
    with True IH cap_pos show ?thesis
      by (simp add: contents_enq tl_drop Suc_diff_le)
  next
    case False
    then have "length (drop (length xs - cap) xs) < cap" by simp
    with False IH show ?thesis by (simp add: contents_enq)
  qed
qed simp

end

section \<open>The queue\<close>

record Notification =
  nt_Content :: string
  nt_Source :: string
  nt_SessionID :: string

definition maxNotifications :: nat where "maxNotifications = 1000"

record NotificationQueue =
  nq_items :: "Notification list"
  nq_signal :: bool

definition NewNotificationQueue :: NotificationQueue where
  "NewNotificationQueue = \<lparr>nq_items = [], nq_signal = False\<rparr>"

definition push_locked :: "Notification \<Rightarrow> NotificationQueue \<Rightarrow> NotificationQueue" where
  "push_locked n q =
     (let q1 = (if length (nq_items q) \<ge> maxNotifications then q\<lparr>nq_items := tl (nq_items q)\<rparr> else q)
      in q1\<lparr>nq_items := nq_items q1 @ [n]\<rparr>)"

definition push_signal :: "NotificationQueue \<Rightarrow> NotificationQueue" where
  "push_signal q = q\<lparr>nq_signal := True\<rparr>"

definition Push :: "Notification \<Rightarrow> NotificationQueue \<Rightarrow> NotificationQueue" where
  "Push n q = push_signal (push_locked n q)"

definition Drain :: "NotificationQueue \<Rightarrow> Notification list \<times> NotificationQueue" where
  "Drain q = (if nq_items q = [] then ([], q) else (nq_items q, q\<lparr>nq_items := []\<rparr>))"

text \<open>Receiving from \<open>Ready\<close>: possible when the buffer holds a signal.\<close>

definition receive_ready :: "NotificationQueue \<Rightarrow> NotificationQueue option" where
  "receive_ready q = (if nq_signal q then Some (q\<lparr>nq_signal := False\<rparr>) else None)"

definition Queue_Len :: "NotificationQueue \<Rightarrow> nat" where
  "Queue_Len q = length (nq_items q)"

interpretation notif: bounded_queue nq_items Push maxNotifications
  by unfold_locales (simp_all add: Push_def push_locked_def push_signal_def maxNotifications_def Let_def)

interpretation notif_locked: bounded_queue nq_items push_locked maxNotifications
  by unfold_locales (simp_all add: push_locked_def maxNotifications_def Let_def)

text \<open>
  Draining after any number of pushes returns the newest 1000 notifications in the order of
  the pushes, and all of them while there are at most 1000; nothing is returned twice.
\<close>

theorem Drain_after_pushes:
  "fst (Drain (fold Push ns NewNotificationQueue)) = drop (length ns - 1000) ns \<and>
   fst (Drain (snd (Drain (fold Push ns NewNotificationQueue)))) = []"
  using notif.contents_fold [of NewNotificationQueue ns]
  by (cases ns) (auto simp: Drain_def NewNotificationQueue_def maxNotifications_def)

section \<open>Producers and a consumer\<close>

record queue_system =
  qs_queue :: NotificationQueue
  qs_pushing :: nat
  qs_awake :: bool

inductive queue_step :: "queue_system \<Rightarrow> queue_system \<Rightarrow> bool" where
  insert: "queue_step s (s\<lparr>qs_queue := push_locked n (qs_queue s), qs_pushing := Suc (qs_pushing s)\<rparr>)"
| signal: "qs_pushing s = Suc k
    \<Longrightarrow> queue_step s (s\<lparr>qs_queue := push_signal (qs_queue s), qs_pushing := k\<rparr>)"
| wake: "\<not> qs_awake s \<Longrightarrow> receive_ready (qs_queue s) = Some q
    \<Longrightarrow> queue_step s (s\<lparr>qs_queue := q, qs_awake := True\<rparr>)"
| drain: "qs_awake s
    \<Longrightarrow> queue_step s (s\<lparr>qs_queue := snd (Drain (qs_queue s)), qs_awake := False\<rparr>)"

definition queue_start :: queue_system where
  "queue_start = \<lparr>qs_queue = NewNotificationQueue, qs_pushing = 0, qs_awake = False\<rparr>"

definition queue_inv :: "queue_system \<Rightarrow> bool" where
  "queue_inv s \<longleftrightarrow> length (nq_items (qs_queue s)) \<le> maxNotifications \<and>
     (nq_items (qs_queue s) \<noteq> [] \<longrightarrow> nq_signal (qs_queue s) \<or> 0 < qs_pushing s \<or> qs_awake s)"

lemma queue_step_inv: "queue_step s s' \<Longrightarrow> queue_inv s \<Longrightarrow> queue_inv s'"
proof (induction rule: queue_step.induct)
  case (insert s n)
  then show ?case
    using notif_locked.enq_bounded [of "qs_queue s" n] by (simp add: queue_inv_def)
qed (auto simp: queue_inv_def push_signal_def receive_ready_def Drain_def split: if_splits)

text \<open>
  C31. No wake-up is lost.  In every interleaving of pushing producers with the consumer, a queue
  that still holds notifications has a signal waiting, or a producer about to send one, or a
  consumer about to drain; so when nothing can move any more the queue is empty.
\<close>

theorem no_lost_wakeup:
  assumes "queue_step\<^sup>*\<^sup>* queue_start s" "qs_pushing s = 0" "\<not> qs_awake s"
    "receive_ready (qs_queue s) = None"
  shows "nq_items (qs_queue s) = []"
proof -
  have "queue_inv s" using assms(1)
  proof induction
    case base
    show ?case by (simp add: queue_inv_def queue_start_def NewNotificationQueue_def)
  qed (rule queue_step_inv)
  with assms(2-4) show ?thesis by (auto simp: queue_inv_def receive_ready_def split: if_splits)
qed

theorem no_lost_wakeup_witness:
  "\<exists>s. queue_step\<^sup>*\<^sup>* queue_start s \<and> nq_items (qs_queue s) = [] \<and> \<not> qs_awake s"
proof -
  let ?n = "\<lparr>nt_Content = ''done'', nt_Source = ''cron'', nt_SessionID = []\<rparr>"
  let ?s1 = "queue_start\<lparr>qs_queue := push_locked ?n (qs_queue queue_start), qs_pushing := Suc (qs_pushing queue_start)\<rparr>"
  let ?s2 = "?s1\<lparr>qs_queue := push_signal (qs_queue ?s1), qs_pushing := 0\<rparr>"
  let ?s3 = "?s2\<lparr>qs_queue := (qs_queue ?s2)\<lparr>nq_signal := False\<rparr>, qs_awake := True\<rparr>"
  let ?s4 = "?s3\<lparr>qs_queue := snd (Drain (qs_queue ?s3)), qs_awake := False\<rparr>"
  have "queue_step queue_start ?s1" by (rule queue_step.insert)
  moreover have "queue_step ?s1 ?s2" by (rule queue_step.signal) (simp add: queue_start_def)
  moreover have "queue_step ?s2 ?s3"
    by (rule queue_step.wake) (simp_all add: queue_start_def receive_ready_def push_signal_def)
  moreover have "queue_step ?s3 ?s4" by (rule queue_step.drain) simp
  ultimately have r: "queue_step\<^sup>*\<^sup>* queue_start ?s4"
    by (meson converse_rtranclp_into_rtranclp rtranclp.rtrancl_refl)
  have "nq_items (qs_queue ?s4) = []"
    by (rule no_lost_wakeup [OF r]) (simp_all add: queue_start_def receive_ready_def Drain_def)
  with r show ?thesis by (intro exI [of _ ?s4]) simp
qed

end
