(* ===== verification/Model_Spec.thy ===== *)
theory Model_Spec
  imports Hiro_Prelude
begin

text \<open>
  Model references and model metadata, \<open>src/internal/models\<close>.  The embedded provider catalogue of
  the catwalk library is an argument: a list of providers with their models.  Costs, which are
  floating-point numbers, are not modelled.
\<close>

section \<open>Model references\<close>

record ModelSpec =
  ms_Provider :: string
  ms_Model :: string

definition ParseModelSpec :: "string \<Rightarrow> ModelSpec" where
  "ParseModelSpec s0 =
     (let s = TrimSpace s0
      in if s = [] then \<lparr>ms_Provider = [], ms_Model = []\<rparr>
         else case Cut s (CHR ''/'') of
                None \<Rightarrow> \<lparr>ms_Provider = [], ms_Model = s\<rparr>
              | Some (provider, model) \<Rightarrow> \<lparr>ms_Provider = provider, ms_Model = model\<rparr>)"

definition ModelSpec_String :: "ModelSpec \<Rightarrow> string" where
  "ModelSpec_String ms =
     (if ms_Provider ms = [] then ms_Model ms
      else if ms_Model ms = [] then ms_Provider ms
      else ms_Provider ms @ ''/'' @ ms_Model ms)"

definition ModelSpec_IsEmpty :: "ModelSpec \<Rightarrow> bool" where
  "ModelSpec_IsEmpty ms \<longleftrightarrow> ms_Provider ms = [] \<and> ms_Model ms = []"

section \<open>The catalogue\<close>

record cat_model =
  cm_ID :: string
  cm_Name :: string
  cm_CanReason :: bool
  cm_ReasoningLevels :: "string list"
  cm_DefaultReasoningEffort :: string
  cm_ContextWindow :: int

record cat_provider =
  cpv_Type :: string
  cpv_ID :: string
  cpv_Models :: "cat_model list"

text \<open>\<open>ensureInit\<close>: the first model with an identifier wins.\<close>

definition ensureInit :: "cat_provider list \<Rightarrow> (string, cat_model) gomap" where
  "ensureInit providers =
     fold (\<lambda>m reg. if gomap_get reg (cm_ID m) = None then gomap_put (cm_ID m) m reg else reg)
       (concat (map cpv_Models providers)) []"

function Lookup :: "(string, cat_model) gomap \<Rightarrow> string \<Rightarrow> cat_model option" where
  "Lookup reg modelID =
     (case gomap_get reg modelID of
        Some m \<Rightarrow> Some m
      | None \<Rightarrow>
          (case Cut modelID (CHR ''/'') of
             Some (_, after) \<Rightarrow> Lookup reg after
           | None \<Rightarrow> None))"
  by pat_completeness auto
termination
  by (relation "measure (\<lambda>(reg, s). length s)") (auto simp: Cut_Some)

declare Lookup.simps [simp del]

definition ContextWindow :: "(string, cat_model) gomap \<Rightarrow> string \<Rightarrow> int" where
  "ContextWindow reg modelID =
     (case Lookup reg modelID of
        None \<Rightarrow> 200000
      | Some m \<Rightarrow> if cm_ContextWindow m \<le> 0 then 200000 else cm_ContextWindow m)"

record ModelInfo =
  mi_ID :: string
  mi_Name :: string
  mi_Provider :: string
  mi_CanReason :: bool
  mi_ReasoningLevels :: "string list"
  mi_DefaultReasoningEffort :: string
  mi_ContextWindow :: int

definition ModelsForProvider :: "cat_provider list \<Rightarrow> string \<Rightarrow> ModelInfo list" where
  "ModelsForProvider providers providerType =
     concat (map (\<lambda>p. map (\<lambda>m. \<lparr>mi_ID = cm_ID m, mi_Name = cm_Name m, mi_Provider = cpv_ID p,
         mi_CanReason = cm_CanReason m, mi_ReasoningLevels = cm_ReasoningLevels m,
         mi_DefaultReasoningEffort = cm_DefaultReasoningEffort m,
         mi_ContextWindow = cm_ContextWindow m\<rparr>)
       (filter (\<lambda>m. 0 < cm_ContextWindow m) (cpv_Models p)))
     (filter (\<lambda>p. cpv_Type p = providerType \<or> cpv_ID p = providerType) providers))"

definition ModelsForProviders :: "cat_provider list \<Rightarrow> string list \<Rightarrow> ModelInfo list" where
  "ModelsForProviders providers providerTypes = concat (map (ModelsForProvider providers) providerTypes)"

section \<open>Properties\<close>

definition canonical_spec :: "ModelSpec \<Rightarrow> bool" where
  "canonical_spec ms \<longleftrightarrow>
     trimmed (ModelSpec_String ms) \<and> CHR ''/'' \<notin> set (ms_Provider ms) \<and>
     (ms_Provider ms = [] \<longrightarrow> CHR ''/'' \<notin> set (ms_Model ms)) \<and>
     (ms_Model ms = [] \<longrightarrow> ms_Provider ms = [])"

lemma ParseModelSpec_cases:
  "ParseModelSpec s = ms \<Longrightarrow> TrimSpace s = [] \<and> ms_Provider ms = [] \<and> ms_Model ms = [] \<or>
     CHR ''/'' \<notin> set (TrimSpace s) \<and> ms_Provider ms = [] \<and> ms_Model ms = TrimSpace s \<or>
     TrimSpace s = ms_Provider ms @ CHR ''/'' # ms_Model ms \<and> CHR ''/'' \<notin> set (ms_Provider ms)"
  by (auto simp: ParseModelSpec_def Let_def Cut_Some Cut_None split: if_splits option.splits)

text \<open>
  C32. Printing a model reference and parsing it again gives the reference back exactly for the
  canonical ones: the printed form has no outer white space, the provider has no slash, a bare
  model has no slash, and a provider without a model does not occur.  The last condition is real:
  a reference with only a provider is printed as its provider and read back as a model.
\<close>

theorem ParseModelSpec_String_iff:
  "ParseModelSpec (ModelSpec_String ms) = ms \<longleftrightarrow> canonical_spec ms"
proof
  assume canon: "canonical_spec ms"
  then have t: "TrimSpace (ModelSpec_String ms) = ModelSpec_String ms" by (simp add: canonical_spec_def)
  show "ParseModelSpec (ModelSpec_String ms) = ms"
  proof (cases "ms_Provider ms = []")
    case True
    with canon have "Cut (ms_Model ms) (CHR ''/'') = None" by (simp add: canonical_spec_def Cut_None)
    with True t show ?thesis by (cases ms) (auto simp: ParseModelSpec_def ModelSpec_String_def)
  next
    case False
    with canon have m: "ms_Model ms \<noteq> []" "CHR ''/'' \<notin> set (ms_Provider ms)"
      by (auto simp: canonical_spec_def)
    then have "Cut (ms_Provider ms @ CHR ''/'' # ms_Model ms) (CHR ''/'') = Some (ms_Provider ms, ms_Model ms)"
      by (simp add: Cut_Some)
    with False m t show ?thesis by (cases ms) (simp add: ParseModelSpec_def ModelSpec_String_def)
  qed
next
  assume rt: "ParseModelSpec (ModelSpec_String ms) = ms"
  have tr: "trimmed (TrimSpace (ModelSpec_String ms))" by simp
  from ParseModelSpec_cases [OF rt] show "canonical_spec ms"
  proof (elim disjE)
    assume "TrimSpace (ModelSpec_String ms) = [] \<and> ms_Provider ms = [] \<and> ms_Model ms = []"
    then show ?thesis by (simp add: canonical_spec_def ModelSpec_String_def)
  next
    assume "CHR ''/'' \<notin> set (TrimSpace (ModelSpec_String ms)) \<and> ms_Provider ms = [] \<and>
      ms_Model ms = TrimSpace (ModelSpec_String ms)"
    with tr show ?thesis by (metis canonical_spec_def ModelSpec_String_def empty_iff empty_set)
  next
    assume a: "TrimSpace (ModelSpec_String ms) = ms_Provider ms @ CHR ''/'' # ms_Model ms \<and>
      CHR ''/'' \<notin> set (ms_Provider ms)"
    then have "length (ms_Provider ms @ CHR ''/'' # ms_Model ms) \<le> length (ModelSpec_String ms)"
      by (metis length_TrimSpace_le)
    then have "ms_Provider ms \<noteq> []" "ms_Model ms \<noteq> []"
      by (auto simp: ModelSpec_String_def split: if_splits)
    with a tr show ?thesis by (simp add: canonical_spec_def ModelSpec_String_def)
  qed
qed

fun slash_ends :: "string \<Rightarrow> string list" where
  "slash_ends [] = []"
| "slash_ends (c # cs) = (if c = CHR ''/'' then cs # slash_ends cs else slash_ends cs)"

lemma slash_ends_Cut:
  "slash_ends s = (case Cut s (CHR ''/'') of None \<Rightarrow> [] | Some (a, b) \<Rightarrow> b # slash_ends b)"
proof (cases "Cut s (CHR ''/'')")
  case None
  have "CHR ''/'' \<notin> set s \<Longrightarrow> slash_ends s = []" by (induction s) auto
  then have "slash_ends s = []" using None by (simp add: Cut_None)
  with None show ?thesis by simp
next
  case (Some p)
  obtain a b where p: "p = (a, b)" by fastforce
  have "CHR ''/'' \<notin> set a \<Longrightarrow> slash_ends (a @ CHR ''/'' # b) = b # slash_ends b" by (induction a) auto
  then have "slash_ends s = b # slash_ends b" using Some p by (simp add: Cut_Some)
  with Some p show ?thesis by simp
qed

text \<open>
  Looking up a model finds the entry of the longest end of the reference that starts after a
  slash (or is the whole reference) and is in the catalogue; provider prefixes of any number are
  skipped, and a miss means that no such end is listed.
\<close>

theorem Lookup_longest_end:
  "Lookup reg modelID =
     (case List.map_filter (gomap_get reg) (modelID # slash_ends modelID) of
        [] \<Rightarrow> None | m # _ \<Rightarrow> Some m)"
proof (induction reg modelID rule: Lookup.induct)
  case (1 reg modelID)
  show ?case
  proof (cases "gomap_get reg modelID")
    case None
    with 1 show ?thesis
      by (simp add: Lookup.simps [of reg modelID] slash_ends_Cut [of modelID] List.map_filter_def
          split: option.split prod.split)
  next
    case (Some m)
    then show ?thesis by (simp add: Lookup.simps [of reg modelID] List.map_filter_def)
  qed
qed

end
