(* ===== verification/Auth_Token.thy ===== *)
theory Auth_Token
  imports Hiro_Prelude "HOL-Library.Word"
begin

text \<open>
  Signed session tokens, \<open>src/internal/auth/auth.go\<close>.  A token is the hexadecimal form of the
  expiry (a 64-bit big-endian Unix time) and of its HMAC, separated by a dot.  The HMAC is the
  argument \<open>hmac\<close> (key and message to tag); byte strings are strings.  \<open>encoding/hex\<close> and
  \<open>encoding/binary\<close> are defined here as far as the code uses them.
\<close>

section \<open>Hexadecimal and big-endian encodings\<close>

definition hex_digit :: "nat \<Rightarrow> char" where
  "hex_digit d = (if d < 10 then char_of (48 + d) else char_of (87 + d))"

definition hex_value :: "char \<Rightarrow> nat option" where
  "hex_value c =
     (let n = of_char c :: nat in
      if 48 \<le> n \<and> n \<le> 57 then Some (n - 48)
      else if 97 \<le> n \<and> n \<le> 102 then Some (n - 87)
      else if 65 \<le> n \<and> n \<le> 70 then Some (n - 55)
      else None)"

fun hex_EncodeToString :: "string \<Rightarrow> string" where
  "hex_EncodeToString [] = []"
| "hex_EncodeToString (b # bs) =
     hex_digit (of_char b div 16) # hex_digit (of_char b mod 16) # hex_EncodeToString bs"

fun hex_DecodeString :: "string \<Rightarrow> string option" where
  "hex_DecodeString [] = Some []"
| "hex_DecodeString [_] = None"
| "hex_DecodeString (c # d # cs) =
     (case (hex_value c, hex_value d, hex_DecodeString cs) of
        (Some hi, Some lo, Some bs) \<Rightarrow> Some (char_of (16 * hi + lo) # bs)
      | _ \<Rightarrow> None)"

text \<open>The lower-case form of the hexadecimal letters.\<close>

definition hex_lower :: "char \<Rightarrow> char" where
  "hex_lower c = (let n = of_char c :: nat in if 65 \<le> n \<and> n \<le> 70 then char_of (n + 32) else c)"

definition PutUint64 :: "64 word \<Rightarrow> string" where
  "PutUint64 w = map (\<lambda>i. char_of (unat w div 256 ^ i)) (rev [0..<8])"

definition Uint64 :: "string \<Rightarrow> 64 word" where
  "Uint64 bs = word_of_nat (foldl (\<lambda>a c. a * 256 + of_char c) 0 bs)"

section \<open>Token signer\<close>

abbreviation minSecretLen :: nat where "minSecretLen \<equiv> 32"
abbreviation expiryFieldLen :: nat where "expiryFieldLen \<equiv> 8"

type_synonym hmac = "string \<Rightarrow> string \<Rightarrow> string"

record TokenSigner =
  ts_secret :: string
  ts_ttl :: int

definition NewTokenSigner :: "string \<Rightarrow> int \<Rightarrow> TokenSigner option" where
  "NewTokenSigner secret ttl =
     (if length secret < minSecretLen then None else Some \<lparr>ts_secret = secret, ts_ttl = ttl\<rparr>)"

definition createWithExpiry :: "hmac \<Rightarrow> TokenSigner \<Rightarrow> 64 word \<Rightarrow> string" where
  "createWithExpiry hmac ts expiry =
     (let eb = PutUint64 expiry
      in hex_EncodeToString eb @ ''.'' @ hex_EncodeToString (hmac (ts_secret ts) eb))"

text \<open>Times are in nanoseconds; \<open>Unix\<close> gives whole seconds.\<close>

definition Unix :: "gotime \<Rightarrow> int" where
  "Unix t = t div 1000000000"

definition Token_Create :: "hmac \<Rightarrow> TokenSigner \<Rightarrow> gotime \<Rightarrow> string" where
  "Token_Create hmac ts now = createWithExpiry hmac ts (word_of_int (Unix (now + ts_ttl ts)))"

definition Token_Valid :: "hmac \<Rightarrow> TokenSigner \<Rightarrow> gotime \<Rightarrow> string \<Rightarrow> bool" where
  "Token_Valid hmac ts now token =
     (if token = [] then False
      else case Cut token (CHR ''.'') of
             None \<Rightarrow> False
           | Some (e, s) \<Rightarrow>
               (case hex_DecodeString e of
                  None \<Rightarrow> False
                | Some eb \<Rightarrow>
                    if length eb \<noteq> 8 then False
                    else case hex_DecodeString s of
                           None \<Rightarrow> False
                         | Some sig \<Rightarrow>
                             if sig \<noteq> hmac (ts_secret ts) eb then False
                             else Unix now \<le> sint (Uint64 eb)))"

section \<open>Round trips of the encodings\<close>

lemma hex_value_digit: "d < 16 \<Longrightarrow> hex_value (hex_digit d) = Some d"
  by (simp add: hex_value_def hex_digit_def Let_def)

lemma hex_digit_no_dot: "d < 16 \<Longrightarrow> hex_digit d \<noteq> CHR ''.''"
  using hex_value_digit [of d] by (auto simp: hex_value_def)

lemma hex_roundtrip: "hex_DecodeString (hex_EncodeToString bs) = Some bs"
proof (induction bs)
  case (Cons b bs)
  have "16 * (of_char b div 16) + of_char b mod 16 = (of_char b :: nat)" by simp
  then have "char_of (16 * (of_char b div 16) + of_char b mod 16 :: nat) = b" by (metis char_of_char)
  with Cons show ?case by (simp add: hex_value_digit less_mult_imp_div_less)
qed simp

lemma hex_Encode_no_dot: "CHR ''.'' \<notin> set (hex_EncodeToString bs)"
proof (induction bs)
  case (Cons b bs)
  have "of_char b div 16 < (16::nat)" "of_char b mod 16 < (16::nat)"
    by (simp_all add: less_mult_imp_div_less)
  with Cons hex_digit_no_dot show ?case by (metis hex_EncodeToString.simps(2) set_ConsD)
qed simp

lemma hex_digit_value:
  assumes "hex_value c = Some v"
  shows "hex_digit v = hex_lower c" "v < 16"
  using assms
  by (auto simp: hex_value_def hex_digit_def hex_lower_def Let_def split: if_splits)

lemma hex_decode_encode:
  "hex_DecodeString s = Some bs \<Longrightarrow> hex_EncodeToString bs = map hex_lower s"
proof (induction s arbitrary: bs rule: hex_DecodeString.induct)
  case (3 c d cs)
  then obtain hi lo bs' where v: "hex_value c = Some hi" "hex_value d = Some lo"
    "hex_DecodeString cs = Some bs'" "bs = char_of (16 * hi + lo) # bs'"
    by (auto split: option.splits)
  have "hi < 16" "lo < 16" using hex_digit_value(2) v by auto
  then have "(of_char (char_of (16 * hi + lo) :: char) :: nat) = 16 * hi + lo" by simp
  with v 3 hex_digit_value [OF v(1)] hex_digit_value [OF v(2)] show ?case by simp
qed auto

lemma big_endian_digits:
  "foldl (\<lambda>a c. a * 256 + of_char c) 0 (map (\<lambda>i. char_of (n div 256 ^ i)) (rev [0..<k])) =
     (n :: nat) mod 256 ^ k"
proof -
  have "foldl (\<lambda>a c. a * 256 + of_char c) a (map (\<lambda>i. char_of (n div 256 ^ i)) (rev [0..<k])) =
      a * 256 ^ k + n mod 256 ^ k" for a :: nat
  proof (induction k arbitrary: a)
    case (Suc k)
    have "n mod 256 ^ Suc k = 256 ^ k * (n div 256 ^ k mod 256) + n mod 256 ^ k"
      using mod_mult2_eq [of n "256 ^ k" 256] by (simp add: mult.commute)
    with Suc show ?case by (simp add: algebra_simps)
  qed simp
  from this [of 0] show ?thesis by simp
qed

lemma Uint64_PutUint64: "Uint64 (PutUint64 w) = w"
proof -
  have "unat w < 2 ^ 64" using unsigned_less [where 'a = nat, of w] by simp
  then have "unat w mod 256 ^ 8 = unat w" by (simp add: mod_less)
  then show ?thesis
    unfolding Uint64_def PutUint64_def by (simp add: big_endian_digits del: upt_rec_numeral)
qed

lemma length_PutUint64: "length (PutUint64 w) = 8"
  by (simp add: PutUint64_def)

lemma big_endian_number:
  "map (\<lambda>i. char_of (foldl (\<lambda>a c. a * 256 + of_char c) (0::nat) bs div 256 ^ i)) (rev [0..<length bs]) = bs"
proof (induction bs rule: rev_induct)
  case (snoc c bs)
  let ?v = "\<lambda>bs. foldl (\<lambda>a c. a * 256 + of_char c) (0::nat) bs"
  have upt: "rev [0..<Suc (length bs)] = map Suc (rev [0..<length bs]) @ [0]"
  proof -
    have "[0..<Suc (length bs)] = 0 # map Suc [0..<length bs]"
      by (simp add: map_Suc_upt upt_conv_Cons del: upt_Suc)
    then show ?thesis by (simp add: rev_map del: upt_Suc)
  qed
  have lt: "(of_char c :: nat) < 256" by (rule nat_of_char_less_256)
  have "?v (bs @ [c]) div 256 ^ Suc i = ?v bs div 256 ^ i" for i
  proof -
    have "?v (bs @ [c]) div 256 ^ Suc i = (?v bs * 256 + of_char c) div 256 div 256 ^ i"
      by (simp add: div_mult2_eq)
    also have "(?v bs * 256 + of_char c) div 256 = ?v bs" using lt by simp
    finally show ?thesis .
  qed
  moreover have "char_of (?v (bs @ [c])) = c" by (simp add: char_of_eq_iff take_bit_eq_mod)
  ultimately have "map (\<lambda>i. char_of (?v (bs @ [c]) div 256 ^ i)) (rev [0..<Suc (length bs)]) = bs @ [c]"
    unfolding upt map_append map_map comp_def using snoc by simp
  then show ?case by (simp only: length_append_singleton)
qed simp

lemma big_endian_bound: "foldl (\<lambda>a c. a * 256 + of_char c) (0::nat) bs < 256 ^ length bs"
proof (induction bs rule: rev_induct)
  case (snoc c bs)
  have step: "v * 256 + d < 256 * P" if "v < P" "d < 256" for v d P :: nat
    using that by linarith
  from step [OF snoc nat_of_char_less_256] show ?case by simp
qed simp

lemma PutUint64_Uint64:
  assumes "length bs = 8"
  shows "PutUint64 (Uint64 bs) = bs"
proof -
  let ?v = "foldl (\<lambda>a c. a * 256 + of_char c) (0::nat) bs"
  have "?v < 2 ^ 64" using big_endian_bound [of bs] assms by simp
  then have "unat (Uint64 bs) = ?v" by (simp add: Uint64_def unat_of_nat take_bit_nat_eq_self)
  then show ?thesis
    unfolding PutUint64_def using big_endian_number [of bs] by (simp only: assms)
qed

lemma hex_value_lower: "hex_value (hex_lower c) = hex_value c"
  by (auto simp: hex_value_def hex_lower_def Let_def)

lemma hex_decode_lower: "hex_DecodeString (map hex_lower s) = hex_DecodeString s"
  by (induction s rule: hex_DecodeString.induct) (simp_all add: hex_value_lower)

lemma hex_lower_dot: "hex_lower c = CHR ''.'' \<longleftrightarrow> c = CHR ''.''"
proof -
  have "char_of (n + 32 :: nat) \<noteq> CHR ''.''" if "65 \<le> n" "n \<le> 70" for n
  proof
    assume "char_of (n + 32) = CHR ''.''"
    then have "(of_char (char_of (n + 32) :: char) :: nat) = of_char (CHR ''.'')" by (rule arg_cong)
    with that show False by (simp only: of_char_of) simp
  qed
  then show ?thesis by (auto simp: hex_lower_def Let_def)
qed

lemma Cut_lower:
  "Cut (map hex_lower s) (CHR ''.'') =
     map_option (\<lambda>(a, b). (map hex_lower a, map hex_lower b)) (Cut s (CHR ''.''))"
proof -
  have "IndexByte (map hex_lower s) (CHR ''.'') = IndexByte s (CHR ''.'')"
    by (induction s) (simp_all add: hex_lower_dot)
  then show ?thesis by (simp add: Cut_def take_map drop_map option.map_comp comp_def)
qed

lemma Token_Valid_lower: "Token_Valid hmac ts now (map hex_lower tok) = Token_Valid hmac ts now tok"
  by (auto simp: Token_Valid_def Cut_lower hex_decode_lower split: option.split)

lemma Token_Valid_created:
  "Token_Valid hmac ts now (createWithExpiry hmac ts e) \<longleftrightarrow> Unix now \<le> sint e"
proof -
  have "Cut (createWithExpiry hmac ts e) (CHR ''.'') =
      Some (hex_EncodeToString (PutUint64 e), hex_EncodeToString (hmac (ts_secret ts) (PutUint64 e)))"
    by (simp add: createWithExpiry_def Let_def Cut_Some hex_Encode_no_dot)
  moreover have "createWithExpiry hmac ts e \<noteq> []" by (simp add: createWithExpiry_def Let_def)
  ultimately show ?thesis
    by (simp add: Token_Valid_def hex_roundtrip length_PutUint64 Uint64_PutUint64)
qed

lemma Token_Valid_accepts:
  assumes valid: "Token_Valid hmac ts now token"
  shows "\<exists>expiry. map hex_lower token = createWithExpiry hmac ts expiry \<and> Unix now \<le> sint expiry"
proof -
  from valid obtain e s where c1: "Cut token (CHR ''.'') = Some (e, s)"
    by (cases "Cut token (CHR ''.'')") (auto simp: Token_Valid_def split: if_splits)
  with valid obtain eb where c2: "hex_DecodeString e = Some eb"
    by (cases "hex_DecodeString e") (simp_all add: Token_Valid_def split: if_splits)
  with valid c1 obtain sig where c3: "hex_DecodeString s = Some sig"
    by (cases "hex_DecodeString s") (simp_all add: Token_Valid_def split: if_splits)
  with valid c1 c2 have "length eb = 8" "sig = hmac (ts_secret ts) eb" "Unix now \<le> sint (Uint64 eb)"
    by (simp_all add: Token_Valid_def split: if_splits)
  note c = c1 c2 this(1) c3 [unfolded this(2)] this(3)
  from c(1) have "token = e @ CHR ''.'' # s" by (simp add: Cut_Some)
  then have "map hex_lower token = createWithExpiry hmac ts (Uint64 eb)"
    using hex_decode_encode [OF c(2)] hex_decode_encode [OF c(4)]
    by (simp add: createWithExpiry_def Let_def PutUint64_Uint64 [OF c(3)] hex_lower_dot)
  with c(5) show ?thesis by blast
qed

text \<open>
  A token is accepted exactly when it is, up to the case of its hexadecimal letters, the token
  the signer itself creates for some expiry that has not passed: nothing else is accepted, and
  what the signer creates is accepted until its expiry.
\<close>

theorem Token_Valid_iff:
  "Token_Valid hmac ts now token \<longleftrightarrow>
     (\<exists>expiry. map hex_lower token = createWithExpiry hmac ts expiry \<and> Unix now \<le> sint expiry)"
proof
  assume "\<exists>expiry. map hex_lower token = createWithExpiry hmac ts expiry \<and> Unix now \<le> sint expiry"
  then obtain expiry where "map hex_lower token = createWithExpiry hmac ts expiry" "Unix now \<le> sint expiry"
    by blast
  then have "Token_Valid hmac ts now (map hex_lower token)" by (simp add: Token_Valid_created)
  then show "Token_Valid hmac ts now token" by (simp only: Token_Valid_lower)
qed (rule Token_Valid_accepts)

text \<open>
  A session lasts as long as the time to live says: a token created at one moment is accepted
  at another exactly when the second moment is not later than the first plus the time to live, in
  whole seconds.
\<close>

theorem Token_Create_lifetime:
  assumes "- (2 ^ 63) \<le> Unix (now + ts_ttl ts)" "Unix (now + ts_ttl ts) < 2 ^ 63"
  shows "Token_Valid hmac ts later (Token_Create hmac ts now) \<longleftrightarrow> Unix later \<le> Unix (now + ts_ttl ts)"
proof -
  have "sint (word_of_int (Unix (now + ts_ttl ts)) :: 64 word) = Unix (now + ts_ttl ts)"
    using assms by (simp add: signed_of_int signed_take_bit_int_eq_self)
  then show ?thesis by (simp add: Token_Create_def Token_Valid_created)
qed

theorem Token_Create_lifetime_witness:
  "Token_Valid (\<lambda>key msg. key) \<lparr>ts_secret = replicate 32 CHR ''k'', ts_ttl = 86400000000000\<rparr> 86400000000000
     (Token_Create (\<lambda>key msg. key) \<lparr>ts_secret = replicate 32 CHR ''k'', ts_ttl = 86400000000000\<rparr> 0) \<and>
   \<not> Token_Valid (\<lambda>key msg. key) \<lparr>ts_secret = replicate 32 CHR ''k'', ts_ttl = 86400000000000\<rparr> 86401000000000
     (Token_Create (\<lambda>key msg. key) \<lparr>ts_secret = replicate 32 CHR ''k'', ts_ttl = 86400000000000\<rparr> 0)"
  by (simp add: Token_Create_lifetime Unix_def)

end
