(* ===== verification/Control_Plane.thy ===== *)
theory Control_Plane
  imports Keyed_Store Model_Spec Auth_Token
begin

text \<open>
  The control plane, \<open>src/internal/controlplane\<close>: operator configuration in memory, its file on
  disk, authentication, providers, secrets and cluster membership.

  A map of the configuration is missing (\<open>None\<close>) where Go has a nil map: reading and deleting are
  harmless there, writing is a panic.  The file is part of the state; encoding and decoding of YAML
  are arguments, and \<open>wr\<close> is the outcome of a write: \<open>None\<close> when it succeeds, otherwise what the
  failed attempt left on disk.  Every method runs under the
  mutex; the two critical sections of \<open>Reload\<close> are separate operations.  The filesystem policy is
  a value of type \<open>'p\<close>; environment variables and the current time, as the formatted RFC 3339
  string the code stores, are arguments.
\<close>

section \<open>Configuration\<close>

record AuthConfig =
  au_PasswordHash :: string
  au_SessionSecret :: string

record ProviderConfig =
  pc_APIKey :: string
  pc_BaseURL :: string

record ApprovedNode =
  an_Name :: string
  an_ApprovedAt :: string

record RevokedNode =
  rn_Name :: string
  rn_RevokedAt :: string

record ClusterConfig =
  cl_Mode :: string
  cl_LeaderAddr :: string
  cl_NodeName :: string
  cl_TrackerURL :: string
  cl_SwarmCode :: string
  cl_ApprovedNodes :: "(string, ApprovedNode) gomap option"
  cl_RevokedNodes :: "(string, RevokedNode) gomap option"
  cl_AdvertiseAddresses :: "string list"

record 'p Config =
  cf_Auth :: AuthConfig
  cf_Providers :: "(string, ProviderConfig) gomap option"
  cf_DefaultModel :: string
  cf_Timezone :: string
  cf_Secrets :: "(string, string) gomap option"
  cf_Cluster :: ClusterConfig
  cf_Filesystem :: "'p option"

definition zero_Cluster :: ClusterConfig where
  "zero_Cluster = \<lparr>cl_Mode = [], cl_LeaderAddr = [], cl_NodeName = [], cl_TrackerURL = [],
     cl_SwarmCode = [], cl_ApprovedNodes = None, cl_RevokedNodes = None, cl_AdvertiseAddresses = []\<rparr>"

definition zero_Config :: "'p Config" where
  "zero_Config = \<lparr>cf_Auth = \<lparr>au_PasswordHash = [], au_SessionSecret = []\<rparr>, cf_Providers = None,
     cf_DefaultModel = [], cf_Timezone = [], cf_Secrets = None, cf_Cluster = zero_Cluster,
     cf_Filesystem = None\<rparr>"

definition initMaps :: "'p Config \<Rightarrow> 'p Config" where
  "initMaps cfg = cfg\<lparr>
     cf_Providers := (case cf_Providers cfg of None \<Rightarrow> Some [] | Some m \<Rightarrow> Some m),
     cf_Secrets := (case cf_Secrets cfg of None \<Rightarrow> Some [] | Some m \<Rightarrow> Some m)\<rparr>"

abbreviation map_items :: "('k, 'v) gomap option \<Rightarrow> ('k, 'v) gomap" where
  "map_items m \<equiv> (case m of None \<Rightarrow> [] | Some xs \<Rightarrow> xs)"

datatype 'd disk = DiskMissing | DiskUnreadable | DiskFile 'd

record ('p, 'd) ControlPlane =
  cp_cfg :: "'p Config"
  cp_signer :: "TokenSigner option"
  cp_disk :: "'d disk"
  cp_skipNextReload :: bool

type_synonym ('p, 'd) cfg_encoder = "'p Config \<Rightarrow> 'd option"
type_synonym ('p, 'd) cfg_decoder = "'d \<Rightarrow> 'p Config option"

datatype cp_error = ReadFailed | ParseFailed | MarshalFailed | WriteFailed | RemoveFailed
  | SecretUndecodable | RandomFailed | SecretTooShort
  | SecretNameEmpty | ProviderTypeRequired | APIKeyRequired | NilMapPanic

section \<open>Loading, saving, reloading\<close>

definition CP_Load :: "('p, 'd) cfg_decoder \<Rightarrow> 'd disk \<Rightarrow> cp_error + ('p, 'd) ControlPlane" where
  "CP_Load dec disk =
     (let cp = \<lparr>cp_cfg = zero_Config\<lparr>cf_Providers := Some [], cf_Secrets := Some []\<rparr>,
               cp_signer = None, cp_disk = disk, cp_skipNextReload = False\<rparr>
      in case disk of
           DiskMissing \<Rightarrow> Inr cp
         | DiskUnreadable \<Rightarrow> Inl ReadFailed
         | DiskFile data \<Rightarrow>
             (case dec data of
                None \<Rightarrow> Inl ParseFailed
              | Some cfg \<Rightarrow> Inr (cp\<lparr>cp_cfg := initMaps cfg\<rparr>)))"

definition hasContent :: "'p Config \<Rightarrow> bool" where
  "hasContent c \<longleftrightarrow>
     au_PasswordHash (cf_Auth c) \<noteq> [] \<or> au_SessionSecret (cf_Auth c) \<noteq> [] \<or>
     map_items (cf_Providers c) \<noteq> [] \<or> cf_DefaultModel c \<noteq> [] \<or> map_items (cf_Secrets c) \<noteq> [] \<or>
     cl_Mode (cf_Cluster c) \<noteq> [] \<or> cl_TrackerURL (cf_Cluster c) \<noteq> [] \<or>
     map_items (cl_ApprovedNodes (cf_Cluster c)) \<noteq> [] \<or>
     map_items (cl_RevokedNodes (cf_Cluster c)) \<noteq> [] \<or> cf_Filesystem c \<noteq> None"

definition saveUnlocked ::
  "('p, 'd) cfg_encoder \<Rightarrow> 'd disk option \<Rightarrow> ('p, 'd) ControlPlane \<Rightarrow> cp_error option \<times> ('p, 'd) ControlPlane" where
  "saveUnlocked enc wr cp =
     (if \<not> hasContent (cp_cfg cp) then (None, cp)
      else case enc (cp_cfg cp) of
             None \<Rightarrow> (Some MarshalFailed, cp)
           | Some data \<Rightarrow>
               (case wr of
                  Some left \<Rightarrow> (Some WriteFailed, cp\<lparr>cp_disk := left\<rparr>)
                | None \<Rightarrow> (None, cp\<lparr>cp_disk := DiskFile data, cp_skipNextReload := True\<rparr>)))"

definition CP_Save ::
  "('p, 'd) cfg_encoder \<Rightarrow> 'd disk option \<Rightarrow> ('p, 'd) ControlPlane \<Rightarrow> cp_error option \<times> ('p, 'd) ControlPlane" where
  "CP_Save enc wr cp = saveUnlocked enc wr cp"

definition CP_Reset :: "bool \<Rightarrow> ('p, 'd) ControlPlane \<Rightarrow> cp_error option \<times> ('p, 'd) ControlPlane" where
  "CP_Reset removable cp =
     (let cp1 = cp\<lparr>cp_cfg := initMaps zero_Config, cp_signer := None\<rparr>
      in if removable \<or> cp_disk cp = DiskMissing then (None, cp1\<lparr>cp_disk := DiskMissing\<rparr>)
         else (Some RemoveFailed, cp1))"

text \<open>The first critical section of \<open>Reload\<close>: the flag is consumed, and the reload ends, when
  the last write was the program's own.\<close>

definition reload_begin :: "('p, 'd) ControlPlane \<Rightarrow> bool \<times> ('p, 'd) ControlPlane" where
  "reload_begin cp =
     (if cp_skipNextReload cp then (False, cp\<lparr>cp_skipNextReload := False\<rparr>) else (True, cp))"

text \<open>Reading the file without the lock, and the second critical section.\<close>

definition reload_read :: "('p, 'd) cfg_decoder \<Rightarrow> 'd disk \<Rightarrow> cp_error + 'p Config option" where
  "reload_read dec disk =
     (case disk of
        DiskMissing \<Rightarrow> Inr None
      | DiskUnreadable \<Rightarrow> Inl ReadFailed
      | DiskFile data \<Rightarrow> Inr (map_option initMaps (dec data)))"

definition reload_finish :: "'p Config \<Rightarrow> ('p, 'd) ControlPlane \<Rightarrow> ('p, 'd) ControlPlane" where
  "reload_finish cfg cp =
     (let cp1 = (if au_PasswordHash (cf_Auth cfg) \<noteq> au_PasswordHash (cf_Auth (cp_cfg cp)) \<or>
                    au_SessionSecret (cf_Auth cfg) \<noteq> au_SessionSecret (cf_Auth (cp_cfg cp))
                 then cp\<lparr>cp_signer := None\<rparr> else cp)
      in cp1\<lparr>cp_cfg := cfg\<rparr>)"

definition CP_Reload ::
  "('p, 'd) cfg_decoder \<Rightarrow> ('p, 'd) ControlPlane \<Rightarrow> cp_error option \<times> ('p, 'd) ControlPlane" where
  "CP_Reload dec cp =
     (case reload_begin cp of
        (False, cp1) \<Rightarrow> (None, cp1)
      | (True, cp1) \<Rightarrow>
          (case reload_read dec (cp_disk cp1) of
             Inl e \<Rightarrow> (Some e, cp1)
           | Inr None \<Rightarrow> (None, cp1)
           | Inr (Some cfg) \<Rightarrow> (None, reload_finish cfg cp1)))"

definition FilesystemPolicy :: "'p \<Rightarrow> ('p, 'd) ControlPlane \<Rightarrow> 'p" where
  "FilesystemPolicy default_policy cp =
     (case cf_Filesystem (cp_cfg cp) of Some p \<Rightarrow> p | None \<Rightarrow> default_policy)"

section \<open>Authentication\<close>

abbreviation set_cfg :: "('p Config \<Rightarrow> 'p Config) \<Rightarrow> ('p, 'd) ControlPlane \<Rightarrow> ('p, 'd) ControlPlane" where
  "set_cfg f cp \<equiv> cp\<lparr>cp_cfg := f (cp_cfg cp)\<rparr>"

abbreviation set_auth :: "(AuthConfig \<Rightarrow> AuthConfig) \<Rightarrow> ('p, 'd) ControlPlane \<Rightarrow> ('p, 'd) ControlPlane" where
  "set_auth f \<equiv> set_cfg (\<lambda>c. c\<lparr>cf_Auth := f (cf_Auth c)\<rparr>)"

abbreviation set_cluster ::
  "(ClusterConfig \<Rightarrow> ClusterConfig) \<Rightarrow> ('p, 'd) ControlPlane \<Rightarrow> ('p, 'd) ControlPlane" where
  "set_cluster f \<equiv> set_cfg (\<lambda>c. c\<lparr>cf_Cluster := f (cf_Cluster c)\<rparr>)"

definition NeedsSetup :: "('p, 'd) ControlPlane \<Rightarrow> bool" where
  "NeedsSetup cp \<longleftrightarrow>
     au_PasswordHash (cf_Auth (cp_cfg cp)) = [] \<or> cl_Mode (cf_Cluster (cp_cfg cp)) = []"

definition PasswordHash :: "('p, 'd) ControlPlane \<Rightarrow> string" where
  "PasswordHash cp = au_PasswordHash (cf_Auth (cp_cfg cp))"

definition SetPasswordHash :: "string \<Rightarrow> ('p, 'd) ControlPlane \<Rightarrow> ('p, 'd) ControlPlane" where
  "SetPasswordHash hash cp =
     (set_auth (\<lambda>a. a\<lparr>au_PasswordHash := hash, au_SessionSecret := []\<rparr>) cp)\<lparr>cp_signer := None\<rparr>"

definition sessionTTL :: int where "sessionTTL = 86400000000000"

definition cache_signer ::
  "string \<Rightarrow> ('p, 'd) ControlPlane \<Rightarrow> (cp_error + TokenSigner) \<times> ('p, 'd) ControlPlane" where
  "cache_signer secret cp =
     (case NewTokenSigner secret sessionTTL of
        None \<Rightarrow> (Inl SecretTooShort, cp)
      | Some s \<Rightarrow> (Inr s, cp\<lparr>cp_signer := Some s\<rparr>))"

text \<open>\<open>rnd\<close> is the result of reading 32 random bytes.\<close>

definition CP_TokenSigner ::
  "('p, 'd) cfg_encoder \<Rightarrow> 'd disk option \<Rightarrow> string option \<Rightarrow> ('p, 'd) ControlPlane \<Rightarrow>
   (cp_error + TokenSigner) \<times> ('p, 'd) ControlPlane" where
  "CP_TokenSigner enc wr rnd cp =
     (case cp_signer cp of
        Some s \<Rightarrow> (Inr s, cp)
      | None \<Rightarrow>
          if au_SessionSecret (cf_Auth (cp_cfg cp)) \<noteq> []
          then (case hex_DecodeString (au_SessionSecret (cf_Auth (cp_cfg cp))) of
                  None \<Rightarrow> (Inl SecretUndecodable, cp)
                | Some secret \<Rightarrow> cache_signer secret cp)
          else (case rnd of
                  None \<Rightarrow> (Inl RandomFailed, cp)
                | Some secret \<Rightarrow>
                    (case saveUnlocked enc wr
                            (set_auth (\<lambda>a. a\<lparr>au_SessionSecret := hex_EncodeToString secret\<rparr>) cp) of
                       (Some e, cp2) \<Rightarrow> (Inl e, set_auth (\<lambda>a. a\<lparr>au_SessionSecret := []\<rparr>) cp2)
                     | (None, cp2) \<Rightarrow> cache_signer secret cp2)))"

section \<open>Providers\<close>

definition IsConfigured :: "('p, 'd) ControlPlane \<Rightarrow> bool" where
  "IsConfigured cp \<longleftrightarrow> (\<exists>(k, p) \<in> set (map_items (cf_Providers (cp_cfg cp))). pc_APIKey p \<noteq> [])"

definition DefaultModelSpec :: "('p, 'd) ControlPlane \<Rightarrow> ModelSpec" where
  "DefaultModelSpec cp = ParseModelSpec (cf_DefaultModel (cp_cfg cp))"

definition SetDefaultModelSpec :: "ModelSpec \<Rightarrow> ('p, 'd) ControlPlane \<Rightarrow> ('p, 'd) ControlPlane" where
  "SetDefaultModelSpec spec cp = set_cfg (\<lambda>c. c\<lparr>cf_DefaultModel := ModelSpec_String spec\<rparr>) cp"

definition GetProvider :: "string \<Rightarrow> ('p, 'd) ControlPlane \<Rightarrow> ProviderConfig option" where
  "GetProvider providerType cp = gomap_get (map_items (cf_Providers (cp_cfg cp))) providerType"

definition ProviderByType :: "string \<Rightarrow> ('p, 'd) ControlPlane \<Rightarrow> (string \<times> string) option" where
  "ProviderByType providerType cp =
     (case GetProvider providerType cp of
        None \<Rightarrow> None
      | Some p \<Rightarrow> if pc_APIKey p = [] then None else Some (pc_APIKey p, pc_BaseURL p))"

definition ConfiguredProviderTypes :: "('p, 'd) ControlPlane \<Rightarrow> string list" where
  "ConfiguredProviderTypes cp =
     sort (map fst (filter (\<lambda>(k, v). pc_APIKey v \<noteq> []) (map_items (cf_Providers (cp_cfg cp)))))"

definition first_configured :: "('p, 'd) ControlPlane \<Rightarrow> string list \<Rightarrow> (string \<times> string \<times> string) option" where
  "first_configured cp names =
     (case List.map_filter (\<lambda>name. map_option (\<lambda>(k, u). (name, k, u)) (ProviderByType name cp)) names of
        [] \<Rightarrow> None | r # _ \<Rightarrow> Some r)"

definition ProviderInfo :: "('p, 'd) ControlPlane \<Rightarrow> (string \<times> string \<times> string) option" where
  "ProviderInfo cp =
     (let spec = DefaultModelSpec cp;
          fallback = first_configured cp (sort (map fst (map_items (cf_Providers (cp_cfg cp)))))
      in if ms_Provider spec \<noteq> []
         then (case ProviderByType (ms_Provider spec) cp of
                 Some (k, u) \<Rightarrow> Some (ms_Provider spec, k, u)
               | None \<Rightarrow> fallback)
         else fallback)"

definition SetProvider ::
  "string \<Rightarrow> ProviderConfig \<Rightarrow> ('p, 'd) ControlPlane \<Rightarrow> cp_error + ('p, 'd) ControlPlane" where
  "SetProvider providerType cfg cp =
     (if providerType = [] then Inl ProviderTypeRequired
      else if pc_APIKey cfg = [] then Inl APIKeyRequired
      else case cf_Providers (cp_cfg cp) of
             None \<Rightarrow> Inl NilMapPanic
           | Some m \<Rightarrow> Inr (set_cfg (\<lambda>c. c\<lparr>cf_Providers := Some (gomap_put providerType cfg m)\<rparr>) cp))"

definition DeleteProvider :: "string \<Rightarrow> ('p, 'd) ControlPlane \<Rightarrow> ('p, 'd) ControlPlane" where
  "DeleteProvider providerType cp =
     (let cp1 = set_cfg (\<lambda>c. c\<lparr>cf_Providers := map_option (gomap_del providerType) (cf_Providers c)\<rparr>) cp
      in if ms_Provider (ParseModelSpec (cf_DefaultModel (cp_cfg cp1))) = providerType
         then set_cfg (\<lambda>c. c\<lparr>cf_DefaultModel := []\<rparr>) cp1 else cp1)"

definition maskKey :: "string \<Rightarrow> string" where
  "maskKey key =
     (if length key < 6 + 4 + 1 then replicate (length key) (CHR ''*'')
      else take 6 key @ ''...'' @ drop (length key - 4) key)"

definition ListProviders :: "('p, 'd) ControlPlane \<Rightarrow> (string, ProviderConfig) gomap" where
  "ListProviders cp =
     map (\<lambda>(k, v). (k, v\<lparr>pc_APIKey := maskKey (pc_APIKey v)\<rparr>)) (map_items (cf_Providers (cp_cfg cp)))"

section \<open>Secrets\<close>

definition SecretNames :: "('p, 'd) ControlPlane \<Rightarrow> string list" where
  "SecretNames cp = sort (map fst (map_items (cf_Secrets (cp_cfg cp))))"

definition SecretEnv :: "('p, 'd) ControlPlane \<Rightarrow> string list" where
  "SecretEnv cp = map (\<lambda>(name, v). name @ ''='' @ v) (map_items (cf_Secrets (cp_cfg cp)))"

definition SetSecret :: "string \<Rightarrow> string \<Rightarrow> ('p, 'd) ControlPlane \<Rightarrow> cp_error + ('p, 'd) ControlPlane" where
  "SetSecret name0 val cp =
     (let name = TrimSpace name0
      in if name = [] then Inl SecretNameEmpty
         else case cf_Secrets (cp_cfg cp) of
                None \<Rightarrow> Inl NilMapPanic
              | Some m \<Rightarrow> Inr (set_cfg (\<lambda>c. c\<lparr>cf_Secrets := Some (gomap_put name val m)\<rparr>) cp))"

definition DeleteSecret :: "string \<Rightarrow> ('p, 'd) ControlPlane \<Rightarrow> ('p, 'd) ControlPlane" where
  "DeleteSecret name cp =
     set_cfg (\<lambda>c. c\<lparr>cf_Secrets := map_option (gomap_del name) (cf_Secrets c)\<rparr>) cp"

definition ResolveSecret :: "string \<Rightarrow> ('p, 'd) ControlPlane \<Rightarrow> string" where
  "ResolveSecret val cp =
     (if \<not> prefix ''${'' val \<or> \<not> suffix ''}'' val then val
      else gomap_get_str (map_items (cf_Secrets (cp_cfg cp))) (take (length val - 3) (drop 2 val)))"

section \<open>Cluster membership\<close>

definition ClusterMode :: "string \<Rightarrow> ('p, 'd) ControlPlane \<Rightarrow> string" where
  "ClusterMode envMode cp = (if envMode \<noteq> [] then envMode else cl_Mode (cf_Cluster (cp_cfg cp)))"

definition ClusterSwarmCode :: "string \<Rightarrow> ('p, 'd) ControlPlane \<Rightarrow> string" where
  "ClusterSwarmCode envCode cp = (if envCode \<noteq> [] then envCode else cl_SwarmCode (cf_Cluster (cp_cfg cp)))"

definition ClusterTrackerURL :: "string \<Rightarrow> ('p, 'd) ControlPlane \<Rightarrow> string" where
  "ClusterTrackerURL envURL cp = (if envURL \<noteq> [] then envURL else cl_TrackerURL (cf_Cluster (cp_cfg cp)))"

definition ClusterNodeName :: "('p, 'd) ControlPlane \<Rightarrow> string" where
  "ClusterNodeName cp = cl_NodeName (cf_Cluster (cp_cfg cp))"

datatype NodeApprovalStatus = NodeStatusPending | NodeStatusApproved | NodeStatusRevoked

definition IsNodeApproved :: "string \<Rightarrow> ('p, 'd) ControlPlane \<Rightarrow> bool" where
  "IsNodeApproved nodeID cp \<longleftrightarrow>
     gomap_get (map_items (cl_ApprovedNodes (cf_Cluster (cp_cfg cp)))) nodeID \<noteq> None"

definition IsNodeRevoked :: "string \<Rightarrow> ('p, 'd) ControlPlane \<Rightarrow> bool" where
  "IsNodeRevoked nodeID cp \<longleftrightarrow>
     gomap_get (map_items (cl_RevokedNodes (cf_Cluster (cp_cfg cp)))) nodeID \<noteq> None"

definition NodeApprovalCheck :: "string \<Rightarrow> ('p, 'd) ControlPlane \<Rightarrow> NodeApprovalStatus" where
  "NodeApprovalCheck nodeID cp =
     (if IsNodeRevoked nodeID cp then NodeStatusRevoked
      else if IsNodeApproved nodeID cp then NodeStatusApproved else NodeStatusPending)"

definition ApproveNode :: "string \<Rightarrow> string \<Rightarrow> string \<Rightarrow> ('p, 'd) ControlPlane \<Rightarrow> ('p, 'd) ControlPlane" where
  "ApproveNode now nodeID name cp =
     set_cluster (\<lambda>k. k\<lparr>cl_ApprovedNodes := Some (gomap_put nodeID
       \<lparr>an_Name = name, an_ApprovedAt = now\<rparr> (map_items (cl_ApprovedNodes k)))\<rparr>) cp"

definition RevokeNode :: "string \<Rightarrow> string \<Rightarrow> ('p, 'd) ControlPlane \<Rightarrow> ('p, 'd) ControlPlane" where
  "RevokeNode now nodeID cp =
     (let k = cf_Cluster (cp_cfg cp);
          name = (case gomap_get (map_items (cl_ApprovedNodes k)) nodeID of None \<Rightarrow> [] | Some n \<Rightarrow> an_Name n)
      in set_cluster (\<lambda>k. k\<lparr>
           cl_ApprovedNodes := map_option (gomap_del nodeID) (cl_ApprovedNodes k),
           cl_RevokedNodes := Some (gomap_put nodeID \<lparr>rn_Name = name, rn_RevokedAt = now\<rparr>
             (map_items (cl_RevokedNodes k)))\<rparr>) cp)"

definition ClearRevokedNode :: "string \<Rightarrow> ('p, 'd) ControlPlane \<Rightarrow> ('p, 'd) ControlPlane" where
  "ClearRevokedNode nodeID cp =
     set_cluster (\<lambda>k. k\<lparr>cl_RevokedNodes := map_option (gomap_del nodeID) (cl_RevokedNodes k)\<rparr>) cp"

definition ApprovedNodes :: "('p, 'd) ControlPlane \<Rightarrow> (string, ApprovedNode) gomap option" where
  "ApprovedNodes cp = cl_ApprovedNodes (cf_Cluster (cp_cfg cp))"

definition ClearAllClusterNodes :: "('p, 'd) ControlPlane \<Rightarrow> ('p, 'd) ControlPlane" where
  "ClearAllClusterNodes cp = set_cluster (\<lambda>k. k\<lparr>cl_ApprovedNodes := None, cl_RevokedNodes := None\<rparr>) cp"

definition SetClusterMode :: "string \<Rightarrow> ('p, 'd) ControlPlane \<Rightarrow> ('p, 'd) ControlPlane" where
  "SetClusterMode mode cp = set_cluster (\<lambda>k. k\<lparr>cl_Mode := mode\<rparr>) cp"

definition SetClusterTrackerURL :: "string \<Rightarrow> ('p, 'd) ControlPlane \<Rightarrow> ('p, 'd) ControlPlane" where
  "SetClusterTrackerURL url cp = set_cluster (\<lambda>k. k\<lparr>cl_TrackerURL := url\<rparr>) cp"

definition SetClusterSwarmCode :: "string \<Rightarrow> ('p, 'd) ControlPlane \<Rightarrow> ('p, 'd) ControlPlane" where
  "SetClusterSwarmCode code cp = set_cluster (\<lambda>k. k\<lparr>cl_SwarmCode := code\<rparr>) cp"

definition SetClusterLeaderAddr :: "string \<Rightarrow> ('p, 'd) ControlPlane \<Rightarrow> ('p, 'd) ControlPlane" where
  "SetClusterLeaderAddr addr cp = set_cluster (\<lambda>k. k\<lparr>cl_LeaderAddr := addr\<rparr>) cp"

definition SetClusterNodeName :: "string \<Rightarrow> ('p, 'd) ControlPlane \<Rightarrow> ('p, 'd) ControlPlane" where
  "SetClusterNodeName name cp = set_cluster (\<lambda>k. k\<lparr>cl_NodeName := name\<rparr>) cp"

definition SetClusterAdvertiseAddresses :: "string list \<Rightarrow> ('p, 'd) ControlPlane \<Rightarrow> ('p, 'd) ControlPlane" where
  "SetClusterAdvertiseAddresses addrs cp = set_cluster (\<lambda>k. k\<lparr>cl_AdvertiseAddresses := addrs\<rparr>) cp"

section \<open>Operations as data\<close>

text \<open>A call of a method that changes the control plane.  \<open>OpReloadFinish\<close> is the second half
  of a reload whose read happened at some earlier moment, with whatever the file held then, and
  \<open>OpExternalEdit\<close> is a change of the file by someone else.\<close>

datatype ('p, 'd) cp_op =
    OpSave "'d disk option"
  | OpReset bool
  | OpReload
  | OpReloadFinish 'd
  | OpExternalEdit "'d disk"
  | OpSetPasswordHash string
  | OpTokenSigner "'d disk option" "string option"
  | OpSetDefaultModel ModelSpec
  | OpSetProvider string ProviderConfig
  | OpDeleteProvider string
  | OpSetSecret string string
  | OpDeleteSecret string
  | OpApproveNode string string string
  | OpRevokeNode string string
  | OpClearRevoked string
  | OpClearAllNodes
  | OpSetClusterMode string
  | OpSetTrackerURL string
  | OpSetSwarmCode string
  | OpSetLeaderAddr string
  | OpSetNodeName string
  | OpSetAdvertise "string list"

definition settle :: "('p, 'd) ControlPlane \<Rightarrow> cp_error + ('p, 'd) ControlPlane \<Rightarrow>
   cp_error option \<times> ('p, 'd) ControlPlane" where
  "settle cp r = (case r of Inl e \<Rightarrow> (Some e, cp) | Inr cp' \<Rightarrow> (None, cp'))"

fun cp_step :: "('p, 'd) cfg_encoder \<Rightarrow> ('p, 'd) cfg_decoder \<Rightarrow> ('p, 'd) cp_op \<Rightarrow> ('p, 'd) ControlPlane \<Rightarrow>
   cp_error option \<times> ('p, 'd) ControlPlane" where
  "cp_step enc dec (OpSave w) cp = CP_Save enc w cp"
| "cp_step enc dec (OpReset r) cp = CP_Reset r cp"
| "cp_step enc dec OpReload cp = CP_Reload dec cp"
| "cp_step enc dec (OpReloadFinish data) cp =
     (None, case dec data of None \<Rightarrow> cp | Some cfg \<Rightarrow> reload_finish (initMaps cfg) cp)"
| "cp_step enc dec (OpExternalEdit d) cp = (None, cp\<lparr>cp_disk := d\<rparr>)"
| "cp_step enc dec (OpSetPasswordHash h) cp = (None, SetPasswordHash h cp)"
| "cp_step enc dec (OpTokenSigner w rnd) cp =
     (case CP_TokenSigner enc w rnd cp of (Inl e, cp') \<Rightarrow> (Some e, cp') | (Inr _, cp') \<Rightarrow> (None, cp'))"
| "cp_step enc dec (OpSetDefaultModel ms) cp = (None, SetDefaultModelSpec ms cp)"
| "cp_step enc dec (OpSetProvider t cfg) cp = settle cp (SetProvider t cfg cp)"
| "cp_step enc dec (OpDeleteProvider t) cp = (None, DeleteProvider t cp)"
| "cp_step enc dec (OpSetSecret n v) cp = settle cp (SetSecret n v cp)"
| "cp_step enc dec (OpDeleteSecret n) cp = (None, DeleteSecret n cp)"
| "cp_step enc dec (OpApproveNode now n name) cp = (None, ApproveNode now n name cp)"
| "cp_step enc dec (OpRevokeNode now n) cp = (None, RevokeNode now n cp)"
| "cp_step enc dec (OpClearRevoked n) cp = (None, ClearRevokedNode n cp)"
| "cp_step enc dec OpClearAllNodes cp = (None, ClearAllClusterNodes cp)"
| "cp_step enc dec (OpSetClusterMode m) cp = (None, SetClusterMode m cp)"
| "cp_step enc dec (OpSetTrackerURL u) cp = (None, SetClusterTrackerURL u cp)"
| "cp_step enc dec (OpSetSwarmCode c) cp = (None, SetClusterSwarmCode c cp)"
| "cp_step enc dec (OpSetLeaderAddr a) cp = (None, SetClusterLeaderAddr a cp)"
| "cp_step enc dec (OpSetNodeName n) cp = (None, SetClusterNodeName n cp)"
| "cp_step enc dec (OpSetAdvertise as) cp = (None, SetClusterAdvertiseAddresses as cp)"

definition cp_run :: "('p, 'd) cfg_encoder \<Rightarrow> ('p, 'd) cfg_decoder \<Rightarrow> ('p, 'd) cp_op list \<Rightarrow>
   ('p, 'd) ControlPlane \<Rightarrow> ('p, 'd) ControlPlane" where
  "cp_run enc dec ops cp = fold (\<lambda>op cp. snd (cp_step enc dec op cp)) ops cp"

section \<open>Invariant\<close>

definition maps_ok :: "'p Config \<Rightarrow> bool" where
  "maps_ok c \<longleftrightarrow> cf_Providers c \<noteq> None \<and> cf_Secrets c \<noteq> None"

definition signer_ok :: "('p, 'd) ControlPlane \<Rightarrow> bool" where
  "signer_ok cp \<longleftrightarrow> (\<forall>s. cp_signer cp = Some s \<longrightarrow>
     au_SessionSecret (cf_Auth (cp_cfg cp)) \<noteq> [] \<and>
     hex_DecodeString (au_SessionSecret (cf_Auth (cp_cfg cp))) = Some (ts_secret s))"

definition cp_ok :: "('p, 'd) ControlPlane \<Rightarrow> bool" where
  "cp_ok cp \<longleftrightarrow> maps_ok (cp_cfg cp) \<and> signer_ok cp"

lemma maps_ok_initMaps [simp]: "maps_ok (initMaps c)"
  by (simp add: maps_ok_def initMaps_def split: option.split)

lemma initMaps_auth [simp]: "cf_Auth (initMaps c) = cf_Auth c"
  by (simp add: initMaps_def)

lemma cp_ok_Load: "CP_Load dec disk = Inr cp \<Longrightarrow> cp_ok cp"
  by (auto simp: CP_Load_def Let_def cp_ok_def signer_ok_def maps_ok_def split: disk.splits option.splits)
    (simp_all add: initMaps_def split: option.splits)

lemma saveUnlocked_frame:
  "cp_cfg (snd (saveUnlocked enc w cp)) = cp_cfg cp" "cp_signer (snd (saveUnlocked enc w cp)) = cp_signer cp"
  by (simp_all add: saveUnlocked_def split: option.split)

lemma cp_ok_reload_finish: "cp_ok cp \<Longrightarrow> maps_ok cfg \<Longrightarrow> cp_ok (reload_finish cfg cp)"
  by (auto simp: cp_ok_def reload_finish_def Let_def signer_ok_def)

lemma hex_Encode_empty: "hex_EncodeToString bs = [] \<longleftrightarrow> bs = []"
  by (cases bs) simp_all

lemma cp_ok_cache_signer:
  assumes "maps_ok (cp_cfg cp)" "cp_signer cp = None"
    and "hex_DecodeString (au_SessionSecret (cf_Auth (cp_cfg cp))) = Some secret"
  shows "cp_ok (snd (cache_signer secret cp))"
proof (cases "NewTokenSigner secret sessionTTL")
  case None
  with assms show ?thesis by (simp add: cache_signer_def cp_ok_def signer_ok_def)
next
  case (Some s)
  then have "ts_secret s = secret" "secret \<noteq> []"
    by (auto simp: NewTokenSigner_def split: if_splits)
  with Some assms show ?thesis by (auto simp: cache_signer_def cp_ok_def signer_ok_def)
qed

lemma cp_ok_TokenSigner:
  assumes "cp_ok cp"
  shows "cp_ok (snd (CP_TokenSigner enc w rnd cp))"
proof (cases "cp_signer cp = None \<and> au_SessionSecret (cf_Auth (cp_cfg cp)) = []")
  case False
  show ?thesis
  proof (cases "cp_signer cp")
    case None
    with False have ne: "au_SessionSecret (cf_Auth (cp_cfg cp)) \<noteq> []" by simp
    show ?thesis
    proof (cases "hex_DecodeString (au_SessionSecret (cf_Auth (cp_cfg cp)))")
      case (Some secret)
      with None ne cp_ok_cache_signer [of cp secret] assms show ?thesis
        by (simp add: CP_TokenSigner_def cp_ok_def)
    qed (use None ne assms in \<open>simp add: CP_TokenSigner_def\<close>)
  qed (use assms in \<open>simp add: CP_TokenSigner_def\<close>)
next
  case True
  show ?thesis
  proof (cases rnd)
    case None
    with True assms show ?thesis by (simp add: CP_TokenSigner_def)
  next
    case (Some secret)
    let ?cp1 = "set_auth (\<lambda>a. a\<lparr>au_SessionSecret := hex_EncodeToString secret\<rparr>) cp"
    obtain e cp2 where sv: "saveUnlocked enc w ?cp1 = (e, cp2)" by fastforce
    then have cp2: "cp_cfg cp2 = cp_cfg ?cp1" "cp_signer cp2 = None"
      using saveUnlocked_frame [of enc w ?cp1] True by simp_all
    have maps: "maps_ok (cp_cfg cp2)" using assms by (simp add: cp_ok_def maps_ok_def cp2)
    have "cp_ok (snd (cache_signer secret cp2))"
      by (rule cp_ok_cache_signer [OF maps cp2(2)]) (simp add: cp2 hex_roundtrip)
    moreover have "cp_ok (set_auth (\<lambda>a. a\<lparr>au_SessionSecret := []\<rparr>) cp2)"
      using maps by (simp add: cp_ok_def maps_ok_def signer_ok_def cp2(2))
    ultimately show ?thesis
      using True Some sv by (cases e) (simp_all add: CP_TokenSigner_def)
  qed
qed

lemma cp_ok_Reload: "cp_ok cp \<Longrightarrow> cp_ok (snd (CP_Reload dec cp))"
proof -
  assume ok: "cp_ok cp"
  then have "cp_ok (cp\<lparr>cp_skipNextReload := False\<rparr>)" by (simp add: cp_ok_def signer_ok_def)
  moreover have "cp_ok (reload_finish (initMaps cfg) cp)" for cfg
    using cp_ok_reload_finish [OF ok] by simp
  ultimately show ?thesis
    using ok by (simp add: CP_Reload_def reload_begin_def reload_read_def split: disk.split option.split)
qed

lemma cp_step_ok:
  assumes "cp_ok cp"
  shows "cp_ok (snd (cp_step enc dec op cp))"
proof (cases op)
  case (OpSave w)
  with assms saveUnlocked_frame [of enc w cp] show ?thesis
    by (simp add: CP_Save_def cp_ok_def signer_ok_def)
next
  case (OpReset r)
  then show ?thesis by (simp add: CP_Reset_def Let_def cp_ok_def signer_ok_def)
next
  case OpReload
  with assms show ?thesis by (simp add: cp_ok_Reload)
next
  case (OpReloadFinish data)
  with assms show ?thesis by (simp add: cp_ok_reload_finish split: option.split)
next
  case (OpTokenSigner w rnd)
  moreover have "snd (case x of (Inl e, cp') \<Rightarrow> (Some e, cp') | (Inr _, cp') \<Rightarrow> (None, cp')) = snd x"
    for x :: "(cp_error + TokenSigner) \<times> ('a, 'b) ControlPlane"
    by (cases x) (simp split: sum.split)
  ultimately show ?thesis using cp_ok_TokenSigner [OF assms] by simp
qed (use assms in \<open>auto simp: cp_ok_def maps_ok_def signer_ok_def SetPasswordHash_def SetDefaultModelSpec_def
    SetProvider_def DeleteProvider_def SetSecret_def DeleteSecret_def ApproveNode_def RevokeNode_def
    ClearRevokedNode_def ClearAllClusterNodes_def SetClusterMode_def SetClusterTrackerURL_def
    SetClusterSwarmCode_def SetClusterLeaderAddr_def SetClusterNodeName_def
    SetClusterAdvertiseAddresses_def settle_def Let_def\<close>)

lemma cp_run_ok: "cp_ok cp \<Longrightarrow> cp_ok (cp_run enc dec ops cp)"
  unfolding cp_run_def by (induction ops arbitrary: cp) (simp_all add: cp_step_ok)


section \<open>What the operations keep\<close>

lemma fst_TokenSigner_no_panic: "fst (CP_TokenSigner enc wr rnd cp) \<noteq> Inl NilMapPanic"
  by (simp add: CP_TokenSigner_def cache_signer_def saveUnlocked_def split: option.split)

lemma cp_step_no_panic: "cp_ok cp \<Longrightarrow> fst (cp_step enc dec op cp) \<noteq> Some NilMapPanic"
proof (cases op)
  case (OpTokenSigner wr rnd)
  then show ?thesis
    using fst_TokenSigner_no_panic [of enc wr rnd cp]
    by (cases "CP_TokenSigner enc wr rnd cp") (auto split: sum.split)
qed (auto simp: cp_ok_def maps_ok_def CP_Save_def saveUnlocked_def CP_Reset_def CP_Reload_def reload_begin_def
    reload_read_def SetProvider_def SetSecret_def settle_def Let_def split: option.split disk.split)

lemma TokenSigner_cluster:
  "cf_Cluster (cp_cfg (snd (CP_TokenSigner enc wr rnd cp))) = cf_Cluster (cp_cfg cp)"
  by (simp add: CP_TokenSigner_def cache_signer_def saveUnlocked_def split: option.split)

lemma TokenSigner_skip:
  "cp_skipNextReload cp \<Longrightarrow> cp_skipNextReload (snd (CP_TokenSigner enc wr rnd cp))"
  by (simp add: CP_TokenSigner_def cache_signer_def saveUnlocked_def split: option.split)

lemma TokenSigner_cached: "cp_signer cp = Some s \<Longrightarrow> CP_TokenSigner enc wr rnd cp = (Inr s, cp)"
  by (simp add: CP_TokenSigner_def)

lemma snd_step_TokenSigner:
  "snd (cp_step enc dec (OpTokenSigner wr rnd) cp) = snd (CP_TokenSigner enc wr rnd cp)"
  by (cases "CP_TokenSigner enc wr rnd cp") (simp split: sum.split)

lemmas cp_setters = SetPasswordHash_def SetDefaultModelSpec_def SetProvider_def DeleteProvider_def
  SetSecret_def DeleteSecret_def ApproveNode_def RevokeNode_def ClearRevokedNode_def
  ClearAllClusterNodes_def SetClusterMode_def SetClusterTrackerURL_def SetClusterSwarmCode_def
  SetClusterLeaderAddr_def SetClusterNodeName_def SetClusterAdvertiseAddresses_def settle_def Let_def

text \<open>The calls that may lift a revocation: the explicit ones, and those that replace the
  configuration as a whole.\<close>

fun lifts_revocation :: "string \<Rightarrow> ('p, 'd) cp_op \<Rightarrow> bool" where
  "lifts_revocation nid (OpClearRevoked n) \<longleftrightarrow> n = nid"
| "lifts_revocation nid OpClearAllNodes \<longleftrightarrow> True"
| "lifts_revocation nid (OpReset _) \<longleftrightarrow> True"
| "lifts_revocation nid OpReload \<longleftrightarrow> True"
| "lifts_revocation nid (OpReloadFinish _) \<longleftrightarrow> True"
| "lifts_revocation nid _ \<longleftrightarrow> False"

lemma revoked_step:
  assumes "IsNodeRevoked nid cp" "\<not> lifts_revocation nid op"
  shows "IsNodeRevoked nid (snd (cp_step enc dec op cp))"
proof (cases op)
  case (OpTokenSigner wr rnd)
  with assms(1) show ?thesis
    by (simp add: IsNodeRevoked_def TokenSigner_cluster snd_step_TokenSigner del: cp_step.simps)
next
  case (OpSave wr)
  with assms(1) show ?thesis
    by (simp add: CP_Save_def saveUnlocked_frame IsNodeRevoked_def)
qed (use assms in \<open>auto simp: IsNodeRevoked_def cp_setters split: option.splits\<close>)

lemma revoked_run:
  "IsNodeRevoked nid cp \<Longrightarrow> \<forall>op\<in>set ops. \<not> lifts_revocation nid op \<Longrightarrow>
   IsNodeRevoked nid (cp_run enc dec ops cp)"
  unfolding cp_run_def by (induction ops arbitrary: cp) (simp_all add: revoked_step)

lemma skip_step:
  assumes "cp_skipNextReload cp" "op \<noteq> OpReload"
  shows "cp_skipNextReload (snd (cp_step enc dec op cp))"
proof (cases op)
  case (OpTokenSigner wr rnd)
  with assms(1) show ?thesis by (simp only: snd_step_TokenSigner TokenSigner_skip)
qed (use assms in \<open>auto simp: CP_Save_def saveUnlocked_def CP_Reset_def reload_finish_def cp_setters
       split: option.splits\<close>)

lemma skip_run:
  "cp_skipNextReload cp \<Longrightarrow> OpReload \<notin> set ops \<Longrightarrow> cp_skipNextReload (cp_run enc dec ops cp)"
  unfolding cp_run_def by (induction ops arbitrary: cp) (auto simp: skip_step)

text \<open>The calls that may drop the cached signer.\<close>

fun drops_signer :: "('p, 'd) cp_op \<Rightarrow> bool" where
  "drops_signer (OpSetPasswordHash _) \<longleftrightarrow> True"
| "drops_signer (OpReset _) \<longleftrightarrow> True"
| "drops_signer OpReload \<longleftrightarrow> True"
| "drops_signer (OpReloadFinish _) \<longleftrightarrow> True"
| "drops_signer _ \<longleftrightarrow> False"

lemma signer_step:
  assumes "cp_signer cp = Some s" "\<not> drops_signer op"
  shows "cp_signer (snd (cp_step enc dec op cp)) = Some s"
proof (cases op)
  case (OpTokenSigner wr rnd)
  with assms(1) show ?thesis by (simp add: TokenSigner_cached)
next
  case (OpSave wr)
  with assms(1) show ?thesis by (simp add: CP_Save_def saveUnlocked_frame)
qed (use assms in \<open>auto simp: cp_setters split: option.splits\<close>)

lemma signer_run:
  "cp_signer cp = Some s \<Longrightarrow> \<forall>op\<in>set ops. \<not> drops_signer op \<Longrightarrow>
   cp_signer (cp_run enc dec ops cp) = Some s"
  unfolding cp_run_def by (induction ops arbitrary: cp) (simp_all add: signer_step)

section \<open>The configuration on disk\<close>

text \<open>Two configurations are the same for a reader: equal fields, and maps with the same entries,
  whatever their order and whether an empty map is nil.\<close>

definition same_map :: "('k, 'v) gomap option \<Rightarrow> ('k, 'v) gomap option \<Rightarrow> bool" where
  "same_map m m' \<longleftrightarrow> gomap_get (map_items m) = gomap_get (map_items m')"

definition same_config :: "'p Config \<Rightarrow> 'p Config \<Rightarrow> bool" where
  "same_config c d \<longleftrightarrow> cf_Auth c = cf_Auth d \<and> cf_DefaultModel c = cf_DefaultModel d \<and>
     cf_Timezone c = cf_Timezone d \<and> cf_Filesystem c = cf_Filesystem d \<and>
     same_map (cf_Providers c) (cf_Providers d) \<and> same_map (cf_Secrets c) (cf_Secrets d) \<and>
     same_map (cl_ApprovedNodes (cf_Cluster c)) (cl_ApprovedNodes (cf_Cluster d)) \<and>
     same_map (cl_RevokedNodes (cf_Cluster c)) (cl_RevokedNodes (cf_Cluster d)) \<and>
     (cf_Cluster c)\<lparr>cl_ApprovedNodes := None, cl_RevokedNodes := None\<rparr> =
     (cf_Cluster d)\<lparr>cl_ApprovedNodes := None, cl_RevokedNodes := None\<rparr>"

lemma same_config_initMaps: "same_config (initMaps c) d \<longleftrightarrow> same_config c d"
  by (simp add: same_config_def initMaps_def same_map_def split: option.split)

lemma same_config_reads:
  assumes "same_config (cp_cfg cp) (cp_cfg cp')"
  shows "NodeApprovalCheck nid cp = NodeApprovalCheck nid cp'" "GetProvider t cp = GetProvider t cp'"
    "ResolveSecret v cp = ResolveSecret v cp'" "PasswordHash cp = PasswordHash cp'"
  using assms unfolding same_config_def same_map_def
  by (simp_all add: NodeApprovalCheck_def IsNodeRevoked_def IsNodeApproved_def GetProvider_def
      ResolveSecret_def gomap_get_str_def PasswordHash_def)

text \<open>
  A saved configuration survives a restart: where the file format gives back what was
  encoded, loading the file written by \<open>Save\<close> yields a control plane that answers every
  question about secrets, providers, the password and node approval as the saved one did.
\<close>

theorem Save_Load_roundtrip:
  assumes "hasContent (cp_cfg cp)" "enc (cp_cfg cp) = Some data"
    and "dec data = Some c" "same_config c (cp_cfg cp)"
  shows "\<exists>cp1 cp2. CP_Save enc None cp = (None, cp1) \<and> CP_Load dec (cp_disk cp1) = Inr cp2 \<and>
     same_config (cp_cfg cp2) (cp_cfg cp) \<and> PasswordHash cp2 = PasswordHash cp \<and>
     (\<forall>nid. NodeApprovalCheck nid cp2 = NodeApprovalCheck nid cp) \<and>
     (\<forall>t. GetProvider t cp2 = GetProvider t cp) \<and> (\<forall>v. ResolveSecret v cp2 = ResolveSecret v cp)"
proof -
  obtain cp1 where s: "CP_Save enc None cp = (None, cp1)" "cp_disk cp1 = DiskFile data"
    using assms by (simp add: CP_Save_def saveUnlocked_def)
  then obtain cp2 where l: "CP_Load dec (cp_disk cp1) = Inr cp2" "cp_cfg cp2 = initMaps c"
    using assms by (simp add: CP_Load_def)
  then have "same_config (cp_cfg cp2) (cp_cfg cp)" using assms by (simp add: same_config_initMaps)
  with s l same_config_reads [of cp2 cp] show ?thesis by blast
qed

definition example_cp :: "(unit, unit Config) ControlPlane" where
  "example_cp = \<lparr>cp_cfg = zero_Config\<lparr>cf_Secrets := Some [(''TOKEN'', ''x'')], cf_Providers := Some []\<rparr>,
     cp_signer = None, cp_disk = DiskMissing, cp_skipNextReload = False\<rparr>"

definition first_run_cp :: "(unit, unit Config) ControlPlane" where
  "first_run_cp = \<lparr>cp_cfg = zero_Config\<lparr>cf_Providers := Some [], cf_Secrets := Some []\<rparr>,
     cp_signer = None, cp_disk = DiskMissing, cp_skipNextReload = False\<rparr>"

theorem Save_Load_roundtrip_witness:
  "\<exists>cp1 cp2. CP_Save Some None example_cp = (None, cp1) \<and> CP_Load Some (cp_disk cp1) = Inr cp2 \<and>
     same_config (cp_cfg cp2) (cp_cfg example_cp) \<and> PasswordHash cp2 = PasswordHash example_cp \<and>
     (\<forall>nid. NodeApprovalCheck nid cp2 = NodeApprovalCheck nid example_cp) \<and>
     (\<forall>t. GetProvider t cp2 = GetProvider t example_cp) \<and>
     (\<forall>v. ResolveSecret v cp2 = ResolveSecret v example_cp)"
  by (rule Save_Load_roundtrip [where data = "cp_cfg example_cp" and c = "cp_cfg example_cp"])
    (simp_all add: example_cp_def hasContent_def same_config_def same_map_def)

text \<open>
  The reload that the program's own write triggers changes nothing: after a successful save,
  whatever is changed in memory before the notification arrives (other saves and edits of the
  file included), the next \<open>Reload\<close> keeps the configuration and the signer as they are.
\<close>

theorem own_save_keeps_later_changes:
  assumes "hasContent (cp_cfg cp)" "CP_Save enc wr cp = (None, cp1)" "OpReload \<notin> set ops"
  shows "CP_Reload dec (cp_run enc dec ops cp1) = (None, (cp_run enc dec ops cp1)\<lparr>cp_skipNextReload := False\<rparr>)"
proof -
  have "cp_skipNextReload cp1"
    using assms(1,2) by (auto simp: CP_Save_def saveUnlocked_def split: option.splits)
  from skip_run [OF this assms(3)] show ?thesis by (simp add: CP_Reload_def reload_begin_def)
qed

theorem own_save_keeps_later_changes_witness:
  "CP_Reload Some (cp_run Some Some [OpDeleteSecret ''TOKEN''] (snd (CP_Save Some None example_cp))) =
   (None, (cp_run Some Some [OpDeleteSecret ''TOKEN''] (snd (CP_Save Some None example_cp)))
      \<lparr>cp_skipNextReload := False\<rparr>)"
  by (rule own_save_keeps_later_changes [where wr = None and cp = example_cp])
    (simp_all add: example_cp_def hasContent_def CP_Save_def saveUnlocked_def)

section \<open>Safety of the running control plane\<close>

text \<open>
  C17. From a control plane as loaded, after any sequence of operations: no operation writes to a
  nil map, and a cached token signer always signs with the session secret that is configured.
\<close>

theorem control_plane_safe:
  assumes "CP_Load dec disk = Inr cp"
  shows "fst (cp_step enc dec op (cp_run enc dec ops cp)) \<noteq> Some NilMapPanic \<and>
    (case cp_signer (cp_run enc dec ops cp) of None \<Rightarrow> True
     | Some s \<Rightarrow> hex_DecodeString (au_SessionSecret (cf_Auth (cp_cfg (cp_run enc dec ops cp)))) = Some (ts_secret s))"
proof -
  have ok: "cp_ok (cp_run enc dec ops cp)" using cp_ok_Load [OF assms] by (rule cp_run_ok)
  then have "signer_ok (cp_run enc dec ops cp)" by (simp add: cp_ok_def)
  with cp_step_no_panic [OF ok] show ?thesis by (simp add: signer_ok_def split: option.split)
qed

theorem control_plane_safe_witness:
  "fst (cp_step Some Some (OpSetSecret ''A'' ''b'') (cp_run Some Some [OpReset True] first_run_cp)) \<noteq>
   Some NilMapPanic"
  using control_plane_safe [of Some DiskMissing first_run_cp Some "OpSetSecret ''A'' ''b''" "[OpReset True]"]
  by (simp add: CP_Load_def first_run_cp_def)



text \<open>
  Changing the password ends every session: the next signer has the fresh random secret,
  which is also the one on disk, it stays in use until the password is changed again or the
  configuration is replaced, and it accepts only tokens that carry the fresh secret's signature.
\<close>

theorem password_change_rotates_sessions:
  assumes "minSecretLen \<le> length secret"
    and "\<And>c. enc c = Some (f c)" "\<forall>op\<in>set ops. \<not> drops_signer op"
  shows "\<exists>cp1 s. CP_TokenSigner enc None (Some secret) (SetPasswordHash h cp) = (Inr s, cp1) \<and>
     cp_disk cp1 = DiskFile (f (cp_cfg cp1)) \<and> PasswordHash cp1 = h \<and>
     au_SessionSecret (cf_Auth (cp_cfg cp1)) = hex_EncodeToString secret \<and>
     CP_TokenSigner enc wr rnd (cp_run enc dec ops cp1) = (Inr s, cp_run enc dec ops cp1) \<and>
     (\<forall>hmac now token. Token_Valid hmac s now token \<longrightarrow>
        (\<exists>expiry. map hex_lower token = hex_EncodeToString (PutUint64 expiry) @ ''.'' @
           hex_EncodeToString (hmac secret (PutUint64 expiry))))"
proof -
  let ?s = "\<lparr>ts_secret = secret, ts_ttl = sessionTTL\<rparr>"
  let ?c = "(cp_cfg cp)\<lparr>cf_Auth := (cf_Auth (cp_cfg cp))\<lparr>au_PasswordHash := h, au_SessionSecret := hex_EncodeToString secret\<rparr>\<rparr>"
  let ?cp1 = "cp\<lparr>cp_cfg := ?c, cp_signer := Some ?s, cp_disk := DiskFile (f ?c), cp_skipNextReload := True\<rparr>"
  have ne: "secret \<noteq> []" using assms(1) by auto
  then have ne': "hex_EncodeToString secret \<noteq> []" by (simp add: hex_Encode_empty)
  have call: "CP_TokenSigner enc None (Some secret) (SetPasswordHash h cp) = (Inr ?s, ?cp1)"
    using assms(1,2) ne'
    by (simp add: CP_TokenSigner_def SetPasswordHash_def saveUnlocked_def hasContent_def cache_signer_def
        NewTokenSigner_def)
  have later: "cp_signer (cp_run enc dec ops ?cp1) = Some ?s"
    using assms(3) by (intro signer_run) simp_all
  have "\<exists>expiry. map hex_lower token = hex_EncodeToString (PutUint64 expiry) @ ''.'' @
      hex_EncodeToString (hmac secret (PutUint64 expiry))" if "Token_Valid hmac ?s now token" for hmac now token
    using Token_Valid_accepts [OF that] by (auto simp: createWithExpiry_def Let_def)
  with call later show ?thesis
    by (intro exI [of _ ?cp1] exI [of _ ?s]) (simp add: TokenSigner_cached PasswordHash_def)
qed

theorem password_change_rotates_sessions_witness:
  "\<exists>cp1 s. CP_TokenSigner Some None (Some (replicate 32 CHR ''r'')) (SetPasswordHash ''h'' example_cp) = (Inr s, cp1) \<and>
     PasswordHash cp1 = ''h'' \<and>
     CP_TokenSigner Some None None (cp_run Some Some [OpSave None] cp1) = (Inr s, cp_run Some Some [OpSave None] cp1)"
  using password_change_rotates_sessions [of "replicate 32 CHR ''r''" Some id "[OpSave None]" "''h''" example_cp
      None None Some]
  by auto

text \<open>
  A listed provider does not give its key away: the mask of a key of eleven or more bytes
  depends on its first six and last four bytes only, and the mask of a shorter key on its length
  only.
\<close>

theorem maskKey_hides:
  assumes "length k = length k'"
    and "11 \<le> length k \<Longrightarrow> take 6 k = take 6 k' \<and> drop (length k - 4) k = drop (length k' - 4) k'"
  shows "maskKey k = maskKey k'"
  using assms by (simp add: maskKey_def)

theorem maskKey_hides_witness: "maskKey ''sk-ant-AAAA-wxyz'' = maskKey ''sk-ant-BBBB-wxyz''"
  by (rule maskKey_hides) simp_all

end
