(* ===== verification/Control_Commands.thy ===== *)
theory Control_Commands
  imports Control_Plane
begin

text \<open>
  Slash commands, \<open>src/internal/controlplane/commands.go\<close>: parsing and execution of the commands
  on secrets and the cluster, with the save that follows a change.

  The quoting of \<open>%q\<close> is an argument; \<open>env\<close> holds the environment variables \<open>HIRO_MODE\<close> and
  \<open>HIRO_SWARM_CODE\<close>.
\<close>

section \<open>Commands\<close>

datatype cmd_error =
    EmptyCommand | UnknownCommand string | UnknownSecretsCommand string | UnknownClusterCommand string
  | CommandPanic

definition parseKeyValue :: "string list \<Rightarrow> (string \<times> string) option" where
  "parseKeyValue args =
     (case args of
        [] \<Rightarrow> None
      | a # rest \<Rightarrow>
          (case IndexByte a (CHR ''='') of
             Some (Suc i) \<Rightarrow>
               Some (take (Suc i) a,
                     drop (Suc (Suc i)) a @ (if rest \<noteq> [] then '' '' @ Join rest '' '' else []))
           | _ \<Rightarrow> if 2 \<le> length args then Some (a, Join rest '' '') else None))"

definition bullet :: string where
  "bullet = [CHR 0xE2, CHR 0x80, CHR 0xA2]"

definition nl :: string where "nl = [CHR 0x0A]"

definition handleSecrets ::
  "(string \<Rightarrow> string) \<Rightarrow> string \<Rightarrow> string list \<Rightarrow> ('p, 'd) ControlPlane \<Rightarrow>
   (cmd_error + string \<times> bool) \<times> ('p, 'd) ControlPlane" where
  "handleSecrets quote verb args cp =
     (if verb = ''set'' then
        (if args = [] then (Inr (''Usage: /secrets set NAME=VALUE'', False), cp)
         else case parseKeyValue args of
                None \<Rightarrow> (Inr (''Usage: /secrets set NAME=VALUE'', False), cp)
              | Some (name, val) \<Rightarrow>
                  (case SetSecret name val cp of
                     Inl NilMapPanic \<Rightarrow> (Inl CommandPanic, cp)
                   | Inl _ \<Rightarrow> (Inr (''secret name cannot be empty'', False), cp)
                   | Inr cp' \<Rightarrow> (Inr (''Secret '' @ quote name @ '' set.'', True), cp')))
      else if verb = ''rm'' \<or> verb = ''remove'' \<or> verb = ''delete'' then
        (case args of
           [] \<Rightarrow> (Inr (''Usage: /secrets rm NAME'', False), cp)
         | name # _ \<Rightarrow> (Inr (''Secret '' @ quote name @ '' removed.'', True), DeleteSecret name cp))
      else if verb = ''list'' \<or> verb = ''ls'' then
        (let names = SecretNames cp in
         if names = [] then (Inr (''No secrets configured.'', False), cp)
         else (Inr (TrimRight (''Secrets:'' @ nl @ concat (map (\<lambda>name. ''  '' @ bullet @ '' '' @ name @ nl) names)) nl,
                    False), cp))
      else if verb = [] then (Inr (''Usage: /secrets <set|rm|list>'', False), cp)
      else (Inl (UnknownSecretsCommand verb), cp))"

definition handleCluster :: "string \<times> string \<Rightarrow> string \<Rightarrow> ('p, 'd) ControlPlane \<Rightarrow> cmd_error + string" where
  "handleCluster env verb cp =
     (if verb = [] then
        (let mode = ClusterMode (fst env) cp in
         if mode = [] then
           Inr ''Cluster not configured. Use the web UI to set up your deployment mode.''
         else
           let code = ClusterSwarmCode (snd env) cp; name = ClusterNodeName cp;
               approved = map_items (ApprovedNodes cp)
           in Inr (TrimRight
                (''Mode: '' @ mode @ nl @
                 (if code \<noteq> [] then ''Swarm code: '' @ code @ nl else []) @
                 (if name \<noteq> [] then ''Node name: '' @ name @ nl else []) @
                 (if approved \<noteq> [] then ''Approved nodes: '' @ itoa (int (length approved)) @ nl else [])) nl))
      else Inl (UnknownClusterCommand verb))"

definition handleHelp :: string where
  "handleHelp =
     ''Available commands:'' @ nl @ nl @
     ''/help                    Show this help'' @ nl @
     ''/clear                   Start a new conversation'' @ nl @
     ''/secrets list            List secret names (web only)'' @ nl @
     ''/secrets set NAME=VALUE  Set a secret (web only)'' @ nl @
     ''/secrets rm NAME         Remove a secret (web only)'' @ nl @
     ''/cluster                 Show cluster status (web only)''"

definition save_warning :: string where
  "save_warning = nl @ nl @
     ''Warning: failed to save to disk. Change is active but may not survive a restart.''"

definition HandleCommand ::
  "('p, 'd) cfg_encoder \<Rightarrow> (string \<Rightarrow> string) \<Rightarrow> string \<times> string \<Rightarrow> 'd disk option \<Rightarrow> string \<Rightarrow>
   ('p, 'd) ControlPlane \<Rightarrow> (cmd_error + string) \<times> ('p, 'd) ControlPlane" where
  "HandleCommand enc quote env wr input cp =
     (let parts = Fields (if prefix ''/'' input then drop 1 input else input)
      in case parts of
           [] \<Rightarrow> (Inl EmptyCommand, cp)
         | noun # rest \<Rightarrow>
             let verb = (case rest of [] \<Rightarrow> [] | v # _ \<Rightarrow> v); args = drop 2 parts
             in if noun = ''help'' then (Inr handleHelp, cp)
                else if noun = ''secrets'' then
                  (case handleSecrets quote verb args cp of
                     (Inl e, cp1) \<Rightarrow> (Inl e, cp1)
                   | (Inr (result, mutated), cp1) \<Rightarrow>
                       if mutated
                       then (case CP_Save enc wr cp1 of
                               (None, cp2) \<Rightarrow> (Inr result, cp2)
                             | (Some _, cp2) \<Rightarrow> (Inr (result @ save_warning), cp2))
                       else (Inr result, cp1))
                else if noun = ''cluster'' then (handleCluster env verb cp, cp)
                else (Inl (UnknownCommand noun), cp))"

section \<open>Words of a command line\<close>

definition is_word :: "string \<Rightarrow> bool" where
  "is_word w \<longleftrightarrow> w \<noteq> [] \<and> list_all (\<lambda>i. space_prefix_len (drop i w) = 0) [0..<length w]"

lemma is_word_iff: "is_word w \<longleftrightarrow> w \<noteq> [] \<and> (\<forall>i<length w. space_prefix_len (drop i w) = 0)"
  by (auto simp: is_word_def list_all_iff)

lemma space_boundary:
  assumes "space_prefix_len t = 0" "t \<noteq> []"
  shows "space_prefix_len (t @ CHR '' '' # r) = 0"
proof -
  have sp: "CHR '' '' \<in> set e \<Longrightarrow> e \<in> set space_encodings \<Longrightarrow> e = [CHR '' '']" for e
    by (auto simp: space_encodings_def)
  have "\<not> prefix e (t @ CHR '' '' # r)" if "e \<in> set space_encodings" for e
  proof
    assume p: "prefix e (t @ CHR '' '' # r)"
    show False
    proof (cases "CHR '' '' \<in> set e")
      case True
      with sp that have "e = [CHR '' '']" by blast
      with p assms(2) have "prefix e t" by (cases t) auto
      with assms(1) that show False by (simp add: space_prefix_len_0)
    next
      case False
      with p have "prefix e t" by (auto simp: prefix_append prefix_Cons)
      with assms(1) that show False by (simp add: space_prefix_len_0)
    qed
  qed
  then show ?thesis by (simp add: space_prefix_len_0)
qed

lemma space_at: "space_prefix_len (CHR '' '' # r) = 1"
  by (simp add: space_prefix_len_def space_encodings_def)

lemma fields_from_word:
  assumes "\<forall>i<length w. space_prefix_len (drop i w) = 0" "cur @ w \<noteq> []"
  shows "fields_from cur (w @ CHR '' '' # r) = (cur @ w) # fields_from [] r"
    and "fields_from cur w = [cur @ w]"
  using assms
proof (induction w arbitrary: cur)
  case Nil
  { case 1 then show ?case by (simp add: space_at) }
  { case 2 then show ?case by simp }
next
  case (Cons c w)
  have rest: "\<forall>i<length w. space_prefix_len (drop i w) = 0" if "\<forall>i<length (c # w). space_prefix_len (drop i (c # w)) = 0"
    using that by (metis Suc_less_eq drop_Suc_Cons length_Cons)
  have hd: "space_prefix_len (c # w) = 0" if "\<forall>i<length (c # w). space_prefix_len (drop i (c # w)) = 0"
    using that by (metis drop0 length_greater_0_conv list.discI)
  { case 1
    have "space_prefix_len (c # (w @ CHR '' '' # r)) = 0"
      using space_boundary [OF hd [OF 1(1)]] by simp
    with Cons.IH(1) [OF rest [OF 1(1)], of "cur @ [c]"] show ?case by simp }
  { case 2
    with Cons.IH(2) [OF rest [OF 2(1)], of "cur @ [c]"] hd [OF 2(1)] show ?case by simp }
qed

lemma Fields_Join:
  assumes "\<forall>w\<in>set ws. is_word w"
  shows "Fields (Join ws '' '') = ws"
  using assms
  by (induction ws "'' '' :: string" rule: Join.induct) (auto simp: Fields_def is_word_iff fields_from_word)

lemma is_word_prefix: "is_word (name @ r) \<Longrightarrow> name \<noteq> [] \<Longrightarrow> is_word name"
proof -
  assume w: "is_word (name @ r)" and ne: "name \<noteq> []"
  have "\<not> prefix e (drop i name)" if "i < length name" "e \<in> set space_encodings" for i e
  proof
    assume "prefix e (drop i name)"
    then have "prefix e (drop i (name @ r))" using that(1) by (auto simp: prefix_def)
    moreover have "space_prefix_len (drop i (name @ r)) = 0"
      using w that(1) unfolding is_word_iff length_append by (meson trans_less_add1)
    ultimately show False using that(2) by (simp add: space_prefix_len_0)
  qed
  with ne show "is_word name" by (simp add: is_word_iff space_prefix_len_0)
qed

lemma is_word_trimmed: "is_word w \<Longrightarrow> trimmed w"
proof -
  assume w: "is_word w"
  then have no: "space_prefix_len (drop i w) = 0" if "i < length w" for i using that by (simp add: is_word_iff)
  have "\<not> suffix e w" if e: "e \<in> set space_encodings" for e
  proof
    assume "suffix e w"
    then obtain u where u: "w = u @ e" by (auto simp: suffix_def)
    with e space_encodings_nonempty have "length u < length w" by auto
    from no [OF this] u e show False by (auto simp: space_prefix_len_0)
  qed
  moreover have "space_prefix_len w = 0" using no [of 0] w by (simp add: is_word_iff)
  ultimately show ?thesis by (simp add: trimmed_def space_suffix_len_0)
qed

lemma is_word_literals [simp]: "is_word ''secrets''" "is_word ''set''" "is_word ''rm''" "is_word ''cluster''"
  by code_simp+

lemma Fields_command:
  "\<forall>w\<in>set ws. is_word w \<Longrightarrow> Fields (drop (Suc 0) (CHR ''/'' # Join ws '' '')) = ws"
  by (simp add: Fields_Join)

section \<open>Properties\<close>

lemma parseKeyValue_assign:
  assumes "name \<noteq> []" "CHR ''='' \<notin> set name"
  shows "parseKeyValue ((name @ CHR ''='' # v) # rest) =
     Some (name, v @ (if rest \<noteq> [] then '' '' @ Join rest '' '' else []))"
proof -
  obtain n where n: "length name = Suc n" using assms(1) by (cases name) auto
  have "IndexByte (name @ CHR ''='' # v) (CHR ''='') = Some (Suc n)"
    using IndexByte_append [OF assms(2)] n by simp
  moreover have "take (Suc n) (name @ CHR ''='' # v) = name" "drop (Suc (Suc n)) (name @ CHR ''='' # v) = v"
    using n by simp_all
  ultimately show ?thesis by (simp add: parseKeyValue_def)
qed

text \<open>
  The command that sets a secret does so, in memory and on disk: for a name without white
  space or equals sign and a value of one or more words, the value can afterwards be read through a
  reference to the name, whatever the value contains, and the file holds the new configuration.
\<close>

theorem secrets_set_command:
  assumes "cp_ok cp" "name \<noteq> []" "CHR ''='' \<notin> set name" "\<forall>w\<in>set ((name @ CHR ''='' # v) # rest). is_word w"
    and "\<And>c. enc c = Some (f c)"
  shows "\<exists>cp'. HandleCommand enc quote env None
       (CHR ''/'' # Join ([''secrets'', ''set'', name @ CHR ''='' # v] @ rest) '' '') cp =
         (Inr (''Secret '' @ quote name @ '' set.''), cp') \<and>
     ResolveSecret (''${'' @ name @ ''}'') cp' = v @ (if rest \<noteq> [] then '' '' @ Join rest '' '' else []) \<and>
     cp_disk cp' = DiskFile (f (cp_cfg cp'))"
proof -
  let ?val = "v @ (if rest \<noteq> [] then '' '' @ Join rest '' '' else [])"
  obtain m where m: "cf_Secrets (cp_cfg cp) = Some m" using assms(1) by (auto simp: cp_ok_def maps_ok_def)
  let ?cp1 = "set_cfg (\<lambda>c. c\<lparr>cf_Secrets := Some (gomap_put name ?val m)\<rparr>) cp"
  let ?cp' = "?cp1\<lparr>cp_disk := DiskFile (f (cp_cfg ?cp1)), cp_skipNextReload := True\<rparr>"
  have "TrimSpace name = name"
    using assms(2,4) is_word_prefix [of name "CHR ''='' # v"] is_word_trimmed by simp
  then have set: "SetSecret name ?val cp = Inr ?cp1" using assms(2) m by (simp add: SetSecret_def)
  have "handleSecrets quote ''set'' ((name @ CHR ''='' # v) # rest) cp =
      (Inr (''Secret '' @ quote name @ '' set.'', True), ?cp1)"
    unfolding handleSecrets_def parseKeyValue_assign [OF assms(2,3)] using set by simp
  moreover have "gomap_put name ?val m \<noteq> []"
    by (metis gomap_get_Nil gomap_get_put option.distinct(1))
  then have "CP_Save enc None ?cp1 = (None, ?cp')"
    using assms(5) by (simp add: CP_Save_def saveUnlocked_def hasContent_def)
  moreover have "Fields (drop (Suc 0) (CHR ''/'' # Join ([''secrets'', ''set'', name @ CHR ''='' # v] @ rest) '' '')) =
      ''secrets'' # ''set'' # (name @ CHR ''='' # v) # rest"
    using assms(4) by (subst Fields_command) simp_all
  ultimately have "HandleCommand enc quote env None
       (CHR ''/'' # Join ([''secrets'', ''set'', name @ CHR ''='' # v] @ rest) '' '') cp =
         (Inr (''Secret '' @ quote name @ '' set.''), ?cp')"
    by (simp add: HandleCommand_def)
  moreover have "ResolveSecret (''${'' @ name @ ''}'') ?cp' = ?val"
    by (simp add: ResolveSecret_def suffix_def gomap_get_str_def)
  ultimately show ?thesis by (intro exI [of _ ?cp']) simp
qed

theorem secrets_set_command_witness:
  "\<exists>cp'. HandleCommand Some id ([], []) None ''/secrets set KEY=a=b c'' example_cp =
       (Inr ''Secret KEY set.'', cp') \<and>
     ResolveSecret ''${KEY}'' cp' = ''a=b c'' \<and> cp_disk cp' = DiskFile (cp_cfg cp')"
proof -
  have "cp_ok example_cp" by (simp add: example_cp_def cp_ok_def maps_ok_def signer_ok_def)
  moreover have "is_word ''KEY=a=b''" "is_word ''c''" by code_simp+
  ultimately show ?thesis
    using secrets_set_command [of example_cp "''KEY''" "''a=b''" "[''c'']" Some id id "([], [])"] by simp
qed

lemma SetSecret_cases:
  "SetSecret name val cp = Inr cp' \<Longrightarrow>
   \<exists>m. cf_Secrets (cp_cfg cp) = Some m \<and>
     cp' = set_cfg (\<lambda>c. c\<lparr>cf_Secrets := Some (gomap_put (TrimSpace name) val m)\<rparr>) cp"
  by (auto simp: SetSecret_def Let_def split: if_splits option.splits)

lemma handleSecrets_cases:
  obtains (pure) r where "handleSecrets quote verb args cp = (r, cp)" "\<And>result. r \<noteq> Inr (result, True)"
  | (set) name val cp' where
      "handleSecrets quote verb args cp = (Inr (''Secret '' @ quote name @ '' set.'', True), cp')"
      "SetSecret name val cp = Inr cp'" "verb = ''set''" "parseKeyValue args = Some (name, val)"
  | (rm) name where
      "handleSecrets quote verb args cp = (Inr (''Secret '' @ quote name @ '' removed.'', True), DeleteSecret name cp)"
      "verb \<noteq> ''set''" "args \<noteq> []" "name = hd args"
proof -
  have unchanged: thesis if "snd (handleSecrets quote verb args cp) = cp"
    "\<forall>result. fst (handleSecrets quote verb args cp) \<noteq> Inr (result, True)"
    using that by (intro pure [of "fst (handleSecrets quote verb args cp)"]) (auto simp: prod_eq_iff)
  show thesis
  proof (cases "verb = ''set''")
    case True
    show thesis
    proof (cases "args = [] \<or> parseKeyValue args = None")
      case True
      with \<open>verb = ''set''\<close> show thesis by (intro unchanged) (auto simp: handleSecrets_def)
    next
      case False
      then obtain name val where kv: "parseKeyValue args = Some (name, val)" "args \<noteq> []" by auto
      show thesis
      proof (cases "SetSecret name val cp")
        case (Inr cp')
        with kv True show thesis by (intro set [of name cp' val]) (simp_all add: handleSecrets_def)
      next
        case (Inl e)
        with kv True show thesis
          by (intro unchanged) (simp_all add: handleSecrets_def split: cp_error.split)
      qed
    qed
  next
    case False
    show thesis
    proof (cases "(verb = ''rm'' \<or> verb = ''remove'' \<or> verb = ''delete'') \<and> args \<noteq> []")
      case True
      then obtain name rest where args: "args = name # rest" by (cases args) auto
      with True False show thesis by (intro rm [of name]) (simp_all add: handleSecrets_def)
    next
      case other: False
      show thesis
      proof (cases "args = []")
        case True
        with False show thesis by (intro unchanged) (simp_all add: handleSecrets_def Let_def)
      next
        case args: False
        with other have "verb \<noteq> ''rm''" "verb \<noteq> ''remove''" "verb \<noteq> ''delete''" by blast+
        with False show thesis by (intro unchanged) (simp_all add: handleSecrets_def Let_def)
      qed
    qed
  qed
qed

definition secret_names_only :: "('p, 'd) ControlPlane \<Rightarrow> 'p Config \<times> string list option" where
  "secret_names_only cp = ((cp_cfg cp)\<lparr>cf_Secrets := None\<rparr>, map_option (map fst) (cf_Secrets (cp_cfg cp)))"

text \<open>The part of \<open>HandleCommand\<close> for the noun \<open>secrets\<close>.\<close>

definition after_secrets ::
  "('p, 'd) cfg_encoder \<Rightarrow> 'd disk option \<Rightarrow> (cmd_error + string \<times> bool) \<times> ('p, 'd) ControlPlane \<Rightarrow>
   (cmd_error + string) \<times> ('p, 'd) ControlPlane" where
  "after_secrets enc wr r =
     (case r of
        (Inl e, cp1) \<Rightarrow> (Inl e, cp1)
      | (Inr (result, mutated), cp1) \<Rightarrow>
          if mutated
          then (case CP_Save enc wr cp1 of
                  (None, cp2) \<Rightarrow> (Inr result, cp2)
                | (Some _, cp2) \<Rightarrow> (Inr (result @ save_warning), cp2))
          else (Inr result, cp1))"

lemma HandleCommand_cases:
  obtains (secrets) verb args where
      "\<And>cp. HandleCommand enc quote env wr input cp = after_secrets enc wr (handleSecrets quote verb args cp)"
  | (cluster) verb where "\<And>cp. HandleCommand enc quote env wr input cp = (handleCluster env verb cp, cp)"
  | (static) r where "\<And>cp. HandleCommand enc quote env wr input cp = (r, cp)" "r \<noteq> Inl CommandPanic"
proof (cases "Fields (if prefix ''/'' input then drop 1 input else input)")
  case Nil
  then show thesis by (intro static [of "Inl EmptyCommand"]) (simp_all add: HandleCommand_def)
next
  case (Cons noun rest)
  note def = HandleCommand_def [of enc quote env wr input] Cons
  consider "noun = ''help''" | "noun = ''secrets''" | "noun = ''cluster''"
    | "noun \<notin> {''help'', ''secrets'', ''cluster''}" by blast
  then show thesis
  proof cases
    case 1
    then show thesis by (intro static [of "Inr handleHelp"]) (simp_all add: def)
  next
    case 2
    then show thesis by (intro secrets) (simp add: def after_secrets_def Let_def)
  next
    case 3
    then show thesis by (intro cluster) (simp add: def)
  next
    case 4
    then show thesis by (intro static [of "Inl (UnknownCommand noun)"]) (simp_all add: def)
  qed
qed

lemma after_secrets_save:
  "snd (after_secrets enc wr (Inr (result, True), cp)) = snd (CP_Save enc wr cp)"
  "fst (after_secrets enc wr (Inr (result, True), cp)) =
     Inr (if fst (CP_Save enc wr cp) = None then result else result @ save_warning)"
  by (cases "CP_Save enc wr cp"; simp add: after_secrets_def split: option.split)+

lemma after_secrets_pure:
  "\<forall>result. r \<noteq> Inr (result, True) \<Longrightarrow> after_secrets enc wr (r, cp) = (map_sum id fst r, cp)"
  by (auto simp: after_secrets_def split: sum.split)

lemma handleSecrets_no_panic:
  assumes "cp_ok cp"
  shows "fst (handleSecrets quote verb args cp) \<noteq> Inl CommandPanic"
proof -
  have "SetSecret name val cp \<noteq> Inl NilMapPanic" for name val
    using assms by (auto simp: SetSecret_def Let_def cp_ok_def maps_ok_def)
  then show ?thesis
    unfolding handleSecrets_def
    by (simp add: Let_def split: option.split list.split sum.split cp_error.split prod.split)
qed

text \<open>
  Commands stay in their lane: whatever the input, a command changes no part of the
  configuration except the secrets, it keeps the control plane consistent, a command that fails
  changes nothing at all, and none panics.
\<close>

theorem commands_only_touch_secrets:
  assumes "cp_ok cp"
  shows "case HandleCommand enc quote env wr input cp of (r, cp') \<Rightarrow>
    (cp_cfg cp')\<lparr>cf_Secrets := cf_Secrets (cp_cfg cp)\<rparr> = cp_cfg cp \<and> cp_signer cp' = cp_signer cp \<and>
    cp_ok cp' \<and> r \<noteq> Inl CommandPanic \<and> (isl r \<longrightarrow> cp' = cp)"
proof (rule HandleCommand_cases [of enc quote env wr input])
  fix verb args
  assume cmd: "\<And>cp. HandleCommand enc quote env wr input cp = after_secrets enc wr (handleSecrets quote verb args cp)"
  show ?thesis
  proof (cases rule: handleSecrets_cases [of quote verb args cp])
    case (pure r)
    with handleSecrets_no_panic [OF assms, of quote verb args] show ?thesis
      using assms by (cases r) (auto simp: cmd after_secrets_pure)
  next
    case (set name val cp')
    with SetSecret_cases [OF set(2)] assms saveUnlocked_frame [of enc wr cp'] show ?thesis
      by (auto simp: cmd split_beta after_secrets_save CP_Save_def cp_ok_def maps_ok_def signer_ok_def)
  next
    case (rm name)
    with assms saveUnlocked_frame [of enc wr "DeleteSecret name cp"] show ?thesis
      by (auto simp: cmd split_beta after_secrets_save CP_Save_def cp_ok_def maps_ok_def signer_ok_def
          DeleteSecret_def)
  qed
qed (use assms in \<open>auto simp: handleCluster_def Let_def\<close>)

theorem commands_only_touch_secrets_witness:
  "case HandleCommand Some id ([], []) None ''/cluster'' example_cp of (r, cp') \<Rightarrow>
     cp_cfg cp'\<lparr>cf_Secrets := cf_Secrets (cp_cfg example_cp)\<rparr> = cp_cfg example_cp \<and> r \<noteq> Inl CommandPanic"
  using commands_only_touch_secrets [of example_cp Some id "([], [])" None "''/cluster''"]
  by (auto simp: example_cp_def cp_ok_def maps_ok_def signer_ok_def split: prod.splits)

definition add_key :: "'k \<Rightarrow> 'k list \<Rightarrow> 'k list" where
  "add_key k ks = (if k \<in> set ks then ks else ks @ [k])"

lemma keys_gomap_put: "map fst (gomap_put k v m) = add_key k (map fst m)"
  by (induction m) (auto simp: gomap_put_def add_key_def)

lemma keys_gomap_del: "map fst (gomap_del k m) = filter (\<lambda>x. x \<noteq> k) (map fst m)"
  by (induction m) (auto simp: gomap_del_def)

lemma secret_names_only_iff:
  "secret_names_only cp = secret_names_only cp' \<longleftrightarrow>
     cf_Auth (cp_cfg cp) = cf_Auth (cp_cfg cp') \<and> cf_Providers (cp_cfg cp) = cf_Providers (cp_cfg cp') \<and>
     cf_DefaultModel (cp_cfg cp) = cf_DefaultModel (cp_cfg cp') \<and> cf_Timezone (cp_cfg cp) = cf_Timezone (cp_cfg cp') \<and>
     cf_Cluster (cp_cfg cp) = cf_Cluster (cp_cfg cp') \<and> cf_Filesystem (cp_cfg cp) = cf_Filesystem (cp_cfg cp') \<and>
     map_option (map fst) (cf_Secrets (cp_cfg cp)) = map_option (map fst) (cf_Secrets (cp_cfg cp'))"
  by (cases "cp_cfg cp"; cases "cp_cfg cp'") (auto simp: secret_names_only_def)

lemma SecretNames_related:
  assumes "secret_names_only cp = secret_names_only cp'"
  shows "map fst (map_items (cf_Secrets (cp_cfg cp))) = map fst (map_items (cf_Secrets (cp_cfg cp')))"
  using assms by (auto simp: secret_names_only_iff split: option.splits)

lemma hasContent_related:
  assumes "secret_names_only cp = secret_names_only cp'"
  shows "hasContent (cp_cfg cp) = hasContent (cp_cfg cp')"
proof -
  have "map_items (cf_Secrets (cp_cfg cp)) = [] \<longleftrightarrow> map_items (cf_Secrets (cp_cfg cp')) = []"
    using SecretNames_related [OF assms] by (metis map_is_Nil_conv)
  with assms show ?thesis unfolding secret_names_only_iff hasContent_def by simp
qed

lemma SetSecret_related:
  assumes "secret_names_only cp = secret_names_only cp'"
  shows "rel_sum (=) (\<lambda>c c'. secret_names_only c = secret_names_only c') (SetSecret name v cp) (SetSecret name v cp')"
  using assms unfolding secret_names_only_iff
  by (auto simp: SetSecret_def Let_def keys_gomap_put split: option.splits)

lemma DeleteSecret_related:
  assumes "secret_names_only cp = secret_names_only cp'"
  shows "secret_names_only (DeleteSecret name cp) = secret_names_only (DeleteSecret name cp')"
  using assms unfolding secret_names_only_iff
  by (cases "cf_Secrets (cp_cfg cp)"; cases "cf_Secrets (cp_cfg cp')")
    (auto simp: DeleteSecret_def keys_gomap_del)

lemma handleSecrets_related:
  assumes "secret_names_only cp = secret_names_only cp'"
  shows "fst (handleSecrets quote verb args cp) = fst (handleSecrets quote verb args cp') \<and>
    secret_names_only (snd (handleSecrets quote verb args cp)) =
    secret_names_only (snd (handleSecrets quote verb args cp'))"
proof (cases "verb = ''set''")
  case True
  show ?thesis
  proof (cases "parseKeyValue args")
    case (Some kv)
    obtain name v where "kv = (name, v)" by fastforce
    with True Some assms SetSecret_related [OF assms, of name v] show ?thesis
      by (auto simp: handleSecrets_def split: sum.split cp_error.split)
  qed (use True assms in \<open>simp add: handleSecrets_def\<close>)
next
  case False
  have "SecretNames cp = SecretNames cp'"
    using SecretNames_related [OF assms] by (simp add: SecretNames_def)
  with False assms DeleteSecret_related [OF assms] show ?thesis
    by (simp add: handleSecrets_def Let_def split: list.split)
qed

text \<open>
  Commands never reveal a secret: two control planes that differ in the values of secrets
  only, and have the same names, give the same reply to every command.
\<close>

theorem commands_hide_secret_values:
  assumes "secret_names_only cp = secret_names_only cp'" "\<And>c. enc c = Some (f c)"
  shows "fst (HandleCommand enc quote env wr input cp) = fst (HandleCommand enc quote env wr input cp')"
proof (rule HandleCommand_cases [of enc quote env wr input])
  fix verb args
  assume cmd: "\<And>cp. HandleCommand enc quote env wr input cp = after_secrets enc wr (handleSecrets quote verb args cp)"
  let ?h = "handleSecrets quote verb args"
  have rel: "fst (?h cp) = fst (?h cp')" "secret_names_only (snd (?h cp)) = secret_names_only (snd (?h cp'))"
    using handleSecrets_related [OF assms(1)] by blast+
  have "fst (CP_Save enc wr (snd (?h cp))) = fst (CP_Save enc wr (snd (?h cp')))"
    using hasContent_related [OF rel(2)] assms(2)
    by (auto simp: CP_Save_def saveUnlocked_def split: option.split)
  then show ?thesis
    using rel(1) unfolding cmd after_secrets_def
    by (auto simp: split_beta split: sum.split option.split)
next
  fix verb
  assume cmd: "\<And>cp. HandleCommand enc quote env wr input cp = (handleCluster env verb cp, cp)"
  have "cf_Cluster (cp_cfg cp) = cf_Cluster (cp_cfg cp')" using assms(1) by (simp add: secret_names_only_iff)
  then have "ClusterMode (fst env) cp = ClusterMode (fst env) cp'"
    "ClusterSwarmCode (snd env) cp = ClusterSwarmCode (snd env) cp'"
    "ClusterNodeName cp = ClusterNodeName cp'" "ApprovedNodes cp = ApprovedNodes cp'"
    by (simp_all add: ClusterMode_def ClusterSwarmCode_def ClusterNodeName_def ApprovedNodes_def)
  then show ?thesis unfolding cmd fst_conv handleCluster_def by (simp only:)
qed simp

theorem commands_hide_secret_values_witness:
  "fst (HandleCommand Some id ([], []) None ''/secrets list'' example_cp) =
   fst (HandleCommand Some id ([], []) None ''/secrets list''
     (set_cfg (\<lambda>c. c\<lparr>cf_Secrets := Some [(''TOKEN'', ''y'')]\<rparr>) example_cp))"
  by (rule commands_hide_secret_values [where f = id]) (simp_all add: secret_names_only_def example_cp_def)

text \<open>
  Removing the last secret of an otherwise empty configuration is not durable: the command
  reports success, but because there is nothing left to persist the file is not written, and the
  next start brings the secret back.
\<close>

theorem removed_last_secret_returns:
  assumes "is_word name" "CP_Load dec (DiskFile data) = Inr cp" "cf_Secrets (cp_cfg cp) = Some [(name, v)]"
    and "\<not> hasContent ((cp_cfg cp)\<lparr>cf_Secrets := Some []\<rparr>)"
  shows "\<exists>cp'. HandleCommand enc quote env None (CHR ''/'' # Join [''secrets'', ''rm'', name] '' '') cp =
       (Inr (''Secret '' @ quote name @ '' removed.''), cp') \<and>
     cf_Secrets (cp_cfg cp') = Some [] \<and> CP_Load dec (cp_disk cp') = Inr cp"
proof -
  let ?cp' = "DeleteSecret name cp"
  have cfg: "cp_cfg ?cp' = (cp_cfg cp)\<lparr>cf_Secrets := Some []\<rparr>"
    using assms(3) by (simp add: DeleteSecret_def gomap_del_def)
  have "cp_disk cp = DiskFile data"
    using assms(2) by (auto simp: CP_Load_def split: option.splits)
  moreover have "Fields (drop (Suc 0) (CHR ''/'' # Join [''secrets'', ''rm'', name] '' '')) = [''secrets'', ''rm'', name]"
    using assms(1) by (subst Fields_command) simp_all
  ultimately show ?thesis
    using assms(2,4) cfg
    by (simp add: HandleCommand_def handleSecrets_def CP_Save_def saveUnlocked_def)
      (simp add: DeleteSecret_def)
qed

theorem removed_last_secret_returns_witness:
  "\<exists>cp'. HandleCommand Some id ([], []) None ''/secrets rm TOKEN''
       (example_cp\<lparr>cp_disk := DiskFile (cp_cfg example_cp)\<rparr>) = (Inr ''Secret TOKEN removed.'', cp') \<and>
     cf_Secrets (cp_cfg cp') = Some [] \<and>
     CP_Load Some (cp_disk cp') = Inr (example_cp\<lparr>cp_disk := DiskFile (cp_cfg example_cp)\<rparr>)"
proof -
  have "is_word ''TOKEN''" by code_simp
  then show ?thesis
    using removed_last_secret_returns [of "''TOKEN''" Some "cp_cfg example_cp"
        "example_cp\<lparr>cp_disk := DiskFile (cp_cfg example_cp)\<rparr>" "''x''" Some id "([], [])"]
    by (simp add: example_cp_def CP_Load_def initMaps_def hasContent_def zero_Config_def zero_Cluster_def)
qed

end
