(* ===== verification/Channel_Router.thy ===== *)
theory Channel_Router
  imports Channel_Format Notifications Control_Commands
begin

text \<open>
  The message router, \<open>src/internal/channel/router.go\<close> and the bindings of
  \<open>src/internal/channel/channel.go\<close>: dispatch of inbound messages and slash commands, bindings of
  conversations to instances, and the delivery of notification turns.

  The manager is the interface \<open>ManagerInterface\<close>, here the record \<open>manager\<close> of what its methods
  return; what the router does with the outside is the list of its effects in order.  A command
  handler works on a state of its own, of type \<open>'c\<close>.  Usage figures are left out of the results, and
  the order in which bindings are visited, which Go leaves open, is that of the association list.
\<close>

section \<open>State\<close>

record chan =
  ch_Name :: string
  ch_Trusted :: bool

record Binding =
  b_ConversationKey :: string
  b_ChannelName :: string
  b_Target :: string
  b_Channel :: "chan option"
  b_SessionID :: string

record Router =
  r_channels :: "(string, chan) gomap"
  r_bindings :: "(string, Binding) gomap"
  r_pumps :: "string list"

datatype mgr_error = ErrInstanceNotFound | ErrInstanceStopped | MgrError string

record manager =
  m_GetInstance :: "string \<Rightarrow> bool"
  m_InstanceByAgentName :: "string \<Rightarrow> string \<times> bool"
  m_SendMessageToSession :: "string \<Rightarrow> string \<Rightarrow> string \<Rightarrow> string list \<Rightarrow> ChatEvent list \<times> string \<times> mgr_error option"
  m_SendMeta :: "string \<Rightarrow> string \<Rightarrow> string \<Rightarrow> ChatEvent list \<times> string \<times> mgr_error option"
  m_NewSessionForChannel :: "string \<Rightarrow> string \<Rightarrow> mgr_error + string"
  m_errText :: "mgr_error \<Rightarrow> string"

record InboundMessage =
  im_ConversationKey :: string
  im_InstanceID :: string
  im_SessionID :: string
  im_ChannelName :: string
  im_ChannelKey :: string
  im_Text :: string
  im_Files :: "string list"

datatype effect =
    Emit ChatEvent
  | SendToSession string string string "string list"
  | NewSession string string
  | RunCommand string
  | OnDone string
  | MetaTurn string string string
  | Delivered string "ChatEvent list" string

datatype deliver_result = DeliverOK | DeliverClosed | DeliverFailed

definition event :: "string \<Rightarrow> string \<Rightarrow> ChatEvent" where
  "event ty content = \<lparr>ev_Type = ty, ev_Content = content\<rparr>"

section \<open>Channels and bindings\<close>

definition NewRouter :: Router where
  "NewRouter = \<lparr>r_channels = [], r_bindings = [], r_pumps = []\<rparr>"

definition Router_Register :: "chan \<Rightarrow> Router \<Rightarrow> Router" where
  "Router_Register ch r = r\<lparr>r_channels := gomap_put (ch_Name ch) ch (r_channels r)\<rparr>"

definition Router_Unregister :: "string \<Rightarrow> Router \<Rightarrow> Router" where
  "Router_Unregister name r = r\<lparr>r_channels := gomap_del name (r_channels r)\<rparr>"

definition GetBinding :: "string \<Rightarrow> Router \<Rightarrow> Binding option" where
  "GetBinding conversationKey r = gomap_get (r_bindings r) conversationKey"

definition Bind :: "string \<Rightarrow> string \<Rightarrow> string \<Rightarrow> Router \<Rightarrow> Binding \<times> Router" where
  "Bind conversationKey channelName target r =
     (let b = \<lparr>b_ConversationKey = conversationKey, b_ChannelName = channelName, b_Target = target,
               b_Channel = gomap_get (r_channels r) channelName, b_SessionID = []\<rparr>
      in (b, r\<lparr>r_bindings := gomap_put conversationKey b (r_bindings r)\<rparr>))"

definition Unbind :: "string \<Rightarrow> Router \<Rightarrow> Router" where
  "Unbind conversationKey r = r\<lparr>r_bindings := gomap_del conversationKey (r_bindings r)\<rparr>"

definition ResolveInstanceID :: "manager \<Rightarrow> Binding \<Rightarrow> string" where
  "ResolveInstanceID mgr b =
     (if m_GetInstance mgr (b_Target b) then b_Target b
      else case m_InstanceByAgentName mgr (b_Target b) of
             (i, running) \<Rightarrow> if i \<noteq> [] \<and> running then i else [])"

definition bindingsForInstance :: "manager \<Rightarrow> string \<Rightarrow> Router \<Rightarrow> Binding list" where
  "bindingsForInstance mgr instanceID r =
     filter (\<lambda>b. ResolveInstanceID mgr b = instanceID) (map snd (r_bindings r))"

definition bindingsForSession :: "manager \<Rightarrow> string \<Rightarrow> string \<Rightarrow> Router \<Rightarrow> Binding list" where
  "bindingsForSession mgr instanceID sessionID r =
     filter (\<lambda>b. ResolveInstanceID mgr b = instanceID \<and> b_SessionID b = sessionID) (map snd (r_bindings r))"

section \<open>Inbound messages\<close>

definition sensitiveCommands :: "string list" where
  "sensitiveCommands = [''secrets'', ''tools'', ''cluster'']"

definition newline :: string where "newline = [CHR 0x0A]"

definition handleClearCommand :: "manager \<Rightarrow> InboundMessage \<Rightarrow> Router \<Rightarrow> effect list \<times> Router" where
  "handleClearCommand mgr msg r =
     (let channelKey = (if im_ChannelKey msg = [] then ''web'' else im_ChannelKey msg);
          pre = [Emit (event ''clear'' []), NewSession (im_InstanceID msg) channelKey]
      in case m_NewSessionForChannel mgr (im_InstanceID msg) channelKey of
           Inl err \<Rightarrow> (pre @ [Emit (event ''error'' (m_errText mgr err)), OnDone []], r)
         | Inr newSessionID \<Rightarrow>
             (pre @ (if im_ChannelName msg = ''web'' then [Emit (event ''session'' newSessionID)] else []) @ [OnDone []],
              r\<lparr>r_bindings := map (\<lambda>(k, b). (k,
                  if b_Target b = im_InstanceID msg \<and> b_ConversationKey b = im_ConversationKey msg
                  then b\<lparr>b_SessionID := newSessionID\<rparr> else b)) (r_bindings r)\<rparr>))"

type_synonym 'c handler = "string \<Rightarrow> 'c \<Rightarrow> (string + string) \<times> 'c"

definition dispatchCommand :: "'c handler \<Rightarrow> InboundMessage \<Rightarrow> 'c \<Rightarrow> effect list \<times> 'c" where
  "dispatchCommand h msg c =
     (case h (im_Text msg) c of
        (Inr result, c') \<Rightarrow> ([RunCommand (im_Text msg), Emit (event ''system'' result), OnDone []], c')
      | (Inl err, c') \<Rightarrow>
          ([RunCommand (im_Text msg),
            Emit (event ''system'' (err @ newline @ ''Type /help for available commands.'')), OnDone []], c'))"

definition handleSlashCommand ::
  "manager \<Rightarrow> 'c handler option \<Rightarrow> InboundMessage \<Rightarrow> Router \<times> 'c \<Rightarrow> effect list \<times> Router \<times> 'c" where
  "handleSlashCommand mgr h msg st =
     (case st of (r, c) \<Rightarrow>
        case Fields (if prefix ''/'' (im_Text msg) then drop 1 (im_Text msg) else im_Text msg) of
          [] \<Rightarrow> ([Emit (event ''system'' ''Type /help for available commands.''), OnDone []], r, c)
        | noun # _ \<Rightarrow>
            if noun = ''clear'' then (case handleClearCommand mgr msg r of (es, r') \<Rightarrow> (es, r', c))
            else if noun \<in> set sensitiveCommands \<and>
                    (case gomap_get (r_channels r) (im_ChannelName msg) of
                       Some ch \<Rightarrow> \<not> ch_Trusted ch | None \<Rightarrow> False)
            then ([Emit (event ''system'' (''/'' @ noun @ '' is only available from the web interface.'')), OnDone []], r, c)
            else case h of
                   Some f \<Rightarrow> (case dispatchCommand f msg c of (es, c') \<Rightarrow> (es, r, c'))
                 | None \<Rightarrow>
                     ([Emit (event ''system'' (''Unknown command: '' @ noun @ newline @
                         ''Type /help for available commands.'')), OnDone []], r, c))"

definition Dispatch ::
  "manager \<Rightarrow> 'c handler option \<Rightarrow> InboundMessage \<Rightarrow> Router \<times> 'c \<Rightarrow> effect list \<times> Router \<times> 'c" where
  "Dispatch mgr h msg st =
     (if prefix ''/'' (im_Text msg) then handleSlashCommand mgr h msg st
      else case m_SendMessageToSession mgr (im_InstanceID msg) (im_SessionID msg) (im_Text msg) (im_Files msg) of
             (events, response, err) \<Rightarrow>
               ([SendToSession (im_InstanceID msg) (im_SessionID msg) (im_Text msg) (im_Files msg)] @
                map Emit events @
                (case err of Some e \<Rightarrow> [Emit (event ''error'' (m_errText mgr e))] | None \<Rightarrow> []) @
                [OnDone response], st))"

section \<open>Notifications\<close>

text \<open>The deliveries run concurrently; each changes only its own binding.  A binding without a channel
  makes its delivery dereference nil, which ends the program: the result is None.\<close>

fun fanOut ::
  "(string \<Rightarrow> deliver_result) \<Rightarrow> Binding list \<Rightarrow> ChatEvent list \<Rightarrow> string \<Rightarrow> Router \<Rightarrow> (effect list \<times> Router) option" where
  "fanOut deliver [] events response r = Some ([], r)"
| "fanOut deliver (b # bs) events response r =
     (if b_Channel b = None then None
      else let r1 = (case deliver (b_ConversationKey b) of DeliverClosed \<Rightarrow> Unbind (b_ConversationKey b) r | _ \<Rightarrow> r)
           in map_option (\<lambda>(es, r2). (Delivered (b_ConversationKey b) events response # es, r2))
                (fanOut deliver bs events response r1))"

definition processNotification ::
  "manager \<Rightarrow> (string \<Rightarrow> deliver_result) \<Rightarrow> string \<Rightarrow> Notification \<Rightarrow> Router \<Rightarrow> (bool \<times> effect list \<times> Router) option" where
  "processNotification mgr deliver instanceID n r =
     (let bindings = (if nt_SessionID n \<noteq> [] then bindingsForSession mgr instanceID (nt_SessionID n) r
                      else bindingsForInstance mgr instanceID r)
      in if bindings = [] then Some (False, [], r)
         else case m_SendMeta mgr instanceID (nt_SessionID n) (nt_Content n) of
                (events, response, turnErr) \<Rightarrow>
                  map_option (\<lambda>(es, r'). (turnErr \<in> {Some ErrInstanceNotFound, Some ErrInstanceStopped},
                                          MetaTurn instanceID (nt_SessionID n) (nt_Content n) # es, r'))
                    (fanOut deliver bindings
                       (if nt_Content n \<noteq> [] then event ''notification'' (nt_Content n) # events else events)
                       response r))"

fun process_all ::
  "manager \<Rightarrow> (string \<Rightarrow> deliver_result) \<Rightarrow> string \<Rightarrow> Notification list \<Rightarrow> Router \<Rightarrow> (effect list \<times> Router) option" where
  "process_all mgr deliver instanceID [] r = Some ([], r)"
| "process_all mgr deliver instanceID (n # ns) r =
     (case processNotification mgr deliver instanceID n r of
        None \<Rightarrow> None
      | Some (True, es, r1) \<Rightarrow> Some (es, r1)
      | Some (False, es, r1) \<Rightarrow> map_option (\<lambda>(fs, r2). (es @ fs, r2)) (process_all mgr deliver instanceID ns r1))"

definition drainAndDeliver ::
  "manager \<Rightarrow> (string \<Rightarrow> deliver_result) \<Rightarrow> string \<Rightarrow> NotificationQueue option \<times> Router \<Rightarrow>
   (effect list \<times> NotificationQueue option \<times> Router) option" where
  "drainAndDeliver mgr deliver instanceID st =
     (case st of
        (None, r) \<Rightarrow> Some ([], None, r)
      | (Some q, r) \<Rightarrow>
          (case Drain q of (ns, q') \<Rightarrow>
             map_option (\<lambda>(es, r'). (es, Some q', r')) (process_all mgr deliver instanceID ns r)))"

section \<open>Pumps\<close>

definition StartNotificationPump :: "string \<Rightarrow> Router \<Rightarrow> bool \<times> Router" where
  "StartNotificationPump instanceID r =
     (if instanceID \<in> set (r_pumps r) then (False, r)
      else (True, r\<lparr>r_pumps := instanceID # r_pumps r\<rparr>))"

definition StopNotificationPump :: "string \<Rightarrow> Router \<Rightarrow> bool \<times> Router" where
  "StopNotificationPump instanceID r =
     (instanceID \<in> set (r_pumps r), r\<lparr>r_pumps := removeAll instanceID (r_pumps r)\<rparr>)"

text \<open>\<open>Stop\<close> cancels every pump and stops every channel; the result names the channels stopped.\<close>

definition router_Stop :: "Router \<Rightarrow> string list \<times> Router" where
  "router_Stop r = (map (\<lambda>(_, ch). ch_Name ch) (r_channels r), r\<lparr>r_pumps := []\<rparr>)"

section \<open>Well-formed routers\<close>

definition binding_ok :: "string \<times> Binding \<Rightarrow> bool" where
  "binding_ok kb \<longleftrightarrow> b_ConversationKey (snd kb) = fst kb \<and> b_Channel (snd kb) \<noteq> None"

definition router_ok :: "Router \<Rightarrow> bool" where
  "router_ok r \<longleftrightarrow> gomap_ok (r_bindings r) \<and> list_all binding_ok (r_bindings r) \<and> distinct (r_pumps r)"

lemma gomap_put_all:
  "list_all P m \<Longrightarrow> P (k, v) \<Longrightarrow> list_all P (gomap_put k v m)"
  by (induction m) (auto simp: gomap_put_def)

lemma gomap_del_all: "list_all P m \<Longrightarrow> list_all P (gomap_del k m)"
  by (auto simp: gomap_del_def list_all_iff AList.delete_eq)

lemma router_ok_Unbind: "router_ok r \<Longrightarrow> router_ok (Unbind k r)"
  by (simp add: router_ok_def Unbind_def gomap_del_all)

lemma router_ok_Bind:
  "router_ok r \<Longrightarrow> gomap_get (r_channels r) ch \<noteq> None \<Longrightarrow> router_ok (snd (Bind k ch target r))"
  by (auto simp: router_ok_def Bind_def Let_def binding_ok_def intro!: gomap_put_all)

lemma router_ok_clear: "router_ok r \<Longrightarrow> router_ok (snd (handleClearCommand mgr msg r))"
proof -
  assume ok: "router_ok r"
  show ?thesis
  proof (cases "m_NewSessionForChannel mgr (im_InstanceID msg) (if im_ChannelKey msg = [] then ''web'' else im_ChannelKey msg)")
    case (Inl e)
    with ok show ?thesis by (simp add: handleClearCommand_def Let_def)
  next
    case (Inr sid)
    let ?f = "\<lambda>(k, b). (k, if b_Target b = im_InstanceID msg \<and> b_ConversationKey b = im_ConversationKey msg
      then b\<lparr>b_SessionID := sid\<rparr> else b)"
    have "map (fst \<circ> ?f) m = map fst m" for m :: "(string, Binding) gomap" by (induction m) auto
    then have "distinct (map (fst \<circ> ?f) (r_bindings r))" using ok by (simp only: router_ok_def gomap_ok_def)
    moreover have "list_all binding_ok (map ?f m)" if "list_all binding_ok m" for m
      using that by (induction m) (auto simp: binding_ok_def)
    ultimately show ?thesis
      using ok Inr by (auto simp: handleClearCommand_def Let_def router_ok_def gomap_ok_def)
  qed
qed

lemma router_ok_Dispatch: "router_ok r \<Longrightarrow> router_ok (fst (snd (Dispatch mgr h msg (r, c))))"
  using router_ok_clear [of r mgr msg]
  by (auto simp: Dispatch_def handleSlashCommand_def split: prod.splits list.splits option.splits)

lemma fanOut_total:
  assumes "\<forall>b\<in>set bs. b_Channel b \<noteq> None"
  shows "\<exists>r'. fanOut deliver bs events response r =
      Some (map (\<lambda>b. Delivered (b_ConversationKey b) events response) bs, r') \<and>
    r' = fold Unbind (filter (\<lambda>k. deliver k = DeliverClosed) (map b_ConversationKey bs)) r"
  using assms by (induction bs arbitrary: r) (auto split: deliver_result.split)

lemma fold_Unbind:
  "gomap_get (r_bindings (fold Unbind ks r)) k = (if k \<in> set ks then None else gomap_get (r_bindings r) k)"
  by (induction ks arbitrary: r) (auto simp: Unbind_def)

lemma router_ok_fold_Unbind: "router_ok r \<Longrightarrow> router_ok (fold Unbind ks r)"
  by (induction ks arbitrary: r) (simp_all add: router_ok_Unbind)

definition notified :: "manager \<Rightarrow> string \<Rightarrow> Notification \<Rightarrow> Router \<Rightarrow> Binding list" where
  "notified mgr instanceID n r =
     (if nt_SessionID n \<noteq> [] then bindingsForSession mgr instanceID (nt_SessionID n) r
      else bindingsForInstance mgr instanceID r)"

lemma set_notified:
  "set (notified mgr i n r) = {b \<in> snd ` set (r_bindings r). ResolveInstanceID mgr b = i \<and>
     (nt_SessionID n = [] \<or> b_SessionID b = nt_SessionID n)}"
  by (auto simp: notified_def bindingsForSession_def bindingsForInstance_def)

lemma binding_key:
  assumes "router_ok r" "GetBinding k r = Some b"
  shows "b_ConversationKey b = k"
proof -
  have "(k, b) \<in> set (r_bindings r)" using assms(2) by (auto simp: GetBinding_def gomap_get_def dest: map_of_SomeD)
  with assms(1) show ?thesis by (auto simp: router_ok_def list_all_iff binding_ok_def)
qed

lemma binding_mem:
  assumes "router_ok r"
  shows "b \<in> snd ` set (r_bindings r) \<longleftrightarrow> GetBinding (b_ConversationKey b) r = Some b"
proof
  assume "b \<in> snd ` set (r_bindings r)"
  then obtain k where k: "(k, b) \<in> set (r_bindings r)" by auto
  with assms have "b_ConversationKey b = k" by (auto simp: router_ok_def list_all_iff binding_ok_def)
  with k assms show "GetBinding (b_ConversationKey b) r = Some b"
    by (simp add: GetBinding_def router_ok_def gomap_get_mem)
next
  assume "GetBinding (b_ConversationKey b) r = Some b"
  with assms show "b \<in> snd ` set (r_bindings r)"
    by (force simp: GetBinding_def router_ok_def gomap_get_mem [symmetric])
qed

lemma notified_channels: "router_ok r \<Longrightarrow> \<forall>b\<in>set (notified mgr i n r). b_Channel b \<noteq> None"
  by (auto simp: set_notified router_ok_def list_all_iff binding_ok_def)

lemma notified_keys:
  assumes "router_ok r"
  shows "distinct (map b_ConversationKey (notified mgr i n r))"
proof -
  have "map b_ConversationKey (map snd m) = map fst m" if "list_all binding_ok m" for m
    using that by (induction m) (auto simp: binding_ok_def)
  with assms have "distinct (map b_ConversationKey (map snd (r_bindings r)))"
    by (simp only: router_ok_def gomap_ok_def)
  then have "distinct (map b_ConversationKey (filter P (map snd (r_bindings r))))" for P
    by (rule distinct_map_filter)
  then show ?thesis by (simp only: notified_def bindingsForSession_def bindingsForInstance_def split: if_split) simp
qed

lemma processNotification_ok:
  assumes "router_ok r"
  shows "processNotification mgr deliver i n r =
    (case m_SendMeta mgr i (nt_SessionID n) (nt_Content n) of (events, response, err) \<Rightarrow>
       Some (if notified mgr i n r = [] then (False, [], r)
         else (err \<in> {Some ErrInstanceNotFound, Some ErrInstanceStopped},
           MetaTurn i (nt_SessionID n) (nt_Content n) #
           map (\<lambda>b. Delivered (b_ConversationKey b)
             ((if nt_Content n \<noteq> [] then [event ''notification'' (nt_Content n)] else []) @ events) response) (notified mgr i n r),
           fold Unbind (filter (\<lambda>k. deliver k = DeliverClosed) (map b_ConversationKey (notified mgr i n r))) r)))"
proof -
  obtain events response err where m: "m_SendMeta mgr i (nt_SessionID n) (nt_Content n) = (events, response, err)"
    by (cases "m_SendMeta mgr i (nt_SessionID n) (nt_Content n)") auto
  let ?ev = "(if nt_Content n \<noteq> [] then [event ''notification'' (nt_Content n)] else []) @ events"
  have "(if nt_Content n \<noteq> [] then event ''notification'' (nt_Content n) # events else events) = ?ev" by simp
  with fanOut_total [OF notified_channels [OF assms], where events = ?ev and deliver = deliver and response = response and r = r]
  show ?thesis unfolding processNotification_def Let_def notified_def [symmetric] m by (simp del: append.simps)
qed

lemma router_ok_processNotification:
  "router_ok r \<Longrightarrow> processNotification mgr deliver i n r = Some (stop, es, r') \<Longrightarrow> router_ok r'"
  by (auto simp: processNotification_ok router_ok_fold_Unbind split: prod.splits if_splits)

lemma process_all_ok:
  "router_ok r \<Longrightarrow> \<exists>es r'. process_all mgr deliver i ns r = Some (es, r') \<and> router_ok r'"
proof (induction ns arbitrary: r)
  case (Cons n ns)
  have "\<exists>x. processNotification mgr deliver i n r = Some x"
    by (cases "m_SendMeta mgr i (nt_SessionID n) (nt_Content n)")
      (simp only: processNotification_ok [OF Cons.prems] prod.case option.inject ex_simps simp_thms)
  then obtain stop es r1 where p: "processNotification mgr deliver i n r = Some (stop, es, r1)" by auto
  with router_ok_processNotification [OF Cons.prems p] Cons.IH [of r1] show ?case
    by (cases stop) auto
qed simp

text \<open>The routers that the operations can produce when conversations are bound under registered channels.\<close>

inductive router_reach :: "Router \<Rightarrow> bool" where
  "router_reach NewRouter"
| "router_reach r \<Longrightarrow> router_reach (Router_Register ch r)"
| "router_reach r \<Longrightarrow> router_reach (Router_Unregister name r)"
| "router_reach r \<Longrightarrow> gomap_get (r_channels r) ch \<noteq> None \<Longrightarrow> router_reach (snd (Bind k ch target r))"
| "router_reach r \<Longrightarrow> router_reach (Unbind k r)"
| "router_reach r \<Longrightarrow> router_reach (fst (snd (Dispatch mgr h msg (r, ()))))"
| "router_reach r \<Longrightarrow> drainAndDeliver mgr deliver i (q, r) = Some (es, q', r') \<Longrightarrow> router_reach r'"
| "router_reach r \<Longrightarrow> router_reach (snd (StartNotificationPump i r))"
| "router_reach r \<Longrightarrow> router_reach (snd (StopNotificationPump i r))"
| "router_reach r \<Longrightarrow> router_reach (snd (router_Stop r))"

lemma drainAndDeliver_ok:
  "router_ok r \<Longrightarrow> \<exists>es q' r'. drainAndDeliver mgr deliver i (q, r) = Some (es, q', r') \<and> router_ok r'"
  using process_all_ok [of r mgr deliver i]
  by (fastforce simp: drainAndDeliver_def split: option.split prod.split)

lemma router_reach_ok: "router_reach r \<Longrightarrow> router_ok r"
proof (induction rule: router_reach.induct)
  case (7 r mgr deliver i q es q' r')
  with drainAndDeliver_ok [of r mgr deliver i q] show ?case by auto
qed (simp_all add: router_ok_Unbind router_ok_Bind router_ok_Dispatch del: not_None_eq,
  simp_all add: router_ok_def NewRouter_def Router_Register_def Router_Unregister_def StartNotificationPump_def
    StopNotificationPump_def router_Stop_def distinct_removeAll)

section \<open>Properties\<close>

text \<open>The command handler of the program is the control plane.\<close>

definition cp_handler ::
  "('p, 'd) cfg_encoder \<Rightarrow> (string \<Rightarrow> string) \<Rightarrow> string \<times> string \<Rightarrow> 'd disk option \<Rightarrow> (cmd_error \<Rightarrow> string) \<Rightarrow>
   ('p, 'd) ControlPlane handler" where
  "cp_handler enc quote env wr errText input cp =
     (case HandleCommand enc quote env wr input cp of
        (Inl e, cp') \<Rightarrow> (Inl (errText e), cp')
      | (Inr t, cp') \<Rightarrow> (Inr t, cp'))"


text \<open>C22. A notification turn reaches exactly the conversations it is meant for, once each: those bound to
  the instance, and to the session if it names one.  Each delivery starts with the notification
  itself; afterwards exactly the bindings whose endpoint was closed are gone.\<close>

theorem notification_routing:
  assumes "router_reach r" "processNotification mgr deliver i n r = Some (stop, es, r')"
    and "nt_Content n \<noteq> []"
  shows "(\<forall>k. (\<exists>evs resp. Delivered k evs resp \<in> set es) \<longleftrightarrow>
      (\<exists>b. GetBinding k r = Some b \<and> ResolveInstanceID mgr b = i \<and>
         (nt_SessionID n = [] \<or> b_SessionID b = nt_SessionID n))) \<and>
    (\<forall>k evs resp. Delivered k evs resp \<in> set es \<longrightarrow> evs \<noteq> [] \<and> hd evs = event ''notification'' (nt_Content n)) \<and>
    (\<forall>k. GetBinding k r' = (if deliver k = DeliverClosed \<and> (\<exists>evs resp. Delivered k evs resp \<in> set es)
       then None else GetBinding k r))"
proof -
  have ok: "router_ok r" using assms(1) by (rule router_reach_ok)
  obtain events response err where m: "m_SendMeta mgr i (nt_SessionID n) (nt_Content n) = (events, response, err)"
    by (cases "m_SendMeta mgr i (nt_SessionID n) (nt_Content n)") auto
  let ?bs = "notified mgr i n r" and ?ev = "event ''notification'' (nt_Content n) # events"
  have es: "es = (if ?bs = [] then [] else MetaTurn i (nt_SessionID n) (nt_Content n) #
        map (\<lambda>b. Delivered (b_ConversationKey b) ?ev response) ?bs)"
    and r': "r' = fold Unbind (filter (\<lambda>k. deliver k = DeliverClosed) (map b_ConversationKey ?bs)) r"
    using assms(2,3) by (auto simp: processNotification_ok [OF ok, of mgr deliver i n] m split: if_splits)
  have mem: "b \<in> set ?bs \<longleftrightarrow> GetBinding (b_ConversationKey b) r = Some b \<and> ResolveInstanceID mgr b = i \<and>
      (nt_SessionID n = [] \<or> b_SessionID b = nt_SessionID n)" for b
    by (simp add: set_notified binding_mem [OF ok])
  have del: "(\<exists>evs resp. Delivered k evs resp \<in> set es) \<longleftrightarrow> k \<in> b_ConversationKey ` set ?bs" for k
    by (auto simp: es)
  have keys: "GetBinding k r = Some b \<Longrightarrow> b_ConversationKey b = k" for k b
    using binding_key [OF ok] by blast
  show ?thesis
  proof (intro conjI allI)
    fix k
    show "(\<exists>evs resp. Delivered k evs resp \<in> set es) \<longleftrightarrow> (\<exists>b. GetBinding k r = Some b \<and>
        ResolveInstanceID mgr b = i \<and> (nt_SessionID n = [] \<or> b_SessionID b = nt_SessionID n))"
      unfolding del by (rule iffI, elim imageE, use mem in blast, elim exE conjE,
          rule image_eqI [where f = b_ConversationKey], rule keys [symmetric], assumption, use mem keys in simp)
    show "GetBinding k r' = (if deliver k = DeliverClosed \<and> (\<exists>evs resp. Delivered k evs resp \<in> set es)
        then None else GetBinding k r)"
      unfolding del r' GetBinding_def fold_Unbind by auto
  next
    fix k evs resp
    show "Delivered k evs resp \<in> set es \<longrightarrow> evs \<noteq> [] \<and> hd evs = event ''notification'' (nt_Content n)"
      by (auto simp: es)
  qed
qed

text \<open>Delivering notifications never fails in a router whose conversations were bound under registered
  channels, the queue is empty afterwards, and the router stays well formed.\<close>

theorem drainAndDeliver_total:
  assumes "router_reach r"
  shows "\<exists>es q' r'. drainAndDeliver mgr deliver i (Some q, r) = Some (es, Some q', r') \<and> nq_items q' = [] \<and> router_ok r'"
proof -
  have ok: "router_ok r" using assms by (rule router_reach_ok)
  obtain ns q' where d: "Drain q = (ns, q')" by fastforce
  then have "nq_items q' = []" by (auto simp: Drain_def split: if_splits)
  with d process_all_ok [OF ok, of mgr deliver i ns] show ?thesis by (auto simp: drainAndDeliver_def)
qed

text \<open>\<open>/clear\<close> gives a new session to the conversation it came from and to no other: every other
  binding is as before, and that one, when it is bound to the instance by its identifier, has the new
  session.\<close>

theorem clear_only_own_conversation:
  assumes "router_reach r" "m_NewSessionForChannel mgr (im_InstanceID msg)
      (if im_ChannelKey msg = [] then ''web'' else im_ChannelKey msg) = Inr sid"
  shows "GetBinding k (snd (handleClearCommand mgr msg r)) =
    map_option (\<lambda>b. if k = im_ConversationKey msg \<and> b_Target b = im_InstanceID msg then b\<lparr>b_SessionID := sid\<rparr> else b)
      (GetBinding k r)"
proof -
  have ok: "list_all binding_ok (r_bindings r)" using router_reach_ok [OF assms(1)] by (simp add: router_ok_def)
  have "gomap_get (map (\<lambda>(k, b). (k, if b_Target b = im_InstanceID msg \<and> b_ConversationKey b = im_ConversationKey msg
      then b\<lparr>b_SessionID := sid\<rparr> else b)) m) k =
    map_option (\<lambda>b. if k = im_ConversationKey msg \<and> b_Target b = im_InstanceID msg then b\<lparr>b_SessionID := sid\<rparr> else b)
      (gomap_get m k)" if "list_all binding_ok m" for m
    using that by (induction m) (auto simp: gomap_get_def binding_ok_def)
  with ok assms(2) show ?thesis by (simp add: handleClearCommand_def Let_def GetBinding_def)
qed

section \<open>Witnesses\<close>

definition demo_router :: Router where
  "demo_router = snd (Bind ''tg:1'' ''tg'' ''i1'' (Router_Register \<lparr>ch_Name = ''tg'', ch_Trusted = False\<rparr> NewRouter))"

definition demo_mgr :: manager where
  "demo_mgr = \<lparr>m_GetInstance = (\<lambda>i. i = ''i1''), m_InstanceByAgentName = (\<lambda>_. ([], False)),
     m_SendMessageToSession = (\<lambda>_ _ _ _. ([], [], None)), m_SendMeta = (\<lambda>_ _ _. ([], ''ok'', None)),
     m_NewSessionForChannel = (\<lambda>_ _. Inr ''s9''), m_errText = (\<lambda>_. [])\<rparr>"

definition demo_msg :: "string \<Rightarrow> InboundMessage" where
  "demo_msg t = \<lparr>im_ConversationKey = ''tg:1'', im_InstanceID = ''i1'', im_SessionID = [], im_ChannelName = ''tg'',
     im_ChannelKey = ''tg:1'', im_Text = t, im_Files = []\<rparr>"

lemma demo_router_reach: "router_reach demo_router"
  unfolding demo_router_def
  by (intro router_reach.intros) (simp add: Router_Register_def NewRouter_def)


theorem notification_routing_witness:
  "\<exists>evs resp. Delivered ''tg:1'' evs resp \<in> set (fst (snd (the (processNotification demo_mgr (\<lambda>_. DeliverOK) ''i1''
     \<lparr>nt_Content = ''hi'', nt_Source = [], nt_SessionID = []\<rparr> demo_router))))"
proof -
  let ?n = "\<lparr>nt_Content = ''hi'', nt_Source = [], nt_SessionID = []\<rparr>"
  let ?p = "processNotification demo_mgr (\<lambda>_. DeliverOK) ''i1'' ?n demo_router"
  have b: "GetBinding ''tg:1'' demo_router = Some \<lparr>b_ConversationKey = ''tg:1'', b_ChannelName = ''tg'', b_Target = ''i1'',
      b_Channel = Some \<lparr>ch_Name = ''tg'', ch_Trusted = False\<rparr>, b_SessionID = []\<rparr>"
    by (simp add: GetBinding_def demo_router_def Bind_def Let_def Router_Register_def NewRouter_def)
  have "?p = Some (the ?p)" by code_simp
  then have "?p = Some (fst (the ?p), fst (snd (the ?p)), snd (snd (the ?p)))" by simp
  from notification_routing [OF demo_router_reach this] b
  show ?thesis by (simp add: ResolveInstanceID_def demo_mgr_def)
qed

theorem drainAndDeliver_total_witness:
  "\<exists>es q' r'. drainAndDeliver demo_mgr (\<lambda>_. DeliverOK) ''i1'' (Some NewNotificationQueue, demo_router) =
     Some (es, Some q', r')"
  using drainAndDeliver_total [OF demo_router_reach, of demo_mgr "\<lambda>_. DeliverOK" "''i1''" NewNotificationQueue]
  by blast

theorem clear_only_own_conversation_witness:
  "map_option b_SessionID (GetBinding ''tg:1'' (snd (handleClearCommand demo_mgr (demo_msg ''/clear'') demo_router))) =
     Some ''s9''"
proof -
  have "m_NewSessionForChannel demo_mgr (im_InstanceID (demo_msg ''/clear''))
      (if im_ChannelKey (demo_msg ''/clear'') = [] then ''web'' else im_ChannelKey (demo_msg ''/clear'')) = Inr ''s9''"
    by (simp add: demo_mgr_def)
  from clear_only_own_conversation [OF demo_router_reach this, of "''tg:1''"]
  show ?thesis by (simp add: demo_msg_def GetBinding_def demo_router_def Bind_def Let_def Router_Register_def NewRouter_def)
qed

end
