(* ===== verification/Manager_Registry.thy ===== *)
theory Manager_Registry
  imports Scheduler_Safety
begin

text \<open>
  The registry of the agent manager, \<open>src/internal/agent/manager.go\<close>, \<open>manager_query.go\<close> and the
  helpers of \<open>manager_helpers.go\<close>: instances, their session slots, the index of children and the
  walk over descendants.

  A worker is represented by a number, its handle; a slot holds its handle while it has a worker, and
  whether it has an inference loop.  The database is the one the scheduler works on.
\<close>

section \<open>State\<close>

datatype InstanceStatus = InstanceRunning | InstanceStopped

fun status_text :: "InstanceStatus \<Rightarrow> string" where
  "status_text InstanceRunning = statusRunning"
| "status_text InstanceStopped = statusStopped"

record sessionSlot =
  sl_channel :: string
  sl_handle :: "nat option"
  sl_loop :: bool
  sl_node :: string

record minstance =
  mi_ID :: string
  mi_Name :: string
  mi_Mode :: string
  mi_Description :: string
  mi_ParentID :: string
  mi_Status :: InstanceStatus
  mi_Model :: string
  mi_NodeID :: string
  mi_agentName :: string
  mi_sessions :: "(string, sessionSlot) gomap"
  mi_channelIndex :: "(string, string) gomap"

record 'sch Manager =
  mg_instances :: "(string, minstance) gomap"
  mg_children :: "(string, string list) gomap"
  mg_sched :: "'sch Scheduler"
  mg_workers :: "nat list"
  mg_instDirs :: "string list"
  mg_sessDirs :: "(string \<times> string) list"
  mg_configs :: "string list"
  mg_hooked :: "string list"

abbreviation mg_db :: "'sch Manager \<Rightarrow> platform_db" where
  "mg_db m \<equiv> sc_db (mg_sched m)"

abbreviation set_db :: "platform_db \<Rightarrow> 'sch Manager \<Rightarrow> 'sch Manager" where
  "set_db db m \<equiv> m\<lparr>mg_sched := (mg_sched m)\<lparr>sc_db := db\<rparr>\<rparr>"

definition IsPersistent :: "string \<Rightarrow> bool" where
  "IsPersistent mode \<longleftrightarrow> mode = ''persistent''"

definition NewManager :: "'sch Scheduler \<Rightarrow> 'sch Manager" where
  "NewManager sched = \<lparr>mg_instances = [], mg_children = [], mg_sched = sched, mg_workers = [],
     mg_instDirs = [], mg_sessDirs = [], mg_configs = [], mg_hooked = []\<rparr>"

definition getInstance :: "'sch Manager \<Rightarrow> string \<Rightarrow> minstance option" where
  "getInstance m k = gomap_get (mg_instances m) k"

definition get_children :: "(string, string list) gomap \<Rightarrow> string \<Rightarrow> string list" where
  "get_children c k = (case gomap_get c k of None \<Rightarrow> [] | Some xs \<Rightarrow> xs)"

section \<open>Slots of an instance\<close>

definition slotByChannel :: "minstance \<Rightarrow> string \<Rightarrow> sessionSlot option" where
  "slotByChannel inst channel =
     (case gomap_get (mi_channelIndex inst) channel of
        Some sid \<Rightarrow> gomap_get (mi_sessions inst) sid | None \<Rightarrow> None)"

definition addSlot :: "string \<Rightarrow> sessionSlot \<Rightarrow> minstance \<Rightarrow> minstance" where
  "addSlot sessionID slot inst =
     inst\<lparr>mi_sessions := gomap_put sessionID slot (mi_sessions inst),
          mi_channelIndex := gomap_put (sl_channel slot) sessionID (mi_channelIndex inst)\<rparr>"

definition removeSlot :: "string \<Rightarrow> minstance \<Rightarrow> minstance" where
  "removeSlot sessionID inst =
     (case gomap_get (mi_sessions inst) sessionID of
        Some slot \<Rightarrow> inst\<lparr>mi_channelIndex := gomap_del (sl_channel slot) (mi_channelIndex inst),
                          mi_sessions := gomap_del sessionID (mi_sessions inst)\<rparr>
      | None \<Rightarrow> inst)"

definition anySlot :: "minstance \<Rightarrow> sessionSlot option" where
  "anySlot inst = map_option snd (find (\<lambda>(_, slot). sl_loop slot) (mi_sessions inst))"

section \<open>Registration\<close>

definition unregisterLocked :: "string \<Rightarrow> minstance option \<Rightarrow> 'sch Manager \<Rightarrow> 'sch Manager" where
  "unregisterLocked k inst m =
     (let c = gomap_del k (mg_children m)
      in m\<lparr>mg_instances := gomap_del k (mg_instances m),
           mg_children := (case inst of
             Some i \<Rightarrow> if mi_ParentID i \<noteq> []
                       then gomap_put (mi_ParentID i) (filter (\<lambda>cid. cid \<noteq> k) (get_children c (mi_ParentID i))) c
                       else c
           | None \<Rightarrow> c)\<rparr>)"

text \<open>The two places that add an instance do so in the same way.\<close>

definition register :: "minstance \<Rightarrow> 'sch Manager \<Rightarrow> 'sch Manager" where
  "register inst m =
     m\<lparr>mg_instances := gomap_put (mi_ID inst) inst (mg_instances m),
       mg_children := (if mi_ParentID inst \<noteq> []
         then gomap_put (mi_ParentID inst) (get_children (mg_children m) (mi_ParentID inst) @ [mi_ID inst]) (mg_children m)
         else mg_children m)\<rparr>"

section \<open>Queries\<close>

text \<open>The breadth-first walk; it does not end on a cycle of children.\<close>

partial_function (option) bfs :: "(string, string list) gomap \<Rightarrow> string list \<Rightarrow> string list option" where
  "bfs c queue =
     (case queue of
        [] \<Rightarrow> Some []
      | current # rest \<Rightarrow> Option.bind (bfs c (rest @ get_children c current)) (\<lambda>result. Some (current # result)))"

definition collectDescendants :: "'sch Manager \<Rightarrow> string \<Rightarrow> string list option" where
  "collectDescendants m instanceID =
     (if getInstance m instanceID = None then Some [] else bfs (mg_children m) [instanceID])"

definition IsDescendant :: "'sch Manager \<Rightarrow> string \<Rightarrow> string \<Rightarrow> bool option" where
  "IsDescendant m targetID ancestorID = map_option (\<lambda>ds. targetID \<in> set ds) (collectDescendants m ancestorID)"

definition mgr_ListChildInstances :: "'sch Manager \<Rightarrow> string \<Rightarrow> minstance list" where
  "mgr_ListChildInstances m callerInstanceID =
     List.map_filter (getInstance m) (get_children (mg_children m) callerInstanceID)"

text \<open>\<open>ListInstances\<close> sorts by identifier, which for UUIDv7 is the order of creation.\<close>

definition mgr_ListInstances :: "'sch Manager \<Rightarrow> minstance list" where
  "mgr_ListInstances m = sort_key mi_ID (map snd (mg_instances m))"

fun by_agent_name :: "string \<Rightarrow> (string, minstance) gomap \<Rightarrow> string \<Rightarrow> string \<times> bool" where
  "by_agent_name name [] found = (found, False)"
| "by_agent_name name ((iid, inst) # rest) found =
     (if mi_agentName inst = name
      then if mi_Status inst = InstanceRunning then (iid, True) else by_agent_name name rest iid
      else by_agent_name name rest found)"

definition InstanceByAgentName :: "'sch Manager \<Rightarrow> string \<Rightarrow> string \<times> bool" where
  "InstanceByAgentName m name = by_agent_name name (mg_instances m) []"

definition SessionIDForChannel :: "'sch Manager \<Rightarrow> string \<Rightarrow> string \<Rightarrow> string" where
  "SessionIDForChannel m instanceID channelKey =
     (case getInstance m instanceID of
        Some inst \<Rightarrow> gomap_get_str (mi_channelIndex inst) channelKey | None \<Rightarrow> [])"

definition ActiveSessionID :: "'sch Manager \<Rightarrow> string \<Rightarrow> string" where
  "ActiveSessionID m instanceID =
     (case getInstance m instanceID of
        None \<Rightarrow> []
      | Some inst \<Rightarrow>
          (case gomap_get (mi_channelIndex inst) ''web'' of
             Some sid \<Rightarrow> sid
           | None \<Rightarrow> (case mi_sessions inst of [] \<Rightarrow> [] | (sid, _) # _ \<Rightarrow> sid)))"

definition instanceBySession :: "'sch Manager \<Rightarrow> string \<Rightarrow> minstance option" where
  "instanceBySession m sessionID =
     map_option snd (find (\<lambda>(_, inst). gomap_get (mi_sessions inst) sessionID \<noteq> None) (mg_instances m))"

section \<open>Names and channel keys\<close>

definition splitChannelKey :: "string \<Rightarrow> string \<times> string" where
  "splitChannelKey key = (case Cut key (CHR '':'') of Some (ct, ci) \<Rightarrow> (ct, ci) | None \<Rightarrow> (key, []))"

definition makeChannelKey :: "string \<Rightarrow> string \<Rightarrow> string" where
  "makeChannelKey channelType channelID =
     (if channelID = [] then channelType else channelType @ '':'' @ channelID)"

definition name_char :: "char \<Rightarrow> bool" where
  "name_char c \<longleftrightarrow> (let n = of_char c :: nat in n \<in> {48..57} \<or> n \<in> {65..90} \<or> n \<in> {97..122} \<or> n = 95 \<or> n = 45)"

definition validateAgentName :: "string \<Rightarrow> bool" where
  "validateAgentName name \<longleftrightarrow> name \<noteq> [] \<and> list_all name_char name"

definition extractAgentName :: "string \<Rightarrow> string" where
  "extractAgentName path =
     (case SplitByte path (CHR ''/'') of
        a # b # _ \<Rightarrow> if a = ''agents'' then b else []
      | _ \<Rightarrow> [])"

definition coalesce :: "string \<Rightarrow> string \<Rightarrow> string" where
  "coalesce override fallback = (if override \<noteq> [] then override else fallback)"

section \<open>Maps with changed values\<close>

lemma gomap_ok_map: "gomap_ok (map (\<lambda>(k, v). (k, f v)) m) \<longleftrightarrow> gomap_ok m"
proof -
  have "map fst (map (\<lambda>(k, v). (k, f v)) m) = map fst m" by (induction m) auto
  then show ?thesis by (simp only: gomap_ok_def)
qed

lemma gomap_get_map: "gomap_get (map (\<lambda>(k, v). (k, f v)) m) k = map_option f (gomap_get m k)"
  by (induction m) (auto simp: gomap_get_def)

section \<open>Slots stay consistent with the channel index\<close>

definition inst_ok :: "minstance \<Rightarrow> bool" where
  "inst_ok i \<longleftrightarrow> gomap_ok (mi_sessions i) \<and> gomap_ok (mi_channelIndex i) \<and>
     (\<forall>ch sid. gomap_get (mi_channelIndex i) ch = Some sid \<longleftrightarrow>
        (\<exists>slot. gomap_get (mi_sessions i) sid = Some slot \<and> sl_channel slot = ch))"

lemma inst_ok_channel:
  "inst_ok i \<Longrightarrow> gomap_get (mi_sessions i) sid = Some slot \<Longrightarrow> gomap_get (mi_channelIndex i) (sl_channel slot) = Some sid"
  by (auto simp: inst_ok_def)

lemma inst_ok_addSlot:
  assumes "inst_ok i" "gomap_get (mi_sessions i) sid = None" "gomap_get (mi_channelIndex i) (sl_channel slot) = None"
  shows "inst_ok (addSlot sid slot i)"
proof -
  have "\<forall>k s. gomap_get (mi_sessions i) k = Some s \<longrightarrow> sl_channel s \<noteq> sl_channel slot"
    using inst_ok_channel [OF assms(1)] assms(3) by force
  with assms show ?thesis by (auto simp: inst_ok_def addSlot_def)
qed

lemma inst_ok_removeSlot: "inst_ok i \<Longrightarrow> inst_ok (removeSlot sid i)"
proof (cases "gomap_get (mi_sessions i) sid")
  case (Some slot)
  assume ok: "inst_ok i"
  then have "gomap_get (mi_channelIndex i) (sl_channel slot) = Some sid" using Some by (rule inst_ok_channel)
  then have "\<forall>k s. gomap_get (mi_sessions i) k = Some s \<and> sl_channel s = sl_channel slot \<longrightarrow> k = sid"
    using inst_ok_channel [OF ok] by force
  with ok Some show ?thesis by (auto simp: inst_ok_def removeSlot_def)
qed (simp add: removeSlot_def)

lemma removeSlot_sessions:
  "gomap_get (mi_sessions (removeSlot sid i)) k = (if k = sid then None else gomap_get (mi_sessions i) k)"
  by (auto simp: removeSlot_def split: option.split)

lemma removeSlot_index:
  "inst_ok i \<Longrightarrow> gomap_get (mi_channelIndex (removeSlot sid i)) ch =
     (if gomap_get (mi_channelIndex i) ch = Some sid then None else gomap_get (mi_channelIndex i) ch)"
  by (auto simp: removeSlot_def inst_ok_def split: option.split)

section \<open>The tree of instances\<close>

definition lineage :: "'sch Manager \<Rightarrow> (string \<times> string) set" where
  "lineage m = {(p, k). \<exists>i. getInstance m k = Some i \<and> mi_ParentID i = p}"

definition tree_ok :: "'sch Manager \<Rightarrow> bool" where
  "tree_ok m \<longleftrightarrow> gomap_ok (mg_instances m) \<and> gomap_ok (mg_children m) \<and>
     (\<forall>k i. getInstance m k = Some i \<longrightarrow> mi_ID i = k \<and> inst_ok i) \<and>
     (\<forall>p c. c \<in> set (get_children (mg_children m) p) \<longrightarrow> (p, c) \<in> lineage m) \<and>
     get_children (mg_children m) [] = [] \<and> (\<forall>p. distinct (get_children (mg_children m) p)) \<and> acyclic (lineage m)"

definition tree_rel :: "(string, string list) gomap \<Rightarrow> (string \<times> string) set" where
  "tree_rel c = {(p, k). k \<in> set (get_children c p)}"

lemma get_children_del [simp]: "get_children (gomap_del k c) p = (if p = k then [] else get_children c p)"
  by (simp add: get_children_def)

lemma get_children_put [simp]: "get_children (gomap_put k xs c) p = (if p = k then xs else get_children c p)"
  by (simp add: get_children_def)

lemma unregister_instances:
  "getInstance (unregisterLocked k inst m) j = (if j = k then None else getInstance m j)"
  by (simp add: unregisterLocked_def Let_def getInstance_def)

lemma child_registered:
  assumes "tree_ok m" "c \<in> set (get_children (mg_children m) p)"
  obtains i where "getInstance m c = Some i" "mi_ParentID i = p"
proof -
  have "(p, c) \<in> lineage m" using assms by (simp add: tree_ok_def)
  then show ?thesis using that by (auto simp: lineage_def)
qed

lemma unregister_children:
  assumes "tree_ok m" "getInstance m k = Some inst"
  shows "set (get_children (mg_children (unregisterLocked k (Some inst) m)) p) =
    (if p = k then {} else set (get_children (mg_children m) p) - {k})"
proof -
  have "p = mi_ParentID inst" if "k \<in> set (get_children (mg_children m) p)" for p
    using child_registered [OF assms(1) that] assms(2) by force
  moreover have "k \<notin> set (get_children (mg_children m) k)"
  proof
    assume "k \<in> set (get_children (mg_children m) k)"
    then have "(k, k) \<in> lineage m" using assms(1) by (auto simp: tree_ok_def)
    with assms(1) show False by (auto simp: tree_ok_def acyclic_def)
  qed
  ultimately show ?thesis
    using assms(1) by (auto simp: unregisterLocked_def Let_def tree_ok_def split: if_splits)
qed

lemma tree_ok_unregister:
  assumes ok: "tree_ok m" and k: "getInstance m k = Some inst" 
  shows "tree_ok (unregisterLocked k (Some inst) m)"
proof -
  let ?m = "unregisterLocked k (Some inst) m"
  have sub: "lineage ?m \<subseteq> lineage m" by (auto simp: lineage_def unregister_instances split: if_splits)
  have "distinct (get_children (mg_children ?m) q)" "get_children (mg_children ?m) [] = []" for q
    using ok by (simp_all add: unregisterLocked_def Let_def tree_ok_def)
  moreover have "(q, c) \<in> lineage ?m" if "c \<in> set (get_children (mg_children ?m) q)" for q c
    using that unregister_children [OF ok k, of q] ok
    by (auto simp: tree_ok_def lineage_def unregister_instances split: if_splits)
  moreover have "acyclic (lineage ?m)" using ok sub by (auto simp: tree_ok_def intro: acyclic_subset)
  moreover have "gomap_ok (mg_instances ?m)" "gomap_ok (mg_children ?m)"
    using ok by (simp_all add: unregisterLocked_def Let_def tree_ok_def)
  ultimately show ?thesis
    using ok by (simp add: tree_ok_def unregister_instances)
qed

lemma register_instances:
  "getInstance (register inst m) j = (if j = mi_ID inst then Some inst else getInstance m j)"
  by (simp add: register_def getInstance_def)

lemma register_children:
  "get_children (mg_children (register inst m)) p =
     (if p = mi_ParentID inst \<and> p \<noteq> [] then get_children (mg_children m) p @ [mi_ID inst]
      else get_children (mg_children m) p)"
  by (simp add: register_def)

text \<open>A new instance does not close a cycle when none of its ancestors is it.\<close>

lemma tree_ok_register:
  assumes ok: "tree_ok m" and i: "inst_ok inst" and new: "getInstance m (mi_ID inst) = None"
    and anc: "(mi_ID inst, mi_ParentID inst) \<notin> (lineage m)\<^sup>*"
  shows "tree_ok (register inst m)"
proof -
  let ?m = "register inst m" and ?k = "mi_ID inst" and ?p = "mi_ParentID inst"
  have rel: "lineage ?m = insert (?p, ?k) (lineage m)"
    using new by (auto simp: lineage_def register_instances)
  have "?k \<notin> set (get_children (mg_children m) q)" for q
    using child_registered [OF ok] new by force
  then have "distinct (get_children (mg_children ?m) q)" "get_children (mg_children ?m) [] = []" for q
    using ok by (simp_all add: register_children tree_ok_def)
  moreover have "(q, c) \<in> lineage ?m" if "c \<in> set (get_children (mg_children ?m) q)" for q c
    using that ok unfolding rel by (auto simp: register_children tree_ok_def split: if_splits)
  moreover have "acyclic (lineage ?m)"
    using ok anc unfolding rel by (simp add: tree_ok_def acyclic_insert)
  moreover have "gomap_ok (mg_instances ?m)" "gomap_ok (mg_children ?m)"
    using ok by (simp_all add: register_def tree_ok_def)
  ultimately show ?thesis
    using ok i by (simp add: tree_ok_def register_instances)
qed

section \<open>The walk over descendants\<close>

lemma tree_rel_finite: "finite (tree_rel c)"
proof -
  have "\<exists>xs. (p, xs) \<in> set c \<and> k \<in> set xs" if "k \<in> set (get_children c p)" for p k
  proof (cases "map_of c p")
    case (Some xs)
    with that map_of_SomeD [OF Some] show ?thesis by (auto simp: get_children_def gomap_get_def)
  qed (use that in \<open>simp add: get_children_def gomap_get_def\<close>)
  then have "tree_rel c \<subseteq> (\<Union>e \<in> set c. {fst e} \<times> set (snd e))" by (force simp: tree_rel_def)
  then show ?thesis by (rule finite_subset) auto
qed

lemma mult1_children:
  "(mset (rest @ get_children c x), mset (x # rest)) \<in> mult1 ((tree_rel c)\<inverse>)"
  unfolding mult1_def tree_rel_def mem_Collect_eq case_prod_conv
  by (rule exI [of _ x], rule exI [of _ "mset rest"], rule exI [of _ "mset (get_children c x)"]) simp

lemma bfs_correct:
  assumes "acyclic (tree_rel c)"
  shows "\<exists>r. bfs c queue = Some r \<and> set r = (tree_rel c)\<^sup>* `` set queue"
proof -
  have "wf ((tree_rel c)\<inverse>)" using tree_rel_finite assms by (rule finite_acyclic_wf_converse)
  then have "wf (mult1 ((tree_rel c)\<inverse>))" by (rule wf_mult1)
  then have "wf (inv_image (mult1 ((tree_rel c)\<inverse>)) mset)" by (rule wf_inv_image)
  then show ?thesis
  proof (induction queue)
    case (less queue)
    show ?case
    proof (cases queue)
      case Nil
      then show ?thesis by (subst bfs.simps) simp
    next
      case (Cons x rest)
      have "(rest @ get_children c x, queue) \<in> inv_image (mult1 ((tree_rel c)\<inverse>)) mset"
        using mult1_children [of rest c x] Cons by simp
      from less.IH [OF this] obtain r where
        r: "bfs c (rest @ get_children c x) = Some r" "set r = (tree_rel c)\<^sup>* `` set (rest @ get_children c x)" by blast
      have "bfs c queue = Some (x # r)" using r(1) Cons by (subst bfs.simps) simp
      moreover have "(tree_rel c)\<^sup>* `` set queue = insert x ((tree_rel c)\<^sup>* `` set (rest @ get_children c x))"
        unfolding Cons by (auto simp: tree_rel_def intro: converse_rtrancl_into_rtrancl elim: converse_rtranclE)
      ultimately show ?thesis using r(2) by auto
    qed
  qed
qed

lemma tree_rel_sub: "tree_ok m \<Longrightarrow> tree_rel (mg_children m) \<subseteq> lineage m"
  by (auto simp: tree_ok_def tree_rel_def)

lemma tree_rel_acyclic: "tree_ok m \<Longrightarrow> acyclic (tree_rel (mg_children m))"
  using tree_rel_sub by (auto simp: tree_ok_def intro: acyclic_subset)

lemma collectDescendants_Some:
  assumes "tree_ok m" "getInstance m k = Some i"
  shows "\<exists>r. collectDescendants m k = Some r \<and> set r = (tree_rel (mg_children m))\<^sup>* `` {k}"
  using bfs_correct [OF tree_rel_acyclic [OF assms(1)], of "[k]"] assms(2) by (simp add: collectDescendants_def)

lemma tree_registered:
  assumes "tree_ok m" "(k, c) \<in> (tree_rel (mg_children m))\<^sup>*" "getInstance m k = Some i"
  shows "\<exists>j. getInstance m c = Some j"
  using assms(2)
proof (cases rule: rtranclE)
  case (step p)
  then have "c \<in> set (get_children (mg_children m) p)" by (simp add: tree_rel_def)
  from child_registered [OF assms(1) this] show ?thesis by blast
qed (use assms in simp)

text \<open>The walk over descendants always ends in a well-formed registry, and returns exactly the instance
  and everything below it in the index of children, all of it registered.\<close>

theorem collectDescendants_correct:
  assumes "tree_ok m" "getInstance m k = Some i"
  shows "\<exists>r. collectDescendants m k = Some r \<and> set r = (tree_rel (mg_children m))\<^sup>* `` {k} \<and>
    (\<forall>c. c \<in> set r \<longrightarrow> getInstance m c \<noteq> None)"
proof -
  obtain r where r: "collectDescendants m k = Some r" "set r = (tree_rel (mg_children m))\<^sup>* `` {k}"
    using collectDescendants_Some [OF assms] by blast
  moreover have "getInstance m c \<noteq> None" if "c \<in> set r" for c
    using tree_registered [OF assms(1) _ assms(2), of c] that r(2) by auto
  ultimately show ?thesis by blast
qed

section \<open>Channel keys\<close>

lemma split_make:
  assumes "CHR '':'' \<notin> set ct"
  shows "splitChannelKey (makeChannelKey ct ci) = (ct, ci)"
proof -
  have "Cut (ct @ CHR '':'' # ci) (CHR '':'') = Some (ct, ci)" "Cut ct (CHR '':'') = None"
    using assms by (simp_all add: Cut_Some Cut_None)
  then show ?thesis by (simp add: splitChannelKey_def makeChannelKey_def)
qed

text \<open>Channel keys survive the database: splitting the key built from a type without a colon and any
  identifier gives them back, and rebuilding a split key gives the key, except for a key that ends in
  its only colon.\<close>

theorem channel_key_roundtrip:
  "(CHR '':'' \<notin> set ct \<longrightarrow> splitChannelKey (makeChannelKey ct ci) = (ct, ci)) \<and>
   (case splitChannelKey key of (a, b) \<Rightarrow> (makeChannelKey a b = key) = (\<not> (\<exists>t. key = t @ '':'' \<and> CHR '':'' \<notin> set t)))"
proof
  show "CHR '':'' \<notin> set ct \<longrightarrow> splitChannelKey (makeChannelKey ct ci) = (ct, ci)" by (simp add: split_make)
  show "case splitChannelKey key of (a, b) \<Rightarrow>
      (makeChannelKey a b = key) = (\<not> (\<exists>t. key = t @ '':'' \<and> CHR '':'' \<notin> set t))"
  proof (cases "Cut key (CHR '':'')")
    case None
    then have "CHR '':'' \<notin> set key" by (simp add: Cut_None)
    with None show ?thesis by (auto simp: splitChannelKey_def makeChannelKey_def)
  next
    case (Some p)
    obtain a b where ab: "p = (a, b)" by fastforce
    with Some have k: "key = a @ CHR '':'' # b" "CHR '':'' \<notin> set a" by (simp_all add: Cut_Some)
    have "(\<exists>t. key = t @ '':'' \<and> CHR '':'' \<notin> set t) \<longleftrightarrow> b = []"
    proof
      assume "\<exists>t. key = t @ '':'' \<and> CHR '':'' \<notin> set t"
      then obtain t where "key = t @ CHR '':'' # []" "CHR '':'' \<notin> set t" by auto
      then have "Cut key (CHR '':'') = Some (t, [])" by (simp add: Cut_Some)
      with Some ab show "b = []" by simp
    qed (use k in auto)
    with Some ab k show ?thesis by (auto simp: splitChannelKey_def makeChannelKey_def)
  qed
qed

text \<open>An accepted agent name is one path component: it cannot name another directory.\<close>

lemma validateAgentName_component:
  assumes "validateAgentName name"
  shows "name \<noteq> [] \<and> CHR ''/'' \<notin> set name \<and> CHR ''.'' \<notin> set name \<and> CHR 0x00 \<notin> set name"
proof -
  have "\<not> name_char (CHR ''/'')" "\<not> name_char (CHR ''.'')" "\<not> name_char (CHR 0x00)" by code_simp+
  with assms show ?thesis by (auto simp: validateAgentName_def list_all_iff)
qed

theorem channel_key_roundtrip_witness:
  "splitChannelKey (makeChannelKey ''slack'' ''C1:t'') = (''slack'', ''C1:t'')"
  using channel_key_roundtrip [of "''slack''" "''C1:t''" "[]"] by simp

section \<open>A small tree\<close>

definition demo_inst :: "string \<Rightarrow> string \<Rightarrow> minstance" where
  "demo_inst k parent = \<lparr>mi_ID = k, mi_Name = k, mi_Mode = ''persistent'', mi_Description = [], mi_ParentID = parent,
     mi_Status = InstanceRunning, mi_Model = [], mi_NodeID = ''home'', mi_agentName = ''a'', mi_sessions = [],
     mi_channelIndex = []\<rparr>"

definition demo_tree :: "unit Manager" where
  "demo_tree = register (demo_inst ''c'' ''p'') (register (demo_inst ''p'' []) (NewManager (NewScheduler empty_pdb)))"

lemma tree_ok_New: "tree_ok (NewManager sched)"
  by (simp add: tree_ok_def NewManager_def getInstance_def get_children_def lineage_def acyclic_def)

lemma demo_inst_ok: "inst_ok (demo_inst k p)"
  by (simp add: inst_ok_def demo_inst_def)

lemma demo_tree_ok: "tree_ok demo_tree"
proof -
  let ?m0 = "NewManager (NewScheduler empty_pdb) :: unit Manager" and ?p = "demo_inst ''p'' []"
  have none: "getInstance ?m0 k = None" for k by (simp add: getInstance_def NewManager_def)
  then have e: "lineage ?m0 = {}" by (simp add: lineage_def)
  have 1: "tree_ok (register ?p ?m0)"
    by (rule tree_ok_register [OF tree_ok_New demo_inst_ok]) (simp_all add: e none demo_inst_def)
  have "lineage (register ?p ?m0) = {([], ''p'')}"
    by (auto simp: lineage_def register_instances demo_inst_def none split: if_splits)
  then have "(''c'', ''p'') \<notin> (lineage (register ?p ?m0))\<^sup>*" by (auto elim: converse_rtranclE)
  then show ?thesis
    unfolding demo_tree_def
    by (intro tree_ok_register [OF 1 demo_inst_ok])
      (simp_all add: register_instances demo_inst_def none)
qed

theorem collectDescendants_correct_witness:
  "\<exists>r. collectDescendants demo_tree ''p'' = Some r \<and> ''c'' \<in> set r"
proof -
  have p: "getInstance demo_tree ''p'' = Some (demo_inst ''p'' [])"
    by (simp add: demo_tree_def register_instances demo_inst_def)
  have "(''p'', ''c'') \<in> tree_rel (mg_children demo_tree)"
    by (simp add: tree_rel_def demo_tree_def register_children demo_inst_def)
  with collectDescendants_correct [OF demo_tree_ok p] show ?thesis by blast
qed

end
