(* ===== verification/Manager_Lifecycle.thy ===== *)
theory Manager_Lifecycle
  imports Manager_Registry
begin

text \<open>
  The life of agent instances, \<open>src/internal/agent/manager_lifecycle.go\<close> and
  \<open>manager_worker.go\<close>: creating, stopping and deleting instances with everything below them, the
  shutdown of the manager, and the death of a worker.

  What the rest of the program contributes to a start is the record \<open>start_env\<close>: whether the
  directories could be made, the tools computed, the model resolved, the worker spawned (and its
  handle) and the loop created.  The operations run one after another; a platform database and a
  scheduler are always present.  The lifecycle hook, which starts and stops the channels of an
  instance, is the list \<open>mg_hooked\<close> of the instances it was last told are running.
\<close>

section \<open>Parts of a start\<close>

datatype mgr_err =
    InvalidName | InvalidMode string | LoadFailed | DirsFailed | DBFailed pdb_error | ToolsFailed
  | ModelFailed | SpawnFailed | LoopFailed | NotFound | Stopped | NotStopped | TooManySessions
  | CircularCall | NoSuchSession | NoLoop

record start_env =
  sv_now :: gotime
  sv_dirsOK :: bool
  sv_toolsOK :: bool
  sv_model :: "(string \<times> bool) option"
  sv_spawn :: "nat option"
  sv_loopOK :: bool
  sv_cluster :: bool

record agent_cfg =
  ac_Name :: string
  ac_Description :: string

definition add_new :: "'a \<Rightarrow> 'a list \<Rightarrow> 'a list" where
  "add_new x xs = (if x \<in> set xs then xs else x # xs)"

definition hook_start :: "string \<Rightarrow> 'sch Manager \<Rightarrow> 'sch Manager" where
  "hook_start k m = m\<lparr>mg_hooked := add_new k (mg_hooked m)\<rparr>"

definition hook_stop :: "string \<Rightarrow> 'sch Manager \<Rightarrow> 'sch Manager" where
  "hook_stop k m = m\<lparr>mg_hooked := removeAll k (mg_hooked m)\<rparr>"

definition setInstanceStatus :: "gotime \<Rightarrow> string \<Rightarrow> InstanceStatus \<Rightarrow> 'sch Manager \<Rightarrow> 'sch Manager" where
  "setInstanceStatus now k status m = set_db (try_db (UpdateInstanceStatus now k (status_text status)) (mg_db m)) m"

definition prepareInstanceDirs ::
  "bool \<Rightarrow> string \<Rightarrow> string \<Rightarrow> 'sch Manager \<Rightarrow> (bool \<times> 'sch Manager) option" where
  "prepareInstanceDirs ok instanceID sessionID m =
     (if \<not> ok then None
      else Some (instanceID \<notin> set (mg_instDirs m),
        m\<lparr>mg_instDirs := add_new instanceID (mg_instDirs m),
          mg_configs := (if instanceID \<notin> set (mg_instDirs m) then add_new instanceID (mg_configs m) else mg_configs m),
          mg_sessDirs := add_new (instanceID, sessionID) (mg_sessDirs m)\<rparr>))"

definition remove_instDir :: "string \<Rightarrow> 'sch Manager \<Rightarrow> 'sch Manager" where
  "remove_instDir k m =
     m\<lparr>mg_instDirs := removeAll k (mg_instDirs m), mg_sessDirs := filter (\<lambda>(i, _). i \<noteq> k) (mg_sessDirs m)\<rparr>"

definition makeCleanup :: "string \<Rightarrow> string \<Rightarrow> bool \<Rightarrow> 'sch Manager \<Rightarrow> 'sch Manager" where
  "makeCleanup instanceID sessionID dirIsNew m =
     (let m1 = m\<lparr>mg_sessDirs := removeAll (instanceID, sessionID) (mg_sessDirs m)\<rparr>
      in if dirIsNew
         then (remove_instDir instanceID m1)\<lparr>mg_configs := removeAll instanceID (mg_configs m1)\<rparr>
         else m1)"

definition ignore_dup :: "pdb_error + platform_db \<Rightarrow> platform_db \<Rightarrow> pdb_error + platform_db" where
  "ignore_dup r db = (if r = Inl PErrDuplicate then Inr db else r)"

definition new_session_row :: "string \<Rightarrow> string \<Rightarrow> string \<Rightarrow> string \<Rightarrow> string \<Rightarrow> string \<Rightarrow> Session" where
  "new_session_row sessionID instanceID agentName mode chType chID =
     \<lparr>se_ID = sessionID, se_InstanceID = instanceID, se_AgentName = agentName, se_Mode = mode, se_ParentID = [],
      se_SubscriptionID = [], se_ChannelType = chType, se_ChannelID = chID, se_Status = [], se_CreatedAt = 0,
      se_StoppedAt = None\<rparr>"

definition registerInstanceInDB ::
  "gotime \<Rightarrow> string \<Rightarrow> string \<Rightarrow> string \<Rightarrow> string \<Rightarrow> string \<Rightarrow> string \<Rightarrow> string \<Rightarrow> string \<Rightarrow>
   platform_db \<Rightarrow> pdb_error option \<times> platform_db" where
  "registerInstanceInDB now instanceID sessionID chType chID agentName mode parentID nodeID db =
     (case ignore_dup (CreateInstance now \<lparr>in_ID = instanceID, in_AgentName = agentName, in_Mode = mode,
             in_ParentID = parentID, in_NodeID = nodeID, in_Status = [], in_CreatedAt = 0, in_StoppedAt = None\<rparr> db) db of
        Inl e \<Rightarrow> (Some e, db)
      | Inr db1 \<Rightarrow>
          (case ignore_dup (CreateSession now (new_session_row sessionID instanceID agentName mode chType chID) db1) db1 of
             Inl e \<Rightarrow> (Some e, db1)
           | Inr db2 \<Rightarrow> (None, db2)))"

text \<open>\<open>createInferenceLoop\<close>: no loop without a provider.\<close>

definition createInferenceLoop :: "start_env \<Rightarrow> bool \<Rightarrow> bool option" where
  "createInferenceLoop env hasProvider =
     (if \<not> hasProvider then Some False else if sv_loopOK env then Some True else None)"

text \<open>\<open>spawnWorker\<close>: on another node when one is named and the cluster is up.\<close>

definition spawnWorker :: "start_env \<Rightarrow> string \<Rightarrow> (nat \<times> string) option" where
  "spawnWorker env nodeID =
     map_option (\<lambda>h. (h, if nodeID \<noteq> [] \<and> nodeID \<noteq> ''home'' \<and> sv_cluster env then nodeID else ''home''))
       (sv_spawn env)"

definition buildInstance ::
  "string \<Rightarrow> string \<Rightarrow> string \<Rightarrow> agent_cfg \<Rightarrow> string \<Rightarrow> string \<Rightarrow> string \<Rightarrow> string \<Rightarrow> string \<Rightarrow> string \<Rightarrow>
   nat \<Rightarrow> string \<Rightarrow> bool \<Rightarrow> minstance" where
  "buildInstance instanceID sessionID channelKey cfg mode parentID nodeID model displayName displayDesc handle node loop =
     \<lparr>mi_ID = instanceID, mi_Name = coalesce displayName (ac_Name cfg), mi_Mode = mode,
      mi_Description = coalesce displayDesc (ac_Description cfg), mi_ParentID = parentID,
      mi_Status = InstanceRunning, mi_Model = model, mi_NodeID = nodeID, mi_agentName = ac_Name cfg,
      mi_sessions = [(sessionID, \<lparr>sl_channel = channelKey, sl_handle = Some handle, sl_loop = loop, sl_node = node\<rparr>)],
      mi_channelIndex = [(channelKey, sessionID)]\<rparr>"

definition registerAndStartInstance :: "minstance \<Rightarrow> 'sch Manager \<Rightarrow> 'sch Manager" where
  "registerAndStartInstance inst m = hook_start (mi_ID inst) (register inst m)"

definition startInstance ::
  "start_env \<Rightarrow> string \<Rightarrow> string \<Rightarrow> string \<Rightarrow> agent_cfg \<Rightarrow> string \<Rightarrow> string \<Rightarrow> string \<Rightarrow> string \<Rightarrow> string \<Rightarrow>
   'sch Manager \<Rightarrow> (mgr_err + string) \<times> 'sch Manager" where
  "startInstance env instanceID sessionID channelKey cfg parentID mode nodeID0 displayName displayDesc m =
     (case prepareInstanceDirs (sv_dirsOK env) instanceID sessionID m of
        None \<Rightarrow> (Inl DirsFailed, m)
      | Some (dirIsNew, m1) \<Rightarrow>
          let nodeID = (if nodeID0 = [] then ''home'' else nodeID0) in
          (case splitChannelKey channelKey of (chType, chID) \<Rightarrow>
             case registerInstanceInDB (sv_now env) instanceID sessionID chType chID (ac_Name cfg) mode parentID nodeID
                    (mg_db m1) of
               (Some e, db) \<Rightarrow> (Inl (DBFailed e), set_db db m1)
             | (None, db) \<Rightarrow>
                 let m2 = set_db db m1 in
                 if \<not> sv_toolsOK env then (Inl ToolsFailed, m2)
                 else (case sv_model env of
                         None \<Rightarrow> (Inl ModelFailed, m2)
                       | Some (model, hasProvider) \<Rightarrow>
                           (case spawnWorker env nodeID of
                              None \<Rightarrow> (Inl SpawnFailed, makeCleanup instanceID sessionID dirIsNew m2)
                            | Some (handle, node) \<Rightarrow>
                                (case createInferenceLoop env hasProvider of
                                   None \<Rightarrow> (Inl LoopFailed, makeCleanup instanceID sessionID dirIsNew m2)
                                 | Some loop \<Rightarrow>
                                     (Inr instanceID,
                                      registerAndStartInstance
                                        (buildInstance instanceID sessionID channelKey cfg mode parentID nodeID model
                                           displayName displayDesc handle node loop)
                                        (m2\<lparr>mg_workers := handle # mg_workers m2\<rparr>)))))))"

definition initial_channel :: "string \<Rightarrow> string" where
  "initial_channel parentID = (if parentID \<noteq> [] then ''agent:'' @ parentID else ''web'')"

definition mgr_CreateInstance ::
  "start_env \<Rightarrow> (string \<Rightarrow> agent_cfg option) \<Rightarrow> string \<Rightarrow> string \<Rightarrow> string \<Rightarrow> string \<Rightarrow> string \<Rightarrow> string \<Rightarrow> string \<Rightarrow> string \<Rightarrow>
   'sch Manager \<Rightarrow> (mgr_err + string) \<times> 'sch Manager" where
  "mgr_CreateInstance env LoadAgentDir instanceID sessionID name parentID mode nodeID displayName displayDesc m =
     (if \<not> validateAgentName name then (Inl InvalidName, m)
      else if mode \<notin> {''persistent'', ''ephemeral''} then (Inl (InvalidMode mode), m)
      else case LoadAgentDir name of
             None \<Rightarrow> (Inl LoadFailed, m)
           | Some cfg \<Rightarrow> startInstance env instanceID sessionID (initial_channel parentID) cfg parentID mode nodeID
                           displayName displayDesc m)"

section \<open>Stopping\<close>

definition detachAllSlots :: "InstanceStatus option \<Rightarrow> minstance \<Rightarrow> nat list \<times> minstance" where
  "detachAllSlots status inst =
     (List.map_filter (\<lambda>(_, slot). sl_handle slot) (mi_sessions inst),
      inst\<lparr>mi_sessions := map (\<lambda>(sid, slot). (sid, slot\<lparr>sl_handle := None, sl_loop := False\<rparr>)) (mi_sessions inst),
           mi_Status := (case status of Some st \<Rightarrow> st | None \<Rightarrow> mi_Status inst)\<rparr>)"

definition stop_workers :: "nat list \<Rightarrow> 'sch Manager \<Rightarrow> 'sch Manager" where
  "stop_workers hs m = m\<lparr>mg_workers := filter (\<lambda>h. h \<notin> set hs) (mg_workers m)\<rparr>"

definition pause_subs :: "string \<Rightarrow> 'sch Manager \<Rightarrow> 'sch Manager" where
  "pause_subs k m = m\<lparr>mg_sched := sched_PauseInstance True k (mg_sched m)\<rparr>"

definition softStop :: "gotime \<Rightarrow> string \<Rightarrow> 'sch Manager \<Rightarrow> 'sch Manager" where
  "softStop now k m0 =
     (let m = hook_stop k m0 in
      case getInstance m k of
        None \<Rightarrow> m
      | Some inst \<Rightarrow>
          (case detachAllSlots (Some InstanceStopped) inst of
             (handles, inst') \<Rightarrow>
               pause_subs k (setInstanceStatus now k InstanceStopped
                 (stop_workers handles (m\<lparr>mg_instances := gomap_put k inst' (mg_instances m)\<rparr>)))))"

definition removeInstance :: "string \<Rightarrow> 'sch Manager \<Rightarrow> 'sch Manager" where
  "removeInstance k m0 =
     (let m = hook_stop k m0 in
      case getInstance m k of
        None \<Rightarrow> unregisterLocked k None m
      | Some inst \<Rightarrow>
          (case detachAllSlots None inst of
             (handles, inst') \<Rightarrow>
               let m1 = stop_workers handles (unregisterLocked k (Some inst') m)
               in if IsPersistent (mi_Mode inst) then m1 else remove_instDir k m1))"

definition stop_one :: "gotime \<Rightarrow> string \<Rightarrow> 'sch Manager \<Rightarrow> 'sch Manager" where
  "stop_one now k m =
     (case getInstance m k of
        None \<Rightarrow> m
      | Some inst \<Rightarrow>
          if mi_Status inst = InstanceStopped then m
          else if IsPersistent (mi_Mode inst) then softStop now k m else removeInstance k m)"

definition StopInstance ::
  "gotime \<Rightarrow> string \<Rightarrow> 'sch Manager \<Rightarrow> ((mgr_err + minstance option) \<times> 'sch Manager) option" where
  "StopInstance now k m =
     Option.bind (collectDescendants m k) (\<lambda>toStop.
       if toStop = [] then Some (Inl NotFound, m)
       else if (case getInstance m k of Some i \<Rightarrow> mi_Status i = InstanceStopped | None \<Rightarrow> False)
       then Some (Inr (getInstance m k), m)
       else let m' = fold (stop_one now) (rev toStop) m in Some (Inr (getInstance m' k), m'))"

section \<open>Deleting\<close>

text \<open>The scheduler entries, the directory, the configuration file and the row of an instance.\<close>

definition erase :: "string \<Rightarrow> 'sch Manager \<Rightarrow> 'sch Manager" where
  "erase k m =
     (let m1 = remove_instDir k (pause_subs k m);
          m2 = m1\<lparr>mg_configs := removeAll k (mg_configs m1)\<rparr>
      in set_db (try_db (DeleteInstance k) (mg_db m2)) m2)"

definition delete_one :: "string \<Rightarrow> 'sch Manager \<Rightarrow> 'sch Manager" where
  "delete_one k m =
     (case getInstance m k of
        None \<Rightarrow> m
      | Some inst \<Rightarrow>
          erase k (if mi_Status inst = InstanceStopped then unregisterLocked k (Some inst) m else removeInstance k m))"

definition mgr_DeleteInstance :: "string \<Rightarrow> 'sch Manager \<Rightarrow> (mgr_err option \<times> 'sch Manager) option" where
  "mgr_DeleteInstance k m =
     Option.bind (collectDescendants m k) (\<lambda>toStop.
       if toStop = [] then Some (Some NotFound, m) else Some (None, fold delete_one (rev toStop) m))"

text \<open>\<open>Shutdown\<close>: the order is that of the map of instances, each with what is below it, first
  occurrences only, reversed.\<close>

fun shutdown_order :: "'sch Manager \<Rightarrow> string list \<Rightarrow> string list \<Rightarrow> string list option" where
  "shutdown_order m [] ordered = Some ordered"
| "shutdown_order m (k # ks) ordered =
     Option.bind (collectDescendants m k) (\<lambda>ds.
       shutdown_order m ks (fold (\<lambda>d acc. if d \<in> set acc then acc else acc @ [d]) ds ordered))"

definition shutdown_one :: "string \<Rightarrow> 'sch Manager \<Rightarrow> 'sch Manager" where
  "shutdown_one k m =
     (case getInstance m k of
        Some inst \<Rightarrow> if mi_Status inst = InstanceStopped then unregisterLocked k (Some inst) m else removeInstance k m
      | None \<Rightarrow> removeInstance k m)"

definition mgr_Shutdown :: "'sch Manager \<Rightarrow> 'sch Manager option" where
  "mgr_Shutdown m =
     map_option (\<lambda>ordered. fold shutdown_one (rev ordered) m) (shutdown_order m (map fst (mg_instances m)) [])"

section \<open>Workers that die\<close>

definition death_one :: "gotime \<Rightarrow> string \<Rightarrow> 'sch Manager \<Rightarrow> 'sch Manager" where
  "death_one now k m0 =
     (case getInstance m0 k of
        None \<Rightarrow> m0
      | Some inst \<Rightarrow>
          if mi_Status inst = InstanceStopped then m0
          else
            let m = hook_stop k m0 in
            if IsPersistent (mi_Mode inst)
            then (case detachAllSlots (Some InstanceStopped) inst of
                    (_, inst') \<Rightarrow>
                      setInstanceStatus now k InstanceStopped (m\<lparr>mg_instances := gomap_put k inst' (mg_instances m)\<rparr>))
            else (case detachAllSlots None inst of
                    (_, inst') \<Rightarrow> remove_instDir k (unregisterLocked k (Some inst') m)))"

definition handleInstanceDeath :: "gotime \<Rightarrow> string \<Rightarrow> 'sch Manager \<Rightarrow> 'sch Manager option" where
  "handleInstanceDeath now k m =
     map_option (\<lambda>ds. fold (death_one now) (rev ds) m) (collectDescendants m k)"

text \<open>The worker \<open>handle\<close> of a session has exited.\<close>

definition watchSlotWorker :: "gotime \<Rightarrow> string \<Rightarrow> string \<Rightarrow> nat \<Rightarrow> 'sch Manager \<Rightarrow> 'sch Manager option" where
  "watchSlotWorker now instanceID sessionID handle m0 =
     (let m = stop_workers [handle] m0 in
      case getInstance m instanceID of
        None \<Rightarrow> Some m
      | Some inst \<Rightarrow>
          if mi_Status inst = InstanceStopped \<or>
             (case gomap_get (mi_sessions inst) sessionID of None \<Rightarrow> True | Some slot \<Rightarrow> sl_handle slot \<noteq> Some handle)
          then Some m
          else let inst' = removeSlot sessionID inst;
                   m1 = m\<lparr>mg_instances := gomap_put instanceID inst' (mg_instances m)\<rparr>
               in if mi_sessions inst' = [] then handleInstanceDeath now instanceID m1 else Some m1)"

section \<open>What the parts leave alone\<close>

named_theorems frame_simps \<open>registry, workers and scheduler after a step that does not concern them\<close>

lemma registry_frame [simp, frame_simps]:
  "mg_instances (hook_start k m) = mg_instances m" "mg_children (hook_start k m) = mg_children m"
  "mg_instances (hook_stop k m) = mg_instances m" "mg_children (hook_stop k m) = mg_children m"
  "mg_instances (setInstanceStatus now k st m) = mg_instances m" "mg_children (setInstanceStatus now k st m) = mg_children m"
  "mg_instances (stop_workers hs m) = mg_instances m" "mg_children (stop_workers hs m) = mg_children m"
  "mg_instances (pause_subs k m) = mg_instances m" "mg_children (pause_subs k m) = mg_children m"
  "mg_instances (remove_instDir k m) = mg_instances m" "mg_children (remove_instDir k m) = mg_children m"
  "mg_instances (makeCleanup k sid new m) = mg_instances m" "mg_children (makeCleanup k sid new m) = mg_children m"
  by (simp_all add: hook_start_def hook_stop_def setInstanceStatus_def stop_workers_def pause_subs_def
      remove_instDir_def makeCleanup_def Let_def)

lemma workers_frame [simp, frame_simps]:
  "mg_workers (hook_start k m) = mg_workers m" "mg_workers (hook_stop k m) = mg_workers m"
  "mg_workers (setInstanceStatus now k st m) = mg_workers m" "mg_workers (pause_subs k m) = mg_workers m"
  "mg_workers (remove_instDir k m) = mg_workers m" "mg_workers (makeCleanup k sid new m) = mg_workers m"
  "mg_workers (unregisterLocked k i m) = mg_workers m" "mg_workers (register inst m) = mg_workers m"
  "mg_workers (stop_workers hs m) = filter (\<lambda>h. h \<notin> set hs) (mg_workers m)"
  by (simp_all add: hook_start_def hook_stop_def setInstanceStatus_def stop_workers_def pause_subs_def
      remove_instDir_def makeCleanup_def unregisterLocked_def register_def Let_def)

lemma sched_frame [simp, frame_simps]:
  "mg_sched (hook_start k m) = mg_sched m" "mg_sched (hook_stop k m) = mg_sched m"
  "mg_sched (stop_workers hs m) = mg_sched m" "mg_sched (remove_instDir k m) = mg_sched m"
  "mg_sched (makeCleanup k sid new m) = mg_sched m" "mg_sched (unregisterLocked k i m) = mg_sched m"
  "mg_sched (register inst m) = mg_sched m"
  "sc_heap (mg_sched (setInstanceStatus now k st m)) = sc_heap (mg_sched m)"
  by (simp_all add: hook_start_def hook_stop_def setInstanceStatus_def stop_workers_def
      remove_instDir_def makeCleanup_def unregisterLocked_def register_def Let_def)

lemma getInstance_frame [simp]:
  "getInstance (hook_start k m) j = getInstance m j" "getInstance (hook_stop k m) j = getInstance m j"
  "getInstance (setInstanceStatus now k st m) j = getInstance m j" "getInstance (stop_workers hs m) j = getInstance m j"
  "getInstance (pause_subs k m) j = getInstance m j" "getInstance (remove_instDir k m) j = getInstance m j"
  "getInstance (makeCleanup k sid new m) j = getInstance m j"
  by (simp_all add: getInstance_def)

lemma tree_ok_cong:
  "mg_instances m' = mg_instances m \<Longrightarrow> mg_children m' = mg_children m \<Longrightarrow> tree_ok m' = tree_ok m"
  by (simp add: tree_ok_def getInstance_def lineage_def)

lemma tree_ok_frame [simp]:
  "tree_ok (hook_start k m) = tree_ok m" "tree_ok (hook_stop k m) = tree_ok m"
  "tree_ok (setInstanceStatus now k st m) = tree_ok m" "tree_ok (stop_workers hs m) = tree_ok m"
  "tree_ok (pause_subs k m) = tree_ok m" "tree_ok (remove_instDir k m) = tree_ok m"
  "tree_ok (makeCleanup k sid new m) = tree_ok m"
  by (rule tree_ok_cong; simp)+

section \<open>Detached instances\<close>

definition inst_handles :: "minstance \<Rightarrow> nat set" where
  "inst_handles i = {h. \<exists>sid slot. (sid, slot) \<in> set (mi_sessions i) \<and> sl_handle slot = Some h}"

lemma detach_handles: "set (fst (detachAllSlots st i)) = inst_handles i"
  by (force simp: detachAllSlots_def inst_handles_def List.map_filter_def)

lemma detach_fields [simp]:
  "mi_ID (snd (detachAllSlots st i)) = mi_ID i" "mi_ParentID (snd (detachAllSlots st i)) = mi_ParentID i"
  "mi_Mode (snd (detachAllSlots st i)) = mi_Mode i"
  "mi_Status (snd (detachAllSlots (Some s) i)) = s" "mi_channelIndex (snd (detachAllSlots st i)) = mi_channelIndex i"
  by (simp_all add: detachAllSlots_def)

lemma detach_sessions:
  "gomap_get (mi_sessions (snd (detachAllSlots st i))) sid =
     map_option (\<lambda>slot. slot\<lparr>sl_handle := None, sl_loop := False\<rparr>) (gomap_get (mi_sessions i) sid)"
  by (simp add: detachAllSlots_def gomap_get_map)

lemma detached_no_handles: "inst_handles (snd (detachAllSlots st i)) = {}"
  by (auto simp: inst_handles_def detachAllSlots_def)

lemma inst_ok_detach:
  assumes "inst_ok i"
  shows "inst_ok (snd (detachAllSlots st i))"
proof -
  have "gomap_ok (mi_sessions (snd (detachAllSlots st i)))"
    using assms by (simp add: inst_ok_def gomap_ok_map detachAllSlots_def)
  moreover have "(\<exists>slot. gomap_get (mi_sessions (snd (detachAllSlots st i))) sid = Some slot \<and> sl_channel slot = ch) \<longleftrightarrow>
      (\<exists>slot. gomap_get (mi_sessions i) sid = Some slot \<and> sl_channel slot = ch)" for sid ch
    by (auto simp: detach_sessions)
  ultimately show ?thesis using assms by (simp only: inst_ok_def detach_fields simp_thms)
qed

lemma tree_ok_put:
  assumes ok: "tree_ok m" and k: "getInstance m k = Some i"
    and i': "inst_ok i'" "mi_ID i' = k" "mi_ParentID i' = mi_ParentID i"
  shows "tree_ok (m\<lparr>mg_instances := gomap_put k i' (mg_instances m)\<rparr>)"
proof -
  let ?m = "m\<lparr>mg_instances := gomap_put k i' (mg_instances m)\<rparr>"
  have g: "getInstance ?m j = (if j = k then Some i' else getInstance m j)" for j by (simp add: getInstance_def)
  have "lineage ?m = lineage m" using k i'(3) by (auto simp: lineage_def g split: if_splits)
  with ok i' show ?thesis by (simp add: tree_ok_def g)
qed

lemma unregister_same_parent:
  "mi_ParentID i = mi_ParentID j \<Longrightarrow> unregisterLocked k (Some i) m = unregisterLocked k (Some j) m"
  by (simp add: unregisterLocked_def Let_def)

lemma tree_ok_unregister':
  "tree_ok m \<Longrightarrow> getInstance m k = Some i \<Longrightarrow> mi_ParentID j = mi_ParentID i \<Longrightarrow> tree_ok (unregisterLocked k (Some j) m)"
  using tree_ok_unregister unregister_same_parent by metis

section \<open>One instance\<close>

text \<open>What is left of an instance after it was stopped, and after its workers died.\<close>

definition stop_result :: "minstance option \<Rightarrow> minstance option" where
  "stop_result r = (case r of
     None \<Rightarrow> None
   | Some i \<Rightarrow> if mi_Status i = InstanceStopped then Some i
               else if IsPersistent (mi_Mode i) then Some (snd (detachAllSlots (Some InstanceStopped) i)) else None)"

lemma stop_result_idem [simp]: "stop_result (stop_result r) = stop_result r"
  by (simp add: stop_result_def split: option.split)

lemma softStop_get:
  "getInstance (softStop now k m) j = (if j = k then map_option (\<lambda>i. snd (detachAllSlots (Some InstanceStopped) i)) (getInstance m k)
     else getInstance m j)"
  by (cases "getInstance m k") (auto simp: softStop_def Let_def getInstance_def split: prod.split)

lemma removeInstance_get:
  "getInstance (removeInstance k m) j = (if j = k then None else getInstance m j)"
  by (cases "getInstance m k") (simp_all add: removeInstance_def Let_def unregister_instances split: prod.split)

lemma stop_one_get:
  "getInstance (stop_one now k m) j = (if j = k then stop_result (getInstance m k) else getInstance m j)"
  by (cases "getInstance m k") (simp_all add: stop_one_def stop_result_def softStop_get removeInstance_get)

lemma tree_ok_softStop:
  assumes ok: "tree_ok m"
  shows "tree_ok (softStop now k m)"
proof (cases "getInstance m k")
  case None
  with ok show ?thesis by (simp add: softStop_def)
next
  case (Some i)
  obtain hs i' where d: "detachAllSlots (Some InstanceStopped) i = (hs, i')" by fastforce
  from ok Some have i: "inst_ok i" "mi_ID i = k" by (auto simp: tree_ok_def)
  then have i': "inst_ok i'" "mi_ID i' = k" "mi_ParentID i' = mi_ParentID i"
    using inst_ok_detach [OF i(1), of "Some InstanceStopped"] detach_fields(1,2) [of "Some InstanceStopped" i] d by simp_all
  have "tree_ok ((hook_stop k m)\<lparr>mg_instances := gomap_put k i' (mg_instances (hook_stop k m))\<rparr>)"
    by (rule tree_ok_put [where i = i]) (use ok Some i' in simp_all)
  then show ?thesis using Some d by (simp add: softStop_def)
qed

lemma tree_ok_removeInstance:
  assumes ok: "tree_ok m" and k: "getInstance m k = Some i"
  shows "tree_ok (removeInstance k m)"
proof -
  obtain hs i' where d: "detachAllSlots None i = (hs, i')" by fastforce
  then have "mi_ParentID i' = mi_ParentID i" using detach_fields(2) [of None i] by simp
  then have "tree_ok (unregisterLocked k (Some i') (hook_stop k m))"
    by (intro tree_ok_unregister') (use ok k in simp_all)
  then show ?thesis using k d by (simp add: removeInstance_def Let_def)
qed

lemma tree_ok_stop_one: "tree_ok m \<Longrightarrow> tree_ok (stop_one now k m)"
  by (auto simp: stop_one_def tree_ok_softStop tree_ok_removeInstance split: option.split)

lemma fold_stop_one:
  assumes "tree_ok m"
  shows "tree_ok (fold (stop_one now) ks m)"
    and "getInstance (fold (stop_one now) ks m) j = (if j \<in> set ks then stop_result (getInstance m j) else getInstance m j)"
  using assms
proof (induction ks arbitrary: m)
  case (Cons k ks)
  {
    case 1
    show ?case using Cons(1) [OF tree_ok_stop_one [OF 1]] by simp
  next
    case 2
    show ?case using Cons(2) [OF tree_ok_stop_one [OF 2], of now k] by (simp add: stop_one_get)
  }
qed simp_all

text \<open>The workers that stopping an instance ends, and the entries of the scheduler it takes away.\<close>

definition stop_handles :: "minstance option \<Rightarrow> nat set" where
  "stop_handles r = (case r of None \<Rightarrow> {} | Some i \<Rightarrow> if mi_Status i = InstanceStopped then {} else inst_handles i)"

definition unscheduled :: "minstance option \<Rightarrow> bool" where
  "unscheduled r \<longleftrightarrow> (case r of None \<Rightarrow> False | Some i \<Rightarrow> mi_Status i \<noteq> InstanceStopped \<and> IsPersistent (mi_Mode i))"

lemma stop_result_handles [simp]: "stop_handles (stop_result r) = {}" "\<not> unscheduled (stop_result r)"
  by (simp_all add: stop_handles_def stop_result_def unscheduled_def split: option.split)

lemma detached_handles: "detachAllSlots st i = (hs, i') \<Longrightarrow> set hs = inst_handles i"
  using detach_handles [of st i] by simp

lemma softStop_workers:
  "set (mg_workers (softStop now k m)) =
     set (mg_workers m) - (case getInstance m k of None \<Rightarrow> {} | Some i \<Rightarrow> inst_handles i)"
  by (auto simp: softStop_def Let_def detached_handles split: option.split prod.split)

lemma removeInstance_workers:
  "set (mg_workers (removeInstance k m)) =
     set (mg_workers m) - (case getInstance m k of None \<Rightarrow> {} | Some i \<Rightarrow> inst_handles i)"
  by (auto simp: removeInstance_def Let_def detached_handles split: option.split prod.split)

lemma stop_one_workers:
  "set (mg_workers (stop_one now k m)) = set (mg_workers m) - stop_handles (getInstance m k)"
  by (cases "getInstance m k") (simp_all add: stop_one_def stop_handles_def softStop_workers removeInstance_workers)

lemma set_heap_Init: "set (heap_Init key h) = set h"
  by (metis mset_eq_setD mset_heap_Init)

lemma pause_subs_heap:
  "set (sc_heap (mg_sched (pause_subs k m))) = {e \<in> set (sc_heap (mg_sched m)). entry_inst e \<noteq> k}"
  by (simp add: pause_subs_def sched_PauseInstance_def set_heap_Init)

lemma stop_one_heap:
  "set (sc_heap (mg_sched (stop_one now k m))) =
     {e \<in> set (sc_heap (mg_sched m)). \<not> (entry_inst e = k \<and> unscheduled (getInstance m k))}"
proof (cases "getInstance m k")
  case None
  then show ?thesis by (simp add: stop_one_def unscheduled_def)
next
  case (Some i)
  have "sc_heap (mg_sched (removeInstance k m)) = sc_heap (mg_sched m)"
    using Some by (simp add: removeInstance_def Let_def split: prod.split)
  moreover have "set (sc_heap (mg_sched (softStop now k m))) = {e \<in> set (sc_heap (mg_sched m)). entry_inst e \<noteq> k}"
    using Some by (simp add: softStop_def Let_def pause_subs_heap split: prod.split)
  ultimately show ?thesis using Some by (auto simp: stop_one_def unscheduled_def)
qed

lemma fold_stop_one_effects:
  "set (mg_workers (fold (stop_one now) ks m)) = set (mg_workers m) - (\<Union>k\<in>set ks. stop_handles (getInstance m k))"
  "set (sc_heap (mg_sched (fold (stop_one now) ks m))) =
     {e \<in> set (sc_heap (mg_sched m)). \<not> (entry_inst e \<in> set ks \<and> unscheduled (getInstance m (entry_inst e)))}"
proof (induction ks arbitrary: m)
  case (Cons k ks)
  {
    case 1
    have "stop_handles (getInstance (stop_one now k m) j) = (if j = k then {} else stop_handles (getInstance m j))" for j
      by (simp add: stop_one_get)
    then show ?case using Cons(1) [of "stop_one now k m"] by (auto simp: stop_one_workers split: if_splits)
  next
    case 2
    have "unscheduled (getInstance (stop_one now k m) j) = (j \<noteq> k \<and> unscheduled (getInstance m j))" for j
      by (simp add: stop_one_get)
    then show ?case using Cons(2) [of "stop_one now k m"] by (auto simp: stop_one_heap)
  }
qed simp_all

section \<open>Stopping a tree\<close>

abbreviation subtree :: "'sch Manager \<Rightarrow> string \<Rightarrow> string set" where
  "subtree m k \<equiv> (tree_rel (mg_children m))\<^sup>* `` {k}"

text \<open>Stopping a running instance always ends, and stops exactly it and everything below it: persistent
  instances stay registered as stopped with every slot detached, the others are gone, every worker of
  the subtree is shut down, no subscription of a stopped instance stays scheduled, and everything
  outside the subtree is untouched.\<close>

theorem StopInstance_effect:
  assumes ok: "tree_ok m" and k: "getInstance m k = Some i" "mi_Status i = InstanceRunning"
  shows "\<exists>m'. StopInstance now k m = Some (Inr (getInstance m' k), m') \<and> tree_ok m' \<and>
    (\<forall>j. getInstance m' j = (if j \<in> subtree m k then stop_result (getInstance m j) else getInstance m j)) \<and>
    set (mg_workers m') = set (mg_workers m) - (\<Union>j\<in>subtree m k. stop_handles (getInstance m j)) \<and>
    set (sc_heap (mg_sched m')) = {e \<in> set (sc_heap (mg_sched m)).
      \<not> (entry_inst e \<in> subtree m k \<and> unscheduled (getInstance m (entry_inst e)))}"
proof -
  obtain r where r: "collectDescendants m k = Some r" "set r = subtree m k"
    using collectDescendants_Some [OF ok k(1)] by blast
  have "k \<in> set r" using r(2) by simp
  then have "r \<noteq> []" by auto
  let ?m = "fold (stop_one now) (rev r) m"
  have "StopInstance now k m = Some (Inr (getInstance ?m k), ?m)"
    using r(1) k \<open>r \<noteq> []\<close> by (simp add: StopInstance_def Let_def)
  with fold_stop_one [OF ok, of now "rev r"] fold_stop_one_effects [of now "rev r" m] r(2) show ?thesis
    by (intro exI [of _ ?m]) simp
qed

section \<open>Deleting a tree\<close>

lemma erase_registry [simp]:
  "mg_instances (erase k m) = mg_instances m" "mg_children (erase k m) = mg_children m" "mg_workers (erase k m) = mg_workers m"
  by (simp_all add: erase_def Let_def)

lemma erase_frame [simp]: "getInstance (erase k m) j = getInstance m j" "tree_ok (erase k m) = tree_ok m"
  by (simp add: getInstance_def) (rule tree_ok_cong, simp_all)

lemma delete_one_get: "getInstance (delete_one k m) j = (if j = k then None else getInstance m j)"
  by (auto simp: delete_one_def unregister_instances removeInstance_get split: option.split)

lemma tree_ok_delete_one: "tree_ok m \<Longrightarrow> tree_ok (delete_one k m)"
  by (auto simp: delete_one_def tree_ok_unregister tree_ok_removeInstance split: option.split)

text \<open>No trace of an instance on disk, in the database or in the scheduler.\<close>

definition erased :: "string \<Rightarrow> 'sch Manager \<Rightarrow> bool" where
  "erased k m \<longleftrightarrow> k \<notin> set (mg_instDirs m) \<and> (\<forall>sid. (k, sid) \<notin> set (mg_sessDirs m)) \<and> k \<notin> set (mg_configs m) \<and>
     k \<notin> in_ID ` set (pdb_instances (mg_db m)) \<and> (\<forall>e\<in>set (sc_heap (mg_sched m)). entry_inst e \<noteq> k)"

lemma cascade_self: "k \<in> set (cascade rid par rows [k])"
proof -
  have "set ks \<subseteq> set ((add_children rid par rows ^^ n) ks)" for n ks
    by (induction n) (auto simp: add_children_def)
  from this [of "[k]" "length rows"] show ?thesis by (simp add: cascade_def)
qed

lemma try_DeleteInstance:
  "set (pdb_instances (try_db (DeleteInstance k) db)) \<subseteq> {i \<in> set (pdb_instances db). in_ID i \<noteq> k}"
  using cascade_self [of k in_ID in_ParentID "pdb_instances db"]
  by (auto simp: try_db_def DeleteInstance_def Let_def)

lemma PauseInstance_rows: "pdb_instances (sc_db (sched_PauseInstance ok k s)) = pdb_instances (sc_db s)"
  by (simp add: sched_PauseInstance_def PauseInstanceSubscriptions_def)

lemma erased_erase: "erased k (erase k m)"
  using try_DeleteInstance [of k "mg_db (pause_subs k m)"]
  by (auto simp: erased_def erase_def Let_def remove_instDir_def pause_subs_def sched_PauseInstance_def set_heap_Init)

lemma erased_erase_other: "erased j m \<Longrightarrow> erased j (erase k m)"
  using try_DeleteInstance [of k "mg_db (pause_subs k m)"]
  by (force simp: erased_def erase_def Let_def remove_instDir_def pause_subs_def sched_PauseInstance_def set_heap_Init
      PauseInstanceSubscriptions_def)

lemma erased_unregister [simp]: "erased j (unregisterLocked k i m) = erased j m"
  by (simp add: erased_def unregisterLocked_def Let_def)

lemma erased_removeInstance: "erased j m \<Longrightarrow> erased j (removeInstance k m)"
  by (auto simp: erased_def removeInstance_def Let_def hook_stop_def stop_workers_def remove_instDir_def
      unregisterLocked_def split: option.split prod.split)

lemma erased_delete_one:
  "erased j m \<Longrightarrow> erased j (delete_one k m)" "getInstance m k \<noteq> None \<Longrightarrow> erased k (delete_one k m)"
  by (auto simp: delete_one_def erased_erase erased_erase_other erased_removeInstance split: option.split)

lemma delete_one_workers:
  "set (mg_workers (delete_one k m)) = set (mg_workers m) - stop_handles (getInstance m k)"
  by (cases "getInstance m k") (simp_all add: delete_one_def stop_handles_def removeInstance_workers)

lemma fold_delete_one:
  assumes "tree_ok m"
  shows "tree_ok (fold delete_one ks m)"
    and "getInstance (fold delete_one ks m) j = (if j \<in> set ks then None else getInstance m j)"
    and "set (mg_workers (fold delete_one ks m)) = set (mg_workers m) - (\<Union>k\<in>set ks. stop_handles (getInstance m k))"
    and "erased j m \<or> j \<in> set ks \<and> getInstance m j \<noteq> None \<Longrightarrow> erased j (fold delete_one ks m)"
  using assms
proof (induction ks arbitrary: m)
  case (Cons k ks)
  {
    case 1
    show ?case using Cons(1) [OF tree_ok_delete_one [OF 1]] by simp
  next
    case 2
    show ?case using Cons(2) [OF tree_ok_delete_one [OF 2], of k] by (simp add: delete_one_get)
  next
    case 3
    have "stop_handles (getInstance (delete_one k m) j) = (if j = k then {} else stop_handles (getInstance m j))" for j
      by (simp add: delete_one_get stop_handles_def)
    then show ?case
      using Cons(3) [OF tree_ok_delete_one [OF 3], of k] by (auto simp: delete_one_workers split: if_splits)
  next
    case 4
    have "erased j (delete_one k m) \<or> j \<in> set ks \<and> getInstance (delete_one k m) j \<noteq> None"
      using 4(1) erased_delete_one(1) [of j m k] erased_delete_one(2) [of m k] by (auto simp: delete_one_get)
    from Cons(4) [OF this tree_ok_delete_one [OF 4(2)]] show ?case by simp
  }
qed simp_all


lemma demo_tree_get:
  "getInstance demo_tree ''p'' = Some (demo_inst ''p'' [])" "getInstance demo_tree ''c'' = Some (demo_inst ''c'' ''p'')"
  by (simp_all add: demo_tree_def register_instances demo_inst_def)

lemma demo_tree_below: "''c'' \<in> subtree demo_tree ''p''"
proof -
  have "(''p'', ''c'') \<in> tree_rel (mg_children demo_tree)"
    by (simp add: tree_rel_def demo_tree_def register_children demo_inst_def)
  then show ?thesis by blast
qed

theorem StopInstance_effect_witness:
  "\<exists>m'. StopInstance 5 ''p'' demo_tree = Some (Inr (getInstance m' ''p''), m') \<and>
     map_option mi_Status (getInstance m' ''c'') = Some InstanceStopped"
proof -
  have "mi_Status (demo_inst ''p'' []) = InstanceRunning" by (simp add: demo_inst_def)
  from StopInstance_effect [OF demo_tree_ok demo_tree_get(1) this, of 5] obtain m' where
    m': "StopInstance 5 ''p'' demo_tree = Some (Inr (getInstance m' ''p''), m')"
    "getInstance m' ''c'' = stop_result (getInstance demo_tree ''c'')"
    using demo_tree_below by auto
  then show ?thesis
    by (intro exI [of _ m']) (simp add: demo_tree_get stop_result_def demo_inst_def IsPersistent_def)
qed


end
