(* ===== verification/Manager_Session.thy ===== *)
theory Manager_Session
  imports Manager_Lifecycle
begin

text \<open>
  Sessions of running instances, \<open>src/internal/agent/manager_session.go\<close>, the routing of messages of
  \<open>manager_helpers.go\<close> with the call chain of \<open>src/internal/inference/context.go\<close>, and the restore of
  \<open>manager_restore.go\<close>.

  \<open>session_env\<close> holds what the rest of the program contributes to a session: the outcome of its start,
  the fresh identifier, whether the agent definition could be loaded, and which of several newest rows
  the database returns.  The rules and the model a session runs with are those of \<open>Tool_Inheritance\<close>
  and \<open>Model_Spec\<close>.
\<close>

section \<open>Sessions\<close>

definition maxSessionsPerInstance :: nat where
  "maxSessionsPerInstance = 32"

record session_env =
  sn_start :: start_env
  sn_newID :: string
  sn_agentOK :: bool
  sn_pick :: "Session list \<Rightarrow> Session"

definition put_inst :: "string \<Rightarrow> minstance \<Rightarrow> 'sch Manager \<Rightarrow> 'sch Manager" where
  "put_inst k inst m = m\<lparr>mg_instances := gomap_put k inst (mg_instances m)\<rparr>"

definition createSessionDirs :: "bool \<Rightarrow> string \<Rightarrow> string \<Rightarrow> 'sch Manager \<Rightarrow> 'sch Manager option" where
  "createSessionDirs ok instanceID sessionID m =
     (if ok then Some (m\<lparr>mg_sessDirs := add_new (instanceID, sessionID) (mg_sessDirs m)\<rparr>) else None)"

definition resolveSessionIDFromDB :: "session_env \<Rightarrow> string \<Rightarrow> string \<Rightarrow> string \<Rightarrow> 'sch Manager \<Rightarrow> string" where
  "resolveSessionIDFromDB env instanceID chType chID m =
     (case LatestSessionByChannel (sn_pick env) instanceID chType chID (mg_db m) of
        Some sess \<Rightarrow> if se_Status sess \<noteq> statusStopped \<and> (instanceID, se_ID sess) \<in> set (mg_sessDirs m)
                     then se_ID sess else sn_newID env
      | None \<Rightarrow> sn_newID env)"

definition registerSessionInDBWithChannel ::
  "gotime \<Rightarrow> string \<Rightarrow> string \<Rightarrow> string \<Rightarrow> string \<Rightarrow> string \<Rightarrow> string \<Rightarrow> platform_db \<Rightarrow> pdb_error + platform_db" where
  "registerSessionInDBWithChannel now instanceID sessionID agentName mode chType chID db =
     CreateSession now (new_session_row sessionID instanceID agentName mode chType chID) db"

definition markSessionStopped :: "gotime \<Rightarrow> string \<Rightarrow> 'sch Manager \<Rightarrow> 'sch Manager" where
  "markSessionStopped now sessionID m =
     (if sessionID = [] then m else set_db (try_db (UpdateSessionStatus now sessionID statusStopped) (mg_db m)) m)"

text \<open>Whether the model that was resolved has a provider, or why the session cannot start.\<close>

definition resolveSessionConfig :: "session_env \<Rightarrow> mgr_err + bool" where
  "resolveSessionConfig env =
     (if \<not> sn_agentOK env then Inl LoadFailed
      else case sv_model (sn_start env) of
             None \<Rightarrow> Inl ModelFailed
           | Some (_, hasProvider) \<Rightarrow> if sv_toolsOK (sn_start env) then Inr hasProvider else Inl ToolsFailed)"

text \<open>A worker whose loop cannot be created is killed.  The worker is always started on this node.\<close>

definition spawnSessionWorkerAndLoop :: "session_env \<Rightarrow> bool \<Rightarrow> 'sch Manager \<Rightarrow> (mgr_err + nat \<times> bool) \<times> 'sch Manager" where
  "spawnSessionWorkerAndLoop env hasProvider m =
     (case sv_spawn (sn_start env) of
        None \<Rightarrow> (Inl SpawnFailed, m)
      | Some handle \<Rightarrow>
          (case createInferenceLoop (sn_start env) hasProvider of
             None \<Rightarrow> (Inl LoopFailed, m)
           | Some loop \<Rightarrow> (Inr (handle, loop), m\<lparr>mg_workers := handle # mg_workers m\<rparr>)))"

definition new_slot :: "string \<Rightarrow> nat \<Rightarrow> bool \<Rightarrow> sessionSlot" where
  "new_slot channelKey handle loop = \<lparr>sl_channel = channelKey, sl_handle = Some handle, sl_loop = loop, sl_node = ''home''\<rparr>"

definition createSessionSlot ::
  "session_env \<Rightarrow> minstance \<Rightarrow> string \<Rightarrow> string \<Rightarrow> 'sch Manager \<Rightarrow> (mgr_err + string) \<times> 'sch Manager" where
  "createSessionSlot env inst instanceID channelKey m =
     (case splitChannelKey channelKey of (chType, chID) \<Rightarrow>
        let sessionID = resolveSessionIDFromDB env instanceID chType chID m in
        case createSessionDirs (sv_dirsOK (sn_start env)) instanceID sessionID m of
          None \<Rightarrow> (Inl DirsFailed, m)
        | Some m1 \<Rightarrow>
            (case ignore_dup (registerSessionInDBWithChannel (sv_now (sn_start env)) instanceID sessionID (mi_agentName inst)
                     (mi_Mode inst) chType chID (mg_db m1)) (mg_db m1) of
               Inl e \<Rightarrow> (Inl (DBFailed e), m1)
             | Inr db \<Rightarrow>
                 let m2 = set_db db m1 in
                 (case resolveSessionConfig env of
                    Inl e \<Rightarrow> (Inl e, m2)
                  | Inr hasProvider \<Rightarrow>
                      (case spawnSessionWorkerAndLoop env hasProvider m2 of
                         (Inl e, m3) \<Rightarrow> (Inl e, m3)
                       | (Inr (handle, loop), m3) \<Rightarrow>
                           (Inr sessionID,
                            put_inst instanceID (addSlot sessionID (new_slot channelKey handle loop) inst) m3)))))"

definition slot_alive :: "sessionSlot \<Rightarrow> bool" where
  "slot_alive slot \<longleftrightarrow> sl_loop slot \<or> sl_handle slot \<noteq> None"

definition EnsureSession ::
  "session_env \<Rightarrow> string \<Rightarrow> string \<Rightarrow> 'sch Manager \<Rightarrow> (mgr_err + string) \<times> 'sch Manager" where
  "EnsureSession env instanceID channelKey m =
     (case getInstance m instanceID of
        None \<Rightarrow> (Inl NotFound, m)
      | Some inst \<Rightarrow>
          if mi_Status inst = InstanceStopped then (Inl Stopped, m)
          else
            (let sid = gomap_get (mi_channelIndex inst) channelKey;
                 slot = Option.bind sid (gomap_get (mi_sessions inst))
             in case (sid, slot) of
                  (Some k, Some s) \<Rightarrow>
                    if slot_alive s then (Inr k, m)
                    else
                      (let inst' = removeSlot k inst; m' = put_inst instanceID inst' m in
                       if maxSessionsPerInstance \<le> length (mi_sessions inst') then (Inl TooManySessions, m')
                       else createSessionSlot env inst' instanceID channelKey m')
                | _ \<Rightarrow>
                    if maxSessionsPerInstance \<le> length (mi_sessions inst) then (Inl TooManySessions, m)
                    else createSessionSlot env inst instanceID channelKey m))"

text \<open>The old worker's handle and session, and the instance without the slot.\<close>

definition detachChannelSlot :: "minstance \<Rightarrow> string \<Rightarrow> nat option \<times> string \<times> minstance" where
  "detachChannelSlot inst channelKey =
     (case slotByChannel inst channelKey of
        None \<Rightarrow> (None, [], inst)
      | Some slot \<Rightarrow>
          (let sid = gomap_get_str (mi_channelIndex inst) channelKey
           in (sl_handle slot, sid, removeSlot sid inst)))"

definition shutdownOldWorkerAsync :: "nat option \<Rightarrow> 'sch Manager \<Rightarrow> 'sch Manager" where
  "shutdownOldWorkerAsync oldHandle m = (case oldHandle of Some h \<Rightarrow> stop_workers [h] m | None \<Rightarrow> m)"

definition NewSessionForChannel ::
  "session_env \<Rightarrow> string \<Rightarrow> string \<Rightarrow> 'sch Manager \<Rightarrow> (mgr_err + string) \<times> 'sch Manager" where
  "NewSessionForChannel env instanceID channelKey m =
     (case getInstance m instanceID of
        None \<Rightarrow> (Inl NotFound, m)
      | Some inst \<Rightarrow>
          if mi_Status inst = InstanceStopped then (Inl Stopped, m)
          else
            (case detachChannelSlot inst channelKey of (oldHandle, oldSessionID, inst1) \<Rightarrow>
               let now = sv_now (sn_start env);
                   m0 = markSessionStopped now oldSessionID (put_inst instanceID inst1 m);
                   newSessionID = sn_newID env
               in case createSessionDirs (sv_dirsOK (sn_start env)) instanceID newSessionID m0 of
                    None \<Rightarrow> (Inl DirsFailed, m0)
                  | Some m1 \<Rightarrow>
                      (case splitChannelKey channelKey of (chType, chID) \<Rightarrow>
                         case registerSessionInDBWithChannel now instanceID newSessionID (mi_agentName inst1) (mi_Mode inst1)
                                chType chID (mg_db m1) of
                           Inl e \<Rightarrow> (Inl (DBFailed e), m1)
                         | Inr db \<Rightarrow>
                             let m2 = set_db db m1 in
                             (case resolveSessionConfig env of
                                Inl e \<Rightarrow> (Inl e, m2)
                              | Inr hasProvider \<Rightarrow>
                                  let m3 = shutdownOldWorkerAsync oldHandle m2 in
                                  (case spawnSessionWorkerAndLoop env hasProvider m3 of
                                     (Inl e, m4) \<Rightarrow>
                                       (Inl e,
                                        set_db (try_db (DeleteSession newSessionID) (mg_db m4))
                                          (m4\<lparr>mg_sessDirs := removeAll (instanceID, newSessionID) (mg_sessDirs m4)\<rparr>))
                                   | (Inr (handle, loop), m4) \<Rightarrow>
                                       (Inr newSessionID,
                                        put_inst instanceID (addSlot newSessionID (new_slot channelKey handle loop) inst1)
                                          m4))))))"

section \<open>Restarting a stopped instance\<close>

definition reregisterStopped :: "minstance \<Rightarrow> 'sch Manager \<Rightarrow> 'sch Manager" where
  "reregisterStopped inst m = register (inst\<lparr>mi_Status := InstanceStopped\<rparr>) m"

definition StartInstance ::
  "'sch trigger_env \<Rightarrow> session_env \<Rightarrow> (string \<Rightarrow> agent_cfg option) \<Rightarrow> string \<Rightarrow> 'sch Manager \<Rightarrow>
   mgr_err option \<times> 'sch Manager" where
  "StartInstance tenv env LoadAgentDir instanceID m =
     (case getInstance m instanceID of
        None \<Rightarrow> (Some NotFound, m)
      | Some inst \<Rightarrow>
          if mi_Status inst \<noteq> InstanceStopped then (Some NotStopped, m)
          else
            let m1 = unregisterLocked instanceID (Some inst) m in
            (case LoadAgentDir (mi_agentName inst) of
               None \<Rightarrow> (Some LoadFailed, reregisterStopped inst m1)
             | Some cfg \<Rightarrow>
                 (case (case LatestSessionByInstance (sn_pick env) instanceID (mg_db m1) of
                          Some sess \<Rightarrow> (se_ID sess, makeChannelKey (se_ChannelType sess) (se_ChannelID sess))
                        | None \<Rightarrow> ([], ''web'')) of
                    (sid, channelKey) \<Rightarrow>
                      let sessionID = (if sid = [] then sn_newID env else sid) in
                      (case startInstance (sn_start env) instanceID sessionID channelKey cfg (mi_ParentID inst) (mi_Mode inst)
                              (mi_NodeID inst) [] [] m1 of
                         (Inl e, m2) \<Rightarrow> (Some e, reregisterStopped inst m2)
                       | (Inr _, m2) \<Rightarrow>
                           let now = sv_now (sn_start env);
                               m3 = setInstanceStatus now instanceID InstanceRunning m2
                           in (None, m3\<lparr>mg_sched := sched_ResumeInstance tenv True now instanceID (mg_sched m3)\<rparr>)))))"

section \<open>Messages\<close>

text \<open>The caller and the chain of instances that await a response, as the context carries them.\<close>

record call_ctx =
  cx_caller :: string
  cx_chain :: "string list"

definition ContextWithCallChain :: "string \<Rightarrow> call_ctx \<Rightarrow> call_ctx" where
  "ContextWithCallChain instanceID ctx = ctx\<lparr>cx_chain := add_new instanceID (cx_chain ctx)\<rparr>"

definition ContextWithCallerID :: "string \<Rightarrow> call_ctx \<Rightarrow> call_ctx" where
  "ContextWithCallerID callerID ctx = ctx\<lparr>cx_caller := callerID\<rparr>"

definition IsInCallChain :: "call_ctx \<Rightarrow> string \<Rightarrow> bool" where
  "IsInCallChain ctx instanceID \<longleftrightarrow> instanceID \<in> set (cx_chain ctx)"

definition acquireSlot :: "call_ctx \<Rightarrow> string \<Rightarrow> string \<Rightarrow> 'sch Manager \<Rightarrow> mgr_err + sessionSlot \<times> call_ctx" where
  "acquireSlot ctx instanceID sessionID m =
     (if IsInCallChain ctx instanceID then Inl CircularCall
      else case getInstance m instanceID of
             None \<Rightarrow> Inl NotFound
           | Some inst \<Rightarrow>
               if mi_Status inst = InstanceStopped then Inl Stopped
               else case gomap_get (mi_sessions inst) sessionID of
                      None \<Rightarrow> Inl NoSuchSession
                    | Some slot \<Rightarrow>
                        if \<not> sl_loop slot then Inl NoLoop
                        else Inr (slot, ContextWithCallerID instanceID (ContextWithCallChain instanceID ctx)))"

definition channel_of_caller :: "call_ctx \<Rightarrow> string" where
  "channel_of_caller ctx = (if cx_caller ctx \<noteq> [] then ''agent:'' @ cx_caller ctx else ''web'')"

text \<open>The session a message runs on and the context its turn gets.\<close>

definition SendMessage ::
  "session_env \<Rightarrow> call_ctx \<Rightarrow> string \<Rightarrow> 'sch Manager \<Rightarrow> (mgr_err + string \<times> call_ctx) \<times> 'sch Manager" where
  "SendMessage env ctx instanceID m =
     (case EnsureSession env instanceID (channel_of_caller ctx) m of
        (Inl e, m1) \<Rightarrow> (Inl e, m1)
      | (Inr sessionID, m1) \<Rightarrow>
          (case acquireSlot ctx instanceID sessionID m1 of
             Inl e \<Rightarrow> (Inl e, m1)
           | Inr (_, ctx') \<Rightarrow> (Inr (sessionID, ctx'), m1)))"

text \<open>\<open>SpawnEphemeral\<close>: the turn the prompt runs is the parameter \<open>turn\<close>; \<open>env'\<close> is that of the session the
  message may need.\<close>

definition SpawnEphemeral ::
  "session_env \<Rightarrow> session_env \<Rightarrow> (string \<Rightarrow> agent_cfg option) \<Rightarrow> call_ctx \<Rightarrow>
   (string \<Rightarrow> call_ctx \<Rightarrow> 'sch Manager \<Rightarrow> (mgr_err + string) \<times> 'sch Manager) \<Rightarrow>
   string \<Rightarrow> string \<Rightarrow> string \<Rightarrow> string \<Rightarrow> 'sch Manager \<Rightarrow> ((mgr_err + string) \<times> 'sch Manager) option" where
  "SpawnEphemeral env env' LoadAgentDir ctx turn instanceID agentName parentID nodeID m =
     (if \<not> validateAgentName agentName then Some (Inl InvalidName, m)
      else case LoadAgentDir agentName of
             None \<Rightarrow> Some (Inl LoadFailed, m)
           | Some cfg \<Rightarrow>
               (case startInstance (sn_start env) instanceID (sn_newID env) (initial_channel parentID) cfg parentID
                       ''ephemeral'' nodeID [] [] m of
                  (Inl e, m1) \<Rightarrow> Some (Inl e, m1)
                | (Inr instID, m1) \<Rightarrow>
                    (case (case SendMessage env' ctx instID m1 of
                             (Inl e, m2) \<Rightarrow> (Inl e, m2)
                           | (Inr (_, ctx'), m2) \<Rightarrow> turn instID ctx' m2) of
                       (result, m3) \<Rightarrow>
                         map_option (\<lambda>(_, m4). (result, m4)) (StopInstance (sv_now (sn_start env)) instID m3))))"

end
