(* ===== verification/Manager_Invariant.thy ===== *)
theory Manager_Invariant
  imports Manager_Session
begin

text \<open>
  The state of the agent manager between operations: the registry is a tree, the slots of an instance
  match its channel index and the rows of the database, and every worker a slot holds is running and
  belongs to that slot alone.  The invariant is shown for every sequence of operations that starts
  from an empty manager.
\<close>

section \<open>Slots across instances\<close>

type_synonym slots = "(string \<times> string \<times> sessionSlot) set"

definition all_slots :: "'sch Manager \<Rightarrow> slots" where
  "all_slots m = {(k, sid, s). \<exists>i. getInstance m k = Some i \<and> gomap_get (mi_sessions i) sid = Some s}"

definition skeys :: "platform_db \<Rightarrow> (string \<times> string \<times> string) list" where
  "skeys db = map (\<lambda>s. (se_ID s, se_ChannelType s, se_ChannelID s)) (pdb_sessions db)"

definition proper_key :: "string \<Rightarrow> bool" where
  "proper_key ch \<longleftrightarrow> (case splitChannelKey ch of (ct, ci) \<Rightarrow> makeChannelKey ct ci = ch)"

definition keys_ok :: "(string \<times> string \<times> string) list \<Rightarrow> bool" where
  "keys_ok ks \<longleftrightarrow> distinct (map fst ks) \<and> (\<forall>(sid, ct, ci)\<in>set ks. CHR '':'' \<notin> set ct)"

definition slots_ok :: "slots \<Rightarrow> (string \<times> string \<times> string) list \<Rightarrow> nat set \<Rightarrow> bool" where
  "slots_ok S ks ws \<longleftrightarrow>
     (\<forall>k sid s. (k, sid, s) \<in> S \<longrightarrow> proper_key (sl_channel s) \<and>
        (\<forall>p. (sid, p) \<in> set ks \<longrightarrow> p = splitChannelKey (sl_channel s)) \<and>
        (\<forall>h. sl_handle s = Some h \<longrightarrow> h \<in> ws)) \<and>
     (\<forall>k sid s k' sid' s' h. (k, sid, s) \<in> S \<longrightarrow> (k', sid', s') \<in> S \<longrightarrow>
        sl_handle s = Some h \<longrightarrow> sl_handle s' = Some h \<longrightarrow> k = k' \<and> sid = sid')"

text \<open>The slots of a running instance have their workers, those of a stopped one have none.\<close>

definition inst_live :: "minstance \<Rightarrow> bool" where
  "inst_live i \<longleftrightarrow> (\<forall>sid s. gomap_get (mi_sessions i) sid = Some s \<longrightarrow>
     (sl_handle s = None \<longleftrightarrow> mi_Status i = InstanceStopped) \<and> (mi_Status i = InstanceStopped \<longrightarrow> \<not> sl_loop s))"

definition mgr_ok :: "'sch Manager \<Rightarrow> bool" where
  "mgr_ok m \<longleftrightarrow> tree_ok m \<and> keys_ok (skeys (mg_db m)) \<and>
     slots_ok (all_slots m) (skeys (mg_db m)) (set (mg_workers m)) \<and>
     (\<forall>k i. getInstance m k = Some i \<longrightarrow> inst_live i)"

text \<open>Slots may disappear or lose their worker, rows may disappear, and workers may end that no
  remaining slot holds.\<close>

definition fewer :: "slots \<Rightarrow> slots \<Rightarrow> bool" where
  "fewer S' S \<longleftrightarrow> (\<forall>k sid s'. (k, sid, s') \<in> S' \<longrightarrow> (\<exists>s. (k, sid, s) \<in> S \<and> sl_channel s' = sl_channel s \<and>
     (sl_handle s' = None \<or> sl_handle s' = sl_handle s)))"

lemma fewer_refl [simp]: "fewer S S"
  by (auto simp: fewer_def)

lemma fewer_subset: "S' \<subseteq> S \<Longrightarrow> fewer S' S"
  by (auto simp: fewer_def)

lemma slots_okD:
  assumes "slots_ok S ks ws" "(k, sid, s) \<in> S"
  shows "proper_key (sl_channel s)" "(sid, p) \<in> set ks \<Longrightarrow> p = splitChannelKey (sl_channel s)"
    "sl_handle s = Some h \<Longrightarrow> h \<in> ws"
    "(k', sid', s') \<in> S \<Longrightarrow> sl_handle s = Some h \<Longrightarrow> sl_handle s' = Some h \<Longrightarrow> k = k' \<and> sid = sid'"
  using assms unfolding slots_ok_def by blast+

lemma slots_okI:
  assumes "\<And>k sid s. (k, sid, s) \<in> S \<Longrightarrow> proper_key (sl_channel s)"
    and "\<And>k sid s p. (k, sid, s) \<in> S \<Longrightarrow> (sid, p) \<in> set ks \<Longrightarrow> p = splitChannelKey (sl_channel s)"
    and "\<And>k sid s h. (k, sid, s) \<in> S \<Longrightarrow> sl_handle s = Some h \<Longrightarrow> h \<in> ws"
    and "\<And>k sid s k' sid' s' h. (k, sid, s) \<in> S \<Longrightarrow> (k', sid', s') \<in> S \<Longrightarrow> sl_handle s = Some h \<Longrightarrow>
      sl_handle s' = Some h \<Longrightarrow> k = k' \<and> sid = sid'"
  shows "slots_ok S ks ws"
  unfolding slots_ok_def using assms by blast

lemma slots_ok_fewer:
  assumes ok: "slots_ok S ks ws" and f: "fewer S' S" and ks: "set ks' \<subseteq> set ks"
    and ws: "\<And>k sid s h. (k, sid, s) \<in> S' \<Longrightarrow> sl_handle s = Some h \<Longrightarrow> h \<in> ws'"
  shows "slots_ok S' ks' ws'"
proof (rule slots_okI)
  have f': "\<exists>s. (k, sid, s) \<in> S \<and> sl_channel s' = sl_channel s \<and> (sl_handle s' = None \<or> sl_handle s' = sl_handle s)"
    if "(k, sid, s') \<in> S'" for k sid s'
    using f that unfolding fewer_def by blast
  fix k sid s assume s: "(k, sid, s) \<in> S'"
  show "proper_key (sl_channel s)" using f' [OF s] slots_okD(1) [OF ok] by metis
  show "p = splitChannelKey (sl_channel s)" if "(sid, p) \<in> set ks'" for p
    using f' [OF s] slots_okD(2) [OF ok] that ks by (metis subsetD)
  show "h \<in> ws'" if "sl_handle s = Some h" for h using ws [OF s that] .
  show "k = k' \<and> sid = sid'" if "(k', sid', s') \<in> S'" "sl_handle s = Some h" "sl_handle s' = Some h" for k' sid' s' h
    using f' [OF s] f' [OF that(1)] that(2,3) slots_okD(4) [OF ok] by (metis option.distinct(1))
qed

lemma slots_ok_new:
  assumes ok: "slots_ok S ks ws" and ch: "proper_key (sl_channel s)"
    and sid: "\<And>p. (sid, p) \<in> set ks \<Longrightarrow> p = splitChannelKey (sl_channel s)"
    and h: "sl_handle s = Some h" "h \<notin> ws"
  shows "slots_ok (insert (k, sid, s) S) ks (insert h ws)"
proof (rule slots_okI)
  fix k1 sid1 s1 assume s1: "(k1, sid1, s1) \<in> insert (k, sid, s) S"
  show "proper_key (sl_channel s1)" using s1 ch slots_okD(1) [OF ok] by auto
  show "p = splitChannelKey (sl_channel s1)" if "(sid1, p) \<in> set ks" for p
    using s1 sid that slots_okD(2) [OF ok] by (metis Pair_inject insert_iff)
  show "h1 \<in> insert h ws" if "sl_handle s1 = Some h1" for h1
    using s1 that h(1) slots_okD(3) [OF ok] by auto
  show "k1 = k2 \<and> sid1 = sid2"
    if "(k2, sid2, s2) \<in> insert (k, sid, s) S" "sl_handle s1 = Some h1" "sl_handle s2 = Some h1" for k2 sid2 s2 h1
    using s1 that h slots_okD(3,4) [OF ok] by (metis Pair_inject insert_iff option.inject)
qed

text \<open>A new row of a session that has no slot yet, or whose slot has the channel of the row.\<close>

lemma slots_ok_row:
  assumes "slots_ok S ks ws" "\<And>k s. (k, sid, s) \<in> S \<Longrightarrow> p = splitChannelKey (sl_channel s)"
  shows "slots_ok S (ks @ [(sid, p)]) ws"
  using assms(1) unfolding slots_ok_def by (auto dest: assms(2))

section \<open>Rows of sessions\<close>

named_theorems skeys_simps \<open>session rows after a database operation\<close>

lemma keys_ok_filter: "keys_ok ks \<Longrightarrow> keys_ok (filter P ks)"
  by (auto simp: keys_ok_def distinct_map_filter)

lemma keys_ok_append:
  "keys_ok ks \<Longrightarrow> sid \<notin> fst ` set ks \<Longrightarrow> CHR '':'' \<notin> set ct \<Longrightarrow> keys_ok (ks @ [(sid, ct, ci)])"
  by (auto simp: keys_ok_def)

lemma skeys_cong: "pdb_sessions db' = pdb_sessions db \<Longrightarrow> skeys db' = skeys db"
  by (simp add: skeys_def)

lemma skeys_map:
  "(\<And>s. se_ID (f s) = se_ID s \<and> se_ChannelType (f s) = se_ChannelType s \<and> se_ChannelID (f s) = se_ChannelID s) \<Longrightarrow>
   map (\<lambda>s. (se_ID s, se_ChannelType s, se_ChannelID s)) (map f rows) =
     map (\<lambda>s. (se_ID s, se_ChannelType s, se_ChannelID s)) rows"
  by simp

lemma skeys_remove:
  "map (\<lambda>s. (se_ID s, se_ChannelType s, se_ChannelID s)) (remove_sessions ks rows) =
     filter (\<lambda>(sid, _). sid \<notin> set (cascade se_ID se_ParentID rows ks))
       (map (\<lambda>s. (se_ID s, se_ChannelType s, se_ChannelID s)) rows)"
  by (simp add: remove_sessions_def Let_def filter_map o_def)

lemma skeys_unlink:
  "map (\<lambda>s. (se_ID s, se_ChannelType s, se_ChannelID s)) (unlink_subs ks rows) =
     map (\<lambda>s. (se_ID s, se_ChannelType s, se_ChannelID s)) rows"
  unfolding unlink_subs_def by (rule skeys_map) simp

lemma skeys_UpdateInstanceStatus [skeys_simps]: "skeys (try_db (UpdateInstanceStatus now k st) db) = skeys db"
  by (simp add: try_db_def UpdateInstanceStatus_def skeys_def split: option.split)

lemma skeys_UpdateSessionStatus [skeys_simps]: "skeys (try_db (UpdateSessionStatus now k st) db) = skeys db"
proof (cases "update_row se_ID k (\<lambda>s. s\<lparr>se_Status := st, se_StoppedAt :=
    (if st = statusStopped then Some (second_precision now) else None)\<rparr>) (pdb_sessions db)")
  case None
  then show ?thesis by (simp add: try_db_def UpdateSessionStatus_def)
next
  case (Some rows)
  then have "map (\<lambda>s. (se_ID s, se_ChannelType s, se_ChannelID s)) rows =
      map (\<lambda>s. (se_ID s, se_ChannelType s, se_ChannelID s)) (pdb_sessions db)"
    by (auto simp: update_row_def split: if_splits)
  then show ?thesis using Some by (simp add: try_db_def UpdateSessionStatus_def skeys_def)
qed

lemma skeys_DeleteInstance: "\<exists>P. skeys (try_db (DeleteInstance k) db) = filter P (skeys db)"
proof (cases "DeleteInstance k db")
  case (Inl e)
  then show ?thesis by (intro exI [of _ "\<lambda>_. True"]) (simp add: try_db_def)
next
  case (Inr db')
  then obtain ks where "skeys db' = map (\<lambda>s. (se_ID s, se_ChannelType s, se_ChannelID s)) (remove_sessions ks (pdb_sessions db))"
    by (auto simp: DeleteInstance_def Let_def skeys_def skeys_unlink split: if_splits)
  then show ?thesis using Inr by (auto simp: try_db_def skeys_remove skeys_def)
qed

lemma skeys_DeleteSession: "\<exists>P. skeys (try_db (DeleteSession k) db) = filter P (skeys db)"
proof (cases "DeleteSession k db")
  case (Inl e)
  then show ?thesis by (intro exI [of _ "\<lambda>_. True"]) (simp add: try_db_def)
next
  case (Inr db')
  then have "skeys db' = map (\<lambda>s. (se_ID s, se_ChannelType s, se_ChannelID s)) (remove_sessions [k] (pdb_sessions db))"
    by (auto simp: DeleteSession_def skeys_def split: if_splits)
  then show ?thesis using Inr by (auto simp: try_db_def skeys_remove skeys_def)
qed

lemma skeys_Pause [skeys_simps]: "skeys (sc_db (sched_PauseInstance ok k s)) = skeys (sc_db s)"
  by (simp add: sched_PauseInstance_def PauseInstanceSubscriptions_def skeys_def)

lemma skeys_buildEntry: "skeys (snd (buildEntry env now sub db)) = skeys db"
  by (auto simp: buildEntry_def try_db_def DeleteSubscription_def remove_sub_def skeys_def skeys_unlink
      split: option.split sum.split)

lemma skeys_UpdateSubscriptionStatus [skeys_simps]:
  "skeys (try_db (UpdateSubscriptionStatus k st nf) db) = skeys db"
  by (auto simp: try_db_def UpdateSubscriptionStatus_def skeys_def split: option.split sum.split if_split_asm)

lemma skeys_resume_entries: "skeys (snd (resume_entries env now subs db)) = skeys db"
proof (induction env now subs db rule: resume_entries.induct)
  case (2 env now sub subs db)
  obtain e db1 where b: "buildEntry env now sub db = (e, db1)" by fastforce
  then have "skeys db1 = skeys db" using skeys_buildEntry [of env now sub db] by simp
  with 2 b show ?case by (cases e) (simp_all add: skeys_UpdateSubscriptionStatus case_prod_beta)
qed simp

lemma skeys_Resume [skeys_simps]: "skeys (sc_db (sched_ResumeInstance env ok now k s)) = skeys (sc_db s)"
proof -
  obtain subs db1 where r: "ResumeInstanceSubscriptions k (sc_db s) = (subs, db1)" by fastforce
  then have "skeys db1 = skeys (sc_db s)" by (auto simp: ResumeInstanceSubscriptions_def Let_def skeys_def)
  with r skeys_resume_entries [of env now subs db1] show ?thesis
    by (simp add: sched_ResumeInstance_def case_prod_beta)
qed

section \<open>Operations that only take away\<close>

lemma mgr_ok_shrink:
  assumes ok: "mgr_ok m" and t: "tree_ok m'" and f: "fewer (all_slots m') (all_slots m)"
    and ks: "\<exists>P. skeys (mg_db m') = filter P (skeys (mg_db m))"
    and ws: "\<And>k sid s h. (k, sid, s) \<in> all_slots m' \<Longrightarrow> sl_handle s = Some h \<Longrightarrow> h \<in> set (mg_workers m')"
    and live: "\<And>k i. getInstance m' k = Some i \<Longrightarrow> inst_live i"
  shows "mgr_ok m'"
proof -
  from ks obtain P where P: "skeys (mg_db m') = filter P (skeys (mg_db m))" by blast
  have "slots_ok (all_slots m') (skeys (mg_db m')) (set (mg_workers m'))"
    by (rule slots_ok_fewer [OF _ f _ ws]) (use ok P in \<open>auto simp: mgr_ok_def\<close>)
  moreover have "keys_ok (skeys (mg_db m'))" using ok P by (simp add: mgr_ok_def keys_ok_filter)
  ultimately show ?thesis using t live by (simp add: mgr_ok_def)
qed

lemma filter_all: "\<exists>P. xs = filter P xs"
  by (intro exI [of _ "\<lambda>_. True"]) simp

lemma all_slotsI: "getInstance m k = Some i \<Longrightarrow> gomap_get (mi_sessions i) sid = Some s \<Longrightarrow> (k, sid, s) \<in> all_slots m"
  by (auto simp: all_slots_def)

lemma other_handle:
  assumes ok: "mgr_ok m" and s: "(j, sid, s) \<in> all_slots m" "sl_handle s = Some h" and k: "getInstance m k = Some i" "j \<noteq> k"
  shows "h \<in> set (mg_workers m) - inst_handles i"
proof -
  have so: "slots_ok (all_slots m) (skeys (mg_db m)) (set (mg_workers m))" using ok by (simp add: mgr_ok_def)
  have "h \<notin> inst_handles i"
  proof
    assume "h \<in> inst_handles i"
    then obtain sid' s' where s': "(sid', s') \<in> set (mi_sessions i)" "sl_handle s' = Some h" by (auto simp: inst_handles_def)
    have "inst_ok i" using ok k(1) by (auto simp: mgr_ok_def tree_ok_def)
    then have "gomap_get (mi_sessions i) sid' = Some s'" using s'(1) by (simp add: inst_ok_def gomap_get_mem)
    with k(1) have "(k, sid', s') \<in> all_slots m" by (rule all_slotsI)
    from slots_okD(4) [OF so s(1) this s(2) s'(2)] k(2) show False by simp
  qed
  moreover have "h \<in> set (mg_workers m)" using slots_okD(3) [OF so s] .
  ultimately show ?thesis by simp
qed

lemma all_slots_put_one:
  assumes "\<And>j. getInstance m' j = (if j = k then r else getInstance m j)"
  shows "(j, sid, s) \<in> all_slots m' \<longleftrightarrow>
    (if j = k then \<exists>i. r = Some i \<and> gomap_get (mi_sessions i) sid = Some s else (j, sid, s) \<in> all_slots m)"
  by (simp add: all_slots_def assms)

text \<open>One instance is gone, or has lost its workers, or has lost one slot.\<close>

lemma mgr_ok_drop:
  assumes ok: "mgr_ok m" and t: "tree_ok m'" and k: "getInstance m k = Some i"
    and get: "\<And>j. getInstance m' j = (if j = k then r else getInstance m j)"
    and r: "r = None \<or> r = Some (snd (detachAllSlots (Some InstanceStopped) i))"
    and ks: "\<exists>P. skeys (mg_db m') = filter P (skeys (mg_db m))"
    and ws: "set (mg_workers m) - inst_handles i \<subseteq> set (mg_workers m')"
  shows "mgr_ok m'"
proof (rule mgr_ok_shrink [OF ok t _ ks])
  note slots = all_slots_put_one [of m', OF get]
  have det: "\<exists>s0. gomap_get (mi_sessions i) sid = Some s0 \<and> sl_channel s = sl_channel s0 \<and> sl_handle s = None \<and> \<not> sl_loop s"
    if "r = Some i'" "gomap_get (mi_sessions i') sid = Some s" for i' sid s
    using that r by (auto simp: detach_sessions)
  show "fewer (all_slots m') (all_slots m)"
    unfolding fewer_def slots
  proof (intro allI impI)
    fix j sid s'
    assume a: "if j = k then \<exists>i. r = Some i \<and> gomap_get (mi_sessions i) sid = Some s' else (j, sid, s') \<in> all_slots m"
    show "\<exists>s. (j, sid, s) \<in> all_slots m \<and> sl_channel s' = sl_channel s \<and> (sl_handle s' = None \<or> sl_handle s' = sl_handle s)"
    proof (cases "j = k")
      case True
      with a det all_slotsI [OF k] show ?thesis by metis
    qed (use a in auto)
  qed
  show "h \<in> set (mg_workers m')" if "(j, sid, s) \<in> all_slots m'" "sl_handle s = Some h" for j sid s h
  proof (cases "j = k")
    case True
    with that det show ?thesis unfolding slots by (metis option.distinct(1))
  next
    case False
    with that have "(j, sid, s) \<in> all_slots m" unfolding slots by simp
    from other_handle [OF ok this that(2) k False] ws show ?thesis by blast
  qed
  show "inst_live i'" if "getInstance m' j = Some i'" for j i'
  proof (cases "j = k")
    case True
    with that get have "r = Some i'" by simp
    moreover from this r have "mi_Status i' = InstanceStopped" by auto
    ultimately show ?thesis using det unfolding inst_live_def by blast
  qed (use that get ok in \<open>simp add: mgr_ok_def\<close>)
qed

lemma inst_handles_gone: "getInstance m k = Some i \<Longrightarrow> stop_handles (getInstance m k) \<subseteq> inst_handles i"
  by (simp add: stop_handles_def)

lemma stop_one_skeys: "skeys (mg_db (stop_one now k m)) = skeys (mg_db m)"
  by (auto simp: stop_one_def softStop_def removeInstance_def Let_def pause_subs_def setInstanceStatus_def
      skeys_simps split: option.split prod.split)

lemma mgr_ok_stop_one:
  assumes ok: "mgr_ok m"
  shows "mgr_ok (stop_one now k m)"
proof (cases "getInstance m k")
  case None
  with ok show ?thesis by (simp add: stop_one_def)
next
  case (Some i)
  show ?thesis
  proof (cases "mi_Status i = InstanceStopped")
    case True
    with Some ok show ?thesis by (simp add: stop_one_def)
  next
    case False
    show ?thesis
    proof (rule mgr_ok_drop [OF ok _ Some])
      show "tree_ok (stop_one now k m)" using ok by (simp add: mgr_ok_def tree_ok_stop_one)
      show "getInstance (stop_one now k m) j = (if j = k then stop_result (Some i) else getInstance m j)" for j
        using Some by (simp add: stop_one_get)
      show "stop_result (Some i) = None \<or> stop_result (Some i) = Some (snd (detachAllSlots (Some InstanceStopped) i))"
        using False by (simp add: stop_result_def)
      show "\<exists>P. skeys (mg_db (stop_one now k m)) = filter P (skeys (mg_db m))"
        unfolding stop_one_skeys by (rule filter_all)
      show "set (mg_workers m) - inst_handles i \<subseteq> set (mg_workers (stop_one now k m))"
        using inst_handles_gone [OF Some] by (auto simp: stop_one_workers)
    qed
  qed
qed

lemma erase_skeys: "\<exists>P. skeys (mg_db (erase k m)) = filter P (skeys (mg_db m))"
  using skeys_DeleteInstance [of k "mg_db (pause_subs k m)"]
  by (simp add: erase_def Let_def pause_subs_def remove_instDir_def skeys_Pause)

lemma removeInstance_sched [simp]: "mg_sched (removeInstance k m) = mg_sched m"
  by (simp add: removeInstance_def Let_def split: option.split prod.split)

lemma mgr_ok_delete_one:
  assumes ok: "mgr_ok m"
  shows "mgr_ok (delete_one k m)"
proof (cases "getInstance m k")
  case None
  with ok show ?thesis by (simp add: delete_one_def)
next
  case (Some i)
  show ?thesis
  proof (rule mgr_ok_drop [OF ok _ Some])
    show "tree_ok (delete_one k m)" using ok by (simp add: mgr_ok_def tree_ok_delete_one)
    show "getInstance (delete_one k m) j = (if j = k then None else getInstance m j)" for j by (simp add: delete_one_get)
    show "\<exists>P. skeys (mg_db (delete_one k m)) = filter P (skeys (mg_db m))"
      using Some erase_skeys [of k "unregisterLocked k (Some i) m"] erase_skeys [of k "removeInstance k m"]
      by (simp add: delete_one_def)
    show "set (mg_workers m) - inst_handles i \<subseteq> set (mg_workers (delete_one k m))"
      using inst_handles_gone [OF Some] by (auto simp: delete_one_workers)
  qed simp
qed

lemma all_slots_frame [simp]:
  "all_slots (stop_workers hs m) = all_slots m" "all_slots (hook_start k m) = all_slots m"
  by (simp_all add: all_slots_def)

lemma mgr_ok_workers_gone:
  assumes ok: "mgr_ok m" and hs: "\<And>k sid s h. (k, sid, s) \<in> all_slots m \<Longrightarrow> sl_handle s = Some h \<Longrightarrow> h \<notin> set hs"
  shows "mgr_ok (stop_workers hs m)"
proof -
  have "slots_ok (all_slots m) (skeys (mg_db m)) (set (mg_workers (stop_workers hs m)))"
    by (rule slots_ok_fewer [OF _ fewer_refl subset_refl])
      (use ok hs in \<open>auto simp: mgr_ok_def dest: slots_okD(3)\<close>)
  with ok show ?thesis by (simp add: mgr_ok_def)
qed

lemma getInstance_upd [simp]: "getInstance (m\<lparr>mg_instances := is\<rparr>) j = gomap_get is j"
  by (simp add: getInstance_def)

lemma instances_getInstance [simp]: "gomap_get (mg_instances m) j = getInstance m j"
  by (simp add: getInstance_def)

lemma getInstance_fields [simp]:
  "getInstance (m\<lparr>mg_workers := ws\<rparr>) j = getInstance m j" "getInstance (m\<lparr>mg_sched := sc\<rparr>) j = getInstance m j"
  "getInstance (m\<lparr>mg_sessDirs := ds\<rparr>) j = getInstance m j"
  by (simp_all add: getInstance_def del: instances_getInstance)

lemma death_one_get:
  "getInstance (death_one now k m) j = (if j = k then stop_result (getInstance m k) else getInstance m j)"
  by (cases "getInstance m k")
    (auto simp: death_one_def stop_result_def Let_def unregister_instances split: prod.split)

lemma death_one_workers [simp]: "mg_workers (death_one now k m) = mg_workers m"
  by (auto simp: death_one_def Let_def split: option.split prod.split)

lemma death_one_skeys: "skeys (mg_db (death_one now k m)) = skeys (mg_db m)"
  by (auto simp: death_one_def Let_def setInstanceStatus_def skeys_simps split: option.split prod.split)

lemma tree_ok_death_one:
  assumes ok: "tree_ok m"
  shows "tree_ok (death_one now k m)"
proof (cases "getInstance m k")
  case None
  with ok show ?thesis by (simp add: death_one_def)
next
  case (Some i)
  have i: "inst_ok i" "mi_ID i = k" using ok Some by (auto simp: tree_ok_def)
  have "tree_ok ((hook_stop k m)\<lparr>mg_instances :=
      gomap_put k (snd (detachAllSlots (Some InstanceStopped) i)) (mg_instances (hook_stop k m))\<rparr>)"
    by (rule tree_ok_put [where i = i]) (use ok Some i in \<open>simp_all add: inst_ok_detach\<close>)
  moreover have "tree_ok (unregisterLocked k (Some (snd (detachAllSlots None i))) (hook_stop k m))"
    by (intro tree_ok_unregister') (use ok Some in simp_all)
  ultimately show ?thesis
    using Some ok by (simp add: death_one_def Let_def case_prod_beta)
qed

lemma mgr_ok_death_one:
  assumes ok: "mgr_ok m"
  shows "mgr_ok (death_one now k m)"
proof (cases "\<exists>i. getInstance m k = Some i \<and> mi_Status i = InstanceRunning")
  case False
  then have "death_one now k m = m" by (auto simp: death_one_def split: option.split) (metis InstanceStatus.exhaust)
  with ok show ?thesis by simp
next
  case True
  then obtain i where i: "getInstance m k = Some i" "mi_Status i = InstanceRunning" by blast
  show ?thesis
  proof (rule mgr_ok_drop [OF ok _ i(1), where r = "stop_result (Some i)"])
    show "tree_ok (death_one now k m)" using ok by (simp add: mgr_ok_def tree_ok_death_one)
    show "\<exists>P. skeys (mg_db (death_one now k m)) = filter P (skeys (mg_db m))"
      unfolding death_one_skeys by (rule filter_all)
  qed (use i in \<open>auto simp: death_one_get stop_result_def\<close>)
qed

lemma mgr_ok_fold: "mgr_ok m \<Longrightarrow> (\<And>k m. mgr_ok m \<Longrightarrow> mgr_ok (f k m)) \<Longrightarrow> mgr_ok (fold f ks m)"
  by (induction ks arbitrary: m) auto

lemma mgr_ok_put_removed:
  assumes ok: "mgr_ok m" and k: "getInstance m k = Some i"
  shows "mgr_ok (m\<lparr>mg_instances := gomap_put k (removeSlot sid i) (mg_instances m)\<rparr>)" (is "mgr_ok ?m")
proof (rule mgr_ok_shrink [OF ok])
  have i: "inst_ok i" "mi_ID i = k" "inst_live i" using ok k by (auto simp: mgr_ok_def tree_ok_def)
  have f: "mi_ID (removeSlot sid i) = mi_ID i" "mi_ParentID (removeSlot sid i) = mi_ParentID i"
    "mi_Status (removeSlot sid i) = mi_Status i" by (simp_all add: removeSlot_def split: option.split)
  have get: "getInstance ?m j = (if j = k then Some (removeSlot sid i) else getInstance m j)" for j
    by simp
  have sub: "all_slots ?m \<subseteq> all_slots m"
    using k by (auto simp: all_slots_def get removeSlot_sessions split: if_splits)
  then show "fewer (all_slots ?m) (all_slots m)" by (rule fewer_subset)
  show "tree_ok ?m"
    by (rule tree_ok_put [OF _ k]) (use ok i f in \<open>simp_all add: mgr_ok_def inst_ok_removeSlot\<close>)
  show "\<exists>P. skeys (mg_db ?m) = filter P (skeys (mg_db m))" using filter_all by simp
  show "h \<in> set (mg_workers ?m)" if "(j, sd, s) \<in> all_slots ?m" "sl_handle s = Some h" for j sd s h
    using sub that ok slots_okD(3) [of "all_slots m" "skeys (mg_db m)" "set (mg_workers m)" j sd s h]
    by (auto simp: mgr_ok_def)
  show "inst_live i'" if "getInstance ?m j = Some i'" for j i'
  proof (cases "j = k")
    case True
    with that get have "i' = removeSlot sid i" by simp
    with i(3) show ?thesis by (auto simp: inst_live_def removeSlot_sessions f split: if_splits)
  qed (use that get ok in \<open>simp add: mgr_ok_def\<close>)
qed

text \<open>The watch of a worker knows the slot the worker was started for.\<close>

definition watched :: "string \<Rightarrow> string \<Rightarrow> nat \<Rightarrow> 'sch Manager \<Rightarrow> bool" where
  "watched k sid h m \<longleftrightarrow> (\<forall>j sd s. (j, sd, s) \<in> all_slots m \<and> sl_handle s = Some h \<longrightarrow> j = k \<and> sd = sid)"

lemma mgr_ok_handleInstanceDeath: "mgr_ok m \<Longrightarrow> handleInstanceDeath now k m = Some m' \<Longrightarrow> mgr_ok m'"
  by (auto simp: handleInstanceDeath_def intro: mgr_ok_fold mgr_ok_death_one)

lemma stop_workers_put:
  "(stop_workers hs m)\<lparr>mg_instances := is\<rparr> = stop_workers hs (m\<lparr>mg_instances := is\<rparr>)"
  by (simp add: stop_workers_def)

lemma mgr_ok_watchSlotWorker:
  assumes ok: "mgr_ok m" and w: "watched k sid h m" and r: "watchSlotWorker now k sid h m = Some m'"
  shows "mgr_ok m'"
proof -
  let ?stale = "\<lambda>i. mi_Status i = InstanceStopped \<or>
    (case gomap_get (mi_sessions i) sid of None \<Rightarrow> True | Some slot \<Rightarrow> sl_handle slot \<noteq> Some h)"
  show ?thesis
  proof (cases "\<exists>i. getInstance m k = Some i \<and> \<not> ?stale i")
    case False
    have "sl_handle s \<noteq> Some h" if s: "(j, sd, s) \<in> all_slots m" for j sd s
    proof
      assume hs: "sl_handle s = Some h"
      with w s have jk: "j = k" "sd = sid" by (auto simp: watched_def)
      from s jk obtain i where i: "getInstance m k = Some i" "gomap_get (mi_sessions i) sid = Some s"
        by (auto simp: all_slots_def)
      from ok i(1) have "inst_live i" by (simp add: mgr_ok_def)
      with i hs have "\<not> ?stale i" by (auto simp: inst_live_def)
      with False i(1) show False by blast
    qed
    then have "mgr_ok (stop_workers [h] m)" using mgr_ok_workers_gone [OF ok, of "[h]"] by auto
    moreover have "m' = stop_workers [h] m"
      using r False by (auto simp: watchSlotWorker_def Let_def split: option.splits)
    ultimately show ?thesis by simp
  next
    case True
    then obtain i where i: "getInstance m k = Some i" "\<not> ?stale i" by blast
    let ?m1 = "m\<lparr>mg_instances := gomap_put k (removeSlot sid i) (mg_instances m)\<rparr>"
    have "mgr_ok ?m1" using ok i(1) by (rule mgr_ok_put_removed)
    moreover have "sl_handle s \<noteq> Some h" if "(j, sd, s) \<in> all_slots ?m1" for j sd s
      using that w i(1) by (force simp: all_slots_def watched_def removeSlot_sessions split: if_splits)
    ultimately have m1: "mgr_ok (stop_workers [h] ?m1)" using mgr_ok_workers_gone [of ?m1 "[h]"] by auto
    have "m' = stop_workers [h] ?m1 \<or> handleInstanceDeath now k (stop_workers [h] ?m1) = Some m'"
      using r i by (auto simp: watchSlotWorker_def Let_def stop_workers_put split: if_splits)
    with m1 mgr_ok_handleInstanceDeath show ?thesis by metis
  qed
qed

section \<open>Operations that start a worker\<close>

lemma split_type: "splitChannelKey ch = (ct, ci) \<Longrightarrow> CHR '':'' \<notin> set ct"
  by (auto simp: splitChannelKey_def Cut_Some Cut_None split: option.splits)

lemma proper_make: "CHR '':'' \<notin> set ct \<Longrightarrow> proper_key (makeChannelKey ct ci)"
  by (simp add: proper_key_def split_make)

lemma proper_inj: "proper_key a \<Longrightarrow> proper_key b \<Longrightarrow> splitChannelKey a = splitChannelKey b \<Longrightarrow> a = b"
  by (auto simp: proper_key_def split: prod.splits)

lemma proper_initial: "proper_key (initial_channel parentID)"
proof -
  have c: "CHR '':'' \<notin> set ''agent''" "CHR '':'' \<notin> set ''web''" by simp_all
  have "initial_channel parentID = makeChannelKey ''agent'' parentID \<or> initial_channel parentID = makeChannelKey ''web'' []"
    by (simp add: initial_channel_def makeChannelKey_def)
  then show ?thesis using proper_make [OF c(1)] proper_make [OF c(2)] by metis
qed

text \<open>What a session identifier may be: unknown so far, or that of a row with the channel.\<close>

definition sid_fits :: "string \<Rightarrow> string \<Rightarrow> 'sch Manager \<Rightarrow> bool" where
  "sid_fits sid ch m \<longleftrightarrow> (\<forall>p. (sid, p) \<in> set (skeys (mg_db m)) \<longrightarrow> p = splitChannelKey ch) \<and>
     (\<forall>k s. (k, sid, s) \<in> all_slots m \<longrightarrow> splitChannelKey (sl_channel s) = splitChannelKey ch)"

definition fresh_sid :: "string \<Rightarrow> 'sch Manager \<Rightarrow> bool" where
  "fresh_sid sid m \<longleftrightarrow> sid \<noteq> [] \<and> sid \<notin> fst ` set (skeys (mg_db m)) \<and> (\<forall>k s. (k, sid, s) \<notin> all_slots m)"

lemma fresh_fits: "fresh_sid sid m \<Longrightarrow> sid_fits sid ch m"
  by (auto simp: fresh_sid_def sid_fits_def image_iff)

lemma row_fits:
  assumes ok: "mgr_ok m" and row: "(sid, ct, ci) \<in> set (skeys (mg_db m))" and ch: "splitChannelKey ch = (ct, ci)"
  shows "sid_fits sid ch m"
proof -
  have d: "distinct (map fst (skeys (mg_db m)))" using ok by (simp add: mgr_ok_def keys_ok_def)
  have "p = (ct, ci)" if "(sid, p) \<in> set (skeys (mg_db m))" for p
    using eq_key_imp_eq_value [OF d that row] .
  moreover have "splitChannelKey (sl_channel s) = (ct, ci)" if "(k, sid, s) \<in> all_slots m" for k s
    using slots_okD(2) [of "all_slots m" "skeys (mg_db m)" "set (mg_workers m)" k sid s "(ct, ci)"] ok that row
    by (simp add: mgr_ok_def)
  ultimately show ?thesis using ch by (simp add: sid_fits_def)
qed

text \<open>The database part: the rows only grow by the row of the session.\<close>

definition rows_added :: "string \<Rightarrow> string \<times> string \<Rightarrow> platform_db \<Rightarrow> platform_db \<Rightarrow> bool" where
  "rows_added sid p db db' \<longleftrightarrow> pdb_sessions db' = pdb_sessions db \<or>
     (\<exists>row. pdb_sessions db' = pdb_sessions db @ [row] \<and> se_ID row = sid \<and> (se_ChannelType row, se_ChannelID row) = p \<and>
        sid \<notin> se_ID ` set (pdb_sessions db))"

lemma rows_added_skeys:
  "rows_added sid p db db' \<Longrightarrow> skeys db' = skeys db \<or> skeys db' = skeys db @ [(sid, p)] \<and> sid \<notin> fst ` set (skeys db)"
  by (auto simp: rows_added_def skeys_def)

lemma rows_added_same: "pdb_sessions db' = pdb_sessions db \<Longrightarrow> rows_added sid p db db'"
  by (simp add: rows_added_def)

definition row_added :: "string \<Rightarrow> string \<Rightarrow> 'sch Manager \<Rightarrow> 'sch Manager \<Rightarrow> bool" where
  "row_added sid ch m m' \<longleftrightarrow> mg_instances m' = mg_instances m \<and> mg_children m' = mg_children m \<and>
     mg_workers m' = mg_workers m \<and> rows_added sid (splitChannelKey ch) (mg_db m) (mg_db m')"



lemma row_added_get: "row_added sid ch m m' \<Longrightarrow> getInstance m' k = getInstance m k"
  by (metis instances_getInstance row_added_def)

lemma row_added_slots: "row_added sid ch m m' \<Longrightarrow> all_slots m' = all_slots m"
  by (simp add: all_slots_def row_added_get)

lemma row_added_ok:
  assumes r: "row_added sid ch m m'" and ok: "mgr_ok m" and fit: "sid_fits sid ch m"
  shows "mgr_ok m'" "sid_fits sid ch m'"
proof -
  have sk: "skeys (mg_db m') = skeys (mg_db m) \<or>
      skeys (mg_db m') = skeys (mg_db m) @ [(sid, splitChannelKey ch)] \<and> sid \<notin> fst ` set (skeys (mg_db m))"
    using r rows_added_skeys by (simp add: row_added_def)
  have t: "tree_ok m'" using r ok tree_ok_cong [of m' m] by (simp add: row_added_def mgr_ok_def)
  have w: "mg_workers m' = mg_workers m" using r by (simp add: row_added_def)
  have k: "keys_ok (skeys (mg_db m'))"
    using sk ok keys_ok_append [of "skeys (mg_db m)" sid] split_type [of ch]
    by (cases "splitChannelKey ch") (auto simp: mgr_ok_def)
  have "slots_ok (all_slots m) (skeys (mg_db m')) (set (mg_workers m))"
    using sk ok fit slots_ok_row [of "all_slots m" "skeys (mg_db m)" "set (mg_workers m)" sid "splitChannelKey ch"]
    by (auto simp: mgr_ok_def sid_fits_def)
  with t k ok show "mgr_ok m'" by (simp add: mgr_ok_def row_added_slots [OF r] w row_added_get [OF r])
  show "sid_fits sid ch m'"
    using sk fit by (auto simp: sid_fits_def row_added_slots [OF r])
qed

lemma mgr_ok_cong:
  assumes "mg_instances m' = mg_instances m" "mg_children m' = mg_children m" "mg_workers m' = mg_workers m"
    "skeys (mg_db m') = skeys (mg_db m)"
  shows "mgr_ok m' = mgr_ok m"
proof -
  have "getInstance m' k = getInstance m k" for k using assms(1) by (metis instances_getInstance)
  then show ?thesis using assms tree_ok_cong [of m' m] by (simp add: mgr_ok_def all_slots_def)
qed

lemma CreateSession_rows:
  "CreateSession now s db = Inr db' \<Longrightarrow> rows_added (se_ID s) (se_ChannelType s, se_ChannelID s) db db'"
  by (auto simp: CreateSession_def rows_added_def split: if_splits)

lemma registerInstanceInDB_rows:
  assumes "registerInstanceInDB now k sid ct ci an mode par node db = (r, db')"
  shows "rows_added sid (ct, ci) db db'"
proof -
  have ci: "pdb_sessions db1 = pdb_sessions db" if "ignore_dup (CreateInstance now i db) db = Inr db1" for i db1
    using that by (auto simp: ignore_dup_def CreateInstance_def split: if_splits)
  have cs: "rows_added sid (ct, ci) db1 db2"
    if "ignore_dup (CreateSession now (new_session_row sid k an mode ct ci) db1) db1 = Inr db2" for db1 db2
    using that CreateSession_rows [of now "new_session_row sid k an mode ct ci" db1 db2]
    by (auto simp: ignore_dup_def new_session_row_def rows_added_same split: if_splits)
  show ?thesis
  proof (cases "ignore_dup (CreateInstance now \<lparr>in_ID = k, in_AgentName = an, in_Mode = mode,
      in_ParentID = par, in_NodeID = node, in_Status = [], in_CreatedAt = 0, in_StoppedAt = None\<rparr> db) db")
    case (Inl e)
    with assms show ?thesis by (simp add: registerInstanceInDB_def rows_added_same)
  next
    case (Inr db1)
    note db1 = ci [OF Inr]
    show ?thesis
    proof (cases "ignore_dup (CreateSession now (new_session_row sid k an mode ct ci) db1) db1")
      case (Inl e)
      with assms Inr db1 show ?thesis by (simp add: registerInstanceInDB_def rows_added_same)
    next
      case r: (Inr db2)
      with assms Inr have "db' = db2" by (simp add: registerInstanceInDB_def)
      with cs [OF r] db1 show ?thesis by (simp add: rows_added_def)
    qed
  qed
qed

lemma mgr_ok_register:
  assumes ok: "mgr_ok m" and new: "getInstance m (mi_ID inst) = None" and anc: "(mi_ID inst, mi_ParentID inst) \<notin> (lineage m)\<^sup>*"
    and sess: "mi_sessions inst = [(sid, s)]" "mi_channelIndex inst = [(sl_channel s, sid)]"
    and st: "mi_Status inst = InstanceRunning" and fit: "sid_fits sid (sl_channel s) m" "proper_key (sl_channel s)"
    and h: "sl_handle s = Some h" "h \<notin> set (mg_workers m)"
  shows "mgr_ok (register inst (m\<lparr>mg_workers := h # mg_workers m\<rparr>))" (is "mgr_ok (register inst ?m)")
proof -
  have io: "inst_ok inst" using sess by (auto simp: inst_ok_def gomap_ok_def gomap_get_def)
  have get: "getInstance ?m k = getInstance m k" for k by simp
  then have lin: "lineage ?m = lineage m" by (simp add: lineage_def)
  have "tree_ok ?m" using ok tree_ok_cong [of ?m m] by (simp add: mgr_ok_def)
  then have t: "tree_ok (register inst ?m)" by (rule tree_ok_register) (use io new anc get lin in simp_all)
  have sl: "all_slots (register inst ?m) = insert (mi_ID inst, sid, s) (all_slots m)"
    using new sess by (auto simp: all_slots_def register_instances get gomap_get_def split: if_splits)
  have "slots_ok (insert (mi_ID inst, sid, s) (all_slots m)) (skeys (mg_db m)) (insert h (set (mg_workers m)))"
    by (rule slots_ok_new) (use ok fit h in \<open>auto simp: mgr_ok_def sid_fits_def\<close>)
  moreover have "inst_live inst" using sess st h by (auto simp: inst_live_def gomap_get_def split: if_splits)
  ultimately show ?thesis using t ok by (auto simp: mgr_ok_def sl register_instances get split: if_splits)
qed

lemma dirs_same:
  "prepareInstanceDirs ok k sid m = Some (new, m1) \<Longrightarrow> mg_instances m1 = mg_instances m \<and> mg_children m1 = mg_children m \<and>
     mg_workers m1 = mg_workers m \<and> mg_sched m1 = mg_sched m"
  by (auto simp: prepareInstanceDirs_def split: if_splits)

lemma row_added_cleanup:
  "row_added sid ch m m' \<Longrightarrow> row_added sid ch m (makeCleanup k sd new m')"
  by (simp add: row_added_def)

text \<open>A start that fails leaves the registry and the workers alone; one that succeeds registers the
  instance with the one slot of its session.\<close>

lemma startInstance_outcome:
  assumes "startInstance env k sid ch cfg par mode node dn dd m = (r, m')"
  shows "(\<exists>e. r = Inl e \<and> row_added sid ch m m') \<or>
    (\<exists>m2 nodeID model h n loop. r = Inr k \<and> sv_spawn env = Some h \<and> row_added sid ch m m2 \<and>
       m' = hook_start k (register (buildInstance k sid ch cfg mode par nodeID model dn dd h n loop)
              (m2\<lparr>mg_workers := h # mg_workers m2\<rparr>)))"
proof (cases "prepareInstanceDirs (sv_dirsOK env) k sid m")
  case None
  with assms show ?thesis by (auto simp: startInstance_def row_added_def rows_added_same)
next
  case (Some p)
  obtain new m1 where p: "p = (new, m1)" by fastforce
  obtain ct ci where ch: "splitChannelKey ch = (ct, ci)" by fastforce
  let ?node = "if node = [] then ''home'' else node"
  obtain e db where db: "registerInstanceInDB (sv_now env) k sid ct ci (ac_Name cfg) mode par ?node (mg_db m1) = (e, db)"
    by fastforce
  have m1: "mg_instances m1 = mg_instances m \<and> mg_children m1 = mg_children m \<and> mg_workers m1 = mg_workers m \<and>
      mg_sched m1 = mg_sched m"
    using dirs_same Some p by blast
  have added: "row_added sid ch m (set_db db m1)"
    using m1 registerInstanceInDB_rows [OF db] ch by (auto simp: row_added_def)
  show ?thesis
  proof (cases e)
    case (Some e')
    then show ?thesis using assms \<open>prepareInstanceDirs _ _ _ _ = Some p\<close> p ch db added
      by (auto simp: startInstance_def Let_def)
  next
    case None
    note run = assms [unfolded startInstance_def \<open>prepareInstanceDirs _ _ _ _ = Some p\<close> p option.case prod.case Let_def ch db None]
    show ?thesis
    proof (cases "\<exists>model hp h n loop. sv_toolsOK env \<and> sv_model env = Some (model, hp) \<and> spawnWorker env ?node = Some (h, n) \<and>
        createInferenceLoop env hp = Some loop")
      case True
      then obtain model hp h n loop where t: "sv_toolsOK env" "sv_model env = Some (model, hp)"
        "spawnWorker env ?node = Some (h, n)" "createInferenceLoop env hp = Some loop" by blast
      have "r = Inr k \<and> m' = hook_start k (register (buildInstance k sid ch cfg mode par ?node model dn dd h n loop)
          ((set_db db m1)\<lparr>mg_workers := h # mg_workers (set_db db m1)\<rparr>))"
        using run t by (simp add: registerAndStartInstance_def buildInstance_def)
      moreover have "sv_spawn env = Some h" using t(3) by (auto simp: spawnWorker_def)
      ultimately show ?thesis using added by blast
    next
      case False
      have "\<exists>e. r = Inl e \<and> (m' = set_db db m1 \<or> m' = makeCleanup k sid new (set_db db m1))"
        using run False by (auto split: if_splits option.splits prod.splits)
      then show ?thesis using added row_added_cleanup by metis
    qed
  qed
qed

lemma mgr_ok_startInstance:
  assumes ok: "mgr_ok m" and new: "getInstance m k = None" and anc: "(k, par) \<notin> (lineage m)\<^sup>*"
    and fit: "sid_fits sid ch m" "proper_key ch" and h: "\<And>h. sv_spawn env = Some h \<Longrightarrow> h \<notin> set (mg_workers m)"
    and run: "startInstance env k sid ch cfg par mode node dn dd m = (r, m')"
  shows "mgr_ok m' \<and> (\<exists>e. r = Inl e \<and> row_added sid ch m m' \<or> r = Inr k)"
proof -
  consider e where "r = Inl e" "row_added sid ch m m'"
    | m2 nodeID model h n loop where "r = Inr k" "sv_spawn env = Some h" "row_added sid ch m m2"
      "m' = hook_start k (register (buildInstance k sid ch cfg mode par nodeID model dn dd h n loop)
              (m2\<lparr>mg_workers := h # mg_workers m2\<rparr>))"
    using startInstance_outcome [OF run] by blast
  then show ?thesis
  proof cases
    case 1
    then show ?thesis using row_added_ok(1) [OF _ ok fit(1)] by blast
  next
    case (2 m2 nodeID model h n loop)
    let ?i = "buildInstance k sid ch cfg mode par nodeID model dn dd h n loop"
    note m2 = row_added_ok [OF 2(3) ok fit(1)]
    have w: "mg_workers m2 = mg_workers m" using 2(3) by (simp add: row_added_def)
    have lin: "lineage m2 = lineage m" using row_added_get [OF 2(3)] by (simp add: lineage_def)
    have "mgr_ok (register ?i (m2\<lparr>mg_workers := h # mg_workers m2\<rparr>))"
      by (rule mgr_ok_register [where sid = sid and
            s = "\<lparr>sl_channel = ch, sl_handle = Some h, sl_loop = loop, sl_node = n\<rparr>"])
        (use m2 fit new anc lin w 2(2) assms(6) row_added_get [OF 2(3)] in \<open>simp_all add: buildInstance_def\<close>)
    then have "mgr_ok m'" using 2(4) mgr_ok_cong [of m' "register ?i (m2\<lparr>mg_workers := h # mg_workers m2\<rparr>)"] by simp
    with 2(1) show ?thesis by simp
  qed
qed

section \<open>Sessions\<close>

lemma getInstance_put_inst [simp]:
  "getInstance (put_inst k i m) j = (if j = k then Some i else getInstance m j)"
  by (simp add: put_inst_def)

lemma put_inst_frame [simp]:
  "mg_workers (put_inst k i m) = mg_workers m" "mg_sched (put_inst k i m) = mg_sched m"
  "mg_sessDirs (put_inst k i m) = mg_sessDirs m"
  by (simp_all add: put_inst_def)

lemma fit_no_slot:
  assumes ok: "mgr_ok m" and k: "getInstance m k = Some i" and fit: "sid_fits sid ch m" "proper_key ch"
    and ch: "gomap_get (mi_channelIndex i) ch = None"
  shows "gomap_get (mi_sessions i) sid = None"
proof (rule ccontr)
  assume "gomap_get (mi_sessions i) sid \<noteq> None"
  then obtain s where s: "gomap_get (mi_sessions i) sid = Some s" by blast
  with k have "(k, sid, s) \<in> all_slots m" by (rule all_slotsI)
  with fit ok have "splitChannelKey (sl_channel s) = splitChannelKey ch" "proper_key (sl_channel s)"
    using slots_okD(1) [of "all_slots m"] by (auto simp: sid_fits_def mgr_ok_def)
  then have "sl_channel s = ch" using fit(2) proper_inj by blast
  moreover have "inst_ok i" using ok k by (auto simp: mgr_ok_def tree_ok_def)
  ultimately show False using inst_ok_channel [OF _ s] ch by simp
qed

lemma mgr_ok_addSlot:
  assumes ok: "mgr_ok m" and k: "getInstance m k = Some i" "mi_Status i = InstanceRunning"
    and fit: "sid_fits sid ch m" "proper_key ch" and ch: "gomap_get (mi_channelIndex i) ch = None"
    and h: "h \<notin> set (mg_workers m)"
  shows "mgr_ok (put_inst k (addSlot sid (new_slot ch h loop) i) (m\<lparr>mg_workers := h # mg_workers m\<rparr>))" (is "mgr_ok ?m")
proof -
  let ?s = "new_slot ch h loop" and ?mw = "m\<lparr>mg_workers := h # mg_workers m\<rparr>"
  have s: "sl_channel ?s = ch" "sl_handle ?s = Some h" by (simp_all add: new_slot_def)
  have none: "gomap_get (mi_sessions i) sid = None" using fit_no_slot [OF ok k(1) fit ch] .
  have i: "inst_ok i" "mi_ID i = k" "inst_live i" using ok k by (auto simp: mgr_ok_def tree_ok_def)
  have i': "inst_ok (addSlot sid ?s i)" using inst_ok_addSlot [OF i(1) none] s ch by simp
  have get: "getInstance ?m j = (if j = k then Some (addSlot sid ?s i) else getInstance m j)" for j
    by simp
  have "tree_ok ?mw" using ok tree_ok_cong [of ?mw m] by (simp add: mgr_ok_def)
  then have t: "tree_ok ?m" unfolding put_inst_def
    by (rule tree_ok_put [where i = i]) (use i' i(2) k(1) in \<open>simp_all add: addSlot_def\<close>)
  have sl: "all_slots ?m = insert (k, sid, ?s) (all_slots m)"
    using k none by (auto simp: all_slots_def get addSlot_def split: if_splits)
  have "slots_ok (insert (k, sid, ?s) (all_slots m)) (skeys (mg_db m)) (insert h (set (mg_workers m)))"
    by (rule slots_ok_new) (use ok fit h s in \<open>auto simp: mgr_ok_def sid_fits_def\<close>)
  moreover have "inst_live (addSlot sid ?s i)" using i(3) k s by (auto simp: inst_live_def addSlot_def)
  ultimately show ?thesis using t ok by (auto simp: mgr_ok_def sl get split: if_splits)
qed

definition pick_ok :: "(Session list \<Rightarrow> Session) \<Rightarrow> bool" where
  "pick_ok pick \<longleftrightarrow> (\<forall>rows. rows \<noteq> [] \<longrightarrow> pick rows \<in> set rows)"

lemma newest_mem: "pick_ok pick \<Longrightarrow> newest pick rows = Some s \<Longrightarrow> s \<in> set rows"
proof -
  assume p: "pick_ok pick" and s: "newest pick rows = Some s"
  let ?top = "filter (\<lambda>s. \<forall>s' \<in> set rows. se_CreatedAt s' \<le> se_CreatedAt s) rows"
  have "?top \<noteq> []" "s = pick ?top" using s by (auto simp: newest_def Let_def split: if_splits)
  then have "s \<in> set ?top" using p unfolding pick_ok_def by blast
  then show ?thesis by simp
qed

lemma resolved_fits:
  assumes ok: "mgr_ok m" and p: "pick_ok (sn_pick env)" and f: "fresh_sid (sn_newID env) m"
    and ch: "splitChannelKey ch = (ct, ci)"
  shows "sid_fits (resolveSessionIDFromDB env k ct ci m) ch m"
proof (cases "resolveSessionIDFromDB env k ct ci m = sn_newID env")
  case True
  with f show ?thesis by (simp add: fresh_fits)
next
  case False
  then obtain s where s: "LatestSessionByChannel (sn_pick env) k ct ci (mg_db m) = Some s"
    "resolveSessionIDFromDB env k ct ci m = se_ID s"
    by (auto simp: resolveSessionIDFromDB_def split: option.splits if_splits)
  then have "s \<in> set (pdb_sessions (mg_db m))" "se_ChannelType s = ct" "se_ChannelID s = ci"
    using newest_mem [OF p s(1) [unfolded LatestSessionByChannel_def]] by auto
  then have "(se_ID s, ct, ci) \<in> set (skeys (mg_db m))" by (force simp: skeys_def)
  with ok ch s(2) show ?thesis by (simp add: row_fits)
qed

lemma createSessionDirs_same:
  "createSessionDirs ok k sid m = Some m1 \<Longrightarrow> mg_instances m1 = mg_instances m \<and> mg_children m1 = mg_children m \<and>
     mg_workers m1 = mg_workers m \<and> mg_sched m1 = mg_sched m"
  by (auto simp: createSessionDirs_def split: if_splits)

lemma session_row:
  assumes "ignore_dup (registerSessionInDBWithChannel now k sid an mode ct ci db) db = Inr db'"
  shows "rows_added sid (ct, ci) db db'"
  using assms CreateSession_rows [of now "new_session_row sid k an mode ct ci" db db']
  by (auto simp: ignore_dup_def registerSessionInDBWithChannel_def new_session_row_def rows_added_same split: if_splits)

lemma spawn_outcome:
  "spawnSessionWorkerAndLoop env hp m = (r, m') \<Longrightarrow>
     (\<exists>e. r = Inl e \<and> m' = m) \<or>
     (\<exists>h loop. r = Inr (h, loop) \<and> sv_spawn (sn_start env) = Some h \<and> m' = m\<lparr>mg_workers := h # mg_workers m\<rparr>)"
  by (auto simp: spawnSessionWorkerAndLoop_def split: option.splits)

lemma createSessionSlot_outcome:
  assumes run: "createSessionSlot env i k ch m = (r, m')" and ch: "splitChannelKey ch = (ct, ci)"
    and sid: "sid = resolveSessionIDFromDB env k ct ci m"
  shows "(\<exists>e. r = Inl e \<and> row_added sid ch m m') \<or>
    (\<exists>m2 h loop. r = Inr sid \<and> sv_spawn (sn_start env) = Some h \<and> row_added sid ch m m2 \<and>
       m' = put_inst k (addSlot sid (new_slot ch h loop) i) (m2\<lparr>mg_workers := h # mg_workers m2\<rparr>))"
proof (cases "createSessionDirs (sv_dirsOK (sn_start env)) k sid m")
  case None
  with run ch sid show ?thesis by (auto simp: createSessionSlot_def Let_def row_added_def rows_added_same)
next
  case (Some m1)
  note same = createSessionDirs_same [OF Some]
  let ?reg = "ignore_dup (registerSessionInDBWithChannel (sv_now (sn_start env)) k sid (mi_agentName i) (mi_Mode i) ct ci
      (mg_db m1)) (mg_db m1)"
  show ?thesis
  proof (cases ?reg)
    case (Inl e)
    with run ch sid Some same show ?thesis by (auto simp: createSessionSlot_def Let_def row_added_def rows_added_same)
  next
    case (Inr db)
    have added: "row_added sid ch m (set_db db m1)"
      using session_row [OF Inr] same ch by (auto simp: row_added_def)
    show ?thesis
    proof (cases "resolveSessionConfig env")
      case (Inl e)
      with run ch sid Some Inr added show ?thesis by (auto simp: createSessionSlot_def Let_def)
    next
      case hp: (Inr hp)
      obtain r' m3 where sp: "spawnSessionWorkerAndLoop env hp (set_db db m1) = (r', m3)" by fastforce
      note run' = run [unfolded createSessionSlot_def ch prod.case Let_def sid [symmetric] Some option.case Inr sum.case hp sp]
      from spawn_outcome [OF sp] show ?thesis
      proof (elim disjE exE conjE)
        fix e assume "r' = Inl e" "m3 = set_db db m1"
        with run' added show ?thesis by auto
      next
        fix h loop assume "r' = Inr (h, loop)" "sv_spawn (sn_start env) = Some h"
          "m3 = (set_db db m1)\<lparr>mg_workers := h # mg_workers (set_db db m1)\<rparr>"
        with run' added show ?thesis by (intro disjI2 exI [of _ "set_db db m1"]) auto
      qed
    qed
  qed
qed

text \<open>In a state that satisfies the invariant the slot of a running instance always has its worker, so
  \<open>EnsureSession\<close> either finds the slot or creates it.\<close>

lemma EnsureSession_running:
  assumes ok: "mgr_ok m" and k: "getInstance m k = Some i" "mi_Status i = InstanceRunning"
  shows "EnsureSession env k ch m =
    (case gomap_get (mi_channelIndex i) ch of
       Some sid \<Rightarrow> (Inr sid, m)
     | None \<Rightarrow> if maxSessionsPerInstance \<le> length (mi_sessions i) then (Inl TooManySessions, m)
               else createSessionSlot env i k ch m)"
proof (cases "gomap_get (mi_channelIndex i) ch")
  case None
  with k show ?thesis by (simp add: EnsureSession_def)
next
  case (Some sid)
  have i: "inst_ok i" "inst_live i" using ok k by (auto simp: mgr_ok_def tree_ok_def)
  from Some i(1) obtain s where s: "gomap_get (mi_sessions i) sid = Some s" by (auto simp: inst_ok_def)
  with i(2) k(2) have "slot_alive s" by (auto simp: inst_live_def slot_alive_def)
  with Some s k show ?thesis by (simp add: EnsureSession_def)
qed

definition fresh_worker :: "start_env \<Rightarrow> 'sch Manager \<Rightarrow> bool" where
  "fresh_worker env m \<longleftrightarrow> (\<forall>h. sv_spawn env = Some h \<longrightarrow> h \<notin> set (mg_workers m))"

text \<open>Assumptions of an operation that may start a session: the identifier and the worker are new, the
  database returns one of the newest rows.\<close>

definition env_ok :: "session_env \<Rightarrow> 'sch Manager \<Rightarrow> bool" where
  "env_ok env m \<longleftrightarrow> pick_ok (sn_pick env) \<and> fresh_sid (sn_newID env) m \<and> fresh_worker (sn_start env) m"

lemma createSessionSlot_ok:
  assumes ok: "mgr_ok m" and k: "getInstance m k = Some i" "mi_Status i = InstanceRunning"
    and env: "env_ok env m" and ch: "proper_key ch" "gomap_get (mi_channelIndex i) ch = None"
    and run: "createSessionSlot env i k ch m = (r, m')"
  shows "mgr_ok m'" "\<And>j. j \<noteq> k \<Longrightarrow> getInstance m' j = getInstance m j"
    "case r of Inl _ \<Rightarrow> getInstance m' k = Some i
     | Inr sid \<Rightarrow> gomap_get (mi_sessions i) sid = None \<and>
         (\<exists>h loop. getInstance m' k = Some (addSlot sid (new_slot ch h loop) i))"
proof -
  obtain ct ci where c: "splitChannelKey ch = (ct, ci)" by fastforce
  define sid where "sid = resolveSessionIDFromDB env k ct ci m"
  have fit: "sid_fits sid ch m"
    using resolved_fits [OF ok _ _ c] env unfolding sid_def env_ok_def by blast
  have none: "gomap_get (mi_sessions i) sid = None" using fit_no_slot [OF ok k(1) fit ch] .
  from createSessionSlot_outcome [OF run c sid_def] consider
      (fail) e where "r = Inl e" "row_added sid ch m m'"
    | (new) m2 h loop where "r = Inr sid" "sv_spawn (sn_start env) = Some h" "row_added sid ch m m2"
      "m' = put_inst k (addSlot sid (new_slot ch h loop) i) (m2\<lparr>mg_workers := h # mg_workers m2\<rparr>)" by blast
  then have "mgr_ok m' \<and> (\<forall>j. j \<noteq> k \<longrightarrow> getInstance m' j = getInstance m j) \<and>
    (case r of Inl _ \<Rightarrow> getInstance m' k = Some i
     | Inr sid \<Rightarrow> gomap_get (mi_sessions i) sid = None \<and>
         (\<exists>h loop. getInstance m' k = Some (addSlot sid (new_slot ch h loop) i)))"
  proof cases
    case fail
    then show ?thesis using row_added_ok(1) [OF _ ok fit] row_added_get k by fastforce
  next
    case new
    note m2 = row_added_ok [OF new(3) ok fit]
    have "h \<notin> set (mg_workers m2)" using new(2,3) env by (simp add: env_ok_def fresh_worker_def row_added_def)
    then have "mgr_ok m'"
      using mgr_ok_addSlot [OF m2(1) _ k(2) m2(2) ch, where h = h and loop = loop] row_added_get [OF new(3), of k] k(1) new(4) by simp
    then show ?thesis using new row_added_get [OF new(3)] none by auto
  qed
  then show "mgr_ok m'" "\<And>j. j \<noteq> k \<Longrightarrow> getInstance m' j = getInstance m j"
    "case r of Inl _ \<Rightarrow> getInstance m' k = Some i
     | Inr sid \<Rightarrow> gomap_get (mi_sessions i) sid = None \<and>
         (\<exists>h loop. getInstance m' k = Some (addSlot sid (new_slot ch h loop) i))" by blast+
qed

lemma mgr_ok_EnsureSession:
  assumes ok: "mgr_ok m" and env: "env_ok env m" and ch: "proper_key ch" and run: "EnsureSession env k ch m = (r, m')"
  shows "mgr_ok m'"
proof (cases "\<exists>i. getInstance m k = Some i \<and> mi_Status i = InstanceRunning")
  case True
  then obtain i where k: "getInstance m k = Some i" "mi_Status i = InstanceRunning" by blast
  show ?thesis
    using run [unfolded EnsureSession_running [OF ok k]] ok createSessionSlot_ok(1) [OF ok k env ch]
    by (auto split: option.splits if_splits)
next
  case False
  then have "m' = m" using run by (auto simp: EnsureSession_def split: option.splits if_splits) (metis InstanceStatus.exhaust)+
  with ok show ?thesis by simp
qed

lemma length_addSlot: "gomap_get (mi_sessions i) sid = None \<Longrightarrow> length (mi_sessions (addSlot sid s i)) = Suc (length (mi_sessions i))"
  by (simp add: addSlot_def length_gomap_put)

lemma slotByChannel_addSlot:
  assumes "inst_ok i" "gomap_get (mi_sessions i) sid = None"
  shows "slotByChannel (addSlot sid s i) ch = (if ch = sl_channel s then Some s else slotByChannel i ch)"
proof -
  have "gomap_get (mi_channelIndex i) ch \<noteq> Some sid" using assms by (auto simp: inst_ok_def)
  then show ?thesis by (auto simp: slotByChannel_def addSlot_def split: option.split)
qed


section \<open>Clearing a channel\<close>

lemma removeSlot_none: "gomap_get (mi_sessions i) sid = None \<Longrightarrow> removeSlot sid i = i"
  by (simp add: removeSlot_def)

lemma slotByChannel_removeSlot:
  assumes "inst_ok i"
  shows "slotByChannel (removeSlot sid i) ch = (if gomap_get (mi_channelIndex i) ch = Some sid then None else slotByChannel i ch)"
  using assms by (auto simp: slotByChannel_def removeSlot_index removeSlot_sessions split: option.split)

lemma detach_cases:
  assumes ok: "inst_ok i" and d: "detachChannelSlot i ch = (oh, osid, i1)"
  obtains (none) "gomap_get (mi_channelIndex i) ch = None" "oh = None" "osid = []" "i1 = i"
    | (some) s where "gomap_get (mi_channelIndex i) ch = Some osid" "gomap_get (mi_sessions i) osid = Some s"
        "oh = sl_handle s" "i1 = removeSlot osid i"
proof (cases "gomap_get (mi_channelIndex i) ch")
  case None
  then have "oh = None" "osid = []" "i1 = i" using d by (simp_all add: detachChannelSlot_def slotByChannel_def)
  with None show ?thesis by (intro none)
next
  case (Some sid)
  then obtain s where s: "gomap_get (mi_sessions i) sid = Some s" using ok by (auto simp: inst_ok_def)
  then have "osid = sid" "oh = sl_handle s" "i1 = removeSlot sid i"
    using Some d by (auto simp: detachChannelSlot_def slotByChannel_def gomap_get_str_def Let_def)
  with Some s show ?thesis by (intro some) auto
qed

lemma detach_channel:
  assumes ok: "inst_ok i" and d: "detachChannelSlot i ch = (oh, osid, i1)"
  shows "gomap_get (mi_channelIndex i1) ch = None" "ch' \<noteq> ch \<Longrightarrow> slotByChannel i1 ch' = slotByChannel i ch'"
    "mi_Status i1 = mi_Status i"
proof -
  have idx: "gomap_get (mi_channelIndex i) a = Some sid \<Longrightarrow> gomap_get (mi_channelIndex i) b = Some sid \<Longrightarrow> a = b" for a b sid
    using ok by (auto simp: inst_ok_def)
  show "gomap_get (mi_channelIndex i1) ch = None"
    using ok d by (cases rule: detach_cases) (simp_all add: removeSlot_index [OF ok])
  show "mi_Status i1 = mi_Status i"
    using ok d by (cases rule: detach_cases) (simp_all add: removeSlot_def)
  show "slotByChannel i1 ch' = slotByChannel i ch'" if "ch' \<noteq> ch"
    using ok d
  proof (cases rule: detach_cases)
    case (some s)
    then have "gomap_get (mi_channelIndex i) ch' \<noteq> Some osid" using idx that by blast
    then show ?thesis using some(4) ok by (simp add: slotByChannel_removeSlot)
  qed simp
qed

lemma markSessionStopped_frame [simp]:
  "mg_instances (markSessionStopped now sid m) = mg_instances m" "mg_children (markSessionStopped now sid m) = mg_children m"
  "mg_workers (markSessionStopped now sid m) = mg_workers m"
  "skeys (mg_db (markSessionStopped now sid m)) = skeys (mg_db m)"
  by (simp_all add: markSessionStopped_def skeys_simps)

lemma getInstance_mark [simp]: "getInstance (markSessionStopped now sid m) j = getInstance m j"
  using instances_getInstance [of "markSessionStopped now sid m" j] by simp

lemma all_slots_mark [simp]: "all_slots (markSessionStopped now sid m) = all_slots m"
  by (simp add: all_slots_def)

lemma mgr_ok_mark [simp]: "mgr_ok (markSessionStopped now sid m) = mgr_ok m"
  by (rule mgr_ok_cong) simp_all

text \<open>The state after the old slot is gone, its row stopped and the row of the new session added.\<close>

lemma mgr_ok_detached:
  assumes ok: "mgr_ok m" and k: "getInstance m k = Some i" and d: "detachChannelSlot i ch = (oh, osid, i1)"
    and f: "fresh_sid sid m"
  shows "mgr_ok (put_inst k i1 m)" "fresh_sid sid (put_inst k i1 m)"
    "(j, sd, s) \<in> all_slots (put_inst k i1 m) \<Longrightarrow> sl_handle s = Some h \<Longrightarrow> oh \<noteq> Some h"
proof -
  have io: "inst_ok i" using ok k by (auto simp: mgr_ok_def tree_ok_def)
  have "gomap_get (mi_sessions i) sid = None" 
    using f all_slotsI [OF k] unfolding fresh_sid_def by (metis option.exhaust)
  then have "i = removeSlot sid i" by (simp add: removeSlot_none)
  then have "\<exists>sd. i1 = removeSlot sd i" using io d by (metis detach_cases)
  then obtain sd where sd: "i1 = removeSlot sd i" by blast
  then show "mgr_ok (put_inst k i1 m)" using mgr_ok_put_removed [OF ok k, of sd] by (simp add: put_inst_def)
  have sub: "all_slots (put_inst k i1 m) \<subseteq> all_slots m"
    using k sd by (auto simp: all_slots_def removeSlot_sessions split: if_splits)
  then show "fresh_sid sid (put_inst k i1 m)" using f by (auto simp: fresh_sid_def)
  show "oh \<noteq> Some h" if s: "(j, sd, s) \<in> all_slots (put_inst k i1 m)" "sl_handle s = Some h" for j sd s h
  proof
    assume "oh = Some h"
    with io d have "\<exists>s0. gomap_get (mi_sessions i) osid = Some s0 \<and> sl_handle s0 = Some h \<and> i1 = removeSlot osid i"
      by (cases rule: detach_cases) auto
    then obtain s0 where s0: "gomap_get (mi_sessions i) osid = Some s0" "sl_handle s0 = Some h" "i1 = removeSlot osid i"
      by blast
    have "(k, osid, s0) \<in> all_slots m" using k s0(1) by (rule all_slotsI)
    then have "k = j \<and> osid = sd"
      using slots_okD(4) [of "all_slots m" "skeys (mg_db m)" "set (mg_workers m)" k osid s0 j sd s h] s sub s0(2) ok
      by (auto simp: mgr_ok_def)
    with s(1) s0(3) show False by (auto simp: all_slots_def removeSlot_sessions)
  qed
qed

lemma NewSession_outcome:
  assumes run: "NewSessionForChannel env k ch m = (r, m')" and k: "getInstance m k = Some i" "mi_Status i = InstanceRunning"
    and d: "detachChannelSlot i ch = (oh, osid, i1)"
    and mk: "mk = markSessionStopped (sv_now (sn_start env)) osid (put_inst k i1 m)" and sid: "sid = sn_newID env"
  obtains (fail) e where "r = Inl e" "row_added sid ch mk m'"
    | (undo) e ms where "r = Inl e" "row_added sid ch mk ms"
        "m' = set_db (try_db (DeleteSession sid) (mg_db (shutdownOldWorkerAsync oh ms)))
           ((shutdownOldWorkerAsync oh ms)\<lparr>mg_sessDirs := removeAll (k, sid) (mg_sessDirs (shutdownOldWorkerAsync oh ms))\<rparr>)"
    | (new) ms h loop where "r = Inr sid" "sv_spawn (sn_start env) = Some h" "row_added sid ch mk ms"
        "m' = put_inst k (addSlot sid (new_slot ch h loop) i1)
           ((shutdownOldWorkerAsync oh ms)\<lparr>mg_workers := h # mg_workers (shutdownOldWorkerAsync oh ms)\<rparr>)"
proof -
  obtain ct ci where c: "splitChannelKey ch = (ct, ci)" by fastforce
  note u = run [unfolded NewSessionForChannel_def k(1) option.case d prod.case Let_def mk [symmetric] sid [symmetric]]
  show ?thesis
  proof (cases "createSessionDirs (sv_dirsOK (sn_start env)) k sid mk")
    case None
    then show ?thesis using u k(2) by (intro fail) (auto simp: row_added_def rows_added_same)
  next
    case (Some m1)
    note same = createSessionDirs_same [OF Some]
    let ?reg = "registerSessionInDBWithChannel (sv_now (sn_start env)) k sid (mi_agentName i1) (mi_Mode i1) ct ci (mg_db m1)"
    show ?thesis
    proof (cases ?reg)
      case (Inl e)
      then show ?thesis using u k(2) Some c same by (intro fail [of "DBFailed e"]) (auto simp: row_added_def rows_added_same)
    next
      case (Inr db)
      have added: "row_added sid ch mk (set_db db m1)"
        using CreateSession_rows [OF Inr [unfolded registerSessionInDBWithChannel_def]] same c
        by (auto simp: row_added_def new_session_row_def)
      show ?thesis
      proof (cases "resolveSessionConfig env")
        case (Inl e)
        then show ?thesis using u k(2) Some c Inr added by (intro fail [of e]) auto
      next
        case hp: (Inr hp)
        obtain r' m4 where sp: "spawnSessionWorkerAndLoop env hp (shutdownOldWorkerAsync oh (set_db db m1)) = (r', m4)"
          by fastforce
        from spawn_outcome [OF sp] consider e where "r' = Inl e" "m4 = shutdownOldWorkerAsync oh (set_db db m1)"
          | h loop where "r' = Inr (h, loop)" "sv_spawn (sn_start env) = Some h"
            "m4 = (shutdownOldWorkerAsync oh (set_db db m1))\<lparr>mg_workers := h # mg_workers (shutdownOldWorkerAsync oh (set_db db m1))\<rparr>"
          by blast
        then show ?thesis
        proof cases
          case 1
          then show ?thesis using u k(2) Some c Inr hp sp by (intro undo [OF _ added, of e]) auto
        next
          case (2 h loop)
          then show ?thesis using u k(2) Some c Inr hp sp by (intro new [OF _ 2(2) added, of loop]) auto
        qed
      qed
    qed
  qed
qed

lemma stop_old_frame [simp]:
  "mg_instances (shutdownOldWorkerAsync oh m) = mg_instances m" "mg_children (shutdownOldWorkerAsync oh m) = mg_children m"
  "mg_sched (shutdownOldWorkerAsync oh m) = mg_sched m" "getInstance (shutdownOldWorkerAsync oh m) j = getInstance m j"
  "all_slots (shutdownOldWorkerAsync oh m) = all_slots m"
  "set (mg_workers (shutdownOldWorkerAsync oh m)) \<subseteq> set (mg_workers m)"
  by (auto simp: shutdownOldWorkerAsync_def split: option.split)

lemma mgr_ok_stop_old:
  assumes "mgr_ok m" "\<And>j sd s h. (j, sd, s) \<in> all_slots m \<Longrightarrow> sl_handle s = Some h \<Longrightarrow> oh \<noteq> Some h"
  shows "mgr_ok (shutdownOldWorkerAsync oh m)"
proof (cases oh)
  case (Some h)
  have "mgr_ok (stop_workers [h] m)" by (rule mgr_ok_workers_gone) (use assms Some in auto)
  with Some show ?thesis by (simp add: shutdownOldWorkerAsync_def)
qed (use assms(1) in \<open>simp add: shutdownOldWorkerAsync_def\<close>)

text \<open>Every row of the session is marked as stopped.\<close>

definition row_stopped :: "string \<Rightarrow> platform_db \<Rightarrow> bool" where
  "row_stopped sid db \<longleftrightarrow> (\<forall>row\<in>set (pdb_sessions db). se_ID row = sid \<longrightarrow> se_Status row = statusStopped)"

lemma row_stopped_mark:
  assumes "sid \<noteq> []"
  shows "row_stopped sid (mg_db (markSessionStopped now sid m))"
proof (cases "update_row se_ID sid (\<lambda>s. s\<lparr>se_Status := statusStopped, se_StoppedAt := Some (second_precision now)\<rparr>)
    (pdb_sessions (mg_db m))")
  case None
  then have "sid \<notin> se_ID ` set (pdb_sessions (mg_db m))" by (auto simp: update_row_def split: if_splits)
  then show ?thesis
    using assms None by (auto simp: markSessionStopped_def try_db_def UpdateSessionStatus_def row_stopped_def)
next
  case (Some rows)
  then have "row \<in> set rows \<Longrightarrow> se_ID row = sid \<Longrightarrow> se_Status row = statusStopped" for row
    by (auto simp: update_row_def split: if_splits)
  moreover have "valid_status statusStopped" by (simp add: valid_status_def)
  ultimately show ?thesis
    using assms Some by (auto simp: markSessionStopped_def try_db_def UpdateSessionStatus_def row_stopped_def)
qed

lemma row_stopped_added:
  "row_stopped sid (mg_db m) \<Longrightarrow> row_added sid' ch m m' \<Longrightarrow> sid \<noteq> sid' \<Longrightarrow> row_stopped sid (mg_db m')"
  by (auto simp: row_stopped_def row_added_def rows_added_def)

lemma row_stopped_DeleteSession:
  "row_stopped sid db \<Longrightarrow> row_stopped sid (try_db (DeleteSession k) db)"
  by (auto simp: row_stopped_def try_db_def DeleteSession_def remove_sessions_def Let_def)

text \<open>The state in which the new session is started.\<close>

lemma cleared_state:
  assumes ok: "mgr_ok m" and fr: "fresh_sid sid m" and k: "getInstance m k = Some i" "mi_Status i = InstanceRunning"
    and d: "detachChannelSlot i ch = (oh, osid, i1)" and mk: "mk = markSessionStopped now osid (put_inst k i1 m)"
  shows "mgr_ok mk" "sid_fits sid ch mk" "getInstance mk j = (if j = k then Some i1 else getInstance m j)"
    "mg_workers mk = mg_workers m"
    "gomap_get (mi_channelIndex i1) ch = None" "mi_Status i1 = InstanceRunning" "slotByChannel i1 ch = None"
    "ch' \<noteq> ch \<Longrightarrow> slotByChannel i1 ch' = slotByChannel i ch'"
    "(j, sd, s) \<in> all_slots mk \<Longrightarrow> sl_handle s = Some h \<Longrightarrow> oh \<noteq> Some h"
    "old \<noteq> [] \<and> gomap_get (mi_channelIndex i) ch = Some old \<Longrightarrow> row_stopped old (mg_db mk) \<and> old \<noteq> sid"
proof -
  have io: "inst_ok i" using ok k by (auto simp: mgr_ok_def tree_ok_def)
  note det = mgr_ok_detached [OF ok k(1) d fr]
  show "mgr_ok mk" using det(1) by (simp add: mk)
  have "fresh_sid sid mk" using det(2) by (simp add: mk fresh_sid_def)
  then show "sid_fits sid ch mk" by (rule fresh_fits)
  show "getInstance mk j = (if j = k then Some i1 else getInstance m j)" "mg_workers mk = mg_workers m" by (simp_all add: mk)
  show "gomap_get (mi_channelIndex i1) ch = None" "mi_Status i1 = InstanceRunning" "slotByChannel i1 ch = None"
    using detach_channel(1,3) [OF io d] k(2) by (simp_all add: slotByChannel_def)
  show "ch' \<noteq> ch \<Longrightarrow> slotByChannel i1 ch' = slotByChannel i ch'" by (rule detach_channel(2) [OF io d])
  show "oh \<noteq> Some h" if "(j, sd, s) \<in> all_slots mk" "sl_handle s = Some h" using det(3) that by (simp add: mk)
  assume old: "old \<noteq> [] \<and> gomap_get (mi_channelIndex i) ch = Some old"
  from io d have "osid = old" by (cases rule: detach_cases) (use old in auto)
  moreover from old io obtain s where "gomap_get (mi_sessions i) old = Some s" by (auto simp: inst_ok_def)
  moreover from this all_slotsI [OF k(1)] fr have "old \<noteq> sid" unfolding fresh_sid_def by blast
  ultimately show "row_stopped old (mg_db mk) \<and> old \<noteq> sid" using old by (simp add: mk row_stopped_mark)
qed

lemma mgr_ok_undo:
  assumes ok: "mgr_ok m" and m': "m' = set_db (try_db (DeleteSession sid) (mg_db m)) (m\<lparr>mg_sessDirs := ds\<rparr>)"
  shows "mgr_ok m'"
proof (rule mgr_ok_shrink [OF ok])
  show "tree_ok m'" using m' ok tree_ok_cong [of m' m] by (simp add: mgr_ok_def)
  have sl: "all_slots m' = all_slots m" using m' by (simp add: all_slots_def)
  then show "fewer (all_slots m') (all_slots m)" by simp
  show "\<exists>P. skeys (mg_db m') = filter P (skeys (mg_db m))" using m' skeys_DeleteSession by simp
  show "h \<in> set (mg_workers m')" if "(j, sd, s) \<in> all_slots m'" "sl_handle s = Some h" for j sd s h
    using ok that slots_okD(3) [of "all_slots m" "skeys (mg_db m)" "set (mg_workers m)" j sd s h] m' unfolding sl mgr_ok_def by simp
  show "inst_live i'" if "getInstance m' j = Some i'" for j i' using that ok m' by (simp add: mgr_ok_def)
qed

lemma NewSession_effect:
  assumes ok: "mgr_ok m" and env: "env_ok env m" and ch: "proper_key ch"
    and k: "getInstance m k = Some i" "mi_Status i = InstanceRunning" and run: "NewSessionForChannel env k ch m = (r, m')"
  shows "mgr_ok m' \<and> (\<forall>j. j \<noteq> k \<longrightarrow> getInstance m' j = getInstance m j) \<and>
    (\<exists>i'. getInstance m' k = Some i' \<and> (\<forall>ch'. ch' \<noteq> ch \<longrightarrow> slotByChannel i' ch' = slotByChannel i ch') \<and>
       (case r of
          Inl _ \<Rightarrow> slotByChannel i' ch = None
        | Inr sid \<Rightarrow> sid = sn_newID env \<and> gomap_get (mi_channelIndex i') ch = Some sid \<and>
            (\<exists>s. slotByChannel i' ch = Some s \<and> slot_alive s))) \<and>
    (\<forall>old. old \<noteq> [] \<and> gomap_get (mi_channelIndex i) ch = Some old \<longrightarrow> row_stopped old (mg_db m'))"
proof -
  obtain oh osid i1 where d: "detachChannelSlot i ch = (oh, osid, i1)" by (cases "detachChannelSlot i ch")
  define mk where "mk = markSessionStopped (sv_now (sn_start env)) osid (put_inst k i1 m)"
  define sid where "sid = sn_newID env"
  have "fresh_sid sid m" using env by (simp add: env_ok_def sid_def)
  note c = cleared_state [OF ok this k d mk_def]
  note step = row_added_ok [OF _ c(1) c(2)]
  from run k d mk_def sid_def show ?thesis
  proof (cases rule: NewSession_outcome)
    case (fail e)
    then show ?thesis
      using step(1) row_added_get [OF fail(2)] c(3,7,8) c(10) row_stopped_added [OF _ fail(2)] by auto
  next
    case (undo e ms)
    have "mgr_ok (shutdownOldWorkerAsync oh ms)"
      by (rule mgr_ok_stop_old [OF step(1) [OF undo(2)]]) (use c(9) row_added_slots [OF undo(2)] in simp)
    then have "mgr_ok m'" using undo(3) by (rule mgr_ok_undo)
    moreover have "getInstance m' j = getInstance mk j" for j using undo(3) row_added_get [OF undo(2), of j] by simp
    moreover have "row_stopped old (mg_db m')" if "old \<noteq> [] \<and> gomap_get (mi_channelIndex i) ch = Some old" for old
      using row_stopped_added [OF _ undo(2)] c(10) [OF that] undo(3) by (simp add: row_stopped_DeleteSession)
    ultimately show ?thesis using undo(1) c(3,7,8) by auto
  next
    case (new ms h loop)
    let ?mo = "shutdownOldWorkerAsync oh ms" and ?i = "addSlot sid (new_slot ch h loop) i1"
    have mo: "mgr_ok ?mo"
      by (rule mgr_ok_stop_old [OF step(1) [OF new(3)]]) (use c(9) row_added_slots [OF new(3)] in simp)
    have get: "getInstance ?mo j = (if j = k then Some i1 else getInstance m j)" for j
      using row_added_get [OF new(3), of j] c(3) [of j] by simp
    have fit: "sid_fits sid ch ?mo" using step(2) [OF new(3)] by (simp add: sid_fits_def)
    have "h \<notin> set (mg_workers ?mo)"
      using new(2,3) env c(4) stop_old_frame(6) [of oh ms] by (auto simp: env_ok_def fresh_worker_def row_added_def)
    then have "mgr_ok m'" unfolding new(4)
      by (intro mgr_ok_addSlot [OF mo _ c(6) fit ch c(5)]) (use get in simp_all)
    moreover have "slotByChannel ?i ch' = (if ch' = ch then Some (new_slot ch h loop) else slotByChannel i ch')" for ch'
    proof -
      have "inst_ok i1" using mo get [of k] by (auto simp: mgr_ok_def tree_ok_def)
      moreover have "gomap_get (mi_sessions i1) sid = None" by (rule fit_no_slot [OF mo _ fit ch c(5)]) (use get [of k] in simp)
      ultimately show ?thesis using slotByChannel_addSlot [of i1 sid "new_slot ch h loop" ch'] c(8) by (simp add: new_slot_def)
    qed
    moreover have "row_stopped old (mg_db m')" if "old \<noteq> [] \<and> gomap_get (mi_channelIndex i) ch = Some old" for old
      using row_stopped_added [OF _ new(3)] c(10) [OF that] new(4) by simp
    moreover have "getInstance m' j = (if j = k then Some ?i else getInstance m j)" for j using new(4) get by simp
    moreover have "gomap_get (mi_channelIndex ?i) ch = Some sid" "slot_alive (new_slot ch h loop)"
      by (simp_all add: addSlot_def new_slot_def slot_alive_def)
    ultimately show ?thesis using new(1) by (auto simp: sid_def)
  qed
qed

lemmas mgr_ok_cleared = conjunct1 [OF NewSession_effect]

text \<open>C20. Clearing a channel of a running instance: whether or not the new session can be started, the
  slots of all other channels and all other instances stay as they are, and the session the channel had
  is marked as stopped.  On success the channel has the new session, with a worker; on failure it has
  none.\<close>

theorem NewSessionForChannel_isolated:
  assumes ok: "mgr_ok m" and env: "env_ok env m" and ch: "proper_key ch"
    and k: "getInstance m k = Some i" "mi_Status i = InstanceRunning" and run: "NewSessionForChannel env k ch m = (r, m')"
  shows "mgr_ok m' \<and> (\<forall>j. j \<noteq> k \<longrightarrow> getInstance m' j = getInstance m j) \<and>
    (\<exists>i'. getInstance m' k = Some i' \<and> (\<forall>ch'. ch' \<noteq> ch \<longrightarrow> slotByChannel i' ch' = slotByChannel i ch') \<and>
       (case r of
          Inl _ \<Rightarrow> slotByChannel i' ch = None
        | Inr sid \<Rightarrow> sid = sn_newID env \<and> gomap_get (mi_channelIndex i') ch = Some sid \<and>
            (\<exists>s. slotByChannel i' ch = Some s \<and> slot_alive s))) \<and>
    (\<forall>old. old \<noteq> [] \<and> gomap_get (mi_channelIndex i) ch = Some old \<longrightarrow> row_stopped old (mg_db m'))"
  using NewSession_effect [OF assms] .

end
