(* ===== verification/Manager_Steps.thy ===== *)
theory Manager_Steps
  imports Manager_Invariant
begin

text \<open>
  Sequences of operations of the agent manager: instances are created, restarted, stopped, deleted,
  sessions are opened and cleared, workers die, and the manager shuts down.  The invariant of
  \<open>Manager_Invariant\<close> holds in every state they reach from an empty manager.
\<close>

section \<open>Creating and restarting\<close>

definition fresh_inst :: "string \<Rightarrow> string \<Rightarrow> 'sch Manager \<Rightarrow> bool" where
  "fresh_inst k par m \<longleftrightarrow> getInstance m k = None \<and> k \<noteq> par \<and> (\<forall>j i. getInstance m j = Some i \<longrightarrow> mi_ParentID i \<noteq> k)"

lemma fresh_no_ancestor: "fresh_inst k par m \<Longrightarrow> (k, par) \<notin> (lineage m)\<^sup>*"
proof
  assume f: "fresh_inst k par m" and "(k, par) \<in> (lineage m)\<^sup>*"
  from this(2) show False
  proof (cases rule: converse_rtranclE)
    case (step c)
    then show False using f by (auto simp: fresh_inst_def lineage_def)
  qed (use f in \<open>simp add: fresh_inst_def\<close>)
qed

lemma mgr_ok_CreateInstance:
  assumes ok: "mgr_ok m" and new: "fresh_inst k par m" "fresh_sid sid m" "fresh_worker env m"
    and run: "mgr_CreateInstance env L k sid name par mode node dn dd m = (r, m')"
  shows "mgr_ok m'"
proof (cases "m' = m")
  case False
  then obtain cfg where "startInstance env k sid (initial_channel par) cfg par mode node dn dd m = (r, m')"
    using run by (auto simp: mgr_CreateInstance_def split: if_splits option.splits)
  then show ?thesis
    by (intro conjunct1 [OF mgr_ok_startInstance [OF ok _ fresh_no_ancestor [OF new(1)] fresh_fits [OF new(2)] proper_initial]])
      (use new in \<open>auto simp: fresh_inst_def fresh_worker_def\<close>)
qed (use ok in simp)

lemma restart_no_cycle:
  assumes "tree_ok m" "getInstance m k = Some i"
  shows "(k, mi_ParentID i) \<notin> (lineage (unregisterLocked k (Some i) m))\<^sup>*"
proof
  assume "(k, mi_ParentID i) \<in> (lineage (unregisterLocked k (Some i) m))\<^sup>*"
  moreover have "lineage (unregisterLocked k (Some i) m) \<subseteq> lineage m"
    by (auto simp: lineage_def unregister_instances split: if_splits)
  ultimately have "(k, mi_ParentID i) \<in> (lineage m)\<^sup>*" using rtrancl_mono by blast
  moreover have "(mi_ParentID i, k) \<in> lineage m" using assms(2) by (auto simp: lineage_def)
  ultimately have "(k, k) \<in> (lineage m)\<^sup>+" by (rule rtrancl_into_trancl1)
  with assms(1) show False by (auto simp: tree_ok_def acyclic_def)
qed

lemma mgr_ok_unregister:
  assumes ok: "mgr_ok m" and k: "getInstance m k = Some i"
  shows "mgr_ok (unregisterLocked k (Some i) m)"
proof (rule mgr_ok_drop [OF ok _ k, where r = None])
  show "tree_ok (unregisterLocked k (Some i) m)" using ok k by (simp add: mgr_ok_def tree_ok_unregister)
  show "\<exists>P. skeys (mg_db (unregisterLocked k (Some i) m)) = filter P (skeys (mg_db m))" using filter_all by simp
qed (simp_all add: unregister_instances)

lemma mgr_ok_reregister:
  assumes ok: "mgr_ok m" and k: "getInstance m k = Some i" "mi_Status i = InstanceStopped"
    and r: "row_added sid ch (unregisterLocked k (Some i) m) m2" and fit: "sid_fits sid ch m"
  shows "mgr_ok (reregisterStopped i m2)"
proof -
  let ?m = "reregisterStopped i m2" and ?u = "unregisterLocked k (Some i) m"
  have same: "i\<lparr>mi_Status := InstanceStopped\<rparr> = i" using k(2) by simp
  have i: "inst_ok i" "mi_ID i = k" using ok k by (auto simp: mgr_ok_def tree_ok_def)
  have m2: "mgr_ok m2"
    by (rule row_added_ok(1) [OF r mgr_ok_unregister [OF ok k(1)]])
      (use fit in \<open>auto simp: sid_fits_def all_slots_def unregister_instances split: if_splits\<close>)
  have g2: "getInstance m2 j = (if j = k then None else getInstance m j)" for j
    using row_added_get [OF r] by (simp add: unregister_instances)
  have get: "getInstance ?m j = getInstance m j" for j
    using g2 k(1) i(2) by (simp add: reregisterStopped_def register_instances same)
  have sl: "all_slots ?m = all_slots m" by (simp add: all_slots_def get)
  have lin: "lineage m2 = lineage ?u" by (simp add: lineage_def g2 unregister_instances)
  have "tree_ok ?m" unfolding reregisterStopped_def same
    by (rule tree_ok_register)
      (use m2 i g2 restart_no_cycle [of m k i] ok k lin in \<open>auto simp: mgr_ok_def\<close>)
  moreover have "slots_ok (all_slots m) (skeys (mg_db m2)) (set (mg_workers m))"
    using ok fit r rows_added_skeys [of sid "splitChannelKey ch" "mg_db m" "mg_db m2"]
      slots_ok_row [of "all_slots m" "skeys (mg_db m)" "set (mg_workers m)" sid "splitChannelKey ch"]
    by (auto simp: mgr_ok_def row_added_def sid_fits_def)
  moreover have "mg_workers ?m = mg_workers m" "mg_sched ?m = mg_sched m2"
    using r by (simp_all add: reregisterStopped_def row_added_def)
  ultimately show ?thesis using m2 ok by (simp add: mgr_ok_def sl get)
qed

lemma latest_session_fits:
  assumes ok: "mgr_ok m" and p: "pick_ok pick" and l: "LatestSessionByInstance pick k (mg_db m) = Some s"
  shows "sid_fits (se_ID s) (makeChannelKey (se_ChannelType s) (se_ChannelID s)) m"
    "proper_key (makeChannelKey (se_ChannelType s) (se_ChannelID s))"
proof -
  have "s \<in> set (pdb_sessions (mg_db m))"
    using newest_mem [OF p l [unfolded LatestSessionByInstance_def]] by simp
  then have row: "(se_ID s, se_ChannelType s, se_ChannelID s) \<in> set (skeys (mg_db m))" by (simp add: skeys_def)
  then have c: "CHR '':'' \<notin> set (se_ChannelType s)" using ok by (auto simp: mgr_ok_def keys_ok_def)
  show "proper_key (makeChannelKey (se_ChannelType s) (se_ChannelID s))" using proper_make [OF c] .
  show "sid_fits (se_ID s) (makeChannelKey (se_ChannelType s) (se_ChannelID s)) m"
    using row_fits [OF ok row split_make [OF c]] .
qed

text \<open>The session and channel with which \<open>StartInstance\<close> resumes.\<close>

definition resumed :: "session_env \<Rightarrow> string \<Rightarrow> platform_db \<Rightarrow> string \<times> string" where
  "resumed env k db =
     (case LatestSessionByInstance (sn_pick env) k db of
        Some s \<Rightarrow> (if se_ID s = [] then sn_newID env else se_ID s, makeChannelKey (se_ChannelType s) (se_ChannelID s))
      | None \<Rightarrow> (sn_newID env, ''web''))"

lemma resumed_fits:
  assumes ok: "mgr_ok m" and env: "env_ok env m" and r: "resumed env k (mg_db m) = (sid, ch)"
  shows "sid_fits sid ch m" "proper_key ch"
proof -
  have "proper_key ''web''" using proper_initial [of "[]"] by (simp add: initial_channel_def)
  with r env fresh_fits latest_session_fits [OF ok] show "sid_fits sid ch m" "proper_key ch"
    by (auto simp: resumed_def env_ok_def split: option.splits if_splits)
qed

lemma StartInstance_stopped:
  assumes k: "getInstance m k = Some i" "mi_Status i = InstanceStopped" and r: "resumed env k (mg_db m) = (sid, ch)"
  shows "StartInstance tenv env L k m =
    (let m1 = unregisterLocked k (Some i) m in
     case L (mi_agentName i) of
       None \<Rightarrow> (Some LoadFailed, reregisterStopped i m1)
     | Some cfg \<Rightarrow>
         (case startInstance (sn_start env) k sid ch cfg (mi_ParentID i) (mi_Mode i) (mi_NodeID i) [] [] m1 of
            (Inl e, m2) \<Rightarrow> (Some e, reregisterStopped i m2)
          | (Inr _, m2) \<Rightarrow>
              let m3 = setInstanceStatus (sv_now (sn_start env)) k InstanceRunning m2
              in (None, m3\<lparr>mg_sched := sched_ResumeInstance tenv True (sv_now (sn_start env)) k (mg_sched m3)\<rparr>)))"
  using assms unfolding StartInstance_def Let_def
  by (cases "LatestSessionByInstance (sn_pick env) k (mg_db m)"; cases "L (mi_agentName i)") (auto simp: resumed_def)

lemma mgr_ok_StartInstance:
  assumes ok: "mgr_ok m" and env: "env_ok env m" and run: "StartInstance tenv env L k m = (r, m')"
  shows "mgr_ok m'"
proof (cases "\<exists>i. getInstance m k = Some i \<and> mi_Status i = InstanceStopped")
  case False
  then have "m' = m" using run by (auto simp: StartInstance_def split: option.splits if_splits)
  with ok show ?thesis by simp
next
  case True
  then obtain i where k: "getInstance m k = Some i" "mi_Status i = InstanceStopped" by blast
  obtain sid ch where rs: "resumed env k (mg_db m) = (sid, ch)" by fastforce
  note fit = resumed_fits [OF ok env rs]
  let ?u = "unregisterLocked k (Some i) m"
  have u: "mgr_ok ?u" using mgr_ok_unregister [OF ok k(1)] .
  have fitu: "sid_fits sid ch ?u"
    using fit(1) by (auto simp: sid_fits_def all_slots_def unregister_instances split: if_splits)
  note run' = run [unfolded StartInstance_stopped [OF k rs] Let_def]
  show ?thesis
  proof (cases "L (mi_agentName i)")
    case None
    have "row_added sid ch ?u ?u" by (simp add: row_added_def rows_added_same)
    from mgr_ok_reregister [OF ok k this fit(1)] None run' show ?thesis by simp
  next
    case (Some cfg)
    obtain r2 m2 where st: "startInstance (sn_start env) k sid ch cfg (mi_ParentID i) (mi_Mode i) (mi_NodeID i) [] [] ?u = (r2, m2)"
      by fastforce
    have "mgr_ok m2 \<and> (\<exists>e. r2 = Inl e \<and> row_added sid ch ?u m2 \<or> r2 = Inr k)"
      by (rule mgr_ok_startInstance [OF u _ _ fitu fit(2) _ st])
        (use restart_no_cycle [of m k i] ok k env in \<open>auto simp: unregister_instances mgr_ok_def env_ok_def fresh_worker_def\<close>)
    then show ?thesis
    proof (elim conjE exE disjE)
      fix e assume "r2 = Inl e" "row_added sid ch ?u m2"
      with mgr_ok_reregister [OF ok k _ fit(1)] Some run' st show ?thesis by auto
    next
      assume m2: "mgr_ok m2" "r2 = Inr k"
      let ?m3 = "setInstanceStatus (sv_now (sn_start env)) k InstanceRunning m2"
      have "m' = ?m3\<lparr>mg_sched := sched_ResumeInstance tenv True (sv_now (sn_start env)) k (mg_sched ?m3)\<rparr>"
        using Some run' st m2(2) by simp
      then show ?thesis
        using m2(1) mgr_ok_cong [of m' m2] by (simp add: skeys_simps setInstanceStatus_def)
    qed
  qed
qed

section \<open>Shutdown\<close>

definition held :: "'sch Manager \<Rightarrow> nat set" where
  "held m = {h. \<exists>k sid s. (k, sid, s) \<in> all_slots m \<and> sl_handle s = Some h}"

lemma fold_add_new:
  "set (fold (\<lambda>d acc. if d \<in> set acc then acc else acc @ [d]) ds acc) = set acc \<union> set ds \<and>
   (distinct acc \<longrightarrow> distinct (fold (\<lambda>d acc. if d \<in> set acc then acc else acc @ [d]) ds acc))"
  by (induction ds arbitrary: acc) auto

lemma shutdown_order_complete:
  assumes ok: "tree_ok m" and ks: "\<And>k. k \<in> set ks \<Longrightarrow> getInstance m k \<noteq> None"
    and acc: "distinct acc" "\<And>k. k \<in> set acc \<Longrightarrow> getInstance m k \<noteq> None"
  shows "\<exists>r. shutdown_order m ks acc = Some r \<and> distinct r \<and> set ks \<union> set acc \<subseteq> set r \<and>
    (\<forall>k\<in>set r. getInstance m k \<noteq> None)"
  using ks acc
proof (induction ks arbitrary: acc)
  case (Cons k ks)
  obtain i where i: "getInstance m k = Some i" using Cons.prems(1) by auto
  obtain ds where ds: "collectDescendants m k = Some ds" "set ds = subtree m k" using collectDescendants_Some [OF ok i] by blast
  let ?acc = "fold (\<lambda>d acc. if d \<in> set acc then acc else acc @ [d]) ds acc"
  have acc': "set ?acc = set acc \<union> set ds" "distinct ?acc" using fold_add_new [of ds acc] Cons.prems(2) by simp_all
  have "getInstance m d \<noteq> None" if "d \<in> set ds" for d using tree_registered [OF ok _ i, of d] that ds(2) by auto
  with acc' Cons.prems have "\<And>d. d \<in> set ?acc \<Longrightarrow> getInstance m d \<noteq> None" by auto
  from Cons.IH [OF _ acc'(2) this] Cons.prems(1) obtain r where
    "shutdown_order m ks ?acc = Some r" "distinct r" "set ks \<union> set ?acc \<subseteq> set r" "\<forall>k\<in>set r. getInstance m k \<noteq> None" by auto
  moreover have "k \<in> set ds" using ds(2) by simp
  ultimately show ?case using ds(1) acc'(1) by auto
qed simp

lemma shutdown_one_get: "getInstance (shutdown_one k m) j = (if j = k then None else getInstance m j)"
  by (simp add: shutdown_one_def removeInstance_get unregister_instances split: option.split)

lemma shutdown_one_workers: "set (mg_workers (shutdown_one k m)) = set (mg_workers m) - stop_handles (getInstance m k)"
  by (simp add: shutdown_one_def removeInstance_workers stop_handles_def split: option.split)

lemma mgr_ok_removeInstance:
  assumes ok: "mgr_ok m" and k: "getInstance m k = Some i"
  shows "mgr_ok (removeInstance k m)"
proof (rule mgr_ok_drop [OF ok _ k, where r = None])
  show "tree_ok (removeInstance k m)" using ok k by (simp add: mgr_ok_def tree_ok_removeInstance)
  show "\<exists>P. skeys (mg_db (removeInstance k m)) = filter P (skeys (mg_db m))" using filter_all by simp
qed (simp_all add: removeInstance_get removeInstance_workers k)

lemma mgr_ok_shutdown_one: "mgr_ok m \<Longrightarrow> getInstance m k \<noteq> None \<Longrightarrow> mgr_ok (shutdown_one k m)"
  by (auto simp: shutdown_one_def mgr_ok_unregister mgr_ok_removeInstance)

lemma fold_shutdown_one:
  assumes "mgr_ok m" "distinct ks" "\<forall>k\<in>set ks. getInstance m k \<noteq> None"
  shows "mgr_ok (fold shutdown_one ks m)"
    and "getInstance (fold shutdown_one ks m) j = (if j \<in> set ks then None else getInstance m j)"
    and "set (mg_workers (fold shutdown_one ks m)) = set (mg_workers m) - (\<Union>k\<in>set ks. stop_handles (getInstance m k))"
  using assms
proof (induction ks arbitrary: m)
  case (Cons k ks)
  have pre: "mgr_ok (shutdown_one k m)" "distinct ks" "\<forall>j\<in>set ks. getInstance (shutdown_one k m) j \<noteq> None"
    if "mgr_ok m" "distinct (k # ks)" "\<forall>j\<in>set (k # ks). getInstance m j \<noteq> None" for m :: "'a Manager"
    using that mgr_ok_shutdown_one [OF that(1), of k] by (auto simp: shutdown_one_get)
  {
    case 1
    from Cons.IH(1) [OF pre [OF 1]] show ?case by simp
  next
    case 2
    from Cons.IH(2) [OF pre [OF 2]] show ?case by (simp add: shutdown_one_get)
  next
    case 3
    have "stop_handles (getInstance (shutdown_one k m) j) = (if j = k then {} else stop_handles (getInstance m j))" for j
      by (simp add: shutdown_one_get stop_handles_def)
    with Cons.IH(3) [OF pre [OF 3]] show ?case by (auto simp: shutdown_one_workers split: if_splits)
  }
qed simp_all

lemma held_handles:
  assumes "mgr_ok m"
  shows "held m = (\<Union>k. stop_handles (getInstance m k))"
proof -
  have "stop_handles (Some i) = {h. \<exists>sid s. gomap_get (mi_sessions i) sid = Some s \<and> sl_handle s = Some h}"
    if "getInstance m k = Some i" for k i
  proof -
    have "inst_ok i" "inst_live i" using assms that by (auto simp: mgr_ok_def tree_ok_def)
    then show ?thesis by (auto simp: stop_handles_def inst_handles_def inst_ok_def gomap_get_mem inst_live_def)
  qed
  then have "h \<in> stop_handles (getInstance m k) \<longleftrightarrow>
      (\<exists>i sid s. getInstance m k = Some i \<and> gomap_get (mi_sessions i) sid = Some s \<and> sl_handle s = Some h)" for h k
    by (cases "getInstance m k") (auto simp: stop_handles_def)
  then have "h \<in> held m \<longleftrightarrow> (\<exists>k. h \<in> stop_handles (getInstance m k))" for h
    by (simp only: held_def all_slots_def mem_Collect_eq case_prod_conv) blast
  then show ?thesis by blast
qed

lemma Shutdown_result:
  assumes ok: "mgr_ok m"
  shows "\<exists>m'. mgr_Shutdown m = Some m' \<and> mgr_ok m' \<and> mg_instances m' = [] \<and> set (mg_workers m') = set (mg_workers m) - held m"
proof -
  have t: "tree_ok m" using ok by (simp add: mgr_ok_def)
  have keys: "k \<in> set (map fst (mg_instances m)) \<longleftrightarrow> getInstance m k \<noteq> None" for k
    using gomap_get_None [of "mg_instances m" k] by simp
  obtain r where r: "shutdown_order m (map fst (mg_instances m)) [] = Some r" "distinct r"
    "set (map fst (mg_instances m)) \<union> set [] \<subseteq> set r" "\<forall>k\<in>set r. getInstance m k \<noteq> None"
    using shutdown_order_complete [OF t, of "map fst (mg_instances m)" "[]"] keys by auto
  then have rset: "k \<in> set r \<longleftrightarrow> getInstance m k \<noteq> None" for k using keys by auto
  let ?m = "fold shutdown_one (rev r) m"
  have dr: "distinct (rev r)" "\<forall>k\<in>set (rev r). getInstance m k \<noteq> None" using r(2,4) by simp_all
  note f = fold_shutdown_one [OF ok dr]
  have "getInstance ?m k = None" for k using f(2) [of k] rset by simp
  then have "k \<notin> fst ` set (mg_instances ?m)" for k using gomap_get_None [of "mg_instances ?m" k] by simp
  then have "mg_instances ?m = []" by (metis image_eqI list.set_intros(1) neq_Nil_conv)
  moreover have "(\<Union>k\<in>set (rev r). stop_handles (getInstance m k)) = held m"
  proof -
    have "stop_handles (getInstance m k) = {}" if "k \<notin> set r" for k using that rset [of k] by (simp add: stop_handles_def)
    then show ?thesis unfolding held_handles [OF ok] by auto
  qed
  ultimately show ?thesis using f(1,3) r(1) by (simp add: mgr_Shutdown_def)
qed

section \<open>Sequences of operations\<close>

inductive mgr_step :: "'sch Manager \<Rightarrow> 'sch Manager \<Rightarrow> bool" where
  create: "fresh_inst k par m \<Longrightarrow> fresh_sid sid m \<Longrightarrow> fresh_worker env m \<Longrightarrow>
    mgr_CreateInstance env L k sid name par mode node dn dd m = (r, m') \<Longrightarrow> mgr_step m m'"
| ensure: "env_ok env m \<Longrightarrow> proper_key ch \<Longrightarrow> EnsureSession env k ch m = (r', m') \<Longrightarrow> mgr_step m m'"
| clear: "env_ok env m \<Longrightarrow> proper_key ch \<Longrightarrow> NewSessionForChannel env k ch m = (r', m') \<Longrightarrow> mgr_step m m'"
| restart: "env_ok env m \<Longrightarrow> StartInstance tenv env L k m = (e, m') \<Longrightarrow> mgr_step m m'"
| stop: "StopInstance now k m = Some (ri, m') \<Longrightarrow> mgr_step m m'"
| delete: "mgr_DeleteInstance k m = Some (e, m') \<Longrightarrow> mgr_step m m'"
| exit: "watched k sid h m \<Longrightarrow> watchSlotWorker now k sid h m = Some m' \<Longrightarrow> mgr_step m m'"
| shutdown: "mgr_Shutdown m = Some m' \<Longrightarrow> mgr_step m m'"

inductive mgr_reachable :: "'sch Manager \<Rightarrow> bool" where
  init: "keys_ok (skeys (sc_db sched)) \<Longrightarrow> mgr_reachable (NewManager sched)"
| step: "mgr_reachable m \<Longrightarrow> mgr_step m m' \<Longrightarrow> mgr_reachable m'"

lemma mgr_ok_New: "keys_ok (skeys (sc_db sched)) \<Longrightarrow> mgr_ok (NewManager sched)"
  using tree_ok_New [of sched]
  by (simp add: mgr_ok_def all_slots_def slots_ok_def NewManager_def getInstance_def del: instances_getInstance)

lemma mgr_ok_NewSession:
  assumes ok: "mgr_ok m" and env: "env_ok env m" and ch: "proper_key ch" and run: "NewSessionForChannel env k ch m = (r, m')"
  shows "mgr_ok m'"
proof (cases "\<exists>i. getInstance m k = Some i \<and> mi_Status i = InstanceRunning")
  case True
  then show ?thesis using mgr_ok_cleared [OF ok env ch _ _ run] by blast
next
  case False
  then have "m' = m"
    using run by (auto simp: NewSessionForChannel_def split: option.splits if_splits) (metis InstanceStatus.exhaust)+
  with ok show ?thesis by simp
qed

lemma mgr_ok_step: "mgr_step m m' \<Longrightarrow> mgr_ok m \<Longrightarrow> mgr_ok m'"
proof (induction rule: mgr_step.induct)
  case (stop now k m ri m')
  then show ?case
    by (auto simp: StopInstance_def Let_def split: bind_splits if_splits intro: mgr_ok_fold mgr_ok_stop_one)
next
  case (delete k m e m')
  then show ?case
    by (auto simp: mgr_DeleteInstance_def split: bind_splits if_splits intro: mgr_ok_fold mgr_ok_delete_one)
next
  case (shutdown m m')
  then show ?case using Shutdown_result by fastforce
qed (blast intro: mgr_ok_CreateInstance mgr_ok_EnsureSession mgr_ok_NewSession mgr_ok_StartInstance mgr_ok_watchSlotWorker)+

lemma mgr_reachable_ok: "mgr_reachable m \<Longrightarrow> mgr_ok m"
  by (induction rule: mgr_reachable.induct) (auto intro: mgr_ok_New mgr_ok_step)


text \<open>C35. Shutting down always ends, leaves no instance registered and stops exactly the workers that were
  held by some slot.\<close>

theorem Shutdown_complete:
  assumes "mgr_reachable m"
  shows "\<exists>m'. mgr_Shutdown m = Some m' \<and> mg_instances m' = [] \<and> set (mg_workers m') = set (mg_workers m) - held m"
  using Shutdown_result [OF mgr_reachable_ok [OF assms]] by blast

section \<open>Restarting\<close>

lemma register_child_none: "get_children (mg_children (register inst m)) k = get_children (mg_children m) k" if "mi_ParentID inst \<noteq> k"
  using that by (simp add: register_children)

text \<open>C36. Restarting a stopped instance: when it fails, every instance is registered as before and no worker was
  started.  When it succeeds, the instance runs with the one session it resumes, its latest one, on the
  channel of that session, and every other instance is as before.\<close>

theorem StartInstance_outcome:
  assumes ok: "mgr_ok m" and env: "env_ok env m" and k: "getInstance m k = Some i" "mi_Status i = InstanceStopped"
    and rs: "resumed env k (mg_db m) = (sid, ch)" and run: "StartInstance tenv env L k m = (r, m')"
  shows "mgr_ok m' \<and> (\<forall>j. j \<noteq> k \<longrightarrow> getInstance m' j = getInstance m j) \<and>
    (case r of
       Some _ \<Rightarrow> getInstance m' k = Some i \<and> mg_workers m' = mg_workers m
     | None \<Rightarrow> \<exists>i' h. getInstance m' k = Some i' \<and> mi_Status i' = InstanceRunning \<and> mi_ParentID i' = mi_ParentID i \<and>
         map fst (mi_sessions i') = [sid] \<and> mi_channelIndex i' = [(ch, sid)] \<and> sv_spawn (sn_start env) = Some h \<and>
         mg_workers m' = h # mg_workers m)"
proof -
  have m': "mgr_ok m'" using mgr_ok_StartInstance [OF ok env run] .
  let ?u = "unregisterLocked k (Some i) m"
  have idk: "mi_ID i = k" using ok k(1) by (auto simp: mgr_ok_def tree_ok_def)
  have re: "getInstance (reregisterStopped i x) j = getInstance m j" "mg_workers (reregisterStopped i x) = mg_workers m"
    if "row_added sid ch ?u x" for x j
    using row_added_get [OF that, of j] that k idk
    by (simp_all add: reregisterStopped_def register_instances unregister_instances row_added_def)
  note run' = run [unfolded StartInstance_stopped [OF k rs] Let_def]
  show ?thesis
  proof (cases "L (mi_agentName i)")
    case None
    have "row_added sid ch ?u ?u" by (simp add: row_added_def rows_added_same)
    then show ?thesis using re [of ?u] None run' m' k by auto
  next
    case (Some cfg)
    obtain r2 m2 where st: "startInstance (sn_start env) k sid ch cfg (mi_ParentID i) (mi_Mode i) (mi_NodeID i) [] [] ?u = (r2, m2)"
      by fastforce
    from startInstance_outcome [OF st] show ?thesis
    proof (elim disjE exE conjE)
      fix e assume "r2 = Inl e" "row_added sid ch ?u m2"
      then show ?thesis using re [of m2] Some run' st m' k by auto
    next
      fix ms nodeID model h n loop
      let ?b = "buildInstance k sid ch cfg (mi_Mode i) (mi_ParentID i) nodeID model [] [] h n loop"
      assume new: "r2 = Inr k" "sv_spawn (sn_start env) = Some h" "row_added sid ch ?u ms"
        "m2 = hook_start k (register ?b (ms\<lparr>mg_workers := h # mg_workers ms\<rparr>))"
      have g: "getInstance m' j = (if j = k then Some ?b else getInstance m j)" for j
        using Some run' st new row_added_get [OF new(3), of j]
        by (auto simp: register_instances unregister_instances buildInstance_def)
      moreover have "mg_workers m' = h # mg_workers m" "r = None"
        using Some run' st new(1,4) new(3) by (auto simp: row_added_def)
      ultimately show ?thesis using m' new(2) by (simp add: buildInstance_def)
    qed
  qed
qed

text \<open>A restart takes the index of children along: the stopped children stay registered, but no walk
  from the restarted parent reaches them any more, so that stopping or deleting the parent leaves them.\<close>

lemma restart_forgets_children:
  assumes ok: "mgr_ok m" and k: "getInstance m k = Some i" "mi_Status i = InstanceStopped"
    and run: "StartInstance tenv env L k m = (None, m')" and env: "env_ok env m"
  shows "collectDescendants m' k = Some [k]"
proof -
  obtain sid ch where rs: "resumed env k (mg_db m) = (sid, ch)" by fastforce
  let ?u = "unregisterLocked k (Some i) m"
  note run' = run [unfolded StartInstance_stopped [OF k rs] Let_def]
  obtain cfg where L: "L (mi_agentName i) = Some cfg" using run' by (auto split: option.splits)
  obtain r2 m2 where st: "startInstance (sn_start env) k sid ch cfg (mi_ParentID i) (mi_Mode i) (mi_NodeID i) [] [] ?u = (r2, m2)"
    by fastforce
  have "\<not> (\<exists>e. r2 = Inl e)" using run' L st by auto
  then obtain ms nodeID model h n loop where new: "row_added sid ch ?u ms" "r2 = Inr k"
    "m2 = hook_start k (register (buildInstance k sid ch cfg (mi_Mode i) (mi_ParentID i) nodeID model [] [] h n loop)
       (ms\<lparr>mg_workers := h # mg_workers ms\<rparr>))"
    using startInstance_outcome [OF st] by blast
  have "mi_ParentID i \<noteq> k"
  proof
    assume "mi_ParentID i = k"
    with k(1) have "(k, k) \<in> lineage m" by (auto simp: lineage_def)
    with ok show False by (auto simp: mgr_ok_def tree_ok_def acyclic_def)
  qed
  then have "get_children (mg_children m') k = get_children (mg_children ms) k"
    using run' L st new(2,3) by (auto simp: register_children buildInstance_def)
  also have "\<dots> = []"
    using new(1) \<open>mi_ParentID i \<noteq> k\<close> by (simp add: row_added_def unregisterLocked_def Let_def)
  finally have c: "get_children (mg_children m') k = []" .
  have "getInstance m' k \<noteq> None"
    using run' L st new(2,3) by (auto simp: register_instances buildInstance_def)
  moreover have "bfs (mg_children m') [k] = Some [k]"
    using c by (subst bfs.simps, simp) (subst bfs.simps, simp)
  ultimately show ?thesis by (simp add: collectDescendants_def)
qed

section \<open>Messages\<close>

lemma ensured_index:
  assumes ok: "mgr_ok m" and env: "env_ok env m" and ch: "proper_key ch"
    and run: "EnsureSession env k ch m = (Inr sid, m')" and k: "getInstance m' k = Some i"
  shows "gomap_get (mi_channelIndex i) ch = Some sid"
proof (cases "\<exists>i0. getInstance m k = Some i0 \<and> mi_Status i0 = InstanceRunning")
  case False
  then show ?thesis
    using run by (auto simp: EnsureSession_def split: option.splits if_splits) (metis InstanceStatus.exhaust)+
next
  case True
  then obtain i0 where i0: "getInstance m k = Some i0" "mi_Status i0 = InstanceRunning" by blast
  note run' = run [unfolded EnsureSession_running [OF ok i0]]
  show ?thesis
  proof (cases "gomap_get (mi_channelIndex i0) ch")
    case (Some sid')
    then show ?thesis using run' k i0 by simp
  next
    case None
    then have "createSessionSlot env i0 k ch m = (Inr sid, m')" using run' by (auto split: if_splits)
    from createSessionSlot_ok(3) [OF ok i0 env ch None this] k show ?thesis by (auto simp: addSlot_def new_slot_def)
  qed
qed

lemma proper_caller: "proper_key (channel_of_caller ctx)"
  using proper_initial [of "cx_caller ctx"] by (simp add: channel_of_caller_def initial_channel_def)

text \<open>C19. A message that gets through runs on the session of its sender's channel, on a running instance with
  an inference loop, and extends the call chain by an instance that was not in it: an instance that
  awaits a response further up is never entered again, so the calls nested in one another are to
  distinct instances.\<close>

theorem SendMessage_correct:
  assumes ok: "mgr_ok m" and env: "env_ok env m" and run: "SendMessage env ctx k m = (r, m')"
  shows "mgr_ok m' \<and>
    (case r of
       Inl _ \<Rightarrow> True
     | Inr (sid, ctx') \<Rightarrow> k \<notin> set (cx_chain ctx) \<and> cx_chain ctx' = k # cx_chain ctx \<and> cx_caller ctx' = k \<and>
         (\<exists>i s. getInstance m' k = Some i \<and> mi_Status i = InstanceRunning \<and>
            gomap_get (mi_channelIndex i) (channel_of_caller ctx) = Some sid \<and>
            gomap_get (mi_sessions i) sid = Some s \<and> sl_loop s))"
proof -
  obtain r1 m1 where e: "EnsureSession env k (channel_of_caller ctx) m = (r1, m1)" by fastforce
  have ok1: "mgr_ok m1" using mgr_ok_EnsureSession [OF ok env proper_caller e] .
  have m': "m' = m1" using run e by (auto simp: SendMessage_def split: sum.splits)
  show ?thesis
  proof (cases r)
    case (Inl err)
    with ok1 m' show ?thesis by simp
  next
    case (Inr p)
    obtain sid ctx' where p: "p = (sid, ctx')" by fastforce
    have r1: "r1 = Inr sid" and a: "\<exists>s. acquireSlot ctx k sid m1 = Inr (s, ctx')"
      using run e Inr p by (auto simp: SendMessage_def split: sum.splits)
    obtain s i where s: "\<not> IsInCallChain ctx k" "getInstance m1 k = Some i" "mi_Status i \<noteq> InstanceStopped"
      "gomap_get (mi_sessions i) sid = Some s" "sl_loop s" "ctx' = ContextWithCallerID k (ContextWithCallChain k ctx)"
      using a by (auto simp: acquireSlot_def split: if_splits option.splits)
    have running: "mi_Status i = InstanceRunning" using s(3) by (cases "mi_Status i") simp_all
    have "gomap_get (mi_channelIndex i) (channel_of_caller ctx) = Some sid"
      using ensured_index [OF ok env proper_caller e [unfolded r1] s(2)] .
    with ok1 m' s running show ?thesis
      unfolding Inr p by (simp add: IsInCallChain_def ContextWithCallerID_def ContextWithCallChain_def add_new_def)
  qed
qed

section \<open>Subagents\<close>

definition eph :: "string \<Rightarrow> 'sch Manager \<Rightarrow> bool" where
  "eph k m \<longleftrightarrow> (\<forall>i. getInstance m k = Some i \<longrightarrow> mi_Mode i = ''ephemeral'' \<and> mi_Status i = InstanceRunning)"

lemma eph_EnsureSession:
  assumes ok: "mgr_ok m" and env: "env_ok env m" and ch: "proper_key ch" and run: "EnsureSession env k ch m = (r, m')"
    and e: "eph k m"
  shows "eph k m'"
proof (cases "getInstance m k")
  case None
  with run e show ?thesis by (simp add: EnsureSession_def eph_def)
next
  case (Some i)
  then have i: "mi_Status i = InstanceRunning" "mi_Mode i = ''ephemeral''" using e by (auto simp: eph_def)
  note run' = run [unfolded EnsureSession_running [OF ok Some i(1)]]
  show ?thesis
  proof (cases "m' = m")
    case False
    then have "gomap_get (mi_channelIndex i) ch = None" "createSessionSlot env i k ch m = (r, m')"
      using run' by (auto split: option.splits if_splits)
    from createSessionSlot_ok(3) [OF ok Some i(1) env ch this] i show ?thesis
      by (auto simp: eph_def addSlot_def split: sum.splits)
  qed (use e in simp)
qed

lemma env_ok_started:
  assumes run: "startInstance env0 k sid ch cfg par mode node dn dd m = (r, m')"
    and env: "env_ok env m" "sn_newID env \<noteq> sid" "sv_spawn (sn_start env) \<noteq> sv_spawn env0" and new: "getInstance m k = None"
  shows "env_ok env m'"
proof -
  have sk: "fst ` set (skeys (mg_db x)) \<subseteq> insert sid (fst ` set (skeys (mg_db m)))" if "row_added sid ch m x" for x
    using that rows_added_skeys [of sid "splitChannelKey ch" "mg_db m" "mg_db x"] by (auto simp: row_added_def)
  from startInstance_outcome [OF run] show ?thesis
  proof (elim disjE exE conjE)
    fix e assume r: "row_added sid ch m m'"
    then show ?thesis
      using env(1,2) sk [OF r] row_added_slots [OF r] by (auto simp: env_ok_def fresh_sid_def fresh_worker_def row_added_def)
  next
    fix ms nodeID model h n loop
    let ?b = "buildInstance k sid ch cfg mode par nodeID model dn dd h n loop"
    assume a: "sv_spawn env0 = Some h" "row_added sid ch m ms"
      "m' = hook_start k (register ?b (ms\<lparr>mg_workers := h # mg_workers ms\<rparr>))"
    have "(j, sd, s) \<in> all_slots m' \<Longrightarrow> sd = sid \<or> (j, sd, s) \<in> all_slots m" for j sd s
      using a(3) row_added_get [OF a(2)]
      by (auto simp: all_slots_def register_instances buildInstance_def gomap_get_def split: if_splits)
    then have "(j, sn_newID env, s) \<notin> all_slots m'" for j s
      using env(1,2) unfolding env_ok_def fresh_sid_def by blast
    moreover have "skeys (mg_db m') = skeys (mg_db ms)" "mg_workers m' = h # mg_workers m"
      using a(2,3) by (simp_all add: row_added_def)
    ultimately show ?thesis
      using env a(1) sk [OF a(2)] by (auto simp: env_ok_def fresh_sid_def fresh_worker_def)
  qed
qed

lemma eph_stopped:
  assumes ok: "mgr_ok m" and e: "eph k m"
  shows "\<exists>ri m'. StopInstance now k m = Some (ri, m') \<and> getInstance m' k = None"
proof (cases "getInstance m k")
  case None
  then show ?thesis by (simp add: StopInstance_def collectDescendants_def)
next
  case (Some i)
  then have i: "mi_Status i = InstanceRunning" "mi_Mode i = ''ephemeral''" using e by (auto simp: eph_def)
  have t: "tree_ok m" using ok by (simp add: mgr_ok_def)
  obtain ds where ds: "collectDescendants m k = Some ds" "k \<in> set ds" using collectDescendants_Some [OF t Some] by auto
  then have "ds \<noteq> []" by auto
  moreover have "getInstance (fold (stop_one now) (rev ds) m) k = None"
    using fold_stop_one(2) [OF t, of now "rev ds" k] ds(2) Some i by (simp add: stop_result_def IsPersistent_def)
  ultimately show ?thesis using ds(1) Some i by (simp add: StopInstance_def Let_def)
qed

text \<open>A subagent leaves nothing behind in the registry: whatever its turn does to the manager, as long as
  it keeps the invariant and the subagent stays ephemeral while it is registered, running it returns and
  the subagent is gone afterwards.\<close>

theorem SpawnEphemeral_cleans_up:
  assumes ok: "mgr_ok m" and new: "fresh_inst k par m" "fresh_sid (sn_newID env) m" "fresh_worker (sn_start env) m"
    and env': "env_ok env' m" "sn_newID env' \<noteq> sn_newID env" "sv_spawn (sn_start env') \<noteq> sv_spawn (sn_start env)"
    and turn: "\<And>ctx' m1. mgr_ok m1 \<Longrightarrow> eph k m1 \<Longrightarrow> mgr_ok (snd (turn k ctx' m1)) \<and> eph k (snd (turn k ctx' m1))"
  shows "\<exists>r m'. SpawnEphemeral env env' L ctx turn k name par node m = Some (r, m') \<and> getInstance m' k = None"
proof (cases "validateAgentName name \<and> L name \<noteq> None")
  case False
  then show ?thesis using new(1) by (auto simp: SpawnEphemeral_def fresh_inst_def)
next
  case True
  then obtain cfg where v: "validateAgentName name" "L name = Some cfg" by blast
  obtain r1 m1 where st: "startInstance (sn_start env) k (sn_newID env) (initial_channel par) cfg par ''ephemeral'' node [] [] m = (r1, m1)"
    by fastforce
  have k: "getInstance m k = None" using new(1) by (simp add: fresh_inst_def)
  have ok1: "mgr_ok m1 \<and> (\<exists>e. r1 = Inl e \<and> row_added (sn_newID env) (initial_channel par) m m1 \<or> r1 = Inr k)"
    by (rule mgr_ok_startInstance [OF ok k fresh_no_ancestor [OF new(1)] fresh_fits [OF new(2)] proper_initial _ st])
      (use new(3) in \<open>simp add: fresh_worker_def\<close>)
  show ?thesis
  proof (cases r1)
    case (Inl e)
    then have "row_added (sn_newID env) (initial_channel par) m m1" using ok1 by auto
    then have "getInstance m1 k = None" using row_added_get [of _ _ m m1 k] k by simp
    then show ?thesis using v st Inl by (simp add: SpawnEphemeral_def)
  next
    case (Inr x)
    with ok1 have x: "x = k" by simp
    have e1: "eph k m1"
      using startInstance_outcome [OF st] Inr by (auto simp: eph_def register_instances buildInstance_def)
    obtain r2 m2 where sm: "SendMessage env' ctx k m1 = (r2, m2)" by fastforce
    obtain r3 m3 where t: "(case (r2, m2) of (Inl e, m2) \<Rightarrow> (Inl e, m2) | (Inr (_, ctx'), m2) \<Rightarrow> turn k ctx' m2) = (r3, m3)"
      by fastforce
    have "mgr_ok m2 \<and> eph k m2"
    proof -
      obtain r' m' where es: "EnsureSession env' k (channel_of_caller ctx) m1 = (r', m')" by fastforce
      note en = env_ok_started [OF st env' k]
      have "m2 = m'" using sm es by (auto simp: SendMessage_def split: sum.splits)
      then show ?thesis
        using mgr_ok_EnsureSession [OF _ en proper_caller es] eph_EnsureSession [OF _ en proper_caller es e1] ok1 by blast
    qed
    then have m3: "mgr_ok m3" "eph k m3"
      using t turn [of m2] by (auto split: sum.splits prod.splits) (metis snd_conv)+
    obtain ri m4 where s: "StopInstance (sv_now (sn_start env)) k m3 = Some (ri, m4)" "getInstance m4 k = None"
      using eph_stopped [OF m3] by blast
    have "SpawnEphemeral env env' L ctx turn k name par node m = Some (r3, m4)"
      using v st Inr x sm t s(1) by (simp add: SpawnEphemeral_def)
    with s(2) show ?thesis by blast
  qed
qed

section \<open>A small run\<close>

definition demo_start :: start_env where
  "demo_start = \<lparr>sv_now = 5, sv_dirsOK = True, sv_toolsOK = True, sv_model = Some (''m'', True), sv_spawn = Some 1,
     sv_loopOK = True, sv_cluster = False\<rparr>"

definition demo_env :: session_env where
  "demo_env = \<lparr>sn_start = demo_start\<lparr>sv_spawn := Some 2\<rparr>, sn_newID = ''s2'', sn_agentOK = True, sn_pick = hd\<rparr>"

definition demo_cfg :: agent_cfg where
  "demo_cfg = \<lparr>ac_Name = ''a'', ac_Description = []\<rparr>"

definition demo_started :: "unit Manager" where
  "demo_started = snd (mgr_CreateInstance demo_start (\<lambda>_. Some demo_cfg) ''i'' ''s1'' ''a'' [] ''persistent'' [] [] []
     (NewManager (NewScheduler empty_pdb)))"

definition demo_running :: minstance where
  "demo_running = \<lparr>mi_ID = ''i'', mi_Name = ''a'', mi_Mode = ''persistent'', mi_Description = [], mi_ParentID = [],
     mi_Status = InstanceRunning, mi_Model = ''m'', mi_NodeID = ''home'', mi_agentName = ''a'',
     mi_sessions = [(''s1'', \<lparr>sl_channel = ''web'', sl_handle = Some 1, sl_loop = True, sl_node = ''home''\<rparr>)],
     mi_channelIndex = [(''web'', ''s1'')]\<rparr>"

lemma demo_started_parts:
  "mg_instances demo_started = [(''i'', demo_running)]" "mg_workers demo_started = [1]"
  "skeys (mg_db demo_started) = [(''s1'', ''web'', [])]"
  by code_simp+

lemma New_parts:
  "getInstance (NewManager sched) k = None" "all_slots (NewManager sched) = {}" "mg_workers (NewManager sched) = []"
  "mg_db (NewManager sched) = sc_db sched"
  by (simp_all add: NewManager_def getInstance_def all_slots_def del: instances_getInstance)

lemma empty_keys: "skeys (sc_db (NewScheduler empty_pdb)) = []"
  by (simp add: skeys_def NewScheduler_def empty_pdb_def)

lemma demo_started_reachable: "mgr_reachable demo_started"
proof (rule mgr_reachable.step)
  show "mgr_reachable (NewManager (NewScheduler empty_pdb) :: unit Manager)"
    by (rule mgr_reachable.init) (simp add: empty_keys keys_ok_def)
  show "mgr_step (NewManager (NewScheduler empty_pdb)) demo_started"
    by (rule mgr_step.create [where k = "''i''" and par = "[]" and sid = "''s1''" and env = demo_start])
      (simp_all add: fresh_inst_def fresh_sid_def fresh_worker_def New_parts empty_keys demo_started_def prod_eq_iff)
qed

lemma demo_started_get: "getInstance demo_started k = (if k = ''i'' then Some demo_running else None)"
  using instances_getInstance [of demo_started k, symmetric] by (simp add: demo_started_parts gomap_get_def)

lemma demo_slots: "all_slots demo_started = {(''i'', ''s1'', \<lparr>sl_channel = ''web'', sl_handle = Some 1, sl_loop = True, sl_node = ''home''\<rparr>)}"
  by (auto simp: all_slots_def demo_started_get demo_running_def gomap_get_def split: if_splits)

lemma demo_env_ok: "env_ok demo_env demo_started"
proof -
  have "pick_ok (sn_pick demo_env)" by (simp add: demo_env_def pick_ok_def)
  moreover have "fresh_sid (sn_newID demo_env) demo_started"
    unfolding fresh_sid_def demo_slots demo_started_parts by (simp add: demo_env_def)
  moreover have "fresh_worker (sn_start demo_env) demo_started"
    unfolding fresh_worker_def demo_started_parts by (simp add: demo_env_def)
  ultimately show ?thesis by (simp add: env_ok_def)
qed

lemma demo_get_i: "getInstance demo_started ''i'' = Some demo_running" "mi_Status demo_running = InstanceRunning"
  by (simp_all add: demo_started_get demo_running_def)


theorem Shutdown_complete_witness:
  "\<exists>m'. mgr_Shutdown demo_started = Some m' \<and> mg_instances m' = [] \<and> 1 \<notin> set (mg_workers m')"
proof -
  have "1 \<in> held demo_started" by (simp add: held_def demo_slots)
  with Shutdown_complete [OF demo_started_reachable] show ?thesis by auto
qed


theorem NewSessionForChannel_isolated_witness:
  "fst (NewSessionForChannel demo_env ''i'' ''web'' demo_started) = Inr ''s2'' \<and>
   row_stopped ''s1'' (mg_db (snd (NewSessionForChannel demo_env ''i'' ''web'' demo_started)))"
proof
  show "fst (NewSessionForChannel demo_env ''i'' ''web'' demo_started) = Inr ''s2''" by code_simp
  have "proper_key ''web''" by code_simp
  moreover have "''s1'' \<noteq> [] \<and> gomap_get (mi_channelIndex demo_running) ''web'' = Some ''s1''"
    by (simp add: demo_running_def gomap_get_def)
  ultimately show "row_stopped ''s1'' (mg_db (snd (NewSessionForChannel demo_env ''i'' ''web'' demo_started)))"
    using NewSessionForChannel_isolated [OF mgr_reachable_ok [OF demo_started_reachable] demo_env_ok _ demo_get_i surjective_pairing]
    by blast
qed

theorem SendMessage_correct_witness:
  "mgr_ok (snd (SendMessage demo_env \<lparr>cx_caller = [], cx_chain = []\<rparr> ''i'' demo_started)) \<and>
   isl (fst (SendMessage demo_env \<lparr>cx_caller = [], cx_chain = []\<rparr> ''i'' demo_started)) = False"
proof
  show "mgr_ok (snd (SendMessage demo_env \<lparr>cx_caller = [], cx_chain = []\<rparr> ''i'' demo_started))"
    using SendMessage_correct [OF mgr_reachable_ok [OF demo_started_reachable] demo_env_ok surjective_pairing] by blast
  show "isl (fst (SendMessage demo_env \<lparr>cx_caller = [], cx_chain = []\<rparr> ''i'' demo_started)) = False" by code_simp
qed

theorem SpawnEphemeral_cleans_up_witness:
  "\<exists>r m'. SpawnEphemeral (demo_env\<lparr>sn_newID := ''s3'', sn_start := demo_start\<lparr>sv_spawn := Some 3\<rparr>\<rparr>) demo_env
     (\<lambda>_. Some demo_cfg) \<lparr>cx_caller = ''i'', cx_chain = [''i'']\<rparr> (\<lambda>k ctx m. (Inr [], m)) ''j'' ''a'' ''i'' [] demo_started = Some (r, m') \<and>
     getInstance m' ''j'' = None"
proof (rule SpawnEphemeral_cleans_up [OF mgr_reachable_ok [OF demo_started_reachable]])
  show "fresh_inst ''j'' ''i'' demo_started" by (auto simp: fresh_inst_def demo_started_get demo_running_def split: if_splits)
  show "fresh_sid (sn_newID (demo_env\<lparr>sn_newID := ''s3'', sn_start := demo_start\<lparr>sv_spawn := Some 3\<rparr>\<rparr>)) demo_started"
    unfolding fresh_sid_def demo_slots demo_started_parts by simp
  show "fresh_worker (sn_start (demo_env\<lparr>sn_newID := ''s3'', sn_start := demo_start\<lparr>sv_spawn := Some 3\<rparr>\<rparr>)) demo_started"
    unfolding fresh_worker_def demo_started_parts by simp
qed (simp_all add: demo_env_ok, simp_all add: demo_env_def demo_start_def)

definition demo_stopped :: "unit Manager" where
  "demo_stopped = stop_one 6 ''i'' demo_started"

lemma demo_stopped_get:
  "getInstance demo_stopped k = (if k = ''i'' then Some (snd (detachAllSlots (Some InstanceStopped) demo_running)) else None)"
  by (simp add: demo_stopped_def stop_one_get demo_started_get stop_result_def demo_running_def IsPersistent_def)

lemma demo_stopped_env: "env_ok demo_env demo_stopped"
proof -
  have "skeys (mg_db demo_stopped) = [(''s1'', ''web'', [])]" "mg_workers demo_stopped = []" by code_simp+
  moreover have "(k, sid, s) \<in> all_slots demo_stopped \<Longrightarrow> sid = ''s1''" for k sid s
  proof -
    have "gomap_get (mi_sessions demo_running) sid = None" if "sid \<noteq> ''s1''"
      using that by (simp add: demo_running_def gomap_get_def)
    then have "gomap_get (mi_sessions (snd (detachAllSlots (Some InstanceStopped) demo_running))) sid = None" if "sid \<noteq> ''s1''"
      using that by (simp add: detach_sessions)
    then show "(k, sid, s) \<in> all_slots demo_stopped \<Longrightarrow> sid = ''s1''"
      unfolding all_slots_def demo_stopped_get by (auto split: if_splits)
  qed
  ultimately show ?thesis using demo_env_ok
    by (auto simp: env_ok_def fresh_sid_def fresh_worker_def demo_started_parts demo_env_def)
qed

theorem StartInstance_outcome_witness:
  "fst (StartInstance every10 demo_env (\<lambda>_. Some demo_cfg) ''i'' demo_stopped) = None \<and>
   (\<exists>i'. getInstance (snd (StartInstance every10 demo_env (\<lambda>_. Some demo_cfg) ''i'' demo_stopped)) ''i'' = Some i' \<and>
      mi_channelIndex i' = [(''web'', ''s1'')])"
proof -
  have ok: "mgr_ok demo_stopped"
    unfolding demo_stopped_def using mgr_reachable_ok [OF demo_started_reachable] by (rule mgr_ok_stop_one)
  have k: "getInstance demo_stopped ''i'' = Some (snd (detachAllSlots (Some InstanceStopped) demo_running))"
    "mi_Status (snd (detachAllSlots (Some InstanceStopped) demo_running)) = InstanceStopped"
    by (simp_all add: demo_stopped_get)
  have rs: "resumed demo_env ''i'' (mg_db demo_stopped) = (''s1'', ''web'')" by code_simp
  have r: "fst (StartInstance every10 demo_env (\<lambda>_. Some demo_cfg) ''i'' demo_stopped) = None" by code_simp
  have "StartInstance every10 demo_env (\<lambda>_. Some demo_cfg) ''i'' demo_stopped =
      (None, snd (StartInstance every10 demo_env (\<lambda>_. Some demo_cfg) ''i'' demo_stopped))"
    using r by (simp add: prod_eq_iff)
  from StartInstance_outcome [OF ok demo_stopped_env k rs this] r show ?thesis by auto
qed

section \<open>Deviations\<close>

text \<open>\<open>NewSessionForChannel\<close> has no limit: clearing a channel that has no session yet adds a slot, whatever
  the number of slots.\<close>

lemma clear_has_no_limit:
  assumes ok: "mgr_ok m" and env: "env_ok env m" and ch: "proper_key ch"
    and k: "getInstance m k = Some i" "mi_Status i = InstanceRunning" "gomap_get (mi_channelIndex i) ch = None"
    and run: "NewSessionForChannel env k ch m = (Inr sid, m')"
  shows "\<exists>i'. getInstance m' k = Some i' \<and> length (mi_sessions i') = Suc (length (mi_sessions i))"
proof -
  have d: "detachChannelSlot i ch = (None, [], i)" using k(3) by (simp add: detachChannelSlot_def slotByChannel_def)
  have fr: "fresh_sid (sn_newID env) m" using env by (simp add: env_ok_def)
  then have none: "gomap_get (mi_sessions i) (sn_newID env) = None"
    using all_slotsI [OF k(1)] unfolding fresh_sid_def by (metis option.exhaust)
  from run k(1,2) d refl refl show ?thesis
  proof (cases rule: NewSession_outcome)
    case (new ms h loop)
    then show ?thesis using none by (simp add: length_addSlot)
  qed simp_all
qed

text \<open>A failed \<open>NewSessionForChannel\<close> whose directories could not be made leaves the old worker running
  with no slot that holds it, so that nothing will stop it.\<close>

lemma failed_clear_leaks_worker:
  assumes ok: "mgr_ok m" and env: "env_ok env m"
    and k: "getInstance m k = Some i" "mi_Status i = InstanceRunning" and s: "slotByChannel i ch = Some s" "sl_handle s = Some h"
    and dirs: "\<not> sv_dirsOK (sn_start env)" and run: "NewSessionForChannel env k ch m = (r, m')"
  shows "r = Inl DirsFailed \<and> h \<in> set (mg_workers m') \<and> h \<notin> held m'"
proof -
  obtain oh osid i1 where d: "detachChannelSlot i ch = (oh, osid, i1)" by (cases "detachChannelSlot i ch")
  then have oh: "oh = Some h" using s by (auto simp: detachChannelSlot_def Let_def)
  have "fresh_sid (sn_newID env) m" using env by (simp add: env_ok_def)
  note c = cleared_state [OF ok this k d refl]
  have r: "r = Inl DirsFailed" "m' = markSessionStopped (sv_now (sn_start env)) osid (put_inst k i1 m)"
    using run k d dirs by (auto simp: NewSessionForChannel_def createSessionDirs_def Let_def)
  have "h \<notin> held m'" using c(9) oh r(2) unfolding held_def by blast
  moreover have "h \<in> set (mg_workers m)"
  proof -
    obtain sid where "gomap_get (mi_sessions i) sid = Some s" using s(1) by (auto simp: slotByChannel_def split: option.splits)
    from slots_okD(3) [OF _ all_slotsI [OF k(1) this] s(2)] ok show ?thesis unfolding mgr_ok_def by blast
  qed
  ultimately show ?thesis using r c(4) by simp
qed

text \<open>The death of an instance stops no worker of its descendants, although it takes their slots' handles.\<close>

lemma death_leaves_workers:
  assumes "handleInstanceDeath now k m = Some m'"
  shows "mg_workers m' = mg_workers m"
proof -
  have "mg_workers (fold (death_one now) ks x) = mg_workers x" for ks x
    by (induction ks arbitrary: x) simp_all
  then show ?thesis using assms by (auto simp: handleInstanceDeath_def)
qed

end
