(* ===== verification/Manager_Restore.thy ===== *)
theory Manager_Restore
  imports Manager_Steps
begin

text \<open>
  The restore of instances at the start of the server, \<open>src/internal/agent/manager_restore.go\<close>: the rows of
  the database are sorted into stopped and running instances, rows of ephemeral instances and of agents
  without a definition are deleted, stopped instances are registered and running ones started.

  The environment of the start of each instance is a function of its identifier.  The model string of a
  definition is the argument \<open>modelString\<close>; \<open>savedModel\<close> is the model that the saved configuration of an
  instance switches it to, if it has one and the switch succeeds.
\<close>

section \<open>Operations\<close>

record restoreEntry =
  re_inst :: Instance
  re_cfg :: agent_cfg

fun classifyInstances ::
  "(string \<Rightarrow> agent_cfg option) \<Rightarrow> Instance list \<Rightarrow> 'sch Manager \<Rightarrow>
   restoreEntry list \<times> restoreEntry list \<times> nat \<times> 'sch Manager" where
  "classifyInstances L [] m = ([], [], 0, m)"
| "classifyInstances L (i # is) m =
     (if \<not> IsPersistent (in_Mode i) then
        let m1 = remove_instDir (in_ID i) (set_db (try_db (DeleteInstance (in_ID i)) (mg_db m)) m)
        in case classifyInstances L is m1 of (st, ts, c, m2) \<Rightarrow> (st, ts, c + 1, m2)
      else if \<not> validateAgentName (in_AgentName i) then classifyInstances L is m
      else case L (in_AgentName i) of
             None \<Rightarrow>
               (case DeleteInstance (in_ID i) (mg_db m) of
                  Inl _ \<Rightarrow> classifyInstances L is m
                | Inr db \<Rightarrow>
                    let m1 = remove_instDir (in_ID i) (set_db db m);
                        m2 = m1\<lparr>mg_configs := removeAll (in_ID i) (mg_configs m1)\<rparr>
                    in case classifyInstances L is m2 of (st, ts, c, m3) \<Rightarrow> (st, ts, c + 1, m3))
           | Some cfg \<Rightarrow>
               (case classifyInstances L is m of (st, ts, c, m1) \<Rightarrow>
                  let e = \<lparr>re_inst = i, re_cfg = cfg\<rparr>
                  in if in_Status i = statusStopped then (e # st, ts, c, m1) else (st, e # ts, c, m1)))"

definition stopped_instance :: "(agent_cfg \<Rightarrow> string) \<Rightarrow> restoreEntry \<Rightarrow> minstance" where
  "stopped_instance modelString e =
     \<lparr>mi_ID = in_ID (re_inst e), mi_Name = ac_Name (re_cfg e), mi_Mode = in_Mode (re_inst e),
      mi_Description = ac_Description (re_cfg e), mi_ParentID = in_ParentID (re_inst e), mi_Status = InstanceStopped,
      mi_Model = modelString (re_cfg e), mi_NodeID = in_NodeID (re_inst e), mi_agentName = ac_Name (re_cfg e),
      mi_sessions = [], mi_channelIndex = []\<rparr>"

definition registerStoppedInstances :: "(agent_cfg \<Rightarrow> string) \<Rightarrow> restoreEntry list \<Rightarrow> 'sch Manager \<Rightarrow> nat \<times> 'sch Manager" where
  "registerStoppedInstances modelString stopped m =
     (length stopped, fold (\<lambda>e. register (stopped_instance modelString e)) stopped m)"

definition resolveSessionForRestore :: "session_env \<Rightarrow> string \<Rightarrow> platform_db \<Rightarrow> string \<times> string" where
  "resolveSessionForRestore env instanceID db =
     (case LatestSessionByInstance (sn_pick env) instanceID db of
        Some sess \<Rightarrow>
          (let channelKey = makeChannelKey (se_ChannelType sess) (se_ChannelID sess)
           in (se_ID sess, if channelKey = [] then ''web'' else channelKey))
      | None \<Rightarrow> (sn_newID env, ''web''))"

definition restoreInstanceConfig :: "(string \<Rightarrow> string option) \<Rightarrow> string \<Rightarrow> 'sch Manager \<Rightarrow> 'sch Manager" where
  "restoreInstanceConfig savedModel k m =
     (case (savedModel k, getInstance m k) of
        (Some model, Some inst) \<Rightarrow> put_inst k (inst\<lparr>mi_Model := model\<rparr>) m
      | _ \<Rightarrow> m)"

definition restoreRunningInstance ::
  "(string \<Rightarrow> session_env) \<Rightarrow> (string \<Rightarrow> string option) \<Rightarrow> restoreEntry \<Rightarrow> 'sch Manager \<Rightarrow> bool \<times> 'sch Manager" where
  "restoreRunningInstance env savedModel e m =
     (let i = re_inst e; k = in_ID i in
      if k \<notin> set (mg_instDirs m) then (False, set_db (try_db (DeleteInstance k) (mg_db m)) m)
      else
        (case resolveSessionForRestore (env k) k (mg_db m) of (sessionID, channelKey) \<Rightarrow>
           case startInstance (sn_start (env k)) k sessionID channelKey (re_cfg e) (in_ParentID i) (in_Mode i) (in_NodeID i)
                  [] [] m of
             (Inl _, m1) \<Rightarrow> (False, m1)
           | (Inr _, m1) \<Rightarrow> (True, restoreInstanceConfig savedModel k m1)))"

fun restore_running ::
  "(string \<Rightarrow> session_env) \<Rightarrow> (string \<Rightarrow> string option) \<Rightarrow> restoreEntry list \<Rightarrow> nat \<Rightarrow> 'sch Manager \<Rightarrow> nat \<times> 'sch Manager" where
  "restore_running env savedModel [] restored m = (restored, m)"
| "restore_running env savedModel (e # es) restored m =
     (case restoreRunningInstance env savedModel e m of
        (b, m1) \<Rightarrow> restore_running env savedModel es (if b then restored + 1 else restored) m1)"

definition RestoreInstances ::
  "(string \<Rightarrow> session_env) \<Rightarrow> (string \<Rightarrow> agent_cfg option) \<Rightarrow> (agent_cfg \<Rightarrow> string) \<Rightarrow> (string \<Rightarrow> string option) \<Rightarrow>
   'sch Manager \<Rightarrow> (nat \<times> nat) \<times> 'sch Manager" where
  "RestoreInstances env L modelString savedModel m =
     (case classifyInstances L (ListInstances [] [] (mg_db m)) m of
        (stopped, toStart, cleaned, m1) \<Rightarrow>
          (case registerStoppedInstances modelString stopped m1 of
             (n, m2) \<Rightarrow>
               (case restore_running env savedModel toStart n m2 of
                  (restored, m3) \<Rightarrow> ((restored, cleaned), m3))))"

section \<open>Classification\<close>

definition restorable :: "(string \<Rightarrow> agent_cfg option) \<Rightarrow> Instance \<Rightarrow> bool" where
  "restorable L i \<longleftrightarrow> IsPersistent (in_Mode i) \<and> validateAgentName (in_AgentName i) \<and> L (in_AgentName i) \<noteq> None"

text \<open>The registry and the workers stay, session rows may go, and the entries are the restorable rows.\<close>

fun classified ::
  "(string \<Rightarrow> agent_cfg option) \<Rightarrow> Instance list \<Rightarrow> 'sch Manager \<Rightarrow>
   restoreEntry list \<times> restoreEntry list \<times> nat \<times> 'sch Manager \<Rightarrow> bool" where
  "classified L is m (st, ts, c, m') \<longleftrightarrow>
     mg_instances m' = mg_instances m \<and> mg_children m' = mg_children m \<and> mg_workers m' = mg_workers m \<and>
     (\<exists>P. skeys (mg_db m') = filter P (skeys (mg_db m))) \<and>
     map re_inst st = filter (\<lambda>i. restorable L i \<and> in_Status i = statusStopped) is \<and>
     map re_inst ts = filter (\<lambda>i. restorable L i \<and> in_Status i \<noteq> statusStopped) is"

lemma classified_skip:
  assumes "classified L is m1 (st, ts, c, m')" "\<not> restorable L i" "\<exists>P. skeys (mg_db m1) = filter P (skeys (mg_db m))"
    "mg_instances m1 = mg_instances m" "mg_children m1 = mg_children m" "mg_workers m1 = mg_workers m"
  shows "classified L (i # is) m (st, ts, c', m')"
proof -
  obtain P Q where "skeys (mg_db m1) = filter P (skeys (mg_db m))" "skeys (mg_db m') = filter Q (skeys (mg_db m1))"
    using assms(1,3) by auto
  then have "\<exists>R. skeys (mg_db m') = filter R (skeys (mg_db m))" by auto
  with assms show ?thesis by simp
qed

lemma skeys_deleted: "DeleteInstance k db = Inr db' \<Longrightarrow> \<exists>P. skeys db' = filter P (skeys db)"
  using skeys_DeleteInstance [of k db] by (simp add: try_db_def)

lemma classify_effect: "classified L is m (classifyInstances L is m)"
proof (induction "is" arbitrary: m)
  case Nil
  then show ?case using filter_all by simp
next
  case (Cons i "is")
  let ?k = "in_ID i"
  consider (eph) "\<not> IsPersistent (in_Mode i)"
    | (bad) "IsPersistent (in_Mode i)" "\<not> validateAgentName (in_AgentName i)"
    | (orphan) "IsPersistent (in_Mode i)" "validateAgentName (in_AgentName i)" "L (in_AgentName i) = None"
    | (good) cfg where "IsPersistent (in_Mode i)" "validateAgentName (in_AgentName i)" "L (in_AgentName i) = Some cfg"
    by blast
  then show ?case
  proof cases
    case eph
    let ?m1 = "remove_instDir ?k (set_db (try_db (DeleteInstance ?k) (mg_db m)) m)"
    obtain st ts c m' where rec: "classifyInstances L is ?m1 = (st, ts, c, m')" by (cases "classifyInstances L is ?m1")
    have "classified L (i # is) m (st, ts, c + 1, m')"
      by (rule classified_skip [where ?m1.0 = ?m1])
        (use Cons [of ?m1] rec eph skeys_DeleteInstance in \<open>simp_all add: restorable_def\<close>)
    then show ?thesis using eph rec by (simp add: Let_def)
  next
    case bad
    obtain st ts c m' where rec: "classifyInstances L is m = (st, ts, c, m')" by (cases "classifyInstances L is m")
    have "classified L (i # is) m (st, ts, c, m')"
      by (rule classified_skip [where ?m1.0 = m]) (use Cons [of m] rec bad filter_all in \<open>simp_all add: restorable_def\<close>)
    then show ?thesis using bad rec by simp
  next
    case orphan
    show ?thesis
    proof (cases "DeleteInstance ?k (mg_db m)")
      case (Inl e)
      obtain st ts c m' where rec: "classifyInstances L is m = (st, ts, c, m')" by (cases "classifyInstances L is m")
      have "classified L (i # is) m (st, ts, c, m')"
        by (rule classified_skip [where ?m1.0 = m]) (use Cons [of m] rec orphan filter_all in \<open>simp_all add: restorable_def\<close>)
      then show ?thesis using orphan rec Inl by simp
    next
      case (Inr db)
      let ?r = "remove_instDir ?k (set_db db m)"
      let ?m1 = "?r\<lparr>mg_configs := removeAll ?k (mg_configs ?r)\<rparr>"
      obtain st ts c m' where rec: "classifyInstances L is ?m1 = (st, ts, c, m')" by (cases "classifyInstances L is ?m1")
      have "classified L (i # is) m (st, ts, c + 1, m')"
        by (rule classified_skip [where ?m1.0 = ?m1])
          (use Cons [of ?m1] rec orphan skeys_deleted [OF Inr] in \<open>simp_all add: restorable_def\<close>)
      then show ?thesis using orphan rec Inr by (simp add: Let_def)
    qed
  next
    case (good cfg)
    obtain st ts c m' where rec: "classifyInstances L is m = (st, ts, c, m')" by (cases "classifyInstances L is m")
    with Cons [of m] good show ?thesis by (simp add: Let_def restorable_def)
  qed
qed

section \<open>Invariant of the restore\<close>

definition parents :: "Instance list \<Rightarrow> (string \<times> string) set" where
  "parents rows = {(in_ParentID i, in_ID i) | i. i \<in> set rows}"

text \<open>Every instance with a parent is listed among its parent's children.\<close>

definition index_complete :: "'sch Manager \<Rightarrow> bool" where
  "index_complete m \<longleftrightarrow> (\<forall>k i. getInstance m k = Some i \<and> mi_ParentID i \<noteq> [] \<longrightarrow>
     k \<in> set (get_children (mg_children m) (mi_ParentID i)))"

text \<open>New identifiers and workers of different instances differ and are not in use.\<close>

definition envs_ok :: "(string \<Rightarrow> session_env) \<Rightarrow> string set \<Rightarrow> string set \<Rightarrow> bool" where
  "envs_ok env ids used \<longleftrightarrow>
     (\<forall>k\<in>ids. pick_ok (sn_pick (env k)) \<and> sn_newID (env k) \<noteq> [] \<and> sn_newID (env k) \<notin> used) \<and>
     (\<forall>k\<in>ids. \<forall>k'\<in>ids. k \<noteq> k' \<longrightarrow> sn_newID (env k) \<noteq> sn_newID (env k') \<and>
        (\<forall>h. sv_spawn (sn_start (env k)) = Some h \<longrightarrow> sv_spawn (sn_start (env k')) \<noteq> Some h))"

lemma envs_okD:
  assumes "envs_ok env ids used" "k \<in> ids"
  shows "pick_ok (sn_pick (env k))" "sn_newID (env k) \<noteq> []" "sn_newID (env k) \<notin> used"
    "k' \<in> ids \<Longrightarrow> k \<noteq> k' \<Longrightarrow> sn_newID (env k) \<noteq> sn_newID (env k')"
    "k' \<in> ids \<Longrightarrow> k \<noteq> k' \<Longrightarrow> sv_spawn (sn_start (env k)) = Some h \<Longrightarrow> sv_spawn (sn_start (env k')) \<noteq> Some h"
  using assms by (simp_all add: envs_ok_def)

definition restoring ::
  "Instance list \<Rightarrow> (string \<Rightarrow> session_env) \<Rightarrow> string set \<Rightarrow> string set \<Rightarrow> 'sch Manager \<Rightarrow> bool" where
  "restoring rows env used seen m \<longleftrightarrow> mgr_ok m \<and> index_complete m \<and> lineage m \<subseteq> parents rows \<and>
     (\<forall>k i. getInstance m k = Some i \<longrightarrow> k \<in> seen) \<and>
     (\<forall>sid p. (sid, p) \<in> set (skeys (mg_db m)) \<longrightarrow> sid \<in> used \<union> (\<lambda>k. sn_newID (env k)) ` seen \<and> p \<noteq> ([], [])) \<and>
     (\<forall>k sid s. (k, sid, s) \<in> all_slots m \<longrightarrow> sid \<in> used \<union> (\<lambda>k. sn_newID (env k)) ` seen) \<and>
     (\<forall>h\<in>set (mg_workers m). \<exists>k\<in>seen. sv_spawn (sn_start (env k)) = Some h)"

lemma parents_acyclic_start:
  assumes "acyclic (parents rows)" "lineage m \<subseteq> parents rows" "i \<in> set rows"
  shows "(in_ID i, in_ParentID i) \<notin> (lineage m)\<^sup>*"
proof
  assume "(in_ID i, in_ParentID i) \<in> (lineage m)\<^sup>*"
  then have "(in_ID i, in_ParentID i) \<in> (parents rows)\<^sup>*" using assms(2) rtrancl_mono by blast
  moreover have "(in_ParentID i, in_ID i) \<in> parents rows" using assms(3) by (auto simp: parents_def)
  ultimately have "(in_ID i, in_ID i) \<in> (parents rows)\<^sup>+" by (rule rtrancl_into_trancl1)
  with assms(1) show False by (simp add: acyclic_def)
qed

lemma index_complete_register:
  "index_complete m \<Longrightarrow> getInstance m (mi_ID inst) = None \<Longrightarrow> index_complete (register inst m)"
  unfolding index_complete_def by (simp add: register_instances register_children) metis

lemma lineage_register: "lineage (register inst m) \<subseteq> insert (mi_ParentID inst, mi_ID inst) (lineage m)"
  by (auto simp: lineage_def register_instances split: if_splits)

lemma restoring_stopped:
  assumes inv: "restoring rows env used seen m" and ac: "acyclic (parents rows)"
    and e: "re_inst e \<in> set rows" "in_ID (re_inst e) \<notin> seen"
  shows "restoring rows env used (insert (in_ID (re_inst e)) seen) (register (stopped_instance ms e) m)"
proof -
  let ?i = "stopped_instance ms e" and ?k = "in_ID (re_inst e)"
  let ?m = "register ?i m"
  have f: "mi_ID ?i = ?k" "mi_ParentID ?i = in_ParentID (re_inst e)" "mi_sessions ?i = []" "mi_channelIndex ?i = []"
    "mi_Status ?i = InstanceStopped" by (simp_all add: stopped_instance_def)
  have none: "getInstance m ?k = None" using inv e(2) by (auto simp: restoring_def)
  have sl: "all_slots ?m = all_slots m"
    using none f by (auto simp: all_slots_def register_instances split: if_splits)
  have "tree_ok ?m"
    by (rule tree_ok_register)
      (use inv none f parents_acyclic_start [OF ac _ e(1), of m] in \<open>auto simp: restoring_def mgr_ok_def inst_ok_def\<close>)
  moreover have "inst_live ?i" using f by (simp add: inst_live_def)
  ultimately have "mgr_ok ?m" using inv sl by (auto simp: restoring_def mgr_ok_def register_instances split: if_splits)
  moreover have "index_complete ?m" using inv none f by (intro index_complete_register) (auto simp: restoring_def)
  moreover have "lineage ?m \<subseteq> parents rows"
    using inv lineage_register [of ?i m] e(1) f by (auto simp: restoring_def parents_def)
  ultimately show ?thesis
    using inv f by (auto simp: restoring_def sl register_instances split: if_splits)
qed

lemma put_model:
  assumes ok: "mgr_ok m" and k: "getInstance m k = Some i"
  shows "mgr_ok (put_inst k (i\<lparr>mi_Model := md\<rparr>) m)" "all_slots (put_inst k (i\<lparr>mi_Model := md\<rparr>) m) = all_slots m"
proof -
  let ?m = "put_inst k (i\<lparr>mi_Model := md\<rparr>) m"
  show sl: "all_slots ?m = all_slots m" using k by (auto simp: all_slots_def split: if_splits)
  have "tree_ok ?m" unfolding put_inst_def
    by (rule tree_ok_put [OF _ k]) (use ok k in \<open>auto simp: mgr_ok_def tree_ok_def inst_ok_def\<close>)
  then show "mgr_ok ?m" using ok k sl by (auto simp: mgr_ok_def inst_live_def split: if_splits)
qed

lemma restoring_config:
  assumes "restoring rows env used seen m"
  shows "restoring rows env used seen (restoreInstanceConfig sm k m)"
proof (cases "\<exists>md i. sm k = Some md \<and> getInstance m k = Some i")
  case True
  then obtain md i where k: "sm k = Some md" "getInstance m k = Some i" by blast
  let ?m = "put_inst k (i\<lparr>mi_Model := md\<rparr>) m"
  have ok: "mgr_ok m" using assms by (simp add: restoring_def)
  have "lineage ?m = lineage m" using k(2) by (auto simp: lineage_def split: if_splits)
  moreover have "index_complete ?m" using assms k(2) by (auto simp: restoring_def index_complete_def put_inst_def split: if_splits)
  ultimately have "restoring rows env used seen ?m"
    using assms put_model [OF ok k(2), of md] k(2) by (auto simp: restoring_def split: if_splits)
  with k show ?thesis by (simp add: restoreInstanceConfig_def)
next
  case False
  then have "restoreInstanceConfig sm k m = m" by (auto simp: restoreInstanceConfig_def split: option.split)
  with assms show ?thesis by simp
qed

lemma resolve_restore:
  assumes inv: "restoring rows env used seen m" and en: "envs_ok env ids used" "insert k seen \<subseteq> ids" "k \<notin> seen"
    and r: "resolveSessionForRestore (env k) k (mg_db m) = (sid, ch)"
  shows "sid_fits sid ch m" "proper_key ch" "splitChannelKey ch \<noteq> ([], [])" "sid \<in> used \<union> (\<lambda>k. sn_newID (env k)) ` insert k seen"
proof -
  have ok: "mgr_ok m" using inv by (simp add: restoring_def)
  have p: "pick_ok (sn_pick (env k))" using en(1,2) unfolding envs_ok_def by blast
  have "sid_fits sid ch m \<and> proper_key ch \<and> splitChannelKey ch \<noteq> ([], []) \<and> sid \<in> used \<union> (\<lambda>k. sn_newID (env k)) ` insert k seen"
  proof (cases "LatestSessionByInstance (sn_pick (env k)) k (mg_db m)")
    case None
    have "k \<in> ids" "seen \<subseteq> ids" using en(2) by auto
    then have n: "sn_newID (env k) \<notin> used" "sn_newID (env k) \<noteq> []"
      "\<And>j. j \<in> seen \<Longrightarrow> sn_newID (env k) \<noteq> sn_newID (env j)"
      using envs_okD(2-4) [OF en(1)] en(3) by (blast, blast, metis subsetD)
    then have out: "sn_newID (env k) \<notin> used \<union> (\<lambda>k. sn_newID (env k)) ` seen" by blast
    have "(sn_newID (env k), p) \<notin> set (skeys (mg_db m))" "(j, sn_newID (env k), s) \<notin> all_slots m" for p j s
      using inv out unfolding restoring_def by blast+
    then have "fresh_sid (sn_newID (env k)) m" using n(2) by (auto simp: fresh_sid_def)
    moreover have "proper_key ''web''" "splitChannelKey ''web'' \<noteq> ([], [])" by code_simp+
    moreover have "sid = sn_newID (env k)" "ch = ''web''" using r None by (simp_all add: resolveSessionForRestore_def)
    ultimately show ?thesis using fresh_fits by blast
  next
    case (Some s)
    have "s \<in> set (pdb_sessions (mg_db m))"
      using newest_mem [OF p Some [unfolded LatestSessionByInstance_def]] by simp
    then have row: "(se_ID s, se_ChannelType s, se_ChannelID s) \<in> set (skeys (mg_db m))" by (simp add: skeys_def)
    have ne: "(se_ChannelType s, se_ChannelID s) \<noteq> ([], [])" and used: "se_ID s \<in> used \<union> (\<lambda>k. sn_newID (env k)) ` seen"
      using inv row unfolding restoring_def by blast+
    then have mk: "makeChannelKey (se_ChannelType s) (se_ChannelID s) \<noteq> []" by (auto simp: makeChannelKey_def)
    have "CHR '':'' \<notin> set (se_ChannelType s)" using ok row by (auto simp: mgr_ok_def keys_ok_def)
    note sp = split_make [OF this, of "se_ChannelID s"]
    have "sid = se_ID s" "ch = makeChannelKey (se_ChannelType s) (se_ChannelID s)"
      using r Some mk by (simp_all add: resolveSessionForRestore_def Let_def)
    with sp ne used latest_session_fits [OF ok p Some] show ?thesis by auto
  qed
  then show "sid_fits sid ch m" "proper_key ch" "splitChannelKey ch \<noteq> ([], [])" "sid \<in> used \<union> (\<lambda>k. sn_newID (env k)) ` insert k seen"
    by blast+
qed

lemma restoring_row:
  assumes inv: "restoring rows env used seen m" and r: "row_added sid ch m m'" and fit: "sid_fits sid ch m"
    and ch: "splitChannelKey ch \<noteq> ([], [])" and sid: "sid \<in> used \<union> (\<lambda>k. sn_newID (env k)) ` insert k seen"
  shows "restoring rows env used (insert k seen) m'"
proof -
  have ok: "mgr_ok m'" using row_added_ok(1) [OF r _ fit] inv by (simp add: restoring_def)
  have sk: "set (skeys (mg_db m')) \<subseteq> insert (sid, splitChannelKey ch) (set (skeys (mg_db m)))"
    using r rows_added_skeys [of sid "splitChannelKey ch" "mg_db m" "mg_db m'"] by (auto simp: row_added_def)
  have get: "getInstance m' j = getInstance m j" for j by (rule row_added_get [OF r])
  have "sid' \<in> used \<union> (\<lambda>k. sn_newID (env k)) ` insert k seen \<and> p \<noteq> ([], [])" if "(sid', p) \<in> set (skeys (mg_db m'))" for sid' p
  proof (cases "(sid', p) = (sid, splitChannelKey ch)")
    case False
    with sk that have "(sid', p) \<in> set (skeys (mg_db m))" by blast
    with inv show ?thesis unfolding restoring_def by blast
  qed (use ch sid in auto)
  moreover have "sid' \<in> used \<union> (\<lambda>k. sn_newID (env k)) ` insert k seen" if "(j, sid', s) \<in> all_slots m'" for j sid' s
    using inv that unfolding restoring_def row_added_slots [OF r] by blast
  moreover have "mg_workers m' = mg_workers m" "mg_children m' = mg_children m" using r by (simp_all add: row_added_def)
  moreover have "lineage m' = lineage m" "index_complete m' = index_complete m"
    using \<open>mg_children m' = mg_children m\<close> by (simp_all add: lineage_def index_complete_def get)
  ultimately show ?thesis using inv ok unfolding restoring_def get by auto
qed

lemma restoring_started:
  assumes inv: "restoring rows env used (insert k seen) m" and fit: "sid_fits sid ch m" "proper_key ch"
    and sid: "sid \<in> used \<union> (\<lambda>k. sn_newID (env k)) ` insert k seen"
    and row: "i \<in> set rows" "in_ID i = k" and ac: "acyclic (parents rows)"
    and new: "getInstance m k = None" and h: "sv_spawn (sn_start (env k)) = Some h" "h \<notin> set (mg_workers m)"
  shows "restoring rows env used (insert k seen)
    (hook_start k (register (buildInstance k sid ch cfg mode (in_ParentID i) node md [] [] h n loop) (m\<lparr>mg_workers := h # mg_workers m\<rparr>)))"
    (is "restoring rows env used _ (hook_start k (register ?b ?m))")
proof -
  have f: "mi_ID ?b = k" "mi_ParentID ?b = in_ParentID i" by (simp_all add: buildInstance_def)
  have "mgr_ok (register ?b ?m)"
    by (rule mgr_ok_register [where sid = sid and s = "\<lparr>sl_channel = ch, sl_handle = Some h, sl_loop = loop, sl_node = n\<rparr>"])
      (use inv fit new h parents_acyclic_start [OF ac _ row(1), of m] row(2) in
        \<open>simp_all add: restoring_def buildInstance_def\<close>)
  then have ok: "mgr_ok (hook_start k (register ?b ?m))" using mgr_ok_cong [of "hook_start k (register ?b ?m)" "register ?b ?m"] by simp
  have get: "getInstance (register ?b ?m) j = (if j = k then Some ?b else getInstance m j)" for j
    by (simp add: register_instances f)
  have lin: "lineage (hook_start k (register ?b ?m)) \<subseteq> parents rows"
    using inv row f by (auto simp: lineage_def get restoring_def parents_def split: if_splits)
  have "index_complete ?m" using inv by (simp add: restoring_def index_complete_def)
  then have "index_complete (register ?b ?m)" by (rule index_complete_register) (simp add: f new)
  then have ix: "index_complete (hook_start k (register ?b ?m))" by (simp add: index_complete_def)
  have "sd \<in> used \<union> (\<lambda>k. sn_newID (env k)) ` insert k seen" if "(j, sd, s) \<in> all_slots (register ?b ?m)" for j sd s
  proof (cases "j = k")
    case True
    have "gomap_get (mi_sessions ?b) sd = Some s \<Longrightarrow> sd = sid"
      by (simp add: buildInstance_def gomap_get_def split: if_splits)
    with that True have "sd = sid" by (simp add: all_slots_def get)
    with sid show ?thesis by simp
  next
    case False
    with that have "(j, sd, s) \<in> all_slots m" by (simp add: all_slots_def get)
    with inv show ?thesis unfolding restoring_def by blast
  qed
  with ok lin ix inv h(1) show ?thesis unfolding restoring_def by (auto simp: get split: if_splits)
qed

section \<open>The restore\<close>

lemma restoring_mono:
  assumes "restoring rows env used seen m" "seen \<subseteq> seen'"
  shows "restoring rows env used seen' m"
proof -
  have im: "(\<lambda>k. sn_newID (env k)) ` seen \<subseteq> (\<lambda>k. sn_newID (env k)) ` seen'" using assms(2) by (rule image_mono)
  show ?thesis using assms im unfolding restoring_def by (elim conjE, intro conjI) (assumption | blast)+
qed

lemma restoring_pruned:
  assumes inv: "restoring rows env used seen m" and P: "skeys db = filter P (skeys (mg_db m))"
  shows "restoring rows env used (insert k seen) (set_db db m)"
proof -
  have ok: "mgr_ok m" using inv by (simp add: restoring_def)
  have sl: "all_slots (set_db db m) = all_slots m" by (simp add: all_slots_def)
  have "mgr_ok (set_db db m)"
    by (rule mgr_ok_shrink [OF ok])
      (use ok P sl tree_ok_cong [of "set_db db m" m] slots_okD(3) [of "all_slots m" "skeys (mg_db m)" "set (mg_workers m)"] in
        \<open>auto simp: mgr_ok_def\<close>)
  moreover have "lineage (set_db db m) = lineage m" "index_complete (set_db db m) = index_complete m"
    by (simp_all add: lineage_def index_complete_def)
  moreover have "(sid, p) \<in> set (skeys (mg_db m))" if "(sid, p) \<in> set (skeys (mg_db (set_db db m)))" for sid p
    using that P by simp
  ultimately have "restoring rows env used seen (set_db db m)" using inv unfolding restoring_def sl by simp blast
  then show ?thesis by (rule restoring_mono) blast
qed

lemma restoreInstanceConfig_get:
  "getInstance (restoreInstanceConfig sm k m) j =
     (if j = k then map_option (\<lambda>i. case sm k of Some md \<Rightarrow> i\<lparr>mi_Model := md\<rparr> | None \<Rightarrow> i) (getInstance m k) else getInstance m j)"
  by (auto simp: restoreInstanceConfig_def option.map_ident split: option.split)

text \<open>What the restore of a running instance leaves of it.\<close>

lemma restoring_running:
  assumes inv: "restoring rows env used seen m" and ac: "acyclic (parents rows)"
    and en: "envs_ok env ids used" "insert k seen \<subseteq> ids" "k \<notin> seen"
    and e: "re_inst e \<in> set rows" "in_ID (re_inst e) = k" and run: "restoreRunningInstance env sm e m = (b, m')"
  shows "restoring rows env used (insert k seen) m'" "\<And>j. j \<noteq> k \<Longrightarrow> getInstance m' j = getInstance m j"
    "getInstance m' k = Some i \<Longrightarrow> b \<and> mi_Status i = InstanceRunning \<and> mi_ParentID i = in_ParentID (re_inst e)"
proof -
  have new: "getInstance m k = None" using inv en(3) by (auto simp: restoring_def)
  have out: "restoring rows env used (insert k seen) m' \<and> (\<forall>j. j \<noteq> k \<longrightarrow> getInstance m' j = getInstance m j) \<and>
      (\<forall>i. getInstance m' k = Some i \<longrightarrow> b \<and> mi_Status i = InstanceRunning \<and> mi_ParentID i = in_ParentID (re_inst e))"
  proof (cases "k \<in> set (mg_instDirs m)")
    case False
    let ?m = "set_db (try_db (DeleteInstance k) (mg_db m)) m"
    have m': "m' = ?m" using run e(2) False by (simp add: restoreRunningInstance_def Let_def)
    obtain P where "skeys (try_db (DeleteInstance k) (mg_db m)) = filter P (skeys (mg_db m))"
      using skeys_DeleteInstance by blast
    from restoring_pruned [OF inv this] have "restoring rows env used (insert k seen) ?m" .
    then show ?thesis using m' new by simp
  next
    case True
    obtain sid ch where rs: "resolveSessionForRestore (env k) k (mg_db m) = (sid, ch)" by fastforce
    note fit = resolve_restore [OF inv en rs]
    obtain r1 m1 where st: "startInstance (sn_start (env k)) k sid ch (re_cfg e) (in_ParentID (re_inst e)) (in_Mode (re_inst e))
        (in_NodeID (re_inst e)) [] [] m = (r1, m1)" by fastforce
    note run' = run [unfolded restoreRunningInstance_def Let_def e(2)]
    from startInstance_outcome [OF st] show ?thesis
    proof (elim disjE exE conjE)
      fix err assume a: "r1 = Inl err" "row_added sid ch m m1"
      then have "m' = m1" using run' True rs st by simp
      then show ?thesis using restoring_row [OF inv a(2) fit(1,3,4)] row_added_get [OF a(2)] new by simp
    next
      fix ms nodeID md h n loop
      let ?b = "buildInstance k sid ch (re_cfg e) (in_Mode (re_inst e)) (in_ParentID (re_inst e)) nodeID md [] [] h n loop"
      assume a: "r1 = Inr k" "sv_spawn (sn_start (env k)) = Some h" "row_added sid ch m ms"
        "m1 = hook_start k (register ?b (ms\<lparr>mg_workers := h # mg_workers ms\<rparr>))"
      have inv2: "restoring rows env used (insert k seen) ms" using restoring_row [OF inv a(3) fit(1,3,4)] .
      have fit2: "sid_fits sid ch ms" using row_added_ok(2) [OF a(3) _ fit(1)] inv by (simp add: restoring_def)
      have hn: "h \<notin> set (mg_workers ms)"
      proof
        assume "h \<in> set (mg_workers ms)"
        then obtain j where "j \<in> seen" "sv_spawn (sn_start (env j)) = Some h"
          using inv a(3) by (auto simp: restoring_def row_added_def)
        with envs_okD(5) [OF en(1), of k j h] en(2,3) a(2) show False by blast
      qed
      have new2: "getInstance ms k = None" using row_added_get [OF a(3)] new by simp
      have "restoring rows env used (insert k seen) m1"
        unfolding a(4) by (rule restoring_started [OF inv2 fit2 fit(2) fit(4) e ac new2 a(2) hn])
      moreover have "b" "m' = restoreInstanceConfig sm k m1" using run' True rs st a(1) by simp_all
      moreover have "getInstance m1 j = (if j = k then Some ?b else getInstance m j)" for j
        using a(4) row_added_get [OF a(3), of j] by (simp add: register_instances buildInstance_def)
      ultimately show ?thesis
        using restoring_config [of rows env used "insert k seen" m1 sm k]
        by (auto simp: restoreInstanceConfig_get buildInstance_def split: option.splits)
    qed
  qed
  then show "restoring rows env used (insert k seen) m'" "\<And>j. j \<noteq> k \<Longrightarrow> getInstance m' j = getInstance m j"
    "getInstance m' k = Some i \<Longrightarrow> b \<and> mi_Status i = InstanceRunning \<and> mi_ParentID i = in_ParentID (re_inst e)" by blast+
qed

abbreviation entry_ids :: "restoreEntry list \<Rightarrow> string list" where
  "entry_ids es \<equiv> map (\<lambda>e. in_ID (re_inst e)) es"

lemma restoring_stopped_all:
  assumes "restoring rows env used seen m" "acyclic (parents rows)" "re_inst ` set es \<subseteq> set rows"
    "distinct (entry_ids es)" "seen \<inter> set (entry_ids es) = {}"
  shows "restoring rows env used (seen \<union> set (entry_ids es)) (fold (\<lambda>e. register (stopped_instance ms e)) es m) \<and>
    (\<forall>k. getInstance (fold (\<lambda>e. register (stopped_instance ms e)) es m) k =
       (case find (\<lambda>e. in_ID (re_inst e) = k) es of Some e \<Rightarrow> Some (stopped_instance ms e) | None \<Rightarrow> getInstance m k))"
  using assms
proof (induction es arbitrary: seen m)
  case (Cons e es)
  let ?k = "in_ID (re_inst e)" and ?m = "register (stopped_instance ms e) m"
  have "restoring rows env used (insert ?k seen) ?m"
    by (rule restoring_stopped) (use Cons.prems in auto)
  note IH = Cons.IH [OF this Cons.prems(2)]
  have none: "find (\<lambda>e. in_ID (re_inst e) = ?k) es = None"
    using Cons.prems(4) unfolding find_None_iff by (metis (mono_tags, lifting) distinct.simps(2) image_eqI list.simps(9) set_map)
  have get: "getInstance ?m j = (if j = ?k then Some (stopped_instance ms e) else getInstance m j)" for j
    by (simp add: register_instances stopped_instance_def)
  show ?case using IH Cons.prems(3-5) none by (auto simp: get split: option.splits if_splits)
qed simp

lemma restoring_running_all:
  assumes "restoring rows env used seen m" "acyclic (parents rows)" "envs_ok env ids used"
    "seen \<union> set (entry_ids es) \<subseteq> ids" "re_inst ` set es \<subseteq> set rows" "distinct (entry_ids es)" "seen \<inter> set (entry_ids es) = {}"
    "restore_running env sm es c m = (c', m')"
  shows "restoring rows env used (seen \<union> set (entry_ids es)) m' \<and>
    (\<forall>k. k \<notin> set (entry_ids es) \<longrightarrow> getInstance m' k = getInstance m k) \<and>
    (\<forall>e i. e \<in> set es \<and> getInstance m' (in_ID (re_inst e)) = Some i \<longrightarrow>
       mi_Status i = InstanceRunning \<and> mi_ParentID i = in_ParentID (re_inst e))"
  using assms
proof (induction es arbitrary: seen m c)
  case (Cons e es)
  let ?k = "in_ID (re_inst e)"
  obtain b m1 where r: "restoreRunningInstance env sm e m = (b, m1)" by fastforce
  have e: "re_inst e \<in> set rows" "?k \<notin> seen" "insert ?k seen \<subseteq> ids" using Cons.prems by auto
  note st = restoring_running [OF Cons.prems(1,2,3) e(3,2,1) refl r]
  have rest: "restore_running env sm es (if b then c + 1 else c) m1 = (c', m')" using Cons.prems(8) r by simp
  have "insert ?k seen \<union> set (entry_ids es) \<subseteq> ids" "re_inst ` set es \<subseteq> set rows" "distinct (entry_ids es)"
    "insert ?k seen \<inter> set (entry_ids es) = {}" using Cons.prems(4-7) by auto
  note IH = Cons.IH [OF st(1) Cons.prems(2,3) this rest]
  have k: "?k \<notin> set (entry_ids es)" using Cons.prems(6) by simp
  have "mi_Status i = InstanceRunning \<and> mi_ParentID i = in_ParentID (re_inst x)"
    if "x \<in> set (e # es)" "getInstance m' (in_ID (re_inst x)) = Some i" for x i
    using that IH k st(3) [of i] by auto
  then show ?case using IH k st(2) by auto
qed simp

section \<open>Correctness\<close>

lemma restoring_init:
  assumes "mg_instances m = []" "mg_children m = []" "mg_workers m = []" "keys_ok (skeys (mg_db m))"
    "fst ` set (skeys (mg_db m)) \<subseteq> used" "\<forall>(sid, p)\<in>set (skeys (mg_db m)). p \<noteq> ([], [])"
  shows "restoring rows env used {} m"
proof -
  have none: "getInstance m k = None" for k using assms(1) instances_getInstance [of m k] by simp
  then have "all_slots m = {}" "lineage m = {}" "index_complete m" by (simp_all add: all_slots_def lineage_def index_complete_def)
  moreover have "tree_ok m"
    using assms(1,2) none \<open>lineage m = {}\<close> by (simp add: tree_ok_def get_children_def acyclic_def)
  ultimately show ?thesis using assms none by (auto simp: restoring_def mgr_ok_def slots_ok_def image_subset_iff)
qed

lemma distinct_sorted_ids: "distinct (map f (sort_key g xs)) \<longleftrightarrow> distinct (map f xs)"
  by (rule mset_eq_imp_distinct_iff) simp

lemma classified_ids:
  assumes cl: "classified L (ListInstances [] [] (mg_db m)) m (st, ts, c, m1)" and d: "distinct (map in_ID (pdb_instances (mg_db m)))"
  shows "re_inst ` set st = {i \<in> set (pdb_instances (mg_db m)). restorable L i \<and> in_Status i = statusStopped}"
    "re_inst ` set ts = {i \<in> set (pdb_instances (mg_db m)). restorable L i \<and> in_Status i \<noteq> statusStopped}"
    "distinct (entry_ids st)" "distinct (entry_ids ts)" "set (entry_ids st) \<inter> set (entry_ids ts) = {}"
proof -
  let ?l = "ListInstances [] [] (mg_db m)"
  have l: "set ?l = set (pdb_instances (mg_db m))" "distinct (map in_ID ?l)"
    using d by (simp_all add: ListInstances_def distinct_sorted_ids)
  have st: "map re_inst st = filter (\<lambda>i. restorable L i \<and> in_Status i = statusStopped) ?l"
    and ts: "map re_inst ts = filter (\<lambda>i. restorable L i \<and> in_Status i \<noteq> statusStopped) ?l" using cl by simp_all
  show s1: "re_inst ` set st = {i \<in> set (pdb_instances (mg_db m)). restorable L i \<and> in_Status i = statusStopped}"
    and s2: "re_inst ` set ts = {i \<in> set (pdb_instances (mg_db m)). restorable L i \<and> in_Status i \<noteq> statusStopped}"
    using arg_cong [OF st, of set] arg_cong [OF ts, of set] l(1) by auto
  have ids: "entry_ids es = map in_ID (map re_inst es)" for es :: "restoreEntry list" by simp
  show "distinct (entry_ids st)" "distinct (entry_ids ts)"
    unfolding ids st ts using l(2) by (simp_all add: distinct_map_filter)
  have "inj_on in_ID (set (pdb_instances (mg_db m)))" using d by (simp add: distinct_map)
  then have "in_ID a \<noteq> in_ID b" if "a \<in> re_inst ` set st" "b \<in> re_inst ` set ts" for a b
    using that unfolding s1 s2 by (auto dest: inj_onD)
  then show "set (entry_ids st) \<inter> set (entry_ids ts) = {}" by force
qed


definition demo_rows :: "Instance list" where
  "demo_rows = [example_instance ''p'' [], example_instance ''cc'' ''p'']"

definition demo_saved :: "unit Manager" where
  "demo_saved = (NewManager (NewScheduler (empty_pdb\<lparr>pdb_instances := demo_rows\<rparr>)))\<lparr>mg_instDirs := [''p'', ''cc'']\<rparr>"

definition demo_envs :: "string \<Rightarrow> session_env" where
  "demo_envs k = demo_env\<lparr>sn_newID := CHR ''n'' # k, sn_start := demo_start\<lparr>sv_spawn := Some (length k)\<rparr>\<rparr>"


text \<open>The rows are read before rows of ephemeral instances are deleted, and deleting such a row takes the
  rows of the instances below it along.  A stopped persistent instance below an ephemeral one is
  registered although its row is gone.\<close>

definition demo_nested :: "unit Manager" where
  "demo_nested = (NewManager (NewScheduler (empty_pdb\<lparr>pdb_instances :=
     [(example_instance ''p'' [])\<lparr>in_Mode := ''ephemeral''\<rparr>,
      (example_instance ''cc'' ''p'')\<lparr>in_Status := statusStopped\<rparr>]\<rparr>)))\<lparr>mg_instDirs := [''p'', ''cc'']\<rparr>"

lemma restore_registers_deleted_row:
  "map fst (mg_instances (snd (RestoreInstances demo_envs (\<lambda>_. Some demo_cfg) ac_Name (\<lambda>_. None) demo_nested))) = [''cc'']"
  "pdb_instances (mg_db (snd (RestoreInstances demo_envs (\<lambda>_. Some demo_cfg) ac_Name (\<lambda>_. None) demo_nested))) = []"
  by code_simp+

end
