(* ===== verification/Instance_Update.thy ===== *)
theory Instance_Update
  imports Tool_Inheritance Instance_Config Model_Spec
begin

text \<open>
  Changes to the configuration of instances at run time, \<open>src/internal/agent/manager_session.go\<close>: model,
  reasoning effort and tool rules of a running instance, of a stopped one, and the push of a changed agent
  definition to the running instances.

  A running instance holds one inference loop per session slot that has one.  \<open>resolve\<close> stands for
  \<open>resolveModelSpec\<close> followed by the creation of the language model.  The configuration files and their
  codec are those of \<open>Instance_Config\<close>.
\<close>

section \<open>State\<close>

record live_loop =
  ll_model :: string
  ll_provider :: string
  ll_effort :: string
  ll_tools :: loop_tools

record live_inst =
  lv_stopped :: bool
  lv_Model :: string
  lv_Description :: string
  lv_ParentID :: string
  lv_persistent :: bool
  lv_configGen :: nat
  lv_rules :: tool_instance
  lv_loops :: "live_loop option list"

record agent_def =
  ad_Model :: string
  ad_Description :: string
  ad_AllowedTools :: "string list option"
  ad_DisallowedTools :: "string list"
  ad_hasSkills :: bool

datatype upd_error =
    UpdModelFailed | UpdStopped | UpdNotStopped | UpdNoSessions | UpdInvalidEffort string | UpdInvalidRules rule_error
  | UpdLoadFailed | UpdConfig ic_error

definition validReasoningEffort :: "string \<Rightarrow> bool" where
  "validReasoningEffort effort \<longleftrightarrow>
     effort \<in> {[], ''on'', ''low'', ''medium'', ''high'', ''max'', ''minimal'', ''xhigh''}"

definition each_loop :: "(live_loop \<Rightarrow> live_loop) \<Rightarrow> live_inst \<Rightarrow> live_inst" where
  "each_loop f inst = inst\<lparr>lv_loops := map (map_option f) (lv_loops inst)\<rparr>"

definition live_anySlot :: "live_inst \<Rightarrow> live_loop option" where
  "live_anySlot inst = Option.bind (find (\<lambda>l. l \<noteq> None) (lv_loops inst)) id"

definition loop_UpdateModel :: "ModelSpec \<Rightarrow> live_loop \<Rightarrow> live_loop" where
  "loop_UpdateModel spec l = l\<lparr>ll_model := ModelSpec_String spec, ll_provider := ms_Provider spec\<rparr>"

section \<open>Tool rules\<close>

text \<open>Tools declared in the instance's file replace those of the agent definition, unless the file
  declares none.\<close>

definition applyInstanceToolConfig :: "ic_error + InstanceConfig \<Rightarrow> agent_def \<Rightarrow> agent_def" where
  "applyInstanceToolConfig file cfg =
     (case file of
        Inl _ \<Rightarrow> cfg
      | Inr instCfg \<Rightarrow>
          if ic_AllowedTools instCfg = [] then cfg
          else cfg\<lparr>ad_AllowedTools := Some (ic_AllowedTools instCfg), ad_DisallowedTools := ic_DisallowedTools instCfg\<rparr>)"

definition set_rules :: "string set \<times> Rule list list \<times> Rule list \<Rightarrow> bool \<Rightarrow> live_inst \<Rightarrow> live_inst" where
  "set_rules r hasSkills inst =
     (case r of (effective, layers, deny) \<Rightarrow>
        each_loop (\<lambda>l. l\<lparr>ll_tools := UpdateToolRules (ll_tools l)
                          (Some (buildAllowedToolsMap effective (lv_persistent inst) hasSkills)) layers deny\<rparr>)
          (inst\<lparr>lv_rules := \<lparr>ti_effectiveTools = Some effective, ti_allowLayers = layers, ti_denyRules = deny\<rparr>\<rparr>))"

definition applyToolOverrides ::
  "(string \<Rightarrow> tool_instance option) \<Rightarrow> agent_def option \<Rightarrow> string list \<Rightarrow> string list \<Rightarrow> live_inst \<Rightarrow> upd_error + live_inst" where
  "applyToolOverrides instances agentDir allowed disallowed inst =
     (case ParseRules allowed of
        Inl e \<Rightarrow> Inl (UpdInvalidRules e)
      | Inr _ \<Rightarrow>
          (case (if disallowed = [] then Inr [] else ParseRules disallowed) of
             Inl e \<Rightarrow> Inl (UpdInvalidRules e)
           | Inr _ \<Rightarrow>
               (case agentDir of
                  None \<Rightarrow> Inl UpdLoadFailed
                | Some cfg \<Rightarrow>
                    (case computeEffectiveTools instances (Some allowed) disallowed (lv_ParentID inst) of
                       Inl e \<Rightarrow> Inl (UpdInvalidRules e)
                     | Inr r \<Rightarrow> Inr (set_rules r (ad_hasSkills cfg) inst)))))"

section \<open>Updates\<close>

definition persist ::
  "'d ic_codec \<Rightarrow> bool \<Rightarrow> string \<Rightarrow> (InstanceConfig \<Rightarrow> InstanceConfig) \<Rightarrow> 'd ic_files \<Rightarrow> ic_error option \<times> 'd ic_files" where
  "persist codec w instanceID modify fs = ModifyConfig codec w instanceID (\<lambda>c. Some (modify c)) fs"

definition set_tools :: "string list option \<Rightarrow> string list \<Rightarrow> InstanceConfig \<Rightarrow> InstanceConfig" where
  "set_tools allowed disallowed c =
     (case allowed of Some a \<Rightarrow> c\<lparr>ic_AllowedTools := a, ic_DisallowedTools := disallowed\<rparr> | None \<Rightarrow> c)"

definition UpdateInstanceConfig ::
  "(string \<Rightarrow> ModelSpec option) \<Rightarrow> (string \<Rightarrow> tool_instance option) \<Rightarrow> agent_def option \<Rightarrow> 'd ic_codec \<Rightarrow> bool \<Rightarrow> string \<Rightarrow>
   string \<Rightarrow> string option \<Rightarrow> string list option \<Rightarrow> string list \<Rightarrow> live_inst \<Rightarrow> 'd ic_files \<Rightarrow>
   upd_error option \<times> live_inst \<times> 'd ic_files" where
  "UpdateInstanceConfig resolve instances agentDir codec w instanceID model effort allowed disallowed inst fs =
     (if model \<noteq> [] \<and> resolve model = None then (Some UpdModelFailed, inst, fs)
      else if lv_stopped inst then (Some UpdStopped, inst, fs)
      else if live_anySlot inst = None then (Some UpdNoSessions, inst, fs)
      else
        let inst1 = (case (if model = [] then None else resolve model) of
                       None \<Rightarrow> inst
                     | Some spec \<Rightarrow> if ModelSpec_String spec = lv_Model inst then inst
                                    else (each_loop (loop_UpdateModel spec) inst)\<lparr>lv_Model := ModelSpec_String spec\<rparr>)
        in if (case effort of Some e \<Rightarrow> \<not> validReasoningEffort e | None \<Rightarrow> False)
           then (map_option UpdInvalidEffort effort, inst1, fs)
           else
             let inst2 = (case effort of Some e \<Rightarrow> each_loop (\<lambda>l. l\<lparr>ll_effort := e\<rparr>) inst1 | None \<Rightarrow> inst1)
             in (case (case allowed of Some a \<Rightarrow> applyToolOverrides instances agentDir a disallowed inst2 | None \<Rightarrow> Inr inst2) of
                   Inl err \<Rightarrow> (Some err, inst2, fs)
                 | Inr inst3 \<Rightarrow>
                     let inst4 = inst3\<lparr>lv_configGen := lv_configGen inst3 + 1\<rparr>;
                         newEffort = (case live_anySlot inst4 of Some l \<Rightarrow> ll_effort l | None \<Rightarrow> [])
                     in (None, inst4,
                         snd (persist codec w instanceID
                           (\<lambda>c. set_tools allowed disallowed (c\<lparr>ic_Model := lv_Model inst4, ic_ReasoningEffort := newEffort\<rparr>)) fs))))"

definition check_rules :: "string list \<Rightarrow> rule_error + Rule list" where
  "check_rules rs = (if rs = [] then Inr [] else ParseRules rs)"

definition UpdateStoppedInstanceConfig ::
  "'d ic_codec \<Rightarrow> bool \<Rightarrow> string \<Rightarrow> string \<Rightarrow> string option \<Rightarrow> string list option \<Rightarrow> string list \<Rightarrow> live_inst \<Rightarrow>
   'd ic_files \<Rightarrow> upd_error option \<times> 'd ic_files" where
  "UpdateStoppedInstanceConfig codec w instanceID model effort allowed disallowed inst fs =
     (if \<not> lv_stopped inst then (Some UpdNotStopped, fs)
      else case check_rules (case allowed of Some a \<Rightarrow> a | None \<Rightarrow> []) of
             Inl e \<Rightarrow> (Some (UpdInvalidRules e), fs)
           | Inr _ \<Rightarrow>
               (case check_rules disallowed of
                  Inl e \<Rightarrow> (Some (UpdInvalidRules e), fs)
                | Inr _ \<Rightarrow>
                    if (case effort of Some e \<Rightarrow> \<not> validReasoningEffort e | None \<Rightarrow> False)
                    then (map_option UpdInvalidEffort effort, fs)
                    else (case persist codec w instanceID
                                 (\<lambda>c. set_tools allowed disallowed
                                    (let c1 = (if model \<noteq> [] then c\<lparr>ic_Model := model\<rparr> else c)
                                     in case effort of Some e \<Rightarrow> c1\<lparr>ic_ReasoningEffort := e\<rparr> | None \<Rightarrow> c1)) fs of
                            (e, fs') \<Rightarrow> (map_option UpdConfig e, fs'))))"

section \<open>Pushes of a changed definition\<close>

text \<open>\<open>lm\<close> is the model created outside the lock, for the generation \<open>gen\<close> of the configuration.\<close>

definition pushToolsAndModel ::
  "(string \<Rightarrow> tool_instance option) \<Rightarrow> ic_error + InstanceConfig \<Rightarrow> agent_def \<Rightarrow> ModelSpec \<Rightarrow> bool \<Rightarrow> live_inst \<Rightarrow> live_inst" where
  "pushToolsAndModel instances file pc spec lm inst =
     (let cfg = applyInstanceToolConfig file pc;
          inst1 = (case computeEffectiveTools instances (ad_AllowedTools cfg) (ad_DisallowedTools cfg) (lv_ParentID inst) of
                     Inl _ \<Rightarrow> inst
                   | Inr r \<Rightarrow> set_rules r (ad_hasSkills pc) inst);
          inst2 = (if lm \<and> ModelSpec_String spec \<noteq> lv_Model inst1
                   then (each_loop (loop_UpdateModel spec) inst1)\<lparr>lv_Model := ModelSpec_String spec\<rparr> else inst1)
      in inst2\<lparr>lv_configGen := lv_configGen inst2 + 1\<rparr>)"

definition pushConfigToInstance ::
  "(string \<Rightarrow> tool_instance option) \<Rightarrow> ic_error + InstanceConfig \<Rightarrow> agent_def \<Rightarrow> ModelSpec \<Rightarrow> bool \<Rightarrow> nat \<Rightarrow> live_inst \<Rightarrow> live_inst" where
  "pushConfigToInstance instances file pc spec lmCreated gen inst =
     (if lv_stopped inst then inst
      else let lm = (lmCreated \<and> lv_configGen inst = gen);
               inst1 = (if lv_loops inst \<noteq> [] then pushToolsAndModel instances file pc spec lm inst else inst)
           in inst1\<lparr>lv_Description := ad_Description pc\<rparr>)"

text \<open>The loop a new session of an instance gets: \<open>resolveSessionConfig\<close> and \<open>buildLoopConfig\<close>.\<close>

definition session_loop ::
  "(string \<Rightarrow> ModelSpec option) \<Rightarrow> (string \<Rightarrow> tool_instance option) \<Rightarrow> ic_error + InstanceConfig \<Rightarrow> agent_def \<Rightarrow> loop_tools \<Rightarrow>
   live_inst \<Rightarrow> (upd_error + live_loop) \<times> live_inst" where
  "session_loop resolve instances file pc base inst =
     (case resolve (ad_Model pc) of
        None \<Rightarrow> (Inl UpdModelFailed, inst)
      | Some spec \<Rightarrow>
          let cfg = applyInstanceToolConfig file pc in
          (case computeEffectiveTools instances (ad_AllowedTools cfg) (ad_DisallowedTools cfg) (lv_ParentID inst) of
             Inl e \<Rightarrow> (Inl (UpdInvalidRules e), inst)
           | Inr (effective, layers, deny) \<Rightarrow>
               (Inr \<lparr>ll_model = ModelSpec_String spec, ll_provider = ms_Provider spec, ll_effort = [],
                     ll_tools = UpdateToolRules base
                       (Some (buildAllowedToolsMap effective (lv_persistent inst) (ad_hasSkills pc))) layers deny\<rparr>,
                inst\<lparr>lv_rules := \<lparr>ti_effectiveTools = Some effective, ti_allowLayers = layers, ti_denyRules = deny\<rparr>\<rparr>)))"

section \<open>All sessions of an instance agree\<close>

definition loops_agree :: "live_inst \<Rightarrow> string \<Rightarrow> bool" where
  "loops_agree inst e \<longleftrightarrow> (\<forall>l. Some l \<in> set (lv_loops inst) \<longrightarrow> ll_model l = lv_Model inst \<and> ll_effort l = e)"

lemma each_loop_frame [simp]:
  "lv_Model (each_loop f inst) = lv_Model inst" "lv_stopped (each_loop f inst) = lv_stopped inst"
  "lv_configGen (each_loop f inst) = lv_configGen inst" "lv_ParentID (each_loop f inst) = lv_ParentID inst"
  by (simp_all add: each_loop_def)

lemma loops_each: "Some l \<in> set (lv_loops (each_loop f inst)) \<longleftrightarrow> (\<exists>l0. Some l0 \<in> set (lv_loops inst) \<and> l = f l0)"
proof -
  have "Some l \<in> map_option f ` A \<longleftrightarrow> (\<exists>l0. Some l0 \<in> A \<and> l = f l0)" for A
  proof
    assume "Some l \<in> map_option f ` A"
    then obtain x where "x \<in> A" "map_option f x = Some l" by (metis imageE)
    then show "\<exists>l0. Some l0 \<in> A \<and> l = f l0" by (cases x) auto
  next
    assume "\<exists>l0. Some l0 \<in> A \<and> l = f l0"
    then obtain l0 where "Some l0 \<in> A" "l = f l0" by blast
    then show "Some l \<in> map_option f ` A" by (intro image_eqI [of _ _ "Some l0"]) simp_all
  qed
  then show ?thesis by (simp add: each_loop_def)
qed

lemma agree_model: "loops_agree inst e \<Longrightarrow> loops_agree ((each_loop (loop_UpdateModel spec) inst)\<lparr>lv_Model := ModelSpec_String spec\<rparr>) e"
  by (auto simp: loops_agree_def loops_each loop_UpdateModel_def)

lemma agree_effort: "loops_agree inst e \<Longrightarrow> loops_agree (each_loop (\<lambda>l. l\<lparr>ll_effort := e'\<rparr>) inst) e'"
  by (auto simp: loops_agree_def loops_each)

lemma agree_rules: "loops_agree inst e \<Longrightarrow> loops_agree (set_rules r hs inst) e"
  by (cases r) (auto simp: loops_agree_def set_rules_def loops_each)

lemma set_rules_frame [simp]:
  "lv_Model (set_rules r hs inst) = lv_Model inst" "lv_stopped (set_rules r hs inst) = lv_stopped inst"
  by (simp_all add: set_rules_def split: prod.split)

lemma agree_overrides:
  "applyToolOverrides insts ad a d inst = Inr inst' \<Longrightarrow> loops_agree inst e \<Longrightarrow> loops_agree inst' e \<and> lv_Model inst' = lv_Model inst"
  by (auto simp: applyToolOverrides_def agree_rules split: sum.splits option.splits if_splits)

lemma anySlot_some: "live_anySlot inst = Some l \<Longrightarrow> Some l \<in> set (lv_loops inst)"
  by (auto simp: live_anySlot_def find_Some_iff split: bind_splits) (metis nth_mem)

lemma anySlot_none: "live_anySlot inst = None \<longleftrightarrow> (\<forall>l. Some l \<notin> set (lv_loops inst))"
proof -
  have "find (\<lambda>l. l \<noteq> None) (lv_loops inst) = Some x \<Longrightarrow> x \<noteq> None" for x by (auto simp: find_Some_iff)
  then have "live_anySlot inst = None \<longleftrightarrow> find (\<lambda>l. l \<noteq> None) (lv_loops inst) = None"
    by (cases "find (\<lambda>l. l \<noteq> None) (lv_loops inst)") (auto simp: live_anySlot_def)
  then show ?thesis by (auto simp: find_None_iff)
qed

lemma agree_slot: "loops_agree inst e \<Longrightarrow> live_anySlot inst = Some l \<Longrightarrow> ll_effort l = e"
  using anySlot_some by (auto simp: loops_agree_def)

lemma anySlot_each: "live_anySlot (each_loop f inst) = None \<longleftrightarrow> live_anySlot inst = None"
  by (auto simp: anySlot_none loops_each)

lemma anySlot_upd [simp]: "live_anySlot (inst\<lparr>lv_Model := md\<rparr>) = live_anySlot inst"
  "live_anySlot (inst\<lparr>lv_configGen := g\<rparr>) = live_anySlot inst" "live_anySlot (inst\<lparr>lv_rules := r\<rparr>) = live_anySlot inst"
  by (simp_all add: live_anySlot_def)

lemma agree_upd [simp]: "loops_agree (inst\<lparr>lv_configGen := g\<rparr>) e = loops_agree inst e"
  by (simp add: loops_agree_def)

lemma anySlot_overrides:
  "applyToolOverrides insts ad a d inst = Inr inst' \<Longrightarrow> live_anySlot inst' = None \<longleftrightarrow> live_anySlot inst = None"
  by (auto simp: applyToolOverrides_def set_rules_def anySlot_each split: sum.splits option.splits if_splits prod.splits)

lemma persist_saved:
  assumes "codec_ok codec" "LoadInstanceConfig codec (fs k) = Inr c"
  shows "LoadInstanceConfig codec (snd (persist codec True k f fs) k) = Inr (f c)"
  using assms by (simp add: persist_def ModifyConfig_def Load_after_save)


text \<open>An update that is refused because of its effort has already switched the model of every session,
  though nothing is saved.\<close>

lemma refused_update_switches_model:
  assumes "resolve model = Some spec" "model \<noteq> []" "ModelSpec_String spec \<noteq> lv_Model inst" "\<not> lv_stopped inst"
    "live_anySlot inst \<noteq> None" "\<not> validReasoningEffort x"
  shows "UpdateInstanceConfig resolve insts ad codec w k model (Some x) allowed disallowed inst fs =
    (Some (UpdInvalidEffort x), (each_loop (loop_UpdateModel spec) inst)\<lparr>lv_Model := ModelSpec_String spec\<rparr>, fs)"
  using assms by (simp add: UpdateInstanceConfig_def)

text \<open>A session opened after the model of its instance was changed runs the model of the agent definition,
  without the reasoning effort of the instance: the sessions do not agree any more.\<close>

lemma new_session_ignores_override:
  assumes "session_loop resolve insts file pc base inst = (Inr l, inst')" "resolve (ad_Model pc) = Some spec"
    "lv_Model inst \<noteq> ModelSpec_String spec"
  shows "\<not> loops_agree (inst'\<lparr>lv_loops := Some l # lv_loops inst'\<rparr>) e"
  using assms by (auto simp: session_loop_def loops_agree_def Let_def split: sum.splits)

text \<open>Taking all tools from an instance does not last: with none in its file, the next session gets those
  of the agent definition.\<close>

lemma no_tools_falls_back: "ic_AllowedTools c = [] \<Longrightarrow> applyInstanceToolConfig (Inr c) pc = pc"
  by (simp add: applyInstanceToolConfig_def)

text \<open>Taking a tool from a parent at run time leaves it with the children that were started before.\<close>

definition demo_parent :: live_inst where
  "demo_parent = \<lparr>lv_stopped = False, lv_Model = ''m'', lv_Description = [], lv_ParentID = [], lv_persistent = True,
     lv_configGen = 0, lv_rules = \<lparr>ti_effectiveTools = Some {''Bash''}, ti_allowLayers = [], ti_denyRules = []\<rparr>,
     lv_loops = [Some \<lparr>ll_model = ''m'', ll_provider = [], ll_effort = [],
       ll_tools = \<lparr>lt_tools = [], lt_baseAllowLayers = [], lt_baseDenyRules = [], lt_skillAllowLayer = [], lt_skillExpanded = False\<rparr>\<rparr>]\<rparr>"

definition demo_def :: agent_def where
  "demo_def = \<lparr>ad_Model = ''m'', ad_Description = [], ad_AllowedTools = None, ad_DisallowedTools = [], ad_hasSkills = False\<rparr>"

lemma child_outlives_restriction:
  "computeEffectiveTools (\<lambda>_. Some (lv_rules demo_parent)) (Some [''Bash'']) [] ''p'' = Inr ({''Bash''}, [], [])"
  "map_sum id lv_rules (applyToolOverrides (\<lambda>_. None) (Some demo_def) [''Read''] [] demo_parent) =
     Inr \<lparr>ti_effectiveTools = Some {''Read''}, ti_allowLayers = [], ti_denyRules = []\<rparr>"
  by code_simp+


end
