(* ===== verification/Model_Resolution.thy ===== *)
theory Model_Resolution
  imports Control_Plane
begin

text \<open>
  Which model and which credentials a session gets: \<open>resolveModelSpec\<close> and its helpers in
  \<open>src/internal/agent/manager_resolve.go\<close>, over the providers of the control plane and the catalogue of
  models.
\<close>

definition applyModelOverride :: "string \<Rightarrow> ModelSpec \<Rightarrow> ModelSpec" where
  "applyModelOverride model spec =
     (let parsed = ParseModelSpec model
      in spec\<lparr>ms_Model := ms_Model parsed,
              ms_Provider := (if ms_Provider parsed \<noteq> [] then ms_Provider parsed else [])\<rparr>)"

datatype resolve_error = ProviderNotConfigured string | NoProviderConfigured

text \<open>The search of a bare model name: the first configured provider, in order, that lists it.\<close>

fun search_providers ::
  "cat_provider list \<Rightarrow> ('p, 'd) ControlPlane \<Rightarrow> string \<Rightarrow> string list \<Rightarrow> (string \<times> string \<times> string) option" where
  "search_providers catalog cp model [] = None"
| "search_providers catalog cp model (pt # pts) =
     (if \<exists>mi\<in>set (ModelsForProvider catalog pt). mi_ID mi = model
      then case ProviderByType pt cp of
             Some (k, u) \<Rightarrow> Some (pt, k, u)
           | None \<Rightarrow> search_providers catalog cp model pts
      else search_providers catalog cp model pts)"

definition resolveProviderCredentials ::
  "cat_provider list \<Rightarrow> ('p, 'd) ControlPlane \<Rightarrow> ModelSpec \<Rightarrow> resolve_error + ModelSpec \<times> string \<times> string" where
  "resolveProviderCredentials catalog cp spec =
     (if ModelSpec_IsEmpty spec then
        (case ProviderInfo cp of
           None \<Rightarrow> Inr (spec, [], [])
         | Some (pt, k, u) \<Rightarrow> Inr (spec\<lparr>ms_Provider := pt\<rparr>, k, u))
      else if ms_Provider spec \<noteq> [] then
        (case ProviderByType (ms_Provider spec) cp of
           None \<Rightarrow> Inl (ProviderNotConfigured (ms_Provider spec))
         | Some (k, u) \<Rightarrow> Inr (spec, k, u))
      else
        (case search_providers catalog cp (ms_Model spec) (ConfiguredProviderTypes cp) of
           Some (pt, k, u) \<Rightarrow> Inr (spec\<lparr>ms_Provider := pt\<rparr>, k, u)
         | None \<Rightarrow>
             (case ProviderInfo cp of
                None \<Rightarrow> Inl NoProviderConfigured
              | Some (pt, k, u) \<Rightarrow> Inr (spec\<lparr>ms_Provider := pt\<rparr>, k, u))))"

text \<open>The control plane's default, the agent definition and the environment, in this order of precedence;
  without a control plane only the definition counts.\<close>

definition merged_spec :: "('p, 'd) ControlPlane \<Rightarrow> string \<Rightarrow> string \<Rightarrow> ModelSpec" where
  "merged_spec cp envModel agentModel =
     (let spec1 = DefaultModelSpec cp;
          spec2 = (if agentModel \<noteq> [] then applyModelOverride agentModel spec1 else spec1)
      in if envModel \<noteq> [] then applyModelOverride envModel spec2 else spec2)"

definition resolveModelSpec ::
  "cat_provider list \<Rightarrow> ('p, 'd) ControlPlane option \<Rightarrow> string \<Rightarrow> string \<Rightarrow> resolve_error + ModelSpec \<times> string \<times> string" where
  "resolveModelSpec catalog cp envModel agentModel =
     (case cp of
        None \<Rightarrow> Inr (if agentModel \<noteq> [] then ParseModelSpec agentModel else \<lparr>ms_Provider = [], ms_Model = []\<rparr>, [], [])
      | Some c \<Rightarrow> resolveProviderCredentials catalog c (merged_spec c envModel agentModel))"

definition resolveModelString :: "cat_provider list \<Rightarrow> ('p, 'd) ControlPlane option \<Rightarrow> string \<Rightarrow> string \<Rightarrow> string" where
  "resolveModelString catalog cp envModel agentModel =
     (case resolveModelSpec catalog cp envModel agentModel of
        Inr (spec, _, _) \<Rightarrow> ModelSpec_String spec
      | Inl _ \<Rightarrow> ModelSpec_String (case cp of
                                     Some c \<Rightarrow> merged_spec c envModel agentModel
                                   | None \<Rightarrow> \<lparr>ms_Provider = [], ms_Model = []\<rparr>))"

section \<open>Credentials belong to the provider\<close>

lemma first_configured_by_type: "first_configured cp names = Some (pt, k, u) \<Longrightarrow> ProviderByType pt cp = Some (k, u)"
proof (induction names)
  case (Cons n ns)
  then show ?case
    by (cases "ProviderByType n cp") (auto simp: first_configured_def List.map_filter_def split: list.splits)
qed (simp add: first_configured_def List.map_filter_def)

lemma ProviderInfo_by_type: "ProviderInfo cp = Some (pt, k, u) \<Longrightarrow> ProviderByType pt cp = Some (k, u)"
  by (auto simp: ProviderInfo_def Let_def first_configured_by_type split: if_splits option.splits)

lemma search_by_type:
  "search_providers catalog cp model pts = Some (pt, k, u) \<Longrightarrow>
     ProviderByType pt cp = Some (k, u) \<and> pt \<in> set pts \<and> (\<exists>mi\<in>set (ModelsForProvider catalog pt). mi_ID mi = model)"
  by (induction pts) (auto split: if_splits option.splits)

lemma search_none:
  "search_providers catalog cp model pts = None \<Longrightarrow> pt \<in> set pts \<Longrightarrow> ProviderByType pt cp \<noteq> None \<Longrightarrow>
     \<forall>mi\<in>set (ModelsForProvider catalog pt). mi_ID mi \<noteq> model"
  by (induction pts) (auto split: if_splits option.splits)

lemma ProviderByType_key: "ProviderByType pt cp = Some (k, u) \<Longrightarrow> k \<noteq> []"
  by (auto simp: ProviderByType_def split: option.splits if_splits)

text \<open>C38. Which model runs with whose key: the model name is the one of the highest-ranking source that names
  one, the environment before the agent definition before the control plane's default; a provider that
  this source names is never exchanged for another; and the key and URL handed out are those configured
  for the provider of the result.  Only when no source names a model and no provider has a key are
  there no credentials.\<close>

theorem resolveModelSpec_credentials:
  assumes "resolveModelSpec catalog (Some cp) envModel agentModel = Inr (spec, k, u)"
  shows "ms_Model spec = ms_Model (merged_spec cp envModel agentModel) \<and>
    (ms_Provider (merged_spec cp envModel agentModel) \<noteq> [] \<longrightarrow> ms_Provider spec = ms_Provider (merged_spec cp envModel agentModel)) \<and>
    (if k = [] then u = [] \<and> ModelSpec_IsEmpty spec \<and> ProviderInfo cp = None
     else ProviderByType (ms_Provider spec) cp = Some (k, u)) \<and>
    (envModel \<noteq> [] \<longrightarrow> merged_spec cp envModel agentModel = ParseModelSpec envModel) \<and>
    (envModel = [] \<and> agentModel \<noteq> [] \<longrightarrow> merged_spec cp envModel agentModel = ParseModelSpec agentModel) \<and>
    (envModel = [] \<and> agentModel = [] \<longrightarrow> merged_spec cp envModel agentModel = DefaultModelSpec cp)"
proof -
  let ?m = "merged_spec cp envModel agentModel"
  have "resolveProviderCredentials catalog cp ?m = Inr (spec, k, u)" using assms by (simp add: resolveModelSpec_def)
  then have "ms_Model spec = ms_Model ?m \<and> (ms_Provider ?m \<noteq> [] \<longrightarrow> ms_Provider spec = ms_Provider ?m) \<and>
      (k = [] \<and> u = [] \<and> ModelSpec_IsEmpty spec \<and> ProviderInfo cp = None \<or> ProviderByType (ms_Provider spec) cp = Some (k, u))"
    by (auto simp: resolveProviderCredentials_def ProviderInfo_by_type ModelSpec_IsEmpty_def
        dest: search_by_type split: if_splits option.splits)
  moreover have over: "applyModelOverride x s = ParseModelSpec x" for x s by (simp add: applyModelOverride_def Let_def)
  have "(envModel \<noteq> [] \<longrightarrow> ?m = ParseModelSpec envModel) \<and> (envModel = [] \<and> agentModel \<noteq> [] \<longrightarrow> ?m = ParseModelSpec agentModel) \<and>
      (envModel = [] \<and> agentModel = [] \<longrightarrow> ?m = DefaultModelSpec cp)"
    by (simp add: merged_spec_def over)
  ultimately show ?thesis using ProviderByType_key [of "ms_Provider spec" cp k u] by auto
qed

definition demo_cp :: "(unit, unit Config) ControlPlane" where
  "demo_cp = example_cp\<lparr>cp_cfg := zero_Config\<lparr>cf_Providers := Some [(''a'', \<lparr>pc_APIKey = ''k'', pc_BaseURL = ''u''\<rparr>)],
     cf_DefaultModel := ''a/x''\<rparr>\<rparr>"

theorem resolveModelSpec_credentials_witness:
  "resolveModelSpec [] (Some demo_cp) [] ''y'' = Inr (\<lparr>ms_Provider = ''a'', ms_Model = ''y''\<rparr>, ''k'', ''u'') \<and>
   ProviderByType ''a'' demo_cp = Some (''k'', ''u'')"
proof
  show r: "resolveModelSpec [] (Some demo_cp) [] ''y'' = Inr (\<lparr>ms_Provider = ''a'', ms_Model = ''y''\<rparr>, ''k'', ''u'')" by code_simp
  from resolveModelSpec_credentials [OF r] show "ProviderByType ''a'' demo_cp = Some (''k'', ''u'')" by simp
qed

end
