(* ===== verification/Instance_Tools.thy ===== *)
theory Instance_Tools
  imports Manager_Steps Notifications
begin

text \<open>
  The tools with which an agent manages other instances, \<open>src/internal/inference/tools_spawn.go\<close>, over
  the operations of the manager: \<open>SpawnInstance\<close>, \<open>CreatePersistentInstance\<close>, \<open>ResumeInstance\<close>,
  \<open>ListInstances\<close>, \<open>SendMessage\<close>, \<open>StopInstance\<close> and \<open>DeleteInstance\<close>.  The caller is the one the
  context carries.  A step relation interleaves the tool calls of all agents that have a turn in
  progress; an agent gets one when another sends it a message or spawns it.

  The wording of the replies is not modelled, except that of the notification a spawn in the
  background ends with; quoting and the text of an error are parameters there.
\<close>

section \<open>Trees of instances in which operations reach only what is below\<close>

definition edges :: "('s \<Rightarrow> 'k \<Rightarrow> 'i option) \<Rightarrow> ('i \<Rightarrow> 'k) \<Rightarrow> 's \<Rightarrow> ('k \<times> 'k) set" where
  "edges get parent s = {(p, k). \<exists>i. get s k = Some i \<and> parent i = p}"

text \<open>A set of instances that is closed under parents, up to parents that are not registered.\<close>

definition sealed :: "('s \<Rightarrow> 'k \<Rightarrow> 'i option) \<Rightarrow> ('i \<Rightarrow> 'k) \<Rightarrow> 'k set \<Rightarrow> 'k set \<Rightarrow> 's \<Rightarrow> bool" where
  "sealed get parent P D s \<longleftrightarrow>
     (\<forall>j\<in>P. \<exists>i. get s j = Some i \<and> parent i \<in> P \<union> D) \<and> (\<forall>d\<in>D. get s d = None)"

lemma below_sealed:
  assumes s: "sealed get parent P D s" and a: "a \<notin> P" "get s a \<noteq> None" and b: "(a, t) \<in> (edges get parent s)\<^sup>*"
  shows "t \<notin> P \<union> D"
  using b
proof (induction rule: rtrancl_induct)
  case base
  then show ?case using s a by (auto simp: sealed_def)
next
  case (step p k)
  then show ?case using s by (fastforce simp: sealed_def edges_def)
qed

locale scoped_tree =
  fixes get :: "'s \<Rightarrow> 'k \<Rightarrow> 'i option" and parent :: "'i \<Rightarrow> 'k" and inv :: "'s \<Rightarrow> bool"
    and desc :: "'s \<Rightarrow> 'k \<Rightarrow> 'k \<Rightarrow> bool option"
    and acts :: "'k \<Rightarrow> 's \<Rightarrow> 's \<Rightarrow> bool" and adds :: "'k \<Rightarrow> 's \<Rightarrow> 's \<Rightarrow> bool"
  assumes desc_total: "inv s \<Longrightarrow> desc s t a \<noteq> None"
    and desc_below: "inv s \<Longrightarrow> desc s t a = Some True \<Longrightarrow> get s a \<noteq> None \<and> (a, t) \<in> (edges get parent s)\<^sup>*"
    and acts_inv: "inv s \<Longrightarrow> acts k s s' \<Longrightarrow> inv s'"
    and acts_below: "inv s \<Longrightarrow> acts k s s' \<Longrightarrow> (k, j) \<notin> (edges get parent s)\<^sup>* \<Longrightarrow> get s' j = get s j"
    and acts_none: "inv s \<Longrightarrow> acts k s s' \<Longrightarrow> get s k = None \<Longrightarrow> get s' j = get s j"
    and adds_inv: "inv s \<Longrightarrow> adds k s s' \<Longrightarrow> inv s'"
    and adds_new: "inv s \<Longrightarrow> adds k s s' \<Longrightarrow> j \<noteq> k \<Longrightarrow> get s' j = get s j"
begin

lemma sealed_frame: "sealed get parent P D s \<Longrightarrow> (\<And>j. j \<in> P \<union> D \<Longrightarrow> get s' j = get s j) \<Longrightarrow> sealed get parent P D s'"
  by (auto simp: sealed_def)

lemma scoped_target:
  assumes "inv s" "sealed get parent P D s" "a \<notin> P" "desc s t a = Some True"
  shows "t \<notin> P"
  using below_sealed [OF assms(2,3)] desc_below [OF assms(1,4)] by blast

lemma acts_outside:
  assumes i: "inv s" and s: "sealed get parent P D s" and k: "k \<notin> P" and a: "acts k s s'" and j: "j \<in> P \<union> D"
  shows "get s' j = get s j"
proof (cases "get s k = None")
  case False
  have "(k, j) \<notin> (edges get parent s)\<^sup>*" using below_sealed [OF s k False] j by blast
  then show ?thesis using acts_below [OF i a] by blast
qed (use acts_none [OF i a] in simp)

lemma acts_sealed:
  assumes "inv s" "sealed get parent P D s" "k \<notin> P" "acts k s s'"
  shows "sealed get parent P D s'" "inv s'"
  using sealed_frame [OF assms(2) acts_outside [OF assms]] acts_inv [OF assms(1,4)] by blast+

lemma adds_sealed:
  assumes "inv s" "sealed get parent P D s" "k \<notin> P \<union> D" "adds k s s'"
  shows "sealed get parent P D s'" "inv s'" "j \<in> P \<Longrightarrow> get s' j = get s j"
  using sealed_frame [OF assms(2)] adds_new [OF assms(1,4)] adds_inv [OF assms(1,4)] assms(3) by (metis UnI1)+

text \<open>What is not below an instance is sealed against it.\<close>

lemma outside_sealed:
  "sealed get parent {j. get s j \<noteq> None \<and> (c, j) \<notin> (edges get parent s)\<^sup>*}
     {parent i | i j. get s j = Some i \<and> (c, j) \<notin> (edges get parent s)\<^sup>* \<and> get s (parent i) = None} s"
proof -
  have "(c, parent i) \<notin> (edges get parent s)\<^sup>*" if "get s j = Some i" "(c, j) \<notin> (edges get parent s)\<^sup>*" for i j
  proof -
    have "(parent i, j) \<in> edges get parent s" using that(1) by (auto simp: edges_def)
    with that(2) show ?thesis by (meson rtrancl.rtrancl_into_rtrancl)
  qed
  then show ?thesis by (fastforce simp: sealed_def)
qed

end

section \<open>The tools\<close>

datatype tool_reply =
    AgentRequired | PromptRequired | InstanceIDRequired | MessageRequired
  | NotDescendant | OpFailed mgr_err | OpDone | OpResult string | Launched

definition checkDescendant :: "'sch Manager \<Rightarrow> string \<Rightarrow> string \<Rightarrow> bool option" where
  "checkDescendant m callerID targetID = IsDescendant m targetID callerID"

definition handleResumeInstance ::
  "'sch trigger_env \<Rightarrow> session_env \<Rightarrow> (string \<Rightarrow> agent_cfg option) \<Rightarrow> call_ctx \<Rightarrow> string \<Rightarrow> 'sch Manager \<Rightarrow>
   (tool_reply \<times> 'sch Manager) option" where
  "handleResumeInstance tenv env LoadAgentDir ctx instanceID m =
     (if instanceID = [] then Some (InstanceIDRequired, m)
      else Option.bind (checkDescendant m (cx_caller ctx) instanceID) (\<lambda>ok.
        if \<not> ok then Some (NotDescendant, m)
        else (case StartInstance tenv env LoadAgentDir instanceID m of
                (Some e, m') \<Rightarrow> Some (OpFailed e, m')
              | (None, m') \<Rightarrow> Some (OpDone, m'))))"

definition handleListInstances :: "call_ctx \<Rightarrow> 'sch Manager \<Rightarrow> minstance list" where
  "handleListInstances ctx m = mgr_ListChildInstances m (cx_caller ctx)"

text \<open>\<open>SendMessage\<close>: on success the target gets a turn, in a session and a context of its own.\<close>

definition handleSendMessage ::
  "session_env \<Rightarrow> call_ctx \<Rightarrow> string \<Rightarrow> string \<Rightarrow> 'sch Manager \<Rightarrow>
   ((tool_reply + string \<times> call_ctx) \<times> 'sch Manager) option" where
  "handleSendMessage env ctx instanceID message m =
     (if instanceID = [] then Some (Inl InstanceIDRequired, m)
      else if message = [] then Some (Inl MessageRequired, m)
      else Option.bind (checkDescendant m (cx_caller ctx) instanceID) (\<lambda>ok.
        if \<not> ok then Some (Inl NotDescendant, m)
        else (case SendMessage env ctx instanceID m of
                (Inl e, m') \<Rightarrow> Some (Inl (OpFailed e), m')
              | (Inr turn, m') \<Rightarrow> Some (Inr turn, m'))))"

definition handleStopInstance ::
  "gotime \<Rightarrow> call_ctx \<Rightarrow> string \<Rightarrow> 'sch Manager \<Rightarrow> (tool_reply \<times> 'sch Manager) option" where
  "handleStopInstance now ctx instanceID m =
     (if instanceID = [] then Some (InstanceIDRequired, m)
      else Option.bind (checkDescendant m (cx_caller ctx) instanceID) (\<lambda>ok.
        if \<not> ok then Some (NotDescendant, m)
        else Option.bind (StopInstance now instanceID m) (\<lambda>(r, m').
               Some (case r of Inl e \<Rightarrow> OpFailed e | Inr _ \<Rightarrow> OpDone, m'))))"

definition handleDeleteInstance :: "call_ctx \<Rightarrow> string \<Rightarrow> 'sch Manager \<Rightarrow> (tool_reply \<times> 'sch Manager) option" where
  "handleDeleteInstance ctx instanceID m =
     (if instanceID = [] then Some (InstanceIDRequired, m)
      else Option.bind (checkDescendant m (cx_caller ctx) instanceID) (\<lambda>ok.
        if \<not> ok then Some (NotDescendant, m)
        else Option.bind (mgr_DeleteInstance instanceID m) (\<lambda>(r, m').
               Some (case r of Some e \<Rightarrow> OpFailed e | None \<Rightarrow> OpDone, m'))))"

definition handleCreatePersistentInstance ::
  "start_env \<Rightarrow> (string \<Rightarrow> agent_cfg option) \<Rightarrow> string \<Rightarrow> string \<Rightarrow> call_ctx \<Rightarrow> string \<Rightarrow> string \<Rightarrow> string \<Rightarrow> string \<Rightarrow>
   'sch Manager \<Rightarrow> tool_reply \<times> 'sch Manager" where
  "handleCreatePersistentInstance env LoadAgentDir instanceID sessionID ctx agent name description nodeID m =
     (if agent = [] then (AgentRequired, m)
      else case mgr_CreateInstance env LoadAgentDir instanceID sessionID agent (cx_caller ctx) ''persistent'' nodeID
                  name description m of
             (Inl e, m') \<Rightarrow> (OpFailed e, m')
           | (Inr k, m') \<Rightarrow> (OpResult k, m'))"

section \<open>Spawning\<close>

text \<open>\<open>SpawnEphemeral\<close> in two halves, before and after the turn of the subagent.\<close>

definition spawn_begin ::
  "session_env \<Rightarrow> session_env \<Rightarrow> (string \<Rightarrow> agent_cfg option) \<Rightarrow> call_ctx \<Rightarrow> string \<Rightarrow> string \<Rightarrow> string \<Rightarrow> string \<Rightarrow>
   'sch Manager \<Rightarrow> (mgr_err + (mgr_err + call_ctx)) \<times> 'sch Manager" where
  "spawn_begin env env' LoadAgentDir ctx instanceID agentName parentID nodeID m =
     (if \<not> validateAgentName agentName then (Inl InvalidName, m)
      else case LoadAgentDir agentName of
             None \<Rightarrow> (Inl LoadFailed, m)
           | Some cfg \<Rightarrow>
               (case startInstance (sn_start env) instanceID (sn_newID env) (initial_channel parentID) cfg parentID
                       ''ephemeral'' nodeID [] [] m of
                  (Inl e, m1) \<Rightarrow> (Inl e, m1)
                | (Inr instID, m1) \<Rightarrow>
                    (case SendMessage env' ctx instID m1 of
                       (Inl e, m2) \<Rightarrow> (Inr (Inl e), m2)
                     | (Inr (_, ctx'), m2) \<Rightarrow> (Inr (Inr ctx'), m2))))"

definition spawn_end :: "gotime \<Rightarrow> string \<Rightarrow> 'sch Manager \<Rightarrow> 'sch Manager option" where
  "spawn_end now instanceID m = map_option snd (StopInstance now instanceID m)"

lemma startInstance_id: "startInstance env k sid ch cfg par mode node dn dd m = (Inr x, m') \<Longrightarrow> x = k"
  using startInstance_outcome by fastforce

lemma SpawnEphemeral_halves:
  "SpawnEphemeral env env' L ctx turn k name par node m =
     (case spawn_begin env env' L ctx k name par node m of
        (Inl e, m1) \<Rightarrow> Some (Inl e, m1)
      | (Inr r, m2) \<Rightarrow>
          (case (case r of Inl e \<Rightarrow> (Inl e, m2) | Inr ctx' \<Rightarrow> turn k ctx' m2) of
             (result, m3) \<Rightarrow> map_option (Pair result) (spawn_end (sv_now (sn_start env)) k m3)))"
  unfolding SpawnEphemeral_def spawn_begin_def spawn_end_def
  by (auto split: option.split prod.split sum.split if_splits dest: startInstance_id simp: option.map_comp comp_def
      intro!: option.map_cong)

definition maxAgentResultSize :: nat where "maxAgentResultSize = 32 * 1024"

definition truncateResult :: "string \<Rightarrow> string" where
  "truncateResult s = (if length s \<le> maxAgentResultSize then s
     else take maxAgentResultSize s @ [CHR 0x0A, CHR 0x0A] @ ''(result truncated)'')"

definition handleSpawn_check :: "string \<Rightarrow> string \<Rightarrow> tool_reply option" where
  "handleSpawn_check agent prompt =
     (if agent = [] then Some AgentRequired else if prompt = [] then Some PromptRequired else None)"

definition spawn_reply :: "mgr_err + string \<Rightarrow> tool_reply" where
  "spawn_reply r = (case r of Inl e \<Rightarrow> OpFailed e | Inr result \<Rightarrow> OpResult (truncateResult result))"


section \<open>What the operations of the manager leave alone\<close>

lemma StartInstance_frame:
  assumes ok: "mgr_ok m" and run: "StartInstance tenv env L k m = (e, m')" and j: "j \<noteq> k"
  shows "getInstance m' j = getInstance m j"
proof (cases "\<exists>i. getInstance m k = Some i \<and> mi_Status i = InstanceStopped")
  case True
  then obtain i where k: "getInstance m k = Some i" "mi_Status i = InstanceStopped" by blast
  have idk: "mi_ID i = k" using ok k(1) by (auto simp: mgr_ok_def tree_ok_def)
  obtain sid ch where rs: "resumed env k (mg_db m) = (sid, ch)" by fastforce
  let ?u = "unregisterLocked k (Some i) m"
  have re: "getInstance (reregisterStopped i x) j = getInstance m j" if "getInstance x j = getInstance m j" for x
    using that j idk by (simp add: reregisterStopped_def register_instances)
  have u: "getInstance ?u j = getInstance m j" using j by (simp add: unregister_instances)
  have st: "getInstance m2 j = getInstance m j"
    if "startInstance (sn_start env) k sid ch cfg (mi_ParentID i) (mi_Mode i) (mi_NodeID i) [] [] ?u = (r2, m2)" for r2 m2 cfg
    using startInstance_outcome [OF that] u j row_added_get [of sid ch ?u]
    by (auto simp: register_instances buildInstance_def)
  show ?thesis using run unfolding StartInstance_stopped [OF k rs] Let_def
    by (auto split: option.splits prod.splits sum.splits simp: re u st)
next
  case False
  then have "m' = m" using run by (auto simp: StartInstance_def split: option.splits if_splits)
  then show ?thesis by simp
qed

lemma EnsureSession_frame:
  assumes ok: "mgr_ok m" and env: "env_ok env m" and ch: "proper_key ch" and run: "EnsureSession env k ch m = (r, m')"
    and j: "j \<noteq> k"
  shows "getInstance m' j = getInstance m j"
proof (cases "\<exists>i. getInstance m k = Some i \<and> mi_Status i = InstanceRunning")
  case True
  then obtain i where k: "getInstance m k = Some i" "mi_Status i = InstanceRunning" by blast
  show ?thesis
    using run [unfolded EnsureSession_running [OF ok k]] j createSessionSlot_ok(2) [OF ok k env ch]
    by (auto split: option.splits if_splits)
next
  case False
  then have "m' = m" using run by (auto simp: EnsureSession_def split: option.splits if_splits) (metis InstanceStatus.exhaust)+
  then show ?thesis by simp
qed

lemma SendMessage_state: "SendMessage env ctx k m = (r, m') \<Longrightarrow> \<exists>r'. EnsureSession env k (channel_of_caller ctx) m = (r', m')"
  by (auto simp: SendMessage_def split: prod.splits sum.splits)

lemma subtree_below: "tree_ok m \<Longrightarrow> j \<in> subtree m k \<Longrightarrow> (k, j) \<in> (lineage m)\<^sup>*"
  using rtrancl_mono [OF tree_rel_sub] by blast

lemma collect_below:
  assumes "mgr_ok m" "collectDescendants m k = Some ds" "j \<in> set ds"
  shows "(k, j) \<in> (lineage m)\<^sup>* \<and> getInstance m k \<noteq> None"
proof (cases "getInstance m k")
  case None
  with assms(2,3) show ?thesis by (simp add: collectDescendants_def)
next
  case (Some i)
  have t: "tree_ok m" using assms(1) by (simp add: mgr_ok_def)
  from collectDescendants_Some [OF t Some] assms(2,3) have "j \<in> subtree m k" by auto
  from subtree_below [OF t this] Some show ?thesis by simp
qed

lemma collect_total: "mgr_ok m \<Longrightarrow> \<exists>ds. collectDescendants m k = Some ds"
  using collectDescendants_Some [of m k] by (cases "getInstance m k") (auto simp: mgr_ok_def collectDescendants_def)

lemma StopInstance_frame:
  assumes ok: "mgr_ok m" and run: "StopInstance now k m = Some (r, m')" and j: "(k, j) \<notin> (lineage m)\<^sup>*"
  shows "getInstance m' j = getInstance m j"
proof -
  obtain ds where ds: "collectDescendants m k = Some ds" using collect_total [OF ok] by blast
  have t: "tree_ok m" using ok by (simp add: mgr_ok_def)
  have "j \<notin> set ds" using collect_below [OF ok ds] j by blast
  then have "getInstance (fold (stop_one now) (rev ds) m) j = getInstance m j" using fold_stop_one(2) [OF t] by simp
  then show ?thesis using run ds by (auto simp: StopInstance_def Let_def split: if_splits)
qed

lemma DeleteInstance_frame:
  assumes ok: "mgr_ok m" and run: "mgr_DeleteInstance k m = Some (e, m')" and j: "(k, j) \<notin> (lineage m)\<^sup>*"
  shows "getInstance m' j = getInstance m j"
proof -
  obtain ds where ds: "collectDescendants m k = Some ds" using collect_total [OF ok] by blast
  have t: "tree_ok m" using ok by (simp add: mgr_ok_def)
  have "j \<notin> set ds" using collect_below [OF ok ds] j by blast
  then have "getInstance (fold delete_one (rev ds) m) j = getInstance m j" using fold_delete_one(2) [OF t] by simp
  then show ?thesis using run ds by (auto simp: mgr_DeleteInstance_def split: if_splits)
qed

text \<open>The operations on an instance, and those that add one.\<close>

definition mgr_acts :: "string \<Rightarrow> 'sch Manager \<Rightarrow> 'sch Manager \<Rightarrow> bool" where
  "mgr_acts k m m' \<longleftrightarrow>
     (\<exists>now r. StopInstance now k m = Some (r, m')) \<or> (\<exists>e. mgr_DeleteInstance k m = Some (e, m')) \<or>
     (\<exists>tenv env L e. env_ok env m \<and> StartInstance tenv env L k m = (e, m')) \<or>
     (\<exists>env ctx r. env_ok env m \<and> SendMessage env ctx k m = (r, m'))"

definition mgr_adds :: "string \<Rightarrow> 'sch Manager \<Rightarrow> 'sch Manager \<Rightarrow> bool" where
  "mgr_adds k m m' \<longleftrightarrow>
     (\<exists>env L sid name par mode node dn dd r. fresh_inst k par m \<and> fresh_sid sid m \<and> fresh_worker env m \<and>
        mgr_CreateInstance env L k sid name par mode node dn dd m = (r, m'))"

lemma mgr_addsI:
  "fresh_inst k par m \<Longrightarrow> fresh_sid sid m \<Longrightarrow> fresh_worker env m \<Longrightarrow>
   mgr_CreateInstance env L k sid name par mode node dn dd m = (r, m') \<Longrightarrow> mgr_adds k m m'"
  unfolding mgr_adds_def by blast

lemma mgr_acts_ok: "mgr_acts k m m' \<Longrightarrow> mgr_ok m \<Longrightarrow> mgr_ok m'"
  unfolding mgr_acts_def
  by (blast dest: SendMessage_state intro: mgr_ok_step mgr_step.stop mgr_step.delete mgr_step.restart mgr_ok_EnsureSession proper_caller)

lemma mgr_acts_frame:
  assumes ok: "mgr_ok m" and a: "mgr_acts k m m'" and j: "(k, j) \<notin> (lineage m)\<^sup>*"
  shows "getInstance m' j = getInstance m j"
proof -
  have "j \<noteq> k" using j by blast
  with a show ?thesis unfolding mgr_acts_def
    using StopInstance_frame [OF ok _ j] DeleteInstance_frame [OF ok _ j] StartInstance_frame [OF ok]
      EnsureSession_frame [OF ok _ proper_caller] SendMessage_state by metis
qed

lemma mgr_acts_none:
  assumes "mgr_acts k m m'" "getInstance m k = None"
  shows "m' = m"
  using assms unfolding mgr_acts_def
  by (auto simp: StopInstance_def mgr_DeleteInstance_def collectDescendants_def StartInstance_def SendMessage_def EnsureSession_def)

lemma mgr_adds_frame:
  assumes "mgr_adds k m m'" "j \<noteq> k"
  shows "getInstance m' j = getInstance m j"
proof -
  obtain env L sid name par mode node dn dd r where
    run: "mgr_CreateInstance env L k sid name par mode node dn dd m = (r, m')" using assms(1) by (auto simp: mgr_adds_def)
  have "getInstance m' j = getInstance m j" if "startInstance env k sid ch cfg par mode node dn dd m = (r, m')" for ch cfg
    using startInstance_outcome [OF that] assms(2) row_added_get [of sid ch m]
    by (auto simp: register_instances buildInstance_def)
  with run show ?thesis by (auto simp: mgr_CreateInstance_def split: if_splits option.splits)
qed

lemma lineage_edges: "lineage = edges getInstance mi_ParentID"
  by (intro ext) (simp add: lineage_def edges_def)

interpretation mgr: scoped_tree getInstance mi_ParentID mgr_ok IsDescendant mgr_acts mgr_adds
proof (unfold_locales, unfold lineage_edges [symmetric])
  fix m :: "'sch Manager" and m' t a k j
  assume ok: "mgr_ok m"
  show "IsDescendant m t a \<noteq> None" using collect_total [OF ok] by (auto simp: IsDescendant_def)
  show "getInstance m a \<noteq> None \<and> (a, t) \<in> (lineage m)\<^sup>*" if "IsDescendant m t a = Some True"
    using collect_below [OF ok] that by (auto simp: IsDescendant_def)
  show "mgr_ok m'" if "mgr_acts k m m'" using mgr_acts_ok [OF that ok] .
  show "getInstance m' j = getInstance m j" if "mgr_acts k m m'" "(k, j) \<notin> (lineage m)\<^sup>*" using mgr_acts_frame [OF ok that] .
  show "getInstance m' j = getInstance m j" if "mgr_acts k m m'" "getInstance m k = None" using mgr_acts_none [OF that] by simp
  show "mgr_ok m'" if "mgr_adds k m m'" using that mgr_ok_CreateInstance [OF ok] by (auto simp: mgr_adds_def)
  show "getInstance m' j = getInstance m j" if "mgr_adds k m m'" "j \<noteq> k" using mgr_adds_frame [OF that] .
qed


section \<open>Agents at work\<close>

text \<open>The manager, the identifiers given out so far, the contexts of the turns in progress, the spawns waiting
  to run in the background and the subagents whose turn has not been followed by their stop.\<close>

record 'sch tool_state =
  ts_mgr :: "'sch Manager"
  ts_used :: "string set"
  ts_turns :: "call_ctx set"
  ts_jobs :: "(call_ctx \<times> string \<times> string) set"
  ts_spawned :: "string set"

text \<open>The effect of a \<open>spawn_begin\<close> that was asked for in \<open>ctx\<close>.\<close>

definition spawned_into :: "string \<Rightarrow> (mgr_err + (mgr_err + call_ctx)) \<times> 'sch Manager \<Rightarrow> 'sch tool_state \<Rightarrow> 'sch tool_state" where
  "spawned_into k res t =
     (case res of
        (Inl _, m) \<Rightarrow> t\<lparr>ts_mgr := m, ts_used := insert k (ts_used t)\<rparr>
      | (Inr r, m) \<Rightarrow>
          t\<lparr>ts_mgr := m, ts_used := insert k (ts_used t), ts_spawned := insert k (ts_spawned t),
            ts_turns := ts_turns t \<union> (case r of Inl _ \<Rightarrow> {} | Inr ctx' \<Rightarrow> {ctx'})\<rparr>)"

text \<open>Identifiers and workers of a start are new, also those of the two sessions of a spawn.\<close>

definition spawn_envs :: "session_env \<Rightarrow> session_env \<Rightarrow> string \<Rightarrow> string \<Rightarrow> 'sch tool_state \<Rightarrow> bool" where
  "spawn_envs env env' k par t \<longleftrightarrow>
     k \<notin> ts_used t \<and> fresh_inst k par (ts_mgr t) \<and> fresh_sid (sn_newID env) (ts_mgr t) \<and>
     fresh_worker (sn_start env) (ts_mgr t) \<and> env_ok env' (ts_mgr t) \<and>
     sn_newID env' \<noteq> sn_newID env \<and> sv_spawn (sn_start env') \<noteq> sv_spawn (sn_start env)"

inductive tool_step :: "'sch tool_state \<Rightarrow> 'sch tool_state \<Rightarrow> bool" where
  resume: "ctx \<in> ts_turns t \<Longrightarrow> env_ok env (ts_mgr t) \<Longrightarrow>
     handleResumeInstance tenv env L ctx k (ts_mgr t) = Some (r, m') \<Longrightarrow> tool_step t (t\<lparr>ts_mgr := m'\<rparr>)"
| send: "ctx \<in> ts_turns t \<Longrightarrow> env_ok env (ts_mgr t) \<Longrightarrow>
     handleSendMessage env ctx k msg (ts_mgr t) = Some (r', m') \<Longrightarrow>
     tool_step t (t\<lparr>ts_mgr := m', ts_turns := ts_turns t \<union> (case r' of Inl _ \<Rightarrow> {} | Inr (_, ctx') \<Rightarrow> {ctx'})\<rparr>)"
| stop: "ctx \<in> ts_turns t \<Longrightarrow> handleStopInstance now ctx k (ts_mgr t) = Some (r, m') \<Longrightarrow> tool_step t (t\<lparr>ts_mgr := m'\<rparr>)"
| delete: "ctx \<in> ts_turns t \<Longrightarrow> handleDeleteInstance ctx k (ts_mgr t) = Some (r, m') \<Longrightarrow> tool_step t (t\<lparr>ts_mgr := m'\<rparr>)"
| create: "ctx \<in> ts_turns t \<Longrightarrow> k \<notin> ts_used t \<Longrightarrow> fresh_inst k (cx_caller ctx) (ts_mgr t) \<Longrightarrow> fresh_sid sid (ts_mgr t) \<Longrightarrow>
     fresh_worker senv (ts_mgr t) \<Longrightarrow>
     handleCreatePersistentInstance senv L k sid ctx agent dn dd node (ts_mgr t) = (r, m') \<Longrightarrow>
     tool_step t (t\<lparr>ts_mgr := m', ts_used := insert k (ts_used t)\<rparr>)"
| spawn: "ctx \<in> ts_turns t \<Longrightarrow> handleSpawn_check agent prompt = None \<Longrightarrow> spawn_envs env env' k (cx_caller ctx) t \<Longrightarrow>
     tool_step t (spawned_into k (spawn_begin env env' L ctx k agent (cx_caller ctx) node (ts_mgr t)) t)"
| launch: "ctx \<in> ts_turns t \<Longrightarrow> handleSpawn_check agent prompt = None \<Longrightarrow>
     tool_step t (t\<lparr>ts_jobs := insert (ctx, agent, node) (ts_jobs t)\<rparr>)"
| job: "(ctx, agent, node) \<in> ts_jobs t \<Longrightarrow> spawn_envs env env' k (cx_caller ctx) t \<Longrightarrow>
     tool_step t (spawned_into k (spawn_begin env env' L ctx k agent (cx_caller ctx) node (ts_mgr t))
       (t\<lparr>ts_jobs := ts_jobs t - {(ctx, agent, node)}\<rparr>))"
| reap: "k \<in> ts_spawned t \<Longrightarrow> spawn_end now k (ts_mgr t) = Some m' \<Longrightarrow>
     tool_step t (t\<lparr>ts_mgr := m', ts_spawned := ts_spawned t - {k}\<rparr>)"
| ended: "tool_step t (t\<lparr>ts_turns := ts_turns t - {ctx}\<rparr>)"

text \<open>A sealed set of instances stays as it was when neither a caller nor a subagent belongs to it.\<close>

definition shut_out :: "string set \<Rightarrow> string set \<Rightarrow> 'sch Manager \<Rightarrow> 'sch tool_state \<Rightarrow> bool" where
  "shut_out P D m t \<longleftrightarrow>
     mgr_ok (ts_mgr t) \<and> sealed getInstance mi_ParentID P D (ts_mgr t) \<and> P \<union> D \<subseteq> ts_used t \<and>
     (\<forall>ctx\<in>ts_turns t. cx_caller ctx \<notin> P) \<and> (\<forall>(ctx, _)\<in>ts_jobs t. cx_caller ctx \<notin> P) \<and> ts_spawned t \<inter> P = {} \<and>
     (\<forall>j\<in>P. getInstance (ts_mgr t) j = getInstance m j)"

lemma shut_out_acts:
  assumes "shut_out P D m t" "k \<notin> P" "mgr_acts k (ts_mgr t) m'"
  shows "shut_out P D m (t\<lparr>ts_mgr := m'\<rparr>)"
proof -
  have i: "mgr_ok (ts_mgr t)" "sealed getInstance mi_ParentID P D (ts_mgr t)" using assms(1) by (auto simp: shut_out_def)
  note a = mgr.acts_outside [OF i assms(2,3)] mgr.acts_sealed [OF i assms(2,3)]
  show ?thesis using assms(1) a by (auto simp: shut_out_def)
qed

lemma shut_out_adds:
  assumes "shut_out P D m t" "k \<notin> ts_used t" "mgr_adds k (ts_mgr t) m'"
  shows "shut_out P D m (t\<lparr>ts_mgr := m', ts_used := insert k (ts_used t)\<rparr>)"
proof -
  have i: "mgr_ok (ts_mgr t)" "sealed getInstance mi_ParentID P D (ts_mgr t)" and k: "k \<notin> P \<union> D"
    using assms(1,2) by (auto simp: shut_out_def)
  note a = mgr.adds_sealed [OF i k assms(3)]
  show ?thesis using assms(1) a by (auto simp: shut_out_def)
qed

lemma shut_out_target:
  assumes "shut_out P D m t" "ctx \<in> ts_turns t" "checkDescendant (ts_mgr t) (cx_caller ctx) k = Some True"
  shows "k \<notin> P"
  by (rule mgr.scoped_target [of "ts_mgr t" _ _ "cx_caller ctx"]) (use assms in \<open>auto simp: shut_out_def checkDescendant_def\<close>)

lemma shut_out_same: "shut_out P D m t \<Longrightarrow> shut_out P D m (t\<lparr>ts_mgr := ts_mgr t\<rparr>)"
  by simp

lemma shut_out_turn: "shut_out P D m t \<Longrightarrow> cx_caller ctx \<notin> P \<Longrightarrow> shut_out P D m (t\<lparr>ts_turns := insert ctx (ts_turns t)\<rparr>)"
  by (simp add: shut_out_def)

lemma SendMessage_caller: "SendMessage env ctx k m = (Inr (sid, ctx'), m') \<Longrightarrow> cx_caller ctx' = k"
  by (auto simp: SendMessage_def acquireSlot_def ContextWithCallerID_def split: prod.splits sum.splits option.splits if_splits)


lemma spawn_begin_create:
  "spawn_begin env env' L ctx k agent par node m =
     (case mgr_CreateInstance (sn_start env) L k (sn_newID env) agent par ''ephemeral'' node [] [] m of
        (Inl e, m1) \<Rightarrow> (Inl e, m1)
      | (Inr instID, m1) \<Rightarrow>
          (case SendMessage env' ctx instID m1 of
             (Inl e, m2) \<Rightarrow> (Inr (Inl e), m2) | (Inr (_, ctx'), m2) \<Rightarrow> (Inr (Inr ctx'), m2)))"
  by (auto simp: spawn_begin_def mgr_CreateInstance_def split: option.split)

lemma created_parts:
  assumes "mgr_CreateInstance env L k sid agent par mode node dn dd m = (Inr x, m1)"
  obtains cfg where "x = k" "startInstance env k sid (initial_channel par) cfg par mode node dn dd m = (Inr x, m1)"
proof -
  obtain cfg where "startInstance env k sid (initial_channel par) cfg par mode node dn dd m = (Inr x, m1)"
    using assms by (auto simp: mgr_CreateInstance_def split: if_splits option.splits)
  with startInstance_id [OF this] that show thesis by blast
qed

lemma shut_out_spawn:
  assumes s: "shut_out P D m t" and e: "spawn_envs env env' k (cx_caller ctx) t"
  shows "shut_out P D m (spawned_into k (spawn_begin env env' L ctx k agent (cx_caller ctx) node (ts_mgr t)) t)"
proof -
  let ?m = "ts_mgr t" and ?par = "cx_caller ctx"
  obtain r1 m1 where c: "mgr_CreateInstance (sn_start env) L k (sn_newID env) agent ?par ''ephemeral'' node [] [] ?m = (r1, m1)"
    by fastforce
  have ad: "mgr_adds k ?m m1" using c e unfolding mgr_adds_def spawn_envs_def by blast
  have ku: "k \<notin> ts_used t" using e by (simp add: spawn_envs_def)
  note s1 = shut_out_adds [OF s ku ad]
  have kP: "k \<notin> P" using s ku by (auto simp: shut_out_def)
  show ?thesis
  proof (cases r1)
    case (Inl err)
    then show ?thesis using s1 c by (simp add: spawn_begin_create spawned_into_def)
  next
    case (Inr x)
    obtain cfg where x: "x = k" "startInstance (sn_start env) k (sn_newID env) (initial_channel ?par) cfg ?par ''ephemeral'' node [] [] ?m = (Inr x, m1)"
      using created_parts [OF c [unfolded Inr]] by blast
    have ok1: "env_ok env' m1"
      by (rule env_ok_started [OF x(2)]) (use e in \<open>auto simp: spawn_envs_def fresh_inst_def\<close>)
    obtain r2 m2 where sm: "SendMessage env' ctx k m1 = (r2, m2)" by fastforce
    then have "mgr_acts k m1 m2" using ok1 by (auto simp: mgr_acts_def)
    then have s2: "shut_out P D m (t\<lparr>ts_mgr := m2, ts_used := insert k (ts_used t), ts_spawned := insert k (ts_spawned t)\<rparr>)"
      using shut_out_acts [OF s1 kP] kP by (simp add: shut_out_def)
    show ?thesis
    proof (cases r2)
      case (Inl err)
      then show ?thesis using s2 c Inr x(1) sm by (simp add: spawn_begin_create spawned_into_def)
    next
      case (Inr p)
      obtain sid ctx' where p: "p = (sid, ctx')" by fastforce
      have "cx_caller ctx' \<notin> P" using SendMessage_caller [OF sm [unfolded Inr p]] kP by simp
      from shut_out_turn [OF s2 this] show ?thesis
        using c \<open>r1 = Inr x\<close> x(1) sm Inr p by (simp add: spawn_begin_create spawned_into_def)
    qed
  qed
qed

lemma scoped_acts:
  assumes s: "shut_out P D m t" and c: "ctx \<in> ts_turns t"
    and a: "m' = ts_mgr t \<or> checkDescendant (ts_mgr t) (cx_caller ctx) k = Some True \<and> mgr_acts k (ts_mgr t) m'"
  shows "shut_out P D m (t\<lparr>ts_mgr := m'\<rparr>)"
  using a shut_out_acts [OF s shut_out_target [OF s c]] s by auto

lemma tool_step_shut_out: "tool_step t t' \<Longrightarrow> shut_out P D m t \<Longrightarrow> shut_out P D m t'"
proof (induction rule: tool_step.induct)
  case (resume ctx t env tenv L k r m')
  show ?case
    by (rule scoped_acts [OF resume(4,1), where k = k])
      (use resume(2,3) in \<open>auto simp: handleResumeInstance_def mgr_acts_def split: bind_splits if_splits option.splits prod.splits\<close>)
next
  case (send ctx t env k msg r' m')
  have sc: "shut_out P D m (t\<lparr>ts_mgr := m'\<rparr>)"
    by (rule scoped_acts [OF send(4,1), where k = k])
      (use send(2,3) in \<open>auto simp: handleSendMessage_def mgr_acts_def split: bind_splits if_splits sum.splits prod.splits\<close>)
  show ?case
  proof (cases r')
    case (Inl x)
    then show ?thesis using sc by simp
  next
    case (Inr p)
    obtain sid ctx' where p: "p = (sid, ctx')" by fastforce
    have d: "checkDescendant (ts_mgr t) (cx_caller ctx) k = Some True" "cx_caller ctx' = k"
      using send(3) Inr p SendMessage_caller
      by (auto simp: handleSendMessage_def split: bind_splits if_splits sum.splits prod.splits)
    have "cx_caller ctx' \<notin> P" using shut_out_target [OF send(4,1) d(1)] d(2) by simp
    from shut_out_turn [OF sc this] Inr p show ?thesis by simp
  qed
next
  case (stop ctx t now k r m')
  show ?case
    by (rule scoped_acts [OF stop(3,1), where k = k])
      (use stop(2) in \<open>auto simp: handleStopInstance_def mgr_acts_def split: bind_splits if_splits\<close>)
next
  case (delete ctx t k r m')
  show ?case
    by (rule scoped_acts [OF delete(3,1), where k = k])
      (use delete(2) in \<open>auto simp: handleDeleteInstance_def mgr_acts_def split: bind_splits if_splits\<close>)
next
  case (create ctx t k sid senv L agent dn dd node r m')
  have "agent = [] \<and> m' = ts_mgr t \<or> mgr_adds k (ts_mgr t) m'"
    using create(6) mgr_addsI [OF create(3-5)]
    by (auto simp: handleCreatePersistentInstance_def split: if_splits prod.splits sum.splits)
  then show ?case using shut_out_adds [OF create(7,2)] create(7) by (auto simp: shut_out_def)
next
  case (spawn ctx t agent prompt env env' k L node)
  show ?case by (rule shut_out_spawn [OF spawn(4,3)])
next
  case (launch ctx t agent prompt node)
  then show ?case by (auto simp: shut_out_def)
next
  case (job ctx agent node t env env' k L)
  have "shut_out P D m (t\<lparr>ts_jobs := ts_jobs t - {(ctx, agent, node)}\<rparr>)" using job(3) by (auto simp: shut_out_def)
  from shut_out_spawn [OF this] job(2) show ?case by (simp add: spawn_envs_def)
next
  case (reap k t now m')
  have "k \<notin> P" using reap(1,3) by (auto simp: shut_out_def)
  moreover have "mgr_acts k (ts_mgr t) m'" using reap(2) by (auto simp: spawn_end_def mgr_acts_def)
  ultimately have "shut_out P D m (t\<lparr>ts_mgr := m'\<rparr>)" by (rule shut_out_acts [OF reap(3)])
  then show ?case by (auto simp: shut_out_def)
next
  case (ended t ctx)
  then show ?case by (auto simp: shut_out_def)
qed

text \<open>The identifiers that occur in a manager, and the state in which one instance starts a turn.\<close>

definition mgr_ids :: "'sch Manager \<Rightarrow> string set" where
  "mgr_ids m = {j. getInstance m j \<noteq> None} \<union> {mi_ParentID i | i j. getInstance m j = Some i}"

definition turn_start :: "'sch Manager \<Rightarrow> call_ctx \<Rightarrow> 'sch tool_state" where
  "turn_start m ctx = \<lparr>ts_mgr = m, ts_used = mgr_ids m, ts_turns = {ctx}, ts_jobs = {}, ts_spawned = {}\<rparr>"

text \<open>C3. An agent controls its own subtree and nothing else.  Start a turn of a registered instance, and let it,
  every agent that it sends messages to or spawns, also in the background, and the agents those engage
  in turn, call the instance tools in any order and interleaving: every instance that is not below the
  first one is registered exactly as before, with the same sessions and workers, and the manager keeps
  its invariant.\<close>

theorem instance_tools_confined:
  assumes ok: "mgr_ok m" and c: "getInstance m (cx_caller ctx) \<noteq> None"
    and run: "tool_step\<^sup>*\<^sup>* (turn_start m ctx) t"
  shows "mgr_ok (ts_mgr t) \<and>
    (\<forall>j. getInstance m j \<noteq> None \<and> (cx_caller ctx, j) \<notin> (lineage m)\<^sup>* \<longrightarrow> getInstance (ts_mgr t) j = getInstance m j)"
proof -
  let ?c = "cx_caller ctx"
  define P where "P = {j. getInstance m j \<noteq> None \<and> (?c, j) \<notin> (lineage m)\<^sup>*}"
  define D where "D = {mi_ParentID i | i j. getInstance m j = Some i \<and> (?c, j) \<notin> (lineage m)\<^sup>* \<and> getInstance m (mi_ParentID i) = None}"
  have "sealed getInstance mi_ParentID P D m"
    using mgr.outside_sealed [of m ?c] by (simp add: P_def D_def lineage_edges)
  moreover have "?c \<notin> P" "P \<union> D \<subseteq> mgr_ids m" by (auto simp: P_def D_def mgr_ids_def)
  ultimately have "shut_out P D m (turn_start m ctx)" using ok by (simp add: shut_out_def turn_start_def)
  with run have "shut_out P D m t" by (induction rule: rtranclp_induct) (auto intro: tool_step_shut_out)
  then show ?thesis by (auto simp: shut_out_def P_def)
qed


section \<open>Two instances\<close>

definition demo_two :: "unit Manager" where
  "demo_two = snd (mgr_CreateInstance (demo_start\<lparr>sv_spawn := Some 2\<rparr>) (\<lambda>_. Some demo_cfg) ''o'' ''s2'' ''a'' [] ''persistent'' [] [] []
     demo_started)"

definition demo_call :: call_ctx where
  "demo_call = \<lparr>cx_caller = ''o'', cx_chain = [''o'']\<rparr>"

lemma demo_two_ok: "mgr_ok demo_two"
proof (rule mgr_ok_step [OF mgr_step.create [where k = "''o''" and par = "[]" and sid = "''s2''" and m = demo_started]])
  show "fresh_inst ''o'' [] demo_started" by (simp add: fresh_inst_def demo_started_get demo_running_def)
  show "fresh_sid ''s2'' demo_started" unfolding fresh_sid_def demo_slots demo_started_parts by simp
  show "fresh_worker (demo_start\<lparr>sv_spawn := Some 2\<rparr>) demo_started"
    unfolding fresh_worker_def demo_started_parts by (simp add: demo_start_def)
  show "mgr_ok demo_started" using mgr_reachable_ok [OF demo_started_reachable] .
qed (simp add: demo_two_def prod_eq_iff)

lemma demo_two_parents: "map (\<lambda>(k, i). (k, mi_ParentID i)) (mg_instances demo_two) = [(''i'', []), (''o'', [])]"
  by code_simp

lemma demo_two_get: "map_option mi_ParentID (getInstance demo_two k) = (if k = ''i'' \<or> k = ''o'' then Some [] else None)"
proof -
  have "map_option mi_ParentID (getInstance demo_two k) = gomap_get [(''i'', []), (''o'', [])] k"
    using gomap_get_map [of mi_ParentID "mg_instances demo_two" k] by (simp only: demo_two_parents instances_getInstance)
  then show ?thesis by (simp add: gomap_get_def)
qed

lemma demo_two_apart: "a \<noteq> ''i'' \<Longrightarrow> a \<noteq> [] \<Longrightarrow> (a, ''i'') \<notin> (lineage demo_two)\<^sup>*"
proof
  assume a: "a \<noteq> ''i''" "a \<noteq> []" and "(a, ''i'') \<in> (lineage demo_two)\<^sup>*"
  from this(3) a(1) obtain p where p: "(a, p) \<in> (lineage demo_two)\<^sup>*" "(p, ''i'') \<in> lineage demo_two" by (blast elim: rtranclE)
  have "p = []" using p(2) demo_two_get [of "''i''"] by (auto simp: lineage_def)
  with p(1) a(2) obtain q where "(q, []) \<in> lineage demo_two" by (blast elim: rtranclE)
  then show False using demo_two_get [of "[]"] by (auto simp: lineage_def)
qed

text \<open>The scope of an agent includes itself: it can delete the instance it runs in.\<close>

lemma delete_self:
  assumes ok: "mgr_ok m" and k: "getInstance m (cx_caller ctx) \<noteq> None" "cx_caller ctx \<noteq> []"
  shows "\<exists>m'. handleDeleteInstance ctx (cx_caller ctx) m = Some (OpDone, m') \<and> getInstance m' (cx_caller ctx) = None"
proof -
  let ?k = "cx_caller ctx"
  have t: "tree_ok m" using ok by (simp add: mgr_ok_def)
  obtain ds where ds: "collectDescendants m ?k = Some ds" "?k \<in> set ds" using collectDescendants_Some [OF t] k(1) by fastforce
  then have "ds \<noteq> []" by auto
  with ds k(2) have "handleDeleteInstance ctx ?k m = Some (OpDone, fold delete_one (rev ds) m)"
    by (simp add: handleDeleteInstance_def checkDescendant_def IsDescendant_def mgr_DeleteInstance_def)
  moreover have "getInstance (fold delete_one (rev ds) m) ?k = None" using fold_delete_one(2) [OF t, of "rev ds"] ds(2) by simp
  ultimately show ?thesis by blast
qed

theorem instance_tools_confined_witness:
  "\<exists>t. tool_step\<^sup>*\<^sup>* (turn_start demo_two demo_call) t \<and> getInstance (ts_mgr t) ''o'' = None \<and>
     getInstance (ts_mgr t) ''i'' = getInstance demo_two ''i'' \<and> getInstance demo_two ''i'' \<noteq> None"
proof -
  have c: "cx_caller demo_call = ''o''" by (simp add: demo_call_def)
  have reg: "getInstance demo_two ''o'' \<noteq> None" "getInstance demo_two ''i'' \<noteq> None"
    using demo_two_get [of "''o''"] demo_two_get [of "''i''"] by auto
  obtain m' where d: "handleDeleteInstance demo_call ''o'' demo_two = Some (OpDone, m')" "getInstance m' ''o'' = None"
    using delete_self [OF demo_two_ok, of demo_call] reg(1) c by auto
  let ?t = "(turn_start demo_two demo_call)\<lparr>ts_mgr := m'\<rparr>"
  have "tool_step (turn_start demo_two demo_call) ?t"
    by (rule tool_step.delete [of demo_call]) (use d(1) in \<open>simp_all add: turn_start_def\<close>)
  then have run: "tool_step\<^sup>*\<^sup>* (turn_start demo_two demo_call) ?t" by blast
  have "(''o'', ''i'') \<notin> (lineage demo_two)\<^sup>*" by (rule demo_two_apart) simp_all
  with instance_tools_confined [OF demo_two_ok _ run] c reg d(2) run show ?thesis by (intro exI [of _ ?t]) simp
qed

section \<open>Background spawns\<close>

text \<open>The notification at the end of a spawn in the background; \<open>quote\<close> is \<open>%q\<close> and \<open>errText\<close> the text of an error.\<close>

definition agent_notification :: "string \<Rightarrow> string \<Rightarrow> string \<Rightarrow> string \<Rightarrow> string" where
  "agent_notification agent status summary result =
     (let nl = [CHR 0x0A] in
      ''<agent-notification>'' @ nl @ ''<agent>'' @ agent @ ''</agent>'' @ nl @ ''<status>'' @ status @ ''</status>'' @ nl @
      ''<summary>'' @ summary @ ''</summary>'' @ nl @ ''<result>'' @ result @ ''</result>'' @ nl @ ''</agent-notification>'')"

definition background_result ::
  "(string \<Rightarrow> string) \<Rightarrow> (mgr_err \<Rightarrow> string) \<Rightarrow> string \<Rightarrow> string \<Rightarrow> mgr_err + string \<Rightarrow> Notification" where
  "background_result quote errText sessionID agent r =
     \<lparr>nt_Content = (case r of
        Inl e \<Rightarrow> agent_notification agent ''failed'' (''Agent '' @ quote agent @ '' failed: '' @ errText e) (truncateResult [])
      | Inr result \<Rightarrow> agent_notification agent ''completed'' (''Agent '' @ quote agent @ '' finished'') (truncateResult result)),
      nt_Source = ''agent-completion'', nt_SessionID = sessionID\<rparr>"

definition launchBackgroundSpawn ::
  "(string \<Rightarrow> string) \<Rightarrow> (mgr_err \<Rightarrow> string) \<Rightarrow> string \<Rightarrow> string \<Rightarrow>
   ('sch Manager \<Rightarrow> ((mgr_err + string) \<times> 'sch Manager) option) \<Rightarrow> NotificationQueue \<Rightarrow> 'sch Manager \<Rightarrow>
   (NotificationQueue \<times> 'sch Manager) option" where
  "launchBackgroundSpawn quote errText sessionID agent spawn q m =
     map_option (\<lambda>(r, m'). (Push (background_result quote errText sessionID agent r) q, m')) (spawn m)"

lemma truncateResult_bound: "length (truncateResult s) \<le> maxAgentResultSize + 20"
  by (simp add: truncateResult_def)

end
