(* ===== verification/File_System.thy ===== *)
theory File_System
  imports Go_Path
begin

text \<open>
  A file system with directories and symbolic links, and the operations of Go's \<open>os\<close> and
  \<open>path/filepath\<close> packages that the file tools use, on absolute paths.  A location is the list of its
  components; a node is looked up at a location without following links, a path is resolved by a walk
  that follows them, at most a given number of times: the kernel gives up after 40, \<open>EvalSymlinks\<close>
  after 255.  Permissions are a predicate on locations.
\<close>

section \<open>Nodes and resolution\<close>

datatype fnode = FFile string | FDir | FLink string

type_synonym location = "string list"
type_synonym fsys = "location \<Rightarrow> fnode option"

definition node_at :: "fsys \<Rightarrow> location \<Rightarrow> fnode option" where
  "node_at fs r = (if r = [] then Some FDir else fs r)"

function walk :: "fsys \<Rightarrow> nat \<Rightarrow> location \<Rightarrow> string list \<Rightarrow> location option" where
  "walk fs n dir [] = Some dir"
| "walk fs n dir (c # cs) =
     (if c = [] \<or> c = ''.'' then walk fs n dir cs
      else if c = ''..'' then walk fs n (butlast dir) cs
      else case fs (dir @ [c]) of
             None \<Rightarrow> None
           | Some FDir \<Rightarrow> walk fs n (dir @ [c]) cs
           | Some (FFile _) \<Rightarrow> if cs = [] then Some (dir @ [c]) else None
           | Some (FLink t) \<Rightarrow>
               if n = 0 then None
               else walk fs (n - 1) (if prefix ''/'' t then [] else dir) (SplitByte t SLASH @ cs))"
  by pat_completeness auto
termination by (relation "measures [\<lambda>(fs, n, dir, cs). n, \<lambda>(fs, n, dir, cs). length cs]") auto

text \<open>Where opening a path for writing creates the file: as \<open>walk\<close>, but the last component may be missing.\<close>

function locate :: "fsys \<Rightarrow> nat \<Rightarrow> location \<Rightarrow> string list \<Rightarrow> location option" where
  "locate fs n dir [] = Some dir"
| "locate fs n dir (c # cs) =
     (if c = [] \<or> c = ''.'' then locate fs n dir cs
      else if c = ''..'' then locate fs n (butlast dir) cs
      else case fs (dir @ [c]) of
             None \<Rightarrow> if cs = [] then Some (dir @ [c]) else None
           | Some FDir \<Rightarrow> locate fs n (dir @ [c]) cs
           | Some (FFile _) \<Rightarrow> if cs = [] then Some (dir @ [c]) else None
           | Some (FLink t) \<Rightarrow>
               if n = 0 then None
               else locate fs (n - 1) (if prefix ''/'' t then [] else dir) (SplitByte t SLASH @ cs))"
  by pat_completeness auto
termination by (relation "measures [\<lambda>(fs, n, dir, cs). n, \<lambda>(fs, n, dir, cs). length cs]") auto

definition path_text :: "location \<Rightarrow> string" where
  "path_text cs = SLASH # Join cs ''/''"

definition kernelLinks :: nat where "kernelLinks = 40"

definition evalLinks :: nat where "evalLinks = 255"

definition EvalSymlinks :: "fsys \<Rightarrow> string \<Rightarrow> string option" where
  "EvalSymlinks fs p = map_option path_text (walk fs evalLinks [] (SplitByte p SLASH))"

definition fs_Stat :: "fsys \<Rightarrow> string \<Rightarrow> fnode option" where
  "fs_Stat fs p = Option.bind (walk fs kernelLinks [] (SplitByte p SLASH)) (node_at fs)"

definition fs_ReadFile :: "fsys \<Rightarrow> string \<Rightarrow> string option" where
  "fs_ReadFile fs p = (case fs_Stat fs p of Some (FFile s) \<Rightarrow> Some s | _ \<Rightarrow> None)"

definition fs_WriteFile :: "(location \<Rightarrow> bool) \<Rightarrow> string \<Rightarrow> string \<Rightarrow> fsys \<Rightarrow> fsys option" where
  "fs_WriteFile perm p content fs =
     Option.bind (locate fs kernelLinks [] (SplitByte p SLASH)) (\<lambda>r.
       if node_at fs r = Some FDir \<or> \<not> perm r then None else Some (fs(r \<mapsto> FFile content)))"

section \<open>Directories and entries\<close>

text \<open>\<open>filepath.Dir\<close> and the last component.\<close>

definition filepath_Dir :: "string \<Rightarrow> string" where
  "filepath_Dir p = filepath_Clean (rev (dropWhile (\<lambda>c. c \<noteq> SLASH) (rev p)))"

definition last_part :: "string \<Rightarrow> string" where
  "last_part p = rev (takeWhile (\<lambda>c. c \<noteq> SLASH) (rev p))"

text \<open>The entry a path names: the location of its directory with links followed, and the name in it.\<close>

definition entry_of :: "fsys \<Rightarrow> string \<Rightarrow> location option" where
  "entry_of fs p = Option.bind (walk fs kernelLinks [] (SplitByte (filepath_Dir p) SLASH)) (\<lambda>d.
     if node_at fs d = Some FDir then Some (d @ [last_part p]) else None)"

definition fs_Lstat :: "fsys \<Rightarrow> string \<Rightarrow> fnode option" where
  "fs_Lstat fs p = Option.bind (entry_of fs p) (node_at fs)"

definition fs_Mkdir :: "(location \<Rightarrow> bool) \<Rightarrow> string \<Rightarrow> fsys \<Rightarrow> fsys option" where
  "fs_Mkdir perm p fs = Option.bind (entry_of fs p) (\<lambda>r.
     if fs r = None \<and> perm r then Some (fs(r \<mapsto> FDir)) else None)"

text \<open>\<open>os.MkdirAll\<close> on a clean absolute path; the directories made before a failure remain.\<close>

function fs_MkdirAll :: "(location \<Rightarrow> bool) \<Rightarrow> location \<Rightarrow> fsys \<Rightarrow> bool \<times> fsys" where
  "fs_MkdirAll perm cs fs =
     (case fs_Stat fs (path_text cs) of
        Some FDir \<Rightarrow> (True, fs)
      | Some _ \<Rightarrow> (False, fs)
      | None \<Rightarrow>
          if cs = [] then (False, fs)
          else (case fs_MkdirAll perm (butlast cs) fs of
                  (False, fs1) \<Rightarrow> (False, fs1)
                | (True, fs1) \<Rightarrow>
                    (case fs_Mkdir perm (path_text cs) fs1 of
                       Some fs2 \<Rightarrow> (True, fs2)
                     | None \<Rightarrow> (fs_Lstat fs1 (path_text cs) = Some FDir, fs1))))"
  by pat_completeness auto
termination by (relation "measure (\<lambda>(perm, cs, fs). length cs)") auto

text \<open>Renaming a new temporary file over a path replaces the entry itself, also when it is a link.\<close>

definition fs_replace :: "(location \<Rightarrow> bool) \<Rightarrow> string \<Rightarrow> string \<Rightarrow> fsys \<Rightarrow> fsys option" where
  "fs_replace perm p content fs = Option.bind (entry_of fs p) (\<lambda>r.
     if fs r = Some FDir \<or> \<not> perm r then None else Some (fs(r \<mapsto> FFile content)))"


section \<open>Paths and their components\<close>

abbreviation plain_path :: "location \<Rightarrow> bool" where
  "plain_path cs \<equiv> \<forall>c\<in>set cs. plain_component c"

lemma walk_plain: "plain_component c \<Longrightarrow>
  walk fs n dir (c # cs) =
    (case fs (dir @ [c]) of
       None \<Rightarrow> None
     | Some FDir \<Rightarrow> walk fs n (dir @ [c]) cs
     | Some (FFile _) \<Rightarrow> if cs = [] then Some (dir @ [c]) else None
     | Some (FLink t) \<Rightarrow>
         if n = 0 then None else walk fs (n - 1) (if prefix ''/'' t then [] else dir) (SplitByte t SLASH @ cs))"
  by (simp add: plain_component_def)

lemma locate_plain: "plain_component c \<Longrightarrow>
  locate fs n dir (c # cs) =
    (case fs (dir @ [c]) of
       None \<Rightarrow> if cs = [] then Some (dir @ [c]) else None
     | Some FDir \<Rightarrow> locate fs n (dir @ [c]) cs
     | Some (FFile _) \<Rightarrow> if cs = [] then Some (dir @ [c]) else None
     | Some (FLink t) \<Rightarrow>
         if n = 0 then None else locate fs (n - 1) (if prefix ''/'' t then [] else dir) (SplitByte t SLASH @ cs))"
  by (simp add: plain_component_def)

declare walk.simps(2) [simp del] locate.simps(2) [simp del]

lemma SplitByte_path_text:
  assumes "plain_path cs"
  shows "SplitByte (path_text cs) SLASH = [] # (if cs = [] then [[]] else cs)"
proof -
  have "\<forall>c\<in>set cs. SLASH \<notin> set c" using assms by (auto simp: plain_component_def)
  then show ?thesis using SplitByte_Join [of cs SLASH] by (auto simp: path_text_def)
qed

lemma walk_path_text: "plain_path cs \<Longrightarrow> walk fs n [] (SplitByte (path_text cs) SLASH) = walk fs n [] cs"
  by (simp add: SplitByte_path_text walk.simps(2))

lemma locate_path_text: "plain_path cs \<Longrightarrow> locate fs n [] (SplitByte (path_text cs) SLASH) = locate fs n [] cs"
  by (simp add: SplitByte_path_text locate.simps(2))

lemma path_text_inj:
  assumes p: "plain_path cs" "plain_path ds"
  shows "path_text cs = path_text ds \<longleftrightarrow> cs = ds"
proof
  assume e: "path_text cs = path_text ds"
  have "[] # (if cs = [] then [[]] else cs) = [] # (if ds = [] then [[]] else ds)"
    unfolding SplitByte_path_text [OF p(1), symmetric] SplitByte_path_text [OF p(2), symmetric] e ..
  then have "(if cs = [] then [[]] else cs) = (if ds = [] then [[]] else ds)" by (rule list.inject [THEN iffD1, THEN conjunct2])
  moreover have "cs \<noteq> [[]]" using p(1) by (force simp: plain_component_def)
  moreover have "ds \<noteq> [[]]" using p(2) by (force simp: plain_component_def)
  ultimately show "cs = ds" by (simp split: if_splits)
qed simp

lemma Join_append: "xs \<noteq> [] \<Longrightarrow> ys \<noteq> [] \<Longrightarrow> Join (xs @ ys) sep = Join xs sep @ sep @ Join ys sep"
proof (induction xs sep rule: Join.induct)
  case (2 x sep)
  then show ?case by (cases ys) simp_all
qed simp_all

text \<open>Textual containment is containment of components.\<close>

lemma under_iff:
  assumes "plain_path cs" "plain_path ds" "ds \<noteq> []"
  shows "path_text cs = path_text ds \<or> prefix (path_text ds @ ''/'') (path_text cs) \<longleftrightarrow> prefix ds cs"
proof
  assume "prefix ds cs"
  then obtain es where es: "cs = ds @ es" by (auto simp: prefix_def)
  then show "path_text cs = path_text ds \<or> prefix (path_text ds @ ''/'') (path_text cs)"
    using assms(3) by (cases "es = []") (auto simp: path_text_def Join_append prefix_def)
next
  assume a: "path_text cs = path_text ds \<or> prefix (path_text ds @ ''/'') (path_text cs)"
  show "prefix ds cs"
  proof (cases "path_text cs = path_text ds")
    case True
    then show ?thesis using path_text_inj [OF assms(1,2)] by simp
  next
    case False
    with a obtain t where t: "path_text cs = path_text ds @ SLASH # t" by (auto simp: prefix_def)
    have ns: "\<forall>d\<in>set ds. SLASH \<notin> set d" using assms(2) by (auto simp: plain_component_def)
    have sp: "SplitByte (Join ds ''/'' @ SLASH # t) SLASH = ds @ SplitByte t SLASH"
      using assms(3) ns
    proof (induction ds "''/''" rule: Join.induct)
      case (2 x)
      then show ?case by (simp add: SplitByte_append)
    next
      case (3 x y zs)
      then show ?case using SplitByte_append [of SLASH x "Join (y # zs) ''/'' @ SLASH # t"] by simp
    qed simp
    have "cs \<noteq> []" using t by (auto simp: path_text_def)
    then have "cs = ds @ SplitByte t SLASH"
      using SplitByte_path_text [OF assms(1)] t sp by (simp add: path_text_def)
    then show ?thesis by simp
  qed
qed

text \<open>The directory and the last component of a clean path.\<close>

lemma rev_split:
  assumes "SLASH \<notin> set c"
  shows "dropWhile (\<lambda>x. x \<noteq> SLASH) (rev (u @ SLASH # c)) = SLASH # rev u"
    "takeWhile (\<lambda>x. x \<noteq> SLASH) (rev (u @ SLASH # c)) = rev c"
proof -
  have n: "x \<noteq> SLASH" if "x \<in> set (rev c)" for x using assms that by auto
  show "dropWhile (\<lambda>x. x \<noteq> SLASH) (rev (u @ SLASH # c)) = SLASH # rev u"
    using dropWhile_append2 [of "rev c" "\<lambda>x. x \<noteq> SLASH" "SLASH # rev u"] n by simp
  show "takeWhile (\<lambda>x. x \<noteq> SLASH) (rev (u @ SLASH # c)) = rev c"
    using takeWhile_append2 [of "rev c" "\<lambda>x. x \<noteq> SLASH" "SLASH # rev u"] n by simp
qed

lemma path_text_snoc: "path_text (cs @ [c]) = (if cs = [] then [] else path_text cs) @ SLASH # c"
  by (cases "cs = []") (simp_all add: path_text_def Join_append)

lemma last_part_snoc: "plain_component c \<Longrightarrow> last_part (path_text (cs @ [c])) = c"
  by (simp add: path_text_snoc last_part_def rev_split plain_component_def del: rev_append)

lemma Clean_trailing:
  assumes "plain_path cs"
  shows "filepath_Clean ((if cs = [] then [] else path_text cs) @ [SLASH]) = path_text cs"
proof (cases "cs = []")
  case True
  then show ?thesis by (simp add: path_text_def filepath_Clean_def clean_components_def clean_step_def)
next
  case False
  have ns: "\<forall>c\<in>set cs. SLASH \<notin> set c" using assms by (auto simp: plain_component_def)
  have "SplitByte (path_text cs @ [SLASH]) SLASH = [] # cs @ [[]]"
  proof -
    have "path_text cs @ [SLASH] = SLASH # Join (cs @ [[]]) ''/''" using False by (simp add: path_text_def Join_append)
    moreover have "SplitByte (Join (cs @ [[]]) ''/'') SLASH = cs @ [[]]" using SplitByte_Join [of "cs @ [[]]" SLASH] ns by simp
    ultimately show ?thesis by simp
  qed
  moreover have "clean_components True ([] # cs @ [[]]) = cs"
    using fold_clean_step_plain [OF assms, of True "[]"] by (simp add: clean_components_def clean_step_def)
  ultimately show ?thesis using False by (simp add: filepath_Clean_def path_text_def)
qed

lemma Dir_snoc: "plain_path cs \<Longrightarrow> plain_component c \<Longrightarrow> filepath_Dir (path_text (cs @ [c])) = path_text cs"
  using Clean_trailing [of cs]
  by (simp add: path_text_snoc filepath_Dir_def rev_split plain_component_def del: rev_append)

lemma Dir_root: "filepath_Dir (path_text []) = path_text []"
  by (simp add: path_text_def filepath_Dir_def filepath_Clean_def clean_components_def clean_step_def)


section \<open>Resolution\<close>

text \<open>More links may be followed, and more nodes may exist.\<close>

lemma walk_more:
  "walk fs n dir cs = Some r \<Longrightarrow> n \<le> n' \<Longrightarrow> fs \<subseteq>\<^sub>m fs' \<Longrightarrow> walk fs' n' dir cs = Some r"
proof (induction fs n dir cs arbitrary: n' rule: walk.induct)
  case (2 fs n dir c cs)
  show ?case
  proof (cases "c = [] \<or> c = ''.'' \<or> c = ''..''")
    case True
    then show ?thesis using 2 by (auto simp: walk.simps(2))
  next
    case False
    then obtain x where x: "fs (dir @ [c]) = Some x" using 2(5) by (auto simp: walk.simps(2) split: option.splits)
    then have "fs' (dir @ [c]) = Some x" using 2(7) by (metis domI map_le_def)
    note fs' = this
    show ?thesis
    proof (cases x)
      case (FLink t)
      let ?d = "if prefix ''/'' t then [] else dir"
      have w: "n \<noteq> 0" "walk fs (n - 1) ?d (SplitByte t SLASH @ cs) = Some r"
        using 2(5) False x FLink by (auto simp: walk.simps(2) split: if_splits)
      have "walk fs' (n' - 1) ?d (SplitByte t SLASH @ cs) = Some r"
        by (rule 2(4) [OF _ _ x FLink w(1,2)]) (use False 2(6,7) in auto)
      then show ?thesis using False fs' FLink w(1) 2(6) by (simp add: walk.simps(2))
    qed (use False x fs' 2 in \<open>auto simp: walk.simps(2) split: if_splits\<close>)
  qed
qed simp

lemmas walk_fuel = walk_more [OF _ _ map_le_refl]
lemmas walk_extend = walk_more [OF _ le_refl]

text \<open>A walk goes through the directory at which its first part ends.\<close>

lemma walk_append:
  "walk fs n dir (cs @ ds) = Some r \<Longrightarrow> \<exists>m e. m \<le> n \<and> walk fs n dir cs = Some e \<and> walk fs m e ds = Some r"
proof (induction fs n dir cs rule: walk.induct)
  case (2 fs n dir c cs)
  show ?case
  proof (cases "c = [] \<or> c = ''.'' \<or> c = ''..''")
    case True
    then show ?thesis using 2 by (auto simp: walk.simps(2))
  next
    case False
    then obtain x where x: "fs (dir @ [c]) = Some x" using 2(5) by (auto simp: walk.simps(2) split: option.splits)
    show ?thesis
    proof (cases x)
      case (FFile s)
      then show ?thesis using 2(5) False x by (auto simp: walk.simps(2) split: if_splits intro: exI [of _ n])
    next
      case FDir
      then show ?thesis using 2 False x by (auto simp: walk.simps(2))
    next
      case (FLink t)
      then have "n \<noteq> 0" using 2(5) False x by (auto simp: walk.simps(2) split: if_splits)
      moreover have "\<exists>m e. m \<le> n - 1 \<and> walk fs (n - 1) (if prefix ''/'' t then [] else dir) (SplitByte t SLASH @ cs) = Some e \<and>
        walk fs m e ds = Some r"
        using 2(4) [of x t] 2(5) False x FLink calculation by (auto simp: walk.simps(2))
      ultimately show ?thesis using False x FLink by (auto simp: walk.simps(2) intro: le_trans [OF _ diff_le_self])
    qed
  qed
qed auto

lemma node_at_root [simp]: "node_at fs [] = Some FDir"
  by (simp add: node_at_def)

lemma walk_node:
  assumes "walk fs n dir cs = Some r" "node_at fs dir = Some FDir" "\<And>p. prefix p dir \<Longrightarrow> node_at fs p = Some FDir"
  shows "node_at fs r \<noteq> None \<and> (\<forall>t. node_at fs r \<noteq> Some (FLink t)) \<and> (\<forall>p. strict_prefix p r \<longrightarrow> node_at fs p = Some FDir)"
  using assms
proof (induction fs n dir cs rule: walk.induct)
  case (1 fs n dir)
  then show ?case by (auto simp: strict_prefix_def)
next
  case (2 fs n dir c cs)
  show ?case
  proof (cases "c = [] \<or> c = ''.'' \<or> c = ''..''")
    case True
    have "node_at fs p = Some FDir" if "prefix p (butlast dir)" for p
      using 2(7) that prefix_order.trans [OF that prefixeq_butlast] by blast
    then show ?thesis using True 2 by (auto simp: walk.simps(2))
  next
    case False
    then obtain x where x: "fs (dir @ [c]) = Some x" using 2(5) by (auto simp: walk.simps(2) split: option.splits)
    have pre: "strict_prefix p (dir @ [c]) \<Longrightarrow> node_at fs p = Some FDir" for p using 2(7) by (auto simp: strict_prefix_def)
    show ?thesis
    proof (cases x)
      case (FFile s)
      then have "r = dir @ [c]" using 2(5) False x by (auto simp: walk.simps(2) split: if_splits)
      then show ?thesis using x FFile pre by (auto simp: node_at_def)
    next
      case FDir
      have "node_at fs p = Some FDir" if "prefix p (dir @ [c])" for p
        using that pre x FDir by (cases "p = dir @ [c]") (auto simp: node_at_def strict_prefix_def)
      then show ?thesis using 2(3) [OF _ _ x] 2(5) False FDir x by (auto simp: walk.simps(2))
    next
      case (FLink t)
      then have w: "n \<noteq> 0" "walk fs (n - 1) (if prefix ''/'' t then [] else dir) (SplitByte t SLASH @ cs) = Some r"
        using 2(5) False x by (auto simp: walk.simps(2) split: if_splits)
      show ?thesis
        by (rule 2(4) [OF _ _ x FLink w]) (use False 2(6,7) in \<open>auto split: if_splits\<close>)
    qed
  qed
qed


lemma walk_through:
  "walk fs n dir cs = Some d \<Longrightarrow> node_at fs d = Some FDir \<Longrightarrow>
   \<exists>m\<le>n. \<forall>ds. walk fs n dir (cs @ ds) = walk fs m d ds \<and> locate fs n dir (cs @ ds) = locate fs m d ds"
proof (induction fs n dir cs rule: walk.induct)
  case (2 fs n dir c cs)
  show ?case
  proof (cases "c = [] \<or> c = ''.'' \<or> c = ''..''")
    case True
    define e where "e = (if c = ''..'' then butlast dir else dir)"
    have e: "walk fs n dir (c # xs) = walk fs n e xs" "locate fs n dir (c # xs) = locate fs n e xs" for xs
      using True by (auto simp: e_def walk.simps(2) locate.simps(2))
    have "\<exists>m\<le>n. \<forall>ds. walk fs n e (cs @ ds) = walk fs m d ds \<and> locate fs n e (cs @ ds) = locate fs m d ds"
      using 2(1,2,5,6) True by (cases "c = ''..''") (auto simp: e_def walk.simps(2))
    then show ?thesis by (simp add: e)
  next
    case False
    then obtain x where x: "fs (dir @ [c]) = Some x" using 2(5) by (auto simp: walk.simps(2) split: option.splits)
    show ?thesis
    proof (cases x)
      case (FFile s)
      then have "d = dir @ [c]" using 2(5) False x by (auto simp: walk.simps(2) split: if_splits)
      then show ?thesis using 2(6) x FFile by (simp add: node_at_def)
    next
      case FDir
      then show ?thesis using 2(3) [OF _ _ x FDir] 2(5,6) False x by (auto simp: walk.simps(2) locate.simps(2))
    next
      case (FLink t)
      let ?d = "if prefix ''/'' t then [] else dir"
      have w: "n \<noteq> 0" "walk fs (n - 1) ?d (SplitByte t SLASH @ cs) = Some d"
        using 2(5) False x FLink by (auto simp: walk.simps(2) split: if_splits)
      have "\<exists>m\<le>n - 1. \<forall>ds. walk fs (n - 1) ?d ((SplitByte t SLASH @ cs) @ ds) = walk fs m d ds \<and>
          locate fs (n - 1) ?d ((SplitByte t SLASH @ cs) @ ds) = locate fs m d ds"
        by (rule 2(4) [OF _ _ x FLink w 2(6)]) (use False in auto)
      then show ?thesis using False x FLink w(1)
        by (auto simp: walk.simps(2) locate.simps(2) intro: le_trans [OF _ diff_le_self])
    qed
  qed
qed auto

lemma walk_comps:
  "walk fs n dir cs = Some r \<Longrightarrow> plain_path dir \<Longrightarrow> \<forall>c\<in>set cs. SLASH \<notin> set c \<Longrightarrow> plain_path r"
proof (induction fs n dir cs rule: walk.induct)
  case (2 fs n dir c cs)
  show ?case
  proof (cases "c = [] \<or> c = ''.'' \<or> c = ''..''")
    case True
    then show ?thesis using 2(1,2,5-) in_set_butlastD [of _ dir] by (auto simp: walk.simps(2))
  next
    case False
    then obtain x where x: "fs (dir @ [c]) = Some x" using 2(5) by (auto simp: walk.simps(2) split: option.splits)
    have c: "plain_component c" using False 2(7) by (simp add: plain_component_def)
    show ?thesis
    proof (cases x)
      case (FLink t)
      let ?d = "if prefix ''/'' t then [] else dir"
      have w: "n \<noteq> 0" "walk fs (n - 1) ?d (SplitByte t SLASH @ cs) = Some r"
        using 2(5) False x FLink by (auto simp: walk.simps(2) split: if_splits)
      show ?thesis
        by (rule 2(4) [OF _ _ x FLink w]) (use False 2(6,7) SplitByte_no_sep in auto)
    qed (use 2(3) [OF _ _ x] 2(5-) False x c in \<open>auto simp: walk.simps(2) split: if_splits\<close>)
  qed
qed simp

text \<open>A directory that is where its path says: no component is a link.\<close>

definition real_dir :: "fsys \<Rightarrow> location \<Rightarrow> bool" where
  "real_dir fs r \<longleftrightarrow> plain_path r \<and> (\<forall>p. prefix p r \<longrightarrow> node_at fs p = Some FDir)"

lemma walk_real_from:
  "plain_path cs \<Longrightarrow> (\<And>p. prefix p cs \<Longrightarrow> node_at fs (dir @ p) = Some FDir) \<Longrightarrow>
   walk fs n dir (cs @ ds) = walk fs n (dir @ cs) ds"
proof (induction cs arbitrary: dir)
  case (Cons c cs)
  have "fs (dir @ [c]) = Some FDir" using Cons(3) [of "[c]"] by (simp add: node_at_def)
  moreover have "node_at fs ((dir @ [c]) @ p) = Some FDir" if "prefix p cs" for p using Cons(3) [of "c # p"] that by simp
  ultimately show ?case using Cons(1) [of "dir @ [c]"] Cons(2) by (simp add: walk_plain)
qed simp

lemma walk_real: "real_dir fs r \<Longrightarrow> walk fs n [] (r @ ds) = walk fs n r ds"
  using walk_real_from [of r fs "[]"] by (simp add: real_dir_def)

lemma walk_result_real:
  assumes "walk fs n [] cs = Some r" "\<forall>c\<in>set cs. SLASH \<notin> set c"
  shows "plain_path r" "node_at fs r \<noteq> None" "node_at fs r = Some FDir \<Longrightarrow> real_dir fs r"
proof -
  show p: "plain_path r" using walk_comps [OF assms(1)] assms(2) by simp
  have n: "node_at fs r \<noteq> None" "\<forall>p. strict_prefix p r \<longrightarrow> node_at fs p = Some FDir" using walk_node [OF assms(1)] by auto
  show "node_at fs r \<noteq> None" using n(1) .
  show "real_dir fs r" if "node_at fs r = Some FDir"
    unfolding real_dir_def using p n(2) that by (metis strict_prefix_def)
qed

section \<open>Making directories\<close>

text \<open>Entries of a clean path.\<close>

lemma entry_of_snoc:
  assumes "plain_path cs" "plain_component c"
  shows "entry_of fs (path_text (cs @ [c])) =
    Option.bind (walk fs kernelLinks [] cs) (\<lambda>d. if node_at fs d = Some FDir then Some (d @ [c]) else None)"
  unfolding entry_of_def Dir_snoc [OF assms] last_part_snoc [OF assms(2)] walk_path_text [OF assms(1)] ..

lemma Stat_path: "plain_path cs \<Longrightarrow> fs_Stat fs (path_text cs) = Option.bind (walk fs kernelLinks [] cs) (node_at fs)"
  by (simp add: fs_Stat_def walk_path_text)

text \<open>A path that can be walked with any number of links has nothing left to make.\<close>

lemma walk_entry:
  assumes "walk fs n [] (cs @ [c]) = Some r" "walk fs m [] cs = Some d" "m \<le> n" "plain_component c"
  shows "fs (d @ [c]) \<noteq> None"
proof -
  obtain k where "walk fs k d [c] = Some r"
    using walk_append [OF assms(1)] walk_fuel [OF assms(2,3)] by auto
  then show ?thesis using assms(4) by (auto simp: walk_plain split: option.splits)
qed

declare fs_MkdirAll.simps [simp del]

lemma MkdirAll_existing:
  assumes "walk fs evalLinks [] cs = Some r" "plain_path cs"
  shows "snd (fs_MkdirAll perm cs fs) = fs"
  using assms
proof (induction cs arbitrary: r rule: rev_induct)
  case Nil
  then show ?case by (subst fs_MkdirAll.simps) (simp add: Stat_path [of "[]", simplified] path_text_def split: option.split fnode.split)
next
  case (snoc c cs)
  have pl: "plain_path cs" "plain_component c" using snoc(3) by auto
  obtain d where d: "walk fs evalLinks [] cs = Some d" using walk_append [OF snoc(2)] by auto
  note IH = snoc(1) [OF d pl(1)]
  have none: "fs_Mkdir perm (path_text (cs @ [c])) fs = None"
  proof (cases "walk fs kernelLinks [] cs")
    case (Some d')
    have "fs (d' @ [c]) \<noteq> None"
      by (rule walk_entry [OF snoc(2) Some _ pl(2)]) (simp add: kernelLinks_def evalLinks_def)
    then show ?thesis using Some by (auto simp: fs_Mkdir_def entry_of_snoc [OF pl])
  qed (simp add: fs_Mkdir_def entry_of_snoc [OF pl])
  obtain b fs1 where m: "fs_MkdirAll perm cs fs = (b, fs1)" by fastforce
  then have "fs1 = fs" using IH by simp
  then show ?case using m none by (subst fs_MkdirAll.simps) (auto split: option.split fnode.split bool.split)
qed


lemma walk_child:
  assumes "walk fs n dir cs = Some d" "node_at fs d = Some FDir" "plain_component c" "fs (d @ [c]) = Some FDir"
  shows "walk fs n dir (cs @ [c]) = Some (d @ [c])"
proof -
  obtain m where "walk fs n dir (cs @ [c]) = walk fs m d [c]" using walk_through [OF assms(1,2)] by blast
  then show ?thesis using assms(3,4) by (simp add: walk_plain)
qed

lemma links_le: "kernelLinks \<le> evalLinks"
  by (simp add: kernelLinks_def evalLinks_def)

lemma MkdirAll_walked:
  assumes w: "walk fs evalLinks [] cs = Some a" and p: "plain_path cs" and m: "fs_MkdirAll perm cs fs = (True, fs1)"
  shows "walk fs kernelLinks [] cs = Some a \<and> node_at fs a = Some FDir"
proof (cases "fs_Stat fs (path_text cs)")
  case (Some x)
  then obtain d where d: "walk fs kernelLinks [] cs = Some d" "node_at fs d = Some x"
    by (auto simp: Stat_path [OF p] split: bind_splits)
  moreover have "d = a" using walk_fuel [OF d(1) links_le] w by simp
  moreover have "x = FDir" using m Some by (subst (asm) fs_MkdirAll.simps) (auto split: fnode.splits)
  ultimately show ?thesis by simp
next
  case None
  obtain cs' c where cs: "cs = cs' @ [c]"
    using None by (cases cs rule: rev_cases) (auto simp: Stat_path [of "[]", simplified])
  have pl: "plain_path cs'" "plain_component c" using p cs by auto
  obtain b fs2 where rec: "fs_MkdirAll perm cs' fs = (b, fs2)" by fastforce
  obtain e where "walk fs evalLinks [] cs' = Some e" using walk_append [OF w [unfolded cs]] by auto
  then have fs2: "fs2 = fs" using MkdirAll_existing [of fs cs' e perm] pl(1) rec by simp
  have "fs_Mkdir perm (path_text cs) fs = None"
  proof (cases "walk fs kernelLinks [] cs'")
    case (Some d)
    have "fs (d @ [c]) \<noteq> None" by (rule walk_entry [OF w [unfolded cs] Some links_le pl(2)])
    then show ?thesis using Some by (auto simp: fs_Mkdir_def cs entry_of_snoc [OF pl])
  qed (simp add: fs_Mkdir_def cs entry_of_snoc [OF pl])
  then have "fs_Lstat fs (path_text cs) = Some FDir"
    using m None rec fs2 cs by (subst (asm) fs_MkdirAll.simps) (auto split: bool.splits)
  then obtain d where d: "walk fs kernelLinks [] cs' = Some d" "node_at fs d = Some FDir" "fs (d @ [c]) = Some FDir"
    by (auto simp: fs_Lstat_def cs entry_of_snoc [OF pl] node_at_def split: bind_splits if_splits)
  have "fs_Stat fs (path_text cs) = Some FDir"
    using walk_child [OF d(1,2) pl(2) d(3)] d(3) p by (simp add: Stat_path cs node_at_def)
  with None show ?thesis by simp
qed

text \<open>Directories made on the way to a path are below the last ancestor that exists.\<close>

lemma MkdirAll_below:
  assumes w: "walk fs evalLinks [] ps = Some a" and p: "plain_path (ps @ ys)"
    and gone: "\<And>zs z. prefix (zs @ [z]) ys \<Longrightarrow> walk fs evalLinks [] (ps @ zs @ [z]) = None"
    and m: "fs_MkdirAll perm (ps @ ys) fs = (b, fs1)"
  shows "fs \<subseteq>\<^sub>m fs1 \<and> (\<forall>l. fs1 l \<noteq> fs l \<longrightarrow> ys \<noteq> [] \<and> prefix (a @ [hd ys]) l \<and> fs1 l = Some FDir) \<and>
    (b \<longrightarrow> walk fs1 kernelLinks [] (ps @ ys) = Some (a @ ys) \<and> node_at fs1 (a @ ys) = Some FDir)"
  using p gone m
proof (induction ys arbitrary: b fs1 rule: rev_induct)
  case Nil
  have pl: "plain_path ps" using Nil(1) by simp
  have "fs1 = fs" using MkdirAll_existing [OF w pl, of perm] Nil(3) by simp
  then show ?case using MkdirAll_walked [OF w pl] Nil(3) by (cases b) simp_all
next
  case (snoc y ys)
  have pl: "plain_path (ps @ ys)" "plain_component y" using snoc(2) by auto
  obtain b' fs' where rec: "fs_MkdirAll perm (ps @ ys) fs = (b', fs')" by fastforce
  have IH: "fs \<subseteq>\<^sub>m fs'" "\<And>l. fs' l \<noteq> fs l \<Longrightarrow> ys \<noteq> [] \<and> prefix (a @ [hd ys]) l \<and> fs' l = Some FDir"
    "b' \<Longrightarrow> walk fs' kernelLinks [] (ps @ ys) = Some (a @ ys) \<and> node_at fs' (a @ ys) = Some FDir"
    using snoc(1) [OF pl(1) snoc(3) [OF prefix_prefix] rec] by auto
  have "walk fs evalLinks [] (ps @ ys @ [y]) = None" using snoc(3) [of ys y] by simp
  then have "walk fs kernelLinks [] (ps @ ys @ [y]) = None"
    using walk_fuel [OF _ links_le, of fs "[]" "ps @ ys @ [y]"] by (cases "walk fs kernelLinks [] (ps @ ys @ [y])") simp_all
  then have none: "fs_Stat fs (path_text (ps @ ys @ [y])) = None" using Stat_path [OF snoc(2)] by simp
  note step = snoc(4) [unfolded fs_MkdirAll.simps [of perm "ps @ ys @ [y]"] none]
  show ?case
  proof (cases b')
    case False
    then show ?thesis using step rec IH by (auto simp: butlast_append)
  next
    case True
    note w' = IH(3) [OF True]
    let ?r = "a @ ys @ [y]"
    have en: "entry_of fs' (path_text (ps @ ys @ [y])) = Some ?r" using entry_of_snoc [OF pl] w' by simp
    show ?thesis
    proof (cases "fs' ?r = None \<and> perm ?r")
      case made: True
      let ?fs = "fs'(?r \<mapsto> FDir)"
      have r: "b" "fs1 = ?fs" using step rec True made en by (auto simp: butlast_append fs_Mkdir_def)
      have le: "fs' \<subseteq>\<^sub>m ?fs" using made by (auto simp: map_le_def)
      have "node_at ?fs (a @ ys) = Some FDir" using conjunct2 [OF w'] by (auto simp: node_at_def split: if_splits)
      with walk_child [OF walk_extend [OF conjunct1 [OF w'] le] this pl(2)]
      have "walk ?fs kernelLinks [] (ps @ ys @ [y]) = Some ?r" by simp
      moreover have "prefix (a @ [hd (ys @ [y])]) l \<and> ?fs l = Some FDir" if "?fs l \<noteq> fs l" for l
        using that IH(2) [of l] by (cases "l = ?r"; cases ys) auto
      moreover have "node_at ?fs ?r = Some FDir" by (simp add: node_at_def)
      ultimately show ?thesis unfolding r(2) using map_le_trans [OF IH(1) le] by blast
    next
      case False
      have r: "b = (node_at fs' ?r = Some FDir)" "fs1 = fs'"
        using step rec True False en by (auto simp: butlast_append fs_Mkdir_def fs_Lstat_def)
      have "walk fs' kernelLinks [] (ps @ ys @ [y]) = Some ?r" if b
        using walk_child [OF conjunct1 [OF w'] conjunct2 [OF w'] pl(2)] that r(1) by (simp add: node_at_def)
      then show ?thesis using r IH(1,2) by auto
    qed
  qed
qed


text \<open>Where every node is there, creating finds what resolving finds.\<close>

lemma locate_walk:
  "walk fs n dir cs = Some r \<Longrightarrow> n' \<le> n \<Longrightarrow> locate fs n' dir cs = walk fs n' dir cs"
proof (induction fs n dir cs arbitrary: n' rule: walk.induct)
  case (2 fs n dir c cs)
  show ?case
  proof (cases "c = [] \<or> c = ''.'' \<or> c = ''..''")
    case True
    then show ?thesis using 2(1,2,5,6) by (auto simp: walk.simps(2) locate.simps(2))
  next
    case False
    then obtain x where x: "fs (dir @ [c]) = Some x" using 2(5) by (auto simp: walk.simps(2) split: option.splits)
    show ?thesis
    proof (cases x)
      case (FLink t)
      let ?d = "if prefix ''/'' t then [] else dir"
      have w: "n \<noteq> 0" "walk fs (n - 1) ?d (SplitByte t SLASH @ cs) = Some r"
        using 2(5) False x FLink by (auto simp: walk.simps(2) split: if_splits)
      have "locate fs (n' - 1) ?d (SplitByte t SLASH @ cs) = walk fs (n' - 1) ?d (SplitByte t SLASH @ cs)"
        by (rule 2(4) [OF _ _ x FLink w]) (use False 2(6) in auto)
      then show ?thesis using False x FLink by (simp add: walk.simps(2) locate.simps(2))
    qed (use 2(3) [OF _ _ x] 2(5,6) False x in \<open>auto simp: walk.simps(2) locate.simps(2)\<close>)
  qed
qed simp

definition fs_tree :: "fsys \<Rightarrow> bool" where
  "fs_tree fs \<longleftrightarrow> (\<forall>l c. fs (l @ [c]) \<noteq> None \<longrightarrow> node_at fs l = Some FDir)"

lemma fs_tree_prefix:
  assumes "fs_tree fs" "fs l \<noteq> None" "strict_prefix p l"
  shows "node_at fs p = Some FDir"
proof -
  obtain c q where l: "l = p @ c # q" using assms(3) by (auto elim: strict_prefixE')
  have "fs (p @ c # q) \<noteq> None \<Longrightarrow> node_at fs p = Some FDir" for q
  proof (induction q rule: rev_induct)
    case Nil
    then show ?case using assms(1) by (auto simp: fs_tree_def)
  next
    case (snoc x q)
    then have "node_at fs (p @ c # q) = Some FDir" using assms(1) by (auto simp: fs_tree_def dest: spec [of _ "p @ c # q"])
    then show ?case using snoc(1) by (simp add: node_at_def)
  qed
  then show ?thesis using assms(2) l by blast
qed

end
