(* ===== verification/File_Tools.thy ===== *)
theory File_Tools
  imports File_System
begin

text \<open>
  The file tools of an agent, \<open>src/internal/agent/tools\<close>: the confinement of paths (\<open>resolve.go\<close>) and the
  tools \<open>Read\<close>, \<open>Write\<close> and \<open>Edit\<close>, on a file system with symbolic links.  Nothing else changes the file
  system during a call.  A sandbox of the kernel, where there is one, is part of the permissions; the
  theorems hold without it.
\<close>

section \<open>Confinement of paths\<close>

definition resolvePath :: "string \<Rightarrow> string \<Rightarrow> string" where
  "resolvePath workingDir path =
     (if prefix ''/'' path then filepath_Clean path else filepath_Clean (filepath_Join [workingDir, path]))"

definition under :: "string \<Rightarrow> string \<Rightarrow> bool" where
  "under root path \<longleftrightarrow> path = root \<or> prefix (root @ ''/'') path"

definition isInsideRoots :: "fsys \<Rightarrow> string \<Rightarrow> string list \<Rightarrow> bool" where
  "isInsideRoots fs path roots =
     list_ex (\<lambda>root. under root path \<or>
       (case EvalSymlinks fs root of Some realRoot \<Rightarrow> realRoot \<noteq> root \<and> under realRoot path | None \<Rightarrow> False)) roots"

partial_function (option) nearestInsideAncestor ::
  "fsys \<Rightarrow> string list \<Rightarrow> string \<Rightarrow> (string \<times> string) option option" where
  "nearestInsideAncestor fs roots cur =
     (if cur = [] \<or> cur = ''.'' then Some None
      else if \<not> isInsideRoots fs cur roots then Some None
      else case EvalSymlinks fs cur of
             Some resolved \<Rightarrow> Some (Some (cur, resolved))
           | None \<Rightarrow> if cur = ''/'' then Some None else nearestInsideAncestor fs roots (filepath_Dir cur))"

datatype confine_error = OutsideWorkspace | SymlinkOutside | AncestorOutside

definition confineTo :: "fsys \<Rightarrow> string \<Rightarrow> string \<Rightarrow> string list \<Rightarrow> (confine_error + string) option" where
  "confineTo fs workingDir path roots =
     (let resolved = resolvePath workingDir path in
      if roots = [] then Some (Inr resolved)
      else if \<not> isInsideRoots fs resolved roots then Some (Inl OutsideWorkspace)
      else case EvalSymlinks fs resolved of
             Some realPath \<Rightarrow>
               Some (if isInsideRoots fs realPath roots then Inr resolved else Inl SymlinkOutside)
           | None \<Rightarrow>
               map_option (\<lambda>r. case r of
                   Some (lexAncestor, realAncestor) \<Rightarrow>
                     if lexAncestor \<noteq> realAncestor \<and> \<not> isInsideRoots fs realAncestor roots
                     then Inl AncestorOutside else Inr resolved
                 | None \<Rightarrow> Inr resolved)
                 (nearestInsideAncestor fs roots (filepath_Dir resolved)))"

section \<open>The tools\<close>

datatype file_reply =
    FilePathRequired | AccessDenied confine_error | FileExists | MkdirFailed | WriteFailed | FileNotFound
  | ReadFailed | OldNotFound | NoChange | NotUnique | FileTooLarge | OffsetBeyond
  | CreatedFile | EditedFile | ReplacedIn nat | WroteBytes nat | FileText string

definition mkdirFor :: "(location \<Rightarrow> bool) \<Rightarrow> string \<Rightarrow> fsys \<Rightarrow> bool \<times> fsys" where
  "mkdirFor perm filePath fs =
     (let dir = filepath_Dir filePath in
      if dir = ''.'' \<or> dir = [] then (True, fs)
      else fs_MkdirAll perm (filter (\<lambda>c. c \<noteq> []) (SplitByte dir SLASH)) fs)"

definition atomicWriteFile :: "(location \<Rightarrow> bool) \<Rightarrow> string \<Rightarrow> string \<Rightarrow> fsys \<Rightarrow> fsys option" where
  "atomicWriteFile perm path content fs = fs_replace perm path content fs"

definition tool_Write ::
  "(location \<Rightarrow> bool) \<Rightarrow> string list \<Rightarrow> string \<Rightarrow> string \<Rightarrow> string \<Rightarrow> fsys \<Rightarrow> (file_reply \<times> fsys) option" where
  "tool_Write perm roots workingDir filePath content fs =
     (if filePath = [] then Some (FilePathRequired, fs)
      else map_option (\<lambda>c. case c of
          Inl e \<Rightarrow> (AccessDenied e, fs)
        | Inr path \<Rightarrow>
            (case mkdirFor perm path fs of
               (False, fs1) \<Rightarrow> (MkdirFailed, fs1)
             | (True, fs1) \<Rightarrow>
                 (case atomicWriteFile perm path content fs1 of
                    None \<Rightarrow> (WriteFailed, fs1)
                  | Some fs2 \<Rightarrow> (WroteBytes (length content), fs2))))
        (confineTo fs workingDir filePath roots))"

definition createFile :: "(location \<Rightarrow> bool) \<Rightarrow> string \<Rightarrow> string \<Rightarrow> fsys \<Rightarrow> file_reply \<times> fsys" where
  "createFile perm filePath content fs =
     (if fs_Stat fs filePath \<noteq> None then (FileExists, fs)
      else case mkdirFor perm filePath fs of
             (False, fs1) \<Rightarrow> (MkdirFailed, fs1)
           | (True, fs1) \<Rightarrow>
               (case fs_WriteFile perm filePath content fs1 of
                  None \<Rightarrow> (WriteFailed, fs1)
                | Some fs2 \<Rightarrow> (CreatedFile, fs2)))"

text \<open>\<open>strings.Index\<close>, \<open>strings.Count\<close> and \<open>strings.ReplaceAll\<close> for a nonempty pattern.\<close>

definition string_Index :: "string \<Rightarrow> string \<Rightarrow> nat option" where
  "string_Index s sub = find (\<lambda>i. prefix sub (drop i s)) [0..<Suc (length s)]"

function string_Count :: "string \<Rightarrow> string \<Rightarrow> nat" where
  "string_Count sub s =
     (if s = [] \<or> sub = [] then 0
      else if prefix sub s then Suc (string_Count sub (drop (length sub) s)) else string_Count sub (tl s))"
  by pat_completeness auto
termination by (relation "measure (\<lambda>(sub, s). length s)") auto

function string_ReplaceAll :: "string \<Rightarrow> string \<Rightarrow> string \<Rightarrow> string" where
  "string_ReplaceAll old new s =
     (if s = [] \<or> old = [] then s
      else if prefix old s then new @ string_ReplaceAll old new (drop (length old) s)
      else hd s # string_ReplaceAll old new (tl s))"
  by pat_completeness auto
termination by (relation "measure (\<lambda>(old, new, s). length s)") auto

definition edited :: "string \<Rightarrow> string \<Rightarrow> bool \<Rightarrow> string \<Rightarrow> file_reply + file_reply \<times> string" where
  "edited oldString newString replaceAll content =
     (if replaceAll then
        let count = string_Count oldString content;
            newContent = string_ReplaceAll oldString newString content
        in if count = 0 then Inl OldNotFound
           else if content = newContent then Inl NoChange
           else Inr (ReplacedIn count, newContent)
      else case string_Index content oldString of
             None \<Rightarrow> Inl OldNotFound
           | Some index \<Rightarrow>
               if LastIndex content oldString \<noteq> Some index then Inl NotUnique
               else Inr (EditedFile, take index content @ newString @ drop (index + length oldString) content))"

definition editFile ::
  "(location \<Rightarrow> bool) \<Rightarrow> string \<Rightarrow> string \<Rightarrow> string \<Rightarrow> bool \<Rightarrow> fsys \<Rightarrow> file_reply \<times> fsys" where
  "editFile perm filePath oldString newString replaceAll fs =
     (if fs_Stat fs filePath = None then (FileNotFound, fs)
      else case fs_ReadFile fs filePath of
             None \<Rightarrow> (ReadFailed, fs)
           | Some content \<Rightarrow>
               (case edited oldString newString replaceAll content of
                  Inl r \<Rightarrow> (r, fs)
                | Inr (r, newContent) \<Rightarrow>
                    (case fs_WriteFile perm filePath newContent fs of
                       None \<Rightarrow> (WriteFailed, fs)
                     | Some fs' \<Rightarrow> (r, fs'))))"

definition tool_Edit ::
  "(location \<Rightarrow> bool) \<Rightarrow> string list \<Rightarrow> string \<Rightarrow> string \<Rightarrow> string \<Rightarrow> string \<Rightarrow> bool \<Rightarrow> fsys \<Rightarrow> (file_reply \<times> fsys) option" where
  "tool_Edit perm roots workingDir filePath oldString newString replaceAll fs =
     (if filePath = [] then Some (FilePathRequired, fs)
      else map_option (\<lambda>c. case c of
          Inl e \<Rightarrow> (AccessDenied e, fs)
        | Inr path \<Rightarrow>
            if oldString = [] then createFile perm path newString fs
            else editFile perm path oldString newString replaceAll fs)
        (confineTo fs workingDir filePath roots))"

definition maxFileSize :: nat where "maxFileSize = 10 * 1024 * 1024"

definition maxFileReadLen :: nat where "maxFileReadLen = 64000"

definition pad4 :: "nat \<Rightarrow> string" where
  "pad4 n = (let d = nat_digits n in replicate (4 - length d) (CHR '' '') @ d)"

definition numbered :: "int \<Rightarrow> int \<Rightarrow> string \<Rightarrow> file_reply" where
  "numbered offset limit content =
     (let lines = SplitByte content (CHR 0x0A);
          start = (if offset > 0 then nat (offset - 1) else 0)
      in if start \<ge> length lines then OffsetBeyond
         else let ls = drop start lines;
                  ls' = (if limit > 0 \<and> limit < int (length ls) then take (nat limit) ls else ls);
                  result = concat (map (\<lambda>(i, l). pad4 (start + i + 1) @ [CHR 0x09] @ l @ [CHR 0x0A]) (enumerate 0 ls'))
              in FileText (if length result > maxFileReadLen
                           then take maxFileReadLen result @ [CHR 0x0A] @ ''[output truncated]'' else result))"

definition tool_Read :: "string list \<Rightarrow> string \<Rightarrow> string \<Rightarrow> int \<Rightarrow> int \<Rightarrow> fsys \<Rightarrow> file_reply option" where
  "tool_Read roots workingDir filePath offset limit fs =
     (if filePath = [] then Some FilePathRequired
      else map_option (\<lambda>c. case c of
          Inl e \<Rightarrow> AccessDenied e
        | Inr path \<Rightarrow>
            (case fs_Stat fs path of
               None \<Rightarrow> ReadFailed
             | Some node \<Rightarrow>
                 if (case node of FFile s \<Rightarrow> length s > maxFileSize | _ \<Rightarrow> False) then FileTooLarge
                 else case fs_ReadFile fs path of
                        None \<Rightarrow> ReadFailed
                      | Some data \<Rightarrow> numbered offset limit data))
        (confineTo fs workingDir filePath roots))"


section \<open>Roots\<close>

text \<open>The locations of the allowed roots: files, directories or missing, but not links, in directories that
  are where their path says.\<close>

definition roots_ok :: "fsys \<Rightarrow> location list \<Rightarrow> bool" where
  "roots_ok fs rs \<longleftrightarrow> rs \<noteq> [] \<and>
     (\<forall>r\<in>set rs. r \<noteq> [] \<and> plain_path r \<and> real_dir fs (butlast r) \<and> (\<forall>t. fs r \<noteq> Some (FLink t)))"

definition inside :: "location list \<Rightarrow> location \<Rightarrow> bool" where
  "inside rs l \<longleftrightarrow> (\<exists>r\<in>set rs. prefix r l)"

lemma inside_mono: "inside rs a \<Longrightarrow> prefix a l \<Longrightarrow> inside rs l"
  unfolding inside_def using prefix_order.trans by blast

lemma Eval_path: "plain_path cs \<Longrightarrow> EvalSymlinks fs (path_text cs) = map_option path_text (walk fs evalLinks [] cs)"
  by (simp add: EvalSymlinks_def walk_path_text)

lemma root_walk:
  assumes "roots_ok fs rs" "r \<in> set rs"
  shows "walk fs n [] r = None \<or> walk fs n [] r = Some r"
proof -
  have r: "r \<noteq> []" "plain_path r" "real_dir fs (butlast r)" "\<forall>t. fs r \<noteq> Some (FLink t)" using assms by (auto simp: roots_ok_def)
  have "walk fs n [] r = walk fs n (butlast r) [last r]" using walk_real [OF r(3), of n "[last r]"] r(1) by simp
  also have "... = None \<or> ... = Some r"
    using walk_plain [of "last r" fs n "butlast r" "[]"] r by (auto split: option.split fnode.split)
  finally show ?thesis .
qed

lemma isInside_iff:
  assumes r: "roots_ok fs rs" and p: "plain_path cs"
  shows "isInsideRoots fs (path_text cs) (map path_text rs) \<longleftrightarrow> inside rs cs"
proof -
  have "(EvalSymlinks fs (path_text x) = None \<or> EvalSymlinks fs (path_text x) = Some (path_text x)) \<and>
      (under (path_text x) (path_text cs) \<longleftrightarrow> prefix x cs)" if "x \<in> set rs" for x
  proof -
    have x: "x \<noteq> []" "plain_path x" using r that by (auto simp: roots_ok_def)
    show ?thesis using Eval_path [OF x(2), of fs] root_walk [OF r that, of evalLinks] under_iff [OF p x(2,1)]
      by (auto simp: under_def)
  qed
  then show ?thesis by (fastforce simp: isInsideRoots_def list_ex_iff inside_def split: option.splits)
qed

lemma resolvePath_plain:
  assumes "prefix ''/'' wd"
  shows "\<exists>cs. resolvePath wd path = path_text cs \<and> plain_path cs"
proof -
  have "prefix ''/'' (filepath_Join [wd, path])"
    using assms filepath_Clean_rooted [of "wd @ SLASH # path"] by (auto simp: filepath_Join_def prefix_def)
  then show ?thesis using filepath_Clean_rooted by (auto simp: resolvePath_def path_text_def)
qed

lemma nearest_of:
  assumes roots: "roots_ok fs rs"
  shows "plain_path cs \<Longrightarrow> inside rs cs \<Longrightarrow> walk fs evalLinks [] cs = None \<Longrightarrow>
    \<exists>ps ys c a. cs = ps @ ys @ [c] \<and> walk fs evalLinks [] ps = Some a \<and>
      (\<forall>zs z. prefix (zs @ [z]) ys \<longrightarrow> walk fs evalLinks [] (ps @ zs @ [z]) = None) \<and>
      (let near = nearestInsideAncestor fs (map path_text rs) (path_text (butlast cs)) in
       near = Some (Some (path_text ps, path_text a)) \<and> inside rs ps \<or>
       near = Some None \<and> inside rs (a @ [hd (ys @ [c])]))"
proof (induction cs rule: rev_induct)
  case Nil
  then show ?case by simp
next
  case (snoc c cs)
  have pl: "plain_path cs" "plain_component c" using snoc(2) by auto
  note unf = nearestInsideAncestor.simps [of fs "map path_text rs" "path_text cs"]
  note ins = isInside_iff [OF roots pl(1)] and ev = Eval_path [OF pl(1), of fs]
  have ne: "path_text cs \<noteq> []" "path_text cs \<noteq> ''.''" by (auto simp: path_text_def)
  show ?case
  proof (cases "inside rs cs")
    case False
    then have r: "cs @ [c] \<in> set rs" using snoc(3) by (auto simp: inside_def prefix_snoc)
    then have "real_dir fs cs" using roots by (auto simp: roots_ok_def)
    then have "walk fs evalLinks [] cs = Some cs" using walk_real [of fs cs evalLinks "[]"] by simp
    then show ?thesis using unf ne ins False snoc(3)
      by (intro exI [of _ cs] exI [of _ "[]"] exI [of _ c] exI [of _ cs]) simp
  next
    case True
    show ?thesis
    proof (cases "walk fs evalLinks [] cs")
      case (Some a)
      then show ?thesis using unf ne ins ev True
        by (intro exI [of _ cs] exI [of _ "[]"] exI [of _ c] exI [of _ a]) simp
    next
      case None
      then have cne: "cs \<noteq> []" "path_text cs \<noteq> ''/''" using path_text_inj [OF pl(1), of "[]"] by (auto simp: path_text_def)
      have dir: "filepath_Dir (path_text cs) = path_text (butlast cs)"
        using Dir_snoc [of "butlast cs" "last cs"] pl(1) cne(1) by (auto dest: in_set_butlastD)
      obtain ps ys d a where IH: "cs = ps @ ys @ [d]" "walk fs evalLinks [] ps = Some a"
        "\<And>zs z. prefix (zs @ [z]) ys \<Longrightarrow> walk fs evalLinks [] (ps @ zs @ [z]) = None"
        and near: "let near = nearestInsideAncestor fs (map path_text rs) (path_text (butlast cs)) in
          near = Some (Some (path_text ps, path_text a)) \<and> inside rs ps \<or> near = Some None \<and> inside rs (a @ [hd (ys @ [d])])"
        using snoc(1) [OF pl(1) True None] by blast
      have "nearestInsideAncestor fs (map path_text rs) (path_text cs) =
          nearestInsideAncestor fs (map path_text rs) (path_text (butlast cs))"
        using unf ne ins ev True None cne(2) dir by simp
      moreover have "walk fs evalLinks [] (ps @ zs @ [z]) = None" if "prefix (zs @ [z]) (ys @ [d])" for zs z
        using that IH(3) [of zs z] None IH(1) by (auto simp: prefix_snoc)
      moreover have "hd ((ys @ [d]) @ [c]) = hd (ys @ [d])" by (cases ys) simp_all
      moreover have "cs @ [c] = ps @ (ys @ [d]) @ [c]" using IH(1) by simp
      ultimately have "cs @ [c] = ps @ (ys @ [d]) @ [c] \<and> walk fs evalLinks [] ps = Some a \<and>
        (\<forall>zs z. prefix (zs @ [z]) (ys @ [d]) \<longrightarrow> walk fs evalLinks [] (ps @ zs @ [z]) = None) \<and>
        (let near = nearestInsideAncestor fs (map path_text rs) (path_text (butlast (cs @ [c]))) in
         near = Some (Some (path_text ps, path_text a)) \<and> inside rs ps \<or>
         near = Some None \<and> inside rs (a @ [hd ((ys @ [d]) @ [c])]))"
        using IH(2) near unfolding butlast_snoc Let_def by simp
      then show ?thesis by blast
    qed
  qed
qed

text \<open>What the confinement establishes for a path that it lets through.\<close>

definition vetted :: "fsys \<Rightarrow> location list \<Rightarrow> location \<Rightarrow> bool" where
  "vetted fs rs cs \<longleftrightarrow> plain_path cs \<and> cs \<noteq> [] \<and>
     (case walk fs evalLinks [] cs of
        Some l \<Rightarrow> inside rs l
      | None \<Rightarrow> \<exists>ps ys c a. cs = ps @ ys @ [c] \<and> walk fs evalLinks [] ps = Some a \<and> inside rs (a @ [hd (ys @ [c])]) \<and>
          (\<forall>zs z. prefix (zs @ [z]) ys \<longrightarrow> walk fs evalLinks [] (ps @ zs @ [z]) = None))"

lemma plain_no_slash: "plain_path cs \<Longrightarrow> \<forall>c\<in>set cs. SLASH \<notin> set c"
  by (auto simp: plain_component_def)

lemma confineTo_vetted:
  assumes roots: "roots_ok fs rs" and wd: "prefix ''/'' wd"
  shows "\<exists>c. confineTo fs wd path (map path_text rs) = Some c \<and>
    (case c of Inl _ \<Rightarrow> True | Inr p \<Rightarrow> p = resolvePath wd path \<and> (\<exists>cs. p = path_text cs \<and> vetted fs rs cs))"
proof -
  obtain cs where cs: "resolvePath wd path = path_text cs" "plain_path cs" using resolvePath_plain [OF wd] by blast
  have ne: "map path_text rs \<noteq> []" using roots by (simp add: roots_ok_def)
  note ins = isInside_iff [OF roots cs(2)]
  show ?thesis
  proof (cases "inside rs cs")
    case False
    then show ?thesis using ne ins cs(1) by (simp add: confineTo_def)
  next
    case True
    have cne: "cs \<noteq> []" using True roots by (auto simp: inside_def roots_ok_def)
    show ?thesis
    proof (cases "walk fs evalLinks [] cs")
      case (Some l)
      have "plain_path l" using walk_result_real(1) [OF Some plain_no_slash [OF cs(2)]] .
      then show ?thesis using ne ins cs True Some cne Eval_path [OF cs(2), of fs] isInside_iff [OF roots, of l]
        by (auto simp: confineTo_def vetted_def)
    next
      case None
      have dir: "filepath_Dir (path_text cs) = path_text (butlast cs)"
        using Dir_snoc [of "butlast cs" "last cs"] cs(2) cne by (auto dest: in_set_butlastD)
      obtain ps ys c a where n: "cs = ps @ ys @ [c]" "walk fs evalLinks [] ps = Some a"
        "\<And>zs z. prefix (zs @ [z]) ys \<Longrightarrow> walk fs evalLinks [] (ps @ zs @ [z]) = None"
        and near: "let near = nearestInsideAncestor fs (map path_text rs) (path_text (butlast cs)) in
          near = Some (Some (path_text ps, path_text a)) \<and> inside rs ps \<or> near = Some None \<and> inside rs (a @ [hd (ys @ [c])])"
        using nearest_of [OF roots cs(2) True None] by blast
      have pp: "plain_path ps" using cs(2) n(1) by simp
      have pa: "plain_path a" using walk_result_real(1) [OF n(2) plain_no_slash [OF pp]] .
      have ok: "vetted fs rs cs" if "inside rs a \<or> inside rs (a @ [hd (ys @ [c])])"
      proof -
        have "inside rs (a @ [hd (ys @ [c])])" using that inside_mono [of rs a] by (metis prefixI)
        then show ?thesis unfolding vetted_def using cs(2) cne None n by auto
      qed
      have "path_text ps = path_text a \<Longrightarrow> ps = a" using path_text_inj [OF pp pa] by simp
      then show ?thesis using ne ins cs True None dir near ok Eval_path [OF cs(2), of fs] isInside_iff [OF roots pa]
        by (auto simp: confineTo_def Let_def)
    qed
  qed
qed

section \<open>What the tools change\<close>

definition changes_inside :: "location list \<Rightarrow> fsys \<Rightarrow> fsys \<Rightarrow> bool" where
  "changes_inside rs fs fs' \<longleftrightarrow> (\<forall>l. fs' l \<noteq> fs l \<longrightarrow> inside rs l)"

lemma changes_refl [simp]: "changes_inside rs fs fs"
  by (simp add: changes_inside_def)

lemma changes_upd: "changes_inside rs fs fs1 \<Longrightarrow> inside rs r \<Longrightarrow> changes_inside rs fs (fs1(r := x))"
  by (auto simp: changes_inside_def)

lemma mkdirFor_path:
  assumes "plain_path ds" "plain_component c"
  shows "mkdirFor perm (path_text (ds @ [c])) fs = fs_MkdirAll perm ds fs"
proof -
  have "filter (\<lambda>c. c \<noteq> []) (SplitByte (path_text ds) SLASH) = ds"
    using assms(1) SplitByte_path_text [OF assms(1)] by (auto simp: plain_component_def intro!: filter_True)
  then show ?thesis using Dir_snoc [OF assms] by (simp add: mkdirFor_def path_text_def)
qed

text \<open>After the directories were made: only directories inside the roots are new, and the entry of the
  path is either inside the roots or the link the resolution followed.\<close>

lemma mkdirFor_vetted:
  assumes v: "vetted fs rs (ds @ [c])" and m: "mkdirFor perm (path_text (ds @ [c])) fs = (b, fs1)"
  shows "changes_inside rs fs fs1 \<and> (\<forall>l. fs1 l \<noteq> fs l \<longrightarrow> fs1 l = Some FDir) \<and>
    (if walk fs evalLinks [] (ds @ [c]) = None
     then b \<longrightarrow> (\<exists>e. walk fs1 kernelLinks [] ds = Some e \<and> node_at fs1 e = Some FDir \<and> inside rs (e @ [c]) \<and>
       (fs_tree fs \<and> fs (e @ [c]) \<noteq> None \<longrightarrow> fs1 = fs))
     else fs1 = fs)"
proof -
  have pl: "plain_path ds" "plain_component c" using v by (auto simp: vetted_def)
  note m' = m [unfolded mkdirFor_path [OF pl]]
  show ?thesis
  proof (cases "walk fs evalLinks [] (ds @ [c])")
    case (Some l)
    obtain e where "walk fs evalLinks [] ds = Some e" using walk_append [OF Some] by auto
    then have "fs1 = fs" using MkdirAll_existing [of fs ds e perm] pl(1) m' by simp
    then show ?thesis using Some by simp
  next
    case None
    obtain ps ys a where a: "ds = ps @ ys" "walk fs evalLinks [] ps = Some a" "inside rs (a @ [hd (ys @ [c])])"
      "\<And>zs z. prefix (zs @ [z]) ys \<Longrightarrow> walk fs evalLinks [] (ps @ zs @ [z]) = None"
      using v None by (auto simp: vetted_def)
    have below: "fs \<subseteq>\<^sub>m fs1" "\<And>l. fs1 l \<noteq> fs l \<Longrightarrow> ys \<noteq> [] \<and> prefix (a @ [hd ys]) l \<and> fs1 l = Some FDir"
      "b \<Longrightarrow> walk fs1 kernelLinks [] ds = Some (a @ ys) \<and> node_at fs1 (a @ ys) = Some FDir"
      using MkdirAll_below [OF a(2) _ a(4), where perm = perm and b = b and ?fs1.0 = fs1] pl(1) a(1) m' by auto
    have same: "fs1 = fs" if t: "fs_tree fs" "fs (a @ ys @ [c]) \<noteq> None" and b
    proof (cases ys)
      case Nil
      then show ?thesis using MkdirAll_existing [of fs ds a perm] pl(1) m' a(1,2) by simp
    next
      case (Cons y zs)
      have "strict_prefix (a @ [y]) (a @ ys @ [c])" "strict_prefix a (a @ ys @ [c])" using Cons by (auto simp: strict_prefix_def)
      then have "fs (a @ [y]) = Some FDir" "node_at fs a = Some FDir"
        using fs_tree_prefix [OF t, of "a @ [y]"] fs_tree_prefix [OF t, of a] by (auto simp: node_at_def)
      moreover have "plain_component y" using pl(1) a(1) Cons by simp
      ultimately have "walk fs evalLinks [] (ps @ [y]) = Some (a @ [y])" using walk_child [OF a(2)] by blast
      moreover have "walk fs evalLinks [] (ps @ [y]) = None" using a(4) [of "[]" y] Cons by simp
      ultimately show ?thesis by simp
    qed
    have "inside rs (a @ ys @ [c])" using inside_mono [OF a(3)] by (cases ys) simp_all
    moreover have "changes_inside rs fs fs1" using below(2) inside_mono [OF a(3)] by (fastforce simp: changes_inside_def)
    ultimately show ?thesis using None below(2,3) same by auto
  qed
qed

lemma vetted_snoc: "vetted fs rs cs \<Longrightarrow> \<exists>ds c. cs = ds @ [c] \<and> plain_path ds \<and> plain_component c"
  by (cases cs rule: rev_cases) (auto simp: vetted_def)

definition leaf_link :: "fsys \<Rightarrow> string \<Rightarrow> bool" where
  "leaf_link fs p \<longleftrightarrow> (\<exists>t. fs_Lstat fs p = Some (FLink t))"

lemma Lstat_path:
  assumes "plain_path ds" "plain_component c" "walk fs kernelLinks [] ds = Some e" "node_at fs e = Some FDir"
  shows "fs_Lstat fs (path_text (ds @ [c])) = fs (e @ [c])"
  using assms(3,4) by (simp add: fs_Lstat_def entry_of_snoc [OF assms(1,2)] node_at_def)

lemma Write_inside:
  assumes v: "vetted fs rs cs" and nl: "\<not> leaf_link fs (path_text cs)"
    and m: "mkdirFor perm (path_text cs) fs = (True, fs1)" and w: "atomicWriteFile perm (path_text cs) content fs1 = Some fs2"
  shows "changes_inside rs fs fs2"
proof -
  obtain ds c where cs: "cs = ds @ [c]" "plain_path ds" "plain_component c" using vetted_snoc [OF v] by blast
  note md = mkdirFor_vetted [OF v [unfolded cs(1)] m [unfolded cs(1)]]
  obtain e where e: "walk fs1 kernelLinks [] ds = Some e" "node_at fs1 e = Some FDir" "fs1 (e @ [c]) \<noteq> Some FDir"
    "fs2 = fs1(e @ [c] \<mapsto> FFile content)"
    using w by (auto simp: atomicWriteFile_def fs_replace_def cs(1) entry_of_snoc [OF cs(2,3)] split: bind_splits if_splits)
  have "inside rs (e @ [c])"
  proof (cases "walk fs evalLinks [] (ds @ [c])")
    case None
    then show ?thesis using md e(1) by auto
  next
    case (Some l)
    then have fs1: "fs1 = fs" using md by simp
    have "fs (e @ [c]) \<noteq> None" using walk_entry [OF Some e(1) [unfolded fs1] links_le cs(3)] .
    moreover have "fs (e @ [c]) \<noteq> Some (FLink t)" for t
      using nl Lstat_path [OF cs(2,3) e(1,2) [unfolded fs1]] cs(1) by (auto simp: leaf_link_def)
    ultimately obtain s where s: "fs (e @ [c]) = Some (FFile s)"
      using e(3) fs1 by (cases "fs (e @ [c])"; auto) (metis fnode.exhaust)
    obtain k where "walk fs evalLinks [] (ds @ [c]) = walk fs k e [c]"
      using walk_through [OF walk_fuel [OF e(1) [unfolded fs1] links_le]] e(2) fs1 by blast
    then have "l = e @ [c]" using Some s cs(3) by (simp add: walk_plain)
    then show ?thesis using v Some cs(1) by (simp add: vetted_def)
  qed
  then show ?thesis using changes_upd [of rs fs fs1 "e @ [c]"] md e(4) by simp
qed

lemma create_inside:
  assumes v: "vetted fs rs cs" and nl: "\<not> leaf_link fs (path_text cs)" and t: "fs_tree fs"
    and st: "fs_Stat fs (path_text cs) = None"
    and m: "mkdirFor perm (path_text cs) fs = (True, fs1)" and w: "fs_WriteFile perm (path_text cs) content fs1 = Some fs2"
  shows "changes_inside rs fs fs2"
proof -
  obtain ds c where cs: "cs = ds @ [c]" "plain_path ds" "plain_component c" using vetted_snoc [OF v] by blast
  have pl: "plain_path cs" using cs by simp
  note md = mkdirFor_vetted [OF v [unfolded cs(1)] m [unfolded cs(1)]]
  obtain r where r: "locate fs1 kernelLinks [] cs = Some r" "node_at fs1 r \<noteq> Some FDir" "fs2 = fs1(r \<mapsto> FFile content)"
    using w by (auto simp: fs_WriteFile_def locate_path_text [OF pl] split: bind_splits if_splits)
  show ?thesis
  proof (cases "walk fs evalLinks [] (ds @ [c])")
    case (Some l)
    then have "fs1 = fs" using md by simp
    then have "walk fs kernelLinks [] cs = Some r" using locate_walk [OF Some links_le] r(1) cs(1) by simp
    moreover have "node_at fs r \<noteq> None" using walk_result_real(2) [OF calculation plain_no_slash [OF pl]] .
    ultimately show ?thesis using st by (simp add: Stat_path [OF pl])
  next
    case None
    then obtain e where e: "walk fs1 kernelLinks [] ds = Some e" "node_at fs1 e = Some FDir" "inside rs (e @ [c])"
      "fs (e @ [c]) \<noteq> None \<Longrightarrow> fs1 = fs" using md t by auto
    obtain k where k: "locate fs1 kernelLinks [] (ds @ [c]) = locate fs1 k e [c]" using walk_through [OF e(1,2)] by blast
    have "fs1 (e @ [c]) \<noteq> Some (FLink x)" for x
    proof
      assume l: "fs1 (e @ [c]) = Some (FLink x)"
      then have l': "fs (e @ [c]) = Some (FLink x)" using spec [OF conjunct1 [OF conjunct2 [OF md]], of "e @ [c]"] by auto
      then have "fs1 = fs" using e(4) by simp
      then show False using nl Lstat_path [OF cs(2,3)] e(1,2) l' cs(1) by (auto simp: leaf_link_def)
    qed
    then have "r = e @ [c]" using r(1) k cs(1,3)
      by (cases "fs1 (e @ [c])") (auto simp: locate_plain split: fnode.splits)
    then have "inside rs r" using e(3) by simp
    then show ?thesis using changes_upd [of rs fs fs1 r] md r(3) by simp
  qed
qed

lemma edit_inside:
  assumes v: "vetted fs rs cs" and st: "fs_Stat fs (path_text cs) \<noteq> None"
    and w: "fs_WriteFile perm (path_text cs) content fs = Some fs2"
  shows "changes_inside rs fs fs2"
proof -
  have pl: "plain_path cs" using v by (simp add: vetted_def)
  obtain l where l: "walk fs kernelLinks [] cs = Some l" using st by (auto simp: Stat_path [OF pl] split: bind_splits)
  have "locate fs kernelLinks [] cs = Some l" using locate_walk [OF l le_refl] l by simp
  then have "fs2 = fs(l \<mapsto> FFile content)" using w
    by (auto simp: fs_WriteFile_def locate_path_text [OF pl] split: if_splits)
  moreover have "inside rs l" using v walk_fuel [OF l links_le] by (simp add: vetted_def)
  ultimately show ?thesis using changes_upd [of rs fs fs l] by simp
qed

text \<open>\<open>Read\<close> shows only files below the readable roots, whatever the path and the links on it.\<close>

lemma Read_inside:
  assumes roots: "roots_ok fs rs" and wd: "prefix ''/'' wd"
  shows "\<exists>r. tool_Read (map path_text rs) wd path offset limit fs = Some r \<and>
    (\<forall>shown. r = FileText shown \<longrightarrow> (\<exists>l s. inside rs l \<and> fs l = Some (FFile s) \<and> numbered offset limit s = FileText shown))"
proof -
  obtain c where c: "confineTo fs wd path (map path_text rs) = Some c"
    "case c of Inl _ \<Rightarrow> True | Inr p \<Rightarrow> p = resolvePath wd path \<and> (\<exists>cs. p = path_text cs \<and> vetted fs rs cs)"
    using confineTo_vetted [OF roots wd] by blast
  show ?thesis
  proof (cases "path = [] \<or> (\<exists>e. c = Inl e)")
    case True
    then show ?thesis using c(1) by (auto simp: tool_Read_def)
  next
    case False
    then obtain cs where p: "path \<noteq> []" "c = Inr (path_text cs)" "vetted fs rs cs" using c(2) by (cases c) auto
    have pl: "plain_path cs" using p(3) by (simp add: vetted_def)
    have "\<exists>l. inside rs l \<and> fs l = Some (FFile s)" if "fs_ReadFile fs (path_text cs) = Some s" for s
    proof -
      have "fs_Stat fs (path_text cs) = Some (FFile s)"
        using that by (auto simp: fs_ReadFile_def split: option.splits fnode.splits)
      then obtain l where l: "walk fs kernelLinks [] cs = Some l" "node_at fs l = Some (FFile s)"
        by (auto simp: Stat_path [OF pl] split: bind_splits)
      moreover have "inside rs l" using p(3) walk_fuel [OF l(1) links_le] by (simp add: vetted_def)
      moreover have "fs l = Some (FFile s)" using l(2) by (auto simp: node_at_def split: if_splits)
      ultimately show ?thesis by blast
    qed
    then have "\<exists>l s. inside rs l \<and> fs l = Some (FFile s) \<and> numbered offset limit s = FileText shown"
      if "fs_ReadFile fs (path_text cs) = Some s" "numbered offset limit s = FileText shown" for s shown
      using that by blast
    then show ?thesis using c(1) p(1,2) by (simp add: tool_Read_def split: option.split)
  qed
qed


lemma file_tools_inside:
  assumes roots: "roots_ok fs rs" and wd: "prefix ''/'' wd" and t: "fs_tree fs"
    and nl: "\<not> leaf_link fs (resolvePath wd path)"
  shows "(\<exists>r fs'. tool_Write perm (map path_text rs) wd path content fs = Some (r, fs') \<and>
      (\<forall>l. fs' l \<noteq> fs l \<longrightarrow> inside rs l)) \<and>
    (\<exists>r fs'. tool_Edit perm (map path_text rs) wd path old new all fs = Some (r, fs') \<and>
      (\<forall>l. fs' l \<noteq> fs l \<longrightarrow> inside rs l)) \<and>
    (\<exists>r. tool_Read (map path_text rs) wd path offset limit fs = Some r \<and>
      (\<forall>shown. r = FileText shown \<longrightarrow> (\<exists>l s. inside rs l \<and> fs l = Some (FFile s) \<and> numbered offset limit s = FileText shown)))"
proof -
  obtain c where c: "confineTo fs wd path (map path_text rs) = Some c"
    "case c of Inl _ \<Rightarrow> True | Inr p \<Rightarrow> p = resolvePath wd path \<and> (\<exists>cs. p = path_text cs \<and> vetted fs rs cs)"
    using confineTo_vetted [OF roots wd] by blast
  have "(\<exists>r fs'. tool_Write perm (map path_text rs) wd path content fs = Some (r, fs') \<and> changes_inside rs fs fs') \<and>
    (\<exists>r fs'. tool_Edit perm (map path_text rs) wd path old new all fs = Some (r, fs') \<and> changes_inside rs fs fs')"
  proof (cases "path = [] \<or> (\<exists>e. c = Inl e)")
    case True
    then show ?thesis using c(1) by (auto simp: tool_Write_def tool_Edit_def)
  next
    case False
    then obtain cs where p: "path \<noteq> []" "c = Inr (path_text cs)" "vetted fs rs cs" "resolvePath wd path = path_text cs"
      using c(2) by (cases c) auto
    have nl': "\<not> leaf_link fs (path_text cs)" using nl p(4) by simp
    obtain b fs1 where m: "mkdirFor perm (path_text cs) fs = (b, fs1)" by fastforce
    have made: "changes_inside rs fs fs1"
      using vetted_snoc [OF p(3)] mkdirFor_vetted m p(3) by blast
    have "changes_inside rs fs fs2" if "atomicWriteFile perm (path_text cs) content fs1 = Some fs2" b for fs2
      using Write_inside [OF p(3) nl' _ that(1)] m that(2) by simp
    then have "\<exists>r fs'. tool_Write perm (map path_text rs) wd path content fs = Some (r, fs') \<and> changes_inside rs fs fs'"
      using c(1) p(1,2) m made by (auto simp: tool_Write_def split: option.split bool.split)
    moreover have "changes_inside rs fs (snd (createFile perm (path_text cs) new fs))"
      using create_inside [OF p(3) nl' t] m made by (auto simp: createFile_def split: option.split bool.split)
    moreover have "changes_inside rs fs (snd (editFile perm (path_text cs) old new all fs))"
      using edit_inside [OF p(3)] by (auto simp: editFile_def split: option.split sum.split)
    ultimately show ?thesis
      using c(1) p(1,2) by (simp add: tool_Edit_def prod_eq_iff)
  qed
  then show ?thesis unfolding changes_inside_def using Read_inside [OF roots wd] by blast
qed



section \<open>Gaps of the confinement\<close>

text \<open>Without roots there is no confinement: a policy that grants an agent nothing lets it write anywhere.\<close>

lemma no_roots_no_confinement: "confineTo fs wd path [] = Some (Inr (resolvePath wd path))"
  by (simp add: confineTo_def Let_def)

text \<open>The workspace holds a link to a file that does not exist yet, outside of it.\<close>

definition demo_fs :: fsys where
  "demo_fs = map_of [([''ws''], FDir), ([''ws'', ''a''], FFile ''x''), ([''ws'', ''l''], FLink ''/etc/new''), ([''etc''], FDir)]"

lemma demo_roots: "roots_ok demo_fs [[''ws'']]"
proof -
  have "p = [] \<or> p = [''ws'']" if "prefix p [''ws'']" for p :: location using that by (auto simp: prefix_Cons)
  then show ?thesis
    by (auto simp: roots_ok_def real_dir_def node_at_def demo_fs_def plain_component_def)
qed

lemma demo_tree: "fs_tree demo_fs"
  by (auto simp: fs_tree_def demo_fs_def node_at_def split: if_splits)

lemma demo_etc: "\<not> inside [[''ws'']] [''etc'', ''new'']"
  by (simp add: inside_def)

lemma demo_values:
  "resolvePath ''/ws'' ''l'' = ''/ws/l''" "isInsideRoots demo_fs ''/ws/l'' [''/ws'']" "EvalSymlinks demo_fs ''/ws/l'' = None"
  "filepath_Dir ''/ws/l'' = ''/ws''" "resolvePath ''/ws'' ''b/c'' = ''/ws/b/c''" "fs_Stat demo_fs ''/ws/l'' = None"
  "locate demo_fs kernelLinks [] [[], ''ws'', ''l''] = Some [''etc'', ''new'']"
  "node_at demo_fs [''etc'', ''new''] = None"
  by code_simp+

lemma demo_mkdir: "mkdirFor perm ''/ws/l'' demo_fs = (True, demo_fs)"
proof -
  have "fs_Stat demo_fs (path_text [''ws'']) = Some FDir" by code_simp
  then show ?thesis unfolding mkdirFor_def demo_values Let_def by (simp add: fs_MkdirAll.simps)
qed

lemma demo_nearest: "nearestInsideAncestor demo_fs [''/ws''] ''/ws'' = Some (Some (''/ws'', ''/ws''))"
  by (subst nearestInsideAncestor.simps) code_simp

lemma demo_confined: "confineTo demo_fs ''/ws'' ''l'' [''/ws''] = Some (Inr ''/ws/l'')"
  by (simp only: confineTo_def Let_def demo_values demo_nearest option.case option.map prod.case list.distinct if_False
      not_True_eq_False simp_thms)

text \<open>\<open>Edit\<close> with an empty \<open>old_string\<close> on that link creates its target: neither check of the guard sees a link whose
  target is missing, and \<open>os.WriteFile\<close> follows it.\<close>

lemma edit_creates_outside:
  "\<exists>fs'. tool_Edit (\<lambda>_. True) [''/ws''] ''/ws'' ''l'' [] ''evil'' False demo_fs = Some (CreatedFile, fs') \<and>
     fs' [''etc'', ''new''] = Some (FFile ''evil'') \<and> \<not> inside [[''ws'']] [''etc'', ''new'']"
proof -
  have "createFile (\<lambda>_. True) ''/ws/l'' ''evil'' demo_fs = (CreatedFile, demo_fs([''etc'', ''new''] \<mapsto> FFile ''evil''))"
    by (simp add: createFile_def demo_values demo_mkdir fs_WriteFile_def)
  then show ?thesis using demo_etc by (simp add: tool_Edit_def demo_confined)
qed



section \<open>Single replacements\<close>

definition occurs_at :: "string \<Rightarrow> string \<Rightarrow> nat \<Rightarrow> bool" where
  "occurs_at old s i \<longleftrightarrow> i \<le> length s \<and> prefix old (drop i s)"

lemma Index_Some: "string_Index s old = Some i \<longleftrightarrow> occurs_at old s i \<and> (\<forall>j. occurs_at old s j \<longrightarrow> i \<le> j)"
proof
  assume "string_Index s old = Some i"
  then have "occurs_at old s i" "\<forall>j<i. \<not> prefix old (drop j s)"
    by (auto simp: string_Index_def occurs_at_def find_Some_iff simp del: upt_Suc)
  then show "occurs_at old s i \<and> (\<forall>j. occurs_at old s j \<longrightarrow> i \<le> j)" by (meson not_le occurs_at_def)
next
  assume a: "occurs_at old s i \<and> (\<forall>j. occurs_at old s j \<longrightarrow> i \<le> j)"
  have nth: "[0..<Suc (length s)] ! j = j" if "j \<le> i" for j
    using a that by (simp add: occurs_at_def del: upt_Suc)
  have "\<not> prefix old (drop j s)" if "j < i" for j
    using a that by (metis leD le_trans less_imp_le occurs_at_def)
  then show "string_Index s old = Some i"
    unfolding string_Index_def find_Some_iff
    by (intro exI [of _ i]) (use a nth in \<open>simp add: occurs_at_def del: upt_Suc\<close>)
qed

lemma LastIndex_Some: "LastIndex s old = Some i \<longleftrightarrow> occurs_at old s i \<and> (\<forall>j. occurs_at old s j \<longrightarrow> j \<le> i)"
proof
  assume a: "LastIndex s old = Some i"
  then obtain k where k: "k < Suc (length s)" "prefix old (drop (length s - k) s)" "i = length s - k"
    "\<And>j. j < k \<Longrightarrow> \<not> prefix old (drop (length s - j) s)"
    by (auto simp: LastIndex_def find_Some_iff rev_nth simp del: upt_Suc)
  have "j \<le> i" if "occurs_at old s j" for j
  proof (rule ccontr)
    assume "\<not> j \<le> i"
    moreover have "j \<le> length s" using that by (simp add: occurs_at_def)
    ultimately have "length s - j < k" using k(1,3) by linarith
    then show False using k(4) [of "length s - j"] that by (simp add: occurs_at_def)
  qed
  then show "occurs_at old s i \<and> (\<forall>j. occurs_at old s j \<longrightarrow> j \<le> i)" using k by (auto simp: occurs_at_def)
next
  assume a: "occurs_at old s i \<and> (\<forall>j. occurs_at old s j \<longrightarrow> j \<le> i)"
  have le: "i \<le> length s" using a by (simp add: occurs_at_def)
  have nth: "rev [0..<Suc (length s)] ! j = length s - j" if "j \<le> length s" for j
    using that by (simp add: rev_nth del: upt_Suc)
  have "\<not> prefix old (drop (length s - j) s)" if "j < length s - i" for j
    using a that le by (auto simp: occurs_at_def dest!: spec [of _ "length s - j"])
  then show "LastIndex s old = Some i"
    unfolding LastIndex_def find_Some_iff
    by (intro exI [of _ "length s - i"]) (use a le nth in \<open>simp add: occurs_at_def del: upt_Suc\<close>)
qed

lemma edited_single:
  "edited old new False s = Inr (r, s') \<longleftrightarrow> r = EditedFile \<and>
     (\<exists>pre post. s = pre @ old @ post \<and> s' = pre @ new @ post \<and> (\<forall>j. occurs_at old s j \<longrightarrow> j = length pre))"
proof
  assume "edited old new False s = Inr (r, s')"
  then obtain i where i: "string_Index s old = Some i" "LastIndex s old = Some i" "r = EditedFile"
    "s' = take i s @ new @ drop (i + length old) s"
    by (cases "string_Index s old") (simp_all add: edited_def split: if_splits)
  have o: "occurs_at old s i" "\<And>j. occurs_at old s j \<Longrightarrow> j = i"
    using i(1,2) unfolding Index_Some LastIndex_Some by (blast, meson antisym)
  obtain post where "drop i s = old @ post" using o(1) by (auto simp: occurs_at_def prefix_def)
  note post = this
  have "drop (i + length old) s = drop (length old) (drop i s)" by (simp add: add.commute)
  then have "s' = take i s @ new @ post" using i(4) post by simp
  moreover have "s = take i s @ old @ post" unfolding post [symmetric] by simp
  moreover have "\<forall>j. occurs_at old s j \<longrightarrow> j = length (take i s)" using o by (auto simp: occurs_at_def)
  ultimately show "r = EditedFile \<and>
     (\<exists>pre post. s = pre @ old @ post \<and> s' = pre @ new @ post \<and> (\<forall>j. occurs_at old s j \<longrightarrow> j = length pre))"
    using i(3) by blast
next
  assume "r = EditedFile \<and>
     (\<exists>pre post. s = pre @ old @ post \<and> s' = pre @ new @ post \<and> (\<forall>j. occurs_at old s j \<longrightarrow> j = length pre))"
  then obtain pre post where p: "r = EditedFile" "s = pre @ old @ post" "s' = pre @ new @ post"
    "\<And>j. occurs_at old s j \<Longrightarrow> j = length pre" by blast
  have "occurs_at old s (length pre)" using p(2) by (simp add: occurs_at_def)
  then have "string_Index s old = Some (length pre)" "LastIndex s old = Some (length pre)"
    using p(4) unfolding Index_Some LastIndex_Some by (metis le_refl)+
  then show "edited old new False s = Inr (r, s')" using p(1-3) by (simp add: edited_def)
qed

end
