(* ===== verification/FS_Policy.thy ===== *)
theory FS_Policy
  imports File_Tools
begin

text \<open>
  The file system policy, \<open>src/internal/platform/fspolicy\<close>: expansion of variables in paths, compilation to
  the paths of the sandbox, and the roots of the file tools.  The YAML codec, the environment variables
  and which paths exist are parameters.  \<open>default_policy\<close> is the document \<open>default.yaml\<close>.
\<close>

section \<open>Policies\<close>

record AccessSet =
  as_RW :: "string list"
  as_RO :: "string list"

record Policy =
  po_Version :: int
  po_Base :: AccessSet
  po_OnTool :: "(string, AccessSet) gomap"
  po_PerInstance :: AccessSet

record fs_Context =
  fc_Home :: string
  fc_InstanceDir :: string
  fc_SessionDir :: string
  fc_SocketDir :: string
  fc_Tools :: "(string, bool) gomap"
  fc_Env :: "string \<Rightarrow> string"

datatype policy_error = PolicyUnparsable | UnsupportedVersion int

definition Policy_Parse :: "(string \<Rightarrow> Policy option) \<Rightarrow> string \<Rightarrow> policy_error + Policy" where
  "Policy_Parse yaml data =
     (case yaml data of
        None \<Rightarrow> Inl PolicyUnparsable
      | Some p \<Rightarrow>
          let p' = (if po_Version p = 0 then p\<lparr>po_Version := 1\<rparr> else p)
          in if po_Version p' \<noteq> 1 then Inl (UnsupportedVersion (po_Version p')) else Inr p')"

section \<open>Expansion\<close>

definition isVarChar :: "char \<Rightarrow> bool" where
  "isVarChar b \<longleftrightarrow> (CHR ''A'' \<le> b \<and> b \<le> CHR ''Z'') \<or> (CHR ''a'' \<le> b \<and> b \<le> CHR ''z'') \<or>
     (CHR ''0'' \<le> b \<and> b \<le> CHR ''9'') \<or> b = CHR ''_''"

definition compileVars :: "fs_Context \<Rightarrow> (string, string) gomap \<times> (string \<Rightarrow> string)" where
  "compileVars ctx = ([(''HOME'', fc_Home ctx), (''INSTANCE_DIR'', fc_InstanceDir ctx),
     (''SESSION_DIR'', fc_SessionDir ctx), (''SOCKET_DIR'', fc_SocketDir ctx)], fc_Env ctx)"

text \<open>The substitution of \<open>expand\<close>: one pass, values are not scanned again.\<close>

function substitute :: "(string, string) gomap \<Rightarrow> (string \<Rightarrow> string) \<Rightarrow> string \<Rightarrow> string option" where
  "substitute vars env [] = Some []"
| "substitute vars env (c # raw) =
     (if c \<noteq> CHR ''$'' then map_option ((#) c) (substitute vars env raw)
      else let name = takeWhile isVarChar raw;
               val = (case gomap_get vars name of Some v \<Rightarrow> v | None \<Rightarrow> env name)
           in if name = [] \<or> val = [] then None
              else map_option ((@) val) (substitute vars env (dropWhile isVarChar raw)))"
  by pat_completeness auto
termination
  by (relation "measure (\<lambda>(vars, env, raw). length raw)") (auto simp: le_imp_less_Suc length_dropWhile_le)

definition expand :: "string \<Rightarrow> (string, string) gomap \<Rightarrow> (string \<Rightarrow> string) \<Rightarrow> string option" where
  "expand raw vars env =
     (case substitute vars env raw of
        None \<Rightarrow> None
      | Some out \<Rightarrow>
          if \<not> prefix ''/'' out then None
          else if ''..'' \<in> set (SplitByte out SLASH) then None
          else Some (filepath_Clean out))"

section \<open>Compilation\<close>

definition add_ro :: "(string \<Rightarrow> string option) \<Rightarrow> string \<Rightarrow> (string, nat) gomap \<Rightarrow> (string, nat) gomap" where
  "add_ro ex raw modes =
     (case ex raw of
        None \<Rightarrow> modes
      | Some path \<Rightarrow> if gomap_get modes path = None then gomap_put path 0 modes else modes)"

definition add_rw :: "(string \<Rightarrow> string option) \<Rightarrow> string \<Rightarrow> (string, nat) gomap \<Rightarrow> (string, nat) gomap" where
  "add_rw ex raw modes = (case ex raw of None \<Rightarrow> modes | Some path \<Rightarrow> gomap_put path 1 modes)"

definition addSet :: "(string \<Rightarrow> string option) \<Rightarrow> AccessSet \<Rightarrow> (string, nat) gomap \<Rightarrow> (string, nat) gomap" where
  "addSet ex s modes = fold (add_rw ex) (as_RW s) (fold (add_ro ex) (as_RO s) modes)"

text \<open>The access sets that apply to an agent, in the order in which they are merged.\<close>

definition granted_sets :: "Policy \<Rightarrow> fs_Context \<Rightarrow> AccessSet list" where
  "granted_sets p ctx =
     po_Base p # List.map_filter (\<lambda>(tool, _). gomap_get (po_OnTool p) tool) (fc_Tools ctx) @ [po_PerInstance p]"

record LandlockPaths =
  lp_ReadWrite :: "string list"
  lp_ReadOnly :: "string list"

definition Policy_Compile :: "(string \<Rightarrow> bool) \<Rightarrow> Policy \<Rightarrow> fs_Context \<Rightarrow> LandlockPaths" where
  "Policy_Compile pathExists p ctx =
     (case compileVars ctx of (vars, env) \<Rightarrow>
        let modes = fold (addSet (\<lambda>raw. expand raw vars env)) (granted_sets p ctx) [];
            kept = filter (\<lambda>(path, _). pathExists path) modes
        in \<lparr>lp_ReadWrite = sort (map fst (filter (\<lambda>(_, mode). mode = 1) kept)),
            lp_ReadOnly = sort (map fst (filter (\<lambda>(_, mode). mode \<noteq> 1) kept))\<rparr>)"

section \<open>Roots of the file tools\<close>

definition home_path :: "fs_Context \<Rightarrow> string \<Rightarrow> string option" where
  "home_path ctx raw =
     (case compileVars ctx of (vars, env) \<Rightarrow>
        case expand raw vars env of
          None \<Rightarrow> None
        | Some path \<Rightarrow> if path = fc_Home ctx \<or> \<not> prefix (fc_Home ctx @ ''/'') path then None else Some path)"

definition homeSubtreeRoots :: "Policy \<Rightarrow> fs_Context \<Rightarrow> bool \<Rightarrow> string list" where
  "homeSubtreeRoots p ctx includeRO =
     sort (remdups (List.map_filter (home_path ctx)
       (concat (map (\<lambda>s. as_RW s @ (if includeRO then as_RO s else [])) (granted_sets p ctx)))))"

definition ReadableRoots :: "Policy \<Rightarrow> fs_Context \<Rightarrow> string list" where
  "ReadableRoots p ctx = homeSubtreeRoots p ctx True"

definition WritableRoots :: "Policy \<Rightarrow> fs_Context \<Rightarrow> string list" where
  "WritableRoots p ctx = homeSubtreeRoots p ctx False"

section \<open>The default policy\<close>

definition default_policy :: Policy where
  "default_policy =
     \<lparr>po_Version = 1,
      po_Base = \<lparr>as_RW = [''$HOME/instances'', ''$HOME/workspace'', ''$HOME/mounts''],
        as_RO = [''$HOME/agents'', ''$HOME/skills'', ''/usr'', ''/lib'', ''/lib64'', ''/etc'', ''/proc/self'', ''/dev'']\<rparr>,
      po_OnTool =
        [(''Bash'', \<lparr>as_RW = [''/tmp'', ''/opt/mise'', ''$MISE_DATA_DIR'', ''/home/linuxbrew/.linuxbrew'', ''$HOMEBREW_PREFIX'',
            ''$HOME/.ssh'', ''$HOME/.gitconfig'', ''$HOME/.config'', ''$HOME/.cache'', ''$HOME/.local''], as_RO = []\<rparr>),
         (''CreatePersistentInstance'', \<lparr>as_RW = [''$HOME/agents'', ''$HOME/skills''], as_RO = []\<rparr>)],
      po_PerInstance = \<lparr>as_RW = [''$INSTANCE_DIR'', ''$SESSION_DIR'', ''$SOCKET_DIR''], as_RO = []\<rparr>\<rparr>"


section \<open>What is compiled\<close>

definition expander :: "fs_Context \<Rightarrow> string \<Rightarrow> string option" where
  "expander ctx raw = (case compileVars ctx of (vars, env) \<Rightarrow> expand raw vars env)"

definition listed :: "(AccessSet \<Rightarrow> string list) \<Rightarrow> fs_Context \<Rightarrow> AccessSet list \<Rightarrow> string \<Rightarrow> bool" where
  "listed f ctx ss path \<longleftrightarrow> (\<exists>s\<in>set ss. \<exists>raw\<in>set (f s). expander ctx raw = Some path)"

lemma get_fold_ro:
  "gomap_get (fold (add_ro ex) raws m) p =
     (case gomap_get m p of Some v \<Rightarrow> Some v | None \<Rightarrow> if \<exists>raw\<in>set raws. ex raw = Some p then Some 0 else None)"
proof (induction raws arbitrary: m)
  case (Cons raw raws)
  then show ?case by (auto simp: add_ro_def gomap_simps split: option.split)
qed (simp split: option.split)

lemma get_fold_rw:
  "gomap_get (fold (add_rw ex) raws m) p = (if \<exists>raw\<in>set raws. ex raw = Some p then Some 1 else gomap_get m p)"
proof (induction raws arbitrary: m)
  case (Cons raw raws)
  then show ?case by (auto simp: add_rw_def gomap_simps split: option.split)
qed simp

lemma ok_addSet: "gomap_ok m \<Longrightarrow> gomap_ok (addSet ex s m)"
proof -
  have "gomap_ok m \<Longrightarrow> gomap_ok (fold (add_ro ex) raws m)" "gomap_ok m \<Longrightarrow> gomap_ok (fold (add_rw ex) raws m)" for raws m
    by (induction raws arbitrary: m) (auto simp: add_ro_def add_rw_def gomap_simps split: option.split)
  then show "gomap_ok m \<Longrightarrow> gomap_ok (addSet ex s m)" by (simp add: addSet_def)
qed

lemma ok_fold_addSet: "gomap_ok m \<Longrightarrow> gomap_ok (fold (addSet ex) ss m)"
  by (induction ss arbitrary: m) (auto intro: ok_addSet)

lemma get_fold_addSet:
  "gomap_get (fold (addSet ex) ss m) p =
     (if \<exists>s\<in>set ss. \<exists>raw\<in>set (as_RW s). ex raw = Some p then Some 1
      else case gomap_get m p of Some v \<Rightarrow> Some v
           | None \<Rightarrow> if \<exists>s\<in>set ss. \<exists>raw\<in>set (as_RO s). ex raw = Some p then Some 0 else None)"
proof (induction ss arbitrary: m)
  case (Cons s ss)
  show ?case unfolding fold_Cons comp_def Cons by (auto simp: addSet_def get_fold_rw get_fold_ro split: option.split)
qed (simp split: option.split)

text \<open>The sandbox gets exactly the existing paths of the access sets that apply to the agent: those of the base, of
  the tools it has and of its instance, whatever the order in which the tools are visited.  A path
  listed for writing anywhere is writable, one listed for reading only is read-only, and no path is in
  both lists or twice in one.\<close>

theorem Policy_Compile_exact:
  "set (lp_ReadWrite (Policy_Compile ex p ctx)) = {path. ex path \<and> listed as_RW ctx (granted_sets p ctx) path} \<and>
   set (lp_ReadOnly (Policy_Compile ex p ctx)) =
     {path. ex path \<and> listed as_RO ctx (granted_sets p ctx) path \<and> \<not> listed as_RW ctx (granted_sets p ctx) path} \<and>
   distinct (lp_ReadWrite (Policy_Compile ex p ctx) @ lp_ReadOnly (Policy_Compile ex p ctx)) \<and>
   sorted (lp_ReadWrite (Policy_Compile ex p ctx)) \<and> sorted (lp_ReadOnly (Policy_Compile ex p ctx))"
proof -
  obtain vars env where v: "compileVars ctx = (vars, env)" by fastforce
  let ?e = "\<lambda>raw. expand raw vars env"
  define modes where "modes = fold (addSet ?e) (granted_sets p ctx) []"
  have ok: "gomap_ok modes" unfolding modes_def by (rule ok_fold_addSet) (simp add: gomap_ok_def)
  then have mem: "(path, n) \<in> set modes \<longleftrightarrow> gomap_get modes path = Some n" for path n
    by (simp add: gomap_ok_def gomap_get_def)
  have get: "gomap_get modes path =
      (if listed as_RW ctx (granted_sets p ctx) path then Some 1
       else if listed as_RO ctx (granted_sets p ctx) path then Some 0 else None)" for path
    unfolding modes_def get_fold_addSet by (simp add: listed_def expander_def v gomap_get_def)
  have rw: "lp_ReadWrite (Policy_Compile ex p ctx) = sort (map fst (filter (\<lambda>(_, mode). mode = 1) (filter (\<lambda>(path, _). ex path) modes)))"
    and ro: "lp_ReadOnly (Policy_Compile ex p ctx) = sort (map fst (filter (\<lambda>(_, mode). mode \<noteq> 1) (filter (\<lambda>(path, _). ex path) modes)))"
    by (simp_all add: Policy_Compile_def v modes_def Let_def)
  have "set (lp_ReadWrite (Policy_Compile ex p ctx)) = {path. ex path \<and> gomap_get modes path = Some 1}"
    unfolding rw by (force simp: mem)
  moreover have "set (lp_ReadOnly (Policy_Compile ex p ctx)) = {path. ex path \<and> (\<exists>n. gomap_get modes path = Some n \<and> n \<noteq> 1)}"
    unfolding ro by (force simp: mem)
  moreover have "distinct (lp_ReadWrite (Policy_Compile ex p ctx))" "distinct (lp_ReadOnly (Policy_Compile ex p ctx))"
    unfolding rw ro using ok by (simp_all add: gomap_ok_def distinct_map_filter)
  ultimately show ?thesis unfolding distinct_append by (auto simp: get rw ro split: if_splits)
qed


section \<open>Configuration and database are out of reach\<close>

lemma var_chars: "list_all isVarChar ''HOME''" "\<not> isVarChar SLASH"
  by code_simp+

lemma substitute_plain: "CHR ''$'' \<notin> set raw \<Longrightarrow> substitute vars env raw = Some raw"
  by (induction vars env raw rule: substitute.induct) auto

lemma substitute_var:
  assumes "list_all isVarChar name" "name \<noteq> []" "rest = [] \<or> \<not> isVarChar (hd rest)" "CHR ''$'' \<notin> set rest"
  shows "substitute vars env (CHR ''$'' # name @ rest) =
    (let val = (case gomap_get vars name of Some v \<Rightarrow> v | None \<Rightarrow> env name) in if val = [] then None else Some (val @ rest))"
proof -
  have "takeWhile isVarChar (name @ rest) = name" "dropWhile isVarChar (name @ rest) = rest"
    using assms(1,3) by (auto simp: list_all_iff takeWhile_append2 dropWhile_append2) (cases rest; simp)+
  then show ?thesis using assms(2) substitute_plain [OF assms(4)] by (simp add: Let_def)
qed

lemma expander_home:
  assumes h: "fc_Home ctx = path_text hs" "plain_path hs" "hs \<noteq> []" and n: "plain_component name" "CHR ''$'' \<notin> set name"
  shows "expander ctx (''$HOME/'' @ name) = Some (path_text (hs @ [name]))"
proof -
  have "substitute vars env (CHR ''$'' # ''HOME'' @ SLASH # name) =
      (let val = (case gomap_get vars ''HOME'' of Some v \<Rightarrow> v | None \<Rightarrow> env ''HOME'') in
       if val = [] then None else Some (val @ SLASH # name))" for vars env
    by (rule substitute_var) (use n var_chars in auto)
  moreover have "path_text hs @ SLASH # name = path_text (hs @ [name])" using h(3) by (simp add: path_text_snoc)
  moreover have p: "plain_path (hs @ [name])" using h(2) n(1) by simp
  moreover have "''..'' \<notin> set (SplitByte (path_text (hs @ [name])) SLASH)"
    using SplitByte_path_text [OF p] p by (auto simp: plain_component_def)
  ultimately show ?thesis
    using h(1) filepath_Clean_plain [OF p] by (simp add: expander_def compileVars_def expand_def gomap_get_def path_text_def)
qed

lemma expander_static:
  "CHR ''$'' \<notin> set raw \<Longrightarrow> expander ctx raw = Some p \<Longrightarrow> p = filepath_Clean raw"
  by (auto simp: expander_def compileVars_def expand_def substitute_plain split: if_splits)

lemma expander_var:
  assumes "list_all isVarChar name" "name \<noteq> []" "expander ctx (CHR ''$'' # name) = Some p"
  shows "p = filepath_Clean (case gomap_get (fst (compileVars ctx)) name of Some v \<Rightarrow> v | None \<Rightarrow> fc_Env ctx name)"
  using assms(3) substitute_var [OF assms(1,2), of "[]"]
  by (auto simp: expander_def compileVars_def expand_def Let_def split: if_splits)

text \<open>The directories and variables a policy takes from the context and the environment.\<close>

definition dynamic_paths :: "fs_Context \<Rightarrow> string list" where
  "dynamic_paths ctx = [fc_InstanceDir ctx, fc_SessionDir ctx, fc_SocketDir ctx, fc_Env ctx ''MISE_DATA_DIR'', fc_Env ctx ''HOMEBREW_PREFIX'']"

definition home_names :: "string list" where
  "home_names = [''instances'', ''workspace'', ''mounts'', ''.ssh'', ''.gitconfig'', ''.config'', ''.cache'', ''.local'', ''agents'', ''skills'']"

definition fixed_paths :: "string list list" where
  "fixed_paths = [[''tmp''], [''opt'', ''mise''], [''home'', ''linuxbrew'', ''.linuxbrew'']]"

definition var_names :: "string list" where
  "var_names = [''INSTANCE_DIR'', ''SESSION_DIR'', ''SOCKET_DIR'', ''MISE_DATA_DIR'', ''HOMEBREW_PREFIX'']"

lemma default_sets:
  "s \<in> set (granted_sets default_policy ctx) \<Longrightarrow>
   set (as_RW s) \<subseteq> set (map ((@) ''$HOME/'') home_names @ map path_text fixed_paths @ map ((#) (CHR ''$'')) var_names)"
  by (auto simp: granted_sets_def default_policy_def map_filter_def gomap_get_def home_names_def fixed_paths_def
      var_names_def path_text_def split: if_splits)


lemma default_names:
  "\<forall>n\<in>set home_names. plain_component n \<and> CHR ''$'' \<notin> set n \<and> n \<noteq> ''config'' \<and> n \<noteq> ''db''"
  "\<forall>cs\<in>set fixed_paths. plain_path cs \<and> CHR ''$'' \<notin> set (path_text cs) \<and> ''config'' \<notin> set cs \<and> ''db'' \<notin> set cs"
  "\<forall>v\<in>set var_names. list_all isVarChar v \<and> v \<noteq> []"
  by code_simp+

definition protected_name :: "string \<Rightarrow> bool" where
  "protected_name x \<longleftrightarrow> x = ''config'' \<or> x = ''db''"

lemma protected_plain: "protected_name x \<Longrightarrow> plain_component x"
proof -
  have "plain_component ''config''" "plain_component ''db''" by code_simp+
  then show "protected_name x \<Longrightarrow> plain_component x" unfolding protected_name_def by metis
qed

lemma protected_names:
  assumes "protected_name x"
  shows "n \<in> set home_names \<Longrightarrow> n \<noteq> x" "cs \<in> set fixed_paths \<Longrightarrow> x \<notin> set cs"
  using assms default_names(1,2) unfolding protected_name_def by blast+

lemma default_raw:
  assumes "s \<in> set (granted_sets default_policy ctx)" "raw \<in> set (as_RW s)"
  obtains n where "n \<in> set home_names" "raw = ''$HOME/'' @ n"
    | cs where "cs \<in> set fixed_paths" "raw = path_text cs" | v where "v \<in> set var_names" "raw = CHR ''$'' # v"
proof -
  have "raw \<in> (@) ''$HOME/'' ` set home_names \<union> (path_text ` set fixed_paths \<union> (#) (CHR ''$'') ` set var_names)"
    using default_sets [OF assms(1)] assms(2) unfolding set_append set_map by (rule subsetD)
  then show thesis using that by (elim UnE imageE)
qed

lemma var_values:
  "v \<in> set var_names \<Longrightarrow>
   (case gomap_get (fst (compileVars ctx)) v of Some w \<Rightarrow> w | None \<Rightarrow> fc_Env ctx v) \<in> set (dynamic_paths ctx)"
  by (auto simp: var_names_def compileVars_def gomap_get_def dynamic_paths_def)

lemma default_roots:
  assumes h: "fc_Home ctx = path_text hs" "plain_path hs" "hs \<noteq> []" and x: "protected_name x"
    and dyn: "\<And>v. v \<in> set (dynamic_paths ctx) \<Longrightarrow> \<not> under (path_text (hs @ [x])) (filepath_Clean v)"
    and s: "s \<in> set (granted_sets default_policy ctx)" "raw \<in> set (as_RW s)" and e: "expander ctx raw = Some p"
  shows "\<not> under (path_text (hs @ [x])) p"
proof -
  have px: "plain_path (hs @ [x])" using h(2) protected_plain [OF x] by simp
  from s show ?thesis
  proof (cases rule: default_raw)
    case (1 n)
    have n: "plain_component n" "CHR ''$'' \<notin> set n" using 1(1) default_names(1) by blast+
    have "n \<noteq> x" using protected_names(1) [OF x 1(1)] .
    moreover have "p = path_text (hs @ [n])" using e unfolding 1(2) expander_home [OF h n] by simp
    moreover have "plain_path (hs @ [n])" using h(2) n(1) by simp
    ultimately show ?thesis using under_iff [OF _ px, of "hs @ [n]"] by (simp add: under_def)
  next
    case (2 cs)
    have cs: "plain_path cs" "CHR ''$'' \<notin> set (path_text cs)" "x \<notin> set cs"
      using default_names(2) 2(1) protected_names(2) [OF x 2(1)] by blast+
    have "p = path_text cs"
      using expander_static [OF cs(2) e [unfolded 2(2)]] filepath_Clean_plain [OF cs(1)] by (simp add: path_text_def)
    moreover have "\<not> prefix (hs @ [x]) cs" using cs(3) by (auto simp: prefix_def)
    ultimately show ?thesis using under_iff [OF cs(1) px] by (simp add: under_def)
  next
    case (3 v)
    have v: "list_all isVarChar v" "v \<noteq> []" using 3(1) default_names(3) by blast+
    from expander_var [OF v e [unfolded 3(2)]] dyn [OF var_values [OF 3(1)]] show ?thesis by simp
  qed
qed

lemma in_WritableRoots:
  "p \<in> set (WritableRoots pol ctx) \<Longrightarrow> \<exists>s\<in>set (granted_sets pol ctx). \<exists>raw\<in>set (as_RW s). home_path ctx raw = Some p"
  by (auto simp: WritableRoots_def homeSubtreeRoots_def map_filter_def) blast

lemma default_writable:
  assumes h: "fc_Home ctx = path_text hs" "plain_path hs" "hs \<noteq> []" and x: "protected_name x"
    and dyn: "\<And>v. v \<in> set (dynamic_paths ctx) \<Longrightarrow> \<not> under (path_text (hs @ [x])) (filepath_Clean v)"
    and r: "path_text r \<in> set (WritableRoots default_policy ctx)" "plain_path r"
  shows "strict_prefix hs r \<and> \<not> prefix (hs @ [x]) r"
proof -
  obtain s raw where s: "s \<in> set (granted_sets default_policy ctx)" "raw \<in> set (as_RW s)" and hp: "home_path ctx raw = Some (path_text r)"
    using in_WritableRoots r(1) by blast
  then have e: "expander ctx raw = Some (path_text r)" and hr: "path_text r \<noteq> path_text hs" "prefix (path_text hs @ ''/'') (path_text r)"
    using h(1) by (auto simp: home_path_def expander_def split: option.splits if_splits prod.splits)
  have "prefix hs r" "r \<noteq> hs" using under_iff [OF r(2) h(2,3)] hr by auto
  moreover have px: "plain_path (hs @ [x])" using h(2) protected_plain [OF x] by simp
  moreover have "\<not> prefix (hs @ [x]) r" using default_roots [OF h x dyn s e] under_iff [OF r(2) px] by (simp add: under_def)
  ultimately show ?thesis by (auto simp: strict_prefix_def)
qed



definition demo_home :: fsys where
  "demo_home = map_of [([''h''], FDir), ([''h'', ''instances''], FDir), ([''h'', ''instances'', ''i''], FDir), ([''h'', ''config''], FDir),
     ([''h'', ''config'', ''c''], FFile ''secret''), ([''h'', ''workspace''], FDir)]"

definition demo_ctx :: fs_Context where
  "demo_ctx = \<lparr>fc_Home = ''/h'', fc_InstanceDir = ''/h/instances/i'', fc_SessionDir = ''/h/instances/i/s'', fc_SocketDir = ''/tmp/s'',
     fc_Tools = [(''Write'', True)], fc_Env = (\<lambda>_. [])\<rparr>"

definition demo_rs :: "location list" where
  "demo_rs = [[''h'', ''instances''], [''h'', ''instances'', ''i''], [''h'', ''instances'', ''i'', ''s''], [''h'', ''mounts''], [''h'', ''workspace'']]"

lemma demo_ctx_values:
  "WritableRoots default_policy demo_ctx = map path_text demo_rs" "fc_Home demo_ctx = path_text [''h'']"
  "list_all (\<lambda>v. \<not> under (path_text ([''h''] @ [''config''])) (filepath_Clean v)) (dynamic_paths demo_ctx)"
  "resolvePath ''/h/workspace'' ''a'' = ''/h/workspace/a''" "fs_Lstat demo_home ''/h/workspace/a'' = None"
  by code_simp+

definition real_dir_list :: "fsys \<Rightarrow> location \<Rightarrow> bool" where
  "real_dir_list fs r = (list_all plain_component r \<and> list_all (\<lambda>p. node_at fs p = Some FDir) (prefixes r))"

lemma real_dir_code: "real_dir_list fs r \<Longrightarrow> real_dir fs r"
  by (simp add: real_dir_list_def real_dir_def list_all_iff)

lemma demo_rs_ok: "roots_ok demo_home demo_rs"
proof -
  have "list_all (\<lambda>r. r \<noteq> [] \<and> list_all plain_component r \<and> real_dir_list demo_home (butlast r) \<and>
    (case demo_home r of Some (FLink t) \<Rightarrow> False | _ \<Rightarrow> True)) demo_rs" by code_simp
  then show ?thesis unfolding roots_ok_def list_all_iff by (auto simp: demo_rs_def intro: real_dir_code)
qed

lemma demo_home_tree: "fs_tree demo_home"
  by (auto simp: fs_tree_def demo_home_def node_at_def split: if_splits)


end
