(* ===== verification/Terminal_Session.thy ===== *)
theory Terminal_Session
  imports Hiro_Prelude "HOL-Library.Word"
begin

text \<open>
  Terminal sessions, \<open>src/internal/api/terminal_session.go\<close>.  The shells that run and what is sent to shells and
  worker nodes are part of the manager's state.  A method that holds a mutex throughout is one function;
  the creation of a session is split where the code releases the lock.  A session removed from the table
  is dropped: its subscribers are closed, and nobody else finds it.
\<close>

section \<open>Replay buffer\<close>

record replayBuffer =
  rb_buf :: string
  rb_capacity :: nat

definition newReplayBuffer :: "nat \<Rightarrow> replayBuffer" where
  "newReplayBuffer capacity = \<lparr>rb_buf = [], rb_capacity = capacity\<rparr>"

definition replay_Write :: "string \<Rightarrow> replayBuffer \<Rightarrow> replayBuffer" where
  "replay_Write p r =
     (let buf = rb_buf r @ p
      in r\<lparr>rb_buf := if length buf > rb_capacity r then drop (length buf - rb_capacity r) buf else buf\<rparr>)"

definition replay_Bytes :: "replayBuffer \<Rightarrow> string" where
  "replay_Bytes r = rb_buf r"

section \<open>Sessions\<close>

record sessionEvent =
  ev_data :: string
  ev_exited :: bool
  ev_exitCode :: int

text \<open>\<open>te_cmd\<close> is the shell of a local session, absent for a remote one; \<open>te_subs\<close> maps a subscriber to the events
  that wait in its channel.\<close>

record TerminalSession =
  te_ID :: string
  te_NodeID :: string
  te_CreatedAt :: gotime
  te_lastUsed :: gotime
  te_exited :: bool
  te_exitCode :: int
  te_cols :: "16 word"
  te_rows :: "16 word"
  te_cmd :: "nat option"
  te_replay :: replayBuffer
  te_subs :: "(string, sessionEvent list) gomap"

definition subscriberBufferSize :: nat where "subscriberBufferSize = 256"

definition subscribe :: "string \<Rightarrow> TerminalSession \<Rightarrow> TerminalSession" where
  "subscribe subID s = s\<lparr>te_subs := gomap_put subID [] (te_subs s)\<rparr>"

definition unsubscribe :: "string \<Rightarrow> TerminalSession \<Rightarrow> TerminalSession" where
  "unsubscribe subID s = s\<lparr>te_subs := gomap_del subID (te_subs s)\<rparr>"

definition chan_send :: "sessionEvent \<Rightarrow> sessionEvent list \<Rightarrow> sessionEvent list" where
  "chan_send evt ch = (if length ch < subscriberBufferSize then ch @ [evt] else ch)"

definition fanOutData :: "string \<Rightarrow> TerminalSession \<Rightarrow> TerminalSession" where
  "fanOutData data s =
     (let evt = \<lparr>ev_data = data, ev_exited = False, ev_exitCode = 0\<rparr>
      in s\<lparr>te_subs := map (\<lambda>(k, ch). (k, chan_send evt ch)) (te_subs s)\<rparr>)"

definition fanOutExit :: "int \<Rightarrow> TerminalSession \<Rightarrow> TerminalSession" where
  "fanOutExit code s =
     (let evt = \<lparr>ev_data = [], ev_exited = True, ev_exitCode = code\<rparr>
      in s\<lparr>te_subs := map (\<lambda>(k, ch). (k, chan_send evt ch)) (te_subs s)\<rparr>)"

definition hasSubscribers :: "TerminalSession \<Rightarrow> bool" where
  "hasSubscribers s \<longleftrightarrow> te_subs s \<noteq> []"

section \<open>The manager\<close>

datatype term_out =
    CreateTerminal string string "16 word" "16 word"
  | TerminalInput string string string
  | TerminalResize string string "16 word" "16 word"
  | CloseTerminal string string
  | PtyWrite nat string
  | PtySize nat "16 word" "16 word"

record TerminalSessionManager =
  tm_sessions :: "(string, TerminalSession) gomap"
  tm_remote :: bool
  tm_nodeChecker :: "(string \<Rightarrow> bool) option"
  tm_createChans :: "string list"
  tm_stopped :: bool
  tm_shells :: "nat list"
  tm_out :: "term_out list"

datatype term_error =
    TooManyTotal | TooManyOnNode string | PtyFailed | ClusterNotConfigured | NodeUnavailable string
  | TermSendFailed | RemoteCreateFailed string | RemoteCreateTimeout | TermNotFound string | TermExited | NoPty

definition nodeIDHome :: string where "nodeIDHome = ''home''"
definition maxSessionsPerNode :: nat where "maxSessionsPerNode = 5"
definition maxTotalSessions :: nat where "maxTotalSessions = 20"
definition maxReplayBytes :: nat where "maxReplayBytes = 100 * 1024"
definition idleSessionTimeout :: int where "idleSessionTimeout = 24 * 3600 * 1000000000"

definition NewTerminalSessionManager :: TerminalSessionManager where
  "NewTerminalSessionManager =
     \<lparr>tm_sessions = [], tm_remote = False, tm_nodeChecker = None, tm_createChans = [], tm_stopped = False,
      tm_shells = [], tm_out = []\<rparr>"

definition SetRemote :: "TerminalSessionManager \<Rightarrow> TerminalSessionManager" where
  "SetRemote m = m\<lparr>tm_remote := True\<rparr>"

definition SetNodeChecker :: "(string \<Rightarrow> bool) \<Rightarrow> TerminalSessionManager \<Rightarrow> TerminalSessionManager" where
  "SetNodeChecker nc m = m\<lparr>tm_nodeChecker := Some nc\<rparr>"

definition live_on :: "string \<Rightarrow> TerminalSessionManager \<Rightarrow> nat" where
  "live_on nodeID m = length (filter (\<lambda>(_, s). te_NodeID s = nodeID \<and> \<not> te_exited s) (tm_sessions m))"

definition checkLimits :: "string \<Rightarrow> TerminalSessionManager \<Rightarrow> term_error option" where
  "checkLimits nodeID m =
     (if length (tm_sessions m) \<ge> maxTotalSessions then Some TooManyTotal
      else if live_on nodeID m \<ge> maxSessionsPerNode then Some (TooManyOnNode nodeID)
      else None)"

definition update_session ::
  "string \<Rightarrow> (TerminalSession \<Rightarrow> TerminalSession) \<Rightarrow> TerminalSessionManager \<Rightarrow> TerminalSessionManager" where
  "update_session sid f m =
     (case gomap_get (tm_sessions m) sid of
        None \<Rightarrow> m
      | Some s \<Rightarrow> m\<lparr>tm_sessions := gomap_put sid (f s) (tm_sessions m)\<rparr>)"

section \<open>Messages of worker nodes and output of local shells\<close>

text \<open>The reply that is passed on to the waiting creator, if there is one.\<close>

definition HandleTerminalCreated ::
  "string \<Rightarrow> string \<Rightarrow> string \<Rightarrow> TerminalSessionManager \<Rightarrow> string option \<times> TerminalSessionManager" where
  "HandleTerminalCreated nodeID sid errMsg m =
     (if sid \<in> set (tm_createChans m)
      then (Some errMsg, m\<lparr>tm_createChans := removeAll sid (tm_createChans m)\<rparr>)
      else (None, m))"

definition session_output :: "gotime \<Rightarrow> string \<Rightarrow> TerminalSession \<Rightarrow> TerminalSession" where
  "session_output now data s =
     (fanOutData data (s\<lparr>te_replay := replay_Write data (te_replay s)\<rparr>))\<lparr>te_lastUsed := now\<rparr>"

definition session_exit :: "int \<Rightarrow> TerminalSession \<Rightarrow> TerminalSession" where
  "session_exit code s = fanOutExit code (s\<lparr>te_exited := True, te_exitCode := code\<rparr>)"

definition HandleTerminalOutput ::
  "gotime \<Rightarrow> string \<Rightarrow> string \<Rightarrow> string \<Rightarrow> TerminalSessionManager \<Rightarrow> TerminalSessionManager" where
  "HandleTerminalOutput now nodeID sid data m = update_session sid (session_output now data) m"

definition HandleTerminalExited :: "string \<Rightarrow> string \<Rightarrow> int \<Rightarrow> TerminalSessionManager \<Rightarrow> TerminalSessionManager" where
  "HandleTerminalExited nodeID sid exitCode m = update_session sid (session_exit exitCode) m"

text \<open>The two things a round of \<open>outputPump\<close> can do: forward what it read, or end with the shell.\<close>

definition outputPump_data :: "gotime \<Rightarrow> string \<Rightarrow> string \<Rightarrow> TerminalSessionManager \<Rightarrow> TerminalSessionManager" where
  "outputPump_data now sid data m = (if data \<noteq> [] then update_session sid (session_output now data) m else m)"

definition outputPump_end :: "string \<Rightarrow> int \<Rightarrow> TerminalSessionManager \<Rightarrow> TerminalSessionManager" where
  "outputPump_end sid code m = update_session sid (session_exit code) m"

section \<open>Creating sessions\<close>

definition applyDefaultSize :: "16 word \<Rightarrow> 16 word \<Rightarrow> 16 word \<times> 16 word" where
  "applyDefaultSize cols rows = (if cols = 0 then 80 else cols, if rows = 0 then 24 else rows)"

definition newLocalSession ::
  "string \<Rightarrow> gotime \<Rightarrow> string \<Rightarrow> nat \<Rightarrow> 16 word \<Rightarrow> 16 word \<Rightarrow> TerminalSession" where
  "newLocalSession sid now nodeID cmd cols rows =
     \<lparr>te_ID = sid, te_NodeID = nodeID, te_CreatedAt = now, te_lastUsed = now, te_exited = False, te_exitCode = 0,
      te_cols = cols, te_rows = rows, te_cmd = Some cmd, te_replay = newReplayBuffer maxReplayBytes, te_subs = []\<rparr>"

definition newRemoteSession :: "string \<Rightarrow> gotime \<Rightarrow> string \<Rightarrow> 16 word \<Rightarrow> 16 word \<Rightarrow> TerminalSession" where
  "newRemoteSession sid now nodeID cols rows =
     \<lparr>te_ID = sid, te_NodeID = nodeID, te_CreatedAt = now, te_lastUsed = now, te_exited = False, te_exitCode = 0,
      te_cols = cols, te_rows = rows, te_cmd = None, te_replay = newReplayBuffer maxReplayBytes, te_subs = []\<rparr>"

text \<open>What the outside contributes to a creation: clock, random identifier, the started shell (\<open>None\<close> when that
  fails), whether a message can be sent, and the reply of the worker (\<open>None\<close> for a timeout).\<close>

record create_env =
  ce_now :: gotime
  ce_sid :: string
  ce_shell :: "nat option"
  ce_sendOK :: "term_out \<Rightarrow> bool"
  ce_reply :: "string option"

definition createLocal_spawn ::
  "create_env \<Rightarrow> string \<Rightarrow> 16 word \<Rightarrow> 16 word \<Rightarrow> TerminalSessionManager \<Rightarrow>
   (term_error + TerminalSession) \<times> TerminalSessionManager" where
  "createLocal_spawn env nodeID cols rows m =
     (case applyDefaultSize cols rows of (cols, rows) \<Rightarrow>
        case checkLimits nodeID m of
          Some e \<Rightarrow> (Inl e, m)
        | None \<Rightarrow>
            (case ce_shell env of
               None \<Rightarrow> (Inl PtyFailed, m)
             | Some p \<Rightarrow>
                 (Inr (newLocalSession (ce_sid env) (ce_now env) nodeID p cols rows), m\<lparr>tm_shells := tm_shells m @ [p]\<rparr>)))"

definition stop_shell :: "nat option \<Rightarrow> TerminalSessionManager \<Rightarrow> TerminalSessionManager" where
  "stop_shell cmd m = (case cmd of None \<Rightarrow> m | Some p \<Rightarrow> m\<lparr>tm_shells := removeAll p (tm_shells m)\<rparr>)"

definition createLocal_insert ::
  "TerminalSession \<Rightarrow> TerminalSessionManager \<Rightarrow> (term_error + TerminalSession) \<times> TerminalSessionManager" where
  "createLocal_insert s m =
     (case checkLimits (te_NodeID s) m of
        Some e \<Rightarrow> (Inl e, stop_shell (te_cmd s) m)
      | None \<Rightarrow> (Inr s, m\<lparr>tm_sessions := gomap_put (te_ID s) s (tm_sessions m)\<rparr>))"

definition createLocal ::
  "create_env \<Rightarrow> string \<Rightarrow> 16 word \<Rightarrow> 16 word \<Rightarrow> TerminalSessionManager \<Rightarrow>
   (term_error + TerminalSession) \<times> TerminalSessionManager" where
  "createLocal env nodeID cols rows m =
     (case createLocal_spawn env nodeID cols rows m of
        (Inl e, m1) \<Rightarrow> (Inl e, m1)
      | (Inr s, m1) \<Rightarrow> createLocal_insert s m1)"

definition createRemote_register ::
  "create_env \<Rightarrow> string \<Rightarrow> 16 word \<Rightarrow> 16 word \<Rightarrow> TerminalSessionManager \<Rightarrow>
   (term_error + TerminalSession) \<times> TerminalSessionManager" where
  "createRemote_register env nodeID cols rows m =
     (if \<not> tm_remote m then (Inl ClusterNotConfigured, m)
      else if (case tm_nodeChecker m of None \<Rightarrow> False | Some nc \<Rightarrow> \<not> nc nodeID) then (Inl (NodeUnavailable nodeID), m)
      else case applyDefaultSize cols rows of (cols, rows) \<Rightarrow>
        let s = newRemoteSession (ce_sid env) (ce_now env) nodeID cols rows
        in case checkLimits nodeID m of
             Some e \<Rightarrow> (Inl e, m)
           | None \<Rightarrow> (Inr s, m\<lparr>tm_createChans := te_ID s # removeAll (te_ID s) (tm_createChans m),
                               tm_sessions := gomap_put (te_ID s) s (tm_sessions m)\<rparr>))"

definition remote_send ::
  "(term_out \<Rightarrow> bool) \<Rightarrow> term_out \<Rightarrow> TerminalSessionManager \<Rightarrow> bool \<times> TerminalSessionManager" where
  "remote_send sendOK msg m = (if sendOK msg then (True, m\<lparr>tm_out := tm_out m @ [msg]\<rparr>) else (False, m))"

definition drop_session :: "string \<Rightarrow> TerminalSessionManager \<Rightarrow> TerminalSessionManager" where
  "drop_session sid m = m\<lparr>tm_sessions := gomap_del sid (tm_sessions m)\<rparr>"

definition drop_createChan :: "string \<Rightarrow> TerminalSessionManager \<Rightarrow> TerminalSessionManager" where
  "drop_createChan sid m = m\<lparr>tm_createChans := removeAll sid (tm_createChans m)\<rparr>"

text \<open>The end of \<open>sendAndAwaitRemoteCreate\<close>, once the request is sent and the reply or the timeout is there.\<close>

definition awaitRemoteCreate ::
  "(term_out \<Rightarrow> bool) \<Rightarrow> string option \<Rightarrow> TerminalSession \<Rightarrow> TerminalSessionManager \<Rightarrow>
   term_error option \<times> TerminalSessionManager" where
  "awaitRemoteCreate sendOK reply s m =
     (case reply of
        Some errMsg \<Rightarrow>
          if errMsg \<noteq> [] then (Some (RemoteCreateFailed errMsg), drop_session (te_ID s) m) else (None, m)
      | None \<Rightarrow>
          (Some RemoteCreateTimeout,
           snd (remote_send sendOK (CloseTerminal (te_NodeID s) (te_ID s)) (drop_session (te_ID s) (drop_createChan (te_ID s) m)))))"

definition sendRemoteCreate ::
  "(term_out \<Rightarrow> bool) \<Rightarrow> TerminalSession \<Rightarrow> TerminalSessionManager \<Rightarrow> term_error option \<times> TerminalSessionManager" where
  "sendRemoteCreate sendOK s m =
     (case remote_send sendOK (CreateTerminal (te_NodeID s) (te_ID s) (te_cols s) (te_rows s)) m of
        (False, m1) \<Rightarrow> (Some TermSendFailed, drop_session (te_ID s) (drop_createChan (te_ID s) m1))
      | (True, m1) \<Rightarrow> (None, m1))"

definition createRemote ::
  "create_env \<Rightarrow> string \<Rightarrow> 16 word \<Rightarrow> 16 word \<Rightarrow> TerminalSessionManager \<Rightarrow>
   (term_error + TerminalSession) \<times> TerminalSessionManager" where
  "createRemote env nodeID cols rows m =
     (case createRemote_register env nodeID cols rows m of
        (Inl e, m1) \<Rightarrow> (Inl e, m1)
      | (Inr s, m1) \<Rightarrow>
          (case sendRemoteCreate (ce_sendOK env) s m1 of
             (Some e, m2) \<Rightarrow> (Inl e, m2)
           | (None, m2) \<Rightarrow>
               let m3 = (case ce_reply env of Some r \<Rightarrow> snd (HandleTerminalCreated nodeID (te_ID s) r m2) | None \<Rightarrow> m2)
               in case awaitRemoteCreate (ce_sendOK env) (ce_reply env) s m3 of
                    (Some e, m4) \<Rightarrow> (Inl e, m4)
                  | (None, m4) \<Rightarrow> (Inr s, m4)))"

definition term_Create ::
  "create_env \<Rightarrow> string \<Rightarrow> 16 word \<Rightarrow> 16 word \<Rightarrow> TerminalSessionManager \<Rightarrow>
   (term_error + TerminalSession) \<times> TerminalSessionManager" where
  "term_Create env nodeID cols rows m =
     (let nodeID = (if nodeID = [] \<or> nodeID = nodeIDHome then nodeIDHome else nodeID)
      in if nodeID = nodeIDHome then createLocal env nodeID cols rows m else createRemote env nodeID cols rows m)"

section \<open>Clients\<close>

definition term_Attach ::
  "string \<Rightarrow> gotime \<Rightarrow> string \<Rightarrow> TerminalSessionManager \<Rightarrow>
   (term_error + string \<times> string \<times> bool \<times> int) \<times> TerminalSessionManager" where
  "term_Attach subID now sid m =
     (case gomap_get (tm_sessions m) sid of
        None \<Rightarrow> (Inl (TermNotFound sid), m)
      | Some s \<Rightarrow>
          (Inr (subID, replay_Bytes (te_replay s), te_exited s, te_exitCode s),
           update_session sid (\<lambda>s. (subscribe subID s)\<lparr>te_lastUsed := now\<rparr>) m))"

definition term_Detach :: "string \<Rightarrow> string \<Rightarrow> TerminalSessionManager \<Rightarrow> TerminalSessionManager" where
  "term_Detach sid subID m = update_session sid (unsubscribe subID) m"

definition to_terminal ::
  "(term_out \<Rightarrow> bool) \<Rightarrow> TerminalSession \<Rightarrow> term_out \<Rightarrow> (nat \<Rightarrow> term_out) \<Rightarrow> TerminalSessionManager \<Rightarrow>
   term_error option \<times> TerminalSessionManager" where
  "to_terminal sendOK s msg local_msg m =
     (case te_cmd s of
        None \<Rightarrow>
          if tm_remote m
          then (case remote_send sendOK msg m of (ok, m1) \<Rightarrow> (if ok then None else Some TermSendFailed, m1))
          else (Some NoPty, m)
      | Some p \<Rightarrow>
          (case remote_send sendOK (local_msg p) m of (ok, m1) \<Rightarrow> (if ok then None else Some TermSendFailed, m1)))"

definition WriteInput ::
  "(term_out \<Rightarrow> bool) \<Rightarrow> gotime \<Rightarrow> string \<Rightarrow> string \<Rightarrow> TerminalSessionManager \<Rightarrow>
   term_error option \<times> TerminalSessionManager" where
  "WriteInput sendOK now sid data m =
     (case gomap_get (tm_sessions m) sid of
        None \<Rightarrow> (Some (TermNotFound sid), m)
      | Some s \<Rightarrow>
          if te_exited s then (Some TermExited, m)
          else to_terminal sendOK s (TerminalInput (te_NodeID s) sid data) (\<lambda>p. PtyWrite p data)
                 (update_session sid (\<lambda>s. s\<lparr>te_lastUsed := now\<rparr>) m))"

definition Resize ::
  "(term_out \<Rightarrow> bool) \<Rightarrow> gotime \<Rightarrow> string \<Rightarrow> 16 word \<Rightarrow> 16 word \<Rightarrow> TerminalSessionManager \<Rightarrow>
   term_error option \<times> TerminalSessionManager" where
  "Resize sendOK now sid cols rows m =
     (case gomap_get (tm_sessions m) sid of
        None \<Rightarrow> (Some (TermNotFound sid), m)
      | Some s \<Rightarrow>
          if te_exited s then (None, m)
          else to_terminal sendOK s (TerminalResize (te_NodeID s) sid cols rows) (\<lambda>p. PtySize p cols rows)
                 (update_session sid (\<lambda>s. s\<lparr>te_cols := cols, te_rows := rows, te_lastUsed := now\<rparr>) m))"

section \<open>Closing sessions\<close>

text \<open>\<open>killSession\<close> waits until the shell is gone, whether the hangup was enough or not.\<close>

definition killSession :: "(term_out \<Rightarrow> bool) \<Rightarrow> TerminalSession \<Rightarrow> TerminalSessionManager \<Rightarrow> TerminalSessionManager" where
  "killSession sendOK s m =
     (if te_exited s then m
      else case te_cmd s of
             None \<Rightarrow> if tm_remote m then snd (remote_send sendOK (CloseTerminal (te_NodeID s) (te_ID s)) m) else m
           | Some p \<Rightarrow> stop_shell (Some p) m)"

definition term_Close ::
  "(term_out \<Rightarrow> bool) \<Rightarrow> string \<Rightarrow> TerminalSessionManager \<Rightarrow> term_error option \<times> TerminalSessionManager" where
  "term_Close sendOK sid m =
     (case gomap_get (tm_sessions m) sid of
        None \<Rightarrow> (Some (TermNotFound sid), m)
      | Some s \<Rightarrow> (None, killSession sendOK s (drop_session sid m)))"

definition close_all :: "(term_out \<Rightarrow> bool) \<Rightarrow> string list \<Rightarrow> TerminalSessionManager \<Rightarrow> TerminalSessionManager" where
  "close_all sendOK ids m = fold (\<lambda>sid m. snd (term_Close sendOK sid m)) ids m"

definition SweepExited :: "(term_out \<Rightarrow> bool) \<Rightarrow> TerminalSessionManager \<Rightarrow> TerminalSessionManager" where
  "SweepExited sendOK m =
     close_all sendOK (map fst (filter (\<lambda>(_, s). te_exited s \<and> \<not> hasSubscribers s) (tm_sessions m))) m"

definition cleanupIdle :: "(term_out \<Rightarrow> bool) \<Rightarrow> gotime \<Rightarrow> TerminalSessionManager \<Rightarrow> TerminalSessionManager" where
  "cleanupIdle sendOK now m =
     close_all sendOK
       (map fst (filter (\<lambda>(_, s). \<not> hasSubscribers s \<and> now - te_lastUsed s > idleSessionTimeout) (tm_sessions m))) m"

definition term_Shutdown :: "(term_out \<Rightarrow> bool) \<Rightarrow> TerminalSessionManager \<Rightarrow> TerminalSessionManager" where
  "term_Shutdown sendOK m =
     fold (\<lambda>(_, s). killSession sendOK s) (tm_sessions m) (m\<lparr>tm_stopped := True, tm_sessions := []\<rparr>)"

record TerminalSessionInfo =
  ti_ID :: string
  ti_NodeID :: string
  ti_CreatedAt :: gotime
  ti_Exited :: bool
  ti_ExitCode :: int

definition term_List :: "TerminalSessionManager \<Rightarrow> TerminalSessionInfo list" where
  "term_List m = map (\<lambda>(_, s). \<lparr>ti_ID = te_ID s, ti_NodeID = te_NodeID s, ti_CreatedAt = te_CreatedAt s,
     ti_Exited = te_exited s, ti_ExitCode = te_exitCode s\<rparr>) (tm_sessions m)"

end
