(* ===== verification/Terminal_Stream.thy ===== *)
theory Terminal_Stream
  imports Terminal_Session
begin

text \<open>
  What a client of a terminal sees: the output pump of a session and an attaching client, interleaved at the granularity of
  the three mutexes (\<open>sess.mu\<close>, \<open>subsMu\<close> and that of the replay buffer).  The specification is a log: everything
  the shell wrote, in order.
\<close>

section \<open>The replay buffer is the end of the log\<close>

definition lastn :: "nat \<Rightarrow> 'a list \<Rightarrow> 'a list" where
  "lastn n xs = drop (length xs - n) xs"

lemma lastn_append: "lastn n (lastn n xs @ ys) = lastn n (xs @ ys)"
  by (cases "n \<le> length xs") (auto simp: lastn_def add.commute)

lemma lastn_all: "length xs \<le> n \<Longrightarrow> lastn n xs = xs"
  by (simp add: lastn_def)

lemma replay_Write_log:
  "rb_buf r = lastn (rb_capacity r) h \<Longrightarrow>
   rb_buf (replay_Write p r) = lastn (rb_capacity (replay_Write p r)) (h @ p) \<and> rb_capacity (replay_Write p r) = rb_capacity r"
proof -
  assume r: "rb_buf r = lastn (rb_capacity r) h"
  have "rb_buf (replay_Write p r) = lastn (rb_capacity r) (rb_buf r @ p)" "rb_capacity (replay_Write p r) = rb_capacity r"
    by (simp_all add: replay_Write_def Let_def lastn_def)
  then show ?thesis unfolding r lastn_append by simp
qed

section \<open>Pump and client\<close>

definition ptyReadBufferSize :: nat where "ptyReadBufferSize = 32 * 1024"

datatype pump = Reading | Written string | Delivered | Exiting int | Ended

datatype client_phase = Detached | Subscribed | Attached

record stream =
  st_sess :: TerminalSession
  st_pump :: pump
  st_phase :: client_phase
  st_replay :: string
  st_exited :: bool
  st_got :: "sessionEvent list"
  st_log :: string
  st_sent :: string
  st_log_attach :: string
  st_full :: bool

definition channel :: "string \<Rightarrow> stream \<Rightarrow> sessionEvent list" where
  "channel cid t = (case gomap_get (te_subs (st_sess t)) cid of None \<Rightarrow> [] | Some ch \<Rightarrow> ch)"

definition chan_full :: "string \<Rightarrow> stream \<Rightarrow> bool" where
  "chan_full cid t \<longleftrightarrow> gomap_get (te_subs (st_sess t)) cid \<noteq> None \<and> length (channel cid t) \<ge> subscriberBufferSize"

text \<open>\<open>sess.mu\<close> is held by an attaching client until it has taken its snapshot.  \<open>st_log\<close>, \<open>st_sent\<close>, \<open>st_log_attach\<close> and
  \<open>st_full\<close> only observe: the log, what was fanned out, the log at the time of the snapshot, and whether the channel of
  the client was ever full when something was sent to it.\<close>

inductive stream_step :: "string \<Rightarrow> stream \<Rightarrow> stream \<Rightarrow> bool" for cid where
  pump_write: "st_pump t = Reading \<Longrightarrow> data \<noteq> [] \<Longrightarrow> length data \<le> ptyReadBufferSize \<Longrightarrow>
     stream_step cid t (t\<lparr>st_sess := (st_sess t)\<lparr>te_replay := replay_Write data (te_replay (st_sess t))\<rparr>,
       st_pump := Written data, st_log := st_log t @ data\<rparr>)"
| fan_out: "st_pump t = Written data \<Longrightarrow>
     stream_step cid t (t\<lparr>st_sess := fanOutData data (st_sess t), st_pump := Delivered, st_sent := st_sent t @ data,
       st_full := st_full t \<or> chan_full cid t\<rparr>)"
| touch: "st_pump t = Delivered \<Longrightarrow> st_phase t \<noteq> Subscribed \<Longrightarrow>
     stream_step cid t (t\<lparr>st_sess := (st_sess t)\<lparr>te_lastUsed := now\<rparr>, st_pump := Reading\<rparr>)"
| exit: "st_pump t = Reading \<Longrightarrow> st_phase t \<noteq> Subscribed \<Longrightarrow>
     stream_step cid t (t\<lparr>st_sess := (st_sess t)\<lparr>te_exited := True, te_exitCode := code\<rparr>, st_pump := Exiting code\<rparr>)"
| fan_exit: "st_pump t = Exiting code \<Longrightarrow>
     stream_step cid t (t\<lparr>st_sess := fanOutExit code (st_sess t), st_pump := Ended, st_full := st_full t \<or> chan_full cid t\<rparr>)"
| subscribe: "st_phase t = Detached \<Longrightarrow>
     stream_step cid t (t\<lparr>st_sess := subscribe cid (st_sess t), st_phase := Subscribed, st_got := [], st_full := False\<rparr>)"
| snapshot: "st_phase t = Subscribed \<Longrightarrow>
     stream_step cid t (t\<lparr>st_replay := replay_Bytes (te_replay (st_sess t)), st_exited := te_exited (st_sess t),
       st_phase := Attached, st_log_attach := st_log t\<rparr>)"
| receive: "gomap_get (te_subs (st_sess t)) cid = Some (e # es) \<Longrightarrow>
     stream_step cid t (t\<lparr>st_sess := (st_sess t)\<lparr>te_subs := gomap_put cid es (te_subs (st_sess t))\<rparr>, st_got := st_got t @ [e]\<rparr>)"
| detach: "st_phase t = Attached \<Longrightarrow>
     stream_step cid t (t\<lparr>st_sess := unsubscribe cid (st_sess t), st_phase := Detached\<rparr>)"
| other_subscribes: "k \<noteq> cid \<Longrightarrow> stream_step cid t (t\<lparr>st_sess := subscribe k (st_sess t)\<rparr>)"
| other_leaves: "k \<noteq> cid \<Longrightarrow> stream_step cid t (t\<lparr>st_sess := unsubscribe k (st_sess t)\<rparr>)"
| other_receives: "k \<noteq> cid \<Longrightarrow> gomap_get (te_subs (st_sess t)) k = Some (e # es) \<Longrightarrow>
     stream_step cid t (t\<lparr>st_sess := (st_sess t)\<lparr>te_subs := gomap_put k es (te_subs (st_sess t))\<rparr>\<rparr>)"

definition stream_start :: "TerminalSession \<Rightarrow> stream" where
  "stream_start s = \<lparr>st_sess = s, st_pump = Reading, st_phase = Detached, st_replay = [], st_exited = False, st_got = [],
     st_log = [], st_sent = [], st_log_attach = [], st_full = False\<rparr>"

section \<open>The invariant\<close>

definition live_output :: "string \<Rightarrow> stream \<Rightarrow> string" where
  "live_output cid t = concat (map ev_data (st_got t @ channel cid t))"

fun pending :: "pump \<Rightarrow> string" where
  "pending (Written data) = data"
| "pending _ = []"

definition exit_known :: "string \<Rightarrow> stream \<Rightarrow> bool" where
  "exit_known cid t \<longleftrightarrow> st_exited t \<or> (\<exists>e \<in> set (st_got t @ channel cid t). ev_exited e \<and> ev_exitCode e = te_exitCode (st_sess t))"

text \<open>The log as a client that is about to take its snapshot, or has done so, can put it together.\<close>

definition catches_up :: "string \<Rightarrow> string \<Rightarrow> stream \<Rightarrow> bool" where
  "catches_up cid h t \<longleftrightarrow> (\<exists>before repeated. h = before @ repeated \<and> length repeated \<le> ptyReadBufferSize \<and>
     st_sent t = before @ live_output cid t)"

definition buffer_ok :: "stream \<Rightarrow> bool" where
  "buffer_ok t \<longleftrightarrow> gomap_ok (te_subs (st_sess t)) \<and> rb_capacity (te_replay (st_sess t)) = maxReplayBytes \<and>
     rb_buf (te_replay (st_sess t)) = lastn maxReplayBytes (st_log t) \<and> st_log t = st_sent t @ pending (st_pump t) \<and>
     length (pending (st_pump t)) \<le> ptyReadBufferSize"

definition exits_ok :: "string \<Rightarrow> stream \<Rightarrow> bool" where
  "exits_ok cid t \<longleftrightarrow> (\<forall>code. st_pump t = Exiting code \<longrightarrow> te_exited (st_sess t) \<and> te_exitCode (st_sess t) = code) \<and>
     (st_pump t = Ended \<longrightarrow> te_exited (st_sess t)) \<and>
     (st_phase t = Attached \<and> \<not> st_full t \<and> st_pump t = Ended \<longrightarrow> exit_known cid t)"

definition client_ok :: "string \<Rightarrow> stream \<Rightarrow> bool" where
  "client_ok cid t \<longleftrightarrow>
     (case st_phase t of
        Detached \<Rightarrow> gomap_get (te_subs (st_sess t)) cid = None
      | Subscribed \<Rightarrow> gomap_get (te_subs (st_sess t)) cid \<noteq> None \<and>
          (\<not> st_full t \<longrightarrow> catches_up cid (st_log t) t \<and> (st_pump t \<noteq> Delivered \<longrightarrow> live_output cid t = []))
      | Attached \<Rightarrow> gomap_get (te_subs (st_sess t)) cid \<noteq> None \<and> st_replay t = lastn maxReplayBytes (st_log_attach t) \<and>
          (\<not> st_full t \<longrightarrow> catches_up cid (st_log_attach t) t))"

definition stream_ok :: "string \<Rightarrow> stream \<Rightarrow> bool" where
  "stream_ok cid t \<longleftrightarrow> buffer_ok t \<and> exits_ok cid t \<and> client_ok cid t"

lemma get_fanOut: "gomap_get (map (\<lambda>(k, ch). (k, f ch)) m) k = map_option f (gomap_get m k)"
  by (induction m) (auto simp: gomap_get_def)

lemma ok_fanOut: "gomap_ok (map (\<lambda>(k, ch). (k, f ch)) m) \<longleftrightarrow> gomap_ok m"
  by (simp add: gomap_ok_def comp_def case_prod_unfold)

lemmas subs_simps = fanOutData_def fanOutExit_def subscribe_def unsubscribe_def Let_def get_fanOut ok_fanOut

text \<open>What is sent to a channel that is not full arrives.\<close>

lemma live_send:
  assumes "gomap_get (te_subs (st_sess t)) cid \<noteq> None" "\<not> chan_full cid t" "st_got t' = st_got t"
    and "te_subs (st_sess t') = map (\<lambda>(k, ch). (k, chan_send e ch)) (te_subs (st_sess t))"
  shows "channel cid t' = channel cid t @ [e]" "live_output cid t' = live_output cid t @ ev_data e"
proof -
  show c: "channel cid t' = channel cid t @ [e]"
    using assms by (auto simp: channel_def chan_full_def chan_send_def get_fanOut)
  then show "live_output cid t' = live_output cid t @ ev_data e" by (simp add: live_output_def assms(3))
qed

lemma same_view:
  assumes "gomap_get (te_subs (st_sess t')) cid = gomap_get (te_subs (st_sess t)) cid" "st_got t' = st_got t"
  shows "channel cid t' = channel cid t" "live_output cid t' = live_output cid t"
  using assms by (simp_all add: channel_def live_output_def)

lemma buffer_step: "stream_step cid t t' \<Longrightarrow> buffer_ok t \<Longrightarrow> buffer_ok t'"
proof (induction rule: stream_step.induct)
  case (pump_write t data)
  then show ?case using replay_Write_log [of "te_replay (st_sess t)" "st_log t" data] by (auto simp: buffer_ok_def)
qed (auto simp: buffer_ok_def subs_simps)

lemma exits_step:
  assumes "stream_step cid t t'" "client_ok cid t" "exits_ok cid t"
  shows "exits_ok cid t'"
  using assms
proof (induction rule: stream_step.induct)
  case (fan_exit t code)
  let ?t' = "t\<lparr>st_sess := fanOutExit code (st_sess t), st_pump := Ended, st_full := st_full t \<or> chan_full cid t\<rparr>"
  have "exit_known cid ?t'" if "st_phase t = Attached" "\<not> st_full t" "\<not> chan_full cid t"
  proof -
    have "channel cid ?t' = channel cid t @ [\<lparr>ev_data = [], ev_exited = True, ev_exitCode = code\<rparr>]"
      by (rule live_send) (use that fan_exit(2) in \<open>auto simp: client_ok_def subs_simps\<close>)
    then show ?thesis using fan_exit(1,3) by (auto simp: exit_known_def exits_ok_def fanOutExit_def Let_def)
  qed
  then show ?case using fan_exit by (auto simp: exits_ok_def fanOutExit_def Let_def)
next
  case (receive t e es)
  then show ?case by (auto simp: exits_ok_def exit_known_def channel_def)
qed (auto simp: exits_ok_def exit_known_def channel_def subs_simps)

lemma client_step:
  assumes "stream_step cid t t'" "buffer_ok t" "client_ok cid t"
  shows "client_ok cid t'"
  using assms
proof (induction rule: stream_step.induct)
  case (pump_write t data)
  let ?t' = "t\<lparr>st_sess := (st_sess t)\<lparr>te_replay := replay_Write data (te_replay (st_sess t))\<rparr>, st_pump := Written data, st_log := st_log t @ data\<rparr>"
  have v: "live_output cid ?t' = live_output cid t" by (rule same_view) simp_all
  have "catches_up cid (st_log t @ data) ?t'" if "live_output cid t = []"
    unfolding catches_up_def v
    by (rule exI [of _ "st_log t"], rule exI [of _ data]) (use pump_write that in \<open>simp add: buffer_ok_def\<close>)
  then show ?case using pump_write(1,5) v by (auto simp: client_ok_def catches_up_def split: client_phase.splits)
next
  case (fan_out t data)
  define t' where "t' = t\<lparr>st_sess := fanOutData data (st_sess t), st_pump := Delivered, st_sent := st_sent t @ data, st_full := st_full t \<or> chan_full cid t\<rparr>"
  have same: "st_phase t' = st_phase t" "st_log t' = st_log t" "st_log_attach t' = st_log_attach t" "st_replay t' = st_replay t"
    "st_full t' \<longleftrightarrow> st_full t \<or> chan_full cid t" "st_pump t' = Delivered" "st_sent t' = st_sent t @ data"
    "gomap_get (te_subs (st_sess t')) cid = None \<longleftrightarrow> gomap_get (te_subs (st_sess t)) cid = None"
    by (simp_all add: t'_def subs_simps)
  have "live_output cid t' = live_output cid t @ data" if "st_phase t \<noteq> Detached" "\<not> chan_full cid t"
  proof -
    have "live_output cid t' = live_output cid t @ ev_data \<lparr>ev_data = data, ev_exited = False, ev_exitCode = 0\<rparr>"
      by (rule live_send) (use that fan_out(3) in \<open>auto simp: t'_def client_ok_def subs_simps split: client_phase.splits\<close>)
    then show ?thesis by simp
  qed
  then have "catches_up cid h t \<Longrightarrow> catches_up cid h t'" if "st_phase t \<noteq> Detached" "\<not> chan_full cid t" for h
    using that unfolding catches_up_def same by fastforce
  then have "client_ok cid t'" using fan_out(3) by (cases "st_phase t") (auto simp: client_ok_def same)
  then show ?case unfolding t'_def .
next
  case (fan_exit t code)
  define t' where "t' = t\<lparr>st_sess := fanOutExit code (st_sess t), st_pump := Ended, st_full := st_full t \<or> chan_full cid t\<rparr>"
  have same: "st_phase t' = st_phase t" "st_log t' = st_log t" "st_log_attach t' = st_log_attach t" "st_replay t' = st_replay t"
    "st_full t' \<longleftrightarrow> st_full t \<or> chan_full cid t" "st_pump t' = Ended" "st_sent t' = st_sent t"
    "gomap_get (te_subs (st_sess t')) cid = None \<longleftrightarrow> gomap_get (te_subs (st_sess t)) cid = None"
    by (simp_all add: t'_def subs_simps)
  have "live_output cid t' = live_output cid t" if "st_phase t \<noteq> Detached" "\<not> chan_full cid t"
  proof -
    have "live_output cid t' = live_output cid t @ ev_data \<lparr>ev_data = [], ev_exited = True, ev_exitCode = code\<rparr>"
      by (rule live_send) (use that fan_exit(3) in \<open>auto simp: t'_def client_ok_def subs_simps split: client_phase.splits\<close>)
    then show ?thesis by simp
  qed
  then have "client_ok cid t'"
    using fan_exit(1,3) by (cases "st_phase t") (auto simp: client_ok_def catches_up_def same)
  then show ?case unfolding t'_def .
next
  case (subscribe t)
  let ?t' = "t\<lparr>st_sess := Terminal_Session.subscribe cid (st_sess t), st_phase := Subscribed, st_got := [], st_full := False\<rparr>"
  have l: "live_output cid ?t' = []" by (simp add: live_output_def channel_def subs_simps)
  have "catches_up cid (st_log t) ?t'"
    unfolding catches_up_def l
    by (rule exI [of _ "st_sent t"], rule exI [of _ "pending (st_pump t)"]) (use subscribe in \<open>simp add: buffer_ok_def\<close>)
  then show ?case using l by (simp add: client_ok_def subs_simps)
next
  case (snapshot t)
  then show ?case by (auto simp: client_ok_def buffer_ok_def replay_Bytes_def catches_up_def live_output_def channel_def)
next
  case (receive t e es)
  let ?t' = "t\<lparr>st_sess := (st_sess t)\<lparr>te_subs := gomap_put cid es (te_subs (st_sess t))\<rparr>, st_got := st_got t @ [e]\<rparr>"
  have "live_output cid ?t' = live_output cid t" using receive(1) by (simp add: live_output_def channel_def)
  then show ?case using receive by (auto simp: client_ok_def catches_up_def split: client_phase.splits)
next
  case (touch t now)
  have "live_output cid (t\<lparr>st_sess := (st_sess t)\<lparr>te_lastUsed := now\<rparr>, st_pump := Reading\<rparr>) = live_output cid t" by (rule same_view) simp_all
  then show ?case using touch by (auto simp: client_ok_def catches_up_def split: client_phase.splits)
next
  case (exit t code)
  have "live_output cid (t\<lparr>st_sess := (st_sess t)\<lparr>te_exited := True, te_exitCode := code\<rparr>, st_pump := Exiting code\<rparr>) = live_output cid t"
    by (rule same_view) simp_all
  then show ?case using exit by (auto simp: client_ok_def catches_up_def split: client_phase.splits)
next
  case (other_subscribes k t)
  have "live_output cid (t\<lparr>st_sess := Terminal_Session.subscribe k (st_sess t)\<rparr>) = live_output cid t"
    by (rule same_view) (use other_subscribes(1) in \<open>simp_all add: subs_simps\<close>)
  then show ?case using other_subscribes by (auto simp: client_ok_def catches_up_def subs_simps split: client_phase.splits)
next
  case (other_leaves k t)
  have "live_output cid (t\<lparr>st_sess := unsubscribe k (st_sess t)\<rparr>) = live_output cid t"
    by (rule same_view) (use other_leaves(1) in \<open>simp_all add: subs_simps\<close>)
  then show ?case using other_leaves by (auto simp: client_ok_def catches_up_def subs_simps split: client_phase.splits)
next
  case (other_receives k t e es)
  have "live_output cid (t\<lparr>st_sess := (st_sess t)\<lparr>te_subs := gomap_put k es (te_subs (st_sess t))\<rparr>\<rparr>) = live_output cid t"
    by (rule same_view) (use other_receives(1) in simp_all)
  then show ?case using other_receives by (auto simp: client_ok_def catches_up_def split: client_phase.splits)
qed (auto simp: client_ok_def subs_simps)

lemma stream_reachable_ok:
  assumes "(stream_step cid)\<^sup>*\<^sup>* (stream_start (newLocalSession sid now node p cols rows)) t"
  shows "stream_ok cid t"
  using assms
proof (induction rule: rtranclp_induct)
  case base
  then show ?case by (simp add: stream_ok_def stream_start_def newLocalSession_def buffer_ok_def exits_ok_def client_ok_def
      newReplayBuffer_def lastn_def)
next
  case (step t t')
  then show ?case by (auto simp: stream_ok_def intro: buffer_step exits_step client_step)
qed

section \<open>What a client sees\<close>


section \<open>Repeated output\<close>

definition demo_shell :: TerminalSession where
  "demo_shell = newLocalSession ''s'' 0 ''home'' 7 80 24"

text \<open>The pump writes to the replay buffer, a client attaches, and the pump delivers the same bytes.\<close>

lemma attach_repeats_output:
  "\<exists>t. (stream_step ''c'')\<^sup>*\<^sup>* (stream_start demo_shell) t \<and> st_phase t = Attached \<and> \<not> st_full t \<and>
     st_log t = ''hi'' \<and> st_replay t = ''hi'' \<and> live_output ''c'' t = ''hi''"
proof -
  let ?t0 = "stream_start demo_shell"
  let ?t1 = "?t0\<lparr>st_sess := (st_sess ?t0)\<lparr>te_replay := replay_Write ''hi'' (te_replay (st_sess ?t0))\<rparr>, st_pump := Written ''hi'', st_log := st_log ?t0 @ ''hi''\<rparr>"
  let ?t2 = "?t1\<lparr>st_sess := subscribe ''c'' (st_sess ?t1), st_phase := Subscribed, st_got := [], st_full := False\<rparr>"
  let ?t3 = "?t2\<lparr>st_replay := replay_Bytes (te_replay (st_sess ?t2)), st_exited := te_exited (st_sess ?t2), st_phase := Attached, st_log_attach := st_log ?t2\<rparr>"
  let ?t4 = "?t3\<lparr>st_sess := fanOutData ''hi'' (st_sess ?t3), st_pump := Delivered, st_sent := st_sent ?t3 @ ''hi'', st_full := st_full ?t3 \<or> chan_full ''c'' ?t3\<rparr>"
  have "stream_step ''c'' ?t0 ?t1" by (rule stream_step.pump_write) (simp_all add: stream_start_def ptyReadBufferSize_def)
  moreover have "stream_step ''c'' ?t1 ?t2" by (rule stream_step.subscribe) (simp add: stream_start_def)
  moreover have "stream_step ''c'' ?t2 ?t3" by (rule stream_step.snapshot) simp
  moreover have "stream_step ''c'' ?t3 ?t4" by (rule stream_step.fan_out) simp
  ultimately have "(stream_step ''c'')\<^sup>*\<^sup>* ?t0 ?t4" by (meson converse_rtranclp_into_rtranclp rtranclp.rtrancl_refl)
  then show ?thesis
    by (intro exI [of _ ?t4] conjI)
      (simp_all add: stream_start_def demo_shell_def newLocalSession_def newReplayBuffer_def maxReplayBytes_def replay_Write_def
        replay_Bytes_def subs_simps chan_send_def subscriberBufferSize_def chan_full_def live_output_def channel_def gomap_put_def gomap_get_def)
qed


end
