(* ===== verification/Terminal_Safety.thy ===== *)
theory Terminal_Safety
  imports Terminal_Session
begin

text \<open>
  The terminal session manager with all its callers at work: limits, shells without a session, and what
  cleaning up and shutting down remove.  \<open>term_sys\<close> adds to the manager the shells started by creations that have not
  yet been entered into the table, and the remote creations that wait, with whether the request is sent.
\<close>

section \<open>Concurrent callers\<close>

record term_sys =
  sy_mgr :: TerminalSessionManager
  sy_spawned :: "TerminalSession list"
  sy_waiting :: "(TerminalSession \<times> bool) list"

definition shells_of :: "TerminalSession list \<Rightarrow> nat list" where
  "shells_of ss = List.map_filter te_cmd ss"

definition table_shells :: "TerminalSessionManager \<Rightarrow> nat list" where
  "table_shells m = shells_of (map snd (tm_sessions m))"

definition fresh_id :: "string \<Rightarrow> term_sys \<Rightarrow> bool" where
  "fresh_id sid sy \<longleftrightarrow> gomap_get (tm_sessions (sy_mgr sy)) sid = None \<and> sid \<notin> te_ID ` set (sy_spawned sy) \<union> (te_ID \<circ> fst) ` set (sy_waiting sy)"

definition fresh_shell :: "nat option \<Rightarrow> term_sys \<Rightarrow> bool" where
  "fresh_shell cmd sy \<longleftrightarrow> (case cmd of None \<Rightarrow> True | Some p \<Rightarrow>
     p \<notin> set (tm_shells (sy_mgr sy)) \<union> set (table_shells (sy_mgr sy)) \<union> set (shells_of (sy_spawned sy)))"

text \<open>Identifiers are random and a new shell is not an old one; a node reports the exit of its own sessions only, and
  the output pump ends after the shell.\<close>

inductive term_step :: "term_sys \<Rightarrow> term_sys \<Rightarrow> bool" where
  spawn: "createLocal_spawn env nodeIDHome cols rows (sy_mgr sy) = (Inr s, m) \<Longrightarrow> fresh_id (ce_sid env) sy \<Longrightarrow>
     fresh_shell (ce_shell env) sy \<Longrightarrow> term_step sy (sy\<lparr>sy_mgr := m, sy_spawned := s # sy_spawned sy\<rparr>)"
| insert: "sy_spawned sy = ss @ s # ss' \<Longrightarrow> createLocal_insert s (sy_mgr sy) = (r, m) \<Longrightarrow>
     term_step sy (sy\<lparr>sy_mgr := m, sy_spawned := ss @ ss'\<rparr>)"
| register: "nodeID \<noteq> nodeIDHome \<Longrightarrow> fresh_id (ce_sid env) sy \<Longrightarrow>
     createRemote_register env nodeID cols rows (sy_mgr sy) = (Inr s, m) \<Longrightarrow>
     term_step sy (sy\<lparr>sy_mgr := m, sy_waiting := (s, False) # sy_waiting sy\<rparr>)"
| send: "(s, False) \<in> set (sy_waiting sy) \<Longrightarrow> sendRemoteCreate sendOK s (sy_mgr sy) = (r, m) \<Longrightarrow>
     term_step sy (sy\<lparr>sy_mgr := m, sy_waiting := (if r = None then [(s, True)] else []) @ removeAll (s, False) (sy_waiting sy)\<rparr>)"
| await: "(s, True) \<in> set (sy_waiting sy) \<Longrightarrow> awaitRemoteCreate sendOK reply s (sy_mgr sy) = (r, m) \<Longrightarrow>
     term_step sy (sy\<lparr>sy_mgr := m, sy_waiting := removeAll (s, True) (sy_waiting sy)\<rparr>)"
| created: "HandleTerminalCreated nodeID sid msg (sy_mgr sy) = (r, m) \<Longrightarrow> term_step sy (sy\<lparr>sy_mgr := m\<rparr>)"
| node_output: "term_step sy (sy\<lparr>sy_mgr := HandleTerminalOutput now nodeID sid data (sy_mgr sy)\<rparr>)"
| node_exited: "(\<And>s. gomap_get (tm_sessions (sy_mgr sy)) sid = Some s \<Longrightarrow> te_cmd s = None) \<Longrightarrow>
     term_step sy (sy\<lparr>sy_mgr := HandleTerminalExited nodeID sid code (sy_mgr sy)\<rparr>)"
| shell_output: "term_step sy (sy\<lparr>sy_mgr := outputPump_data now sid data (sy_mgr sy)\<rparr>)"
| shell_ends: "term_step sy (sy\<lparr>sy_mgr := stop_shell (Some p) (sy_mgr sy)\<rparr>)"
| pump_ends: "(\<And>s p. gomap_get (tm_sessions (sy_mgr sy)) sid = Some s \<Longrightarrow> te_cmd s = Some p \<Longrightarrow> p \<notin> set (tm_shells (sy_mgr sy))) \<Longrightarrow>
     term_step sy (sy\<lparr>sy_mgr := outputPump_end sid code (sy_mgr sy)\<rparr>)"
| attach: "term_Attach subID now sid (sy_mgr sy) = (r, m) \<Longrightarrow> term_step sy (sy\<lparr>sy_mgr := m\<rparr>)"
| detach: "term_step sy (sy\<lparr>sy_mgr := term_Detach sid subID (sy_mgr sy)\<rparr>)"
| input: "WriteInput sendOK now sid data (sy_mgr sy) = (r, m) \<Longrightarrow> term_step sy (sy\<lparr>sy_mgr := m\<rparr>)"
| resize: "Resize sendOK now sid cols rows (sy_mgr sy) = (r, m) \<Longrightarrow> term_step sy (sy\<lparr>sy_mgr := m\<rparr>)"
| close: "term_Close sendOK sid (sy_mgr sy) = (r, m) \<Longrightarrow> term_step sy (sy\<lparr>sy_mgr := m\<rparr>)"
| sweep: "term_step sy (sy\<lparr>sy_mgr := SweepExited sendOK (sy_mgr sy)\<rparr>)"
| idle: "term_step sy (sy\<lparr>sy_mgr := cleanupIdle sendOK now (sy_mgr sy)\<rparr>)"
| shutdown: "term_step sy (sy\<lparr>sy_mgr := term_Shutdown sendOK (sy_mgr sy)\<rparr>)"
| cluster: "term_step sy (sy\<lparr>sy_mgr := SetNodeChecker nc (SetRemote (sy_mgr sy))\<rparr>)"

definition term_start :: term_sys where
  "term_start = \<lparr>sy_mgr = NewTerminalSessionManager, sy_spawned = [], sy_waiting = []\<rparr>"

definition term_reachable :: "term_sys \<Rightarrow> bool" where
  "term_reachable sy \<longleftrightarrow> term_step\<^sup>*\<^sup>* term_start sy"

section \<open>The invariant\<close>

definition limits_ok :: "TerminalSessionManager \<Rightarrow> bool" where
  "limits_ok m \<longleftrightarrow> length (tm_sessions m) \<le> maxTotalSessions \<and> (\<forall>node. live_on node m \<le> maxSessionsPerNode)"

definition table_ok :: "TerminalSessionManager \<Rightarrow> bool" where
  "table_ok m \<longleftrightarrow> gomap_ok (tm_sessions m) \<and>
     (\<forall>sid s. gomap_get (tm_sessions m) sid = Some s \<longrightarrow> te_ID s = sid \<and>
        (te_NodeID s = nodeIDHome \<longleftrightarrow> te_cmd s \<noteq> None) \<and>
        (\<forall>p. te_exited s \<and> te_cmd s = Some p \<longrightarrow> p \<notin> set (tm_shells m)))"

text \<open>Every shell that runs belongs to a session of the table or to a creation under way, and to one only.\<close>

definition shells_ok :: "term_sys \<Rightarrow> bool" where
  "shells_ok sy \<longleftrightarrow>
     (\<forall>p \<in> set (tm_shells (sy_mgr sy)). p \<in> set (table_shells (sy_mgr sy)) \<union> set (shells_of (sy_spawned sy))) \<and>
     distinct (table_shells (sy_mgr sy) @ shells_of (sy_spawned sy))"

definition spawned_ok :: "term_sys \<Rightarrow> bool" where
  "spawned_ok sy \<longleftrightarrow> distinct (map te_ID (sy_spawned sy)) \<and>
     (\<forall>s \<in> set (sy_spawned sy). gomap_get (tm_sessions (sy_mgr sy)) (te_ID s) = None \<and> te_NodeID s = nodeIDHome \<and>
        te_cmd s \<noteq> None \<and> \<not> te_exited s)"

definition waiting_ok :: "term_sys \<Rightarrow> bool" where
  "waiting_ok sy \<longleftrightarrow> (\<forall>(s, _) \<in> set (sy_waiting sy). te_cmd s = None \<and> te_ID s \<notin> te_ID ` set (sy_spawned sy) \<and>
     (\<forall>s'. gomap_get (tm_sessions (sy_mgr sy)) (te_ID s) = Some s' \<longrightarrow> te_cmd s' = None))"

definition term_ok :: "term_sys \<Rightarrow> bool" where
  "term_ok sy \<longleftrightarrow> limits_ok (sy_mgr sy) \<and> table_ok (sy_mgr sy) \<and> shells_ok sy \<and> spawned_ok sy \<and> waiting_ok sy"

lemma term_ok_start: "term_ok term_start"
  by (simp add: term_ok_def term_start_def limits_ok_def table_ok_def shells_ok_def spawned_ok_def waiting_ok_def live_on_def
      NewTerminalSessionManager_def table_shells_def shells_of_def List.map_filter_def)

subsection \<open>Shells of the table\<close>

lemma shells_of_simps [simp]: "shells_of [] = []"
  "shells_of (s # ss) = (case te_cmd s of None \<Rightarrow> shells_of ss | Some p \<Rightarrow> p # shells_of ss)"
  "shells_of (ss @ ss') = shells_of ss @ shells_of ss'"
  by (auto simp: shells_of_def List.map_filter_def split: option.split)

lemma set_shells_of: "set (shells_of ss) = {p. \<exists>s\<in>set ss. te_cmd s = Some p}"
  by (induction ss) (auto split: option.splits)

lemma set_table_shells: "gomap_ok (tm_sessions m) \<Longrightarrow>
    set (table_shells m) = {p. \<exists>sid s. gomap_get (tm_sessions m) sid = Some s \<and> te_cmd s = Some p}"
  by (force simp: table_shells_def set_shells_of simp flip: gomap_get_mem)

lemma shells_of_put:
  "map_of xs k = Some s \<Longrightarrow> te_cmd s' = te_cmd s \<Longrightarrow> shells_of (map snd (AList.update k s' xs)) = shells_of (map snd xs)"
  by (induction xs) (auto split: if_splits option.splits)

lemma set_shells_of_del: "set (shells_of (map snd (AList.delete k xs))) \<subseteq> set (shells_of (map snd xs))"
  by (induction xs) (auto split: option.split)

lemma distinct_shells_of_del: "distinct (shells_of (map snd xs)) \<Longrightarrow> distinct (shells_of (map snd (AList.delete k xs)))"
  by (induction xs) (auto split: option.splits dest: subsetD [OF set_shells_of_del])

lemma count_put:
  "map_of xs k = Some v \<Longrightarrow> (P (k, v') \<Longrightarrow> P (k, v)) \<Longrightarrow> length (filter P (AList.update k v' xs)) \<le> length (filter P xs)"
  by (induction xs) auto

lemma count_del: "length (filter P (AList.delete k xs)) \<le> length (filter P xs)"
  by (induction xs) (auto simp: AList.delete_eq)

subsection \<open>Changes that keep the invariant\<close>

text \<open>A change of one session that keeps who it is and what it runs.\<close>

lemma term_ok_update:
  assumes ok: "term_ok sy"
    and f: "\<And>s. gomap_get (tm_sessions (sy_mgr sy)) sid = Some s \<Longrightarrow> te_ID (f s) = te_ID s \<and> te_NodeID (f s) = te_NodeID s \<and>
      te_cmd (f s) = te_cmd s \<and> (te_exited s \<longrightarrow> te_exited (f s)) \<and>
      (\<forall>p. te_exited (f s) \<and> te_cmd s = Some p \<longrightarrow> p \<notin> set (tm_shells (sy_mgr sy)))"
  shows "term_ok (sy\<lparr>sy_mgr := update_session sid f (sy_mgr sy)\<rparr>)"
proof (cases "gomap_get (tm_sessions (sy_mgr sy)) sid")
  case None
  then show ?thesis using ok by (simp add: update_session_def)
next
  case (Some s)
  note fs = f [OF Some]
  let ?m = "sy_mgr sy" and ?m' = "sy_mgr sy\<lparr>tm_sessions := gomap_put sid (f s) (tm_sessions (sy_mgr sy))\<rparr>"
  have s: "map_of (tm_sessions ?m) sid = Some s" using Some by (simp add: gomap_get_def)
  have "live_on n ?m' \<le> live_on n ?m" for n
    unfolding live_on_def using count_put [OF s, of "\<lambda>(_, s). te_NodeID s = n \<and> \<not> te_exited s" "f s"] fs
    by (auto simp: gomap_put_def)
  then have "limits_ok ?m'" using ok Some by (force simp: term_ok_def limits_ok_def length_gomap_put intro: order_trans)
  moreover have "table_ok ?m'" using ok fs Some by (auto simp: term_ok_def table_ok_def)
  moreover have "table_shells ?m' = table_shells ?m" unfolding table_shells_def using shells_of_put [OF s] fs by (simp add: gomap_put_def)
  ultimately show ?thesis using ok Some
    fs by (auto simp: term_ok_def shells_ok_def spawned_ok_def waiting_ok_def update_session_def split: if_splits)
qed

lemma term_ok_touch:
  assumes "term_ok sy" "\<And>s. te_ID (f s) = te_ID s" "\<And>s. te_NodeID (f s) = te_NodeID s" "\<And>s. te_cmd (f s) = te_cmd s"
    "\<And>s. te_exited (f s) = te_exited s"
  shows "term_ok (sy\<lparr>sy_mgr := update_session sid f (sy_mgr sy)\<rparr>)"
  by (rule term_ok_update [OF assms(1)]) (use assms in \<open>auto simp: term_ok_def table_ok_def\<close>)

text \<open>Removing a session whose shell, if it has one, is stopped.\<close>

lemma term_ok_drop:
  assumes ok: "term_ok sy" and s: "gomap_get (tm_sessions (sy_mgr sy)) sid = Some s"
    and m: "tm_sessions m = gomap_del sid (tm_sessions (sy_mgr sy))" "set (tm_shells m) = set (tm_shells (sy_mgr sy)) - set_option (te_cmd s)"
  shows "term_ok (sy\<lparr>sy_mgr := m\<rparr>)"
proof -
  let ?m = "sy_mgr sy"
  have del: "tm_sessions m = AList.delete sid (tm_sessions ?m)" using m(1) by (simp add: gomap_del_def)
  have t: "gomap_ok (tm_sessions ?m)" using ok by (simp add: term_ok_def table_ok_def)
  then have t': "gomap_ok (tm_sessions m)" using m(1) by simp
  have "live_on n m \<le> live_on n ?m" for n unfolding live_on_def del by (rule count_del)
  then have "limits_ok m" using ok length_gomap_del_le [of sid "tm_sessions ?m"] m(1)
    by (auto simp: term_ok_def limits_ok_def intro: order_trans)
  moreover have "table_ok m" using ok m t' by (auto simp: term_ok_def table_ok_def)
  moreover have "distinct (table_shells m @ shells_of (sy_spawned sy))"
    using ok set_shells_of_del [of sid "tm_sessions ?m"] distinct_shells_of_del [of "tm_sessions ?m" sid]
    unfolding table_shells_def del
    by (auto simp: term_ok_def shells_ok_def table_shells_def)
  moreover have "p \<in> set (table_shells m) \<union> set (shells_of (sy_spawned sy))" if "p \<in> set (tm_shells m)" for p
  proof -
    have "p \<in> set (table_shells ?m) \<union> set (shells_of (sy_spawned sy))" "te_cmd s \<noteq> Some p"
      using ok that m(2) by (auto simp: term_ok_def shells_ok_def)
    then consider "p \<in> set (shells_of (sy_spawned sy))"
      | k x where "gomap_get (tm_sessions ?m) k = Some x" "te_cmd x = Some p" "k \<noteq> sid"
      using s unfolding set_table_shells [OF t] by fastforce
    then show ?thesis
    proof cases
      case 2
      then have "gomap_get (tm_sessions m) k = Some x" using m(1) by simp
      then show ?thesis unfolding set_table_shells [OF t'] using 2(2) by blast
    qed simp
  qed
  moreover have "spawned_ok (sy\<lparr>sy_mgr := m\<rparr>)" "waiting_ok (sy\<lparr>sy_mgr := m\<rparr>)"
    using ok m(1) by (auto simp: term_ok_def spawned_ok_def waiting_ok_def split: if_splits)
  ultimately show ?thesis by (simp add: term_ok_def shells_ok_def)
qed

text \<open>Changes outside the table.\<close>

lemma term_ok_same:
  assumes "term_ok sy" "tm_sessions m = tm_sessions (sy_mgr sy)" "set (tm_shells m) \<subseteq> set (tm_shells (sy_mgr sy))"
  shows "term_ok (sy\<lparr>sy_mgr := m\<rparr>)"
  using assms by (auto simp: term_ok_def limits_ok_def live_on_def table_ok_def shells_ok_def table_shells_def spawned_ok_def waiting_ok_def)

lemma checkLimits_None: "checkLimits n m = None \<Longrightarrow> length (tm_sessions m) < maxTotalSessions \<and> live_on n m < maxSessionsPerNode"
  by (simp add: checkLimits_def not_le split: if_splits)

text \<open>Entering a session after the check of the limits.\<close>

lemma limits_put:
  assumes "limits_ok m" "checkLimits (te_NodeID s) m = None" "gomap_get (tm_sessions m) sid = None"
  shows "limits_ok (m\<lparr>tm_sessions := gomap_put sid s (tm_sessions m)\<rparr>)"
proof -
  have "live_on n (m\<lparr>tm_sessions := gomap_put sid s (tm_sessions m)\<rparr>) \<le> maxSessionsPerNode" for n
    using assms checkLimits_None [OF assms(2)] by (cases "te_NodeID s = n") (auto simp: live_on_def gomap_put_new limits_ok_def)
  then show ?thesis using checkLimits_None [OF assms(2)] assms(3) by (simp add: limits_ok_def length_gomap_put)
qed

lemma table_shells_put:
  "gomap_get (tm_sessions m) sid = None \<Longrightarrow>
   table_shells (m\<lparr>tm_sessions := gomap_put sid s (tm_sessions m)\<rparr>) = table_shells m @ (case te_cmd s of None \<Rightarrow> [] | Some p \<Rightarrow> [p])"
  by (simp add: table_shells_def gomap_put_new split: option.split)

subsection \<open>Every step keeps the invariant\<close>

lemma spawn_ok:
  assumes ok: "term_ok sy" and run: "createLocal_spawn env nodeIDHome cols rows (sy_mgr sy) = (Inr s, m)"
    and new: "fresh_id (ce_sid env) sy" "fresh_shell (ce_shell env) sy"
  shows "term_ok (sy\<lparr>sy_mgr := m, sy_spawned := s # sy_spawned sy\<rparr>)"
proof -
  obtain p where p: "ce_shell env = Some p" "m = (sy_mgr sy)\<lparr>tm_shells := tm_shells (sy_mgr sy) @ [p]\<rparr>"
    and s: "te_ID s = ce_sid env" "te_cmd s = Some p" "te_NodeID s = nodeIDHome" "\<not> te_exited s"
    using run by (auto simp: createLocal_spawn_def newLocalSession_def split: prod.splits option.splits)
  have p': "p \<notin> set (tm_shells (sy_mgr sy))" "p \<notin> set (table_shells (sy_mgr sy))" "p \<notin> set (shells_of (sy_spawned sy))"
    using new(2) p(1) by (auto simp: fresh_shell_def)
  have same: "table_shells m = table_shells (sy_mgr sy)" by (simp add: p(2) table_shells_def)
  have t: "gomap_ok (tm_sessions (sy_mgr sy))" using ok by (simp add: term_ok_def table_ok_def)
  have "limits_ok m" using ok by (simp add: term_ok_def limits_ok_def live_on_def p(2))
  moreover have "table_ok m"
    using ok p'(2) unfolding set_table_shells [OF t] by (auto simp: term_ok_def table_ok_def p(2))
  moreover have "shells_ok (sy\<lparr>sy_mgr := m, sy_spawned := s # sy_spawned sy\<rparr>)"
    using ok p' s(2) unfolding shells_ok_def by (auto simp: same term_ok_def shells_ok_def) (auto simp: p(2))
  moreover have "spawned_ok (sy\<lparr>sy_mgr := m, sy_spawned := s # sy_spawned sy\<rparr>)"
    using ok new(1) s by (auto simp: term_ok_def spawned_ok_def fresh_id_def p(2))
  moreover have "waiting_ok (sy\<lparr>sy_mgr := m, sy_spawned := s # sy_spawned sy\<rparr>)"
    using ok new(1) s(1) by (force simp: term_ok_def waiting_ok_def fresh_id_def p(2))
  ultimately show ?thesis by (simp add: term_ok_def)
qed

lemma insert_ok:
  assumes ok: "term_ok sy" and sp: "sy_spawned sy = ss @ s # ss'" and run: "createLocal_insert s (sy_mgr sy) = (r, m)"
  shows "term_ok (sy\<lparr>sy_mgr := m, sy_spawned := ss @ ss'\<rparr>)"
proof -
  let ?m = "sy_mgr sy"
  have s: "gomap_get (tm_sessions ?m) (te_ID s) = None" "te_NodeID s = nodeIDHome" "\<not> te_exited s"
    "\<forall>x \<in> set (ss @ ss'). te_ID x \<noteq> te_ID s" using ok sp by (auto simp: term_ok_def spawned_ok_def image_iff)
  obtain p where p: "te_cmd s = Some p" using ok sp by (auto simp: term_ok_def spawned_ok_def)
  have t: "gomap_ok (tm_sessions ?m)" using ok by (simp add: term_ok_def table_ok_def)
  have w: "te_ID s \<notin> (te_ID \<circ> fst) ` set (sy_waiting sy)" using ok sp by (force simp: term_ok_def waiting_ok_def)
  have p': "p \<notin> set (table_shells ?m)" "p \<notin> set (shells_of (ss @ ss'))" using ok sp p by (auto simp: term_ok_def shells_ok_def)
  show ?thesis
  proof (cases "checkLimits (te_NodeID s) ?m")
    case None
    then have m: "m = ?m\<lparr>tm_sessions := gomap_put (te_ID s) s (tm_sessions ?m)\<rparr>" using run by (simp add: createLocal_insert_def)
    note sh = table_shells_put [OF s(1), of s]
    have "limits_ok m" unfolding m using limits_put [OF _ None s(1)] ok by (simp add: term_ok_def)
    moreover have "table_ok m" using ok s p by (auto simp: term_ok_def table_ok_def m)
    moreover have "shells_ok (sy\<lparr>sy_mgr := m, sy_spawned := ss @ ss'\<rparr>)"
      using ok sp p p' by (auto simp: term_ok_def shells_ok_def m sh)
    moreover have "spawned_ok (sy\<lparr>sy_mgr := m, sy_spawned := ss @ ss'\<rparr>)"
      using ok sp s(4) by (auto simp: term_ok_def spawned_ok_def m)
    moreover have "waiting_ok (sy\<lparr>sy_mgr := m, sy_spawned := ss @ ss'\<rparr>)"
      using ok sp w by (force simp: term_ok_def waiting_ok_def m)
    ultimately show ?thesis by (simp add: term_ok_def)
  next
    case (Some e)
    then have m: "m = ?m\<lparr>tm_shells := removeAll p (tm_shells ?m)\<rparr>"
      using run p by (simp add: createLocal_insert_def stop_shell_def)
    show ?thesis using ok sp p
      by (force simp: term_ok_def limits_ok_def live_on_def table_ok_def shells_ok_def table_shells_def spawned_ok_def waiting_ok_def m)
  qed
qed

lemma register_ok:
  assumes ok: "term_ok sy" and n: "nodeID \<noteq> nodeIDHome" and new: "fresh_id (ce_sid env) sy"
    and run: "createRemote_register env nodeID cols rows (sy_mgr sy) = (Inr s, m)"
  shows "term_ok (sy\<lparr>sy_mgr := m, sy_waiting := (s, False) # sy_waiting sy\<rparr>)"
proof -
  let ?m = "sy_mgr sy" and ?m' = "(sy_mgr sy)\<lparr>tm_sessions := gomap_put (te_ID s) s (tm_sessions (sy_mgr sy))\<rparr>"
  have s: "te_ID s = ce_sid env" "te_NodeID s = nodeID" "te_cmd s = None" "checkLimits nodeID ?m = None"
    and m: "tm_sessions m = tm_sessions ?m'" "tm_shells m = tm_shells ?m"
    using run by (auto simp: createRemote_register_def newRemoteSession_def Let_def split: if_splits prod.splits option.splits)
  have new': "gomap_get (tm_sessions ?m) (te_ID s) = None" "\<forall>x \<in> set (sy_spawned sy). te_ID x \<noteq> te_ID s"
    "\<forall>w \<in> set (sy_waiting sy). te_ID (fst w) \<noteq> te_ID s" using new s(1) by (auto simp: fresh_id_def image_iff)
  have "limits_ok ?m'" using limits_put [of ?m s] ok s new'(1) by (simp add: term_ok_def)
  moreover have "table_ok ?m'" using ok s n new'(1) by (auto simp: term_ok_def table_ok_def)
  moreover have "shells_ok (sy\<lparr>sy_mgr := ?m', sy_waiting := (s, False) # sy_waiting sy\<rparr>)"
    using ok s(3) table_shells_put [OF new'(1), of s] by (simp add: term_ok_def shells_ok_def)
  moreover have "spawned_ok (sy\<lparr>sy_mgr := ?m', sy_waiting := (s, False) # sy_waiting sy\<rparr>)"
    using ok new'(2) by (auto simp: term_ok_def spawned_ok_def)
  moreover have "waiting_ok (sy\<lparr>sy_mgr := ?m', sy_waiting := (s, False) # sy_waiting sy\<rparr>)"
  proof -
    have "te_ID s \<notin> te_ID ` set (sy_spawned sy)" using new'(2) by (metis image_iff)
    moreover have "te_ID s' \<noteq> te_ID s" if "(s', b) \<in> set (sy_waiting sy)" for s' b using new'(3) that by force
    ultimately show ?thesis using ok s(3) by (auto simp: term_ok_def waiting_ok_def split: if_splits)
  qed
  ultimately have "term_ok (sy\<lparr>sy_mgr := ?m', sy_waiting := (s, False) # sy_waiting sy\<rparr>)" by (simp add: term_ok_def)
  from term_ok_same [OF this, of m] have "term_ok (sy\<lparr>sy_waiting := (s, False) # sy_waiting sy, sy_mgr := m\<rparr>)" using m by simp
  moreover have "sy\<lparr>sy_waiting := (s, False) # sy_waiting sy, sy_mgr := m\<rparr> = sy\<lparr>sy_mgr := m, sy_waiting := (s, False) # sy_waiting sy\<rparr>"
    by simp
  ultimately show ?thesis by (simp only:)
qed

text \<open>Waiting creations may end.\<close>

lemma term_ok_waiting:
  "term_ok sy \<Longrightarrow> fst ` set ws \<subseteq> fst ` set (sy_waiting sy) \<Longrightarrow> term_ok (sy\<lparr>sy_waiting := ws\<rparr>)"
proof -
  assume ok: "term_ok sy" and ws: "fst ` set ws \<subseteq> fst ` set (sy_waiting sy)"
  have "waiting_ok (sy\<lparr>sy_waiting := ws\<rparr>)" unfolding waiting_ok_def
  proof (clarify)
    fix s b assume "(s, b) \<in> set (sy_waiting (sy\<lparr>sy_waiting := ws\<rparr>))"
    then obtain b' where "(s, b') \<in> set (sy_waiting sy)" using ws by force
    then show "te_cmd s = None \<and> te_ID s \<notin> te_ID ` set (sy_spawned (sy\<lparr>sy_waiting := ws\<rparr>)) \<and>
      (\<forall>s'. gomap_get (tm_sessions (sy_mgr (sy\<lparr>sy_waiting := ws\<rparr>))) (te_ID s) = Some s' \<longrightarrow> te_cmd s' = None)"
      using ok by (auto simp: term_ok_def waiting_ok_def)
  qed
  then show ?thesis using ok by (simp add: term_ok_def shells_ok_def spawned_ok_def)
qed

lemma drop_ok:
  assumes ok: "term_ok sy" and s: "\<And>s. gomap_get (tm_sessions (sy_mgr sy)) sid = Some s \<Longrightarrow> te_cmd s = None"
    and m: "tm_sessions m = gomap_del sid (tm_sessions (sy_mgr sy))" "tm_shells m = tm_shells (sy_mgr sy)"
  shows "term_ok (sy\<lparr>sy_mgr := m\<rparr>)"
proof (cases "gomap_get (tm_sessions (sy_mgr sy)) sid")
  case None
  then have "tm_sessions m = tm_sessions (sy_mgr sy)"
    using m(1) by (simp add: gomap_del_def gomap_get_def AList.delete_eq map_of_eq_None_iff filter_id_conv) force
  then show ?thesis using term_ok_same [OF ok] m(2) by simp
next
  case (Some s')
  then show ?thesis using term_ok_drop [OF ok Some] m s by simp
qed

lemma remote_send_simps [simp]:
  "tm_sessions (snd (remote_send f msg m)) = tm_sessions m" "tm_shells (snd (remote_send f msg m)) = tm_shells m"
  by (simp_all add: remote_send_def)

lemma waiting_remote:
  "term_ok sy \<Longrightarrow> (s, b) \<in> set (sy_waiting sy) \<Longrightarrow> gomap_get (tm_sessions (sy_mgr sy)) (te_ID s) = Some s' \<Longrightarrow> te_cmd s' = None"
  by (auto simp: term_ok_def waiting_ok_def)

lemma close_ok:
  assumes ok: "term_ok sy"
  shows "term_ok (sy\<lparr>sy_mgr := snd (term_Close sendOK sid (sy_mgr sy))\<rparr>)"
proof (cases "gomap_get (tm_sessions (sy_mgr sy)) sid")
  case None
  then show ?thesis using ok by (simp add: term_Close_def)
next
  case (Some s)
  have "\<forall>p. te_exited s \<and> te_cmd s = Some p \<longrightarrow> p \<notin> set (tm_shells (sy_mgr sy))"
    using ok Some by (simp add: term_ok_def table_ok_def)
  then have "set (tm_shells (killSession sendOK s (drop_session sid (sy_mgr sy)))) = set (tm_shells (sy_mgr sy)) - set_option (te_cmd s)"
    by (auto simp: killSession_def drop_session_def stop_shell_def split: option.split)
  moreover have "tm_sessions (killSession sendOK s (drop_session sid (sy_mgr sy))) = gomap_del sid (tm_sessions (sy_mgr sy))"
    by (simp add: killSession_def drop_session_def stop_shell_def split: option.split)
  ultimately show ?thesis using term_ok_drop [OF ok Some] Some by (simp add: term_Close_def)
qed

lemma close_all_ok: "term_ok sy \<Longrightarrow> term_ok (sy\<lparr>sy_mgr := close_all sendOK ids (sy_mgr sy)\<rparr>)"
proof (induction ids arbitrary: sy)
  case (Cons sid ids)
  from Cons.IH [OF close_ok [OF Cons.prems, of sendOK sid]] show ?case by (simp add: close_all_def)
qed (simp add: close_all_def)

lemma shutdown_shells:
  "tm_sessions (fold (\<lambda>(_, s). killSession sendOK s) xs m) = tm_sessions m \<and>
   set (tm_shells (fold (\<lambda>(_, s). killSession sendOK s) xs m)) =
     set (tm_shells m) - {p. \<exists>(sid, s)\<in>set xs. \<not> te_exited s \<and> te_cmd s = Some p}"
proof (induction xs arbitrary: m)
  case (Cons x xs)
  have "tm_sessions (killSession sendOK s m) = tm_sessions m \<and>
      set (tm_shells (killSession sendOK s m)) = set (tm_shells m) - {p. \<not> te_exited s \<and> te_cmd s = Some p}" for s
    by (auto simp: killSession_def stop_shell_def split: option.split)
  then show ?case using Cons by (cases x) auto
qed simp

lemma shutdown_left:
  assumes "term_ok sy"
  shows "tm_sessions (term_Shutdown sendOK (sy_mgr sy)) = [] \<and>
    set (tm_shells (term_Shutdown sendOK (sy_mgr sy))) = set (tm_shells (sy_mgr sy)) \<inter> set (shells_of (sy_spawned sy))"
proof -
  have t: "gomap_ok (tm_sessions (sy_mgr sy))" using assms by (simp add: term_ok_def table_ok_def)
  have "p \<in> set (shells_of (sy_spawned sy)) \<longleftrightarrow> \<not> (\<exists>(sid, s)\<in>set (tm_sessions (sy_mgr sy)). \<not> te_exited s \<and> te_cmd s = Some p)"
    if p: "p \<in> set (tm_shells (sy_mgr sy))" for p
  proof -
    have "p \<in> set (table_shells (sy_mgr sy)) \<longleftrightarrow> (\<exists>(sid, s)\<in>set (tm_sessions (sy_mgr sy)). \<not> te_exited s \<and> te_cmd s = Some p)"
      unfolding set_table_shells [OF t] gomap_get_mem [OF t, symmetric] using assms p
      by (force simp: term_ok_def table_ok_def gomap_get_mem [OF t])
    then show ?thesis using assms p by (auto simp: term_ok_def shells_ok_def)
  qed
  then show ?thesis unfolding term_Shutdown_def using shutdown_shells [of sendOK "tm_sessions (sy_mgr sy)"] by auto
qed

lemma shutdown_ok:
  assumes "term_ok sy"
  shows "term_ok (sy\<lparr>sy_mgr := term_Shutdown sendOK (sy_mgr sy)\<rparr>)"
  using shutdown_left [OF assms, of sendOK] assms
  by (auto simp: term_ok_def limits_ok_def live_on_def table_ok_def shells_ok_def table_shells_def spawned_ok_def waiting_ok_def)

lemma to_terminal_simps [simp]:
  "tm_sessions (snd (to_terminal f s msg lm m)) = tm_sessions m" "tm_shells (snd (to_terminal f s msg lm m)) = tm_shells m"
  by (auto simp: to_terminal_def remote_send_def split: option.split)

lemma term_ok_then:
  assumes "term_ok (sy\<lparr>sy_mgr := m1\<rparr>)" "tm_sessions m = tm_sessions m1" "tm_shells m = tm_shells m1"
  shows "term_ok (sy\<lparr>sy_mgr := m\<rparr>)"
  using term_ok_same [OF assms(1), of m] assms(2,3) by simp

lemmas session_defs = session_output_def session_exit_def fanOutData_def fanOutExit_def subscribe_def unsubscribe_def Let_def

lemma term_step_ok: "term_step sy sy' \<Longrightarrow> term_ok sy \<Longrightarrow> term_ok sy'"
proof (induction rule: term_step.induct)
  case (send s sy sendOK r m)
  have "term_ok (sy\<lparr>sy_mgr := m\<rparr>)"
  proof (cases "sendOK (CreateTerminal (te_NodeID s) (te_ID s) (te_cols s) (te_rows s))")
    case True
    then show ?thesis using send by (auto simp: sendRemoteCreate_def remote_send_def intro: term_ok_same)
  next
    case False
    show ?thesis by (rule drop_ok [OF send(3), of "te_ID s"])
      (use send False waiting_remote in \<open>auto simp: sendRemoteCreate_def remote_send_def drop_session_def drop_createChan_def\<close>)
  qed
  from term_ok_waiting [OF this, of "(if r = None then [(s, True)] else []) @ removeAll (s, False) (sy_waiting sy)"] send(1)
  show ?case by force
next
  case (await s sy sendOK reply r m)
  have "term_ok (sy\<lparr>sy_mgr := m\<rparr>)"
  proof (cases "reply = Some []")
    case True
    then show ?thesis using await by (auto simp: awaitRemoteCreate_def)
  next
    case False
    show ?thesis by (rule drop_ok [OF await(3), of "te_ID s"])
      (use await False waiting_remote in \<open>auto simp: awaitRemoteCreate_def drop_session_def drop_createChan_def split: option.splits if_splits\<close>)
  qed
  from term_ok_waiting [OF this, of "removeAll (s, True) (sy_waiting sy)"] show ?case by auto
next
  case (node_exited sy sid nodeID code)
  then show ?case unfolding HandleTerminalExited_def by (intro term_ok_update) (auto simp: session_defs)
next
  case (node_output sy now nodeID sid data)
  then show ?case unfolding HandleTerminalOutput_def
    by (intro term_ok_touch) (auto simp: session_defs)
next
  case (shell_output sy now sid data)
  then show ?case unfolding outputPump_data_def
    by (cases "data = []") (auto intro!: term_ok_touch simp: session_defs)
next
  case (pump_ends sy sid code)
  then show ?case unfolding outputPump_end_def by (intro term_ok_update) (auto simp: session_defs)
next
  case (attach subID now sid sy r m)
  have "term_ok (sy\<lparr>sy_mgr := update_session sid (\<lambda>s. (subscribe subID s)\<lparr>te_lastUsed := now\<rparr>) (sy_mgr sy)\<rparr>)"
    by (rule term_ok_touch [OF attach(2)]) (auto simp: session_defs)
  then show ?case using attach by (auto simp: term_Attach_def split: option.splits)
next
  case (detach sy sid subID)
  then show ?case unfolding term_Detach_def by (intro term_ok_touch) (auto simp: session_defs)
next
  case (input sendOK now sid data sy r m)
  have u: "term_ok (sy\<lparr>sy_mgr := update_session sid (\<lambda>s. s\<lparr>te_lastUsed := now\<rparr>) (sy_mgr sy)\<rparr>)"
    by (rule term_ok_touch [OF input(2)]) auto
  have "m = snd (WriteInput sendOK now sid data (sy_mgr sy))" using input(1) by simp
  then show ?case using input(2) by (auto simp: WriteInput_def split: option.split intro!: term_ok_then [OF u])
next
  case (resize sendOK now sid cols rows sy r m)
  have u: "term_ok (sy\<lparr>sy_mgr := update_session sid (\<lambda>s. s\<lparr>te_cols := cols, te_rows := rows, te_lastUsed := now\<rparr>) (sy_mgr sy)\<rparr>)"
    by (rule term_ok_touch [OF resize(2)]) auto
  have "m = snd (Resize sendOK now sid cols rows (sy_mgr sy))" using resize(1) by simp
  then show ?case using resize(2) by (auto simp: Resize_def split: option.split intro!: term_ok_then [OF u])
next
  case (close sendOK sid sy r m)
  then show ?case using close_ok [of sy sendOK sid] by simp
qed (auto simp: HandleTerminalCreated_def stop_shell_def SweepExited_def cleanupIdle_def SetRemote_def SetNodeChecker_def
    split: if_splits intro: spawn_ok insert_ok register_ok close_all_ok shutdown_ok term_ok_same)

lemma term_reachable_ok: "term_reachable sy \<Longrightarrow> term_ok sy"
  unfolding term_reachable_def by (induction rule: rtranclp_induct) (auto intro: term_step_ok term_ok_start)

section \<open>Limits and shells\<close>


section \<open>Cleaning up\<close>

lemma close_all_sessions:
  "tm_sessions (close_all sendOK ids m) = filter (\<lambda>(sid, _). sid \<notin> set ids) (tm_sessions m)"
proof (induction ids arbitrary: m)
  case Nil
  then show ?case by (simp add: close_all_def)
next
  case (Cons sid ids)
  have "tm_sessions (snd (term_Close sendOK sid m)) = filter (\<lambda>(k, _). sid \<noteq> k) (tm_sessions m)"
  proof (cases "gomap_get (tm_sessions m) sid")
    case None
    then have "filter (\<lambda>(k, _). sid \<noteq> k) (tm_sessions m) = tm_sessions m"
      unfolding filter_id_conv gomap_get_None by force
    then show ?thesis using None by (simp add: term_Close_def)
  next
    case (Some s)
    then show ?thesis
      by (auto simp: term_Close_def killSession_def drop_session_def stop_shell_def gomap_del_def AList.delete_eq split: option.split)
  qed
  then have "tm_sessions (close_all sendOK (sid # ids) m) = filter (\<lambda>(k, _). k \<notin> set ids) (filter (\<lambda>(k, _). sid \<noteq> k) (tm_sessions m))"
    using Cons [of "snd (term_Close sendOK sid m)"] by (simp add: close_all_def)
  also have "... = filter (\<lambda>(k, _). k \<notin> set (sid # ids)) (tm_sessions m)"
    unfolding filter_filter by (rule filter_cong) auto
  finally show ?case .
qed

lemma close_all_exact:
  assumes "gomap_ok (tm_sessions m)"
  shows "tm_sessions (close_all sendOK (map fst (filter P (tm_sessions m))) m) = filter (\<lambda>x. \<not> P x) (tm_sessions m)"
  unfolding close_all_sessions
proof (rule filter_cong [OF refl])
  fix x assume x: "x \<in> set (tm_sessions m)"
  have "fst x \<in> set (map fst (filter P (tm_sessions m))) \<longleftrightarrow> P x"
    using assms x by (cases x) (auto simp: gomap_ok_def dest: eq_key_imp_eq_value intro: rev_image_eqI)
  then show "(case x of (sid, _) \<Rightarrow> sid \<notin> set (map fst (filter P (tm_sessions m)))) \<longleftrightarrow> \<not> P x" by (cases x) simp
qed

lemma close_all_shells:
  "\<forall>sid\<in>set ids. \<forall>s. gomap_get (tm_sessions m) sid = Some s \<longrightarrow> te_exited s \<Longrightarrow> tm_shells (close_all sendOK ids m) = tm_shells m"
proof (induction ids arbitrary: m)
  case (Cons sid ids)
  have "tm_shells (snd (term_Close sendOK sid m)) = tm_shells m"
    using Cons(2) by (auto simp: term_Close_def killSession_def drop_session_def split: option.split)
  moreover have "\<forall>k\<in>set ids. \<forall>s. gomap_get (tm_sessions (snd (term_Close sendOK sid m))) k = Some s \<longrightarrow> te_exited s"
    using Cons(2) by (auto simp: term_Close_def killSession_def drop_session_def stop_shell_def split: option.split if_splits)
  ultimately show ?case using Cons(1) [of "snd (term_Close sendOK sid m)"] by (simp add: close_all_def)
qed (simp add: close_all_def)

text \<open>Cleaning up removes what it should and nothing else: the sweep removes exactly the exited sessions without a
  subscriber and stops no shell; the idle cleaner removes exactly those without a subscriber that were
  not used for more than 24 hours.\<close>

theorem terminal_cleanup_exact:
  assumes "term_reachable sy"
  shows "tm_sessions (SweepExited sendOK (sy_mgr sy)) =
      filter (\<lambda>(_, s). \<not> (te_exited s \<and> te_subs s = [])) (tm_sessions (sy_mgr sy)) \<and>
    tm_shells (SweepExited sendOK (sy_mgr sy)) = tm_shells (sy_mgr sy) \<and>
    tm_sessions (cleanupIdle sendOK now (sy_mgr sy)) =
      filter (\<lambda>(_, s). te_subs s \<noteq> [] \<or> now - te_lastUsed s \<le> 24 * 3600 * 1000000000) (tm_sessions (sy_mgr sy))"
proof -
  have t: "gomap_ok (tm_sessions (sy_mgr sy))" using term_reachable_ok [OF assms] by (simp add: term_ok_def table_ok_def)
  have "tm_shells (SweepExited sendOK (sy_mgr sy)) = tm_shells (sy_mgr sy)" unfolding SweepExited_def
    by (rule close_all_shells) (use t in \<open>auto simp: gomap_get_mem\<close>)
  then show ?thesis unfolding SweepExited_def cleanupIdle_def close_all_exact [OF t]
    by (auto simp: hasSubscribers_def idleSessionTimeout_def intro!: filter_cong)
qed

section \<open>A session\<close>

definition demo_create :: create_env where
  "demo_create = \<lparr>ce_now = 0, ce_sid = ''s'', ce_shell = Some 7, ce_sendOK = \<lambda>_. True, ce_reply = None\<rparr>"

definition demo_session :: TerminalSession where
  "demo_session = newLocalSession ''s'' 0 nodeIDHome 7 80 24"

definition demo_spawned :: term_sys where
  "demo_spawned = \<lparr>sy_mgr = NewTerminalSessionManager\<lparr>tm_shells := [7]\<rparr>, sy_spawned = [demo_session], sy_waiting = []\<rparr>"

lemmas demo_term = demo_create_def demo_session_def demo_spawned_def term_start_def NewTerminalSessionManager_def
  createLocal_spawn_def createLocal_insert_def applyDefaultSize_def checkLimits_def live_on_def maxTotalSessions_def
  maxSessionsPerNode_def fresh_id_def fresh_shell_def table_shells_def

lemma demo_spawned_reachable: "term_reachable demo_spawned"
proof -
  have run: "createLocal_spawn demo_create nodeIDHome 0 0 (sy_mgr term_start) = (Inr demo_session, sy_mgr demo_spawned)"
    by (simp add: demo_term)
  have "term_step term_start (term_start\<lparr>sy_mgr := sy_mgr demo_spawned, sy_spawned := demo_session # sy_spawned term_start\<rparr>)"
    by (rule term_step.spawn [OF run]) (simp_all add: demo_term)
  then show ?thesis by (simp add: term_reachable_def demo_term)
qed

lemma insert_step:
  assumes "term_reachable sy" "sy_spawned sy = [s]" "checkLimits (te_NodeID s) (sy_mgr sy) = None"
  shows "term_reachable (sy\<lparr>sy_mgr := (sy_mgr sy)\<lparr>tm_sessions := gomap_put (te_ID s) s (tm_sessions (sy_mgr sy))\<rparr>, sy_spawned := []\<rparr>)"
proof -
  have "term_step sy (sy\<lparr>sy_mgr := (sy_mgr sy)\<lparr>tm_sessions := gomap_put (te_ID s) s (tm_sessions (sy_mgr sy))\<rparr>, sy_spawned := [] @ []\<rparr>)"
    by (rule term_step.insert [where s = s and r = "Inr s"]) (use assms in \<open>simp_all add: createLocal_insert_def\<close>)
  then show ?thesis using assms(1) by (simp add: term_reachable_def rtranclp.rtrancl_into_rtrancl)
qed

definition demo_terminal :: term_sys where
  "demo_terminal = demo_spawned\<lparr>sy_mgr := (sy_mgr demo_spawned)\<lparr>tm_sessions := [(''s'', demo_session)]\<rparr>, sy_spawned := []\<rparr>"

lemma demo_terminal_reachable: "term_reachable demo_terminal"
  using insert_step [OF demo_spawned_reachable, of demo_session]
  by (simp add: demo_terminal_def demo_term newLocalSession_def gomap_put_def)


theorem terminal_cleanup_exact_witness:
  "tm_sessions (SweepExited (\<lambda>_. True) (sy_mgr demo_terminal)) = [(''s'', demo_session)] \<and>
   tm_sessions (cleanupIdle (\<lambda>_. True) (25 * 3600 * 1000000000) (sy_mgr demo_terminal)) = []"
  using terminal_cleanup_exact [OF demo_terminal_reachable, of "\<lambda>_. True" "25 * 3600 * 1000000000"]
  by (simp add: demo_terminal_def demo_session_def newLocalSession_def)

section \<open>Gaps\<close>

text \<open>A creation under way enters its session after the shutdown.\<close>

lemma create_survives_shutdown:
  "\<exists>sy. term_reachable sy \<and> tm_stopped (sy_mgr sy) \<and> tm_sessions (sy_mgr sy) = [(''s'', demo_session)] \<and> tm_shells (sy_mgr sy) = [7]"
proof -
  let ?m = "term_Shutdown (\<lambda>_. True) (sy_mgr demo_spawned)"
  have m: "?m = (sy_mgr demo_spawned)\<lparr>tm_stopped := True\<rparr>" by (simp add: term_Shutdown_def demo_term)
  have "term_reachable (demo_spawned\<lparr>sy_mgr := ?m\<rparr>)"
    using demo_spawned_reachable term_step.shutdown [of demo_spawned "\<lambda>_. True"]
    by (simp add: term_reachable_def rtranclp.rtrancl_into_rtrancl)
  from insert_step [OF this, of demo_session] m show ?thesis
    by (intro exI conjI) (auto simp: demo_term newLocalSession_def gomap_put_def)
qed

text \<open>The node that reports an exit is not compared with the node of the session; a session marked as exited that way
  is closed without stopping its shell.\<close>

lemma foreign_exit_leaks_shell:
  "let m = HandleTerminalExited ''other'' ''s'' 0 (sy_mgr demo_terminal);
       m' = snd (term_Close (\<lambda>_. True) ''s'' m)
   in tm_sessions m' = [] \<and> tm_shells m' = [7]"
  by (simp add: HandleTerminalExited_def update_session_def demo_terminal_def demo_term session_defs newLocalSession_def gomap_put_def
      gomap_get_def term_Close_def killSession_def drop_session_def gomap_del_def)

text \<open>The event of an exit is dropped when the channel of a subscriber is full.\<close>

lemma exit_event_dropped: "length ch = 256 \<Longrightarrow> te_subs s = [(k, ch)] \<Longrightarrow> te_subs (session_exit code s) = [(k, ch)]"
  by (simp add: session_exit_def fanOutExit_def chan_send_def subscriberBufferSize_def)

end
