(* ===== verification/Terminal_Filter.thy ===== *)
theory Terminal_Filter
  imports Hiro_Prelude
begin

text \<open>
  The filter for replayed terminal output, \<open>src/internal/api/terminal_filter.go\<close>.  The scanners take the bytes
  after the introducer and return how many of them belong to the sequence and whether it is a query.
\<close>

section \<open>Scanners\<close>

abbreviation ESC :: char where "ESC \<equiv> CHR 0x1B"

definition isCSIQuery :: "string \<Rightarrow> string \<Rightarrow> char \<Rightarrow> bool" where
  "isCSIQuery params inters final =
     (if final = CHR ''c'' then True
      else if final = CHR ''n'' then prefix ''?'' params \<or> params \<in> set [''5'', ''6'']
      else if final = CHR ''p'' then inters = ''$''
      else if final = CHR ''t''
      then params \<in> set [''11'', ''13'', ''14'', ''15'', ''16'', ''17'', ''18'', ''19'', ''20'', ''21'']
      else False)"

definition csi_param :: "char \<Rightarrow> bool" where "csi_param c \<longleftrightarrow> CHR 0x30 \<le> c \<and> c \<le> CHR 0x3F"

definition csi_inter :: "char \<Rightarrow> bool" where "csi_inter c \<longleftrightarrow> CHR 0x20 \<le> c \<and> c \<le> CHR 0x2F"

definition csi_final :: "char \<Rightarrow> bool" where "csi_final c \<longleftrightarrow> CHR 0x40 \<le> c \<and> c \<le> CHR 0x7E"

definition scanCSI :: "string \<Rightarrow> nat \<times> bool" where
  "scanCSI body =
     (let params = takeWhile csi_param body;
          inters = takeWhile csi_inter (dropWhile csi_param body)
      in case dropWhile csi_inter (dropWhile csi_param body) of
           [] \<Rightarrow> (length body, False)
         | final # _ \<Rightarrow>
             let n = length params + length inters + 1
             in if \<not> csi_final final then (n, False) else (n, isCSIQuery params inters final))"

definition isOSCQuery :: "string \<Rightarrow> bool" where
  "isOSCQuery payload =
     list_ex (\<lambda>i. payload ! i = CHR ''?'' \<and> payload ! (i - 1) = CHR '';'' \<and>
       (i = length payload - 1 \<or> payload ! (i + 1) = CHR '';'')) [1..<length payload]"

definition isDCSQuery :: "string \<Rightarrow> bool" where
  "isDCSQuery payload = prefix ''$q'' payload"

definition at_ST :: "string \<Rightarrow> bool" where
  "at_ST rest = (case rest of b # c # _ \<Rightarrow> b = ESC \<and> c = CHR 0x5C | _ \<Rightarrow> False)"

fun scanOSC :: "string \<Rightarrow> string \<Rightarrow> nat \<times> bool" where
  "scanOSC seen [] = (length seen, False)"
| "scanOSC seen (b # rest) =
     (if b = CHR 0x07 \<or> b = CHR 0x9C then (length seen + 1, isOSCQuery seen)
      else if at_ST (b # rest) then (length seen + 2, isOSCQuery seen)
      else scanOSC (seen @ [b]) rest)"

fun scanDCS :: "string \<Rightarrow> string \<Rightarrow> nat \<times> bool" where
  "scanDCS seen [] = (length seen, False)"
| "scanDCS seen (b # rest) =
     (if b = CHR 0x9C then (length seen + 1, isDCSQuery seen)
      else if at_ST (b # rest) then (length seen + 2, isDCSQuery seen)
      else scanDCS (seen @ [b]) rest)"

section \<open>The filter\<close>

datatype introducer = CSI | OSC | DCS

definition introducer_at :: "string \<Rightarrow> (introducer \<times> nat) option" where
  "introducer_at inp =
     (case inp of
        [] \<Rightarrow> None
      | b # rest \<Rightarrow>
          if b = ESC \<and> prefix ''['' rest then Some (CSI, 2)
          else if b = ESC \<and> prefix '']'' rest then Some (OSC, 2)
          else if b = ESC \<and> prefix ''P'' rest then Some (DCS, 2)
          else if b = CHR 0x9B then Some (CSI, 1)
          else if b = CHR 0x9D then Some (OSC, 1)
          else if b = CHR 0x90 then Some (DCS, 1)
          else None)"

definition scan :: "introducer \<Rightarrow> string \<Rightarrow> nat \<times> bool" where
  "scan k body = (case k of CSI \<Rightarrow> scanCSI body | OSC \<Rightarrow> scanOSC [] body | DCS \<Rightarrow> scanDCS [] body)"

lemma introducer_pos: "introducer_at inp = Some (k, n) \<Longrightarrow> 0 < n \<and> inp \<noteq> []"
  by (auto simp: introducer_at_def split: list.splits if_splits)

function filterReplayQueries :: "string \<Rightarrow> string" where
  "filterReplayQueries inp =
     (if inp = [] then []
      else case introducer_at inp of
             None \<Rightarrow> hd inp # filterReplayQueries (tl inp)
           | Some (k, n) \<Rightarrow>
               (case scan k (drop n inp) of
                  (m, dropped) \<Rightarrow>
                    (if dropped then [] else take (n + m) inp) @ filterReplayQueries (drop (n + m) inp)))"
  by pat_completeness auto
termination by (relation "measure length") (auto dest: introducer_pos)

declare filterReplayQueries.simps [simp del]

section \<open>Terminal output\<close>

text \<open>Terminal output as a sequence of items: bytes, two-byte escapes and complete control sequences, with either
  introducer and either terminator.\<close>

datatype item =
    Byte char
  | Escape char
  | CsiSeq bool string string char
  | OscSeq bool string string
  | DcsSeq bool string string

definition ST :: "string set" where "ST = {[CHR 0x9C], [ESC, CHR 0x5C]}"

fun item_ok :: "item \<Rightarrow> bool" where
  "item_ok (Byte c) \<longleftrightarrow> c \<notin> {ESC, CHR 0x9B, CHR 0x9D, CHR 0x90}"
| "item_ok (Escape c) \<longleftrightarrow> c \<notin> {CHR ''['', CHR '']'', CHR ''P'', ESC, CHR 0x9B, CHR 0x9D, CHR 0x90}"
| "item_ok (CsiSeq _ params inters final) \<longleftrightarrow>
     list_all csi_param params \<and> list_all csi_inter inters \<and> csi_final final"
| "item_ok (OscSeq _ payload st) \<longleftrightarrow>
     set payload \<inter> {ESC, CHR 0x9C, CHR 0x07} = {} \<and> st \<in> insert [CHR 0x07] ST"
| "item_ok (DcsSeq _ payload st) \<longleftrightarrow> set payload \<inter> {ESC, CHR 0x9C} = {} \<and> st \<in> ST"

fun render :: "item \<Rightarrow> string" where
  "render (Byte c) = [c]"
| "render (Escape c) = [ESC, c]"
| "render (CsiSeq c1 params inters final) = (if c1 then [CHR 0x9B] else ESC # ''['') @ params @ inters @ [final]"
| "render (OscSeq c1 payload st) = (if c1 then [CHR 0x9D] else ESC # '']'') @ payload @ st"
| "render (DcsSeq c1 payload st) = (if c1 then [CHR 0x90] else ESC # ''P'') @ payload @ st"

fun item_query :: "item \<Rightarrow> bool" where
  "item_query (CsiSeq _ params inters final) = isCSIQuery params inters final"
| "item_query (OscSeq _ payload _) = isOSCQuery payload"
| "item_query (DcsSeq _ payload _) = isDCSQuery payload"
| "item_query _ = False"

lemma csi_disjoint: "csi_inter c \<Longrightarrow> \<not> csi_param c" "csi_final c \<Longrightarrow> \<not> csi_param c" "csi_final c \<Longrightarrow> \<not> csi_inter c"
  by (auto simp: csi_param_def csi_inter_def csi_final_def less_eq_char_def)

lemma scanCSI_item:
  assumes "list_all csi_param params" "list_all csi_inter inters" "csi_final final"
  shows "scanCSI (params @ inters @ final # rest) = (length params + length inters + 1, isCSIQuery params inters final)"
proof -
  have stop: "takeWhile csi_param (inters @ final # rest) = []" "dropWhile csi_param (inters @ final # rest) = inters @ final # rest"
    using assms csi_disjoint by (cases inters; simp)+
  have "takeWhile csi_param (params @ inters @ final # rest) = params"
    "dropWhile csi_param (params @ inters @ final # rest) = inters @ final # rest"
    using assms(1) stop by (simp_all add: list_all_iff)
  moreover have "takeWhile csi_inter (inters @ final # rest) = inters" "dropWhile csi_inter (inters @ final # rest) = final # rest"
    using assms(2,3) csi_disjoint by (simp_all add: list_all_iff takeWhile_append2 dropWhile_append2)
  ultimately show ?thesis using assms(3) by (simp add: scanCSI_def Let_def)
qed

lemma scanOSC_item:
  "set payload \<inter> {ESC, CHR 0x9C, CHR 0x07} = {} \<Longrightarrow> st \<in> insert [CHR 0x07] ST \<Longrightarrow>
   scanOSC seen (payload @ st @ rest) = (length seen + length payload + length st, isOSCQuery (seen @ payload))"
  by (induction payload arbitrary: seen) (auto simp: ST_def at_ST_def split: list.splits)

lemma scanDCS_item:
  "set payload \<inter> {ESC, CHR 0x9C} = {} \<Longrightarrow> st \<in> ST \<Longrightarrow>
   scanDCS seen (payload @ st @ rest) = (length seen + length payload + length st, isDCSQuery (seen @ payload))"
  by (induction payload arbitrary: seen) (auto simp: ST_def at_ST_def split: list.splits)

lemma filter_step:
  assumes "introducer_at (intro @ body @ rest) = Some (k, length intro)" "scan k (body @ rest) = (length body, q)"
  shows "filterReplayQueries (intro @ body @ rest) = (if q then [] else intro @ body) @ filterReplayQueries rest"
proof -
  have "intro @ body @ rest \<noteq> []" using introducer_pos [OF assms(1)] by blast
  then show ?thesis using assms by (subst filterReplayQueries.simps) auto
qed

lemma filter_byte: "inp \<noteq> [] \<Longrightarrow> introducer_at inp = None \<Longrightarrow> filterReplayQueries inp = hd inp # filterReplayQueries (tl inp)"
  by (subst filterReplayQueries.simps) simp

lemma filter_item:
  assumes "item_ok x"
  shows "filterReplayQueries (render x @ rest) = (if item_query x then [] else render x) @ filterReplayQueries rest"
proof (cases x)
  case (Byte c)
  then show ?thesis using assms by (simp add: filter_byte introducer_at_def)
next
  case (Escape c)
  have "introducer_at (ESC # c # rest) = None" "introducer_at (c # rest) = None"
    using assms Escape by (auto simp: introducer_at_def)
  then show ?thesis using Escape by (simp add: filter_byte)
next
  case (CsiSeq c1 params inters final)
  let ?i = "if c1 then [CHR 0x9B] else ESC # ''[''"
  have "filterReplayQueries (?i @ (params @ inters @ [final]) @ rest) =
      (if isCSIQuery params inters final then [] else ?i @ params @ inters @ [final]) @ filterReplayQueries rest"
    by (rule filter_step [where k = CSI])
      (use assms CsiSeq scanCSI_item in \<open>auto simp: introducer_at_def scan_def\<close>)
  then show ?thesis using CsiSeq by simp
next
  case (OscSeq c1 payload st)
  let ?i = "if c1 then [CHR 0x9D] else ESC # '']''"
  have "filterReplayQueries (?i @ (payload @ st) @ rest) =
      (if isOSCQuery payload then [] else ?i @ payload @ st) @ filterReplayQueries rest"
    by (rule filter_step [where k = OSC])
      (use assms OscSeq scanOSC_item in \<open>auto simp: introducer_at_def scan_def\<close>)
  then show ?thesis using OscSeq by simp
next
  case (DcsSeq c1 payload st)
  let ?i = "if c1 then [CHR 0x90] else ESC # ''P''"
  have "filterReplayQueries (?i @ (payload @ st) @ rest) =
      (if isDCSQuery payload then [] else ?i @ payload @ st) @ filterReplayQueries rest"
    by (rule filter_step [where k = DCS])
      (use assms DcsSeq scanDCS_item in \<open>auto simp: introducer_at_def scan_def\<close>)
  then show ?thesis using DcsSeq by simp
qed



text \<open>Whatever the input, the filter only leaves bytes out.\<close>

lemma filterReplayQueries_subseq: "subseq (filterReplayQueries inp) inp"
proof (induction inp rule: filterReplayQueries.induct)
  case (1 inp)
  show ?case
  proof (cases "inp = [] \<or> introducer_at inp = None")
    case True
    then show ?thesis using 1(1) by (cases inp) (auto simp: filterReplayQueries.simps)
  next
    case False
    then obtain k n m q where s: "inp \<noteq> []" "introducer_at inp = Some (k, n)" "scan k (drop n inp) = (m, q)"
      by (cases "introducer_at inp"; cases "scan (fst (the (introducer_at inp))) (drop (snd (the (introducer_at inp))) inp)") auto
    have "subseq ((if q then [] else take (n + m) inp) @ filterReplayQueries (drop (n + m) inp)) (take (n + m) inp @ drop (n + m) inp)"
      by (rule list_emb_append_mono) (use 1(2) [OF s(1,2) refl s(3) [symmetric]] in auto)
    then show ?thesis using s by (subst filterReplayQueries.simps) simp
  qed
qed

section \<open>Gaps of the filter\<close>

text \<open>The second byte of a letter such as U+00DB in UTF-8 is the introducer of a control sequence.\<close>

lemma filter_drops_letters: "filterReplayQueries [CHR 0xC3, CHR 0x9B, CHR ''c''] = [CHR 0xC3]"
  by code_simp

text \<open>A query behind an interrupted sequence passes, and removing a query can leave another one.\<close>

lemma filter_passes_query: "filterReplayQueries [ESC, CHR ''['', ESC, CHR ''['', CHR ''c''] = [ESC, CHR ''['', ESC, CHR ''['', CHR ''c'']"
  by code_simp

lemma filter_builds_query: "filterReplayQueries [ESC, ESC, CHR ''['', CHR ''c'', CHR ''['', CHR ''c''] = [ESC, CHR ''['', CHR ''c'']"
  by code_simp

end
