(* ===== verification/Terminal_Socket.thy ===== *)
theory Terminal_Socket
  imports Terminal_Safety Terminal_Filter Cluster_Registry
begin

text \<open>
  The WebSocket that multiplexes terminals, \<open>src/internal/api/terminal.go\<close>, and its frames, with the node
  registry of the cluster (\<open>terminal_cluster.go\<close>).  The JSON codec and the wording of errors are
  parameters; the frames written to the client are part of the state.
\<close>

section \<open>Frames\<close>

record termControlMsg =
  cm_Type :: string
  cm_SessionID :: string
  cm_NodeID :: string
  cm_NodeName :: string
  cm_Cols :: "16 word"
  cm_Rows :: "16 word"
  cm_Code :: "int option"
  cm_Message :: string

definition control_msg :: "string \<Rightarrow> termControlMsg" where
  "control_msg ty = \<lparr>cm_Type = ty, cm_SessionID = [], cm_NodeID = [], cm_NodeName = [], cm_Cols = 0, cm_Rows = 0, cm_Code = None, cm_Message = []\<rparr>"

definition termMsgOutput :: char where "termMsgOutput = CHR 0x01"
definition termMsgInput :: char where "termMsgInput = CHR 0x02"
definition termMsgControl :: char where "termMsgControl = CHR 0x03"
definition sessionIDLen :: nat where "sessionIDLen = 32"

definition padSessionID :: "string \<Rightarrow> string" where
  "padSessionID sid = take sessionIDLen sid @ replicate (sessionIDLen - length sid) (CHR 0x00)"

definition marshalControl :: "(termControlMsg \<Rightarrow> string) \<Rightarrow> string \<Rightarrow> termControlMsg \<Rightarrow> string" where
  "marshalControl json sid msg = termMsgControl # padSessionID sid @ json msg"

definition marshalOutput :: "string \<Rightarrow> string \<Rightarrow> string" where
  "marshalOutput sid data = termMsgOutput # padSessionID sid @ data"

text \<open>Type, session and payload of a frame, as \<open>readLoop\<close> takes it apart.\<close>

definition parse_frame :: "string \<Rightarrow> (char \<times> string \<times> string) option" where
  "parse_frame data =
     (if length data < 1 + sessionIDLen then None
      else Some (hd data, TrimRight (take sessionIDLen (tl data)) [CHR 0x00], drop (1 + sessionIDLen) data))"

section \<open>A connection\<close>

record term_conn =
  tc_mgr :: TerminalSessionManager
  tc_attached :: "(string, string) gomap"
  tc_frames :: "string list"

text \<open>What the outside contributes to one operation.\<close>

record conn_env =
  co_json :: "termControlMsg \<Rightarrow> string"
  co_parse :: "string \<Rightarrow> termControlMsg option"
  co_registry :: "NodeRegistry option"
  co_errText :: "term_error \<Rightarrow> string"
  co_subID :: "string \<Rightarrow> string"
  co_create :: create_env

definition write_frame :: "string \<Rightarrow> term_conn \<Rightarrow> term_conn" where
  "write_frame f c = c\<lparr>tc_frames := tc_frames c @ [f]\<rparr>"

definition registered_name :: "NodeRegistry option \<Rightarrow> string \<Rightarrow> string option" where
  "registered_name reg nodeID =
     (case reg of
        None \<Rightarrow> None
      | Some r \<Rightarrow> (case Registry_Get nodeID r of Some info \<Rightarrow> if ni_Name info \<noteq> [] then Some (ni_Name info) else None | None \<Rightarrow> None))"

definition resolveNodeName :: "NodeRegistry option \<Rightarrow> string \<Rightarrow> string" where
  "resolveNodeName reg nodeID =
     (case registered_name reg nodeID of
        Some n \<Rightarrow> n
      | None \<Rightarrow> if nodeID = nodeIDHome then ''local'' else nodeID)"

definition IsOnlineApproved :: "NodeRegistry \<Rightarrow> string \<Rightarrow> bool" where
  "IsOnlineApproved registry nodeID =
     (case Registry_Get nodeID registry of None \<Rightarrow> False | Some info \<Rightarrow> ni_Status info = NodeOnline)"

definition WireClusterTerminal :: "NodeRegistry \<Rightarrow> TerminalSessionManager \<Rightarrow> TerminalSessionManager" where
  "WireClusterTerminal registry m = SetNodeChecker (IsOnlineApproved registry) (SetRemote m)"

text \<open>The frames of an attachment, before live output.\<close>

definition attach_frames :: "(termControlMsg \<Rightarrow> string) \<Rightarrow> string \<Rightarrow> string \<Rightarrow> bool \<Rightarrow> int \<Rightarrow> string list" where
  "attach_frames json sid replay exited exitCode =
     [marshalControl json sid (control_msg ''replay_start'')] @
     (if replay \<noteq> [] \<and> filterReplayQueries replay \<noteq> [] then [marshalOutput sid (filterReplayQueries replay)] else []) @
     [marshalControl json sid (control_msg ''replay_end'')] @
     (if exited then [marshalControl json sid ((control_msg ''exited'')\<lparr>cm_Code := Some exitCode\<rparr>)] else [])"

definition attachSession :: "conn_env \<Rightarrow> string \<Rightarrow> term_conn \<Rightarrow> term_conn" where
  "attachSession env sid c =
     (case term_Attach (co_subID env sid) (ce_now (co_create env)) sid (tc_mgr c) of
        (Inl e, m) \<Rightarrow>
          write_frame (marshalControl (co_json env) sid ((control_msg ''error'')\<lparr>cm_Message := co_errText env e\<rparr>)) (c\<lparr>tc_mgr := m\<rparr>)
      | (Inr (subID, replay, exited, exitCode), m) \<Rightarrow>
          (fold write_frame (attach_frames (co_json env) sid replay exited exitCode) (c\<lparr>tc_mgr := m\<rparr>))
            \<lparr>tc_attached := gomap_put sid subID (tc_attached c)\<rparr>)"

definition created_msg :: "conn_env \<Rightarrow> string \<Rightarrow> string \<Rightarrow> termControlMsg" where
  "created_msg env sid nodeID =
     (control_msg ''created'')\<lparr>cm_SessionID := sid, cm_NodeID := nodeID, cm_NodeName := resolveNodeName (co_registry env) nodeID\<rparr>"

definition sync_one :: "conn_env \<Rightarrow> TerminalSessionInfo \<Rightarrow> term_conn \<Rightarrow> term_conn" where
  "sync_one env info c =
     attachSession env (ti_ID info)
       (write_frame (marshalControl (co_json env) (ti_ID info) (created_msg env (ti_ID info) (ti_NodeID info))) c)"

definition syncSessions :: "conn_env \<Rightarrow> term_conn \<Rightarrow> term_conn" where
  "syncSessions env c = fold (sync_one env) (term_List (tc_mgr c)) c"

text \<open>One round of \<open>writePump\<close>: the frame for an event, and whether the pump goes on.\<close>

definition writePump :: "(termControlMsg \<Rightarrow> string) \<Rightarrow> string \<Rightarrow> sessionEvent \<Rightarrow> string \<times> bool" where
  "writePump json sid evt =
     (if ev_exited evt
      then (marshalControl json sid ((control_msg ''exited'')\<lparr>cm_Code := Some (ev_exitCode evt)\<rparr>), False)
      else (marshalOutput sid (ev_data evt), True))"

definition handleCreate :: "conn_env \<Rightarrow> termControlMsg \<Rightarrow> term_conn \<Rightarrow> term_conn" where
  "handleCreate env ctrl c =
     (let nodeID = (if cm_NodeID ctrl = [] then nodeIDHome else cm_NodeID ctrl)
      in case applyDefaultSize (cm_Cols ctrl) (cm_Rows ctrl) of (cols, rows) \<Rightarrow>
        case term_Create (co_create env) nodeID cols rows (tc_mgr c) of
          (Inl e, m) \<Rightarrow>
            write_frame (marshalControl (co_json env) [] ((control_msg ''error'')\<lparr>cm_Message := co_errText env e\<rparr>)) (c\<lparr>tc_mgr := m\<rparr>)
        | (Inr s, m) \<Rightarrow>
            attachSession env (te_ID s)
              (write_frame (marshalControl (co_json env) (te_ID s) (created_msg env (te_ID s) (te_NodeID s))) (c\<lparr>tc_mgr := m\<rparr>)))"

definition handleClose :: "conn_env \<Rightarrow> string \<Rightarrow> term_conn \<Rightarrow> term_conn" where
  "handleClose env sid c =
     (let c1 = (case gomap_get (tc_attached c) sid of
                  None \<Rightarrow> c
                | Some subID \<Rightarrow> c\<lparr>tc_mgr := term_Detach sid subID (tc_mgr c), tc_attached := gomap_del sid (tc_attached c)\<rparr>);
          c2 = c1\<lparr>tc_mgr := snd (term_Close (ce_sendOK (co_create env)) sid (tc_mgr c1))\<rparr>
      in write_frame (marshalControl (co_json env) sid ((control_msg ''closed'')\<lparr>cm_SessionID := sid\<rparr>)) c2)"

definition detachAll :: "term_conn \<Rightarrow> term_conn" where
  "detachAll c = c\<lparr>tc_mgr := fold (\<lambda>(sid, subID). term_Detach sid subID) (tc_attached c) (tc_mgr c), tc_attached := []\<rparr>"

text \<open>One round of \<open>readLoop\<close>.\<close>

definition read_frame :: "conn_env \<Rightarrow> string \<Rightarrow> term_conn \<Rightarrow> term_conn" where
  "read_frame env data c =
     (case parse_frame data of
        None \<Rightarrow> c
      | Some (msgType, sid, payload) \<Rightarrow>
          if msgType = termMsgInput
          then c\<lparr>tc_mgr := snd (WriteInput (ce_sendOK (co_create env)) (ce_now (co_create env)) sid payload (tc_mgr c))\<rparr>
          else if msgType = termMsgControl
          then (case co_parse env payload of
                  None \<Rightarrow> c
                | Some ctrl \<Rightarrow>
                    if cm_Type ctrl = ''create'' then handleCreate env ctrl c
                    else if cm_Type ctrl = ''close'' then handleClose env sid c
                    else if cm_Type ctrl = ''resize''
                    then c\<lparr>tc_mgr := snd (Resize (ce_sendOK (co_create env)) (ce_now (co_create env)) sid (cm_Cols ctrl) (cm_Rows ctrl) (tc_mgr c))\<rparr>
                    else c)
          else c)"

text \<open>Opening a connection: sweep, synchronise, and create a first session if there is none.\<close>

definition handleTerminal_open :: "conn_env \<Rightarrow> TerminalSessionManager \<Rightarrow> term_conn" where
  "handleTerminal_open env m =
     (let c = syncSessions env \<lparr>tc_mgr = SweepExited (ce_sendOK (co_create env)) m, tc_attached = [], tc_frames = []\<rparr>
      in if term_List (tc_mgr c) = []
         then handleCreate env ((control_msg [])\<lparr>cm_NodeID := nodeIDHome, cm_Cols := 80, cm_Rows := 24\<rparr>) c
         else c)"

section \<open>Frames are read as they were written\<close>

lemma TrimRight_pad: "length sid \<le> sessionIDLen \<Longrightarrow> sid = [] \<or> last sid \<noteq> CHR 0x00 \<Longrightarrow> TrimRight (padSessionID sid) [CHR 0x00] = sid"
  by (cases sid rule: rev_cases) (auto simp: TrimRight_def padSessionID_def dropWhile_append)

lemma length_pad: "length (padSessionID sid) = sessionIDLen"
  by (simp add: padSessionID_def)

text \<open>Frames of the terminal protocol round-trip: output and control frames that the server writes are taken apart into
  the same type, session and payload, for every session identifier of at most 32 bytes that does not end in a NUL byte.\<close>

theorem frame_roundtrip:
  assumes "length sid \<le> sessionIDLen" "sid = [] \<or> last sid \<noteq> CHR 0x00"
  shows "parse_frame (marshalOutput sid data) = Some (termMsgOutput, sid, data) \<and>
    parse_frame (marshalControl json sid msg) = Some (termMsgControl, sid, json msg)"
  using TrimRight_pad [OF assms] length_pad [of sid] by (simp add: parse_frame_def marshalOutput_def marshalControl_def)

theorem frame_roundtrip_witness:
  "parse_frame (marshalOutput ''ab'' ''hi'') = Some (termMsgOutput, ''ab'', ''hi'')"
  using frame_roundtrip [of "''ab''" "''hi''"] by (simp add: sessionIDLen_def)

section \<open>Sessions outlive connections\<close>

text \<open>Sessions stay in the table with the shell they have, and no shell stops.\<close>

definition survives :: "TerminalSessionManager \<Rightarrow> TerminalSessionManager \<Rightarrow> string \<Rightarrow> bool" where
  "survives m m' sid \<longleftrightarrow> (\<forall>s. gomap_get (tm_sessions m) sid = Some s \<longrightarrow>
     (\<exists>s'. gomap_get (tm_sessions m') sid = Some s' \<and> te_cmd s' = te_cmd s \<and> te_exited s' = te_exited s \<and> te_replay s' = te_replay s))"

definition kept :: "TerminalSessionManager \<Rightarrow> TerminalSessionManager \<Rightarrow> bool" where
  "kept m m' \<longleftrightarrow> set (tm_shells m) \<subseteq> set (tm_shells m') \<and> (\<forall>sid. survives m m' sid)"

lemma kept_refl [simp]: "kept m m"
  by (simp add: kept_def survives_def)

lemma kept_trans: "kept m1 m2 \<Longrightarrow> kept m2 m3 \<Longrightarrow> kept m1 m3"
proof -
  assume a: "kept m1 m2" "kept m2 m3"
  have "survives m1 m3 sid" for sid
  proof -
    have "survives m1 m2 sid" "survives m2 m3 sid" using a by (simp_all add: kept_def)
    then show ?thesis unfolding survives_def by (metis (no_types, lifting))
  qed
  then show ?thesis using a by (auto simp: kept_def)
qed

lemma kept_same: "tm_sessions m' = tm_sessions m \<Longrightarrow> set (tm_shells m) \<subseteq> set (tm_shells m') \<Longrightarrow> kept m m'"
  by (simp add: kept_def survives_def)

lemma kept_update:
  assumes "\<And>s. te_cmd (f s) = te_cmd s" "\<And>s. te_exited (f s) = te_exited s" "\<And>s. te_replay (f s) = te_replay s"
  shows "kept m (update_session sid f m)"
  using assms by (auto simp: kept_def survives_def update_session_def split: option.split)

lemma kept_Attach: "kept m (snd (term_Attach subID now sid m))"
  by (auto simp: term_Attach_def subscribe_def split: option.split intro: kept_update)

lemma kept_Detach: "kept m (term_Detach sid subID m)"
  unfolding term_Detach_def by (rule kept_update) (simp_all add: unsubscribe_def)

lemma kept_to_terminal: "kept m m1 \<Longrightarrow> kept m (snd (to_terminal sendOK s msg lm m1))"
  by (rule kept_trans [of m m1]) (simp_all add: kept_same)

lemma kept_WriteInput: "kept m (snd (WriteInput sendOK now sid data m))"
proof -
  have "kept m (update_session sid (\<lambda>s. s\<lparr>te_lastUsed := now\<rparr>) m)" by (rule kept_update) simp_all
  then show ?thesis by (auto simp: WriteInput_def split: option.split intro: kept_to_terminal)
qed

lemma kept_Resize: "kept m (snd (Resize sendOK now sid cols rows m))"
proof -
  have "kept m (update_session sid (\<lambda>s. s\<lparr>te_cols := cols, te_rows := rows, te_lastUsed := now\<rparr>) m)" by (rule kept_update) simp_all
  then show ?thesis by (auto simp: Resize_def split: option.split intro: kept_to_terminal)
qed

lemma kept_put_new:
  "gomap_get (tm_sessions m) sid = None \<Longrightarrow> tm_sessions m' = gomap_put sid s (tm_sessions m) \<Longrightarrow>
   set (tm_shells m) \<subseteq> set (tm_shells m') \<Longrightarrow> kept m m'"
  by (auto simp: kept_def survives_def)

lemma kept_del_new:
  "gomap_get (tm_sessions m) sid = None \<Longrightarrow> kept m m1 \<Longrightarrow> tm_sessions m' = gomap_del sid (tm_sessions m1) \<Longrightarrow>
   set (tm_shells m) \<subseteq> set (tm_shells m') \<Longrightarrow> kept m m'"
  by (auto simp: kept_def survives_def)

lemma kept_createLocal:
  assumes "gomap_get (tm_sessions m) (ce_sid env) = None" "\<And>p. ce_shell env = Some p \<Longrightarrow> p \<notin> set (tm_shells m)"
  shows "kept m (snd (createLocal env nodeID cols rows m))"
  using assms
  by (auto simp: createLocal_def createLocal_spawn_def createLocal_insert_def newLocalSession_def stop_shell_def
      split: prod.split option.split intro: kept_same kept_put_new)

lemma kept_createRemote:
  assumes new: "gomap_get (tm_sessions m) (ce_sid env) = None"
  shows "kept m (snd (createRemote env nodeID cols rows m))"
proof (cases "createRemote_register env nodeID cols rows m")
  case (Pair r m1)
  show ?thesis
  proof (cases r)
    case (Inl e)
    then show ?thesis using Pair
      by (auto simp: createRemote_def createRemote_register_def Let_def split: if_splits option.splits prod.splits)
  next
    case (Inr s)
    have s: "te_ID s = ce_sid env" and m1: "tm_sessions m1 = gomap_put (te_ID s) s (tm_sessions m)" "tm_shells m1 = tm_shells m"
      using Pair Inr by (auto simp: createRemote_register_def newRemoteSession_def Let_def split: if_splits option.splits prod.splits)
    have k1: "kept m m1" by (rule kept_put_new) (use new s m1 in simp_all)
    have ends: "kept m m'" if "tm_sessions m' = tm_sessions m1 \<or> tm_sessions m' = gomap_del (te_ID s) (tm_sessions m1)" "tm_shells m' = tm_shells m1" for m'
      using that
    proof (elim disjE)
      assume "tm_sessions m' = tm_sessions m1"
      then show ?thesis using that(2) by (intro kept_trans [OF k1] kept_same) simp_all
    next
      assume "tm_sessions m' = gomap_del (te_ID s) (tm_sessions m1)"
      then show ?thesis using new s m1(2) that(2) by (intro kept_del_new [OF _ k1]) simp_all
    qed
    show ?thesis unfolding createRemote_def Pair Inr
      by (auto simp: sendRemoteCreate_def awaitRemoteCreate_def remote_send_def HandleTerminalCreated_def drop_session_def
          drop_createChan_def Let_def split: option.split intro!: ends)
  qed
qed

lemma kept_attach: "kept m (tc_mgr c) \<Longrightarrow> kept m (tc_mgr (attachSession env sid c))"
proof -
  have w: "tc_mgr (fold write_frame fs c) = tc_mgr c" for fs c
    by (induction fs arbitrary: c) (simp_all add: write_frame_def)
  assume "kept m (tc_mgr c)"
  then have "kept m (snd (term_Attach (co_subID env sid) (ce_now (co_create env)) sid (tc_mgr c)))"
    using kept_trans kept_Attach by blast
  then show ?thesis by (auto simp: attachSession_def w write_frame_def split: prod.split sum.split)
qed

lemma kept_handleCreate:
  assumes "gomap_get (tm_sessions (tc_mgr c)) (ce_sid (co_create env)) = None"
    "\<And>p. ce_shell (co_create env) = Some p \<Longrightarrow> p \<notin> set (tm_shells (tc_mgr c))"
  shows "kept (tc_mgr c) (tc_mgr (handleCreate env ctrl c))"
proof -
  have k: "kept (tc_mgr c) (snd (term_Create (co_create env) nodeID cols rows (tc_mgr c)))" for nodeID cols rows
    unfolding term_Create_def Let_def using kept_createLocal [OF assms] kept_createRemote [OF assms(1)] by simp
  have "kept (tc_mgr c) m" if "term_Create (co_create env) nodeID cols rows (tc_mgr c) = (r, m)" for nodeID cols rows r m
    using k [of nodeID cols rows] that by simp
  then show ?thesis
    by (auto simp: handleCreate_def Let_def write_frame_def split: prod.split sum.split intro!: kept_attach)
qed

text \<open>The session a frame asks to close.\<close>

definition closes :: "conn_env \<Rightarrow> string \<Rightarrow> string option" where
  "closes env data =
     (case parse_frame data of
        Some (msgType, sid, payload) \<Rightarrow>
          (if msgType = termMsgControl \<and> (case co_parse env payload of Some ctrl \<Rightarrow> cm_Type ctrl = ''close'' | None \<Rightarrow> False)
           then Some sid else None)
      | None \<Rightarrow> None)"

lemma survives_close: "k \<noteq> sid \<Longrightarrow> survives (tc_mgr c) (tc_mgr (handleClose env sid c)) k"
  by (auto simp: survives_def handleClose_def term_Detach_def update_session_def term_Close_def killSession_def drop_session_def
      stop_shell_def write_frame_def Let_def split: option.split)

lemma detach_subs:
  "gomap_get (tm_sessions (fold (\<lambda>(sid, subID). term_Detach sid subID) xs m)) sid = Some s' \<Longrightarrow>
   \<exists>s. gomap_get (tm_sessions m) sid = Some s \<and>
     (\<forall>sub. gomap_get (te_subs s') sub = (if (sid, sub) \<in> set xs then None else gomap_get (te_subs s) sub))"
proof (induction xs arbitrary: m)
  case (Cons x xs)
  obtain k sub where x: "x = (k, sub)" by fastforce
  from Cons.IH [of "term_Detach k sub m"] Cons.prems x obtain s where
    s: "gomap_get (tm_sessions (term_Detach k sub m)) sid = Some s"
    "\<forall>sub. gomap_get (te_subs s') sub = (if (sid, sub) \<in> set xs then None else gomap_get (te_subs s) sub)" by auto
  show ?case
  proof (cases "k = sid")
    case True
    then obtain s0 where "gomap_get (tm_sessions m) sid = Some s0" "s = unsubscribe sub s0"
      using s(1) by (auto simp: term_Detach_def update_session_def split: option.splits)
    then show ?thesis using s(2) x True by (auto simp: unsubscribe_def)
  next
    case False
    then have "gomap_get (tm_sessions m) sid = Some s"
      using s(1) by (auto simp: term_Detach_def update_session_def split: option.splits)
    then show ?thesis using s(2) x False by auto
  qed
qed simp

lemma kept_detachAll: "kept (tc_mgr c) (tc_mgr (detachAll c))"
proof -
  have "kept m (fold (\<lambda>(sid, subID). term_Detach sid subID) xs m)" for xs m
  proof (induction xs arbitrary: m)
    case (Cons x xs)
    show ?case by (cases x) (use kept_trans [OF kept_Detach Cons] in simp)
  qed simp
  then show ?thesis by (simp add: detachAll_def)
qed



text \<open>A terminal is opened on a remote node only if the registry has it online.\<close>

lemma remote_needs_online:
  "\<not> IsOnlineApproved registry nodeID \<Longrightarrow> nodeID \<noteq> [] \<Longrightarrow> nodeID \<noteq> nodeIDHome \<Longrightarrow>
   term_Create env nodeID cols rows (WireClusterTerminal registry m) = (Inl (NodeUnavailable nodeID), WireClusterTerminal registry m)"
  by (simp add: term_Create_def createRemote_def createRemote_register_def WireClusterTerminal_def SetNodeChecker_def SetRemote_def)

end
