(* ===== verification/Files_API.thy ===== *)
theory Files_API
  imports File_Tools
begin

text \<open>
  The file browser and shared files, \<open>src/internal/api/files.go\<close> and \<open>src/internal/api/share.go\<close>, on the file
  system of \<open>File_System\<close>: resolution of a path below the platform root, the operations of the browser, and
  links to shared files.  Sealing and opening of a share token (AES-GCM under a key derived from the
  session secret) are parameters.  Directory listings and the stream of file events are not modelled.
\<close>

section \<open>Removing and renaming\<close>

text \<open>Whether a path is missing: the walk of \<open>EvalSymlinks\<close> ends at a component that does not exist, rather than at a file that is
  no directory or after too many links.\<close>

function walk_missing :: "fsys \<Rightarrow> nat \<Rightarrow> location \<Rightarrow> string list \<Rightarrow> bool" where
  "walk_missing fs n dir [] = False"
| "walk_missing fs n dir (c # cs) =
     (if c = [] \<or> c = ''.'' then walk_missing fs n dir cs
      else if c = ''..'' then walk_missing fs n (butlast dir) cs
      else case fs (dir @ [c]) of
             None \<Rightarrow> True
           | Some FDir \<Rightarrow> walk_missing fs n (dir @ [c]) cs
           | Some (FFile _) \<Rightarrow> False
           | Some (FLink t) \<Rightarrow>
               if n = 0 then False
               else walk_missing fs (n - 1) (if prefix ''/'' t then [] else dir) (SplitByte t SLASH @ cs))"
  by pat_completeness auto
termination by (relation "measures [\<lambda>(fs, n, dir, cs). n, \<lambda>(fs, n, dir, cs). length cs]") auto

definition path_missing :: "fsys \<Rightarrow> string \<Rightarrow> bool" where
  "path_missing fs p = walk_missing fs evalLinks [] (SplitByte p SLASH)"

text \<open>\<open>os.RemoveAll\<close> removes what it may below an entry, the entry last.\<close>

definition fs_RemoveAll :: "(location \<Rightarrow> bool) \<Rightarrow> string \<Rightarrow> fsys \<Rightarrow> bool \<times> fsys" where
  "fs_RemoveAll perm p fs =
     (case entry_of fs p of
        None \<Rightarrow> (False, fs)
      | Some r \<Rightarrow> (perm r, \<lambda>l. if prefix r l \<and> perm l then None else fs l))"

text \<open>\<open>os.Rename\<close> moves an entry with everything below it; a directory is not moved into itself, and an existing directory
  is not replaced.\<close>

definition fs_Rename :: "(location \<Rightarrow> bool) \<Rightarrow> string \<Rightarrow> string \<Rightarrow> fsys \<Rightarrow> fsys option" where
  "fs_Rename perm old new fs =
     Option.bind (entry_of fs old) (\<lambda>r. Option.bind (entry_of fs new) (\<lambda>r'.
       if fs r = None \<or> prefix r r' \<or> fs r' = Some FDir \<or> (fs r = Some FDir \<and> fs r' \<noteq> None) \<or> \<not> perm r \<or> \<not> perm r' then None
       else Some (\<lambda>l. if prefix r' l then fs (r @ drop (length r') l) else if prefix r l then None else fs l)))"

section \<open>Resolution\<close>

datatype files_error = RootFailed | PathEscapes | ResolutionFailed

partial_function (option) existing_ancestor :: "fsys \<Rightarrow> string \<Rightarrow> string \<Rightarrow> string option" where
  "existing_ancestor fs realRoot ancestor =
     (if ancestor = realRoot \<or> ancestor = filepath_Dir ancestor then Some ancestor
      else if fs_Lstat fs ancestor \<noteq> None then Some ancestor
      else existing_ancestor fs realRoot (filepath_Dir ancestor))"

definition resolveFilesPath :: "fsys \<Rightarrow> string \<Rightarrow> string \<Rightarrow> (files_error + string) option" where
  "resolveFilesPath fs rootDir relPath =
     (case EvalSymlinks fs rootDir of
        None \<Rightarrow> Some (Inl RootFailed)
      | Some realRoot \<Rightarrow>
          if relPath = [] then Some (Inr realRoot)
          else let cleaned = filepath_Clean (filepath_Join [realRoot, relPath]) in
            if \<not> under realRoot cleaned then Some (Inl PathEscapes)
            else case EvalSymlinks fs cleaned of
                   Some realPath \<Rightarrow> Some (if under realRoot realPath then Inr realPath else Inl PathEscapes)
                 | None \<Rightarrow>
                     if \<not> path_missing fs cleaned then Some (Inl ResolutionFailed)
                     else map_option (\<lambda>ancestor.
                         case EvalSymlinks fs ancestor of
                           None \<Rightarrow> Inl ResolutionFailed
                         | Some realAncestor \<Rightarrow> if under realRoot realAncestor then Inr cleaned else Inl PathEscapes)
                       (existing_ancestor fs realRoot (filepath_Dir cleaned)))"

section \<open>Protected paths\<close>

fun strip_common :: "string list \<Rightarrow> string list \<Rightarrow> string list \<times> string list" where
  "strip_common (x # xs) (y # ys) = (if x = y then strip_common xs ys else (x # xs, y # ys))"
| "strip_common xs ys = (xs, ys)"

text \<open>\<open>filepath.Rel\<close> of two clean absolute paths.\<close>

definition path_parts :: "string \<Rightarrow> string list" where
  "path_parts p = filter (\<lambda>c. c \<noteq> []) (SplitByte p SLASH)"

definition filepath_Rel :: "string \<Rightarrow> string \<Rightarrow> string" where
  "filepath_Rel base targ =
     (case strip_common (path_parts base) (path_parts targ) of
        (bs, ts) \<Rightarrow> if bs = [] \<and> ts = [] then ''.'' else Join (map (\<lambda>_. ''..'') bs @ ts) ''/'')"

definition protectedPaths :: "string list" where
  "protectedPaths = [''agents'', ''instances'', ''skills'', ''workspace'', ''config'']"

partial_function (option) config_above :: "string \<Rightarrow> bool option" where
  "config_above p =
     (if p = ''.'' \<or> p = [] then Some False
      else if p = ''config'' then Some True
      else config_above (filepath_Dir p))"

definition isProtectedPath :: "string \<Rightarrow> string \<Rightarrow> bool option" where
  "isProtectedPath rootDir absPath =
     (let rel = filepath_Rel rootDir absPath
      in if rel \<in> set protectedPaths then Some True else config_above rel)"

section \<open>The file browser\<close>

datatype files_reply =
    BadRequest | FileMissing | FileGone | BodyTooLarge | Forbidden | Conflict | ServerError | NoContent
  | FileContent string | SharedInfo string nat "string option" | ShareToken string

definition maxFileReadSize :: nat where "maxFileReadSize = 2 * 1024 * 1024"
definition maxFileWriteSize :: nat where "maxFileWriteSize = 50 * 1024 * 1024"

definition with_path ::
  "fsys \<Rightarrow> string \<Rightarrow> string \<Rightarrow> (string \<Rightarrow> (files_reply \<times> fsys) option) \<Rightarrow> (files_reply \<times> fsys) option" where
  "with_path fs rootDir relPath k =
     (if relPath = [] then Some (BadRequest, fs)
      else Option.bind (resolveFilesPath fs rootDir relPath)
        (\<lambda>r. case r of Inl _ \<Rightarrow> Some (BadRequest, fs) | Inr absPath \<Rightarrow> k absPath))"

definition handleFilesFileRead :: "string \<Rightarrow> string \<Rightarrow> fsys \<Rightarrow> (files_reply \<times> fsys) option" where
  "handleFilesFileRead rootDir relPath fs =
     with_path fs rootDir relPath (\<lambda>absPath. Some
       (case fs_Stat fs absPath of
          None \<Rightarrow> FileMissing
        | Some (FFile s) \<Rightarrow> if length s > maxFileReadSize then BodyTooLarge else FileContent s
        | Some _ \<Rightarrow> BadRequest, fs))"

definition writeUploadToFile :: "(location \<Rightarrow> bool) \<Rightarrow> string \<Rightarrow> string \<Rightarrow> fsys \<Rightarrow> files_reply \<times> fsys" where
  "writeUploadToFile perm absPath body fs =
     (if length body > maxFileWriteSize then (BodyTooLarge, fs)
      else case fs_replace perm absPath body fs of None \<Rightarrow> (ServerError, fs) | Some fs' \<Rightarrow> (NoContent, fs'))"

definition handleFilesFileWrite ::
  "(location \<Rightarrow> bool) \<Rightarrow> string \<Rightarrow> string \<Rightarrow> string \<Rightarrow> fsys \<Rightarrow> (files_reply \<times> fsys) option" where
  "handleFilesFileWrite perm rootDir relPath body fs =
     with_path fs rootDir relPath (\<lambda>absPath. Some
       (case fs_MkdirAll perm (path_parts (filepath_Dir absPath)) fs of
          (False, fs1) \<Rightarrow> (ServerError, fs1)
        | (True, fs1) \<Rightarrow> writeUploadToFile perm absPath body fs1))"

definition handleFilesMkdir :: "(location \<Rightarrow> bool) \<Rightarrow> string \<Rightarrow> string \<Rightarrow> fsys \<Rightarrow> (files_reply \<times> fsys) option" where
  "handleFilesMkdir perm rootDir relPath fs =
     with_path fs rootDir relPath (\<lambda>absPath. Some
       (case fs_MkdirAll perm (path_parts absPath) fs of (ok, fs1) \<Rightarrow> (if ok then NoContent else ServerError, fs1)))"

definition handleFilesDelete :: "(location \<Rightarrow> bool) \<Rightarrow> string \<Rightarrow> string \<Rightarrow> fsys \<Rightarrow> (files_reply \<times> fsys) option" where
  "handleFilesDelete perm rootDir relPath fs =
     with_path fs rootDir relPath (\<lambda>absPath.
       case EvalSymlinks fs rootDir of
         None \<Rightarrow> Some (ServerError, fs)
       | Some realRoot \<Rightarrow>
           if absPath = rootDir \<or> absPath = realRoot then Some (Forbidden, fs)
           else map_option (\<lambda>protected.
               if protected then (Forbidden, fs)
               else case fs_Lstat fs absPath of
                      None \<Rightarrow> (NoContent, fs)
                    | Some (FLink _) \<Rightarrow> (BadRequest, fs)
                    | Some _ \<Rightarrow> (case fs_RemoveAll perm absPath fs of (ok, fs1) \<Rightarrow> (if ok then NoContent else ServerError, fs1)))
             (isProtectedPath realRoot absPath))"

definition handleFilesRename ::
  "(location \<Rightarrow> bool) \<Rightarrow> string \<Rightarrow> string \<Rightarrow> string \<Rightarrow> fsys \<Rightarrow> (files_reply \<times> fsys) option" where
  "handleFilesRename perm rootDir from_path to_path fs =
     (if from_path = [] \<or> to_path = [] then Some (BadRequest, fs)
      else with_path fs rootDir from_path (\<lambda>absFrom. with_path fs rootDir to_path (\<lambda>absTo.
       case EvalSymlinks fs rootDir of
         None \<Rightarrow> Some (ServerError, fs)
       | Some realRoot \<Rightarrow>
           map_option (\<lambda>protected.
               if protected then (Forbidden, fs)
               else case fs_Lstat fs absFrom of
                      None \<Rightarrow> (FileMissing, fs)
                    | Some (FLink _) \<Rightarrow> (BadRequest, fs)
                    | Some _ \<Rightarrow>
                        if fs_Stat fs absTo \<noteq> None then (Conflict, fs)
                        else case fs_MkdirAll perm (path_parts (filepath_Dir absTo)) fs of
                               (False, fs1) \<Rightarrow> (ServerError, fs1)
                             | (True, fs1) \<Rightarrow>
                                 (case fs_Rename perm absFrom absTo fs1 of
                                    None \<Rightarrow> (ServerError, fs1)
                                  | Some fs2 \<Rightarrow> (NoContent, fs2)))
             (isProtectedPath realRoot absFrom))))"

section \<open>Shared files\<close>

definition handleShareCreate :: "(string \<Rightarrow> string option) \<Rightarrow> string \<Rightarrow> string \<Rightarrow> fsys \<Rightarrow> files_reply option" where
  "handleShareCreate encryptPath rootDir path fs =
     (if path = [] then Some BadRequest
      else Option.bind (resolveFilesPath fs rootDir path) (\<lambda>r.
        case r of
          Inl _ \<Rightarrow> Some BadRequest
        | Inr absPath \<Rightarrow>
            (case EvalSymlinks fs rootDir of
               None \<Rightarrow> Some ServerError
             | Some realRoot \<Rightarrow>
                 map_option (\<lambda>protected.
                     if protected then Forbidden
                     else case fs_Stat fs absPath of
                            None \<Rightarrow> FileMissing
                          | Some FDir \<Rightarrow> BadRequest
                          | Some _ \<Rightarrow> (case encryptPath path of None \<Rightarrow> ServerError | Some token \<Rightarrow> ShareToken token))
                   (isProtectedPath realRoot absPath))))"

definition resolveShareToken ::
  "(string \<Rightarrow> string option) \<Rightarrow> string \<Rightarrow> string \<Rightarrow> fsys \<Rightarrow> (string \<times> string) option option" where
  "resolveShareToken decryptToken rootDir token fs =
     (case decryptToken token of
        None \<Rightarrow> Some None
      | Some relPath \<Rightarrow>
          Option.bind (resolveFilesPath fs rootDir relPath) (\<lambda>r.
            case r of
              Inl _ \<Rightarrow> Some None
            | Inr absPath \<Rightarrow>
                (case EvalSymlinks fs rootDir of
                   None \<Rightarrow> Some (Some (relPath, absPath))
                 | Some realRoot \<Rightarrow>
                     map_option (\<lambda>protected. if protected then None else Some (relPath, absPath))
                       (isProtectedPath realRoot absPath))))"

definition binaryCheckSize :: nat where "binaryCheckSize = 8192"

definition isBinaryData :: "string \<Rightarrow> bool" where
  "isBinaryData data \<longleftrightarrow> CHR 0x00 \<in> set (take binaryCheckSize data)"

definition filepath_Base :: "string \<Rightarrow> string" where
  "filepath_Base p =
     (let q = TrimRight p ''/''
      in if p = [] then ''.'' else if q = [] then ''/'' else last_part q)"

text \<open>The size of a directory is left open.\<close>

definition handleSharedFileInfo ::
  "(string \<Rightarrow> string option) \<Rightarrow> (fnode \<Rightarrow> nat) \<Rightarrow> string \<Rightarrow> string \<Rightarrow> fsys \<Rightarrow> files_reply option" where
  "handleSharedFileInfo decryptToken dirSize rootDir token fs =
     map_option (\<lambda>r.
       case r of
         None \<Rightarrow> FileMissing
       | Some (relPath, absPath) \<Rightarrow>
           (case fs_Stat fs absPath of
              None \<Rightarrow> FileGone
            | Some node \<Rightarrow>
                let size = (case node of FFile s \<Rightarrow> length s | _ \<Rightarrow> dirSize node)
                in SharedInfo (filepath_Base relPath) size
                     (if size \<le> maxFileReadSize
                      then (case fs_ReadFile fs absPath of
                              Some data \<Rightarrow> if isBinaryData data then None else Some data
                            | None \<Rightarrow> None)
                      else None)))
       (resolveShareToken decryptToken rootDir token fs)"

definition handleSharedFileRaw :: "(string \<Rightarrow> string option) \<Rightarrow> string \<Rightarrow> string \<Rightarrow> fsys \<Rightarrow> files_reply option" where
  "handleSharedFileRaw decryptToken rootDir token fs =
     map_option (\<lambda>r.
       case r of
         None \<Rightarrow> FileMissing
       | Some (relPath, absPath) \<Rightarrow>
           (case fs_Stat fs absPath of
              None \<Rightarrow> FileGone
            | Some (FFile s) \<Rightarrow> FileContent s
            | Some _ \<Rightarrow> FileMissing))
       (resolveShareToken decryptToken rootDir token fs)"

section \<open>Relative paths\<close>

lemma Clean_rel:
  assumes "plain_path xs" "xs \<noteq> []"
  shows "filepath_Clean (Join xs ''/'' @ [SLASH]) = Join xs ''/''"
proof -
  have ns: "\<forall>c\<in>set xs. SLASH \<notin> set c" using assms(1) by (auto simp: plain_component_def)
  have j: "Join xs ''/'' @ [SLASH] = Join (xs @ [[]]) ''/''" using assms(2) by (simp add: Join_append)
  have sp: "SplitByte (Join (xs @ [[]]) ''/'') SLASH = xs @ [[]]" using SplitByte_Join [of "xs @ [[]]" SLASH] ns by simp
  obtain c x xs' where x: "xs = (c # x) # xs'" using assms by (cases xs; cases "hd xs") (auto simp: plain_component_def)
  have c: "c \<noteq> SLASH" using ns x by auto
  have first: "Join xs ''/'' \<noteq> [] \<and> hd (Join xs ''/'') = c" using x by (cases xs') simp_all
  then have "\<not> prefix ''/'' (Join xs ''/'' @ [SLASH])" using c by (cases "Join xs ''/''") auto
  moreover have "clean_components False (xs @ [[]]) = xs"
    using fold_clean_step_plain [OF assms(1), of False "[]"] by (simp add: clean_components_def clean_step_def)
  ultimately show ?thesis unfolding filepath_Clean_def j sp using first by (simp add: j)
qed

lemma Dir_rel:
  assumes "plain_path xs" "plain_component c"
  shows "filepath_Dir (Join (xs @ [c]) ''/'') = (if xs = [] then ''.'' else Join xs ''/'')"
proof (cases "xs = []")
  case True
  have "dropWhile (\<lambda>x. x \<noteq> SLASH) (rev c) = []" using assms(2) by (auto simp: plain_component_def)
  moreover have "filepath_Clean [] = ''.''" by (simp add: filepath_Clean_def clean_components_def clean_step_def)
  ultimately show ?thesis using True by (simp add: filepath_Dir_def del: dropWhile_eq_Nil_conv)
next
  case False
  have "Join (xs @ [c]) ''/'' = Join xs ''/'' @ SLASH # c" using False by (simp add: Join_append)
  then show ?thesis using False Clean_rel [OF assms(1) False] rev_split(1) [of c "Join xs ''/''"] assms(2)
    by (simp add: filepath_Dir_def plain_component_def del: rev_append)
qed

lemma slash_in_Join: "xs \<noteq> [] \<Longrightarrow> SLASH \<in> set (Join (xs @ [c]) ''/'')"
  by (simp add: Join_append)

lemma config_above_rel:
  "xs \<noteq> [] \<Longrightarrow> plain_path xs \<Longrightarrow> config_above (Join xs ''/'') = Some (hd xs = ''config'')"
proof (induction xs rule: rev_induct)
  case (snoc c xs)
  have p: "plain_path xs" "plain_component c" using snoc(3) by auto
  note unf = config_above.simps [of "Join (xs @ [c]) ''/''"]
  show ?case
  proof (cases "xs = []")
    case True
    moreover have "c \<noteq> []" "c \<noteq> ''.''" using p(2) by (auto simp: plain_component_def)
    moreover have "config_above ''.'' = Some False" by (simp add: config_above.simps)
    ultimately show ?thesis using unf Dir_rel [OF p] by simp
  next
    case False
    have "Join (xs @ [c]) ''/'' \<notin> {[], ''.'', ''config''}" using slash_in_Join [OF False, of c] by auto
    then show ?thesis using unf Dir_rel [OF p] False snoc(1) [OF False p(1)] by simp
  qed
qed simp

lemma path_parts_text: "plain_path cs \<Longrightarrow> path_parts (path_text cs) = cs"
  using SplitByte_path_text [of cs] by (auto simp: path_parts_def plain_component_def intro!: filter_True)

lemma strip_common_prefix: "strip_common xs (xs @ ys) = ([], ys)"
  by (induction xs) simp_all

text \<open>What is protected below the root.\<close>

definition protected_below :: "location \<Rightarrow> bool" where
  "protected_below xs \<longleftrightarrow> xs \<noteq> [] \<and> (hd xs = ''config'' \<or> (tl xs = [] \<and> hd xs \<in> set protectedPaths))"

lemma isProtected_below:
  assumes "plain_path (rt @ xs)"
  shows "isProtectedPath (path_text rt) (path_text (rt @ xs)) = Some (protected_below xs)"
proof -
  have rel: "filepath_Rel (path_text rt) (path_text (rt @ xs)) = (if xs = [] then ''.'' else Join xs ''/'')"
    using assms by (simp add: filepath_Rel_def path_parts_text strip_common_prefix)
  show ?thesis
  proof (cases "xs = []")
    case True
    then show ?thesis using rel
      by (simp add: isProtectedPath_def protected_below_def protectedPaths_def config_above.simps)
  next
    case False
    have c: "config_above (Join xs ''/'') = Some (hd xs = ''config'')" using config_above_rel [OF False] assms by simp
    show ?thesis
    proof (cases "tl xs = []")
      case True
      then obtain x where "xs = [x]" using False by (cases xs) auto
      then show ?thesis using rel c by (auto simp: isProtectedPath_def protected_below_def protectedPaths_def)
    next
      case tl: False
      have y: "xs = butlast xs @ [last xs]" "butlast xs \<noteq> []" using False tl by (cases xs; simp)+
      have "SLASH \<in> set (Join xs ''/'')" using slash_in_Join [OF y(2), of "last xs"] y(1) by simp
      moreover have "SLASH \<notin> set n" if "n \<in> set protectedPaths" for n using that by (auto simp: protectedPaths_def)
      ultimately have "Join xs ''/'' \<notin> set protectedPaths" by blast
      then show ?thesis using rel c False tl by (simp add: isProtectedPath_def protected_below_def)
    qed
  qed
qed

section \<open>What resolution establishes\<close>

text \<open>A location where its path says, as \<open>EvalSymlinks\<close> returns them.\<close>

definition real_at :: "fsys \<Rightarrow> location \<Rightarrow> bool" where
  "real_at fs l \<longleftrightarrow> plain_path l \<and> node_at fs l \<noteq> None \<and> (\<forall>t. node_at fs l \<noteq> Some (FLink t)) \<and>
     (\<forall>p. strict_prefix p l \<longrightarrow> node_at fs p = Some FDir)"

lemma walk_real_at:
  assumes "walk fs n [] cs = Some l" "\<forall>c\<in>set cs. SLASH \<notin> set c"
  shows "real_at fs l"
  using walk_comps [OF assms(1)] assms(2) walk_node [OF assms(1)] by (auto simp: real_at_def)

lemma real_at_parent: "real_at fs (ds @ [c]) \<Longrightarrow> real_dir fs ds \<and> plain_component c"
  by (auto simp: real_at_def real_dir_def prefix_order.dual_order.strict_iff_order dest: prefix_snocD)

lemma real_at_walk: "real_at fs l \<Longrightarrow> walk fs n [] l = Some l"
proof (cases l rule: rev_cases)
  case (snoc ds c)
  assume r: "real_at fs l"
  then have d: "real_dir fs ds" "plain_component c" using snoc real_at_parent by auto
  have "walk fs n [] l = walk fs n ds [c]" using walk_real [OF d(1)] snoc by simp
  then show ?thesis using r snoc d(2) by (cases "fs l") (auto simp: real_at_def node_at_def walk_plain split: fnode.split)
qed simp

text \<open>A path that resolution lets through: the real location of something below the root, or a missing path whose nearest
  existing ancestor really lies below the root.\<close>

definition let_through :: "fsys \<Rightarrow> location \<Rightarrow> location \<Rightarrow> bool" where
  "let_through fs rt cs \<longleftrightarrow> plain_path cs \<and> prefix rt cs \<and>
     (real_at fs cs \<or>
      walk fs evalLinks [] cs = None \<and>
      (\<exists>anc a. strict_prefix anc cs \<and> walk fs evalLinks [] anc = Some a \<and> prefix rt a \<and>
        (\<forall>p. strict_prefix anc p \<and> strict_prefix p cs \<longrightarrow> fs_Lstat fs (path_text p) = None)))"

lemma existing_ancestor_of:
  "plain_path ps \<Longrightarrow> prefix rt ps \<Longrightarrow>
   \<exists>anc. existing_ancestor fs (path_text rt) (path_text ps) = Some (path_text anc) \<and> prefix rt anc \<and> prefix anc ps \<and>
     (\<forall>p. strict_prefix anc p \<and> prefix p ps \<longrightarrow> fs_Lstat fs (path_text p) = None)"
proof (induction ps rule: rev_induct)
  case Nil
  then show ?case by (intro exI [of _ "[]"]) (simp add: existing_ancestor.simps)
next
  case (snoc c ps)
  note unf = existing_ancestor.simps [of fs "path_text rt" "path_text (ps @ [c])"]
  show ?case
  proof (cases "rt = ps @ [c] \<or> fs_Lstat fs (path_text (ps @ [c])) \<noteq> None")
    case True
    have "\<not> (strict_prefix (ps @ [c]) p \<and> prefix p (ps @ [c]))" for p
      by (meson prefix_order.less_le_not_le)
    then show ?thesis using unf snoc(3) True by (intro exI [of _ "ps @ [c]"]) (auto simp del: prefix_snoc)
  next
    case False
    have p: "plain_path ps" "plain_component c" using snoc(2) by auto
    have rt: "prefix rt ps" using snoc(3) False by (auto simp: prefix_snoc)
    obtain anc where anc: "existing_ancestor fs (path_text rt) (path_text ps) = Some (path_text anc)" "prefix rt anc" "prefix anc ps"
      "\<And>p. strict_prefix anc p \<Longrightarrow> prefix p ps \<Longrightarrow> fs_Lstat fs (path_text p) = None" using snoc(1) [OF p(1) rt] by blast
    have "plain_path rt" using rt p(1) by (meson set_mono_prefix subsetD)
    then have "path_text (ps @ [c]) \<noteq> path_text rt" "path_text (ps @ [c]) \<noteq> path_text ps"
      using path_text_inj [OF snoc(2)] p(1) False by auto
    then have "existing_ancestor fs (path_text rt) (path_text (ps @ [c])) = Some (path_text anc)"
      using unf False Dir_snoc [OF p] anc(1) by simp
    moreover have "fs_Lstat fs (path_text p) = None" if "strict_prefix anc p" "prefix p (ps @ [c])" for p
      using anc(4) [OF that(1)] that(2) False by (auto simp: prefix_snoc)
    ultimately show ?thesis using anc(2,3) by (intro exI [of _ anc]) (auto simp: prefix_snoc)
  qed
qed

definition root_at :: "fsys \<Rightarrow> string \<Rightarrow> location \<Rightarrow> bool" where
  "root_at fs rootDir rt \<longleftrightarrow> EvalSymlinks fs rootDir = Some (path_text rt) \<and> real_at fs rt \<and> rt \<noteq> []"

lemma resolve_let_through:
  assumes root: "root_at fs rootDir rt"
  shows "\<exists>r. resolveFilesPath fs rootDir rel = Some r \<and>
    (case r of Inl _ \<Rightarrow> True | Inr p \<Rightarrow> \<exists>cs. p = path_text cs \<and> let_through fs rt cs)"
proof -
  have rt: "EvalSymlinks fs rootDir = Some (path_text rt)" "real_at fs rt" "rt \<noteq> []" "plain_path rt"
    using root by (auto simp: root_at_def real_at_def)
  obtain cs where cs: "filepath_Clean (filepath_Join [path_text rt, rel]) = path_text cs" "plain_path cs"
  proof -
    have "prefix ''/'' (filepath_Join [path_text rt, rel])"
      using filepath_Clean_rooted [of "path_text rt @ SLASH # rel"] by (auto simp: filepath_Join_def path_text_def)
    then show ?thesis using that filepath_Clean_rooted by (auto simp: path_text_def)
  qed
  show ?thesis
  proof (cases "rel = [] \<or> \<not> prefix rt cs")
    case True
    then show ?thesis using rt cs under_iff [OF cs(2) rt(4,3)]
      by (auto simp: resolveFilesPath_def under_def let_through_def)
  next
    case False
    note u = under_iff [OF cs(2) rt(4,3)]
    show ?thesis
    proof (cases "walk fs evalLinks [] cs")
      case (Some l)
      have l: "real_at fs l" using walk_real_at [OF Some plain_no_slash [OF cs(2)]] .
      then have "plain_path l" by (simp add: real_at_def)
      then show ?thesis using False rt cs u l Eval_path [OF cs(2), of fs] Some under_iff [of l rt]
        by (auto simp: resolveFilesPath_def under_def let_through_def)
    next
      case None
      have "cs \<noteq> rt" using None real_at_walk [OF rt(2), of evalLinks] by auto
      then obtain ps c where pc: "cs = ps @ [c]" "prefix rt ps" using False
        by (cases cs rule: rev_cases) (auto simp: prefix_snoc)
      have p: "plain_path ps" "plain_component c" using cs(2) pc(1) by auto
      obtain anc where anc: "existing_ancestor fs (path_text rt) (path_text ps) = Some (path_text anc)" "prefix rt anc" "prefix anc ps"
        "\<And>p. strict_prefix anc p \<Longrightarrow> prefix p ps \<Longrightarrow> fs_Lstat fs (path_text p) = None"
        using existing_ancestor_of [OF p(1) pc(2)] by blast
      have pa: "plain_path anc" using anc(3) p(1) by (meson set_mono_prefix subsetD)
      have "let_through fs rt cs" if a: "walk fs evalLinks [] anc = Some a" "prefix rt a" for a
      proof -
        have "strict_prefix anc cs" using anc(3) pc(1) by (auto simp: strict_prefix_def prefix_def)
        moreover have "fs_Lstat fs (path_text p) = None" if "strict_prefix anc p" "strict_prefix p cs" for p
          using anc(4) that pc(1) by (auto simp: strict_prefix_def prefix_snoc)
        ultimately show ?thesis unfolding let_through_def using cs(2) False None a by blast
      qed
      moreover have "plain_path a" if "walk fs evalLinks [] anc = Some a" for a
        using walk_real_at [OF that plain_no_slash [OF pa]] by (simp add: real_at_def)
      ultimately show ?thesis
        using False rt cs(1) u pc(1) None anc(1) Dir_snoc [OF p] Eval_path [OF cs(2), of fs] Eval_path [OF pa, of fs] under_iff [of _ rt]
        by (cases "walk fs evalLinks [] anc") (auto simp: resolveFilesPath_def under_def Let_def)
    qed
  qed
qed

section \<open>Making directories\<close>

text \<open>What \<open>os.MkdirAll\<close> makes is below the last directory on the path that the kernel finds.\<close>

abbreviation made_below :: "fsys \<Rightarrow> location \<Rightarrow> location \<Rightarrow> location \<Rightarrow> bool \<Rightarrow> fsys \<Rightarrow> bool" where
  "made_below fs q ys e b fs1 \<equiv> walk fs kernelLinks [] q = Some e \<and> node_at fs e = Some FDir \<and>
     (if ys = [] then fs1 = fs
      else fs (e @ [hd ys]) = None \<and> fs \<subseteq>\<^sub>m fs1 \<and> (\<forall>l. fs1 l \<noteq> fs l \<longrightarrow> prefix (e @ [hd ys]) l \<and> fs1 l = Some FDir)) \<and>
     (b \<longrightarrow> walk fs1 kernelLinks [] (q @ ys) = Some (e @ ys) \<and> node_at fs1 (e @ ys) = Some FDir)"

lemma MkdirAll_step:
  assumes p: "plain_path (ds @ [c])" and None: "fs_Stat fs (path_text (ds @ [c])) = None"
    and step: "fs_MkdirAll perm (ds @ [c]) fs = (b, fs1)" and rec: "fs_MkdirAll perm ds fs = (b', fs')"
    and ds: "ds = q @ ys" and below: "made_below fs q ys e b' fs'"
  shows "fs1 = fs \<and> \<not> b \<or> (\<exists>q ys e. ds @ [c] = q @ ys \<and> made_below fs q ys e b fs1)"
proof -
  have pl: "plain_path ds" "plain_component c" using p by auto
  note step = step [unfolded fs_MkdirAll.simps [of perm "ds @ [c]"] None]
  have d: "ds = q @ ys" "walk fs kernelLinks [] q = Some e" "node_at fs e = Some FDir"
    and ch: "if ys = [] then fs' = fs
      else fs (e @ [hd ys]) = None \<and> fs \<subseteq>\<^sub>m fs' \<and> (\<forall>l. fs' l \<noteq> fs l \<longrightarrow> prefix (e @ [hd ys]) l \<and> fs' l = Some FDir)"
    and w: "b' \<longrightarrow> walk fs' kernelLinks [] ds = Some (e @ ys) \<and> node_at fs' (e @ ys) = Some FDir"
    using ds below by blast+
  let ?r = "e @ ys @ [c]"
  have keep: ?thesis if "fs1 = fs'" "\<not> b"
    using that d ch by (cases "ys = []") (simp, rule disjI2, rule exI [of _ q], rule exI [of _ "ys @ [c]"], rule exI [of _ e], simp)
  show ?thesis
  proof (cases b')
    case False
    then show ?thesis using keep step rec by simp
  next
    case True
    note w' = conjunct1 [OF mp [OF w True]] conjunct2 [OF mp [OF w True]]
    have en: "entry_of fs' (path_text (ds @ [c])) = Some ?r" using entry_of_snoc [OF pl] w' by simp
    show ?thesis
    proof (cases "fs' ?r = None \<and> perm ?r")
      case made: True
      define fs2 where "fs2 = fs'(?r \<mapsto> FDir)"
      have r: "b" "fs1 = fs2" using step rec True made en by (auto simp: fs_Mkdir_def fs2_def)
      have le: "fs' \<subseteq>\<^sub>m fs2" using made by (auto simp: map_le_def fs2_def)
      have n: "node_at fs2 (e @ ys) = Some FDir" using w'(2) by (auto simp: node_at_def fs2_def split: if_splits)
      have wk: "walk fs2 kernelLinks [] (ds @ [c]) = Some ?r"
        using walk_child [OF walk_extend [OF w'(1) le] n pl(2)] by (simp add: fs2_def)
      have "fs (e @ [hd (ys @ [c])]) = None" using ch made by (cases ys) auto
      moreover have "fs \<subseteq>\<^sub>m fs2" using ch le by (cases ys) (auto intro: map_le_trans)
      moreover have "prefix (e @ [hd (ys @ [c])]) l \<and> fs2 l = Some FDir" if "fs2 l \<noteq> fs l" for l
        using that ch by (cases "l = ?r"; cases ys) (auto simp: fs2_def)
      moreover have "node_at fs2 ?r = Some FDir" by (simp add: node_at_def fs2_def)
      ultimately show ?thesis unfolding r(2) using d wk
        by - (rule disjI2, rule exI [of _ q], rule exI [of _ "ys @ [c]"], rule exI [of _ e], simp)
    next
      case False
      have r: "b = (fs' ?r = Some FDir)" "fs1 = fs'"
        using step rec True False en by (auto simp: fs_Mkdir_def fs_Lstat_def node_at_def)
      show ?thesis
      proof (cases b)
        case b: True
        then have wk: "walk fs' kernelLinks [] (ds @ [c]) = Some ?r" using walk_child [OF w' pl(2)] r(1) by simp
        have "ys \<noteq> []"
        proof
          assume "ys = []"
          then have "fs' = fs" using ch by simp
          then show False using None wk Stat_path [OF p, of fs] r(1) b by (simp add: node_at_def)
        qed
        then show ?thesis using d ch wk r b
          by - (rule disjI2, rule exI [of _ q], rule exI [of _ "ys @ [c]"], rule exI [of _ e], simp add: node_at_def)
      qed (use keep r in simp)
    qed
  qed
qed

lemma MkdirAll_kernel:
  "plain_path ds \<Longrightarrow> fs_MkdirAll perm ds fs = (b, fs1) \<Longrightarrow>
   fs1 = fs \<and> \<not> b \<or> (\<exists>q ys e. ds = q @ ys \<and> made_below fs q ys e b fs1)"
proof (induction ds arbitrary: b fs1 rule: rev_induct)
  case Nil
  have "fs_Stat fs (path_text []) = Some FDir" by (simp add: Stat_path)
  then have "b" "fs1 = fs" using Nil(2) by (simp_all add: fs_MkdirAll.simps)
  then show ?case by (intro disjI2 exI [of _ "[]"]) simp
next
  case (snoc c ds)
  have pl: "plain_path ds" "plain_component c" using snoc(2) by auto
  show ?case
  proof (cases "fs_Stat fs (path_text (ds @ [c]))")
    case (Some x)
    show ?thesis
    proof (cases "x = FDir")
      case True
      then obtain e where "walk fs kernelLinks [] (ds @ [c]) = Some e" "node_at fs e = Some FDir"
        using Some Stat_path [OF snoc(2)] by (auto split: bind_splits)
      moreover have "b" "fs1 = fs" using snoc(3) Some True by (simp_all add: fs_MkdirAll.simps)
      ultimately show ?thesis by - (rule disjI2, rule exI [of _ "ds @ [c]"], rule exI [of _ "[]"], rule exI [of _ e], simp)
    next
      case False
      then show ?thesis using snoc(3) Some by (cases x) (simp_all add: fs_MkdirAll.simps)
    qed
  next
    case None
    obtain b' fs' where rec: "fs_MkdirAll perm ds fs = (b', fs')" by fastforce
    note step = snoc(3) [unfolded fs_MkdirAll.simps [of perm "ds @ [c]"] None]
    from snoc(1) [OF pl(1) rec] show ?thesis
    proof
      assume "fs' = fs \<and> \<not> b'"
      then show ?thesis using step rec by simp
    next
      assume "\<exists>q ys e. ds = q @ ys \<and> made_below fs q ys e b' fs'"
      then obtain q ys e where "ds = q @ ys" "made_below fs q ys e b' fs'" by blast
      then show ?thesis using MkdirAll_step [OF snoc(2) None snoc(3) rec] by blast
    qed
  qed
qed

lemma walk_Lstat:
  assumes t: "fs_tree fs" and p: "plain_path (q @ [z])" and w: "walk fs kernelLinks [] (q @ [z]) = Some e"
  shows "fs_Lstat fs (path_text (q @ [z])) \<noteq> None"
proof -
  obtain d where d: "walk fs kernelLinks [] q = Some d" using walk_append [OF w] by blast
  have z: "plain_component z" "plain_path q" using p by auto
  have f: "fs (d @ [z]) \<noteq> None" using walk_entry [OF w d le_refl z(1)] .
  then have "node_at fs d = Some FDir" using t unfolding fs_tree_def by blast
  then show ?thesis using f by (simp add: fs_Lstat_def entry_of_snoc [OF z(2,1)] d node_at_def)
qed

text \<open>For a missing path, the last directory the kernel finds is really below the root.\<close>

lemma missing_inside:
  assumes t: "fs_tree fs" and p: "plain_path cs"
    and anc: "strict_prefix anc cs" "walk fs evalLinks [] anc = Some a" "prefix rt a"
      "\<forall>p. strict_prefix anc p \<and> strict_prefix p cs \<longrightarrow> fs_Lstat fs (path_text p) = None"
    and q: "walk fs kernelLinks [] q = Some e" "prefix (q @ [y]) cs" "fs (e @ [y]) = None \<or> q @ [y] = cs"
  shows "prefix rt e"
proof -
  have sq: "strict_prefix q cs" using q(2) by (auto simp: strict_prefix_def prefix_def)
  have pq: "plain_path q" "plain_component y" using p q(2) by (auto simp: prefix_def)
  have cmp: "strict_prefix anc q \<or> q = anc \<or> strict_prefix q anc"
    using prefix_same_cases [of anc cs q] anc(1) sq by (auto simp: strict_prefix_def)
  then show ?thesis
  proof (elim disjE)
    assume s: "strict_prefix anc q"
    then obtain q' z where q': "q = q' @ [z]" by (cases q rule: rev_cases) auto
    have "fs_Lstat fs (path_text q) \<noteq> None" using walk_Lstat [OF t] pq(1) q(1) q' by simp
    then show ?thesis using anc(4) s sq by simp
  next
    assume "q = anc"
    then show ?thesis using walk_fuel [OF q(1) links_le] anc(2,3) by simp
  next
    assume s: "strict_prefix q anc"
    then have "prefix (q @ [y]) anc"
      using q(2) anc(1) by (auto simp: strict_prefix_def prefix_def append_eq_append_conv2 Cons_eq_append_conv)
    then obtain zs where zs: "anc = (q @ [y]) @ zs" by (auto simp: prefix_def)
    then obtain x where x: "walk fs evalLinks [] (q @ [y]) = Some x" using walk_append [of fs evalLinks "[]" "q @ [y]" zs] anc(2) by auto
    have "q @ [y] \<noteq> cs" using zs anc(1) by (auto simp: strict_prefix_def)
    then show ?thesis using walk_entry [OF x q(1) links_le pq(2)] q(3) by simp
  qed
qed

section \<open>What the handlers change\<close>

text \<open>After the directories above a path that was let through were made: the new ones are directories below the root, and
  the entry of the path is below the root, not a file if the path is missing.\<close>

lemma let_through_made:
  assumes t: "fs_tree fs" and cs: "let_through fs rt (ds @ [c])" and m: "fs_MkdirAll perm ds fs = (b, fs1)"
  shows "changes_inside [rt] fs fs1 \<and> fs \<subseteq>\<^sub>m fs1 \<and> (\<forall>l. fs1 l \<noteq> fs l \<longrightarrow> fs1 l = Some FDir) \<and>
    (b \<longrightarrow> (\<exists>e. walk fs1 kernelLinks [] ds = Some e \<and> node_at fs1 e = Some FDir \<and> prefix rt (e @ [c]) \<and>
      (real_at fs (ds @ [c]) \<longrightarrow> e = ds) \<and>
      (\<not> real_at fs (ds @ [c]) \<longrightarrow> (\<forall>s. fs (e @ [c]) \<noteq> Some (FFile s)))))"
proof -
  have pl: "plain_path ds" "plain_component c" "plain_path (ds @ [c])" "prefix rt (ds @ [c])" using cs by (auto simp: let_through_def)
  show ?thesis
  proof (cases "real_at fs (ds @ [c])")
    case True
    have r: "real_dir fs ds" using real_at_parent [OF True] by blast
    have w: "walk fs n [] ds = Some ds" "node_at fs ds = Some FDir" for n
      using walk_real [OF r, of n "[]"] r by (auto simp: real_dir_def)
    have "fs1 = fs" using MkdirAll_existing [OF w(1) pl(1), of perm] m by simp
    then show ?thesis using w True pl(4) by simp
  next
    case False
    obtain anc a where anc: "walk fs evalLinks [] (ds @ [c]) = None" "strict_prefix anc (ds @ [c])" "walk fs evalLinks [] anc = Some a" "prefix rt a"
      "\<forall>p. strict_prefix anc p \<and> strict_prefix p (ds @ [c]) \<longrightarrow> fs_Lstat fs (path_text p) = None"
      using cs False unfolding let_through_def by blast
    note inside_q = missing_inside [OF t pl(3) anc(2-5)]
    from MkdirAll_kernel [OF pl(1) m] show ?thesis
    proof (elim disjE exE conjE)
      fix q ys e
      assume d: "ds = q @ ys" "walk fs kernelLinks [] q = Some e" "node_at fs e = Some FDir"
        and ch: "if ys = [] then fs1 = fs
          else fs (e @ [hd ys]) = None \<and> fs \<subseteq>\<^sub>m fs1 \<and> (\<forall>l. fs1 l \<noteq> fs l \<longrightarrow> prefix (e @ [hd ys]) l \<and> fs1 l = Some FDir)"
        and w: "b \<longrightarrow> walk fs1 kernelLinks [] (q @ ys) = Some (e @ ys) \<and> node_at fs1 (e @ ys) = Some FDir"
      have "prefix (q @ [hd (ys @ [c])]) (ds @ [c])" using d(1) by (cases ys) auto
      moreover have "fs (e @ [hd (ys @ [c])]) = None \<or> q @ [hd (ys @ [c])] = ds @ [c]" using ch d(1) by (cases ys) auto
      ultimately have rt: "prefix rt e" using inside_q [OF d(2)] by blast
      have "fs (e @ ys @ [c]) \<noteq> Some (FFile s)" for s
      proof
        assume f: "fs (e @ ys @ [c]) = Some (FFile s)"
        have "ys = []"
        proof (rule ccontr)
          assume "ys \<noteq> []"
          then have "strict_prefix (e @ [hd ys]) (e @ ys @ [c])" by (cases ys) (auto simp: strict_prefix_def)
          then have "node_at fs (e @ [hd ys]) = Some FDir" using fs_tree_prefix [OF t, of "e @ ys @ [c]"] f by blast
          then show False using ch \<open>ys \<noteq> []\<close> by (simp add: node_at_def)
        qed
        then obtain k where "walk fs evalLinks [] (ds @ [c]) = walk fs k e [c]"
          using walk_through [OF walk_fuel [OF d(2) links_le] d(3)] d(1) by auto
        then show False using anc(1) f \<open>ys = []\<close> pl(2) by (simp add: walk_plain)
      qed
      moreover have "changes_inside [rt] fs fs1"
        using ch rt unfolding changes_inside_def inside_def by (cases "ys = []") (auto intro: prefix_order.trans dest!: append_prefixD)
      moreover have "prefix rt (e @ ys @ [c])" using rt by (auto simp: prefix_def)
      moreover have "fs \<subseteq>\<^sub>m fs1 \<and> (\<forall>l. fs1 l \<noteq> fs l \<longrightarrow> fs1 l = Some FDir)" using ch by (cases "ys = []") auto
      ultimately show ?thesis using w [folded d(1)] False by (auto simp del: prefix_snoc)
    qed simp
  qed
qed

lemma let_through_mkdir:
  assumes t: "fs_tree fs" and cs: "let_through fs rt cs" and m: "fs_MkdirAll perm cs fs = (b, fs1)"
  shows "changes_inside [rt] fs fs1"
proof (cases "real_at fs cs")
  case True
  have "fs1 = fs" using MkdirAll_existing [OF real_at_walk [OF True], of perm] m cs by (simp add: let_through_def)
  then show ?thesis by simp
next
  case False
  have pl: "plain_path cs" using cs by (simp add: let_through_def)
  obtain anc a where anc: "walk fs evalLinks [] cs = None" "strict_prefix anc cs" "walk fs evalLinks [] anc = Some a" "prefix rt a"
    "\<forall>p. strict_prefix anc p \<and> strict_prefix p cs \<longrightarrow> fs_Lstat fs (path_text p) = None"
    using cs False unfolding let_through_def by blast
  from MkdirAll_kernel [OF pl m] show ?thesis
  proof (elim disjE exE conjE)
    fix q ys e
    assume d: "cs = q @ ys" "walk fs kernelLinks [] q = Some e" "node_at fs e = Some FDir"
      and ch: "if ys = [] then fs1 = fs
        else fs (e @ [hd ys]) = None \<and> fs \<subseteq>\<^sub>m fs1 \<and> (\<forall>l. fs1 l \<noteq> fs l \<longrightarrow> prefix (e @ [hd ys]) l \<and> fs1 l = Some FDir)"
    have "prefix rt e" if "ys \<noteq> []"
      by (rule missing_inside [OF t pl anc(2-5) d(2), of "hd ys"]) (use that ch d(1) in \<open>cases ys; auto\<close>)+
    then show ?thesis
      using ch unfolding changes_inside_def inside_def by (cases "ys = []") (auto intro: prefix_order.trans dest!: append_prefixD)
  qed simp
qed

text \<open>What is there at a path that was let through is at its location.\<close>

lemma let_through_there:
  assumes t: "fs_tree fs" and cs: "let_through fs rt cs" and l: "fs_Lstat fs (path_text cs) = Some x" "\<forall>t. x \<noteq> FLink t" and ne: "cs \<noteq> []"
  shows "real_at fs cs"
proof (rule ccontr)
  assume n: "\<not> real_at fs cs"
  obtain ds c where dc: "cs = ds @ [c]" using ne by (cases cs rule: rev_cases) auto
  have pl: "plain_path ds" "plain_component c" using cs dc by (auto simp: let_through_def)
  obtain d where d: "walk fs kernelLinks [] ds = Some d" "node_at fs d = Some FDir" "fs (d @ [c]) = Some x"
    using l(1) by (auto simp: fs_Lstat_def dc entry_of_snoc [OF pl] node_at_def split: bind_splits if_splits)
  obtain k where "walk fs evalLinks [] cs = walk fs k d [c]"
    using walk_through [OF walk_fuel [OF d(1) links_le] d(2)] dc by auto
  then have "walk fs evalLinks [] cs \<noteq> None" using d(3) l(2) pl(2) by (cases x) (auto simp: walk_plain)
  then show False using cs n by (simp add: let_through_def)
qed

lemma let_through_Stat:
  assumes "let_through fs rt cs" "fs_Stat fs (path_text cs) = Some x"
  shows "real_at fs cs \<and> node_at fs cs = Some x"
proof -
  have pl: "plain_path cs" using assms(1) by (simp add: let_through_def)
  obtain l where l: "walk fs kernelLinks [] cs = Some l" "node_at fs l = Some x"
    using assms(2) by (auto simp: Stat_path [OF pl] split: bind_splits)
  have "real_at fs cs" using assms(1) walk_fuel [OF l(1) links_le] by (auto simp: let_through_def)
  then show ?thesis using l real_at_walk [of fs cs kernelLinks] by simp
qed

lemma entry_real: "real_at fs cs \<Longrightarrow> cs \<noteq> [] \<Longrightarrow> entry_of fs (path_text cs) = Some cs"
proof -
  assume r: "real_at fs cs" "cs \<noteq> []"
  then obtain ds c where dc: "cs = ds @ [c]" by (cases cs rule: rev_cases) auto
  then have d: "real_dir fs ds" "plain_component c" using r(1) real_at_parent by auto
  have "walk fs kernelLinks [] ds = Some ds" "node_at fs ds = Some FDir" "plain_path ds"
    using walk_real [OF d(1), of kernelLinks "[]"] d(1) by (auto simp: real_dir_def)
  then show ?thesis using dc d(2) by (simp add: entry_of_snoc)
qed

text \<open>Every handler starts from a path that was let through.\<close>

lemma with_path_let_through:
  assumes root: "root_at fs rootDir rt" and k: "\<And>cs. let_through fs rt cs \<Longrightarrow> cs \<noteq> [] \<Longrightarrow> \<exists>r fs'. k (path_text cs) = Some (r, fs') \<and> P r fs'"
    and bad: "P BadRequest fs"
  shows "\<exists>r fs'. with_path fs rootDir rel k = Some (r, fs') \<and> P r fs'"
proof (cases "rel = []")
  case False
  obtain r where r: "resolveFilesPath fs rootDir rel = Some r"
    "case r of Inl _ \<Rightarrow> True | Inr p \<Rightarrow> \<exists>cs. p = path_text cs \<and> let_through fs rt cs"
    using resolve_let_through [OF root] by blast
  show ?thesis
  proof (cases r)
    case (Inr p)
    then obtain cs where "p = path_text cs" "let_through fs rt cs" using r(2) by auto
    moreover have "cs \<noteq> []" using calculation(2) root by (auto simp: let_through_def root_at_def)
    ultimately show ?thesis using k [of cs] False r(1) Inr by (simp add: with_path_def)
  qed (use False r(1) bad in \<open>simp add: with_path_def\<close>)
qed (use bad in \<open>simp add: with_path_def\<close>)

lemma below_iff: "changes_inside [rt] fs fs' \<longleftrightarrow> (\<forall>l. fs' l \<noteq> fs l \<longrightarrow> prefix rt l)"
  by (simp add: changes_inside_def inside_def)

lemma Write_below:
  assumes root: "root_at fs rootDir rt" and t: "fs_tree fs"
  shows "\<exists>r fs'. handleFilesFileWrite perm rootDir rel body fs = Some (r, fs') \<and> (\<forall>l. fs' l \<noteq> fs l \<longrightarrow> prefix rt l)"
  unfolding handleFilesFileWrite_def
proof (rule with_path_let_through [OF root])
  fix cs assume cs: "let_through fs rt cs" "cs \<noteq> []"
  then obtain ds c where dc: "cs = ds @ [c]" by (cases cs rule: rev_cases) auto
  have pl: "plain_path ds" "plain_component c" using cs(1) dc by (auto simp: let_through_def)
  obtain b fs1 where m: "fs_MkdirAll perm ds fs = (b, fs1)" by fastforce
  have made: "changes_inside [rt] fs fs1" "b \<Longrightarrow> \<exists>e. walk fs1 kernelLinks [] ds = Some e \<and> node_at fs1 e = Some FDir \<and> prefix rt (e @ [c])"
    using let_through_made [OF t cs(1) [unfolded dc] m] by auto
  have "\<forall>l. snd (writeUploadToFile perm (path_text cs) body fs1) l \<noteq> fs l \<longrightarrow> prefix rt l" if b
    using made(1) made(2) [OF that] unfolding below_iff dc
    by (auto simp: writeUploadToFile_def fs_replace_def entry_of_snoc [OF pl] simp del: prefix_snoc split: option.split if_splits)
  then show "\<exists>r fs'. Some (case fs_MkdirAll perm (path_parts (filepath_Dir (path_text cs))) fs of
      (True, fs1) \<Rightarrow> writeUploadToFile perm (path_text cs) body fs1 | (False, fs1) \<Rightarrow> (ServerError, fs1)) = Some (r, fs') \<and>
      (\<forall>l. fs' l \<noteq> fs l \<longrightarrow> prefix rt l)"
    using m made(1) by (cases b; cases "writeUploadToFile perm (path_text cs) body fs1")
      (simp_all add: dc Dir_snoc [OF pl] path_parts_text [OF pl(1)] below_iff)
qed simp

lemma Mkdir_below:
  assumes root: "root_at fs rootDir rt" and t: "fs_tree fs"
  shows "\<exists>r fs'. handleFilesMkdir perm rootDir rel fs = Some (r, fs') \<and> (\<forall>l. fs' l \<noteq> fs l \<longrightarrow> prefix rt l)"
  unfolding handleFilesMkdir_def
proof (rule with_path_let_through [OF root])
  fix cs assume cs: "let_through fs rt cs" "cs \<noteq> []"
  have "path_parts (path_text cs) = cs" using cs(1) by (simp add: let_through_def path_parts_text)
  then show "\<exists>r fs'. Some (case fs_MkdirAll perm (path_parts (path_text cs)) fs of (ok, fs1) \<Rightarrow> (if ok then NoContent else ServerError, fs1)) =
      Some (r, fs') \<and> (\<forall>l. fs' l \<noteq> fs l \<longrightarrow> prefix rt l)"
    using let_through_mkdir [OF t cs(1), of perm] by (cases "fs_MkdirAll perm cs fs") (simp add: below_iff)
qed simp

text \<open>Files that may be shown or removed: below the root, and not protected.\<close>

definition free_below :: "location \<Rightarrow> location \<Rightarrow> bool" where
  "free_below rt l \<longleftrightarrow> (\<exists>xs. l = rt @ xs \<and> xs \<noteq> [] \<and> \<not> protected_below xs)"

lemma free_below_mono: "free_below rt l \<Longrightarrow> prefix l l' \<Longrightarrow> free_below rt l'"
  by (auto simp: free_below_def protected_below_def prefix_def protectedPaths_def)

lemma protected_let_through:
  assumes "let_through fs rt cs"
  shows "\<exists>p. isProtectedPath (path_text rt) (path_text cs) = Some p \<and> (\<not> p \<and> cs \<noteq> rt \<longrightarrow> free_below rt cs)"
proof -
  obtain xs where xs: "cs = rt @ xs" using assms by (auto simp: let_through_def prefix_def)
  have "plain_path (rt @ xs)" using assms xs by (simp add: let_through_def)
  from isProtected_below [OF this] xs show ?thesis by (auto simp: free_below_def)
qed

lemma Delete_free:
  assumes root: "root_at fs rootDir rt" and t: "fs_tree fs"
  shows "\<exists>r fs'. handleFilesDelete perm rootDir rel fs = Some (r, fs') \<and> (\<forall>l. fs' l \<noteq> fs l \<longrightarrow> free_below rt l)"
  unfolding handleFilesDelete_def
proof (rule with_path_let_through [OF root])
  fix cs assume cs: "let_through fs rt cs" "cs \<noteq> []"
  have rt: "EvalSymlinks fs rootDir = Some (path_text rt)" using root by (simp add: root_at_def)
  obtain p where p: "isProtectedPath (path_text rt) (path_text cs) = Some p" "\<not> p \<and> cs \<noteq> rt \<longrightarrow> free_below rt cs"
    using protected_let_through [OF cs(1)] by blast
  have rm: "free_below rt l" if "snd (fs_RemoveAll perm (path_text cs) fs) l \<noteq> fs l" "\<not> p" "path_text cs \<noteq> path_text rt"
    "fs_Lstat fs (path_text cs) = Some x" "\<forall>t. x \<noteq> FLink t" for l x
  proof -
    have "real_at fs cs" using let_through_there [OF t cs(1) that(4,5) cs(2)] .
    then have "prefix cs l" using that(1) entry_real [OF _ cs(2)] by (auto simp: fs_RemoveAll_def split: if_splits)
    then show ?thesis using p(2) that(2,3) free_below_mono by auto
  qed
  show "\<exists>r fs'. (case EvalSymlinks fs rootDir of None \<Rightarrow> Some (ServerError, fs)
       | Some realRoot \<Rightarrow>
           if path_text cs = rootDir \<or> path_text cs = realRoot then Some (Forbidden, fs)
           else map_option (\<lambda>protected.
               if protected then (Forbidden, fs)
               else case fs_Lstat fs (path_text cs) of
                      None \<Rightarrow> (NoContent, fs)
                    | Some (FLink _) \<Rightarrow> (BadRequest, fs)
                    | Some _ \<Rightarrow> (case fs_RemoveAll perm (path_text cs) fs of (ok, fs1) \<Rightarrow> (if ok then NoContent else ServerError, fs1)))
             (isProtectedPath realRoot (path_text cs))) = Some (r, fs') \<and> (\<forall>l. fs' l \<noteq> fs l \<longrightarrow> free_below rt l)"
    using rm by (auto simp: rt p(1) split: option.split fnode.split prod.split)
qed simp

lemma Stat_free:
  assumes cs: "let_through fs rt cs" "fs_Stat fs (path_text cs) = Some (FFile s)"
  shows "prefix rt cs \<and> fs cs = Some (FFile s)"
  using let_through_Stat [OF cs] cs(1) by (auto simp: let_through_def node_at_def split: if_splits)

lemma Read_below:
  assumes root: "root_at fs rootDir rt"
  shows "\<exists>r. handleFilesFileRead rootDir rel fs = Some (r, fs) \<and>
    (\<forall>s. r = FileContent s \<longrightarrow> (\<exists>l. prefix rt l \<and> fs l = Some (FFile s)))"
proof -
  have "\<exists>r fs'. handleFilesFileRead rootDir rel fs = Some (r, fs') \<and>
    (fs' = fs \<and> (\<forall>s. r = FileContent s \<longrightarrow> (\<exists>l. prefix rt l \<and> fs l = Some (FFile s))))"
    unfolding handleFilesFileRead_def
    by (rule with_path_let_through [OF root]) (auto dest: Stat_free split: option.splits fnode.splits if_splits)
  then show ?thesis by blast
qed

text \<open>A successful rename moves only what is free, to a place below the root.\<close>

lemma Rename_moved:
  assumes t: "fs_tree fs"
    and f: "let_through fs rt f" "f \<noteq> []" "f \<noteq> rt \<longrightarrow> free_below rt f" "fs_Lstat fs (path_text f) = Some x" "\<forall>t. x \<noteq> FLink t"
    and g: "let_through fs rt (ds @ [c])" "fs_Stat fs (path_text (ds @ [c])) = None"
    and m: "fs_MkdirAll perm ds fs = (True, fs1)" and mv: "fs_Rename perm (path_text f) (path_text (ds @ [c])) fs1 = Some fs2"
    and l: "fs2 l \<noteq> fs l"
  shows "prefix rt l \<and> (fs l \<noteq> None \<and> (\<forall>t. fs l \<noteq> Some (FLink t)) \<longrightarrow> free_below rt l)"
proof -
  have rf: "real_at fs f" using let_through_there [OF t f(1,4,5,2)] .
  have pl: "plain_path ds" "plain_component c" using g(1) by (auto simp: let_through_def)
  have nr: "\<not> real_at fs (ds @ [c])"
  proof
    assume r: "real_at fs (ds @ [c])"
    then have "fs_Stat fs (path_text (ds @ [c])) = node_at fs (ds @ [c])"
      using real_at_walk [OF r, of kernelLinks] Stat_path [of "ds @ [c]" fs] pl by simp
    then show False using g(2) r by (simp add: real_at_def)
  qed
  obtain e where made: "changes_inside [rt] fs fs1" "fs \<subseteq>\<^sub>m fs1" "\<And>l. fs1 l \<noteq> fs l \<Longrightarrow> fs1 l = Some FDir"
    and e: "walk fs1 kernelLinks [] ds = Some e" "node_at fs1 e = Some FDir" "prefix rt (e @ [c])" "\<And>s. fs (e @ [c]) \<noteq> Some (FFile s)"
    using let_through_made [OF t g(1) m] nr by auto
  have n1: "node_at fs1 p = node_at fs p" if "node_at fs p \<noteq> None" for p
    using made(2) that by (auto simp: node_at_def map_le_def dom_def)
  have "real_at fs1 f" using rf n1 by (auto simp: real_at_def)
  then have ef: "entry_of fs1 (path_text f) = Some f" using entry_real f(2) by blast
  have eg: "entry_of fs1 (path_text (ds @ [c])) = Some (e @ [c])" using entry_of_snoc [OF pl] e(1,2) by simp
  have r: "\<not> prefix f (e @ [c])" "fs1 (e @ [c]) \<noteq> Some FDir"
    "fs2 = (\<lambda>l. if prefix (e @ [c]) l then fs1 (f @ drop (length (e @ [c])) l) else if prefix f l then None else fs1 l)"
    using mv by (auto simp: fs_Rename_def ef eg split: if_splits)
  have "f \<noteq> rt" using r(1) e(3) by auto
  then have ff: "free_below rt f" using f(3) by simp
  then have pf: "prefix rt f" by (auto simp: free_below_def)
  have new: "fs (e @ [c]) = None \<or> (\<exists>t. fs (e @ [c]) = Some (FLink t))"
    using made(3) [of "e @ [c]"] r(2) e(4) by (cases "fs (e @ [c])"; cases "fs1 (e @ [c]) = fs (e @ [c])") (auto, metis fnode.exhaust)
  consider "prefix (e @ [c]) l" | "prefix f l" | "fs1 l \<noteq> fs l" using l r(3) by (auto split: if_splits)
  then show ?thesis
  proof cases
    case 1
    have "fs l = None \<or> (\<exists>t. fs l = Some (FLink t))"
    proof (cases "l = e @ [c]")
      case False
      then have "strict_prefix (e @ [c]) l" using 1 by (simp add: strict_prefix_def)
      then show ?thesis using fs_tree_prefix [OF t, of l "e @ [c]"] new by (auto simp: node_at_def)
    qed (use new in simp)
    then show ?thesis using prefix_order.trans [OF e(3) 1] by auto
  next
    case 2
    then show ?thesis using ff pf free_below_mono prefix_order.trans by blast
  next
    case 3
    then have "prefix rt l" using made(1) by (simp add: below_iff)
    moreover have "fs l = None" using made(2) 3 by (cases "fs l") (auto simp: map_le_def dom_def)
    ultimately show ?thesis by simp
  qed
qed

lemma Rename_free:
  assumes root: "root_at fs rootDir rt" and t: "fs_tree fs"
  shows "\<exists>r fs'. handleFilesRename perm rootDir from_path to_path fs = Some (r, fs') \<and>
    (\<forall>l. fs' l \<noteq> fs l \<longrightarrow> prefix rt l \<and> (fs l \<noteq> None \<and> (\<forall>t. fs l \<noteq> Some (FLink t)) \<longrightarrow> free_below rt l))"
    (is "\<exists>r fs'. _ \<and> ?P r fs'")
proof (cases "from_path = [] \<or> to_path = []")
  case False
  have rt: "EvalSymlinks fs rootDir = Some (path_text rt)" using root by (simp add: root_at_def)
  show ?thesis unfolding handleFilesRename_def if_not_P [OF False]
  proof (rule with_path_let_through [OF root], rule with_path_let_through [OF root])
    fix f g assume f: "let_through fs rt f" "f \<noteq> []" and g: "let_through fs rt g" "g \<noteq> []"
    obtain ds c where dc: "g = ds @ [c]" using g(2) by (cases g rule: rev_cases) auto
    have pl: "plain_path ds" "plain_component c" using g(1) dc by (auto simp: let_through_def)
    obtain p where p: "isProtectedPath (path_text rt) (path_text f) = Some p" "\<not> p \<and> f \<noteq> rt \<longrightarrow> free_below rt f"
      using protected_let_through [OF f(1)] by blast
    obtain b fs1 where m: "fs_MkdirAll perm ds fs = (b, fs1)" by fastforce
    have made: "?P r fs1" for r
    proof -
      have "changes_inside [rt] fs fs1" "fs \<subseteq>\<^sub>m fs1" using let_through_made [OF t g(1) [unfolded dc] m] by auto
      then show ?thesis by (auto simp: below_iff map_le_def dom_def)
    qed
    have moved': "?P r fs2" if "\<not> p" "fs_Lstat fs (path_text f) = Some x" "\<forall>t. x \<noteq> FLink t" "fs_Stat fs (path_text g) = None" b
        "fs_Rename perm (path_text f) (path_text g) fs1 = Some fs2" for r x fs2
      using Rename_moved [OF t f _ that(2,3)] g(1) that m p(2) dc by simp
    show "\<exists>r fs'. (case EvalSymlinks fs rootDir of
         None \<Rightarrow> Some (ServerError, fs)
       | Some realRoot \<Rightarrow>
           map_option (\<lambda>protected.
               if protected then (Forbidden, fs)
               else case fs_Lstat fs (path_text f) of
                      None \<Rightarrow> (FileMissing, fs)
                    | Some (FLink _) \<Rightarrow> (BadRequest, fs)
                    | Some _ \<Rightarrow>
                        if fs_Stat fs (path_text g) \<noteq> None then (Conflict, fs)
                        else case fs_MkdirAll perm (path_parts (filepath_Dir (path_text g))) fs of
                               (False, fs1) \<Rightarrow> (ServerError, fs1)
                             | (True, fs1) \<Rightarrow>
                                 (case fs_Rename perm (path_text f) (path_text g) fs1 of
                                    None \<Rightarrow> (ServerError, fs1)
                                  | Some fs2 \<Rightarrow> (NoContent, fs2)))
             (isProtectedPath realRoot (path_text f))) = Some (r, fs') \<and> ?P r fs'"
    proof (cases "fs_Lstat fs (path_text f)")
      case None
      then show ?thesis by (cases p) (simp_all add: rt p(1))
    next
      case (Some x)
      have par: "path_parts (filepath_Dir (path_text g)) = ds" by (simp add: dc Dir_snoc [OF pl] path_parts_text [OF pl(1)])
      show ?thesis
      proof (cases "p \<or> (\<exists>t. x = FLink t) \<or> fs_Stat fs (path_text g) \<noteq> None")
        case True
        then show ?thesis using Some by (cases p; cases x) (auto simp: rt p(1))
      next
        case False
        then show ?thesis using Some m made moved' [OF _ Some]
          by (cases x; cases b; cases "fs_Rename perm (path_text f) (path_text g) fs1") (simp_all add: rt p(1) par)
      qed
    qed
  qed simp_all
qed (simp add: handleFilesRename_def)

section \<open>Confinement of the file browser\<close>


section \<open>Shared files\<close>

lemma share_let_through:
  assumes root: "root_at fs rootDir rt"
  shows "\<exists>r. resolveShareToken dec rootDir token fs = Some r \<and>
    (\<forall>rel p. r = Some (rel, p) \<longrightarrow> dec token = Some rel \<and> (\<exists>cs. p = path_text cs \<and> let_through fs rt cs \<and> (cs \<noteq> rt \<longrightarrow> free_below rt cs)))"
proof (cases "dec token")
  case (Some rel)
  have rt: "EvalSymlinks fs rootDir = Some (path_text rt)" using root by (simp add: root_at_def)
  obtain r where r: "resolveFilesPath fs rootDir rel = Some r"
    "case r of Inl _ \<Rightarrow> True | Inr p \<Rightarrow> \<exists>cs. p = path_text cs \<and> let_through fs rt cs"
    using resolve_let_through [OF root] by blast
  show ?thesis
  proof (cases r)
    case (Inr p)
    then obtain cs where cs: "p = path_text cs" "let_through fs rt cs" using r(2) by auto
    obtain b where b: "isProtectedPath (path_text rt) (path_text cs) = Some b" "\<not> b \<and> cs \<noteq> rt \<longrightarrow> free_below rt cs"
      using protected_let_through [OF cs(2)] by blast
    have "resolveShareToken dec rootDir token fs = Some (if b then None else Some (rel, path_text cs))"
      using Some r(1) Inr cs(1) rt b(1) by (simp add: resolveShareToken_def)
    then show ?thesis using Some cs(2) b(2) by auto
  qed (use Some r(1) in \<open>simp add: resolveShareToken_def\<close>)
qed (simp add: resolveShareToken_def)

lemma shared_content:
  assumes root: "root_at fs rootDir rt" and d: "fs rt = Some FDir"
    and cs: "let_through fs rt cs" "cs \<noteq> rt \<longrightarrow> free_below rt cs" and s: "fs_Stat fs (path_text cs) = Some (FFile s)"
  shows "free_below rt cs \<and> fs cs = Some (FFile s)"
  using Stat_free [OF cs(1) s] cs(2) d by (cases "cs = rt") auto

text \<open>C27. A share link shows only what may be shared: whatever path a token holds and wherever symbolic links lead, the content
  that is returned is that of a file that really lies below the platform root, not in the
  configuration; every request is answered.\<close>

theorem shared_files_confined:
  assumes root: "root_at fs rootDir rt" and d: "fs rt = Some FDir"
  shows "(\<exists>r. handleSharedFileInfo dec size rootDir token fs = Some r \<and>
      (\<forall>name n s. r = SharedInfo name n (Some s) \<longrightarrow> (\<exists>l. free_below rt l \<and> fs l = Some (FFile s)))) \<and>
    (\<exists>r. handleSharedFileRaw dec rootDir token fs = Some r \<and>
      (\<forall>s. r = FileContent s \<longrightarrow> (\<exists>l. free_below rt l \<and> fs l = Some (FFile s))))"
proof -
  obtain r where r: "resolveShareToken dec rootDir token fs = Some r"
    "\<And>rel p. r = Some (rel, p) \<Longrightarrow> \<exists>cs. p = path_text cs \<and> let_through fs rt cs \<and> (cs \<noteq> rt \<longrightarrow> free_below rt cs)"
    using share_let_through [OF root, of dec token] by blast
  show ?thesis
  proof (cases r)
    case None
    then show ?thesis using r(1) by (simp add: handleSharedFileInfo_def handleSharedFileRaw_def)
  next
    case (Some x)
    then obtain rel cs where x: "r = Some (rel, path_text cs)" "let_through fs rt cs" "cs \<noteq> rt \<longrightarrow> free_below rt cs"
      using r(2) by (cases x) blast
    note sh = shared_content [OF root d x(2,3)]
    have "\<exists>l. free_below rt l \<and> fs l = Some (FFile s)" if "fs_ReadFile fs (path_text cs) = Some s" for s
      using that sh by (auto simp: fs_ReadFile_def split: option.splits fnode.splits)
    then have "\<exists>r. handleSharedFileInfo dec size rootDir token fs = Some r \<and>
        (\<forall>name n s. r = SharedInfo name n (Some s) \<longrightarrow> (\<exists>l. free_below rt l \<and> fs l = Some (FFile s)))"
      using r(1) x(1) by (auto simp: handleSharedFileInfo_def Let_def split: option.split if_split)
    moreover have "\<exists>r. handleSharedFileRaw dec rootDir token fs = Some r \<and>
        (\<forall>s. r = FileContent s \<longrightarrow> (\<exists>l. free_below rt l \<and> fs l = Some (FFile s)))"
      using r(1) x(1) sh by (auto simp: handleSharedFileRaw_def split: option.split fnode.split)
    ultimately show ?thesis by blast
  qed
qed

section \<open>A platform root\<close>

definition demo_root :: fsys where
  "demo_root = map_of [([''h''], FDir), ([''h'', ''config''], FDir), ([''h'', ''config'', ''c''], FFile ''secret''),
     ([''h'', ''workspace''], FDir), ([''h'', ''workspace'', ''f''], FFile ''hi''), ([''h'', ''workspace'', ''l''], FLink ''../config/c'')]"

lemma demo_root_at: "root_at demo_root ''/h'' [''h'']"
proof -
  have "EvalSymlinks demo_root ''/h'' = Some (path_text [''h''])" by code_simp
  moreover have "real_at demo_root [''h'']"
    by (auto simp: real_at_def plain_component_def node_at_def demo_root_def strict_prefix_def prefix_Cons)
  ultimately show ?thesis by (simp add: root_at_def)
qed

lemma demo_root_tree: "fs_tree demo_root"
  by (auto simp: fs_tree_def demo_root_def node_at_def split: if_splits)


theorem shared_files_confined_witness:
  "\<exists>r. handleSharedFileRaw (\<lambda>_. Some ''workspace/l'') ''/h'' ''token'' demo_root = Some r \<and> r \<noteq> FileContent ''secret''"
proof -
  have "demo_root [''h''] = Some FDir" by (simp add: demo_root_def)
  then obtain r where r: "handleSharedFileRaw (\<lambda>_. Some ''workspace/l'') ''/h'' ''token'' demo_root = Some r"
    "\<And>s. r = FileContent s \<Longrightarrow> \<exists>l. free_below [''h''] l \<and> demo_root l = Some (FFile s)"
    using shared_files_confined [OF demo_root_at, where dec = "\<lambda>_. Some ''workspace/l''" and token = "''token''"] by blast
  have "l = [''h'', ''config'', ''c'']" if "demo_root l = Some (FFile ''secret'')" for l
    using that by (simp add: demo_root_def split: if_splits)
  moreover have "\<not> free_below [''h''] [''h'', ''config'', ''c'']" by (simp add: free_below_def protected_below_def)
  ultimately show ?thesis using r by metis
qed

end
