(* ===== verification/Login.thy ===== *)
theory Login
  imports Control_Plane
begin

text \<open>
  Logging in, \<open>src/internal/api/auth.go\<close>: the limiter of failed attempts, the address it goes by, the login and
  password handlers and the guards of the API.  Password hashing (\<open>bcrypt\<close>) and the classification of
  addresses are parameters; a login is split where the limiter releases its lock.
\<close>

section \<open>Requests\<close>

text \<open>\<open>rq_peer\<close> is the host of the connection, \<open>rq_local\<close> whether it is a loopback or private address; a missing header is
  empty, and the cookie is the one named by \<open>sessionCookieName\<close>.\<close>

record http_request =
  rq_peer :: string
  rq_local :: bool
  rq_tls :: bool
  rq_forwardedProto_https :: bool
  rq_XForwardedFor :: string
  rq_XRealIp :: string
  rq_Authorization :: string
  rq_cookie :: "string option"

definition isTLS :: "http_request \<Rightarrow> bool" where
  "isTLS r \<longleftrightarrow> rq_tls r \<or> rq_local r \<and> rq_forwardedProto_https r"

definition clientIP :: "http_request \<Rightarrow> string" where
  "clientIP r =
     (if rq_local r then
        if rq_XForwardedFor r \<noteq> [] then
          (case Cut (rq_XForwardedFor r) (CHR '','') of
             Some (first, _) \<Rightarrow> TrimSpace first
           | None \<Rightarrow> TrimSpace (rq_XForwardedFor r))
        else if rq_XRealIp r \<noteq> [] then TrimSpace (rq_XRealIp r)
        else rq_peer r
      else rq_peer r)"

section \<open>The limiter\<close>

type_synonym loginLimiter = "(string, gotime list) gomap"

definition maxLoginAttemptsPerMinute :: nat where "maxLoginAttemptsPerMinute = 5"
definition minute :: int where "minute = 60 * 1000000000"

definition attempts_of :: "loginLimiter \<Rightarrow> string \<Rightarrow> gotime list" where
  "attempts_of l ip = (case gomap_get l ip of None \<Rightarrow> [] | Some ts \<Rightarrow> ts)"

definition allow :: "gotime \<Rightarrow> string \<Rightarrow> loginLimiter \<Rightarrow> bool \<times> loginLimiter" where
  "allow now ip l =
     (let window = now - minute;
          valid = filter (\<lambda>t. t > window) (attempts_of l ip)
      in (length valid < maxLoginAttemptsPerMinute, gomap_put ip valid l))"

definition record_failure :: "gotime \<Rightarrow> string \<Rightarrow> loginLimiter \<Rightarrow> loginLimiter" where
  "record_failure now ip l = gomap_put ip (attempts_of l ip @ [now]) l"

section \<open>Handlers\<close>

datatype auth_reply =
    AuthUnavailable | TooManyAttempts | BadBody | NoPassword | WrongPassword | AuthInternal | PasswordTooShort
  | LoggedIn string | PasswordChanged "string option" | Unauthorized | SetupIncomplete | Passed

text \<open>What the outside contributes: the encoder of the configuration file, whether it can be written, random bytes, the HMAC and the
  two functions of \<open>bcrypt\<close>.\<close>

record ('p, 'd) auth_env =
  ae_enc :: "('p, 'd) cfg_encoder"
  ae_disk :: "'d disk option"
  ae_random :: "string option"
  ae_hmac :: hmac
  ae_compare :: "string \<Rightarrow> string \<Rightarrow> bool"
  ae_generate :: "string \<Rightarrow> string option"

definition tokenSigner ::
  "('p, 'd) auth_env \<Rightarrow> ('p, 'd) ControlPlane \<Rightarrow> TokenSigner option \<times> ('p, 'd) ControlPlane" where
  "tokenSigner env cp =
     (case CP_TokenSigner (ae_enc env) (ae_disk env) (ae_random env) cp of
        (Inl _, cp') \<Rightarrow> (None, cp')
      | (Inr s, cp') \<Rightarrow> (Some s, cp'))"

text \<open>The part of \<open>handleLogin\<close> after the limiter; the flag tells it to record a failure.\<close>

definition login_check ::
  "('p, 'd) auth_env \<Rightarrow> gotime \<Rightarrow> string option \<Rightarrow> ('p, 'd) ControlPlane \<Rightarrow> auth_reply \<times> bool \<times> ('p, 'd) ControlPlane" where
  "login_check env now password cp =
     (case password of
        None \<Rightarrow> (BadBody, False, cp)
      | Some pw \<Rightarrow>
          if PasswordHash cp = [] then (NoPassword, False, cp)
          else if \<not> ae_compare env (PasswordHash cp) pw then (WrongPassword, True, cp)
          else case tokenSigner env cp of
                 (None, cp') \<Rightarrow> (AuthInternal, False, cp')
               | (Some signer, cp') \<Rightarrow> (LoggedIn (Token_Create (ae_hmac env) signer now), False, cp'))"

definition handleLogin ::
  "('p, 'd) auth_env \<Rightarrow> gotime \<Rightarrow> gotime \<Rightarrow> http_request \<Rightarrow> string option \<Rightarrow> ('p, 'd) ControlPlane option \<Rightarrow> loginLimiter \<Rightarrow>
   auth_reply \<times> ('p, 'd) ControlPlane option \<times> loginLimiter" where
  "handleLogin env now later req password cp l =
     (case cp of
        None \<Rightarrow> (AuthUnavailable, None, l)
      | Some cp \<Rightarrow>
          let ip = clientIP req in
          (case allow now ip l of
             (False, l1) \<Rightarrow> (TooManyAttempts, Some cp, l1)
           | (True, l1) \<Rightarrow>
               (case login_check env later password cp of
                  (r, failed, cp') \<Rightarrow> (r, Some cp', if failed then record_failure later ip l1 else l1))))"

definition minPasswordLength :: nat where "minPasswordLength = 8"

definition handleChangePassword ::
  "('p, 'd) auth_env \<Rightarrow> gotime \<Rightarrow> (string \<times> string) option \<Rightarrow> ('p, 'd) ControlPlane option \<Rightarrow>
   auth_reply \<times> ('p, 'd) ControlPlane option" where
  "handleChangePassword env now body s_cp =
     (case (s_cp, body) of
        (None, _) \<Rightarrow> (AuthUnavailable, s_cp)
      | (Some _, None) \<Rightarrow> (BadBody, s_cp)
      | (Some cp, Some (current, new)) \<Rightarrow>
          if length new < minPasswordLength then (PasswordTooShort, s_cp)
          else if \<not> ae_compare env (PasswordHash cp) current then (WrongPassword, s_cp)
          else case ae_generate env new of
                 None \<Rightarrow> (AuthInternal, s_cp)
               | Some newHash \<Rightarrow>
                   (case CP_Save (ae_enc env) (ae_disk env) (SetPasswordHash newHash cp) of
                      (_, cp1) \<Rightarrow>
                        (case tokenSigner env cp1 of
                           (signer, cp2) \<Rightarrow> (PasswordChanged (map_option (\<lambda>s. Token_Create (ae_hmac env) s now) signer), Some cp2))))"

definition isAuthenticated ::
  "('p, 'd) auth_env \<Rightarrow> gotime \<Rightarrow> http_request \<Rightarrow> ('p, 'd) ControlPlane \<Rightarrow> bool \<times> ('p, 'd) ControlPlane" where
  "isAuthenticated env now r cp =
     (case tokenSigner env cp of
        (None, cp') \<Rightarrow> (False, cp')
      | (Some s, cp') \<Rightarrow>
          (if (case rq_cookie r of Some c \<Rightarrow> Token_Valid (ae_hmac env) s now c | None \<Rightarrow> False) then True
           else prefix ''Bearer '' (rq_Authorization r) \<and> Token_Valid (ae_hmac env) s now (drop 7 (rq_Authorization r)), cp'))"

definition requireAuth ::
  "('p, 'd) auth_env \<Rightarrow> gotime \<Rightarrow> http_request \<Rightarrow> ('p, 'd) ControlPlane option \<Rightarrow> auth_reply \<times> ('p, 'd) ControlPlane option" where
  "requireAuth env now r cp =
     (case cp of
        None \<Rightarrow> (Unauthorized, None)
      | Some cp \<Rightarrow> (case isAuthenticated env now r cp of (ok, cp') \<Rightarrow> (if ok then Passed else Unauthorized, Some cp')))"

definition requireStrictAuth ::
  "('p, 'd) auth_env \<Rightarrow> gotime \<Rightarrow> http_request \<Rightarrow> ('p, 'd) ControlPlane option \<Rightarrow> auth_reply \<times> ('p, 'd) ControlPlane option" where
  "requireStrictAuth env now r cp =
     (case requireAuth env now r cp of
        (Passed, Some cp') \<Rightarrow> (if NeedsSetup cp' then SetupIncomplete else Passed, Some cp')
      | x \<Rightarrow> x)"

text \<open>The answer of \<open>handleAuthStatus\<close>; \<open>envMode\<close> is the mode the environment sets.\<close>

record authStatusResponse =
  as_needsSetup :: bool
  as_authRequired :: bool
  as_authenticated :: bool
  as_mode :: string

definition handleAuthStatus ::
  "('p, 'd) auth_env \<Rightarrow> string \<Rightarrow> gotime \<Rightarrow> http_request \<Rightarrow> ('p, 'd) ControlPlane option \<Rightarrow>
   authStatusResponse \<times> ('p, 'd) ControlPlane option" where
  "handleAuthStatus env envMode now r cp =
     (case cp of
        None \<Rightarrow> (\<lparr>as_needsSetup = False, as_authRequired = False, as_authenticated = True, as_mode = []\<rparr>, None)
      | Some cp \<Rightarrow>
          (case (if NeedsSetup cp then (True, cp) else isAuthenticated env now r cp) of
             (ok, cp') \<Rightarrow>
               (\<lparr>as_needsSetup = NeedsSetup cp, as_authRequired = \<not> NeedsSetup cp, as_authenticated = ok,
                 as_mode = ClusterMode envMode cp'\<rparr>, Some cp')))"

section \<open>Concurrent attempts\<close>

text \<open>Requests between the limiter and the end of the password check are in flight; at most \<open>k\<close> of an address.
  \<open>ls_failed\<close> is the log of all failed attempts.\<close>

record login_sys =
  ls_limiter :: loginLimiter
  ls_now :: gotime
  ls_checking :: "string list"
  ls_failed :: "(string \<times> gotime) list"

inductive login_step :: "nat \<Rightarrow> login_sys \<Rightarrow> login_sys \<Rightarrow> bool" for k where
  time_passes: "ls_now y \<le> t \<Longrightarrow> login_step k y (y\<lparr>ls_now := t\<rparr>)"
| admit: "allow (ls_now y) ip (ls_limiter y) = (True, l) \<Longrightarrow> count_list (ls_checking y) ip < k \<Longrightarrow>
     login_step k y (y\<lparr>ls_limiter := l, ls_checking := ip # ls_checking y\<rparr>)"
| refuse: "allow (ls_now y) ip (ls_limiter y) = (False, l) \<Longrightarrow> login_step k y (y\<lparr>ls_limiter := l\<rparr>)"
| wrong: "ls_checking y = xs @ ip # ys \<Longrightarrow>
     login_step k y (y\<lparr>ls_limiter := record_failure (ls_now y) ip (ls_limiter y), ls_checking := xs @ ys,
       ls_failed := ls_failed y @ [(ip, ls_now y)]\<rparr>)"
| other_end: "ls_checking y = xs @ ip # ys \<Longrightarrow> login_step k y (y\<lparr>ls_checking := xs @ ys\<rparr>)"

definition login_start :: "gotime \<Rightarrow> login_sys" where
  "login_start t = \<lparr>ls_limiter = [], ls_now = t, ls_checking = [], ls_failed = []\<rparr>"

definition recent_failures :: "login_sys \<Rightarrow> string \<Rightarrow> (string \<times> gotime) list" where
  "recent_failures y ip = filter (\<lambda>(i, t). i = ip \<and> ls_now y - minute < t) (ls_failed y)"

text \<open>The handler does what the steps do.\<close>

lemma handleLogin_steps:
  assumes run: "handleLogin env now now req pw (Some cp) (ls_limiter y) = (r, cp', l')" and "ls_now y = now" "ls_checking y = []" "0 < k"
  shows "\<exists>failed. (login_step k)\<^sup>*\<^sup>* y (y\<lparr>ls_limiter := l', ls_failed := failed\<rparr>) \<and>
    failed = ls_failed y @ (if r = WrongPassword then [(clientIP req, now)] else [])"
proof -
  let ?ip = "clientIP req"
  obtain b l1 where a: "allow now ?ip (ls_limiter y) = (b, l1)" by fastforce
  show ?thesis
  proof (cases b)
    case False
    then have "login_step k y (y\<lparr>ls_limiter := l1\<rparr>)" using a assms(2) login_step.refuse [of y] by simp
    moreover have "r = TooManyAttempts" "l' = l1" using run a False by (simp_all add: handleLogin_def Let_def)
    ultimately show ?thesis by (auto intro!: r_into_rtranclp)
  next
    case True
    let ?y1 = "y\<lparr>ls_limiter := l1, ls_checking := [?ip]\<rparr>"
    have s1: "login_step k y ?y1" using login_step.admit [of y ?ip l1 k] a True assms(2-4) by simp
    obtain f c where c: "login_check env now pw cp = (r, f, c)" "l' = (if f then record_failure now ?ip l1 else l1)"
      using run a True by (auto simp: handleLogin_def Let_def split: prod.splits)
    have f: "f \<longleftrightarrow> r = WrongPassword" using c(1) by (auto simp: login_check_def split: option.splits if_splits prod.splits)
    have "y\<lparr>ls_limiter := l', ls_failed := fs\<rparr> = y\<lparr>ls_limiter := l', ls_checking := [], ls_failed := fs\<rparr>" for fs
      using assms(3) by (cases y) simp
    then have "login_step k ?y1 (y\<lparr>ls_limiter := l', ls_failed := ls_failed y @ (if f then [(?ip, now)] else [])\<rparr>)"
      using login_step.wrong [of ?y1 "[]" ?ip "[]" k] login_step.other_end [of ?y1 "[]" ?ip "[]" k] c(2) assms(2) by (cases f) simp_all
    with s1 show ?thesis unfolding f by (meson converse_rtranclp_into_rtranclp r_into_rtranclp)
  qed
qed

definition login_ok :: "nat \<Rightarrow> login_sys \<Rightarrow> bool" where
  "login_ok k y \<longleftrightarrow> (\<forall>ip. filter (\<lambda>t. ls_now y - minute < t) (attempts_of (ls_limiter y) ip) = map snd (recent_failures y ip) \<and>
     length (recent_failures y ip) + count_list (ls_checking y) ip \<le> 4 + k)"

lemma attempts_put: "attempts_of (gomap_put ip ts l) ip' = (if ip' = ip then ts else attempts_of l ip')"
  by (simp add: attempts_of_def)

lemma minute_pos: "0 < minute"
  by (simp add: minute_def)

lemma login_ok_limiter:
  assumes ok: "login_ok k y" and a: "allow (ls_now y) ip (ls_limiter y) = (b, l)"
  shows "filter (\<lambda>t. ls_now y - minute < t) (attempts_of l ip') = map snd (recent_failures y ip')"
    "b \<longleftrightarrow> length (recent_failures y ip) < 5"
proof -
  let ?v = "filter (\<lambda>t. ls_now y - minute < t) (attempts_of (ls_limiter y) ip)"
  have l: "b \<longleftrightarrow> length ?v < 5" "l = gomap_put ip ?v (ls_limiter y)"
    using a by (auto simp: allow_def Let_def maxLoginAttemptsPerMinute_def)
  have v: "filter (\<lambda>t. ls_now y - minute < t) (attempts_of (ls_limiter y) i) = map snd (recent_failures y i)" for i
    using ok by (simp add: login_ok_def)
  show "b \<longleftrightarrow> length (recent_failures y ip) < 5" using l(1) unfolding v by simp
  show "filter (\<lambda>t. ls_now y - minute < t) (attempts_of l ip') = map snd (recent_failures y ip')"
    using v [of ip] v [of ip'] by (cases "ip' = ip") (simp_all add: l(2) attempts_put flip: v)
qed

lemma login_step_ok: "login_step k y y' \<Longrightarrow> login_ok k y \<Longrightarrow> login_ok k y'"
proof (induction rule: login_step.induct)
  case (time_passes y t)
  have later: "ls_now y - minute < x" if "t - minute < x" for x using that time_passes(1) by simp
  have f: "filter (\<lambda>x. t - minute < x) xs = filter (\<lambda>x. t - minute < x) (filter (\<lambda>x. ls_now y - minute < x) xs)" for xs
    using later by (auto intro!: filter_cong)
  have r: "recent_failures (y\<lparr>ls_now := t\<rparr>) ip = filter (\<lambda>(_, x). t - minute < x) (recent_failures y ip)" for ip
    using later by (auto simp: recent_failures_def intro!: filter_cong)
  have "filter (\<lambda>x. t - minute < x) (attempts_of (ls_limiter y) ip) = map snd (recent_failures (y\<lparr>ls_now := t\<rparr>) ip)" for ip
  proof -
    have "filter (\<lambda>x. ls_now y - minute < x) (attempts_of (ls_limiter y) ip) = map snd (recent_failures y ip)"
      using time_passes(2) by (simp add: login_ok_def)
    then show ?thesis unfolding f [of "attempts_of (ls_limiter y) ip"] r by (simp add: filter_map comp_def case_prod_unfold)
  qed
  moreover have "length (recent_failures (y\<lparr>ls_now := t\<rparr>) ip) \<le> length (recent_failures y ip)" for ip unfolding r by simp
  ultimately show ?case using time_passes(2) unfolding login_ok_def by (auto intro: order_trans [OF add_right_mono])
next
  case (admit y ip l)
  have "recent_failures (y\<lparr>ls_limiter := l, ls_checking := ip # ls_checking y\<rparr>) i = recent_failures y i" for i by (simp add: recent_failures_def)
  then show ?case using admit(2,3) login_ok_limiter [OF admit(3,1)] by (auto simp: login_ok_def)
next
  case (refuse y ip l)
  have "recent_failures (y\<lparr>ls_limiter := l\<rparr>) i = recent_failures y i" for i by (simp add: recent_failures_def)
  then show ?case using refuse(2) login_ok_limiter [OF refuse(2,1)] by (auto simp: login_ok_def)
next
  case (wrong y xs ip ys)
  let ?y = "y\<lparr>ls_limiter := record_failure (ls_now y) ip (ls_limiter y), ls_checking := xs @ ys, ls_failed := ls_failed y @ [(ip, ls_now y)]\<rparr>"
  have r: "recent_failures ?y i = recent_failures y i @ (if i = ip then [(ip, ls_now y)] else [])" for i
    using minute_pos by (simp add: recent_failures_def)
  have a: "attempts_of (ls_limiter ?y) i = attempts_of (ls_limiter y) i @ (if i = ip then [ls_now y] else [])" for i
    by (simp add: record_failure_def attempts_put)
  have "filter (\<lambda>t. ls_now y - minute < t) (attempts_of (ls_limiter y) i) = map snd (recent_failures y i)" for i
    using wrong(2) by (simp add: login_ok_def)
  then have v: "filter (\<lambda>t. ls_now ?y - minute < t) (attempts_of (ls_limiter ?y) i) = map snd (recent_failures ?y i)" for i
    unfolding r a using minute_pos by simp
  have h: "length (recent_failures y i) + count_list (ls_checking y) i \<le> 4 + k" for i
    using wrong(2) by (simp add: login_ok_def)
  have c: "length (recent_failures ?y i) + count_list (ls_checking ?y) i \<le> 4 + k" for i
    using h [of i] unfolding r wrong(1) by (cases "i = ip") (simp_all split: if_splits)
  show ?case unfolding login_ok_def using v c by blast
next
  case (other_end y xs ip ys)
  have "recent_failures (y\<lparr>ls_checking := xs @ ys\<rparr>) i = recent_failures y i" for i by (simp add: recent_failures_def)
  moreover have "count_list (xs @ ys) i \<le> count_list (ls_checking y) i" for i using other_end(1) by simp
  ultimately show ?case using other_end(2) unfolding login_ok_def by (auto intro: order_trans [OF add_left_mono])
qed

text \<open>C26. Guessing passwords is limited: if at most \<open>k\<close> login requests of an address are checked at the same time, then in every minute at most
  four more than \<open>k\<close> of its attempts fail, five for one request after the other, in every
  interleaving and however time passes.\<close>

theorem login_failures_bounded:
  assumes run: "(login_step k)\<^sup>*\<^sup>* (login_start t) y"
  shows "length (filter (\<lambda>(i, t). i = ip \<and> ls_now y - minute < t) (ls_failed y)) \<le> 4 + k"
proof -
  have "login_ok k y" using run
  proof (induction rule: rtranclp_induct)
    case base
    then show ?case by (simp add: login_ok_def login_start_def recent_failures_def attempts_of_def)
  qed (auto intro: login_step_ok)
  then have "length (recent_failures y ip) + count_list (ls_checking y) ip \<le> 4 + k" by (simp add: login_ok_def)
  then show ?thesis by (simp add: recent_failures_def)
qed

section \<open>Sessions\<close>

lemma tokenSigner_cached:
  assumes "tokenSigner env cp = (Some s, cp')"
  shows "cp_signer cp' = Some s"
proof (cases "cp_signer cp")
  case None
  have "CP_TokenSigner (ae_enc env) (ae_disk env) (ae_random env) cp = (Inr s, cp')"
    using assms by (auto simp: tokenSigner_def split: prod.splits sum.splits)
  then show ?thesis using None
    by (auto simp: CP_TokenSigner_def cache_signer_def split: if_splits option.splits prod.splits)
next
  case (Some s')
  then show ?thesis using assms by (simp add: tokenSigner_def TokenSigner_cached)
qed

text \<open>C28. A login opens a session with the password only, and for its time: a token is handed out only if the password matches the stored
  hash; while no operation drops the signing key, a request that carries it passes the guard of the
  API exactly until the lifetime of the signer is over.\<close>

theorem login_opens_session:
  assumes login: "handleLogin env now later req pw (Some cp) l = (LoggedIn tok, cp', l')"
    and ops: "\<forall>op\<in>set ops. \<not> drops_signer op" and hmac: "ae_hmac env2 = ae_hmac env" and r: "rq_Authorization r = []"
    and range: "\<And>s. cp_signer (the cp') = Some s \<Longrightarrow> - (2 ^ 63) \<le> Unix (later + ts_ttl s) \<and> Unix (later + ts_ttl s) < 2 ^ 63"
  shows "\<exists>p cp1 s. pw = Some p \<and> ae_compare env (PasswordHash cp) p \<and> cp' = Some cp1 \<and> cp_signer cp1 = Some s \<and>
    (fst (requireAuth env2 t (r\<lparr>rq_cookie := Some tok\<rparr>) (Some (cp_run enc dec ops cp1))) = Passed \<longleftrightarrow> Unix t \<le> Unix (later + ts_ttl s))"
proof -
  obtain p cp1 s where c: "pw = Some p" "ae_compare env (PasswordHash cp) p" "tokenSigner env cp = (Some s, cp1)" "cp' = Some cp1"
    "tok = Token_Create (ae_hmac env) s later"
    using login by (auto simp: handleLogin_def login_check_def Let_def split: prod.splits bool.splits option.splits if_splits)
  have s: "cp_signer cp1 = Some s" using tokenSigner_cached [OF c(3)] .
  have "cp_signer (cp_run enc dec ops cp1) = Some s" using signer_run [OF s ops] .
  then have "tokenSigner env2 (cp_run enc dec ops cp1) = (Some s, cp_run enc dec ops cp1)" by (simp add: tokenSigner_def TokenSigner_cached)
  moreover have "sint (word_of_int (Unix (later + ts_ttl s)) :: 64 word) = Unix (later + ts_ttl s)"
    using range c(4) s by (simp add: signed_of_int signed_take_bit_int_eq_self)
  ultimately show ?thesis using c s r hmac
    by (auto simp: requireAuth_def isAuthenticated_def Token_Create_def Token_Valid_created)
qed

theorem login_failures_bounded_witness:
  "length (filter (\<lambda>(i, t). i = ''1.2.3.4'' \<and> 0 - minute < t) [(''1.2.3.4'', 0)]) \<le> 4 + 1"
proof -
  let ?ip = "''1.2.3.4''"
  let ?y1 = "login_start 0\<lparr>ls_limiter := [(?ip, [])], ls_checking := [?ip]\<rparr>"
  let ?y2 = "?y1\<lparr>ls_limiter := record_failure 0 ?ip [(?ip, [])], ls_checking := [], ls_failed := [(?ip, 0)]\<rparr>"
  have "login_step 1 (login_start 0) ?y1"
    using login_step.admit [of "login_start 0" ?ip "[(?ip, [])]" 1]
    by (simp add: login_start_def allow_def attempts_of_def maxLoginAttemptsPerMinute_def gomap_put_def)
  moreover have "login_step 1 ?y1 ?y2" using login_step.wrong [of ?y1 "[]" ?ip "[]" 1] by (simp add: login_start_def)
  ultimately have "(login_step 1)\<^sup>*\<^sup>* (login_start 0) ?y2" by (meson converse_rtranclp_into_rtranclp r_into_rtranclp)
  from login_failures_bounded [OF this, of ?ip] show ?thesis by (simp add: login_start_def)
qed

text \<open>A control plane with a password and a signer, and a browser.\<close>

definition session_cp :: "(unit, unit Config) ControlPlane" where
  "session_cp = (SetPasswordHash ''hash'' example_cp)\<lparr>cp_signer := Some \<lparr>ts_secret = replicate 32 CHR ''k'', ts_ttl = sessionTTL\<rparr>\<rparr>"

definition login_env :: "(unit, unit Config) auth_env" where
  "login_env = \<lparr>ae_enc = Some, ae_disk = None, ae_random = None, ae_hmac = (\<lambda>key msg. key),
     ae_compare = (\<lambda>hash pw. hash = ''hash'' \<and> pw = ''secret''), ae_generate = (\<lambda>_. None)\<rparr>"

definition browser :: http_request where
  "browser = \<lparr>rq_peer = ''1.2.3.4'', rq_local = False, rq_tls = True, rq_forwardedProto_https = False, rq_XForwardedFor = [],
     rq_XRealIp = [], rq_Authorization = [], rq_cookie = None\<rparr>"

theorem login_opens_session_witness:
  "\<exists>tok cp' l'. handleLogin login_env 0 0 browser (Some ''secret'') (Some session_cp) [] = (LoggedIn tok, cp', l') \<and>
     (\<exists>cp1. cp' = Some cp1 \<and>
        fst (requireAuth login_env 86400000000000 (browser\<lparr>rq_cookie := Some tok\<rparr>) (Some (cp_run Some Some [OpSave None] cp1))) = Passed)"
proof -
  let ?s = "\<lparr>ts_secret = replicate 32 CHR ''k'', ts_ttl = sessionTTL\<rparr>"
  let ?tok = "Token_Create (\<lambda>key msg. key) ?s 0"
  have login: "handleLogin login_env 0 0 browser (Some ''secret'') (Some session_cp) [] = (LoggedIn ?tok, Some session_cp, gomap_put ''1.2.3.4'' [] [])"
    by (simp add: handleLogin_def login_check_def allow_def attempts_of_def clientIP_def browser_def login_env_def session_cp_def
        maxLoginAttemptsPerMinute_def PasswordHash_def SetPasswordHash_def tokenSigner_def CP_TokenSigner_def)
  have "fst (requireAuth login_env 86400000000000 (browser\<lparr>rq_cookie := Some ?tok\<rparr>) (Some (cp_run Some Some [OpSave None] session_cp))) = Passed"
    using login_opens_session [OF login, of "[OpSave None]" login_env browser 86400000000000 Some Some]
    by (simp add: browser_def session_cp_def sessionTTL_def Unix_def)
  with login show ?thesis by blast
qed

section \<open>What the limiter does not stop\<close>

lemma wrong_run:
  "ls_checking y = replicate n ip \<Longrightarrow>
   \<exists>y'. (login_step k)\<^sup>*\<^sup>* y y' \<and> length (recent_failures y' ip) = length (recent_failures y ip) + n"
proof (induction n arbitrary: y)
  case (Suc n)
  let ?y = "y\<lparr>ls_limiter := record_failure (ls_now y) ip (ls_limiter y), ls_checking := replicate n ip, ls_failed := ls_failed y @ [(ip, ls_now y)]\<rparr>"
  have s: "login_step k y ?y" using Suc.prems login_step.wrong [of y "[]" ip "replicate n ip" k] by simp
  have "length (recent_failures ?y ip) = Suc (length (recent_failures y ip))" using minute_pos by (simp add: recent_failures_def)
  with Suc.IH [of ?y] s show ?case by (auto intro: converse_rtranclp_into_rtranclp)
qed auto

text \<open>Requests that arrive before the first of them is recorded are all admitted: the check and the record take the lock of the limiter one
  after the other, so as many attempts fail within the minute as requests are in flight.\<close>

lemma concurrent_logins_pass: "\<exists>y. (login_step k)\<^sup>*\<^sup>* (login_start t) y \<and> length (recent_failures y ip) = k"
proof -
  have "\<exists>y. (login_step k)\<^sup>*\<^sup>* (login_start t) y \<and> ls_checking y = replicate n ip \<and> attempts_of (ls_limiter y) ip = [] \<and> recent_failures y ip = []"
    if "n \<le> k" for n using that
  proof (induction n)
    case 0
    then show ?case by (intro exI [of _ "login_start t"]) (simp add: login_start_def attempts_of_def recent_failures_def)
  next
    case (Suc n)
    then obtain y where y: "(login_step k)\<^sup>*\<^sup>* (login_start t) y" "ls_checking y = replicate n ip" "attempts_of (ls_limiter y) ip = []"
      "recent_failures y ip = []" by auto
    let ?y = "y\<lparr>ls_limiter := gomap_put ip [] (ls_limiter y), ls_checking := ip # ls_checking y\<rparr>"
    have "count_list (replicate n ip) ip = n" by (induction n) simp_all
    then have "login_step k y ?y" using y(2,3) Suc.prems by (intro login_step.admit) (simp_all add: allow_def maxLoginAttemptsPerMinute_def)
    with y show ?case by (intro exI [of _ ?y]) (auto simp: attempts_put recent_failures_def)
  qed
  from this [of k] obtain y where "(login_step k)\<^sup>*\<^sup>* (login_start t) y" "ls_checking y = replicate k ip" "recent_failures y ip = []" by auto
  with wrong_run [of y k ip k] show ?thesis by (auto intro: rtranclp_trans)
qed

text \<open>Behind a local proxy that appends to \<open>X-Forwarded-For\<close>, the limiter goes by what the client wrote there.\<close>

lemma client_chooses_address:
  "rq_local r \<Longrightarrow> rq_XForwardedFor r = fake @ '','' @ real \<Longrightarrow> CHR '','' \<notin> set fake \<Longrightarrow> clientIP r = TrimSpace fake"
  using Cut_Some [of "fake @ CHR '','' # real" "CHR '',''" fake real] by (simp add: clientIP_def)

end
