(* ===== verification/Spec2Isabelle.thy ===== *)
theory Spec2Isabelle
  imports Tool_Inheritance Assembly Cluster_Registry Hub Instance_Config Schedule_Tools Channel_Router
    Manager_Restore Instance_Update Model_Resolution Instance_Tools FS_Policy Terminal_Stream Terminal_Socket Files_API Login
begin

text \<open>
  Verification of hiro, a platform that runs LLM agents (Go, \<open>src/internal\<close>).

  \<^bold>\<open>The program.\<close>  The agent manager (\<open>agent/\<close>) keeps a tree of agent instances.  An instance has session
  slots, one per channel, each with a worker process and an inference loop (\<open>inference/\<close>) that talks to
  a language model and calls tools.  Every tool call passes the rules of the instance (\<open>toolrules/\<close>), which
  it inherits from its parent.  Conversations, instances, sessions and subscriptions are rows of the
  platform database (\<open>platform/db/\<close>); the scheduler (\<open>agent/scheduler.go\<close>) fires subscriptions.  The router
  (\<open>channel/\<close>) moves messages, slash commands and notifications between channels and instances, behind
  an access check per sender.  The control plane (\<open>controlplane/\<close>) holds the configuration: password,
  providers, secrets and the nodes of the cluster.  Operators open terminals on the nodes (\<open>api/terminal*.go\<close>), browse and share files
  (\<open>api/files.go\<close>, \<open>api/share.go\<close>) and log in with a password (\<open>api/auth.go\<close>).

  \<^bold>\<open>Theories, in the order they build on each other.\<close>  Definitions keep the names of the source; a clash
  is resolved by a prefix (\<open>mgr_\<close>, \<open>sched_\<close>, \<open>fs_\<close>).  A Go map is an association list (\<open>gomap\<close>), an error a
  value of a datatype of its component, a mutex-protected method one atomic function, and what goroutines
  interleave a step relation.
  \<^item> \<open>Hiro_Prelude\<close>: Go strings, maps and times, with the lemmas all others share.
  \<^item> \<open>Tool_Rules\<close>, \<open>Wildcard\<close>, \<open>Bash_Match\<close>, \<open>Go_Path\<close>, \<open>Tool_Checker\<close>, \<open>Tool_Inheritance\<close>:
    \<open>toolrules/\<close>, the rules of \<open>agent/manager_resolve.go\<close> and the tool proxies of the inference loop.  The
    matcher equals its specification, a checker decides as deny before allow, and a child never calls what
    its parent may not.
  \<^item> \<open>Message_Store\<close>, \<open>Context_View\<close>, \<open>Context_Selection\<close>, \<open>Compaction\<close>, \<open>Compaction_Lossless\<close>, \<open>Assembly\<close>:
    \<open>platform/db/messages.go\<close>, \<open>inference/compaction.go\<close>, \<open>inference/assembly.go\<close>.  Compaction, also
    interleaved with new messages, never loses a message from the tree of summaries; the assembled context
    is the newest part that fits the budget.
  \<^item> \<open>Keyed_Store\<close>, \<open>Cluster_Registry\<close>, \<open>Notifications\<close>, \<open>Hub\<close>: \<open>cluster/registry.go\<close>, \<open>cluster/pending.go\<close>,
    \<open>inference/notifications.go\<close>, \<open>hub/hub.go\<close>, as instances of locales for keyed, counted and bounded
    containers.
  \<^item> \<open>Auth_Token\<close>, \<open>Model_Spec\<close>, \<open>Control_Plane\<close>, \<open>Control_Commands\<close>, \<open>Instance_Config\<close>: \<open>auth/\<close>, \<open>models/\<close>,
    \<open>controlplane/\<close>, \<open>config/instance_config.go\<close> and \<open>channel/access.go\<close>.  Reloads against concurrent writes,
    revocation, rotation of sessions, no access without approval.
  \<^item> \<open>Go_Heap\<close>, \<open>Platform_DB\<close>, \<open>Subscription_Store\<close>, \<open>Scheduler\<close>, \<open>Scheduler_Safety\<close>, \<open>Schedule_Tools\<close>:
    \<open>container/heap\<close>, the tables of instances, sessions and subscriptions with their constraints and
    cascades, the scheduler with its run loop, and the scheduling tools.
  \<^item> \<open>Channel_Format\<close>, \<open>Channel_Router\<close>: \<open>channel/format.go\<close>, \<open>channel/channel.go\<close>, \<open>channel/router.go\<close>.
  \<^item> \<open>Manager_Registry\<close>, \<open>Manager_Lifecycle\<close>, \<open>Manager_Session\<close>, \<open>Manager_Invariant\<close>, \<open>Manager_Steps\<close>,
    \<open>Manager_Restore\<close>: the manager over registry, database, scheduler, directories and workers; its
    invariant, every operation against it, all reachable states, and the restart of the server.
  \<^item> \<open>Instance_Update\<close>, \<open>Model_Resolution\<close>: changes of model, effort and tools of an instance, and the
    choice of a model and its credentials.
  \<^item> \<open>Instance_Tools\<close>: \<open>inference/tools_spawn.go\<close>, the tools with which agents manage instances, and the
    proof that all agents a turn sets in motion stay below the one it started with.
  \<^item> \<open>File_System\<close>, \<open>File_Tools\<close>, \<open>FS_Policy\<close>: directories, files and symbolic links; the tools \<open>Read\<close>, \<open>Write\<close>
    and \<open>Edit\<close> with the confinement of paths (\<open>agent/tools/\<close>); the file system policy
    (\<open>platform/fspolicy/\<close>) that gives them their roots.  The tools stay within the roots where the
    symbolic links really lead, and under the default policy never touch configuration or database.
  \<^item> \<open>Terminal_Session\<close>, \<open>Terminal_Safety\<close>, \<open>Terminal_Stream\<close>, \<open>Terminal_Filter\<close>, \<open>Terminal_Socket\<close>: terminals
    (\<open>api/terminal_session.go\<close>, \<open>api/terminal_filter.go\<close>, \<open>api/terminal.go\<close>).  Limits and shells under all
    interleavings; what an attached client sees refines the log of the shell; the filter removes
    exactly the queries from complete terminal output; sessions outlive connections.
  \<^item> \<open>Files_API\<close>: the file browser and the share links of the web interface (\<open>api/files.go\<close>, \<open>api/share.go\<close>).  They show and
    change nothing outside the root, where links really lead, and the browser never removes or renames a protected path.
  \<^item> \<open>Login\<close>: \<open>api/auth.go\<close>.  The limiter of failed attempts bounds the guesses per minute by the requests in flight; a token is
    given only for the password and passes the guard of the API until it expires.

  \<^bold>\<open>Parameters.\<close>  Language models, the shell parser, YAML and JSON codecs, HMAC, password hashes, share tokens, cron parsing, clocks, random
  identifiers, process spawning and I/O failures are arguments of the definitions or fields of an
  environment record; what a theorem needs of them is a named hypothesis (\<open>codec_ok\<close>, \<open>env_ok\<close>, \<open>pick_ok\<close>,
  fresh identifiers), and its witness instantiates it.

  \<^bold>\<open>Bounds and fuel.\<close>  Times are integers in nanoseconds; the expiry of a token is a 64-bit word.  Loops whose
  end is not structural are \<open>partial_function (option)\<close>, so that not returning is \<open>None\<close>, and the theorems
  state that they return: the walk over descendants in every state that satisfies the manager's invariant
  (the tree is acyclic), the splitting of messages for every positive limit.  The sweep of the compactor
  runs at most ten rounds, as in the source.  The walk over symbolic links carries the number of links it may still follow, 40 in the
  kernel and 255 in \<open>EvalSymlinks\<close>, as the system does.

  \<^bold>\<open>Not modelled.\<close>  The other HTTP and WebSocket handlers, gRPC and TLS transport, discovery, the web front end and the
  Telegram, Slack and web channels (I/O around the operations above); the streaming loop of the model
  library; Landlock and process spawning (system calls); logging and usage statistics; full-text search
  (SQLite's FTS engine); \<open>cmd/hiro\<close> (wiring).
\<close>

end
